(* ===== verification/Ekk_Prelude.thy ===== *)
theory Ekk_Prelude
  imports Main "HOL-Library.Word" "HOL-Library.Signed_Division"
begin

text \<open>
  Shared vocabulary of the development: the C integer types, the loops over
  fixed-size arrays that the components have in common, and the facts about them.

  Unsigned C integers are words of their width, so \<open>+\<close>, \<open>-\<close> and \<open>*\<close> wrap as in C.
  Signed C integers are values of type \<^typ>\<open>int\<close>; every conversion to a signed type
  (and every signed operation whose result the code stores) goes through
  \<open>to_i16\<close>, \<open>to_i32\<close> or \<open>to_i64\<close>, which reduce to the two's complement range.

  A C array of \<open>N\<close> elements is a list of length \<open>N\<close>; the element count kept beside it
  says which prefix is live.
\<close>

section \<open>Machine integers\<close>

type_synonym u8 = "8 word"
type_synonym u16 = "16 word"
type_synonym u32 = "32 word"
type_synonym u64 = "64 word"

named_theorems c_arith \<open>C integer conversions on values in range\<close>
named_theorems loop_simps \<open>closed forms of the loops over arrays\<close>

definition INT32_MAX :: int where "INT32_MAX = 2147483647"
definition INT32_MIN :: int where "INT32_MIN = - 2147483648"

definition to_i16 :: "int \<Rightarrow> int" where
  "to_i16 x = (x + 32768) mod 65536 - 32768"

definition to_i32 :: "int \<Rightarrow> int" where
  "to_i32 x = (x + 2147483648) mod 4294967296 - 2147483648"

definition to_i64 :: "int \<Rightarrow> int" where
  "to_i64 x = (x + 9223372036854775808) mod 18446744073709551616 - 9223372036854775808"

definition is_i32 :: "int \<Rightarrow> bool" where
  "is_i32 x \<longleftrightarrow> - 2147483648 \<le> x \<and> x \<le> 2147483647"

lemma to_i32_id [c_arith]: "- 2147483648 \<le> x \<Longrightarrow> x \<le> 2147483647 \<Longrightarrow> to_i32 x = x"
  by (simp add: to_i32_def)

lemma to_i16_id [c_arith]: "- 32768 \<le> x \<Longrightarrow> x \<le> 32767 \<Longrightarrow> to_i16 x = x"
  by (simp add: to_i16_def)

lemma to_i64_id [c_arith]:
  "- 9223372036854775808 \<le> x \<Longrightarrow> x \<le> 9223372036854775807 \<Longrightarrow> to_i64 x = x"
  by (simp add: to_i64_def)

lemma is_i32_to_i32 [simp]: "is_i32 (to_i32 x)"
proof -
  have "0 \<le> (x + 2147483648) mod 4294967296" "(x + 2147483648) mod 4294967296 < 4294967296"
    by simp_all
  then show ?thesis unfolding is_i32_def to_i32_def by linarith
qed

lemma to_i32_is_i32 [c_arith]: "is_i32 x \<Longrightarrow> to_i32 x = x"
  by (simp add: is_i32_def to_i32_id)

lemma sdiv_nonneg: "0 \<le> a \<Longrightarrow> 0 \<le> b \<Longrightarrow> a sdiv b = a div b" for a b :: int
  by (auto simp: signed_divide_int_def sgn_if)

lemma unat_u8_less: "unat (x :: u8) < 256" using unsigned_less [of x] by simp
lemma unat_u16_less: "unat (x :: u16) < 65536" using unsigned_less [of x] by simp
lemma unat_u32_less: "unat (x :: u32) < 4294967296" using unsigned_less [of x] by simp
lemma unat_u64_less: "unat (x :: u64) < 18446744073709551616" using unsigned_less [of x] by simp

lemmas unat_bounds = unat_u8_less unat_u16_less unat_u32_less unat_u64_less

lemma unat_ucast_up [c_arith]:
  "unat (ucast (x :: u8) :: u16) = unat x"
  "unat (ucast (x :: u8) :: u32) = unat x"
  "unat (ucast (x :: u8) :: u64) = unat x"
  "unat (ucast (y :: u16) :: u32) = unat y"
  "unat (ucast (y :: u16) :: u64) = unat y"
  "unat (ucast (z :: u32) :: u64) = unat z"
  using unat_u8_less [of x] unat_u16_less [of y] unat_u32_less [of z]
  by (simp_all add: unsigned_ucast_eq take_bit_nat_eq_self)

lemma unat_small: "i \<le> 0xFFFFFFFF \<Longrightarrow> unat (of_nat i :: u32) = i"
  by (simp add: unat_of_nat take_bit_nat_eq_self)

lemma of_nat_eq_small: "i < 0xFFFFFFFF \<Longrightarrow> j < 0xFFFFFFFF \<Longrightarrow> (of_nat i :: u32) = of_nat j \<longleftrightarrow> i = j"
  by (metis less_imp_le unat_small)

lemma uint_eq_unat: "uint x = int (unat x)" by simp

lemma unat_u32_Suc: "x \<noteq> 0xFFFFFFFF \<Longrightarrow> unat (x + 1) = Suc (unat x)" for x :: u32
proof -
  assume "x \<noteq> 0xFFFFFFFF"
  then have "unat x \<noteq> unat (0xFFFFFFFF :: u32)" by (metis word_unat_eq_iff)
  then have "unat x \<noteq> 4294967295" by simp
  with unat_u32_less [of x] have "Suc (unat x) < 4294967296" by linarith
  then show ?thesis by (simp add: unat_word_ariths)
qed

lemma u32_less_Suc: "x \<noteq> 0xFFFFFFFF \<Longrightarrow> x < x + 1" for x :: u32
  by (simp add: word_less_nat_alt unat_u32_Suc)

section \<open>Search loops\<close>

text \<open>
  \<open>for (i = 0; i < n; i++) if (P(a[i])) return i; return -1;\<close>, the search of
  \<open>find_neighbor_index\<close>, \<open>find_ballot_index\<close>, \<open>find_known_index\<close> and others.
  The result \<open>None\<close> is the code's \<open>-1\<close>.
\<close>

function find_from :: "('a \<Rightarrow> bool) \<Rightarrow> 'a list \<Rightarrow> nat \<Rightarrow> nat \<Rightarrow> nat option" where
  "find_from P xs i n =
     (if i < n then (if P (xs ! i) then Some i else find_from P xs (Suc i) n) else None)"
  by pat_completeness auto
termination
  by (relation "measure (\<lambda>(P, xs, i, n). n - i)") auto

declare find_from.simps [simp del]

lemma find_from_None: "find_from P xs i n = None \<longleftrightarrow> (\<forall>k. i \<le> k \<and> k < n \<longrightarrow> \<not> P (xs ! k))"
proof (induction P xs i n rule: find_from.induct)
  case (1 P xs i n)
  show ?case
  proof (cases "i < n \<and> \<not> P (xs ! i)")
    case True
    with 1 have "find_from P xs i n = None \<longleftrightarrow> (\<forall>k. Suc i \<le> k \<and> k < n \<longrightarrow> \<not> P (xs ! k))"
      by (simp add: find_from.simps [of P xs i n])
    moreover have "(\<forall>k. Suc i \<le> k \<and> k < n \<longrightarrow> \<not> P (xs ! k)) \<longleftrightarrow> (\<forall>k. i \<le> k \<and> k < n \<longrightarrow> \<not> P (xs ! k))"
      using True by (metis Suc_leI le_neq_implies_less Suc_leD)
    ultimately show ?thesis by simp
  next
    case False
    then show ?thesis by (auto simp: find_from.simps [of P xs i n])
  qed
qed

lemma find_from_SomeD:
  "find_from P xs i n = Some j \<Longrightarrow> i \<le> j \<and> j < n \<and> P (xs ! j) \<and> (\<forall>k. i \<le> k \<and> k < j \<longrightarrow> \<not> P (xs ! k))"
proof (induction P xs i n rule: find_from.induct)
  case (1 P xs i n)
  show ?case
  proof (cases "i < n \<and> \<not> P (xs ! i)")
    case True
    with 1 have "Suc i \<le> j \<and> j < n \<and> P (xs ! j) \<and> (\<forall>k. Suc i \<le> k \<and> k < j \<longrightarrow> \<not> P (xs ! k))"
      by (simp add: find_from.simps [of P xs i n])
    with True show ?thesis by (metis Suc_leI le_eq_less_or_eq Suc_leD)
  next
    case False
    with 1(2) show ?thesis by (auto simp: find_from.simps [of P xs i n] split: if_splits)
  qed
qed

lemma find_from_None_live:
  assumes "n \<le> length xs"
  shows "find_from P xs 0 n = None \<longleftrightarrow> (\<forall>x \<in> set (take n xs). \<not> P x)"
  using assms by (force simp: find_from_None in_set_conv_nth)

lemma find_from_Some_less: "find_from P xs i n = Some j \<Longrightarrow> j < n"
  by (blast dest: find_from_SomeD)

lemma find_from_Some_sat: "find_from P xs i n = Some j \<Longrightarrow> P (xs ! j)"
  by (blast dest: find_from_SomeD)

lemma find_from_unique:
  assumes "j < n" "P (xs ! j)" "\<And>k. k < j \<Longrightarrow> \<not> P (xs ! k)"
  shows "find_from P xs 0 n = Some j"
proof (cases "find_from P xs 0 n")
  case None
  with assms(1,2) show ?thesis by (auto simp: find_from_None)
next
  case (Some m)
  from find_from_SomeD [OF Some] assms have "m = j"
    by (metis less_linear zero_le)
  with Some show ?thesis by simp
qed

lemma find_from_cong:
  "(\<And>k. k < n \<Longrightarrow> P (xs ! k) = Q (ys ! k)) \<Longrightarrow> find_from P xs i n = find_from Q ys i n"
proof (induction P xs i n rule: find_from.induct)
  case (1 P xs i n)
  then show ?case by (simp add: find_from.simps [of P xs i n] find_from.simps [of Q ys i n])
qed

section \<open>Shifting an element out\<close>

text \<open>\<open>for (j = i; j < n - 1; j++) a[j] = a[j + 1];\<close> with \<open>n > 0\<close>.\<close>

function shift_down :: "'a list \<Rightarrow> nat \<Rightarrow> nat \<Rightarrow> 'a list" where
  "shift_down xs i n = (if i < n - 1 then shift_down (xs[i := xs ! Suc i]) (Suc i) n else xs)"
  by pat_completeness auto
termination
  by (relation "measure (\<lambda>(xs, i, n). n - i)") auto

declare shift_down.simps [simp del]

lemma shift_down_end: "n - 1 \<le> i \<Longrightarrow> shift_down xs i n = xs"
  by (subst shift_down.simps) simp

lemma length_shift_down [simp]: "length (shift_down xs i n) = length xs"
  by (induction xs i n rule: shift_down.induct) (subst shift_down.simps, simp)

lemma nth_shift_down:
  "n \<le> length xs \<Longrightarrow> k < length xs \<Longrightarrow>
   shift_down xs i n ! k = (if i \<le> k \<and> k < n - 1 then xs ! Suc k else xs ! k)"
proof (induction xs i n rule: shift_down.induct)
  case (1 xs i n)
  show ?case
  proof (cases "i < n - 1")
    case True
    with 1 have "shift_down xs i n ! k =
        (if Suc i \<le> k \<and> k < n - 1 then xs[i := xs ! Suc i] ! Suc k else xs[i := xs ! Suc i] ! k)"
      by (simp add: shift_down.simps [of xs i n])
    with True 1(2,3) show ?thesis by (auto simp: nth_list_update)
  next
    case False
    then show ?thesis by (auto simp: shift_down.simps [of xs i n])
  qed
qed

lemma take_shift_down [loop_simps]:
  assumes "n \<le> length xs" "i < n"
  shows "take (n - 1) (shift_down xs i n) = take i xs @ drop (Suc i) (take n xs)"
proof (rule nth_equalityI)
  show "length (take (n - 1) (shift_down xs i n)) = length (take i xs @ drop (Suc i) (take n xs))"
    using assms by simp
  fix k assume "k < length (take (n - 1) (shift_down xs i n))"
  then have "k < n - 1" "k < length xs" by simp_all
  with assms show "take (n - 1) (shift_down xs i n) ! k = (take i xs @ drop (Suc i) (take n xs)) ! k"
    by (simp add: nth_shift_down nth_append)
qed

lemma take_Suc_shift_down:
  assumes "Suc m \<le> length xs" "i \<le> m"
  shows "take m (shift_down xs i (Suc m)) = take i xs @ drop (Suc i) (take (Suc m) xs)"
  using take_shift_down [of "Suc m" xs i] assms by simp

section \<open>Compaction\<close>

text \<open>
  The read/write index loop that keeps the elements satisfying \<open>keep\<close>, in order, at the
  front of the array and returns the new count.
\<close>

function compact :: "('a \<Rightarrow> bool) \<Rightarrow> 'a list \<Rightarrow> nat \<Rightarrow> nat \<Rightarrow> nat \<Rightarrow> 'a list \<times> nat" where
  "compact keep xs r w n =
     (if r < n
      then (if keep (xs ! r)
            then compact keep (if w \<noteq> r then xs[w := xs ! r] else xs) (Suc r) (Suc w) n
            else compact keep xs (Suc r) w n)
      else (xs, w))"
  by pat_completeness auto
termination
  by (relation "measure (\<lambda>(keep, xs, r, w, n). n - r)") auto

declare compact.simps [simp del]

lemma compact_spec:
  assumes "w \<le> r" "r \<le> n" "n \<le> length xs" "compact keep xs r w n = (ys, m)"
  shows "length ys = length xs \<and> take m ys = take w xs @ filter keep (drop r (take n xs)) \<and> w \<le> m \<and> m \<le> n"
  using assms
proof (induction keep xs r w n rule: compact.induct)
  case (1 keep xs r w n)
  show ?case
  proof (cases "r < n")
    case False
    then have "compact keep xs r w n = (xs, w)" by (subst compact.simps) simp
    with 1 False show ?thesis by simp
  next
    case r: True
    then have split: "drop r (take n xs) = xs ! r # drop (Suc r) (take n xs)"
      using \<open>n \<le> length xs\<close> by (simp add: Cons_nth_drop_Suc [symmetric])
    show ?thesis
    proof (cases "keep (xs ! r)")
      case False
      with 1 r have "length ys = length xs \<and>
          take m ys = take w xs @ filter keep (drop (Suc r) (take n xs)) \<and> w \<le> m \<and> m \<le> n"
        by (simp add: compact.simps [of keep xs r w n])
      with False split show ?thesis by simp
    next
      case True
      let ?xs = "if w \<noteq> r then xs[w := xs ! r] else xs"
      have IH: "length ys = length ?xs \<and>
          take m ys = take (Suc w) ?xs @ filter keep (drop (Suc r) (take n ?xs)) \<and> Suc w \<le> m \<and> m \<le> n"
        using 1 r True by (simp add: compact.simps [of keep xs r w n])
      moreover have "take (Suc w) ?xs = take w xs @ [xs ! r]"
        using \<open>w \<le> r\<close> r \<open>n \<le> length xs\<close> by (auto simp: take_Suc_conv_app_nth)
      moreover have "drop (Suc r) (take n ?xs) = drop (Suc r) (take n xs)"
        using \<open>w \<le> r\<close> by (simp add: take_update_swap)
      ultimately show ?thesis using True split by simp
    qed
  qed
qed

lemma take_compact [loop_simps]:
  assumes "n \<le> length xs"
  shows "take (snd (compact keep xs 0 0 n)) (fst (compact keep xs 0 0 n)) = filter keep (take n xs)"
    and "length (fst (compact keep xs 0 0 n)) = length xs"
    and "snd (compact keep xs 0 0 n) \<le> n"
  using compact_spec [of 0 0 n xs keep "fst (compact keep xs 0 0 n)" "snd (compact keep xs 0 0 n)"] assms
  by simp_all

section \<open>Element-wise loops\<close>

text \<open>
  \<open>for (i = 0; i < n; i++)\<close> over the live prefix, where the body rewrites the element it
  visits and may produce outputs (callbacks, counters).
\<close>

definition array_loop :: "('a \<Rightarrow> 'a \<times> 'e list) \<Rightarrow> nat \<Rightarrow> 'a list \<Rightarrow> 'a list \<times> 'e list" where
  "array_loop step n xs =
     fold (\<lambda>i (ys, es). (ys[i := fst (step (ys ! i))], es @ snd (step (ys ! i)))) [0..<n] (xs, [])"

lemma array_loop_conv [loop_simps]:
  "n \<le> length xs \<Longrightarrow>
   array_loop step n xs = (map (fst \<circ> step) (take n xs) @ drop n xs, concat (map (snd \<circ> step) (take n xs)))"
proof (induction n)
  case 0
  then show ?case by (simp add: array_loop_def)
next
  case (Suc n)
  then have n: "n < length xs" by simp
  have IH: "array_loop step n xs = (map (fst \<circ> step) (take n xs) @ drop n xs, concat (map (snd \<circ> step) (take n xs)))"
    by (rule Suc.IH) (use n in simp)
  have "array_loop step (Suc n) xs =
      (\<lambda>(ys, es). (ys[n := fst (step (ys ! n))], es @ snd (step (ys ! n)))) (array_loop step n xs)"
    by (simp add: array_loop_def)
  also have "\<dots> = (map (fst \<circ> step) (take (Suc n) xs) @ drop (Suc n) xs,
      concat (map (snd \<circ> step) (take (Suc n) xs)))"
    using n by (simp only: IH) (simp add: take_Suc_conv_app_nth nth_append list_update_append
        Cons_nth_drop_Suc [symmetric])
  finally show ?case .
qed

text \<open>\<open>for (i = m; i < n; i++) a[i] = f(i, a[i]);\<close>\<close>

lemma fold_update_range [loop_simps]:
  "m \<le> n \<Longrightarrow> n \<le> length xs \<Longrightarrow>
   fold (\<lambda>i ys. ys[i := f i (ys ! i)]) [m..<n] xs = take m xs @ map (\<lambda>i. f i (xs ! i)) [m..<n] @ drop n xs"
proof (induction n)
  case (Suc n)
  show ?case
  proof (cases "m \<le> n")
    case True
    let ?ys = "take m xs @ map (\<lambda>i. f i (xs ! i)) [m..<n] @ drop n xs"
    have IH: "fold (\<lambda>i ys. ys[i := f i (ys ! i)]) [m..<n] xs = ?ys" using Suc True by simp
    have len: "length (take m xs @ map (\<lambda>i. f i (xs ! i)) [m..<n]) = n" using True Suc.prems by simp
    have "drop n xs = xs ! n # drop (Suc n) xs" using Suc.prems by (simp add: Cons_nth_drop_Suc)
    then have split: "?ys = (take m xs @ map (\<lambda>i. f i (xs ! i)) [m..<n]) @ xs ! n # drop (Suc n) xs" by simp
    have "?ys ! n = xs ! n" unfolding split using len by (metis nth_append_length)
    moreover have "?ys[n := y] = (take m xs @ map (\<lambda>i. f i (xs ! i)) [m..<n]) @ y # drop (Suc n) xs" for y
      unfolding split using len by (metis list_update_length)
    ultimately show ?thesis using True by (simp add: IH)
  next
    case False
    with Suc.prems have "m = Suc n" by simp
    then show ?thesis by simp
  qed
qed simp

lemma length_fst_array_loop [simp]: "length (fst (array_loop step n xs)) = length xs"
proof -
  have "length (fst (fold (\<lambda>i (ys, es). (ys[i := fst (step (ys ! i))], es @ snd (step (ys ! i)))) is (xs, es)))
      = length xs" for "is" es
    by (induction "is" arbitrary: xs es) simp_all
  then show ?thesis by (simp add: array_loop_def)
qed

section \<open>Live prefixes\<close>

text \<open>Facts about the live prefix \<^term>\<open>take n xs\<close> under the single-element updates the code does.\<close>

lemma take_snoc_update [loop_simps]:
  "n < length xs \<Longrightarrow> take (Suc n) (xs[n := x]) = take n xs @ [x]"
  by (simp add: take_Suc_conv_app_nth)

lemma take_update_live [loop_simps]:
  "take n (xs[i := x]) = (take n xs)[i := x]"
  by (rule take_update_swap)

lemma map_update_same_key [simp]:
  "i < length xs \<Longrightarrow> f x = f (xs ! i) \<Longrightarrow> map f (xs[i := x]) = map f xs"
  by (metis list_update_id map_update)

lemma set_take_nth: "i < n \<Longrightarrow> i < length xs \<Longrightarrow> xs ! i \<in> set (take n xs)"
  by (auto simp: in_set_conv_nth intro!: exI [of _ i])

section \<open>Keyed arrays\<close>

text \<open>The live entries of an array are found, replaced and removed by a key field \<open>f\<close>.\<close>

abbreviation find_key :: "('a \<Rightarrow> 'k) \<Rightarrow> 'k \<Rightarrow> 'a list \<Rightarrow> nat \<Rightarrow> nat option" where
  "find_key f k xs n \<equiv> find_from (\<lambda>x. f x = k) xs 0 n"

lemma find_key_None_iff:
  "n \<le> length xs \<Longrightarrow> find_key f k xs n = None \<longleftrightarrow> k \<notin> set (map f (take n xs))"
  by (auto simp: find_from_None_live)

lemma find_key_Some_iff:
  assumes "n \<le> length xs" "distinct (map f (take n xs))"
  shows "find_key f k xs n = Some i \<longleftrightarrow> i < n \<and> f (xs ! i) = k"
proof
  assume "find_key f k xs n = Some i"
  then show "i < n \<and> f (xs ! i) = k" by (auto dest: find_from_SomeD)
next
  assume i: "i < n \<and> f (xs ! i) = k"
  have "f (xs ! j) \<noteq> k" if "j < i" for j
    using assms i that by (force simp: distinct_conv_nth)
  with i show "find_key f k xs n = Some i" by (intro find_from_unique) auto
qed

lemma find_key_member:
  assumes "n \<le> length xs" "k \<in> set (map f (take n xs))"
  obtains i where "find_key f k xs n = Some i" "i < n" "f (xs ! i) = k"
  using find_key_None_iff [OF assms(1), of f k] assms(2)
  by (cases "find_key f k xs n") (auto dest: find_from_SomeD)

lemma remove1_at:
  "i < length ks \<Longrightarrow> ks ! i = k \<Longrightarrow> (\<And>j. j < i \<Longrightarrow> ks ! j \<noteq> k) \<Longrightarrow> remove1 k ks = take i ks @ drop (Suc i) ks"
proof (induction ks arbitrary: i)
  case (Cons a ks)
  show ?case
  proof (cases i)
    case 0
    with Cons.prems show ?thesis by simp
  next
    case (Suc m)
    have "a \<noteq> k" using Cons.prems(3) [of 0] Suc by simp
    moreover have "remove1 k ks = take m ks @ drop (Suc m) ks"
      using Cons.IH [of m] Cons.prems Suc by (metis Suc_less_eq length_Cons nth_Cons_Suc)
    ultimately show ?thesis using Suc by simp
  qed
qed simp

lemma map_shift_down_key:
  assumes "n \<le> length xs" "find_key f k xs n = Some i"
  shows "map f (take (n - 1) (shift_down xs i n)) = remove1 k (map f (take n xs))"
proof -
  note i = find_from_SomeD [OF assms(2)]
  have "remove1 k (map f (take n xs)) = take i (map f (take n xs)) @ drop (Suc i) (map f (take n xs))"
    using i assms(1) by (intro remove1_at) auto
  then show ?thesis
    using i assms(1) take_shift_down [of n xs i] by (simp add: take_map drop_map min_def)
qed

section \<open>Loops that collect outputs\<close>

text \<open>A loop that threads a state and appends what each iteration emits keeps what each iteration keeps.\<close>

lemma fold_outputs_inv:
  assumes "\<And>x s. P s \<Longrightarrow> P (fst (f x s))" "P s"
  shows "P (fst (fold (\<lambda>x (s, outs). case f x s of (s, new) \<Rightarrow> (s, outs @ new)) xs (s, outs)))"
  using assms(2)
proof (induction xs arbitrary: s outs)
  case (Cons x xs)
  obtain s' new where "f x s = (s', new)" by fastforce
  with Cons assms(1) [of s x] show ?case by simp
qed simp

text \<open>The same loop by recursion, and what a reflexive and transitive effect of each iteration gives.\<close>

primrec collect :: "('x \<Rightarrow> 's \<Rightarrow> 's \<times> 'e list) \<Rightarrow> 'x list \<Rightarrow> 's \<Rightarrow> 's \<times> 'e list" where
  "collect f [] s = (s, [])"
| "collect f (x # xs) s =
     (case f x s of (s', outs) \<Rightarrow> (case collect f xs s' of (s'', outs') \<Rightarrow> (s'', outs @ outs')))"

lemma collect_rel:
  assumes "\<And>s. R s s []" "\<And>s t u as bs. R s t as \<Longrightarrow> R t u bs \<Longrightarrow> R s u (as @ bs)"
    and "\<And>x s. x \<in> set xs \<Longrightarrow> R s (fst (f x s)) (snd (f x s))"
  shows "R s (fst (collect f xs s)) (snd (collect f xs s))"
  using assms(3)
proof (induction xs arbitrary: s)
  case (Cons x xs)
  from Cons.prems have "R s (fst (f x s)) (snd (f x s))" by simp
  moreover have "R (fst (f x s)) (fst (collect f xs (fst (f x s)))) (snd (collect f xs (fst (f x s))))"
    using Cons.prems by (intro Cons.IH) simp
  ultimately show ?case using assms(2) by (simp add: case_prod_beta)
qed (simp add: assms(1))

end
