(* ===== verification/Ekk_Types.thy ===== *)
theory Ekk_Types
  imports Ekk_Prelude
begin

text \<open>
  Base types, configuration constants and fixed-point arithmetic
  (\<open>include/ekk/ekk_types.h\<close>, \<open>src/ekk_types.c\<close>). The Q16.16 and Q1.15 values are
  signed C integers, hence of type \<^typ>\<open>int\<close>; an arithmetic right shift by \<open>k\<close> is
  \<open>div 2^k\<close> (rounding down, as the shift does) and C's division is \<open>sdiv\<close> (rounding
  towards zero).
\<close>

section \<open>Configuration\<close>

abbreviation (input) EKK_K_NEIGHBORS :: nat where "EKK_K_NEIGHBORS \<equiv> 7"
abbreviation (input) EKK_MAX_MODULES :: nat where "EKK_MAX_MODULES \<equiv> 256"
abbreviation (input) EKK_MAX_TASKS_PER_MODULE :: nat where "EKK_MAX_TASKS_PER_MODULE \<equiv> 8"
abbreviation (input) EKK_MAX_BALLOTS :: nat where "EKK_MAX_BALLOTS \<equiv> 4"
abbreviation (input) EKK_FIELD_COUNT :: nat where "EKK_FIELD_COUNT \<equiv> 6"
abbreviation (input) EKK_FIELD_DECAY_TAU_US :: u64 where "EKK_FIELD_DECAY_TAU_US \<equiv> 100000"
abbreviation (input) EKK_HEARTBEAT_PERIOD_US :: u64 where "EKK_HEARTBEAT_PERIOD_US \<equiv> 10000"
abbreviation (input) EKK_HEARTBEAT_TIMEOUT_COUNT :: u32 where "EKK_HEARTBEAT_TIMEOUT_COUNT \<equiv> 5"
abbreviation (input) EKK_VOTE_TIMEOUT_US :: u64 where "EKK_VOTE_TIMEOUT_US \<equiv> 50000"
abbreviation (input) EKK_FIXED_ONE :: int where "EKK_FIXED_ONE \<equiv> 65536"
abbreviation (input) EKK_FIXED_HALF :: int where "EKK_FIXED_HALF \<equiv> 32768"
abbreviation (input) EKK_INVALID_MODULE_ID :: u8 where "EKK_INVALID_MODULE_ID \<equiv> 0"
abbreviation (input) EKK_INVALID_BALLOT_ID :: u16 where "EKK_INVALID_BALLOT_ID \<equiv> 0"
abbreviation (input) EKK_BROADCAST_ID :: u8 where "EKK_BROADCAST_ID \<equiv> 255"

abbreviation (input) EKK_FIELD_LOAD :: nat where "EKK_FIELD_LOAD \<equiv> 0"
abbreviation (input) EKK_FIELD_THERMAL :: nat where "EKK_FIELD_THERMAL \<equiv> 1"
abbreviation (input) EKK_FIELD_POWER :: nat where "EKK_FIELD_POWER \<equiv> 2"
abbreviation (input) EKK_FIELD_SLACK :: nat where "EKK_FIELD_SLACK \<equiv> 5"

abbreviation (input) EKK_SLACK_THRESHOLD_US :: int where "EKK_SLACK_THRESHOLD_US \<equiv> 10000000"

section \<open>Enumerations\<close>

datatype ekk_error =
    EKK_OK
  | EKK_ERR_INVALID_ARG
  | EKK_ERR_NO_MEMORY
  | EKK_ERR_TIMEOUT
  | EKK_ERR_BUSY
  | EKK_ERR_NOT_FOUND
  | EKK_ERR_ALREADY_EXISTS
  | EKK_ERR_NO_QUORUM
  | EKK_ERR_INHIBITED
  | EKK_ERR_NEIGHBOR_LOST
  | EKK_ERR_FIELD_EXPIRED
  | EKK_ERR_HAL_FAILURE
  | EKK_ERR_NOT_SUPPORTED
  | EKK_ERR_LIMIT

datatype ekk_module_state =
    EKK_MODULE_INIT
  | EKK_MODULE_DISCOVERING
  | EKK_MODULE_ACTIVE
  | EKK_MODULE_DEGRADED
  | EKK_MODULE_ISOLATED
  | EKK_MODULE_REFORMING
  | EKK_MODULE_SHUTDOWN

datatype ekk_health_state =
    EKK_HEALTH_UNKNOWN
  | EKK_HEALTH_ALIVE
  | EKK_HEALTH_SUSPECT
  | EKK_HEALTH_DEAD

text \<open>A C enumeration read from a message holds any byte, hence the last constructor.\<close>

datatype ekk_vote_value =
    EKK_VOTE_ABSTAIN
  | EKK_VOTE_YES
  | EKK_VOTE_NO
  | EKK_VOTE_INHIBIT
  | EKK_VOTE_OTHER u8

datatype ekk_vote_result =
    EKK_VOTE_PENDING
  | EKK_VOTE_APPROVED
  | EKK_VOTE_REJECTED
  | EKK_VOTE_TIMEOUT
  | EKK_VOTE_CANCELLED

section \<open>Records\<close>

type_synonym ekk_capability = u16

record ekk_deadline =
  dl_deadline :: u64
  dl_duration_est :: u64
  dl_slack :: int
  dl_critical :: bool

record ekk_field =
  fl_components :: "int list"
  fl_timestamp :: u64
  fl_source :: u8
  fl_sequence :: u8

record ekk_neighbor =
  nb_id :: u8
  nb_health :: ekk_health_state
  nb_last_seen :: u64
  nb_last_field :: ekk_field
  nb_logical_distance :: int
  nb_missed_heartbeats :: u8
  nb_capabilities :: ekk_capability

text \<open>The object \<open>memset(field, 0, sizeof(ekk_field_t))\<close> leaves (\<open>ekk_field_clear\<close>).\<close>

definition ekk_field_clear :: ekk_field where
  "ekk_field_clear = \<lparr>fl_components = replicate EKK_FIELD_COUNT 0, fl_timestamp = 0,
     fl_source = EKK_INVALID_MODULE_ID, fl_sequence = 0\<rparr>"

definition ekk_field_set :: "ekk_field \<Rightarrow> int \<Rightarrow> ekk_field" where
  "ekk_field_set f value = f\<lparr>fl_components := map (\<lambda>_. value) [0..<EKK_FIELD_COUNT]\<rparr>"

definition ekk_field_is_valid :: "ekk_field \<Rightarrow> bool" where
  "ekk_field_is_valid f \<longleftrightarrow> fl_source f \<noteq> EKK_INVALID_MODULE_ID \<and> fl_timestamp f > 0"

definition ekk_can_perform :: "ekk_capability \<Rightarrow> ekk_capability \<Rightarrow> bool" where
  "ekk_can_perform have_caps need = (and have_caps need = need)"

section \<open>Q16.16 arithmetic\<close>

definition ekk_fixed_mul :: "int \<Rightarrow> int \<Rightarrow> int" where
  "ekk_fixed_mul a b = to_i32 ((a * b) div 65536)"

definition ekk_fixed_div :: "int \<Rightarrow> int \<Rightarrow> int" where
  "ekk_fixed_div a b =
     (if b = 0 then (if a \<ge> 0 then INT32_MAX else INT32_MIN)
      else to_i32 ((a * 65536) sdiv b))"

definition ekk_fixed_exp_decay :: "u64 \<Rightarrow> u64 \<Rightarrow> int" where
  "ekk_fixed_exp_decay elapsed_us tau_us =
     (if tau_us = 0 then 0
      else if elapsed_us = 0 then EKK_FIXED_ONE
      else if elapsed_us \<ge> tau_us * 5 then 0
      else
        (let x = ekk_fixed_div (to_i32 (uint elapsed_us)) (to_i32 (uint tau_us));
             x2 = ekk_fixed_mul x x;
             d = to_i32 (EKK_FIXED_ONE + x + x2 div 2)
         in ekk_fixed_div EKK_FIXED_ONE d))"

definition ekk_fixed_lerp :: "int \<Rightarrow> int \<Rightarrow> int \<Rightarrow> int" where
  "ekk_fixed_lerp a b t =
     (if t \<le> 0 then a
      else if t \<ge> EKK_FIXED_ONE then b
      else (let diff = b - a; scaled = (diff * t) div 65536 in to_i32 (a + to_i32 scaled)))"

definition ekk_fixed_abs :: "int \<Rightarrow> int" where
  "ekk_fixed_abs x = (if x \<ge> 0 then x else to_i32 (- x))"

text \<open>
  The Newton iteration runs on \<open>uint32_t\<close>. Division by a zero word is 0 in HOL and undefined
  in C; \<open>fixed_sqrt_root_positive\<close> below shows the divisor is never zero.
\<close>

definition sqrt_step :: "u32 \<Rightarrow> u32 \<Rightarrow> u32" where
  "sqrt_step guess root = drop_bit 1 (root + guess div root)"

definition sqrt_init :: "u32 \<Rightarrow> u32" where
  "sqrt_init guess = (let root = drop_bit 8 guess in if root = 0 then 1 else root)"

definition ekk_fixed_sqrt :: "int \<Rightarrow> int" where
  "ekk_fixed_sqrt x =
     (if x \<le> 0 then 0
      else (let guess = word_of_int x;
                root = (sqrt_step guess ^^ 8) (sqrt_init guess)
            in to_i32 (uint (push_bit 8 root))))"

section \<open>Q1.15 arithmetic\<close>

definition ekk_fixed_to_q15 :: "int \<Rightarrow> int" where
  "ekk_fixed_to_q15 f =
     (let shifted = f div 2
      in if shifted > 32767 then 32767 else if shifted < - 32768 then - 32768 else shifted)"

definition ekk_q15_to_fixed :: "int \<Rightarrow> int" where
  "ekk_q15_to_fixed q = q * 2"

definition ekk_q15_mul :: "int \<Rightarrow> int \<Rightarrow> int" where
  "ekk_q15_mul a b =
     (let result = (a * b) div 32768
      in if result > 32767 then 32767 else if result < - 32768 then - 32768 else result)"

definition ekk_q15_add_sat :: "int \<Rightarrow> int \<Rightarrow> int" where
  "ekk_q15_add_sat a b =
     (let result = a + b
      in if result > 32767 then 32767 else if result < - 32768 then - 32768 else result)"

definition ekk_q15_sub_sat :: "int \<Rightarrow> int \<Rightarrow> int" where
  "ekk_q15_sub_sat a b =
     (let result = a - b
      in if result > 32767 then 32767 else if result < - 32768 then - 32768 else result)"

section \<open>Debug strings\<close>

fun ekk_error_str :: "ekk_error \<Rightarrow> string" where
  "ekk_error_str EKK_OK = ''OK''"
| "ekk_error_str EKK_ERR_INVALID_ARG = ''INVALID_ARG''"
| "ekk_error_str EKK_ERR_NO_MEMORY = ''NO_MEMORY''"
| "ekk_error_str EKK_ERR_TIMEOUT = ''TIMEOUT''"
| "ekk_error_str EKK_ERR_BUSY = ''BUSY''"
| "ekk_error_str EKK_ERR_NOT_FOUND = ''NOT_FOUND''"
| "ekk_error_str EKK_ERR_ALREADY_EXISTS = ''ALREADY_EXISTS''"
| "ekk_error_str EKK_ERR_NO_QUORUM = ''NO_QUORUM''"
| "ekk_error_str EKK_ERR_INHIBITED = ''INHIBITED''"
| "ekk_error_str EKK_ERR_NEIGHBOR_LOST = ''NEIGHBOR_LOST''"
| "ekk_error_str EKK_ERR_FIELD_EXPIRED = ''FIELD_EXPIRED''"
| "ekk_error_str EKK_ERR_HAL_FAILURE = ''HAL_FAILURE''"
| "ekk_error_str _ = ''UNKNOWN''"

fun ekk_module_state_str :: "ekk_module_state \<Rightarrow> string" where
  "ekk_module_state_str EKK_MODULE_INIT = ''INIT''"
| "ekk_module_state_str EKK_MODULE_DISCOVERING = ''DISCOVERING''"
| "ekk_module_state_str EKK_MODULE_ACTIVE = ''ACTIVE''"
| "ekk_module_state_str EKK_MODULE_DEGRADED = ''DEGRADED''"
| "ekk_module_state_str EKK_MODULE_ISOLATED = ''ISOLATED''"
| "ekk_module_state_str EKK_MODULE_REFORMING = ''REFORMING''"
| "ekk_module_state_str EKK_MODULE_SHUTDOWN = ''SHUTDOWN''"

fun ekk_health_state_str :: "ekk_health_state \<Rightarrow> string" where
  "ekk_health_state_str EKK_HEALTH_UNKNOWN = ''UNKNOWN''"
| "ekk_health_state_str EKK_HEALTH_ALIVE = ''ALIVE''"
| "ekk_health_state_str EKK_HEALTH_SUSPECT = ''SUSPECT''"
| "ekk_health_state_str EKK_HEALTH_DEAD = ''DEAD''"

fun ekk_vote_result_str :: "ekk_vote_result \<Rightarrow> string" where
  "ekk_vote_result_str EKK_VOTE_PENDING = ''PENDING''"
| "ekk_vote_result_str EKK_VOTE_APPROVED = ''APPROVED''"
| "ekk_vote_result_str EKK_VOTE_REJECTED = ''REJECTED''"
| "ekk_vote_result_str EKK_VOTE_TIMEOUT = ''TIMEOUT''"
| "ekk_vote_result_str EKK_VOTE_CANCELLED = ''CANCELLED''"

section \<open>Facts about the arithmetic\<close>

lemma is_i32_fixed_mul [simp]: "is_i32 (ekk_fixed_mul a b)"
  by (simp add: ekk_fixed_mul_def)

lemma is_i32_fixed_div [simp]: "is_i32 (ekk_fixed_div a b)"
  by (simp add: ekk_fixed_div_def) (simp add: is_i32_def INT32_MAX_def INT32_MIN_def)

lemma fixed_mul_one [c_arith]: "is_i32 a \<Longrightarrow> ekk_fixed_mul a EKK_FIXED_ONE = a"
  by (simp add: ekk_fixed_mul_def c_arith)

lemma fixed_mul_commute: "ekk_fixed_mul a b = ekk_fixed_mul b a"
  by (simp add: ekk_fixed_mul_def mult.commute)

text \<open>The decay on integers: what the code computes while nothing overflows.\<close>

definition decay_int :: "int \<Rightarrow> int \<Rightarrow> int" where
  "decay_int e t =
     (let x = e * 65536 div t in 65536 * 65536 div (65536 + x + (x * x div 65536) div 2))"

lemma decay_ratio_bound:
  assumes "0 \<le> e" "e < 5 * t" "0 < (t::int)"
  shows "0 \<le> e * 65536 div t" and "e * 65536 div t \<le> 327680"
proof -
  show "0 \<le> e * 65536 div t" using assms by (simp add: pos_imp_zdiv_nonneg_iff)
  have "e * 65536 \<le> 327680 * t" using assms by simp
  then have "e * 65536 div t \<le> 327680 * t div t" using assms(3) by (rule zdiv_mono1)
  then show "e * 65536 div t \<le> 327680" using assms(3) by simp
qed

lemma square_bound: "0 \<le> x \<Longrightarrow> x \<le> 327680 \<Longrightarrow> 0 \<le> x * x div 65536 \<and> x * x div 65536 \<le> (1638400::int)"
proof -
  assume x: "0 \<le> x" "x \<le> 327680"
  then have "x * x \<le> 327680 * 327680" by (intro mult_mono) auto
  then have "x * x div 65536 \<le> 327680 * 327680 div 65536" by (rule zdiv_mono1) simp
  moreover have "0 \<le> x * x div 65536" by (simp add: pos_imp_zdiv_nonneg_iff)
  ultimately show ?thesis by simp
qed

lemma exp_decay_eq_decay_int:
  assumes tau: "0 < tau" "uint tau \<le> 429496729" and el: "0 < e" "e < tau * 5"
  shows "ekk_fixed_exp_decay e tau = decay_int (uint e) (uint tau)"
proof -
  have t: "0 < uint tau" using tau(1) by (simp add: word_less_def)
  have t5: "uint (tau * 5) = uint tau * 5"
    using tau(2) by (simp add: uint_word_ariths)
  have e: "0 < uint e" "uint e < 5 * uint tau"
    using el t5 by (simp_all add: word_less_def)
  define x where "x = uint e * 65536 div uint tau"
  have x: "0 \<le> x" "x \<le> 327680"
    unfolding x_def using decay_ratio_bound [of "uint e" "uint tau"] e t by simp_all
  note x2 = square_bound [OF x]
  have el32: "to_i32 (uint e) = uint e" "to_i32 (uint tau) = uint tau"
    using e t tau(2) by (simp_all add: to_i32_id)
  have dx: "ekk_fixed_div (uint e) (uint tau) = x"
    using t e x unfolding ekk_fixed_div_def x_def by (simp add: sdiv_nonneg to_i32_id)
  have mx: "ekk_fixed_mul x x = x * x div 65536"
    using x2 by (simp add: ekk_fixed_mul_def to_i32_id)
  let ?d = "65536 + x + (x * x div 65536) div 2"
  have d: "65536 \<le> ?d" "?d \<le> 1212416" using x x2 by linarith+
  have "4294967296 div ?d \<le> 4294967296 div 65536"
    using d by (intro zdiv_mono2) auto
  then have q: "4294967296 div ?d \<le> 65536" by simp
  have q0: "0 \<le> 4294967296 div ?d" using d by (simp add: pos_imp_zdiv_nonneg_iff)
  have "ekk_fixed_div 65536 (to_i32 ?d) = 4294967296 div ?d"
    using d q q0 by (simp add: ekk_fixed_div_def sdiv_nonneg to_i32_id)
  moreover have "e \<noteq> 0" "tau \<noteq> 0" using tau(1) el(1) by auto
  ultimately show ?thesis
    using el unfolding ekk_fixed_exp_decay_def decay_int_def
    by (simp add: el32 dx mx Let_def flip: x_def)
qed

lemma decay_int_range:
  assumes "0 \<le> e" "e < 5 * t" "0 < t"
  shows "0 < decay_int e t" and "decay_int e t \<le> 65536"
proof -
  define x where "x = e * 65536 div t"
  have x: "0 \<le> x" "x \<le> 327680" unfolding x_def using decay_ratio_bound [OF assms] by simp_all
  note x2 = square_bound [OF x]
  let ?d = "65536 + x + (x * x div 65536) div 2"
  have d: "65536 \<le> ?d" "?d \<le> 1212416" using x x2 by linarith+
  have eq: "decay_int e t = 4294967296 div ?d" by (simp add: decay_int_def Let_def flip: x_def)
  have "4294967296 div ?d \<le> 4294967296 div 65536" using d by (intro zdiv_mono2) auto
  then show "decay_int e t \<le> 65536" using eq by simp
  have "4294967296 div 1212416 \<le> 4294967296 div ?d" using d by (intro zdiv_mono2) auto
  then show "0 < decay_int e t" using eq by simp
qed

lemma decay_int_antimono:
  assumes "0 \<le> e1" "e1 \<le> e2" "e2 < 5 * t" "0 < t"
  shows "decay_int e2 t \<le> decay_int e1 t"
proof -
  define x1 x2 where "x1 = e1 * 65536 div t" and "x2 = e2 * 65536 div t"
  have "x1 \<le> x2" unfolding x1_def x2_def using assms by (intro zdiv_mono1) auto
  moreover have "0 \<le> x1" unfolding x1_def using assms by (simp add: pos_imp_zdiv_nonneg_iff)
  ultimately have "x1 * x1 div 65536 \<le> x2 * x2 div 65536" by (intro zdiv_mono1 mult_mono) auto
  with \<open>x1 \<le> x2\<close> have le: "65536 + x1 + (x1 * x1 div 65536) div 2 \<le> 65536 + x2 + (x2 * x2 div 65536) div 2"
    by linarith
  have "0 \<le> x1 * x1 div 65536" by (simp add: pos_imp_zdiv_nonneg_iff)
  with \<open>0 \<le> x1\<close> have "0 < 65536 + x1 + (x1 * x1 div 65536) div 2" by linarith
  with le show ?thesis
    unfolding decay_int_def Let_def x1_def [symmetric] x2_def [symmetric]
    by (intro zdiv_mono2) auto
qed

lemma exp_decay_zero [simp]: "tau \<noteq> 0 \<Longrightarrow> ekk_fixed_exp_decay 0 tau = EKK_FIXED_ONE"
  by (simp add: ekk_fixed_exp_decay_def)

lemma decay_int_zero [simp]: "decay_int 0 t = 65536"
  by (simp add: decay_int_def)

lemma exp_decay_cases:
  assumes "0 < tau" "uint tau \<le> 429496729"
  shows "ekk_fixed_exp_decay e tau = (if uint e < 5 * uint tau then decay_int (uint e) (uint tau) else 0)"
proof -
  have t: "0 < uint tau" using assms(1) by (simp add: word_less_def)
  have t5: "uint (tau * 5) = uint tau * 5" using assms(2) by (simp add: uint_word_ariths)
  have less: "e < tau * 5 \<longleftrightarrow> uint e < 5 * uint tau" by (simp add: word_less_def t5 mult.commute)
  show ?thesis
  proof (cases "e = 0")
    case True
    moreover have "tau \<noteq> 0" using t by auto
    ultimately show ?thesis using t by simp
  next
    case False
    then have "0 < e" by (simp add: word_gt_0)
    then show ?thesis
      using exp_decay_eq_decay_int [OF assms] less False assms(1)
      by (auto simp: ekk_fixed_exp_decay_def not_less)
  qed
qed

text \<open>
  The decay factor applied to published fields is a proper attenuation: for every time
  constant up to 429 s and every age it lies between 0 and \<open>EKK_FIXED_ONE\<close>, it is
  \<open>EKK_FIXED_ONE\<close> at age 0, and an older field is never attenuated less than a younger one.
\<close>

lemma exp_decay_bounded_antimono:
  assumes "0 < tau" "uint tau \<le> 429496729" "e1 \<le> e2"
  shows "0 \<le> ekk_fixed_exp_decay e2 tau \<and> ekk_fixed_exp_decay e2 tau \<le> ekk_fixed_exp_decay e1 tau
       \<and> ekk_fixed_exp_decay e1 tau \<le> EKK_FIXED_ONE \<and> ekk_fixed_exp_decay 0 tau = EKK_FIXED_ONE"
proof -
  have t: "0 < uint tau" and le: "uint e1 \<le> uint e2" using assms by (simp_all add: word_less_def word_le_def)
  have "tau \<noteq> 0" using assms(1) by auto
  moreover have "0 \<le> ekk_fixed_exp_decay e tau \<and> ekk_fixed_exp_decay e tau \<le> EKK_FIXED_ONE" for e
    using decay_int_range [of "uint e" "uint tau"] t by (simp add: exp_decay_cases [OF assms(1,2)] less_imp_le)
  moreover have "ekk_fixed_exp_decay e2 tau \<le> ekk_fixed_exp_decay e1 tau"
    using decay_int_antimono [of "uint e1" "uint e2" "uint tau"] decay_int_range [of "uint e1" "uint tau"] t le
    by (auto simp: exp_decay_cases [OF assms(1,2)] less_imp_le)
  ultimately show ?thesis by simp
qed

section \<open>Interpolation, saturation and the square root\<close>

lemma floor_part_between:
  assumes "0 \<le> t" "t \<le> (65536::int)"
  shows "min 0 d \<le> (d * t) div 65536 \<and> (d * t) div 65536 \<le> max 0 d"
proof (cases "0 \<le> d")
  case True
  then have "d * t \<le> d * 65536" using assms by (intro mult_left_mono) auto
  then have "d * t div 65536 \<le> d * 65536 div 65536" by (rule zdiv_mono1) simp
  moreover have "0 \<le> d * t div 65536" using True assms by (simp add: pos_imp_zdiv_nonneg_iff)
  ultimately show ?thesis using True by simp
next
  case False
  then have "d * 65536 \<le> d * t" using assms by (intro mult_left_mono_neg) auto
  then have "d * 65536 div 65536 \<le> d * t div 65536" by (rule zdiv_mono1) simp
  moreover have "d * t \<le> 0" using False assms by (simp add: mult_nonpos_nonneg)
  then have "d * t div 65536 \<le> 0" by (simp add: div_nonpos_pos_le0)
  ultimately show ?thesis using False by simp
qed

lemma to_i32_add_to_i32: "to_i32 (a + to_i32 b) = to_i32 (a + b)"
  by (simp add: to_i32_def mod_simps algebra_simps)

text \<open>
  Interpolating between two fixed-point values never leaves the interval they span, for
  any interpolation factor, and returns the end points exactly at 0 and \<open>EKK_FIXED_ONE\<close>.
\<close>

lemma fixed_lerp_between:
  assumes "is_i32 a" "is_i32 b"
  shows "min a b \<le> ekk_fixed_lerp a b t \<and> ekk_fixed_lerp a b t \<le> max a b
       \<and> ekk_fixed_lerp a b 0 = a \<and> ekk_fixed_lerp a b EKK_FIXED_ONE = b"
proof (cases "0 < t \<and> t < 65536")
  case True
  define s where "s = (b - a) * t div 65536"
  have s: "min 0 (b - a) \<le> s" "s \<le> max 0 (b - a)"
    unfolding s_def using floor_part_between [of t "b - a"] True by simp_all
  then have "min a b \<le> a + s" "a + s \<le> max a b" by (auto simp: min_def max_def split: if_splits)
  moreover from this have "to_i32 (a + s) = a + s"
    using assms by (intro to_i32_is_i32) (auto simp: is_i32_def min_def max_def split: if_splits)
  ultimately show ?thesis
    using True by (simp add: ekk_fixed_lerp_def Let_def to_i32_add_to_i32 flip: s_def)
next
  case False
  then show ?thesis by (auto simp: ekk_fixed_lerp_def)
qed

lemma fixed_to_q15_of_q15 [c_arith]:
  "- 32768 \<le> q \<Longrightarrow> q \<le> 32767 \<Longrightarrow> ekk_fixed_to_q15 (ekk_q15_to_fixed q) = q"
  by (simp add: ekk_fixed_to_q15_def ekk_q15_to_fixed_def)

lemma q15_saturates:
  "- 32768 \<le> ekk_fixed_to_q15 f \<and> ekk_fixed_to_q15 f \<le> 32767"
  "- 32768 \<le> ekk_q15_mul a b \<and> ekk_q15_mul a b \<le> 32767"
  by (simp_all add: ekk_fixed_to_q15_def ekk_q15_mul_def Let_def)

text \<open>The divisor of the Newton iteration is never zero and the sum never carries out of 32 bits.\<close>

lemma unat_sqrt_step:
  assumes "unat root \<le> 2147483648" "unat guess < 2147483648"
  shows "unat (sqrt_step guess root) = (unat root + unat guess div unat root) div 2"
proof -
  have "unat guess div unat root \<le> unat guess" by (rule div_le_dividend)
  then have "unat root + unat guess div unat root < 4294967296" using assms by linarith
  then have "unat (root + guess div root) = unat root + unat guess div unat root"
    by (simp add: unat_word_ariths unat_div)
  then show ?thesis
    by (simp only: sqrt_step_def unat_drop_bit_eq) (simp add: drop_bit_eq_div)
qed

lemma sqrt_step_positive:
  assumes "0 < unat root" "unat root \<le> 2147483648" "0 < unat guess" "unat guess < 2147483648"
  shows "0 < unat (sqrt_step guess root) \<and> unat (sqrt_step guess root) \<le> 2147483648"
proof -
  have "2 \<le> unat root + unat guess div unat root"
    using assms by (cases "unat root = 1") auto
  moreover have "unat guess div unat root \<le> unat guess" by (rule div_le_dividend)
  ultimately show ?thesis
    unfolding unat_sqrt_step [OF assms(2,4)] using assms(2,4) by linarith
qed

lemma fixed_sqrt_root_positive:
  assumes "0 < unat guess" "unat guess < 2147483648"
  shows "0 < unat ((sqrt_step guess ^^ n) (sqrt_init guess))
       \<and> unat ((sqrt_step guess ^^ n) (sqrt_init guess)) \<le> 2147483648"
proof (induction n)
  case 0
  have "unat (drop_bit 8 guess) \<le> unat guess"
    by (simp only: unat_drop_bit_eq) (simp add: drop_bit_eq_div)
  then show ?case using assms by (auto simp: sqrt_init_def Let_def unat_gt_0)
next
  case (Suc n)
  then show ?case using sqrt_step_positive assms by simp
qed

end
