(* ===== verification/Ekk_Interfaces.thy ===== *)
theory Ekk_Interfaces
  imports Ekk_Types
begin

text \<open>
  The contracts between components, as locales: what a bounded queue promises the code that
  pushes and pops, what a table of neighbors keyed by module id promises the code that adds,
  removes and looks up, and what a machine with an invariant promises every run of it. The
  clients' lemmas are proved here once; each component theory interprets the locale on its own
  definitions.
\<close>

section \<open>Bounded FIFO queues\<close>

datatype 'a queue_op = QPush 'a | QPop

text \<open>
  A run of pushes and pops, with the accepted pushes and the delivered items in order. A
  refused push or a pop of an empty queue leaves the queue alone.
\<close>

fun queue_run ::
  "('q \<Rightarrow> 'a \<Rightarrow> 'q option) \<Rightarrow> ('q \<Rightarrow> ('a \<times> 'q) option) \<Rightarrow> 'q \<Rightarrow> 'a queue_op list \<Rightarrow> 'q \<times> 'a list \<times> 'a list"
where
  "queue_run push pop q [] = (q, [], [])"
| "queue_run push pop q (QPush x # ops) =
     (case push q x of
        None \<Rightarrow> queue_run push pop q ops
      | Some q' \<Rightarrow> (case queue_run push pop q' ops of (r, ins, outs) \<Rightarrow> (r, x # ins, outs)))"
| "queue_run push pop q (QPop # ops) =
     (case pop q of
        None \<Rightarrow> queue_run push pop q ops
      | Some (y, q') \<Rightarrow> (case queue_run push pop q' ops of (r, ins, outs) \<Rightarrow> (r, ins, y # outs)))"

locale bounded_queue =
  fixes push :: "'q \<Rightarrow> 'a \<Rightarrow> 'q option"
    and pop :: "'q \<Rightarrow> ('a \<times> 'q) option"
    and items :: "'q \<Rightarrow> 'a list"
    and room :: "'q \<Rightarrow> nat"
    and inv :: "'q \<Rightarrow> bool"
    and fits :: "'q \<Rightarrow> 'a \<Rightarrow> bool"
  assumes items_bound: "inv q \<Longrightarrow> length (items q) \<le> room q"
    and push_full: "inv q \<Longrightarrow> length (items q) = room q \<Longrightarrow> push q x = None"
    and push_room: "inv q \<Longrightarrow> fits q x \<Longrightarrow> length (items q) < room q \<Longrightarrow>
      \<exists>q'. push q x = Some q' \<and> inv q' \<and> items q' = items q @ [x] \<and> room q' = room q \<and> fits q' = fits q"
    and pop_empty: "inv q \<Longrightarrow> items q = [] \<Longrightarrow> pop q = None"
    and pop_cons: "inv q \<Longrightarrow> items q = y # ys \<Longrightarrow>
      \<exists>q'. pop q = Some (y, q') \<and> inv q' \<and> items q' = ys \<and> room q' = room q \<and> fits q' = fits q"
begin

lemma push_cases:
  assumes "inv q" "fits q x"
  obtains (full) "push q x = None" "length (items q) = room q"
  | (ok) q' where "push q x = Some q'" "inv q'" "items q' = items q @ [x]" "room q' = room q" "fits q' = fits q"
  using push_room [OF assms] push_full [OF assms(1)] items_bound [OF assms(1)]
  by (metis le_neq_implies_less)

lemma pop_cases:
  assumes "inv q"
  obtains (empty) "pop q = None" "items q = []"
  | (ok) y ys q' where "pop q = Some (y, q')" "items q = y # ys" "inv q'" "items q' = ys" "room q' = room q" "fits q' = fits q"
  using pop_empty [OF assms] pop_cons [OF assms] by (cases "items q") auto

text \<open>
  Whatever the order of pushes and pops, nothing is lost, duplicated or reordered: the items
  delivered, followed by those still queued, are the initial content followed by the accepted
  pushes.
\<close>

lemma run_fifo:
  "inv q \<Longrightarrow> \<forall>x. QPush x \<in> set ops \<longrightarrow> fits q x \<Longrightarrow> queue_run push pop q ops = (r, ins, outs) \<Longrightarrow>
   inv r \<and> outs @ items r = items q @ ins \<and> length (items r) \<le> room q"
proof (induction ops arbitrary: q r ins outs)
  case Nil
  then show ?case using items_bound by auto
next
  case (Cons op ops)
  show ?case
  proof (cases op)
    case (QPush x)
    with Cons.prems(2) have "fits q x" by simp
    from \<open>inv q\<close> this show ?thesis
    proof (cases rule: push_cases)
      case full
      with QPush Cons show ?thesis by simp
    next
      case (ok q')
      with QPush Cons.prems(3) obtain ins' where
        "queue_run push pop q' ops = (r, ins', outs)" "ins = x # ins'"
        by (auto split: prod.splits)
      with Cons.IH [OF ok(2), of r ins' outs] ok Cons.prems(2) show ?thesis by simp
    qed
  next
    case QPop
    from \<open>inv q\<close> show ?thesis
    proof (cases rule: pop_cases)
      case empty
      with QPop Cons show ?thesis by simp
    next
      case (ok y ys q')
      with QPop Cons.prems(3) obtain outs' where
        "queue_run push pop q' ops = (r, ins, outs')" "outs = y # outs'"
        by (auto split: prod.splits)
      with Cons.IH [OF ok(3), of r ins outs'] ok Cons.prems(2) show ?thesis by simp
    qed
  qed
qed

end

section \<open>Tables keyed by module id\<close>

text \<open>The id 0 is invalid, so distinct ids of other modules leave room in a table of 256.\<close>

lemma card_u8_ids:
  fixes ks :: "u8 list"
  assumes "distinct ks" "0 \<notin> set ks" "k \<notin> set ks" "k \<noteq> 0"
  shows "length ks < 255"
proof -
  have "length ks = card (set ks)" using assms(1) by (simp add: distinct_card)
  also have "\<dots> \<le> card (UNIV - {0, k})" using assms(2,3) by (intro card_mono) auto
  also have "\<dots> = 254" using assms(4) by (simp add: card_Diff_subset card_word)
  finally show ?thesis by simp
qed

text \<open>
  The neighbor tables of the heartbeat engine and of the gossip layer: a bounded sequence of
  entries with distinct keys, added at the end and removed by shifting.
\<close>

locale neighbor_table =
  fixes keys :: "'t \<Rightarrow> u8 list"
    and inv :: "'t \<Rightarrow> bool"
    and add :: "'t \<Rightarrow> u8 \<Rightarrow> ekk_error \<times> 't"
    and remove :: "'t \<Rightarrow> u8 \<Rightarrow> ekk_error \<times> 't"
    and size_limit :: nat
  assumes keys_distinct: "inv t \<Longrightarrow> distinct (keys t)"
    and keys_valid: "inv t \<Longrightarrow> EKK_INVALID_MODULE_ID \<notin> set (keys t)"
    and keys_limit: "inv t \<Longrightarrow> length (keys t) \<le> size_limit"
    and add_known: "inv t \<Longrightarrow> k \<noteq> EKK_INVALID_MODULE_ID \<Longrightarrow> k \<in> set (keys t) \<Longrightarrow>
      add t k = (EKK_ERR_ALREADY_EXISTS, t)"
    and add_full: "inv t \<Longrightarrow> k \<noteq> EKK_INVALID_MODULE_ID \<Longrightarrow> k \<notin> set (keys t) \<Longrightarrow>
      length (keys t) = size_limit \<Longrightarrow> add t k = (EKK_ERR_NO_MEMORY, t)"
    and add_new: "inv t \<Longrightarrow> k \<noteq> EKK_INVALID_MODULE_ID \<Longrightarrow> k \<notin> set (keys t) \<Longrightarrow>
      length (keys t) < size_limit \<Longrightarrow>
      fst (add t k) = EKK_OK \<and> inv (snd (add t k)) \<and> keys (snd (add t k)) = keys t @ [k]"
    and remove_unknown: "inv t \<Longrightarrow> k \<noteq> EKK_INVALID_MODULE_ID \<Longrightarrow> k \<notin> set (keys t) \<Longrightarrow>
      remove t k = (EKK_ERR_NOT_FOUND, t)"
    and remove_known: "inv t \<Longrightarrow> k \<noteq> EKK_INVALID_MODULE_ID \<Longrightarrow> k \<in> set (keys t) \<Longrightarrow>
      fst (remove t k) = EKK_OK \<and> inv (snd (remove t k)) \<and> keys (snd (remove t k)) = remove1 k (keys t)"
begin

lemma inv_add: "inv t \<Longrightarrow> k \<noteq> EKK_INVALID_MODULE_ID \<Longrightarrow> inv (snd (add t k))"
  using add_known [of t k] add_full [of t k] add_new [of t k] keys_limit [of t]
  by (cases "k \<in> set (keys t)"; cases "length (keys t) = size_limit") auto

lemma inv_remove: "inv t \<Longrightarrow> k \<noteq> EKK_INVALID_MODULE_ID \<Longrightarrow> inv (snd (remove t k))"
  using remove_known [of t k] remove_unknown [of t k] by (cases "k \<in> set (keys t)") auto

lemma add_ok_iff:
  "inv t \<Longrightarrow> k \<noteq> EKK_INVALID_MODULE_ID \<Longrightarrow>
   fst (add t k) = EKK_OK \<longleftrightarrow> k \<notin> set (keys t) \<and> length (keys t) < size_limit"
  using add_known [of t k] add_full [of t k] add_new [of t k] keys_limit [of t]
  by (cases "k \<in> set (keys t)"; cases "length (keys t) = size_limit") auto

lemma remove_not_member:
  "inv t \<Longrightarrow> k \<noteq> EKK_INVALID_MODULE_ID \<Longrightarrow> k \<notin> set (keys (snd (remove t k)))"
  using remove_known [of t k] remove_unknown [of t k] keys_distinct [of t]
  by (cases "k \<in> set (keys t)") auto

lemma remove_add_keys:
  assumes "inv t" "k \<noteq> EKK_INVALID_MODULE_ID" "fst (add t k) = EKK_OK"
  shows "fst (remove (snd (add t k)) k) = EKK_OK \<and> keys (snd (remove (snd (add t k)) k)) = keys t"
proof -
  from assms have new: "k \<notin> set (keys t)" "length (keys t) < size_limit" by (simp_all add: add_ok_iff)
  with add_new [OF assms(1,2)] have "inv (snd (add t k))" "keys (snd (add t k)) = keys t @ [k]" by simp_all
  with remove_known [of "snd (add t k)" k] assms(2) new show ?thesis by (simp add: remove1_append)
qed

end

section \<open>Machines with an invariant\<close>

text \<open>
  An event-driven component: a step function over the events it handles, and an invariant that
  every event keeps. Whatever the order of events, every state of a run satisfies it.
\<close>

locale event_machine =
  fixes step :: "'s \<Rightarrow> 'e \<Rightarrow> 's"
    and inv :: "'s \<Rightarrow> bool"
  assumes inv_step: "inv s \<Longrightarrow> inv (step s e)"
begin

lemma inv_run: "inv s \<Longrightarrow> inv (foldl step s es)"
  by (induction es arbitrary: s) (simp_all add: inv_step)

end

text \<open>A machine in which some level never goes down: terms, epochs, sequence numbers.\<close>

locale monotone_machine = event_machine +
  fixes level :: "'s \<Rightarrow> 'm::order"
  assumes level_step: "inv s \<Longrightarrow> level s \<le> level (step s e)"
begin

lemma level_run: "inv s \<Longrightarrow> level s \<le> level (foldl step s es)"
proof (induction es arbitrary: s)
  case (Cons e es)
  from Cons.prems have "level s \<le> level (step s e)" by (rule level_step)
  also have "\<dots> \<le> level (foldl step (step s e) es)" using Cons by (simp add: inv_step)
  finally show ?case by simp
qed simp

lemma level_prefix: "inv s \<Longrightarrow> level (foldl step s es) \<le> level (foldl step s (es @ fs))"
  using level_run [of "foldl step s es" fs] inv_run [of s es] by simp

end

text \<open>Concurrent components are step relations; what every step keeps holds in every reachable state.\<close>

locale transition_invariant =
  fixes step :: "'s \<Rightarrow> 's \<Rightarrow> bool"
    and inv :: "'s \<Rightarrow> bool"
  assumes inv_step: "step s s' \<Longrightarrow> inv s \<Longrightarrow> inv s'"
begin

lemma inv_reachable: "step\<^sup>*\<^sup>* s s' \<Longrightarrow> inv s \<Longrightarrow> inv s'"
  by (induction rule: rtranclp_induct) (auto dest: inv_step)

end

end
