(* ===== verification/Ekk_Spsc.thy ===== *)
theory Ekk_Spsc
  imports Ekk_Interfaces
begin

text \<open>
  The single-producer single-consumer ring buffer (\<open>src/ekk_spsc.c\<close>, \<open>include/ekk/ekk_spsc.h\<close>).
  The buffer is the caller's byte array; a slot is the \<open>item_size\<close> bytes at
  \<open>index * item_size\<close>, the product taken on \<open>uint32_t\<close> as in \<open>slot_ptr\<close>. First the sequential
  operations and their refinement to a list, then the interleavings of a producer and a
  consumer, byte by byte. Memory is sequentially consistent: the barriers of the code are what
  entitles the model to that, and they have no other effect in it.
\<close>

unbundle bit_operations_syntax

section \<open>Model\<close>

record ekk_spsc =
  sp_head :: u32
  sp_tail :: u32
  sp_buffer :: "u8 list"
  sp_capacity :: u32
  sp_mask :: u32
  sp_item_size :: u32

definition is_power_of_2 :: "u32 \<Rightarrow> bool" where
  "is_power_of_2 n \<longleftrightarrow> n \<noteq> 0 \<and> n AND (n - 1) = 0"

definition slot_ptr :: "ekk_spsc \<Rightarrow> u32 \<Rightarrow> nat" where
  "slot_ptr q index = unat (index * sp_item_size q)"

definition slot_read :: "ekk_spsc \<Rightarrow> u32 \<Rightarrow> u8 list" where
  "slot_read q index = take (unat (sp_item_size q)) (drop (slot_ptr q index) (sp_buffer q))"

definition slot_write :: "ekk_spsc \<Rightarrow> u32 \<Rightarrow> u8 list \<Rightarrow> ekk_spsc" where
  "slot_write q index item =
     (let p = slot_ptr q index; n = unat (sp_item_size q)
      in q\<lparr>sp_buffer := take p (sp_buffer q) @ take n item @ drop (p + n) (sp_buffer q)\<rparr>)"

text \<open>\<open>buffer = None\<close> is the NULL pointer; the queue pointer itself is never NULL in the model.\<close>

definition ekk_spsc_init :: "ekk_spsc \<Rightarrow> u8 list option \<Rightarrow> u32 \<Rightarrow> u32 \<Rightarrow> ekk_error \<times> ekk_spsc" where
  "ekk_spsc_init q buffer capacity item_size =
     (case buffer of
        None \<Rightarrow> (EKK_ERR_INVALID_ARG, q)
      | Some buf \<Rightarrow>
          if capacity = 0 \<or> item_size = 0 then (EKK_ERR_INVALID_ARG, q)
          else if \<not> is_power_of_2 capacity then (EKK_ERR_INVALID_ARG, q)
          else
            (let n = unat (capacity * item_size)
             in (EKK_OK, \<lparr>sp_head = 0, sp_tail = 0, sp_buffer = replicate n 0 @ drop n buf,
                  sp_capacity = capacity, sp_mask = capacity - 1, sp_item_size = item_size\<rparr>)))"

definition ekk_spsc_reset :: "ekk_spsc \<Rightarrow> ekk_spsc" where
  "ekk_spsc_reset q = q\<lparr>sp_head := 0, sp_tail := 0\<rparr>"

definition ekk_spsc_push :: "ekk_spsc \<Rightarrow> u8 list \<Rightarrow> ekk_error \<times> ekk_spsc" where
  "ekk_spsc_push q item =
     (let head = sp_head q; next_head = (head + 1) AND sp_mask q
      in if next_head = sp_tail q then (EKK_ERR_NO_MEMORY, q)
         else (EKK_OK, (slot_write q head item)\<lparr>sp_head := next_head\<rparr>))"

definition ekk_spsc_push_acquire :: "ekk_spsc \<Rightarrow> nat option" where
  "ekk_spsc_push_acquire q =
     (let head = sp_head q; next_head = (head + 1) AND sp_mask q
      in if next_head = sp_tail q then None else Some (slot_ptr q head))"

definition ekk_spsc_push_commit :: "ekk_spsc \<Rightarrow> ekk_spsc" where
  "ekk_spsc_push_commit q = q\<lparr>sp_head := (sp_head q + 1) AND sp_mask q\<rparr>"

definition ekk_spsc_pop :: "ekk_spsc \<Rightarrow> ekk_error \<times> u8 list option \<times> ekk_spsc" where
  "ekk_spsc_pop q =
     (let tail = sp_tail q
      in if tail = sp_head q then (EKK_ERR_NOT_FOUND, None, q)
         else (EKK_OK, Some (slot_read q tail), q\<lparr>sp_tail := (tail + 1) AND sp_mask q\<rparr>))"

definition ekk_spsc_pop_peek :: "ekk_spsc \<Rightarrow> nat option" where
  "ekk_spsc_pop_peek q =
     (let tail = sp_tail q in if tail = sp_head q then None else Some (slot_ptr q tail))"

definition ekk_spsc_pop_release :: "ekk_spsc \<Rightarrow> ekk_spsc" where
  "ekk_spsc_pop_release q = q\<lparr>sp_tail := (sp_tail q + 1) AND sp_mask q\<rparr>"

definition ekk_spsc_len :: "ekk_spsc \<Rightarrow> u32" where
  "ekk_spsc_len q = (sp_head q - sp_tail q) AND sp_mask q"

definition ekk_spsc_is_empty :: "ekk_spsc \<Rightarrow> bool" where
  "ekk_spsc_is_empty q \<longleftrightarrow> sp_head q = sp_tail q"

definition ekk_spsc_is_full :: "ekk_spsc \<Rightarrow> bool" where
  "ekk_spsc_is_full q \<longleftrightarrow> (sp_head q + 1) AND sp_mask q = sp_tail q"

definition ekk_spsc_available :: "ekk_spsc \<Rightarrow> u32" where
  "ekk_spsc_available q = sp_capacity q - 1 - ekk_spsc_len q"

section \<open>Geometry of the ring\<close>

text \<open>
  The geometry \<open>ekk_spsc_init\<close> establishes when the buffer holds \<open>capacity * item_size\<close>
  bytes and that product fits \<open>uint32_t\<close>, as its documentation asks of the caller.
\<close>

definition spsc_inv :: "ekk_spsc \<Rightarrow> bool" where
  "spsc_inv q \<longleftrightarrow> is_power_of_2 (sp_capacity q) \<and> sp_mask q = sp_capacity q - 1
     \<and> sp_head q < sp_capacity q \<and> sp_tail q < sp_capacity q \<and> sp_item_size q \<noteq> 0
     \<and> unat (sp_capacity q) * unat (sp_item_size q) < 2 ^ 32
     \<and> unat (sp_capacity q) * unat (sp_item_size q) \<le> length (sp_buffer q)"

definition spsc_room :: "ekk_spsc \<Rightarrow> nat" where
  "spsc_room q = unat (sp_capacity q) - 1"

text \<open>The abstract content: the slots from \<open>tail\<close> to \<open>head\<close>, oldest first.\<close>

definition spsc_items :: "ekk_spsc \<Rightarrow> u8 list list" where
  "spsc_items q = map (\<lambda>k. slot_read q ((sp_tail q + of_nat k) AND sp_mask q)) [0..<unat (ekk_spsc_len q)]"

lemma power_of_2_exp:
  assumes "is_power_of_2 n"
  shows "\<exists>k < 32. unat n = 2 ^ k"
proof -
  have pos: "1 \<le> unat n" using assms by (simp add: is_power_of_2_def Suc_le_eq unat_gt_0)
  then obtain k where k: "2 ^ k \<le> unat n" "unat n < 2 ^ (k + 1)"
    using ex_power_ivl1 [of 2 "unat n"] by auto
  have lim: "unat n < 2 ^ 32" using unsigned_less [of n, where ?'a = nat] by simp
  with k(1) have "(2::nat) ^ k < 2 ^ 32" by linarith
  then have k32: "k < 32" by (rule power_less_imp_less_exp [rotated]) simp
  have "unat n = 2 ^ k"
  proof (rule ccontr)
    assume "unat n \<noteq> 2 ^ k"
    with k(1) have ge: "2 ^ k \<le> unat n - 1" by simp
    have bits: "bit m k" if "2 ^ k \<le> m" "m < 2 ^ (k + 1)" for m :: nat
    proof -
      have "m div 2 ^ k = 1" using that by (intro div_nat_eqI) auto
      then show ?thesis by (simp add: bit_iff_odd)
    qed
    have "bit (unat n) k" using k by (intro bits)
    moreover have "bit (unat (n - 1)) k"
    proof -
      have "n \<noteq> 0" using assms by (simp add: is_power_of_2_def)
      then have "unat (n - 1) = unat n - 1" by (rule unat_minus_one)
      then show ?thesis using ge k by (intro bits) auto
    qed
    ultimately have "bit (n AND (n - 1)) k"
      by (simp add: bit_and_iff bit_unsigned_iff)
    with assms show False by (simp add: is_power_of_2_def)
  qed
  with k32 show ?thesis by blast
qed

lemma unat_and_mask:
  assumes "is_power_of_2 c"
  shows "unat (x AND (c - 1)) = unat x mod unat c"
proof -
  obtain k where k: "k < 32" "unat c = 2 ^ k" using power_of_2_exp [OF assms] by blast
  have "c = of_nat (unat c)" by simp
  then have "c = 2 ^ k" by (simp only: k of_nat_power of_nat_numeral)
  then have "c - 1 = mask k" by (simp add: mask_eq_decr_exp)
  then have "x AND (c - 1) = take_bit k x" by (simp add: take_bit_eq_mask)
  moreover have "unat (take_bit k x) = unat x mod 2 ^ k"
    by (simp only: unsigned_take_bit_eq) (simp add: take_bit_eq_mod)
  ultimately show ?thesis using k by simp
qed

text \<open>Reading and writing one slot of a byte array.\<close>

lemma nth_splice:
  assumes "p + length ys \<le> length xs" "m < length xs"
  shows "(take p xs @ ys @ drop (p + length ys) xs) ! m =
    (if p \<le> m \<and> m < p + length ys then ys ! (m - p) else xs ! m)"
  using assms by (auto simp: nth_append)

lemma chunk_splice_same:
  assumes "i * n + n \<le> length xs" "length ys = n"
  shows "take n (drop (i * n) (take (i * n) xs @ ys @ drop (i * n + n) xs)) = ys"
  using assms by simp

lemma chunk_splice_other:
  assumes "i * n + n \<le> length xs" "j * n + n \<le> length xs" "length ys = n" "i \<noteq> (j::nat)"
  shows "take n (drop (j * n) (take (i * n) xs @ ys @ drop (i * n + n) xs)) = take n (drop (j * n) xs)"
proof (rule nth_equalityI)
  have "length (take (i * n) xs @ ys @ drop (i * n + n) xs) = length xs" using assms by simp
  then show "length (take n (drop (j * n) (take (i * n) xs @ ys @ drop (i * n + n) xs))) = length (take n (drop (j * n) xs))"
    by (simp only: length_take length_drop)
  fix k assume "k < length (take n (drop (j * n) (take (i * n) xs @ ys @ drop (i * n + n) xs)))"
  then have k: "k < n" by (simp only: length_take min_less_iff_conj)
  have "j * n + n \<le> i * n \<or> i * n + n \<le> j * n"
    using assms(4) by (metis add.commute mult_Suc mult_le_mono1 not_less_eq_eq nat_neq_iff Suc_leI)
  then have "\<not> (i * n \<le> j * n + k \<and> j * n + k < i * n + n)" using k by linarith
  with nth_splice [of "i * n" ys xs "j * n + k"] assms k
  show "take n (drop (j * n) (take (i * n) xs @ ys @ drop (i * n + n) xs)) ! k = take n (drop (j * n) xs) ! k"
    by (simp del: take_append drop_append drop_drop)
qed

definition nslot :: "ekk_spsc \<Rightarrow> nat \<Rightarrow> u8 list" where
  "nslot q i = take (unat (sp_item_size q)) (drop (i * unat (sp_item_size q)) (sp_buffer q))"

lemma spsc_invD:
  assumes "spsc_inv q"
  shows "is_power_of_2 (sp_capacity q)" "sp_mask q = sp_capacity q - 1"
    "unat (sp_head q) < unat (sp_capacity q)" "unat (sp_tail q) < unat (sp_capacity q)"
    "0 < unat (sp_item_size q)" "unat (sp_capacity q) * unat (sp_item_size q) < 2 ^ 32"
    "unat (sp_capacity q) * unat (sp_item_size q) \<le> length (sp_buffer q)"
  using assms by (simp_all add: spsc_inv_def word_less_nat_alt unat_gt_0)

lemma slot_in_buffer:
  assumes "spsc_inv q" "i < unat (sp_capacity q)"
  shows "i * unat (sp_item_size q) + unat (sp_item_size q) \<le> length (sp_buffer q)"
proof -
  have "Suc i * unat (sp_item_size q) \<le> unat (sp_capacity q) * unat (sp_item_size q)"
    using assms(2) by (intro mult_le_mono1) simp
  then show ?thesis using spsc_invD(7) [OF assms(1)] by simp
qed

lemma slot_ptr_eq:
  assumes "spsc_inv q" "unat i < unat (sp_capacity q)"
  shows "slot_ptr q i = unat i * unat (sp_item_size q)"
proof -
  have "unat i * unat (sp_item_size q) \<le> unat (sp_capacity q) * unat (sp_item_size q)"
    using assms(2) by (intro mult_le_mono1) simp
  then have "unat i * unat (sp_item_size q) < 2 ^ 32"
    using spsc_invD(6) [OF assms(1)] by (rule le_less_trans)
  then show ?thesis by (simp add: slot_ptr_def unat_word_ariths)
qed

lemma slot_read_eq:
  "spsc_inv q \<Longrightarrow> unat i < unat (sp_capacity q) \<Longrightarrow> slot_read q i = nslot q (unat i)"
  by (simp add: slot_read_def nslot_def slot_ptr_eq)

lemma capacity_dvd: "is_power_of_2 c \<Longrightarrow> unat c dvd 2 ^ 32"
  by (metis le_imp_power_dvd less_imp_le power_of_2_exp)

lemma unat_advance:
  assumes "spsc_inv q"
  shows "unat ((i + of_nat k) AND sp_mask q) = (unat i + k) mod unat (sp_capacity q)"
proof -
  note pow = spsc_invD(1) [OF assms]
  have "unat (i + of_nat k) = (unat i + k) mod 2 ^ 32"
    by (simp add: unat_word_ariths unat_of_nat mod_simps)
  then show ?thesis
    using unat_and_mask [OF pow, of "i + of_nat k"] capacity_dvd [OF pow]
    by (simp add: spsc_invD(2) [OF assms] mod_mod_cancel)
qed

lemma unat_next:
  "spsc_inv q \<Longrightarrow> unat ((i + 1) AND sp_mask q) = (unat i + 1) mod unat (sp_capacity q)"
  using unat_advance [of q i 1] by simp

lemma add_mod_cancel:
  fixes c c' :: nat
  assumes eq: "(t + c) mod n = (t + c') mod n" and lim: "c < n" "c' < n"
  shows "c = c'"
proof -
  have zero: "b - a = 0" if "(t + a) mod n = (t + b) mod n" "b < n" for a b :: nat
  proof (cases "a \<le> b")
    case True
    then have "n dvd (t + b) - (t + a)" using that(1) by (metis mod_eq_dvd_iff_nat add_le_cancel_left)
    then have "n dvd b - a" by simp
    moreover have "b - a < n" using that(2) by simp
    ultimately show ?thesis by (metis gr0I nat_dvd_not_less)
  qed simp
  from zero [OF eq lim(2)] zero [OF eq [symmetric] lim(1)] show ?thesis by simp
qed

section \<open>Refinement to a list\<close>

definition spsc_count :: "ekk_spsc \<Rightarrow> nat" where
  "spsc_count q = unat (ekk_spsc_len q)"

lemma spsc_count:
  assumes "spsc_inv q"
  shows "spsc_count q < unat (sp_capacity q)"
    and "(unat (sp_tail q) + spsc_count q) mod unat (sp_capacity q) = unat (sp_head q)"
proof -
  note inv = spsc_invD [OF assms]
  define d where "d = unat (sp_head q - sp_tail q)"
  have c: "spsc_count q = d mod unat (sp_capacity q)"
    using unat_and_mask [OF inv(1), of "sp_head q - sp_tail q"]
    by (simp add: spsc_count_def ekk_spsc_len_def inv(2) d_def)
  then show "spsc_count q < unat (sp_capacity q)" using inv(3) by simp
  have "sp_tail q + of_nat d = sp_head q" by (simp add: d_def)
  with unat_advance [OF assms, of "sp_tail q" d]
  have "(unat (sp_tail q) + d) mod unat (sp_capacity q) = unat (sp_head q AND sp_mask q)" by simp
  also have "\<dots> = unat (sp_head q)"
    using unat_and_mask [OF inv(1), of "sp_head q"] inv(3) by (simp add: inv(2))
  finally show "(unat (sp_tail q) + spsc_count q) mod unat (sp_capacity q) = unat (sp_head q)"
    by (simp add: c mod_simps)
qed

lemma spsc_count_unique:
  assumes "spsc_inv q" "c < unat (sp_capacity q)"
    "(unat (sp_tail q) + c) mod unat (sp_capacity q) = unat (sp_head q)"
  shows "spsc_count q = c"
  using add_mod_cancel [of "unat (sp_tail q)" "spsc_count q" "unat (sp_capacity q)" c]
    spsc_count [OF assms(1)] assms(2,3) by simp

lemma spsc_items_eq:
  assumes "spsc_inv q"
  shows "spsc_items q = map (\<lambda>k. nslot q ((unat (sp_tail q) + k) mod unat (sp_capacity q))) [0..<spsc_count q]"
proof -
  have "0 < unat (sp_capacity q)" using spsc_invD(3) [OF assms] by simp
  then show ?thesis
    unfolding spsc_items_def spsc_count_def [symmetric]
    by (simp add: slot_read_eq [OF assms] unat_advance [OF assms])
qed

lemma length_spsc_items: "spsc_inv q \<Longrightarrow> length (spsc_items q) = spsc_count q"
  by (simp add: spsc_items_eq)

lemma spsc_full_iff:
  assumes "spsc_inv q"
  shows "(sp_head q + 1) AND sp_mask q = sp_tail q \<longleftrightarrow> spsc_count q = spsc_room q"
proof -
  let ?n = "unat (sp_capacity q)" and ?t = "unat (sp_tail q)"
  note inv = spsc_invD [OF assms] and c = spsc_count [OF assms]
  have "(sp_head q + 1) AND sp_mask q = sp_tail q \<longleftrightarrow> (unat (sp_head q) + 1) mod ?n = ?t"
    using unat_next [OF assms, of "sp_head q"] by (metis unsigned_word_eqI)
  also have "(unat (sp_head q) + 1) mod ?n = (?t + (spsc_count q + 1)) mod ?n"
    by (simp add: c(2) [symmetric] mod_simps)
  also have "(?t + (spsc_count q + 1)) mod ?n = ?t \<longleftrightarrow> spsc_count q + 1 = ?n"
  proof
    assume eq: "(?t + (spsc_count q + 1)) mod ?n = ?t"
    show "spsc_count q + 1 = ?n"
    proof (rule ccontr)
      assume "spsc_count q + 1 \<noteq> ?n"
      with c(1) have "spsc_count q + 1 < ?n" by simp
      with add_mod_cancel [of ?t "spsc_count q + 1" ?n 0] eq inv(4) show False by simp
    qed
  next
    assume "spsc_count q + 1 = ?n"
    with inv(4) show "(?t + (spsc_count q + 1)) mod ?n = ?t" by simp
  qed
  finally show ?thesis using c(1) by (auto simp: spsc_room_def)
qed

lemma spsc_empty_iff:
  assumes "spsc_inv q"
  shows "sp_tail q = sp_head q \<longleftrightarrow> spsc_count q = 0"
proof
  assume "sp_tail q = sp_head q"
  then show "spsc_count q = 0" by (simp add: spsc_count_def ekk_spsc_len_def)
next
  assume "spsc_count q = 0"
  with spsc_count(2) [OF assms] spsc_invD(4) [OF assms] show "sp_tail q = sp_head q"
    by (simp add: unsigned_word_eqI)
qed

text \<open>Writing the free slot at \<open>head\<close> leaves every queued slot as it was.\<close>

lemma slot_write_fields [simp]:
  "sp_head (slot_write q i x) = sp_head q" "sp_tail (slot_write q i x) = sp_tail q"
  "sp_capacity (slot_write q i x) = sp_capacity q" "sp_mask (slot_write q i x) = sp_mask q"
  "sp_item_size (slot_write q i x) = sp_item_size q"
  by (simp_all add: slot_write_def Let_def)

lemma nslot_slot_write:
  assumes "spsc_inv q" "unat i < unat (sp_capacity q)" "j < unat (sp_capacity q)" "length x = unat (sp_item_size q)"
  shows "nslot (slot_write q i x) j = (if j = unat i then x else nslot q j)"
  using chunk_splice_same [OF slot_in_buffer [OF assms(1,2)] assms(4)]
    chunk_splice_other [OF slot_in_buffer [OF assms(1,2)] slot_in_buffer [OF assms(1,3)] assms(4)] assms(4)
  by (auto simp: nslot_def slot_write_def Let_def slot_ptr_eq [OF assms(1,2)] simp del: take_append drop_append)

lemma spsc_inv_slot_write:
  assumes "spsc_inv q" "unat i < unat (sp_capacity q)" "length x = unat (sp_item_size q)"
  shows "spsc_inv (slot_write q i x)"
  using assms slot_in_buffer [OF assms(1,2)]
  by (simp add: spsc_inv_def) (simp add: slot_write_def Let_def slot_ptr_eq [OF assms(1,2)])

lemma spsc_count_slot_write [simp]: "spsc_count (slot_write q i x) = spsc_count q"
  by (simp add: spsc_count_def ekk_spsc_len_def)

lemma live_slot_not_head:
  assumes "spsc_inv q" "k < spsc_count q"
  shows "(unat (sp_tail q) + k) mod unat (sp_capacity q) \<noteq> unat (sp_head q)"
  using add_mod_cancel [of "unat (sp_tail q)" k "unat (sp_capacity q)" "spsc_count q"] spsc_count [OF assms(1)] assms(2)
  by auto

lemma spsc_items_slot_write_head:
  assumes "spsc_inv q" "length x = unat (sp_item_size q)"
  shows "spsc_items (slot_write q (sp_head q) x) = spsc_items q"
proof -
  note w = spsc_inv_slot_write [OF assms(1) spsc_invD(3) [OF assms(1)] assms(2)]
  have "0 < unat (sp_capacity q)" using spsc_invD(3) [OF assms(1)] by simp
  then show ?thesis
    using live_slot_not_head [OF assms(1)]
    by (simp add: spsc_items_eq [OF w] spsc_items_eq [OF assms(1)]
        nslot_slot_write [OF assms(1) spsc_invD(3) [OF assms(1)] _ assms(2)])
qed

text \<open>Moving \<open>head\<close> on makes the slot it leaves the newest item; moving \<open>tail\<close> drops the oldest.\<close>

lemma spsc_advance_head:
  assumes "spsc_inv q" "spsc_count q < spsc_room q"
  defines "q' \<equiv> q\<lparr>sp_head := (sp_head q + 1) AND sp_mask q\<rparr>"
  shows "spsc_inv q'" and "spsc_items q' = spsc_items q @ [nslot q (unat (sp_head q))]"
proof -
  let ?n = "unat (sp_capacity q)" and ?t = "unat (sp_tail q)"
  note inv = spsc_invD [OF assms(1)] and c = spsc_count [OF assms(1)]
  have h': "unat ((sp_head q + 1) AND sp_mask q) = (unat (sp_head q) + 1) mod ?n"
    by (rule unat_next [OF assms(1)])
  have "0 < ?n" using inv(3) by simp
  then show inv': "spsc_inv q'"
    using assms(1) h' by (simp add: q'_def spsc_inv_def word_less_nat_alt)
  have "(?t + (spsc_count q + 1)) mod ?n = (unat (sp_head q) + 1) mod ?n"
    by (simp add: c(2) [symmetric] mod_simps)
  moreover have "spsc_count q + 1 < ?n" using assms(2) by (simp add: spsc_room_def)
  ultimately have c': "spsc_count q' = spsc_count q + 1"
    using h' by (intro spsc_count_unique [OF inv']) (simp_all add: q'_def)
  have "nslot q' = nslot q" by (simp add: fun_eq_iff nslot_def q'_def)
  then show "spsc_items q' = spsc_items q @ [nslot q (unat (sp_head q))]"
    using c(2) by (simp add: spsc_items_eq [OF inv'] spsc_items_eq [OF assms(1)] c') (simp add: q'_def)
qed

lemma spsc_advance_tail:
  assumes "spsc_inv q" "0 < spsc_count q"
  defines "q' \<equiv> q\<lparr>sp_tail := (sp_tail q + 1) AND sp_mask q\<rparr>"
  shows "spsc_inv q'" and "spsc_items q = nslot q (unat (sp_tail q)) # spsc_items q'"
proof -
  let ?n = "unat (sp_capacity q)" and ?t = "unat (sp_tail q)"
  note inv = spsc_invD [OF assms(1)] and c = spsc_count [OF assms(1)]
  have t': "unat ((sp_tail q + 1) AND sp_mask q) = (?t + 1) mod ?n" by (rule unat_next [OF assms(1)])
  have n: "0 < ?n" using inv(3) by simp
  then show inv': "spsc_inv q'"
    using assms(1) t' by (simp add: q'_def spsc_inv_def word_less_nat_alt)
  have "((?t + 1) mod ?n + (spsc_count q - 1)) mod ?n = (?t + spsc_count q) mod ?n"
    using assms(2) by (cases "spsc_count q") (simp_all add: mod_simps)
  then have c': "spsc_count q' = spsc_count q - 1"
    using t' c by (intro spsc_count_unique [OF inv']) (simp_all add: q'_def)
  have "nslot q' = nslot q" by (simp add: fun_eq_iff nslot_def q'_def)
  then have "spsc_items q' = map (\<lambda>k. nslot q ((?t + Suc k) mod ?n)) [0..<spsc_count q - 1]"
    using t' by (simp add: spsc_items_eq [OF inv'] c') (simp add: q'_def mod_simps)
  moreover have "[0..<spsc_count q] = 0 # map Suc [0..<spsc_count q - 1]"
    using assms(2) by (simp add: map_Suc_upt upt_conv_Cons)
  ultimately show "spsc_items q = nslot q (unat (sp_tail q)) # spsc_items q'"
    using inv(4) by (simp add: spsc_items_eq [OF assms(1)] comp_def)
qed

lemma spsc_advance_frame:
  "spsc_room (q\<lparr>sp_head := h\<rparr>) = spsc_room q" "spsc_room (q\<lparr>sp_tail := h\<rparr>) = spsc_room q"
  "spsc_room (slot_write q i x) = spsc_room q"
  by (simp_all add: spsc_room_def)

definition spsc_fits :: "ekk_spsc \<Rightarrow> u8 list \<Rightarrow> bool" where
  "spsc_fits q x \<longleftrightarrow> length x = unat (sp_item_size q)"

text \<open>The error code read as success or failure: what a caller that tests it sees.\<close>

definition spsc_try_push :: "ekk_spsc \<Rightarrow> u8 list \<Rightarrow> ekk_spsc option" where
  "spsc_try_push q x = (case ekk_spsc_push q x of (e, q') \<Rightarrow> if e = EKK_OK then Some q' else None)"

definition spsc_try_pop :: "ekk_spsc \<Rightarrow> (u8 list \<times> ekk_spsc) option" where
  "spsc_try_pop q = (case ekk_spsc_pop q of (e, x, q') \<Rightarrow> if e = EKK_OK then map_option (\<lambda>y. (y, q')) x else None)"

interpretation spsc: bounded_queue spsc_try_push spsc_try_pop spsc_items spsc_room spsc_inv spsc_fits
proof unfold_locales
  fix q x assume inv: "spsc_inv q"
  show "length (spsc_items q) \<le> spsc_room q"
    using spsc_count(1) [OF inv] by (simp add: length_spsc_items [OF inv] spsc_room_def)
  show "spsc_try_push q x = None" if "length (spsc_items q) = spsc_room q"
    using that spsc_full_iff [OF inv]
    by (simp add: spsc_try_push_def ekk_spsc_push_def Let_def length_spsc_items [OF inv])
next
  fix q x assume inv: "spsc_inv q" and fit: "spsc_fits q x" and room: "length (spsc_items q) < spsc_room q"
  let ?w = "slot_write q (sp_head q) x" and ?next = "(sp_head q + 1) AND sp_mask q"
  have len: "length x = unat (sp_item_size q)" using fit by (simp add: spsc_fits_def)
  have w: "spsc_inv ?w" by (rule spsc_inv_slot_write [OF inv spsc_invD(3) [OF inv] len])
  have "spsc_count q < spsc_room q" using room by (simp add: length_spsc_items [OF inv])
  then have room': "spsc_count ?w < spsc_room ?w" and "spsc_count q \<noteq> spsc_room q"
    by (simp_all add: spsc_advance_frame)
  with spsc_full_iff [OF inv] have push: "spsc_try_push q x = Some (?w\<lparr>sp_head := ?next\<rparr>)"
    by (simp add: spsc_try_push_def ekk_spsc_push_def Let_def)
  have "nslot ?w (unat (sp_head q)) = x"
    using nslot_slot_write [OF inv _ _ len] spsc_invD(3) [OF inv] by simp
  then have "spsc_items (?w\<lparr>sp_head := ?next\<rparr>) = spsc_items q @ [x]"
    using spsc_advance_head(2) [OF w room'] spsc_items_slot_write_head [OF inv len] by simp
  moreover have "spsc_inv (?w\<lparr>sp_head := ?next\<rparr>)" using spsc_advance_head(1) [OF w room'] by simp
  ultimately show "\<exists>q'. spsc_try_push q x = Some q' \<and> spsc_inv q' \<and> spsc_items q' = spsc_items q @ [x]
      \<and> spsc_room q' = spsc_room q \<and> spsc_fits q' = spsc_fits q"
    using push by (simp add: spsc_advance_frame spsc_fits_def fun_eq_iff)
next
  fix q assume inv: "spsc_inv q" and "spsc_items q = []"
  then have "spsc_count q = 0" using length_spsc_items [OF inv] by simp
  then show "spsc_try_pop q = None"
    using spsc_empty_iff [OF inv] by (simp add: spsc_try_pop_def ekk_spsc_pop_def Let_def)
next
  fix q y ys assume inv: "spsc_inv q" and items: "spsc_items q = y # ys"
  then have pos: "0 < spsc_count q" using length_spsc_items [OF inv] by (metis length_greater_0_conv list.distinct(1))
  note adv = spsc_advance_tail [OF inv pos]
  have "y = slot_read q (sp_tail q)"
    using adv(2) items slot_read_eq [OF inv spsc_invD(4) [OF inv]] by simp
  then have "spsc_try_pop q = Some (y, q\<lparr>sp_tail := (sp_tail q + 1) AND sp_mask q\<rparr>)"
    using spsc_empty_iff [OF inv] pos by (simp add: spsc_try_pop_def ekk_spsc_pop_def Let_def)
  with adv items show "\<exists>q'. spsc_try_pop q = Some (y, q') \<and> spsc_inv q' \<and> spsc_items q' = ys
      \<and> spsc_room q' = spsc_room q \<and> spsc_fits q' = spsc_fits q"
    by (simp add: spsc_advance_frame spsc_fits_def fun_eq_iff)
qed

lemma spsc_init_inv:
  assumes "is_power_of_2 capacity" "item_size \<noteq> 0"
    "unat capacity * unat item_size < 2 ^ 32" "unat capacity * unat item_size \<le> length buf"
  shows "fst (ekk_spsc_init q (Some buf) capacity item_size) = EKK_OK"
    and "spsc_inv (snd (ekk_spsc_init q (Some buf) capacity item_size))"
    and "spsc_items (snd (ekk_spsc_init q (Some buf) capacity item_size)) = []"
proof -
  have "capacity \<noteq> 0" using assms(1) by (simp add: is_power_of_2_def)
  then have eq: "ekk_spsc_init q (Some buf) capacity item_size = (EKK_OK, \<lparr>sp_head = 0, sp_tail = 0,
      sp_buffer = replicate (unat (capacity * item_size)) 0 @ drop (unat (capacity * item_size)) buf,
      sp_capacity = capacity, sp_mask = capacity - 1, sp_item_size = item_size\<rparr>)"
    using assms by (simp add: ekk_spsc_init_def Let_def)
  have "unat (capacity * item_size) = unat capacity * unat item_size"
    using assms(3) by (simp add: unat_word_ariths)
  with \<open>capacity \<noteq> 0\<close> assms show "spsc_inv (snd (ekk_spsc_init q (Some buf) capacity item_size))"
    by (simp add: eq spsc_inv_def word_gt_0)
  show "spsc_items (snd (ekk_spsc_init q (Some buf) capacity item_size)) = []"
    by (simp add: eq spsc_items_def ekk_spsc_len_def)
  show "fst (ekk_spsc_init q (Some buf) capacity item_size) = EKK_OK" by (simp add: eq)
qed

text \<open>
  C11. The ring buffer is a FIFO queue. After \<open>ekk_spsc_init\<close> on a buffer large enough, for any
  sequence of pushes of whole items and pops, the items popped so far followed by the items
  still queued are exactly the items the pushes accepted, in order; the queue never holds more
  than \<open>capacity - 1\<close> items.
\<close>

theorem spsc_fifo:
  assumes "is_power_of_2 capacity" "item_size \<noteq> 0"
    and "unat capacity * unat item_size < 2 ^ 32" "unat capacity * unat item_size \<le> length buf"
    and "q = snd (ekk_spsc_init q0 (Some buf) capacity item_size)"
    and "\<forall>x. QPush x \<in> set ops \<longrightarrow> length x = unat item_size"
    and "queue_run spsc_try_push spsc_try_pop q ops = (r, ins, outs)"
  shows "outs @ spsc_items r = ins \<and> length (spsc_items r) \<le> unat capacity - 1"
proof -
  note init = spsc_init_inv [OF assms(1-4), of q0]
  have "capacity \<noteq> 0" using assms(1) by (simp add: is_power_of_2_def)
  then have "sp_item_size q = item_size" "sp_capacity q = capacity"
    using assms(1,2,5) by (simp_all add: ekk_spsc_init_def Let_def)
  with spsc.run_fifo [of q ops r ins outs] init assms(5,6,7) show ?thesis
    by (simp add: spsc_fits_def spsc_room_def)
qed

theorem spsc_fifo_witness:
  "\<exists>r ins outs. queue_run spsc_try_push spsc_try_pop
      (snd (ekk_spsc_init \<lparr>sp_head = 0, sp_tail = 0, sp_buffer = [], sp_capacity = 0, sp_mask = 0, sp_item_size = 0\<rparr>
        (Some [9, 9, 9, 9]) 4 1)) [QPush [1], QPush [2], QPop, QPush [3]] = (r, ins, outs)
     \<and> outs @ spsc_items r = ins"
proof -
  let ?q = "snd (ekk_spsc_init \<lparr>sp_head = 0, sp_tail = 0, sp_buffer = [], sp_capacity = 0, sp_mask = 0, sp_item_size = 0\<rparr>
        (Some [9, 9, 9, 9]) 4 1)"
  obtain r ins outs where run: "queue_run spsc_try_push spsc_try_pop ?q [QPush [1], QPush [2], QPop, QPush [3]] = (r, ins, outs)"
    by (metis prod.exhaust)
  have "outs @ spsc_items r = ins"
    using spsc_fifo [OF _ _ _ _ refl _ run] by (simp add: is_power_of_2_def)
  with run show ?thesis by blast
qed

text \<open>
  The zero-copy calls are the copying ones split in two: a push is acquire, a write of the
  item at the address acquired, and commit; a pop is peek, a read at the address peeked, and
  release. They refuse in the same states.
\<close>

lemma spsc_zero_copy_equiv:
  "ekk_spsc_push q x =
     (case ekk_spsc_push_acquire q of
        None \<Rightarrow> (EKK_ERR_NO_MEMORY, q)
      | Some p \<Rightarrow> (EKK_OK, ekk_spsc_push_commit
          (q\<lparr>sp_buffer := take p (sp_buffer q) @ take (unat (sp_item_size q)) x @ drop (p + unat (sp_item_size q)) (sp_buffer q)\<rparr>)))
   \<and> ekk_spsc_pop q =
     (case ekk_spsc_pop_peek q of
        None \<Rightarrow> (EKK_ERR_NOT_FOUND, None, q)
      | Some p \<Rightarrow> (EKK_OK, Some (take (unat (sp_item_size q)) (drop p (sp_buffer q))), ekk_spsc_pop_release q))"
  by (simp add: ekk_spsc_push_def ekk_spsc_push_acquire_def ekk_spsc_push_commit_def ekk_spsc_pop_def
      ekk_spsc_pop_peek_def ekk_spsc_pop_release_def slot_write_def slot_read_def Let_def)

section \<open>Producer and consumer interleaved\<close>

text \<open>
  One producer runs \<open>ekk_spsc_push\<close>, one consumer runs \<open>ekk_spsc_pop\<close>, and either may be
  stopped between any two accesses to the shared structure. \<open>PCopy item next k\<close> is a producer that
  has found room, computed \<open>next_head\<close> and copied \<open>k\<close> bytes of its item; \<open>CCopy t acc\<close> is a
  consumer that has read \<open>tail\<close>, found the queue not empty and copied the bytes \<open>acc\<close> so far. The
  last two fields record what has been published and what has been delivered.
\<close>

datatype producer_pc = PIdle | PCopy "u8 list" u32 nat
datatype consumer_pc = CIdle | CCopy u32 "u8 list"

record spsc_system =
  sy_queue :: ekk_spsc
  sy_prod :: producer_pc
  sy_cons :: consumer_pc
  sy_pushed :: "u8 list list"
  sy_popped :: "u8 list list"

definition write_byte :: "ekk_spsc \<Rightarrow> nat \<Rightarrow> u8 \<Rightarrow> ekk_spsc" where
  "write_byte q p b = q\<lparr>sp_buffer := (sp_buffer q)[p := b]\<rparr>"

inductive spsc_step :: "spsc_system \<Rightarrow> spsc_system \<Rightarrow> bool" where
  push_full: "sy_prod s = PIdle \<Longrightarrow> (sp_head (sy_queue s) + 1) AND sp_mask (sy_queue s) = sp_tail (sy_queue s) \<Longrightarrow>
    spsc_step s s"
| push_start: "sy_prod s = PIdle \<Longrightarrow> length item = unat (sp_item_size (sy_queue s)) \<Longrightarrow>
    next_head = (sp_head (sy_queue s) + 1) AND sp_mask (sy_queue s) \<Longrightarrow> next_head \<noteq> sp_tail (sy_queue s) \<Longrightarrow>
    spsc_step s (s\<lparr>sy_prod := PCopy item next_head 0\<rparr>)"
| push_byte: "sy_prod s = PCopy item next_head k \<Longrightarrow> k < unat (sp_item_size (sy_queue s)) \<Longrightarrow>
    spsc_step s (s\<lparr>sy_queue := write_byte (sy_queue s) (slot_ptr (sy_queue s) (sp_head (sy_queue s)) + k) (item ! k),
      sy_prod := PCopy item next_head (Suc k)\<rparr>)"
| push_publish: "sy_prod s = PCopy item next_head k \<Longrightarrow> k = unat (sp_item_size (sy_queue s)) \<Longrightarrow>
    spsc_step s (s\<lparr>sy_queue := (sy_queue s)\<lparr>sp_head := next_head\<rparr>, sy_prod := PIdle,
      sy_pushed := sy_pushed s @ [item]\<rparr>)"
| pop_empty: "sy_cons s = CIdle \<Longrightarrow> sp_tail (sy_queue s) = sp_head (sy_queue s) \<Longrightarrow> spsc_step s s"
| pop_start: "sy_cons s = CIdle \<Longrightarrow> sp_tail (sy_queue s) \<noteq> sp_head (sy_queue s) \<Longrightarrow>
    spsc_step s (s\<lparr>sy_cons := CCopy (sp_tail (sy_queue s)) []\<rparr>)"
| pop_byte: "sy_cons s = CCopy t acc \<Longrightarrow> length acc < unat (sp_item_size (sy_queue s)) \<Longrightarrow>
    spsc_step s (s\<lparr>sy_cons := CCopy t (acc @ [sp_buffer (sy_queue s) ! (slot_ptr (sy_queue s) t + length acc)])\<rparr>)"
| pop_release: "sy_cons s = CCopy t acc \<Longrightarrow> length acc = unat (sp_item_size (sy_queue s)) \<Longrightarrow>
    spsc_step s (s\<lparr>sy_queue := (sy_queue s)\<lparr>sp_tail := (t + 1) AND sp_mask (sy_queue s)\<rparr>, sy_cons := CIdle,
      sy_popped := sy_popped s @ [acc]\<rparr>)"

definition spsc_start :: "ekk_spsc \<Rightarrow> spsc_system" where
  "spsc_start q = \<lparr>sy_queue = q, sy_prod = PIdle, sy_cons = CIdle, sy_pushed = [], sy_popped = []\<rparr>"

inductive spsc_reachable :: "ekk_spsc \<Rightarrow> spsc_system \<Rightarrow> bool" for q where
  start: "spsc_reachable q (spsc_start q)"
| step: "spsc_reachable q s \<Longrightarrow> spsc_step s s' \<Longrightarrow> spsc_reachable q s'"

fun producer_ok :: "ekk_spsc \<Rightarrow> producer_pc \<Rightarrow> bool" where
  "producer_ok q PIdle = True"
| "producer_ok q (PCopy item next_head k) =
     (next_head = (sp_head q + 1) AND sp_mask q \<and> spsc_count q < spsc_room q
      \<and> length item = unat (sp_item_size q) \<and> k \<le> length item
      \<and> take k (nslot q (unat (sp_head q))) = take k item)"

fun consumer_ok :: "ekk_spsc \<Rightarrow> consumer_pc \<Rightarrow> bool" where
  "consumer_ok q CIdle = True"
| "consumer_ok q (CCopy t acc) =
     (t = sp_tail q \<and> 0 < spsc_count q \<and> length acc \<le> unat (sp_item_size q)
      \<and> acc = take (length acc) (nslot q (unat (sp_tail q))))"

definition system_inv :: "spsc_system \<Rightarrow> bool" where
  "system_inv s \<longleftrightarrow> spsc_inv (sy_queue s) \<and> sy_pushed s = sy_popped s @ spsc_items (sy_queue s)
     \<and> producer_ok (sy_queue s) (sy_prod s) \<and> consumer_ok (sy_queue s) (sy_cons s)"

lemma write_byte_fields [simp]:
  "sp_head (write_byte q p b) = sp_head q" "sp_tail (write_byte q p b) = sp_tail q"
  "sp_capacity (write_byte q p b) = sp_capacity q" "sp_mask (write_byte q p b) = sp_mask q"
  "sp_item_size (write_byte q p b) = sp_item_size q" "spsc_count (write_byte q p b) = spsc_count q"
  "spsc_room (write_byte q p b) = spsc_room q" "spsc_inv (write_byte q p b) = spsc_inv q"
  by (simp_all add: write_byte_def spsc_count_def ekk_spsc_len_def spsc_room_def spsc_inv_def)

lemma length_nslot:
  "spsc_inv q \<Longrightarrow> i < unat (sp_capacity q) \<Longrightarrow> length (nslot q i) = unat (sp_item_size q)"
  using slot_in_buffer [of q i] by (simp add: nslot_def)

lemma nslot_write_byte:
  assumes "k < unat (sp_item_size q)"
  shows "nslot (write_byte q (i * unat (sp_item_size q) + k) b) j = (if j = i then (nslot q i)[k := b] else nslot q j)"
proof -
  let ?n = "unat (sp_item_size q)"
  consider (eq) "j = i" | (lt) "j * ?n + ?n \<le> i * ?n" | (gt) "i * ?n + ?n \<le> j * ?n"
    by (metis add.commute mult_Suc mult_le_mono1 nat_neq_iff Suc_leI)
  then show ?thesis
  proof cases
    case eq
    then show ?thesis by (simp add: nslot_def write_byte_def drop_update_swap take_update_swap)
  next
    case lt
    then show ?thesis using assms
      by (auto simp: nslot_def write_byte_def drop_update_swap take_update_cancel)
  next
    case gt
    then show ?thesis using assms by (auto simp: nslot_def write_byte_def drop_update_cancel)
  qed
qed

lemma spsc_items_write_byte_head:
  assumes "spsc_inv q" "k < unat (sp_item_size q)"
  shows "spsc_items (write_byte q (unat (sp_head q) * unat (sp_item_size q) + k) b) = spsc_items q"
  using live_slot_not_head [OF assms(1)] assms(1)
  by (simp add: spsc_items_eq nslot_write_byte [OF assms(2)])

lemma tail_not_head: "spsc_inv q \<Longrightarrow> 0 < spsc_count q \<Longrightarrow> unat (sp_tail q) \<noteq> unat (sp_head q)"
  using spsc_empty_iff [of q] by (auto simp: word_unat_eq_iff)

lemma spsc_count_after_release:
  assumes "spsc_inv q" "0 < spsc_count q"
  shows "spsc_count (q\<lparr>sp_tail := (sp_tail q + 1) AND sp_mask q\<rparr>) < spsc_count q"
  using spsc_advance_tail [OF assms] assms length_spsc_items by (metis length_Cons lessI)

lemma nslot_upd [simp]:
  "nslot (q\<lparr>sp_head := h\<rparr>) = nslot q" "nslot (q\<lparr>sp_tail := h\<rparr>) = nslot q"
  by (simp_all add: nslot_def fun_eq_iff)

lemma spsc_step_inv:
  assumes "spsc_step s s'" "system_inv s"
  shows "system_inv s'"
  using assms
proof (induction rule: spsc_step.induct)
  case (push_start s item next_head)
  then have "spsc_count (sy_queue s) \<noteq> spsc_room (sy_queue s)"
    using spsc_full_iff by (simp add: system_inv_def)
  with push_start spsc_count(1) [of "sy_queue s"] show ?case
    by (auto simp: system_inv_def spsc_room_def)
next
  case (push_byte s item next_head k)
  let ?q = "sy_queue s"
  from push_byte have inv: "spsc_inv ?q" and k: "k < length item" "length item = unat (sp_item_size ?q)"
    and taken: "take k (nslot ?q (unat (sp_head ?q))) = take k item"
    by (simp_all add: system_inv_def)
  have ptr: "slot_ptr ?q (sp_head ?q) = unat (sp_head ?q) * unat (sp_item_size ?q)"
    by (rule slot_ptr_eq [OF inv spsc_invD(3) [OF inv]])
  have "take (Suc k) ((nslot ?q (unat (sp_head ?q)))[k := item ! k]) = take (Suc k) item"
    using taken k length_nslot [OF inv spsc_invD(3) [OF inv]]
    by (simp add: take_snoc_update take_Suc_conv_app_nth [of k item])
  then show ?case
    using push_byte inv tail_not_head [OF inv]
    by (cases "sy_cons s")
      (auto simp: system_inv_def ptr spsc_items_write_byte_head nslot_write_byte)
next
  case (push_publish s item next_head k)
  let ?q = "sy_queue s"
  from push_publish have inv: "spsc_inv ?q" and room: "spsc_count ?q < spsc_room ?q"
    and nh: "next_head = (sp_head ?q + 1) AND sp_mask ?q" and k: "length item = unat (sp_item_size ?q)"
    by (simp_all add: system_inv_def)
  have "nslot ?q (unat (sp_head ?q)) = item"
    using push_publish k length_nslot [OF inv spsc_invD(3) [OF inv]] by (simp add: system_inv_def)
  moreover have "0 < spsc_count (?q\<lparr>sp_head := next_head\<rparr>)"
    using spsc_advance_head [OF inv room] length_spsc_items by (metis nh length_append_singleton zero_less_Suc)
  ultimately show ?case
    using push_publish spsc_advance_head [OF inv room] nh
    by (cases "sy_cons s") (auto simp: system_inv_def)
next
  case (pop_start s)
  then have "0 < spsc_count (sy_queue s)" using spsc_empty_iff by (auto simp: system_inv_def)
  with pop_start show ?case by (simp add: system_inv_def)
next
  case (pop_byte s t acc)
  let ?q = "sy_queue s"
  from pop_byte have inv: "spsc_inv ?q" and t: "t = sp_tail ?q"
    and acc: "acc = take (length acc) (nslot ?q (unat (sp_tail ?q)))" "length acc < unat (sp_item_size ?q)"
    by (simp_all add: system_inv_def)
  note ti = spsc_invD(4) [OF inv]
  have "sp_buffer ?q ! (slot_ptr ?q t + length acc) = nslot ?q (unat (sp_tail ?q)) ! length acc"
    using acc(2) slot_in_buffer [OF inv ti] by (simp add: nslot_def t slot_ptr_eq [OF inv ti])
  moreover have "take (Suc (length acc)) (nslot ?q (unat (sp_tail ?q)))
      = acc @ [nslot ?q (unat (sp_tail ?q)) ! length acc]"
    using acc length_nslot [OF inv ti] by (metis take_Suc_conv_app_nth)
  ultimately show ?case using pop_byte t by (simp add: system_inv_def)
next
  case (pop_release s t acc)
  let ?q = "sy_queue s"
  from pop_release have inv: "spsc_inv ?q" and t: "t = sp_tail ?q" and pos: "0 < spsc_count ?q"
    and acc: "acc = take (length acc) (nslot ?q (unat (sp_tail ?q)))"
    by (simp_all add: system_inv_def)
  have "acc = nslot ?q (unat (sp_tail ?q))"
    using acc pop_release(2) length_nslot [OF inv spsc_invD(4) [OF inv]] by simp
  then show ?case
    using pop_release spsc_advance_tail [OF inv pos] t spsc_count_after_release [OF inv pos]
    by (cases "sy_prod s") (auto simp: system_inv_def spsc_advance_frame)
qed simp_all

text \<open>
  C3. Lock-free safety. Start a producer and a consumer on an initialised, empty queue and let
  them interleave in any way, one shared access or one byte of a copy at a time: in every
  reachable state the items delivered are exactly the first items published, whole and in order,
  and the rest are in the queue.
\<close>

theorem spsc_interleaving_safe:
  assumes "spsc_inv q" "spsc_items q = []" "spsc_reachable q s"
  shows "sy_pushed s = sy_popped s @ spsc_items (sy_queue s)"
proof -
  from assms(3) have "system_inv s"
  proof (induction rule: spsc_reachable.induct)
    case start
    then show ?case using assms(1,2) by (simp add: system_inv_def spsc_start_def)
  next
    case (step s s')
    then show ?case by (blast intro: spsc_step_inv)
  qed
  then show ?thesis by (simp add: system_inv_def)
qed

theorem spsc_interleaving_safe_witness:
  "\<exists>q s. spsc_reachable q s \<and> sy_prod s = PCopy [7] 1 1 \<and> sy_pushed s = sy_popped s @ spsc_items (sy_queue s)"
proof -
  let ?q = "\<lparr>sp_head = 0, sp_tail = 0, sp_buffer = [0, 0], sp_capacity = 2, sp_mask = 1, sp_item_size = 1\<rparr>"
  let ?s1 = "(spsc_start ?q)\<lparr>sy_prod := PCopy [7] 1 0\<rparr>"
  let ?s2 = "?s1\<lparr>sy_queue := write_byte ?q 0 7, sy_prod := PCopy [7] 1 1\<rparr>"
  have inv: "spsc_inv ?q" "spsc_items ?q = []"
    by (simp_all add: spsc_inv_def is_power_of_2_def spsc_items_def ekk_spsc_len_def)
  have "spsc_step (spsc_start ?q) ?s1" by (rule push_start) (simp_all add: spsc_start_def)
  moreover have "spsc_step ?s1 ?s2"
    using push_byte [of ?s1 "[7]" 1 0] by (simp add: spsc_start_def slot_ptr_def)
  ultimately have "spsc_reachable ?q ?s2"
    by (blast intro: spsc_reachable.intros)
  with spsc_interleaving_safe [OF inv this] show ?thesis by (intro exI [of _ ?q] exI [of _ ?s2]) simp
qed

end
