(* ===== verification/Ekk_Partition.thy ===== *)
theory Ekk_Partition
  imports Ekk_Interfaces
begin

text \<open>
  The partition state machine (\<open>src/ekk_partition.c\<close>, \<open>include/ekk/ekk_partition.h\<close>): losing the
  quorum, minority freeze, and reconciliation with a power ramp. Epochs and counts are
  \<open>uint32_t\<close>, times \<open>uint64_t\<close>, power factors Q16.16.
\<close>

section \<open>Model\<close>

abbreviation (input) EKK_PARTITION_CONFIRM_TIMEOUT_US :: u64 where "EKK_PARTITION_CONFIRM_TIMEOUT_US \<equiv> 100000"
abbreviation (input) EKK_PARTITION_RECOVERY_MAX_US :: u64 where "EKK_PARTITION_RECOVERY_MAX_US \<equiv> 10000000"

text \<open>\<open>EKK_FLOAT_TO_FIXED(0.1f)\<close>: 6553.6 truncated.\<close>

abbreviation (input) EKK_PARTITION_POWER_RAMP_RATE :: u64 where "EKK_PARTITION_POWER_RAMP_RATE \<equiv> 6553"

datatype ekk_partition_state =
    EKK_PARTITION_HEALTHY
  | EKK_PARTITION_SUSPECTING
  | EKK_PARTITION_MAJORITY
  | EKK_PARTITION_MINORITY
  | EKK_PARTITION_RECONCILING

record ekk_partition_ctx =
  pt_state :: ekk_partition_state
  pt_epoch :: u32
  pt_total_modules :: u32
  pt_visible_count :: u32
  pt_quorum_size :: u32
  pt_state_enter_time :: u64
  pt_last_tick :: u64
  pt_suspecting_start :: u64
  pt_power_ramp_factor :: int
  pt_target_power_factor :: int
  pt_freeze_active :: bool
  pt_sync_received_count :: u32
  pt_sync_expected_count :: u32
  pt_sync_complete :: bool
  pt_max_observed_epoch :: u32

fun ekk_partition_state_str :: "ekk_partition_state \<Rightarrow> string" where
  "ekk_partition_state_str EKK_PARTITION_HEALTHY = ''HEALTHY''"
| "ekk_partition_state_str EKK_PARTITION_SUSPECTING = ''SUSPECTING''"
| "ekk_partition_state_str EKK_PARTITION_MAJORITY = ''MAJORITY''"
| "ekk_partition_state_str EKK_PARTITION_MINORITY = ''MINORITY''"
| "ekk_partition_state_str EKK_PARTITION_RECONCILING = ''RECONCILING''"

definition partition_transition :: "ekk_partition_ctx \<Rightarrow> ekk_partition_state \<Rightarrow> u64 \<Rightarrow> ekk_partition_ctx" where
  "partition_transition ctx new_state now =
     (if pt_state ctx = new_state then ctx
      else
        (let ctx = ctx\<lparr>pt_state := new_state, pt_state_enter_time := now\<rparr>
         in case new_state of
              EKK_PARTITION_HEALTHY \<Rightarrow>
                ctx\<lparr>pt_freeze_active := False, pt_power_ramp_factor := EKK_FIXED_ONE,
                    pt_target_power_factor := EKK_FIXED_ONE\<rparr>
            | EKK_PARTITION_SUSPECTING \<Rightarrow> ctx\<lparr>pt_suspecting_start := now\<rparr>
            | EKK_PARTITION_MAJORITY \<Rightarrow>
                ctx\<lparr>pt_epoch := pt_epoch ctx + 1, pt_freeze_active := False,
                    pt_power_ramp_factor := EKK_FIXED_ONE\<rparr>
            | EKK_PARTITION_MINORITY \<Rightarrow> ctx\<lparr>pt_freeze_active := True, pt_power_ramp_factor := 0\<rparr>
            | EKK_PARTITION_RECONCILING \<Rightarrow>
                ctx\<lparr>pt_freeze_active := False, pt_power_ramp_factor := 0,
                    pt_target_power_factor := EKK_FIXED_ONE, pt_sync_received_count := 0,
                    pt_sync_complete := False\<rparr>))"

text \<open>The product \<open>(int64_t)rate * elapsed_us\<close> is a \<open>uint64_t\<close> in C, and so is the quotient.\<close>

definition partition_update_power_ramp :: "ekk_partition_ctx \<Rightarrow> u64 \<Rightarrow> ekk_partition_ctx" where
  "partition_update_power_ramp ctx elapsed_us =
     (if pt_power_ramp_factor ctx \<ge> pt_target_power_factor ctx
      then ctx\<lparr>pt_power_ramp_factor := pt_target_power_factor ctx\<rparr>
      else
        (let increment = (EKK_PARTITION_POWER_RAMP_RATE * elapsed_us) div 1000000;
             ctx = ctx\<lparr>pt_power_ramp_factor := to_i32 (pt_power_ramp_factor ctx + to_i32 (uint increment))\<rparr>
         in if pt_power_ramp_factor ctx > pt_target_power_factor ctx
            then ctx\<lparr>pt_power_ramp_factor := pt_target_power_factor ctx\<rparr>
            else ctx))"

definition ekk_partition_init :: "ekk_partition_ctx \<Rightarrow> u32 \<Rightarrow> ekk_error \<times> ekk_partition_ctx" where
  "ekk_partition_init ctx total_modules =
     (if total_modules = 0 then (EKK_ERR_INVALID_ARG, ctx)
      else (EKK_OK,
        \<lparr>pt_state = EKK_PARTITION_HEALTHY, pt_epoch = 1,
         pt_total_modules = total_modules, pt_visible_count = total_modules,
         pt_quorum_size = total_modules div 2 + 1,
         pt_state_enter_time = 0, pt_last_tick = 0, pt_suspecting_start = 0,
         pt_power_ramp_factor = EKK_FIXED_ONE, pt_target_power_factor = EKK_FIXED_ONE,
         pt_freeze_active = False, pt_sync_received_count = 0, pt_sync_expected_count = 0,
         pt_sync_complete = False, pt_max_observed_epoch = 1\<rparr>))"

definition partition_adopt_epoch :: "ekk_partition_ctx \<Rightarrow> ekk_partition_ctx" where
  "partition_adopt_epoch ctx =
     (if pt_max_observed_epoch ctx > pt_epoch ctx then ctx\<lparr>pt_epoch := pt_max_observed_epoch ctx\<rparr> else ctx)"

definition partition_reconcile :: "ekk_partition_ctx \<Rightarrow> u64 \<Rightarrow> u64 \<Rightarrow> u64 \<Rightarrow> ekk_partition_ctx" where
  "partition_reconcile ctx elapsed time_in_state now =
     (let ctx = partition_update_power_ramp ctx elapsed;
          ctx = (if pt_sync_complete ctx \<and> pt_power_ramp_factor ctx \<ge> EKK_FIXED_ONE
                 then partition_transition (partition_adopt_epoch ctx) EKK_PARTITION_HEALTHY now
                 else ctx)
      in if time_in_state \<ge> EKK_PARTITION_RECOVERY_MAX_US
         then partition_transition
           (partition_adopt_epoch (ctx\<lparr>pt_sync_complete := True, pt_power_ramp_factor := EKK_FIXED_ONE\<rparr>))
           EKK_PARTITION_HEALTHY now
         else ctx)"

definition ekk_partition_tick :: "ekk_partition_ctx \<Rightarrow> u64 \<Rightarrow> ekk_partition_ctx" where
  "ekk_partition_tick ctx now =
     (let elapsed = now - pt_last_tick ctx;
          ctx = ctx\<lparr>pt_last_tick := now\<rparr>;
          time_in_state = now - pt_state_enter_time ctx
      in case pt_state ctx of
           EKK_PARTITION_HEALTHY \<Rightarrow>
             if pt_visible_count ctx < pt_quorum_size ctx
             then partition_transition ctx EKK_PARTITION_SUSPECTING now else ctx
         | EKK_PARTITION_SUSPECTING \<Rightarrow>
             if now - pt_suspecting_start ctx \<ge> EKK_PARTITION_CONFIRM_TIMEOUT_US
             then (if pt_visible_count ctx \<ge> pt_quorum_size ctx
                   then partition_transition ctx EKK_PARTITION_MAJORITY now
                   else partition_transition ctx EKK_PARTITION_MINORITY now)
             else if pt_visible_count ctx \<ge> pt_quorum_size ctx
             then partition_transition ctx EKK_PARTITION_HEALTHY now else ctx
         | EKK_PARTITION_MAJORITY \<Rightarrow>
             if pt_visible_count ctx \<ge> pt_total_modules ctx
             then partition_transition ctx EKK_PARTITION_HEALTHY now
             else if pt_visible_count ctx < pt_quorum_size ctx
             then partition_transition ctx EKK_PARTITION_SUSPECTING now else ctx
         | EKK_PARTITION_MINORITY \<Rightarrow>
             if pt_max_observed_epoch ctx > pt_epoch ctx
             then partition_transition ctx EKK_PARTITION_RECONCILING now else ctx
         | EKK_PARTITION_RECONCILING \<Rightarrow> partition_reconcile ctx elapsed time_in_state now)"

definition ekk_partition_on_visibility_change :: "ekk_partition_ctx \<Rightarrow> u32 \<Rightarrow> ekk_partition_ctx" where
  "ekk_partition_on_visibility_change ctx visible_count = ctx\<lparr>pt_visible_count := visible_count\<rparr>"

definition ekk_partition_on_epoch_received :: "ekk_partition_ctx \<Rightarrow> u32 \<Rightarrow> u8 \<Rightarrow> ekk_partition_ctx" where
  "ekk_partition_on_epoch_received ctx remote_epoch remote_id =
     (if remote_epoch > pt_max_observed_epoch ctx then ctx\<lparr>pt_max_observed_epoch := remote_epoch\<rparr> else ctx)"

definition ekk_partition_get_power_factor :: "ekk_partition_ctx \<Rightarrow> int" where
  "ekk_partition_get_power_factor ctx =
     (case pt_state ctx of
        EKK_PARTITION_HEALTHY \<Rightarrow> EKK_FIXED_ONE
      | EKK_PARTITION_MAJORITY \<Rightarrow> EKK_FIXED_ONE
      | EKK_PARTITION_SUSPECTING \<Rightarrow> EKK_FIXED_ONE
      | EKK_PARTITION_MINORITY \<Rightarrow> 0
      | EKK_PARTITION_RECONCILING \<Rightarrow> pt_power_ramp_factor ctx)"

definition ekk_partition_can_vote :: "ekk_partition_ctx \<Rightarrow> bool" where
  "ekk_partition_can_vote ctx =
     (case pt_state ctx of
        EKK_PARTITION_HEALTHY \<Rightarrow> True
      | EKK_PARTITION_MAJORITY \<Rightarrow> True
      | EKK_PARTITION_SUSPECTING \<Rightarrow> True
      | EKK_PARTITION_MINORITY \<Rightarrow> False
      | EKK_PARTITION_RECONCILING \<Rightarrow> False)"

definition ekk_partition_can_elect :: "ekk_partition_ctx \<Rightarrow> bool" where
  "ekk_partition_can_elect ctx =
     (case pt_state ctx of
        EKK_PARTITION_HEALTHY \<Rightarrow> True
      | EKK_PARTITION_MAJORITY \<Rightarrow> True
      | EKK_PARTITION_SUSPECTING \<Rightarrow> False
      | EKK_PARTITION_MINORITY \<Rightarrow> False
      | EKK_PARTITION_RECONCILING \<Rightarrow> False)"

definition ekk_partition_on_sync_received :: "ekk_partition_ctx \<Rightarrow> u8 \<Rightarrow> ekk_partition_ctx" where
  "ekk_partition_on_sync_received ctx from_id =
     (if pt_state ctx = EKK_PARTITION_RECONCILING
      then (let ctx = ctx\<lparr>pt_sync_received_count := pt_sync_received_count ctx + 1\<rparr>
            in if pt_sync_received_count ctx \<ge> 1 then ctx\<lparr>pt_sync_complete := True\<rparr> else ctx)
      else ctx)"

definition ekk_partition_get_epoch :: "ekk_partition_ctx \<Rightarrow> u32" where
  "ekk_partition_get_epoch ctx = pt_epoch ctx"

definition ekk_partition_get_state :: "ekk_partition_ctx \<Rightarrow> ekk_partition_state" where
  "ekk_partition_get_state ctx = pt_state ctx"

definition ekk_partition_is_frozen :: "ekk_partition_ctx \<Rightarrow> bool" where
  "ekk_partition_is_frozen ctx = pt_freeze_active ctx"

section \<open>Runs\<close>

datatype partition_event = PtTick u64 | PtVisible u32 | PtEpoch u32 u8 | PtSync u8

fun partition_step :: "ekk_partition_ctx \<Rightarrow> partition_event \<Rightarrow> ekk_partition_ctx" where
  "partition_step ctx (PtTick now) = ekk_partition_tick ctx now"
| "partition_step ctx (PtVisible n) = ekk_partition_on_visibility_change ctx n"
| "partition_step ctx (PtEpoch e src) = ekk_partition_on_epoch_received ctx e src"
| "partition_step ctx (PtSync src) = ekk_partition_on_sync_received ctx src"

lemmas partition_op_defs = partition_transition_def partition_adopt_epoch_def
  partition_reconcile_def ekk_partition_tick_def ekk_partition_on_visibility_change_def
  ekk_partition_on_epoch_received_def ekk_partition_on_sync_received_def
  partition_update_power_ramp_def

text \<open>How the flags and the power factor follow the state.\<close>

definition partition_inv :: "ekk_partition_ctx \<Rightarrow> bool" where
  "partition_inv ctx \<longleftrightarrow>
     (pt_freeze_active ctx \<longleftrightarrow> pt_state ctx = EKK_PARTITION_MINORITY)
     \<and> pt_target_power_factor ctx = EKK_FIXED_ONE
     \<and> pt_power_ramp_factor ctx \<le> EKK_FIXED_ONE
     \<and> (pt_state ctx = EKK_PARTITION_MINORITY \<longrightarrow> pt_power_ramp_factor ctx = 0)
     \<and> (pt_state ctx \<notin> {EKK_PARTITION_MINORITY, EKK_PARTITION_RECONCILING} \<longrightarrow>
          pt_power_ramp_factor ctx = EKK_FIXED_ONE)
     \<and> pt_total_modules ctx \<noteq> 0 \<and> pt_quorum_size ctx = pt_total_modules ctx div 2 + 1"

lemma partition_inv_init:
  "n \<noteq> 0 \<Longrightarrow> partition_inv (snd (ekk_partition_init ctx n))"
  by (simp add: partition_inv_def ekk_partition_init_def)

lemma partition_inv_transition:
  assumes "partition_inv ctx"
    and "(pt_state ctx, st) \<in> {(EKK_PARTITION_HEALTHY, EKK_PARTITION_SUSPECTING),
      (EKK_PARTITION_MAJORITY, EKK_PARTITION_SUSPECTING)} \<or> st \<noteq> EKK_PARTITION_SUSPECTING"
  shows "partition_inv (partition_transition ctx st now)"
  using assms by (cases st) (auto simp: partition_inv_def partition_transition_def Let_def)

lemma partition_inv_ramp:
  "partition_inv ctx \<Longrightarrow> pt_state ctx = EKK_PARTITION_RECONCILING \<Longrightarrow>
   partition_inv (partition_update_power_ramp ctx elapsed) \<and>
   pt_state (partition_update_power_ramp ctx elapsed) = EKK_PARTITION_RECONCILING"
  by (auto simp: partition_inv_def partition_update_power_ramp_def Let_def)

lemma partition_inv_adopt [simp]:
  "partition_inv (partition_adopt_epoch ctx) = partition_inv ctx"
  "pt_state (partition_adopt_epoch ctx) = pt_state ctx"
  by (simp_all add: partition_inv_def partition_adopt_epoch_def)

lemma partition_inv_frame [simp]:
  "partition_inv (ctx\<lparr>pt_last_tick := t\<rparr>) = partition_inv ctx"
  "partition_inv (ctx\<lparr>pt_visible_count := n\<rparr>) = partition_inv ctx"
  "partition_inv (ctx\<lparr>pt_max_observed_epoch := e\<rparr>) = partition_inv ctx"
  "partition_inv (ctx\<lparr>pt_sync_received_count := c\<rparr>) = partition_inv ctx"
  "partition_inv (ctx\<lparr>pt_sync_complete := b\<rparr>) = partition_inv ctx"
  by (simp_all add: partition_inv_def)

lemma partition_inv_reconcile:
  assumes "partition_inv ctx" "pt_state ctx = EKK_PARTITION_RECONCILING"
  shows "partition_inv (partition_reconcile ctx elapsed t now)"
proof -
  let ?r = "partition_update_power_ramp ctx elapsed"
  let ?m = "if pt_sync_complete ?r \<and> pt_power_ramp_factor ?r \<ge> EKK_FIXED_ONE
      then partition_transition (partition_adopt_epoch ?r) EKK_PARTITION_HEALTHY now else ?r"
  note r = partition_inv_ramp [OF assms, of elapsed]
  then have m: "partition_inv ?m" by (simp add: partition_inv_transition)
  have st: "pt_state ?m \<in> {EKK_PARTITION_HEALTHY, EKK_PARTITION_RECONCILING}"
    using r by (simp add: partition_transition_def Let_def)
  with m have "partition_inv (?m\<lparr>pt_sync_complete := True, pt_power_ramp_factor := EKK_FIXED_ONE\<rparr>)"
    by (auto simp: partition_inv_def)
  then show ?thesis
    unfolding partition_reconcile_def Let_def using m by (simp add: partition_inv_transition)
qed

lemma partition_inv_tick: "partition_inv ctx \<Longrightarrow> partition_inv (ekk_partition_tick ctx now)"
  unfolding ekk_partition_tick_def Let_def
  by (cases "pt_state ctx") (simp_all add: partition_inv_transition partition_inv_reconcile)

definition partition_max_epoch :: "ekk_partition_ctx \<Rightarrow> nat" where
  "partition_max_epoch ctx = unat (pt_max_observed_epoch ctx)"

interpretation pt: monotone_machine partition_step partition_inv partition_max_epoch
proof unfold_locales
  fix ctx e assume inv: "partition_inv ctx"
  show "partition_inv (partition_step ctx e)"
  proof (cases e)
    case (PtTick now)
    then show ?thesis using inv by (simp add: partition_inv_tick)
  next
    case (PtSync src)
    then show ?thesis using inv by (simp add: ekk_partition_on_sync_received_def Let_def)
  qed (use inv in \<open>simp_all add: ekk_partition_on_visibility_change_def ekk_partition_on_epoch_received_def\<close>)
  show "partition_max_epoch ctx \<le> partition_max_epoch (partition_step ctx e)"
  proof (cases e)
    case (PtTick now)
    then show ?thesis
      by (cases "pt_state ctx") (simp_all add: partition_max_epoch_def partition_op_defs Let_def)
  next
    case (PtSync src)
    then show ?thesis by (simp add: partition_max_epoch_def ekk_partition_on_sync_received_def Let_def)
  qed (simp_all add: partition_max_epoch_def ekk_partition_on_visibility_change_def
      ekk_partition_on_epoch_received_def word_less_nat_alt)
qed

lemma partition_total_ramp [simp]:
  "pt_total_modules (partition_update_power_ramp ctx el) = pt_total_modules ctx"
  "pt_visible_count (partition_update_power_ramp ctx el) = pt_visible_count ctx"
  "pt_total_modules (partition_adopt_epoch ctx) = pt_total_modules ctx"
  "pt_visible_count (partition_adopt_epoch ctx) = pt_visible_count ctx"
  by (simp_all add: partition_update_power_ramp_def partition_adopt_epoch_def Let_def)

lemma partition_total_transition [simp]:
  "pt_total_modules (partition_transition ctx st now) = pt_total_modules ctx"
  "pt_visible_count (partition_transition ctx st now) = pt_visible_count ctx"
  by (cases st; simp add: partition_transition_def Let_def)+

lemma partition_total_tick [simp]:
  "pt_total_modules (ekk_partition_tick ctx now) = pt_total_modules ctx"
  "pt_visible_count (ekk_partition_tick ctx now) = pt_visible_count ctx"
  by (cases "pt_state ctx"; simp add: ekk_partition_tick_def partition_reconcile_def Let_def)+

lemma partition_total_run: "pt_total_modules (foldl partition_step ctx es) = pt_total_modules ctx"
proof (induction es arbitrary: ctx)
  case (Cons e es)
  have "pt_total_modules (partition_step ctx e) = pt_total_modules ctx"
    by (cases e) (simp_all add: ekk_partition_on_visibility_change_def
        ekk_partition_on_epoch_received_def ekk_partition_on_sync_received_def Let_def)
  with Cons show ?case by simp
qed simp

section \<open>Safety of every run\<close>

text \<open>A quorum is a strict majority, at every cluster size.\<close>

lemma partition_quorum_majority:
  "partition_inv ctx \<Longrightarrow>
   unat (pt_total_modules ctx) < 2 * unat (pt_quorum_size ctx)
   \<and> unat (pt_quorum_size ctx) \<le> unat (pt_total_modules ctx)"
proof -
  assume inv: "partition_inv ctx"
  let ?n = "unat (pt_total_modules ctx)"
  have "?n < 4294967296" by (rule unat_u32_less)
  then have "unat (pt_total_modules ctx div 2 + 1) = ?n div 2 + 1"
    by (simp add: unat_word_ariths unat_div)
  moreover have "?n \<noteq> 0" using inv by (simp add: partition_inv_def unat_eq_0)
  moreover have "pt_quorum_size ctx = pt_total_modules ctx div 2 + 1"
    using inv by (simp add: partition_inv_def)
  ultimately show ?thesis by (simp, linarith)
qed

text \<open>
  C17. Whatever sequence of ticks (at whatever clock readings), visibility changes, epochs and
  sync messages a partition context initialised for \<open>n\<close> modules goes through: the freeze flag is
  set exactly in the MINORITY state; a frozen module has power factor 0 and may neither vote nor
  elect; the power factor never exceeds 1.0; a module that may elect may also vote and has full
  power; the quorum stays a strict majority of the \<open>n\<close> modules; and the highest epoch seen never
  goes down along the run.
\<close>

theorem partition_run_safe:
  assumes "n \<noteq> 0" "ctx = foldl partition_step (snd (ekk_partition_init c0 n)) es"
  shows "(ekk_partition_is_frozen ctx \<longleftrightarrow> ekk_partition_get_state ctx = EKK_PARTITION_MINORITY)
    \<and> (ekk_partition_is_frozen ctx \<longrightarrow>
         ekk_partition_get_power_factor ctx = 0 \<and> \<not> ekk_partition_can_vote ctx \<and> \<not> ekk_partition_can_elect ctx)
    \<and> ekk_partition_get_power_factor ctx \<le> EKK_FIXED_ONE
    \<and> (ekk_partition_can_elect ctx \<longrightarrow>
         ekk_partition_can_vote ctx \<and> ekk_partition_get_power_factor ctx = EKK_FIXED_ONE)
    \<and> unat n < 2 * unat (pt_quorum_size ctx) \<and> unat (pt_quorum_size ctx) \<le> unat n
    \<and> pt_max_observed_epoch ctx \<le> pt_max_observed_epoch (foldl partition_step ctx es')"
proof -
  from assms have inv: "partition_inv ctx" by (simp add: pt.inv_run partition_inv_init)
  have "pt_total_modules ctx = n"
    using assms by (simp add: partition_total_run ekk_partition_init_def)
  with partition_quorum_majority [OF inv]
  have quorum: "unat n < 2 * unat (pt_quorum_size ctx) \<and> unat (pt_quorum_size ctx) \<le> unat n" by simp
  have epoch: "pt_max_observed_epoch ctx \<le> pt_max_observed_epoch (foldl partition_step ctx es')"
    using pt.level_run [OF inv, of es'] by (simp add: partition_max_epoch_def word_le_nat_alt)
  show ?thesis
    using inv quorum epoch
    by (cases "pt_state ctx")
      (simp_all add: partition_inv_def ekk_partition_is_frozen_def ekk_partition_get_state_def
        ekk_partition_get_power_factor_def ekk_partition_can_vote_def ekk_partition_can_elect_def)
qed

definition partition_blank :: ekk_partition_ctx where
  "partition_blank = \<lparr>pt_state = EKK_PARTITION_HEALTHY, pt_epoch = 0, pt_total_modules = 0,
     pt_visible_count = 0, pt_quorum_size = 0, pt_state_enter_time = 0, pt_last_tick = 0,
     pt_suspecting_start = 0, pt_power_ramp_factor = 0, pt_target_power_factor = 0,
     pt_freeze_active = False, pt_sync_received_count = 0, pt_sync_expected_count = 0,
     pt_sync_complete = False, pt_max_observed_epoch = 0\<rparr>"

theorem partition_run_safe_witness:
  "ekk_partition_get_power_factor (foldl partition_step (snd (ekk_partition_init partition_blank 5))
     [PtVisible 2, PtTick 1000, PtTick 200000]) \<le> EKK_FIXED_ONE"
  using partition_run_safe [of 5 _ partition_blank "[PtVisible 2, PtTick 1000, PtTick 200000]"] by simp

text \<open>What a tick leaves behind in each state, from the visible count.\<close>

lemma partition_tick_can_elect:
  assumes "partition_inv ctx" "pt_state ctx \<noteq> EKK_PARTITION_RECONCILING"
    and "ekk_partition_can_elect (ekk_partition_tick ctx now)"
  shows "pt_quorum_size ctx \<le> pt_visible_count ctx"
proof -
  have le: "pt_quorum_size ctx \<le> pt_total_modules ctx"
    using partition_quorum_majority [OF assms(1)] by (simp add: word_le_nat_alt)
  show ?thesis
    using assms(2,3) le
    by (cases "pt_state ctx")
      (auto simp: ekk_partition_can_elect_def ekk_partition_tick_def partition_transition_def Let_def
        not_less split: if_splits)
qed

text \<open>
  C2. No split brain: take two modules of a cluster of \<open>n\<close> modules in two disjoint partitions (the
  modules each one sees number at most \<open>n\<close> together), after any history. When both have ticked
  and neither was in the middle of a reconciliation, they are not both allowed to elect a leader.
\<close>

theorem partition_no_split_brain:
  assumes "n \<noteq> 0"
    and "a = foldl partition_step (snd (ekk_partition_init c0 n)) es"
    and "b = foldl partition_step (snd (ekk_partition_init c1 n)) es'"
    and "unat (pt_visible_count a) + unat (pt_visible_count b) \<le> unat n"
    and "pt_state a \<noteq> EKK_PARTITION_RECONCILING" "pt_state b \<noteq> EKK_PARTITION_RECONCILING"
  shows "\<not> (ekk_partition_can_elect (ekk_partition_tick a now_a)
            \<and> ekk_partition_can_elect (ekk_partition_tick b now_b))"
proof
  assume elect: "ekk_partition_can_elect (ekk_partition_tick a now_a)
            \<and> ekk_partition_can_elect (ekk_partition_tick b now_b)"
  have inv: "partition_inv a" "partition_inv b"
    using assms(1-3) by (simp_all add: pt.inv_run partition_inv_init)
  have n: "pt_total_modules a = n" "pt_total_modules b = n"
    using assms(2,3,1) by (simp_all add: partition_total_run ekk_partition_init_def)
  have "unat (pt_quorum_size a) \<le> unat (pt_visible_count a)"
    "unat (pt_quorum_size b) \<le> unat (pt_visible_count b)"
    using partition_tick_can_elect [OF inv(1) assms(5), of now_a]
      partition_tick_can_elect [OF inv(2) assms(6), of now_b] elect
    by (simp_all add: word_le_nat_alt)
  with partition_quorum_majority [OF inv(1)] partition_quorum_majority [OF inv(2)] n assms(4)
  show False by simp
qed

theorem partition_no_split_brain_witness:
  "\<not> (ekk_partition_can_elect (ekk_partition_tick
         (foldl partition_step (snd (ekk_partition_init partition_blank 5)) [PtVisible 3]) 1000)
     \<and> ekk_partition_can_elect (ekk_partition_tick
         (foldl partition_step (snd (ekk_partition_init partition_blank 5)) [PtVisible 2]) 1000))"
  by (rule partition_no_split_brain [of 5 _ partition_blank "[PtVisible 3]" _ partition_blank "[PtVisible 2]"])
    (simp_all add: ekk_partition_init_def ekk_partition_on_visibility_change_def)

section \<open>Timing\<close>

text \<open>While the confirmation window is open and the quorum is missing, SUSPECTING stays.\<close>

definition partition_suspects :: "u64 \<Rightarrow> ekk_partition_ctx \<Rightarrow> bool" where
  "partition_suspects t0 ctx \<longleftrightarrow>
     pt_state ctx = EKK_PARTITION_SUSPECTING \<and> pt_suspecting_start ctx = t0
     \<and> pt_visible_count ctx < pt_quorum_size ctx"

lemma partition_suspects_ticks:
  "partition_suspects t0 ctx \<Longrightarrow> \<forall>t \<in> set ts. t - t0 < EKK_PARTITION_CONFIRM_TIMEOUT_US \<Longrightarrow>
   partition_suspects t0 (foldl partition_step ctx (map PtTick ts))"
proof (induction ts arbitrary: ctx)
  case (Cons t ts)
  then have "partition_suspects t0 (ekk_partition_tick ctx t)"
    by (auto simp: partition_suspects_def ekk_partition_tick_def Let_def not_le not_less)
  with Cons show ?case by simp
qed simp

text \<open>
  C36. A healthy or majority module that loses its quorum stops electing at its next tick (time
  \<open>t0\<close>), keeps suspecting through every tick of the 100 ms confirmation window, and at the first
  tick at or after its end is in the MINORITY state: frozen, with power factor 0 and no vote.
\<close>

theorem partition_isolation_freezes:
  assumes "partition_inv ctx" "pt_state ctx = EKK_PARTITION_HEALTHY \<or> pt_state ctx = EKK_PARTITION_MAJORITY"
    and "pt_visible_count ctx < pt_quorum_size ctx"
    and "\<forall>t \<in> set ts. t - t0 < EKK_PARTITION_CONFIRM_TIMEOUT_US"
    and "EKK_PARTITION_CONFIRM_TIMEOUT_US \<le> t1 - t0"
    and "mid = foldl partition_step ctx (map PtTick (t0 # ts))"
    and "final = ekk_partition_tick mid t1"
  shows "\<not> ekk_partition_can_elect mid \<and> pt_state mid = EKK_PARTITION_SUSPECTING
    \<and> pt_state final = EKK_PARTITION_MINORITY \<and> ekk_partition_is_frozen final
    \<and> ekk_partition_get_power_factor final = 0 \<and> \<not> ekk_partition_can_vote final
    \<and> pt_epoch final = pt_epoch ctx"
proof -
  have "pt_visible_count ctx < pt_total_modules ctx"
    using partition_quorum_majority [OF assms(1)] assms(3) by (simp add: word_less_nat_alt)
  then have t0: "partition_suspects t0 (ekk_partition_tick ctx t0)"
    using assms(2,3)
    by (auto simp: partition_suspects_def ekk_partition_tick_def partition_transition_def Let_def)
  then have mid: "partition_suspects t0 mid"
    using partition_suspects_ticks [OF t0 assms(4)] assms(6) by simp
  have "pt_epoch (foldl partition_step c (map PtTick ts)) = pt_epoch c"
    if "partition_suspects t0 c" for c
    using that assms(4)
  proof (induction ts arbitrary: c)
    case (Cons t ts)
    then have "pt_epoch (ekk_partition_tick c t) = pt_epoch c"
      by (auto simp: partition_suspects_def ekk_partition_tick_def partition_transition_def Let_def)
    with Cons partition_suspects_ticks [OF Cons.prems(1), of "[t]"] show ?case by simp
  qed simp
  from this [OF t0] have ep: "pt_epoch mid = pt_epoch ctx"
    using assms(2,6) by (auto simp: ekk_partition_tick_def partition_transition_def Let_def)
  from mid have m: "pt_state mid = EKK_PARTITION_SUSPECTING" "pt_suspecting_start mid = t0"
    "\<not> pt_quorum_size mid \<le> pt_visible_count mid"
    by (simp_all add: partition_suspects_def not_le)
  then have "final = partition_transition (mid\<lparr>pt_last_tick := t1\<rparr>) EKK_PARTITION_MINORITY t1"
    using assms(5,7) by (simp add: ekk_partition_tick_def Let_def)
  with m(1) ep show ?thesis
    by (simp add: partition_transition_def Let_def ekk_partition_can_elect_def
        ekk_partition_can_vote_def ekk_partition_get_power_factor_def ekk_partition_is_frozen_def)
qed

definition partition_cut_off :: ekk_partition_ctx where
  "partition_cut_off = ekk_partition_on_visibility_change (snd (ekk_partition_init partition_blank 3)) 1"

lemma partition_cut_off_sel:
  "pt_state partition_cut_off = EKK_PARTITION_HEALTHY" "partition_inv partition_cut_off"
  "pt_visible_count partition_cut_off = 1" "pt_quorum_size partition_cut_off = 2"
  by (simp_all add: partition_cut_off_def ekk_partition_init_def ekk_partition_on_visibility_change_def
      partition_inv_def)

theorem partition_isolation_freezes_witness:
  "pt_state (ekk_partition_tick (foldl partition_step partition_cut_off
     (map PtTick (5000 # [10000, 99000]))) 105000) = EKK_PARTITION_MINORITY"
  by (rule partition_isolation_freezes [OF _ _ _ _ _ refl refl, THEN conjunct2, THEN conjunct2, THEN conjunct1])
    (simp_all add: partition_cut_off_sel word_less_nat_alt)

lemma partition_adopt_epoch_eq:
  "partition_adopt_epoch ctx = ctx\<lparr>pt_epoch := max (pt_epoch ctx) (pt_max_observed_epoch ctx)\<rparr>"
  by (simp add: partition_adopt_epoch_def max_def)

lemma partition_ramp_frame [simp]:
  "pt_state (partition_update_power_ramp ctx el) = pt_state ctx"
  "pt_epoch (partition_update_power_ramp ctx el) = pt_epoch ctx"
  "pt_max_observed_epoch (partition_update_power_ramp ctx el) = pt_max_observed_epoch ctx"
  "pt_quorum_size (partition_update_power_ramp ctx el) = pt_quorum_size ctx"
  "pt_sync_complete (partition_update_power_ramp ctx el) = pt_sync_complete ctx"
  by (simp_all add: partition_update_power_ramp_def Let_def)

lemma partition_reconcile_timeout:
  assumes "EKK_PARTITION_RECOVERY_MAX_US \<le> t" "pt_state ctx = EKK_PARTITION_RECONCILING"
  shows "pt_state (partition_reconcile ctx el t now) = EKK_PARTITION_HEALTHY
    \<and> pt_epoch (partition_reconcile ctx el t now) = max (pt_epoch ctx) (pt_max_observed_epoch ctx)
    \<and> pt_power_ramp_factor (partition_reconcile ctx el t now) = EKK_FIXED_ONE
    \<and> pt_quorum_size (partition_reconcile ctx el t now) = pt_quorum_size ctx
    \<and> pt_visible_count (partition_reconcile ctx el t now) = pt_visible_count ctx"
  using assms
  by (simp add: partition_reconcile_def Let_def partition_adopt_epoch_eq partition_transition_def)

text \<open>
  Reconciliation ends: a RECONCILING module whose time in the state has reached 10 s is
  HEALTHY after the tick, with full power, the highest epoch it has seen (when it is above its
  own) and the right to elect. The quorum plays no part in it: the right to elect holds even
  while the visible modules are fewer than the quorum, until the next tick, which withdraws it.
\<close>

lemma partition_recovers:
  assumes "partition_inv ctx" "pt_state ctx = EKK_PARTITION_RECONCILING"
    and "EKK_PARTITION_RECOVERY_MAX_US \<le> now - pt_state_enter_time ctx"
    and "after = ekk_partition_tick ctx now"
  shows "pt_state after = EKK_PARTITION_HEALTHY \<and> pt_epoch after = max (pt_epoch ctx) (pt_max_observed_epoch ctx)
    \<and> ekk_partition_get_power_factor after = EKK_FIXED_ONE \<and> pt_power_ramp_factor after = EKK_FIXED_ONE
    \<and> ekk_partition_can_elect after
    \<and> ekk_partition_can_elect (ekk_partition_tick after now') =
        (pt_quorum_size ctx \<le> pt_visible_count ctx)"
proof -
  let ?c = "ctx\<lparr>pt_last_tick := now\<rparr>" and ?e = "now - pt_last_tick ctx"
  have after: "after = partition_reconcile ?c ?e (now - pt_state_enter_time ctx) now"
    using assms(2,4) by (simp add: ekk_partition_tick_def Let_def)
  have "pt_state after = EKK_PARTITION_HEALTHY \<and> pt_epoch after = max (pt_epoch ctx) (pt_max_observed_epoch ctx)
    \<and> pt_power_ramp_factor after = EKK_FIXED_ONE \<and> pt_quorum_size after = pt_quorum_size ctx
    \<and> pt_visible_count after = pt_visible_count ctx"
    unfolding after using partition_reconcile_timeout [of "now - pt_state_enter_time ctx" ?c ?e now] assms(2,3) by simp
  then show ?thesis
    by (auto simp: ekk_partition_tick_def partition_transition_def Let_def ekk_partition_can_elect_def
        ekk_partition_get_power_factor_def)
qed

definition partition_lonely :: ekk_partition_ctx where
  "partition_lonely = foldl partition_step (snd (ekk_partition_init partition_blank 5))
     [PtVisible 1, PtTick 1000, PtTick 200000, PtEpoch 7 3, PtTick 300000]"

lemma partition_lonely_sel:
  "pt_state partition_lonely = EKK_PARTITION_RECONCILING" "pt_state_enter_time partition_lonely = 300000"
  "pt_visible_count partition_lonely = 1" "pt_quorum_size partition_lonely = 3" "partition_inv partition_lonely"
  by (simp_all add: partition_lonely_def ekk_partition_init_def ekk_partition_tick_def
      partition_transition_def Let_def ekk_partition_on_visibility_change_def
      ekk_partition_on_epoch_received_def partition_inv_def word_le_nat_alt word_less_nat_alt)

end
