(* ===== verification/Ekk_Raft.thy ===== *)
theory Ekk_Raft
  imports Ekk_Partition
begin

unbundle bit_operations_syntax

text \<open>
  Leader election (\<open>src/ekk_raft.c\<close>, \<open>include/ekk/ekk_raft.h\<close>). An operation returns the new
  context with the calls it makes, in order: messages sent, term persisted, callbacks. The
  partition context behind \<open>ctx->partition_ctx\<close> is an argument (\<open>None\<close> for a NULL pointer); the
  results of persisting and sending are ignored by the code. The second half puts modules
  together into a cluster that exchanges these messages over a network that may delay, reorder,
  duplicate and lose them.
\<close>

section \<open>Model\<close>

abbreviation (input) EKK_RAFT_ELECTION_TIMEOUT_MIN_US :: u32 where "EKK_RAFT_ELECTION_TIMEOUT_MIN_US \<equiv> 150000"
abbreviation (input) EKK_RAFT_ELECTION_TIMEOUT_MAX_US :: u32 where "EKK_RAFT_ELECTION_TIMEOUT_MAX_US \<equiv> 300000"
abbreviation (input) EKK_RAFT_HEARTBEAT_INTERVAL_US :: u64 where "EKK_RAFT_HEARTBEAT_INTERVAL_US \<equiv> 50000"
abbreviation (input) EKK_RAFT_ELECTION_MAX_US :: u64 where "EKK_RAFT_ELECTION_MAX_US \<equiv> 400000"

datatype ekk_raft_state = EKK_RAFT_FOLLOWER | EKK_RAFT_CANDIDATE | EKK_RAFT_LEADER

fun ekk_raft_state_str :: "ekk_raft_state \<Rightarrow> string" where
  "ekk_raft_state_str EKK_RAFT_FOLLOWER = ''FOLLOWER''"
| "ekk_raft_state_str EKK_RAFT_CANDIDATE = ''CANDIDATE''"
| "ekk_raft_state_str EKK_RAFT_LEADER = ''LEADER''"

text \<open>
  Function pointers are kept as whether they are set. \<open>vote_granted\<close> has \<open>EKK_MAX_MODULES\<close> = 256
  entries indexed by a \<open>uint8_t\<close>, so every index is in range.
\<close>

record ekk_raft_ctx =
  rf_my_id :: u8
  rf_current_term :: u32
  rf_voted_for :: u8
  rf_state :: ekk_raft_state
  rf_current_leader :: u8
  rf_election_timeout :: u64
  rf_last_heartbeat :: u64
  rf_election_start :: u64
  rf_votes_received :: u8
  rf_votes_needed :: u8
  rf_total_voters :: u8
  rf_vote_granted :: "u8 \<Rightarrow> bool"
  rf_on_become_leader :: bool
  rf_on_become_follower :: bool
  rf_on_leader_lost :: bool
  rf_persist_term :: bool
  rf_restore_term :: bool
  rf_rand_state :: u32

datatype raft_output =
    RfPersist u32 u8
  | RfBroadcastVoteRequest u32 u8
  | RfBroadcastHeartbeat u32 u8
  | RfSendVoteResponse u8 u32 u8 bool
  | RfOnBecomeLeader
  | RfOnBecomeFollower u8
  | RfOnLeaderLost

definition raft_rand :: "ekk_raft_ctx \<Rightarrow> u32 \<times> ekk_raft_ctx" where
  "raft_rand ctx =
     (let x = rf_rand_state ctx;
          x = x XOR push_bit 13 x;
          x = x XOR drop_bit 17 x;
          x = x XOR push_bit 5 x
      in (x, ctx\<lparr>rf_rand_state := x\<rparr>))"

definition raft_random_timeout :: "ekk_raft_ctx \<Rightarrow> u64 \<times> ekk_raft_ctx" where
  "raft_random_timeout ctx =
     (let range = EKK_RAFT_ELECTION_TIMEOUT_MAX_US - EKK_RAFT_ELECTION_TIMEOUT_MIN_US;
          (r, ctx) = raft_rand ctx;
          offset = r mod range
      in (ucast (EKK_RAFT_ELECTION_TIMEOUT_MIN_US + offset), ctx))"

definition raft_reset_election_timer :: "ekk_raft_ctx \<Rightarrow> u64 \<Rightarrow> ekk_raft_ctx" where
  "raft_reset_election_timer ctx now =
     (let (timeout, ctx) = raft_random_timeout ctx
      in ctx\<lparr>rf_election_timeout := timeout, rf_last_heartbeat := now\<rparr>)"

definition raft_become_follower :: "ekk_raft_ctx \<Rightarrow> u32 \<Rightarrow> u64 \<Rightarrow> ekk_raft_ctx \<times> raft_output list" where
  "raft_become_follower ctx term now =
     (let was_leader = (rf_state ctx = EKK_RAFT_LEADER);
          ctx = ctx\<lparr>rf_state := EKK_RAFT_FOLLOWER, rf_current_term := term,
                    rf_voted_for := EKK_INVALID_MODULE_ID\<rparr>;
          ctx = raft_reset_election_timer ctx now
      in (ctx,
          (if rf_persist_term ctx then [RfPersist (rf_current_term ctx) (rf_voted_for ctx)] else []) @
          (if was_leader \<and> rf_on_leader_lost ctx then [RfOnLeaderLost] else [])))"

definition raft_become_candidate :: "ekk_raft_ctx \<Rightarrow> u64 \<Rightarrow> ekk_raft_ctx \<times> raft_output list" where
  "raft_become_candidate ctx now =
     (let ctx = ctx\<lparr>rf_state := EKK_RAFT_CANDIDATE, rf_current_term := rf_current_term ctx + 1,
                    rf_voted_for := rf_my_id ctx, rf_election_start := now,
                    rf_votes_received := 1, rf_vote_granted := (\<lambda>_. False)(rf_my_id ctx := True)\<rparr>;
          persisted = (if rf_persist_term ctx then [RfPersist (rf_current_term ctx) (rf_voted_for ctx)] else []);
          ctx = raft_reset_election_timer ctx now
      in (ctx, persisted @ [RfBroadcastVoteRequest (rf_current_term ctx) (rf_my_id ctx)]))"

definition raft_become_leader :: "ekk_raft_ctx \<Rightarrow> u64 \<Rightarrow> ekk_raft_ctx \<times> raft_output list" where
  "raft_become_leader ctx now =
     (let ctx = ctx\<lparr>rf_state := EKK_RAFT_LEADER, rf_current_leader := rf_my_id ctx, rf_last_heartbeat := now\<rparr>
      in (ctx, RfBroadcastHeartbeat (rf_current_term ctx) (rf_my_id ctx) #
            (if rf_on_become_leader ctx then [RfOnBecomeLeader] else [])))"

definition raft_can_start_election :: "ekk_partition_ctx option \<Rightarrow> bool" where
  "raft_can_start_election partition_ctx =
     (case partition_ctx of Some p \<Rightarrow> ekk_partition_can_elect p | None \<Rightarrow> True)"

text \<open>
  \<open>restored\<close> is what \<open>restore_term\<close> would return. The pointer is set to NULL a few lines before it
  is tested.
\<close>

definition ekk_raft_init ::
  "ekk_raft_ctx \<Rightarrow> u8 \<Rightarrow> u8 \<Rightarrow> (u32 \<times> u8) option \<Rightarrow> ekk_error \<times> ekk_raft_ctx"
where
  "ekk_raft_init ctx my_id total_modules restored =
     (if my_id = EKK_INVALID_MODULE_ID \<or> total_modules = 0 then (EKK_ERR_INVALID_ARG, ctx)
      else
        (let ctx = \<lparr>rf_my_id = my_id, rf_current_term = 0, rf_voted_for = EKK_INVALID_MODULE_ID,
               rf_state = EKK_RAFT_FOLLOWER, rf_current_leader = EKK_INVALID_MODULE_ID,
               rf_election_timeout = 0, rf_last_heartbeat = 0, rf_election_start = 0,
               rf_votes_received = 0, rf_votes_needed = total_modules div 2 + 1,
               rf_total_voters = total_modules, rf_vote_granted = (\<lambda>_. False),
               rf_on_become_leader = False, rf_on_become_follower = False, rf_on_leader_lost = False,
               rf_persist_term = False, rf_restore_term = False,
               rf_rand_state = ucast my_id * 1103515245 + 12345\<rparr>
         in (EKK_OK,
             if rf_restore_term ctx
             then (case restored of
                     Some (restored_term, restored_vote) \<Rightarrow>
                       ctx\<lparr>rf_current_term := restored_term, rf_voted_for := restored_vote\<rparr>
                   | None \<Rightarrow> ctx)
             else ctx)))"

definition ekk_raft_step_down :: "ekk_raft_ctx \<Rightarrow> u64 \<Rightarrow> ekk_raft_ctx \<times> raft_output list" where
  "ekk_raft_step_down ctx now =
     (if rf_state ctx = EKK_RAFT_LEADER then raft_become_follower ctx (rf_current_term ctx) now else (ctx, []))"

definition raft_leader_tick ::
  "ekk_raft_ctx \<Rightarrow> ekk_partition_ctx option \<Rightarrow> u64 \<Rightarrow> ekk_raft_ctx \<times> raft_output list"
where
  "raft_leader_tick ctx partition_ctx now =
     (let (ctx, beat) =
            (if now - rf_last_heartbeat ctx \<ge> EKK_RAFT_HEARTBEAT_INTERVAL_US
             then (ctx\<lparr>rf_last_heartbeat := now\<rparr>, [RfBroadcastHeartbeat (rf_current_term ctx) (rf_my_id ctx)])
             else (ctx, []));
          (ctx, down) =
            (case partition_ctx of
               Some p \<Rightarrow> if \<not> ekk_partition_can_elect p then ekk_raft_step_down ctx now else (ctx, [])
             | None \<Rightarrow> (ctx, []))
      in (ctx, beat @ down))"

definition ekk_raft_tick ::
  "ekk_raft_ctx \<Rightarrow> ekk_partition_ctx option \<Rightarrow> u64 \<Rightarrow> ekk_raft_ctx \<times> raft_output list"
where
  "ekk_raft_tick ctx partition_ctx now =
     (if rf_last_heartbeat ctx = 0 then (raft_reset_election_timer ctx now, [])
      else
        (let elapsed = now - rf_last_heartbeat ctx
         in case rf_state ctx of
              EKK_RAFT_FOLLOWER \<Rightarrow>
                if elapsed \<ge> rf_election_timeout ctx
                then (if raft_can_start_election partition_ctx then raft_become_candidate ctx now
                      else (raft_reset_election_timer ctx now, []))
                else (ctx, [])
            | EKK_RAFT_CANDIDATE \<Rightarrow>
                if rf_votes_received ctx \<ge> rf_votes_needed ctx then raft_become_leader ctx now
                else if elapsed \<ge> rf_election_timeout ctx
                then (if raft_can_start_election partition_ctx then raft_become_candidate ctx now
                      else raft_become_follower ctx (rf_current_term ctx) now)
                else if now - rf_election_start ctx \<ge> EKK_RAFT_ELECTION_MAX_US
                then raft_become_follower ctx (rf_current_term ctx) now
                else (ctx, [])
            | EKK_RAFT_LEADER \<Rightarrow> raft_leader_tick ctx partition_ctx now))"

text \<open>The first step of both message handlers: a higher term makes the module a follower.\<close>

definition raft_catch_up :: "ekk_raft_ctx \<Rightarrow> u32 \<Rightarrow> u64 \<Rightarrow> ekk_raft_ctx \<times> raft_output list" where
  "raft_catch_up ctx term now =
     (if term > rf_current_term ctx then raft_become_follower ctx term now else (ctx, []))"

definition ekk_raft_on_heartbeat ::
  "ekk_raft_ctx \<Rightarrow> u8 \<Rightarrow> u32 \<Rightarrow> u64 \<Rightarrow> ekk_raft_ctx \<times> raft_output list"
where
  "ekk_raft_on_heartbeat ctx leader_id term now =
     (let (ctx, outs) = raft_catch_up ctx term now
      in if term \<ge> rf_current_term ctx
         then (let ctx = ctx\<lparr>rf_current_leader := leader_id\<rparr>
               in if rf_state ctx \<noteq> EKK_RAFT_FOLLOWER
                  then (let (ctx, down) = raft_become_follower ctx term now
                        in (ctx, outs @ down @
                              (if rf_on_become_follower ctx then [RfOnBecomeFollower leader_id] else [])))
                  else (raft_reset_election_timer ctx now, outs))
         else (ctx, outs))"

definition raft_may_vote :: "ekk_raft_ctx \<Rightarrow> ekk_partition_ctx option \<Rightarrow> u8 \<Rightarrow> bool" where
  "raft_may_vote ctx partition_ctx candidate_id =
     ((rf_voted_for ctx = EKK_INVALID_MODULE_ID \<or> rf_voted_for ctx = candidate_id)
      \<and> (case partition_ctx of Some p \<Rightarrow> ekk_partition_can_vote p | None \<Rightarrow> True))"

definition ekk_raft_on_vote_request ::
  "ekk_raft_ctx \<Rightarrow> ekk_partition_ctx option \<Rightarrow> u8 \<Rightarrow> u32 \<Rightarrow> u64 \<Rightarrow> bool \<times> ekk_raft_ctx \<times> raft_output list"
where
  "ekk_raft_on_vote_request ctx partition_ctx candidate_id term now =
     (let (ctx, outs) = raft_catch_up ctx term now;
          vote_granted = (term = rf_current_term ctx \<and> raft_may_vote ctx partition_ctx candidate_id);
          (ctx, persisted) =
            (if vote_granted
             then (let ctx = ctx\<lparr>rf_voted_for := candidate_id\<rparr>
                   in (raft_reset_election_timer ctx now,
                       if rf_persist_term ctx then [RfPersist (rf_current_term ctx) (rf_voted_for ctx)] else []))
             else (ctx, []))
      in (vote_granted, ctx,
          outs @ persisted @ [RfSendVoteResponse candidate_id (rf_current_term ctx) (rf_my_id ctx) vote_granted]))"

definition ekk_raft_on_vote_response ::
  "ekk_raft_ctx \<Rightarrow> u8 \<Rightarrow> u32 \<Rightarrow> bool \<Rightarrow> u64 \<Rightarrow> ekk_raft_ctx \<times> raft_output list"
where
  "ekk_raft_on_vote_response ctx voter_id term vote_granted now =
     (if rf_state ctx \<noteq> EKK_RAFT_CANDIDATE \<or> term \<noteq> rf_current_term ctx then (ctx, [])
      else if term > rf_current_term ctx then raft_become_follower ctx term now
      else if vote_granted \<and> \<not> rf_vote_granted ctx voter_id
      then (let ctx = ctx\<lparr>rf_vote_granted := (rf_vote_granted ctx)(voter_id := True),
                          rf_votes_received := rf_votes_received ctx + 1\<rparr>
            in if rf_votes_received ctx \<ge> rf_votes_needed ctx then raft_become_leader ctx now else (ctx, []))
      else (ctx, []))"

definition ekk_raft_get_leader :: "ekk_raft_ctx \<Rightarrow> u8" where
  "ekk_raft_get_leader ctx = rf_current_leader ctx"

definition ekk_raft_is_leader :: "ekk_raft_ctx \<Rightarrow> bool" where
  "ekk_raft_is_leader ctx = (rf_state ctx = EKK_RAFT_LEADER)"

definition ekk_raft_get_term :: "ekk_raft_ctx \<Rightarrow> u32" where
  "ekk_raft_get_term ctx = rf_current_term ctx"

definition ekk_raft_get_state :: "ekk_raft_ctx \<Rightarrow> ekk_raft_state" where
  "ekk_raft_get_state ctx = rf_state ctx"

definition ekk_raft_set_persistence :: "ekk_raft_ctx \<Rightarrow> bool \<Rightarrow> bool \<Rightarrow> ekk_raft_ctx" where
  "ekk_raft_set_persistence ctx persist restore = ctx\<lparr>rf_persist_term := persist, rf_restore_term := restore\<rparr>"

definition ekk_raft_set_callbacks :: "ekk_raft_ctx \<Rightarrow> bool \<Rightarrow> bool \<Rightarrow> bool \<Rightarrow> ekk_raft_ctx" where
  "ekk_raft_set_callbacks ctx on_leader on_follower on_lost =
     ctx\<lparr>rf_on_become_leader := on_leader, rf_on_become_follower := on_follower, rf_on_leader_lost := on_lost\<rparr>"

section \<open>Timers\<close>

lemma xor_zero_bits: "x XOR y = (0 :: u32) \<Longrightarrow> bit x n = bit y n"
proof -
  assume "x XOR y = 0"
  then have "bit (x XOR y) n = bit (0 :: u32) n" by (rule arg_cong)
  then show ?thesis by (simp add: bit_xor_iff)
qed

lemma xorshift_left_zero:
  assumes "x XOR push_bit k x = (0 :: u32)" "0 < k"
  shows "x = 0"
proof -
  note eq = xor_zero_bits [OF assms(1)]
  have "\<not> bit x n" for n
  proof (induction n rule: less_induct)
    case (less n)
    show ?case
    proof (cases "k \<le> n")
      case True
      with less [of "n - k"] assms(2) have "\<not> bit x (n - k)" by linarith
      then show ?thesis using eq [of n] by (simp add: bit_push_bit_iff)
    next
      case False
      then show ?thesis using eq [of n] by (simp add: bit_push_bit_iff)
    qed
  qed
  then show ?thesis by (intro bit_eqI) simp
qed

lemma xorshift_right_zero:
  assumes "x XOR drop_bit k x = (0 :: u32)" "0 < k"
  shows "x = 0"
proof -
  note eq = xor_zero_bits [OF assms(1)]
  have "\<not> bit x n" for n
  proof (induction "32 - n" arbitrary: n rule: less_induct)
    case less
    show ?case
    proof (cases "n < 32")
      case True
      with less [of "k + n"] assms(2) have "\<not> bit x (k + n)" by linarith
      then show ?thesis using eq [of n] by (simp add: bit_drop_bit_eq)
    next
      case False
      then show ?thesis using bit_imp_le_length [of x n] by auto
    qed
  qed
  then show ?thesis by (intro bit_eqI) simp
qed

lemma raft_rand_nonzero:
  assumes "rf_rand_state ctx \<noteq> 0" shows "rf_rand_state (snd (raft_rand ctx)) \<noteq> 0"
proof -
  define x where "x = rf_rand_state ctx XOR push_bit 13 (rf_rand_state ctx)"
  define y where "y = x XOR drop_bit 17 x"
  have "x \<noteq> 0" using assms xorshift_left_zero [of "rf_rand_state ctx" 13] by (auto simp: x_def)
  then have "y \<noteq> 0" using xorshift_right_zero [of x 17] by (auto simp: y_def)
  then have "y XOR push_bit 5 y \<noteq> 0" using xorshift_left_zero [of y 5] by auto
  moreover have sel: "rf_rand_state (ctx\<lparr>rf_rand_state := v\<rparr>) = v" for v by simp
  have "rf_rand_state (snd (raft_rand ctx)) = y XOR push_bit 5 y"
    unfolding raft_rand_def Let_def x_def y_def snd_conv by (rule sel)
  ultimately show ?thesis by simp
qed

lemma raft_random_timeout_range:
  "unat (fst (raft_random_timeout ctx)) = 150000 + unat (fst (raft_rand ctx)) mod 150000"
proof -
  let ?r = "fst (raft_rand ctx)"
  have "unat (?r mod 150000) = unat ?r mod 150000" by (simp add: unat_mod)
  then have "unat (150000 + ?r mod 150000) = 150000 + unat ?r mod 150000"
    by (simp add: unat_word_ariths)
  then show ?thesis
    by (simp add: raft_random_timeout_def Let_def split_beta c_arith)
qed

lemma raft_reset_sel [simp]:
  "rf_my_id (raft_reset_election_timer ctx now) = rf_my_id ctx"
  "rf_current_term (raft_reset_election_timer ctx now) = rf_current_term ctx"
  "rf_voted_for (raft_reset_election_timer ctx now) = rf_voted_for ctx"
  "rf_state (raft_reset_election_timer ctx now) = rf_state ctx"
  "rf_current_leader (raft_reset_election_timer ctx now) = rf_current_leader ctx"
  "rf_last_heartbeat (raft_reset_election_timer ctx now) = now"
  "rf_election_start (raft_reset_election_timer ctx now) = rf_election_start ctx"
  "rf_votes_received (raft_reset_election_timer ctx now) = rf_votes_received ctx"
  "rf_votes_needed (raft_reset_election_timer ctx now) = rf_votes_needed ctx"
  "rf_total_voters (raft_reset_election_timer ctx now) = rf_total_voters ctx"
  "rf_vote_granted (raft_reset_election_timer ctx now) = rf_vote_granted ctx"
  "rf_on_become_leader (raft_reset_election_timer ctx now) = rf_on_become_leader ctx"
  "rf_on_become_follower (raft_reset_election_timer ctx now) = rf_on_become_follower ctx"
  "rf_on_leader_lost (raft_reset_election_timer ctx now) = rf_on_leader_lost ctx"
  "rf_persist_term (raft_reset_election_timer ctx now) = rf_persist_term ctx"
  by (simp_all add: raft_reset_election_timer_def raft_random_timeout_def raft_rand_def Let_def)

lemma raft_reset_timer:
  "rf_election_timeout (raft_reset_election_timer ctx now) = fst (raft_random_timeout ctx)"
  "rf_rand_state (raft_reset_election_timer ctx now) = rf_rand_state (snd (raft_rand ctx))"
  by (simp_all add: raft_reset_election_timer_def raft_random_timeout_def split_beta Let_def)

lemma raft_timeout_less [simp]:
  "150000 \<le> fst (raft_random_timeout ctx)" "fst (raft_random_timeout ctx) < 300000"
  using raft_random_timeout_range [of ctx] by (simp_all add: word_le_nat_alt word_less_nat_alt)

lemma raft_become_follower_sel [simp]:
  "rf_my_id (fst (raft_become_follower ctx term now)) = rf_my_id ctx"
  "rf_current_term (fst (raft_become_follower ctx term now)) = term"
  "rf_voted_for (fst (raft_become_follower ctx term now)) = 0"
  "rf_state (fst (raft_become_follower ctx term now)) = EKK_RAFT_FOLLOWER"
  "rf_votes_needed (fst (raft_become_follower ctx term now)) = rf_votes_needed ctx"
  "rf_total_voters (fst (raft_become_follower ctx term now)) = rf_total_voters ctx"
  "rf_last_heartbeat (fst (raft_become_follower ctx term now)) = now"
  by (simp_all add: raft_become_follower_def Let_def)

lemma raft_become_candidate_sel [simp]:
  "rf_my_id (fst (raft_become_candidate ctx now)) = rf_my_id ctx"
  "rf_current_term (fst (raft_become_candidate ctx now)) = rf_current_term ctx + 1"
  "rf_voted_for (fst (raft_become_candidate ctx now)) = rf_my_id ctx"
  "rf_state (fst (raft_become_candidate ctx now)) = EKK_RAFT_CANDIDATE"
  "rf_votes_needed (fst (raft_become_candidate ctx now)) = rf_votes_needed ctx"
  "rf_total_voters (fst (raft_become_candidate ctx now)) = rf_total_voters ctx"
  "rf_votes_received (fst (raft_become_candidate ctx now)) = 1"
  "rf_vote_granted (fst (raft_become_candidate ctx now)) = (\<lambda>v. v = rf_my_id ctx)"
  "rf_election_start (fst (raft_become_candidate ctx now)) = now"
  "rf_last_heartbeat (fst (raft_become_candidate ctx now)) = now"
  by (simp_all add: raft_become_candidate_def Let_def fun_eq_iff)

lemma raft_become_candidate_timeout [simp]:
  "rf_election_timeout (fst (raft_become_candidate ctx now)) < 300000"
  by (simp add: raft_become_candidate_def Let_def raft_reset_timer)

lemma raft_become_leader_sel [simp]:
  "rf_my_id (fst (raft_become_leader ctx now)) = rf_my_id ctx"
  "rf_current_term (fst (raft_become_leader ctx now)) = rf_current_term ctx"
  "rf_voted_for (fst (raft_become_leader ctx now)) = rf_voted_for ctx"
  "rf_state (fst (raft_become_leader ctx now)) = EKK_RAFT_LEADER"
  "rf_current_leader (fst (raft_become_leader ctx now)) = rf_my_id ctx"
  "rf_votes_needed (fst (raft_become_leader ctx now)) = rf_votes_needed ctx"
  "rf_total_voters (fst (raft_become_leader ctx now)) = rf_total_voters ctx"
  "rf_vote_granted (fst (raft_become_leader ctx now)) = rf_vote_granted ctx"
  by (simp_all add: raft_become_leader_def Let_def)

section \<open>A single module\<close>

text \<open>The vote tally of a module: what it counts is what it was granted.\<close>

definition raft_tally :: "ekk_raft_ctx \<Rightarrow> u8 set" where
  "raft_tally ctx = {v. rf_vote_granted ctx v}"

definition raft_inv :: "ekk_raft_ctx \<Rightarrow> bool" where
  "raft_inv ctx \<longleftrightarrow>
     rf_my_id ctx \<noteq> 0 \<and> rf_total_voters ctx \<noteq> 0 \<and> rf_votes_needed ctx = rf_total_voters ctx div 2 + 1
     \<and> (rf_state ctx \<noteq> EKK_RAFT_FOLLOWER \<longrightarrow> rf_voted_for ctx = rf_my_id ctx \<and> rf_vote_granted ctx (rf_my_id ctx))
     \<and> (rf_state ctx = EKK_RAFT_CANDIDATE \<longrightarrow>
          unat (rf_votes_received ctx) = card (raft_tally ctx)
          \<and> (rf_votes_received ctx < rf_votes_needed ctx \<or> rf_votes_received ctx = 1))
     \<and> (rf_state ctx = EKK_RAFT_LEADER \<longrightarrow> unat (rf_votes_needed ctx) \<le> card (raft_tally ctx))"

lemma raft_inv_needed:
  assumes "raft_inv ctx"
  shows "unat (rf_votes_needed ctx) = unat (rf_total_voters ctx) div 2 + 1"
proof -
  have "unat (rf_total_voters ctx) < 256" by (rule unat_u8_less)
  then have "unat (rf_total_voters ctx div 2 + 1) = unat (rf_total_voters ctx) div 2 + 1"
    by (simp add: unat_word_ariths unat_div)
  with assms show ?thesis by (simp add: raft_inv_def)
qed

lemma raft_inv_frame:
  "raft_inv ctx \<Longrightarrow> rf_my_id c = rf_my_id ctx \<Longrightarrow> rf_total_voters c = rf_total_voters ctx \<Longrightarrow>
   rf_votes_needed c = rf_votes_needed ctx \<Longrightarrow> rf_state c = rf_state ctx \<Longrightarrow>
   rf_voted_for c = rf_voted_for ctx \<or> rf_state ctx = EKK_RAFT_FOLLOWER \<Longrightarrow>
   rf_vote_granted c = rf_vote_granted ctx \<Longrightarrow> rf_votes_received c = rf_votes_received ctx \<Longrightarrow>
   raft_inv c"
  by (auto simp: raft_inv_def raft_tally_def)

lemma raft_inv_reset: "raft_inv ctx \<Longrightarrow> raft_inv (raft_reset_election_timer ctx now)"
  by (erule raft_inv_frame) simp_all

lemma raft_inv_follower: "raft_inv ctx \<Longrightarrow> raft_inv (fst (raft_become_follower ctx term now))"
  by (simp add: raft_inv_def)

lemma raft_inv_candidate: "raft_inv ctx \<Longrightarrow> raft_inv (fst (raft_become_candidate ctx now))"
  by (simp add: raft_inv_def raft_tally_def)

lemma raft_inv_leader:
  assumes "raft_inv ctx" "rf_voted_for ctx = rf_my_id ctx" "rf_vote_granted ctx (rf_my_id ctx)"
    and "rf_votes_needed ctx \<le> rf_votes_received ctx" "unat (rf_votes_received ctx) = card (raft_tally ctx)"
  shows "raft_inv (fst (raft_become_leader ctx now))"
  using assms by (simp add: raft_inv_def raft_tally_def word_le_nat_alt)

lemma raft_inv_catch_up: "raft_inv ctx \<Longrightarrow> raft_inv (fst (raft_catch_up ctx term now))"
  by (simp add: raft_catch_up_def raft_inv_follower)

lemma raft_inv_tick: "raft_inv ctx \<Longrightarrow> raft_inv (fst (ekk_raft_tick ctx part now))"
proof (cases "rf_state ctx")
  case EKK_RAFT_LEADER
  assume inv: "raft_inv ctx"
  then have "raft_inv (ctx\<lparr>rf_last_heartbeat := t\<rparr>)" for t by (rule raft_inv_frame) simp_all
  with inv EKK_RAFT_LEADER show ?thesis
    by (simp add: ekk_raft_tick_def raft_leader_tick_def ekk_raft_step_down_def Let_def split_beta
        raft_inv_reset raft_inv_follower split: option.split)
next
  case EKK_RAFT_CANDIDATE
  assume inv: "raft_inv ctx"
  have "raft_inv (fst (raft_become_leader ctx now))" if "rf_votes_needed ctx \<le> rf_votes_received ctx"
    using inv that EKK_RAFT_CANDIDATE by (intro raft_inv_leader) (auto simp: raft_inv_def)
  with inv EKK_RAFT_CANDIDATE show ?thesis
    by (simp add: ekk_raft_tick_def Let_def raft_inv_reset raft_inv_follower raft_inv_candidate)
qed (simp add: ekk_raft_tick_def Let_def raft_inv_reset raft_inv_candidate)

lemma raft_inv_heartbeat: "raft_inv ctx \<Longrightarrow> raft_inv (fst (ekk_raft_on_heartbeat ctx l term now))"
proof -
  assume "raft_inv ctx"
  then have inv: "raft_inv (fst (raft_catch_up ctx term now))" by (rule raft_inv_catch_up)
  then have "raft_inv ((fst (raft_catch_up ctx term now))\<lparr>rf_current_leader := l\<rparr>)"
    by (rule raft_inv_frame) simp_all
  with inv show ?thesis
    by (simp add: ekk_raft_on_heartbeat_def Let_def split_beta raft_inv_reset raft_inv_follower)
qed

text \<open>A module with a granted vote for itself in its own term keeps it: \<open>voted_for\<close> is not moved.\<close>

lemma raft_inv_vote_request:
  "raft_inv ctx \<Longrightarrow> raft_inv (fst (snd (ekk_raft_on_vote_request ctx part k term now)))"
proof -
  assume "raft_inv ctx"
  then have inv: "raft_inv (fst (raft_catch_up ctx term now))" by (rule raft_inv_catch_up)
  then have "raft_inv ((fst (raft_catch_up ctx term now))\<lparr>rf_voted_for := k\<rparr>)"
    if "raft_may_vote (fst (raft_catch_up ctx term now)) part k"
    using that by (intro raft_inv_frame [OF inv]) (auto simp: raft_may_vote_def raft_inv_def)
  with inv show ?thesis
    by (simp add: ekk_raft_on_vote_request_def Let_def split_beta raft_inv_reset)
qed

lemma raft_inv_vote_response:
  assumes inv: "raft_inv ctx"
  shows "raft_inv (fst (ekk_raft_on_vote_response ctx v term g now))"
proof (cases "rf_state ctx = EKK_RAFT_CANDIDATE \<and> term = rf_current_term ctx \<and> g \<and> \<not> rf_vote_granted ctx v")
  case True
  define c where "c = ctx\<lparr>rf_vote_granted := (rf_vote_granted ctx)(v := True),
    rf_votes_received := rf_votes_received ctx + 1\<rparr>"
  have tally: "raft_tally c = insert v (raft_tally ctx)" "v \<notin> raft_tally ctx"
    using True by (auto simp: raft_tally_def c_def)
  then have card: "card (raft_tally c) = Suc (card (raft_tally ctx))" by simp
  have "unat (rf_votes_received ctx) < 128"
    using inv True raft_inv_needed [OF inv] unat_u8_less [of "rf_total_voters ctx"]
    by (auto simp: raft_inv_def word_less_nat_alt)
  then have received: "unat (rf_votes_received c) = card (raft_tally c)"
    using inv True card by (simp add: c_def raft_inv_def unat_word_ariths)
  have eq: "fst (ekk_raft_on_vote_response ctx v term g now) =
      (if rf_votes_needed c \<le> rf_votes_received c then fst (raft_become_leader c now) else c)"
    using True by (simp add: ekk_raft_on_vote_response_def Let_def c_def)
  have base: "rf_my_id c \<noteq> 0" "rf_total_voters c \<noteq> 0" "rf_votes_needed c = rf_total_voters c div 2 + 1"
    "rf_voted_for c = rf_my_id c" "rf_vote_granted c (rf_my_id c)" "rf_state c = EKK_RAFT_CANDIDATE"
    using inv True by (auto simp: raft_inv_def c_def)
  show ?thesis
  proof (cases "rf_votes_needed c \<le> rf_votes_received c")
    case True
    with base received eq show ?thesis
      by (simp add: raft_inv_def raft_tally_def word_le_nat_alt)
  next
    case False
    then have "fst (ekk_raft_on_vote_response ctx v term g now) = c" using eq by simp
    with False base received show ?thesis by (simp add: raft_inv_def not_le)
  qed
next
  case False
  then have "fst (ekk_raft_on_vote_response ctx v term g now) = ctx"
    by (auto simp: ekk_raft_on_vote_response_def)
  with inv show ?thesis by simp
qed

datatype raft_event =
    RfTick "ekk_partition_ctx option" u64
  | RfHeartbeat u8 u32 u64
  | RfVoteRequest "ekk_partition_ctx option" u8 u32 u64
  | RfVoteResponse u8 u32 bool u64
  | RfStepDown u64

fun raft_step :: "ekk_raft_ctx \<Rightarrow> raft_event \<Rightarrow> ekk_raft_ctx" where
  "raft_step ctx (RfTick part now) = fst (ekk_raft_tick ctx part now)"
| "raft_step ctx (RfHeartbeat l term now) = fst (ekk_raft_on_heartbeat ctx l term now)"
| "raft_step ctx (RfVoteRequest part k term now) = fst (snd (ekk_raft_on_vote_request ctx part k term now))"
| "raft_step ctx (RfVoteResponse v term g now) = fst (ekk_raft_on_vote_response ctx v term g now)"
| "raft_step ctx (RfStepDown now) = fst (ekk_raft_step_down ctx now)"

interpretation rf: event_machine raft_step raft_inv
proof unfold_locales
  fix ctx e assume "raft_inv ctx"
  then show "raft_inv (raft_step ctx e)"
    by (cases e) (simp_all add: raft_inv_tick raft_inv_heartbeat raft_inv_vote_request
        raft_inv_vote_response ekk_raft_step_down_def raft_inv_follower)
qed

lemma raft_inv_init:
  "my_id \<noteq> 0 \<Longrightarrow> n \<noteq> 0 \<Longrightarrow> raft_inv (snd (ekk_raft_init ctx my_id n restored))"
  by (simp add: ekk_raft_init_def Let_def raft_inv_def)

lemma raft_leader_majority:
  assumes "raft_inv ctx" "ekk_raft_is_leader ctx"
  shows "unat (rf_total_voters ctx) < 2 * card (raft_tally ctx)"
proof -
  have "unat (rf_votes_needed ctx) \<le> card (raft_tally ctx)"
    using assms by (auto simp: raft_inv_def ekk_raft_is_leader_def)
  with raft_inv_needed [OF assms(1)] show ?thesis by linarith
qed

text \<open>What is decided about a response of voter \<open>v\<close> to a candidate.\<close>

lemma raft_vote_response_granted:
  assumes "raft_inv ctx" "rf_state ctx = EKK_RAFT_CANDIDATE" "c = fst (ekk_raft_on_vote_response ctx v (rf_current_term ctx) True now)"
    and "1 < rf_votes_needed ctx"
  shows "rf_state c = (if unat (rf_votes_needed ctx) \<le> card (insert v (raft_tally ctx))
      then EKK_RAFT_LEADER else EKK_RAFT_CANDIDATE)"
    and "raft_tally c = insert v (raft_tally ctx)" "rf_current_term c = rf_current_term ctx"
    and "rf_votes_needed c = rf_votes_needed ctx"
proof -
  have inv: "raft_inv c" using raft_inv_vote_response [OF assms(1)] assms(3) by simp
  show tally: "raft_tally c = insert v (raft_tally ctx)"
    using assms(2,3) by (auto simp: ekk_raft_on_vote_response_def Let_def raft_tally_def)
  show tm: "rf_current_term c = rf_current_term ctx" and needed: "rf_votes_needed c = rf_votes_needed ctx"
    using assms(2,3) by (auto simp: ekk_raft_on_vote_response_def Let_def)
  have st: "rf_state c = EKK_RAFT_LEADER \<or> rf_state c = EKK_RAFT_CANDIDATE"
    using assms(2,3) by (auto simp: ekk_raft_on_vote_response_def Let_def)
  have "card (raft_tally c) < unat (rf_votes_needed ctx)" if "rf_state c = EKK_RAFT_CANDIDATE"
    using inv that needed assms(4) by (auto simp: raft_inv_def word_less_nat_alt)
  moreover have "unat (rf_votes_needed ctx) \<le> card (raft_tally c)" if "rf_state c = EKK_RAFT_LEADER"
    using inv that needed by (auto simp: raft_inv_def)
  ultimately show "rf_state c = (if unat (rf_votes_needed ctx) \<le> card (insert v (raft_tally ctx))
      then EKK_RAFT_LEADER else EKK_RAFT_CANDIDATE)"
    using st tally by auto
qed

lemma raft_leader_ignores_response:
  "rf_state ctx = EKK_RAFT_LEADER \<Longrightarrow> ekk_raft_on_vote_response ctx v term g now = (ctx, [])"
  by (simp add: ekk_raft_on_vote_response_def)

definition raft_grants :: "u32 \<Rightarrow> (u8 \<times> u64) list \<Rightarrow> raft_event list" where
  "raft_grants term vs = map (\<lambda>(v, now). RfVoteResponse v term True now) vs"

lemma raft_grants_run:
  assumes "raft_inv ctx" "rf_state ctx = EKK_RAFT_CANDIDATE" "1 < rf_votes_needed ctx"
    and "card (raft_tally ctx) < unat (rf_votes_needed ctx)"
    and "c = foldl raft_step ctx (raft_grants (rf_current_term ctx) vs)"
  shows "if unat (rf_votes_needed ctx) \<le> card (raft_tally ctx \<union> fst ` set vs)
    then rf_state c = EKK_RAFT_LEADER
    else rf_state c = EKK_RAFT_CANDIDATE \<and> raft_tally c = raft_tally ctx \<union> fst ` set vs
      \<and> rf_current_term c = rf_current_term ctx \<and> rf_votes_needed c = rf_votes_needed ctx"
  using assms(5)
proof (induction vs arbitrary: c rule: rev_induct)
  case Nil
  with assms(2,4) show ?case by (simp add: raft_grants_def)
next
  case (snoc x vs)
  obtain v now where x: "x = (v, now)" by fastforce
  define b where "b = foldl raft_step ctx (raft_grants (rf_current_term ctx) vs)"
  have inv: "raft_inv b" unfolding b_def by (rule rf.inv_run [OF assms(1)])
  have c: "c = fst (ekk_raft_on_vote_response b v (rf_current_term ctx) True now)"
    using snoc.prems by (simp add: b_def raft_grants_def x)
  have grow: "card (raft_tally ctx \<union> fst ` set vs) \<le> card (raft_tally ctx \<union> fst ` set (vs @ [x]))"
    by (rule card_mono) auto
  note IH = snoc.IH [OF b_def]
  show ?case
  proof (cases "unat (rf_votes_needed ctx) \<le> card (raft_tally ctx \<union> fst ` set vs)")
    case True
    with IH c grow show ?thesis by (simp add: raft_leader_ignores_response)
  next
    case False
    with IH have b: "rf_state b = EKK_RAFT_CANDIDATE" "raft_tally b = raft_tally ctx \<union> fst ` set vs"
      "rf_current_term b = rf_current_term ctx" "rf_votes_needed b = rf_votes_needed ctx" by simp_all
    with raft_vote_response_granted [OF inv b(1), of c v now] c assms(3) x show ?thesis by simp
  qed
qed

text \<open>
  C28. An election is won by a majority and by nothing less: a follower whose election timer has
  run out, in a cluster of at least two, becomes a candidate of the next term, votes for itself
  and asks for votes; after any sequence of granted responses of that term, in any order and with
  any repetitions, it is the leader exactly when the modules that granted, itself included, are
  more than half of the cluster; otherwise it is still a candidate.
\<close>

theorem raft_election_wins:
  assumes "raft_inv ctx" "1 < rf_total_voters ctx" "rf_state ctx = EKK_RAFT_FOLLOWER"
    and "rf_last_heartbeat ctx \<noteq> 0" "rf_election_timeout ctx \<le> now - rf_last_heartbeat ctx"
    and "raft_can_start_election part"
    and "ekk_raft_tick ctx part now = (cand, outs)"
    and "final = foldl raft_step cand (raft_grants (rf_current_term ctx + 1) vs)"
  shows "rf_state cand = EKK_RAFT_CANDIDATE \<and> rf_voted_for cand = rf_my_id ctx
    \<and> RfBroadcastVoteRequest (rf_current_term ctx + 1) (rf_my_id ctx) \<in> set outs
    \<and> (ekk_raft_is_leader final \<longleftrightarrow>
         unat (rf_total_voters ctx) < 2 * card (insert (rf_my_id ctx) (fst ` set vs)))
    \<and> (\<not> ekk_raft_is_leader final \<longrightarrow> rf_state final = EKK_RAFT_CANDIDATE)"
proof -
  have tick: "ekk_raft_tick ctx part now = raft_become_candidate ctx now"
    using assms(3-6) by (simp add: ekk_raft_tick_def Let_def)
  then have cand: "cand = fst (raft_become_candidate ctx now)" using assms(7) by (metis fst_conv)
  have inv: "raft_inv cand" unfolding cand by (rule raft_inv_candidate [OF assms(1)])
  have n: "unat (rf_votes_needed ctx) = unat (rf_total_voters ctx) div 2 + 1"
    by (rule raft_inv_needed [OF assms(1)])
  have "1 < unat (rf_total_voters ctx)" using assms(2) by (simp add: word_less_nat_alt)
  with n have needed: "1 < unat (rf_votes_needed ctx)" by linarith
  have tally: "raft_tally cand = {rf_my_id ctx}" by (simp add: cand raft_tally_def)
  have "if unat (rf_votes_needed cand) \<le> card (raft_tally cand \<union> fst ` set vs)
    then rf_state final = EKK_RAFT_LEADER
    else rf_state final = EKK_RAFT_CANDIDATE \<and> raft_tally final = raft_tally cand \<union> fst ` set vs
      \<and> rf_current_term final = rf_current_term cand \<and> rf_votes_needed final = rf_votes_needed cand"
    by (rule raft_grants_run [OF inv])
      (use needed in \<open>simp_all add: cand tally [unfolded cand] word_less_nat_alt assms(8)\<close>)
  moreover have "unat (rf_votes_needed ctx) \<le> k \<longleftrightarrow> unat (rf_total_voters ctx) < 2 * k" for k
    using n by linarith
  moreover have "RfBroadcastVoteRequest (rf_current_term ctx + 1) (rf_my_id ctx) \<in> set outs"
    using tick assms(7) by (auto simp: raft_become_candidate_def Let_def)
  ultimately show ?thesis
    by (auto simp: cand tally [unfolded cand] ekk_raft_is_leader_def split: if_splits)
qed

definition raft_blank :: ekk_raft_ctx where
  "raft_blank = \<lparr>rf_my_id = 0, rf_current_term = 0, rf_voted_for = 0, rf_state = EKK_RAFT_FOLLOWER,
     rf_current_leader = 0, rf_election_timeout = 0, rf_last_heartbeat = 0, rf_election_start = 0,
     rf_votes_received = 0, rf_votes_needed = 0, rf_total_voters = 0, rf_vote_granted = (\<lambda>_. False),
     rf_on_become_leader = False, rf_on_become_follower = False, rf_on_leader_lost = False,
     rf_persist_term = False, rf_restore_term = False, rf_rand_state = 0\<rparr>"

text \<open>Module 1 of a cluster of three, after its first tick at 1 ms.\<close>

definition raft_started :: ekk_raft_ctx where
  "raft_started = fst (ekk_raft_tick (snd (ekk_raft_init raft_blank 1 3 None)) None 1000)"

lemma raft_started_sel:
  "rf_state raft_started = EKK_RAFT_FOLLOWER" "rf_last_heartbeat raft_started = 1000"
  "rf_total_voters raft_started = 3" "rf_my_id raft_started = 1" "rf_current_term raft_started = 0"
  "rf_election_timeout raft_started \<le> 300000" "raft_inv raft_started"
proof -
  have "raft_inv (snd (ekk_raft_init raft_blank 1 3 None))" by (rule raft_inv_init) simp_all
  then show "raft_inv raft_started" unfolding raft_started_def by (rule raft_inv_tick)
qed (simp_all add: raft_started_def ekk_raft_tick_def ekk_raft_init_def Let_def raft_reset_timer less_imp_le)

theorem raft_election_wins_witness:
  "ekk_raft_is_leader (foldl raft_step (fst (ekk_raft_tick raft_started None 400000))
     (raft_grants (rf_current_term raft_started + 1) [(2, 401000)]))"
  using raft_election_wins [OF _ _ _ _ _ _ prod.collapse [symmetric] refl,
      of raft_started 400000 None "[(2, 401000)]"]
  by (simp add: raft_started_sel raft_can_start_election_def word_less_nat_alt
      order_trans [OF raft_started_sel(6)])

text \<open>
  C37. The partition state gates the election. While the partition forbids electing, a tick of a
  module in a cluster of at least two starts no campaign, changes no term and leaves no leader
  in office (a leader steps down and reports it); while it forbids voting, a vote request is
  refused and the refusal is sent, whatever the term. But a response that completes the majority
  makes a candidate leader without asking the partition.
\<close>

theorem raft_partition_gate:
  assumes "raft_inv ctx" "1 < rf_total_voters ctx" "rf_last_heartbeat ctx \<noteq> 0"
    and "\<not> ekk_partition_can_elect p" "\<not> ekk_partition_can_vote q"
    and "after = fst (ekk_raft_tick ctx (Some p) now)" "outs = snd (ekk_raft_tick ctx (Some p) now)"
    and "vote = ekk_raft_on_vote_request ctx (Some q) k term now"
  shows "\<not> ekk_raft_is_leader after \<and> rf_current_term after = rf_current_term ctx
    \<and> (\<forall>t i. RfBroadcastVoteRequest t i \<notin> set outs)
    \<and> (ekk_raft_is_leader ctx \<and> rf_on_leader_lost ctx \<longrightarrow> RfOnLeaderLost \<in> set outs)
    \<and> \<not> fst vote
    \<and> RfSendVoteResponse k (rf_current_term (fst (snd vote))) (rf_my_id ctx) False \<in> set (snd (snd vote))"
proof -
  have "1 < unat (rf_votes_needed ctx)"
    using raft_inv_needed [OF assms(1)] assms(2) by (simp add: word_less_nat_alt)
  then have candidate: "\<not> rf_votes_needed ctx \<le> rf_votes_received ctx" if "rf_state ctx = EKK_RAFT_CANDIDATE"
    using assms(1) that by (auto simp: raft_inv_def word_less_nat_alt word_le_nat_alt)
  note defs = ekk_raft_tick_def Let_def raft_can_start_election_def raft_become_follower_def
    raft_leader_tick_def ekk_raft_step_down_def ekk_raft_is_leader_def
  have "\<not> ekk_raft_is_leader after \<and> rf_current_term after = rf_current_term ctx
    \<and> (\<forall>t i. RfBroadcastVoteRequest t i \<notin> set outs)
    \<and> (ekk_raft_is_leader ctx \<and> rf_on_leader_lost ctx \<longrightarrow> RfOnLeaderLost \<in> set outs)"
    using assms(3,4,6,7) candidate
    by (cases "rf_state ctx") (auto simp: defs split: if_splits)
  moreover have "rf_my_id (fst (raft_catch_up ctx term now)) = rf_my_id ctx"
    by (simp add: raft_catch_up_def)
  ultimately show ?thesis
    using assms(5,8)
    by (auto simp: ekk_raft_on_vote_request_def Let_def split_beta raft_may_vote_def)
qed

theorem raft_partition_gate_witness:
  "\<not> ekk_raft_is_leader (fst (ekk_raft_tick raft_started (Some partition_lonely) 400000))"
  using raft_partition_gate [OF _ _ _ _ _ refl refl refl,
      of raft_started partition_lonely partition_lonely 400000]
  by (simp add: raft_started_sel partition_lonely_sel ekk_partition_can_elect_def
      ekk_partition_can_vote_def word_less_nat_alt)


section \<open>The cluster\<close>

text \<open>
  The modules \<open>ids\<close> run the code above and exchange messages. The network keeps every message ever
  sent, so a message may be delivered late, repeatedly, out of order, or never; a broadcast does
  not come back to its sender. \<open>parts\<close> holds the partition contexts a module may have at the moment
  it consults them. The bounds of the model: no module starts a campaign from the last term (the
  32-bit term does not wrap) and ticks see a non-zero clock (zero means "no heartbeat yet" to the
  code).
\<close>

datatype raft_msg =
    MsgHeartbeat u32 u8
  | MsgRequestVote u32 u8
  | MsgVoteResponse u8 u32 u8 bool

fun raft_msg_of :: "raft_output \<Rightarrow> raft_msg option" where
  "raft_msg_of (RfBroadcastHeartbeat term i) = Some (MsgHeartbeat term i)"
| "raft_msg_of (RfBroadcastVoteRequest term i) = Some (MsgRequestVote term i)"
| "raft_msg_of (RfSendVoteResponse k term i g) = Some (MsgVoteResponse k term i g)"
| "raft_msg_of _ = None"

definition raft_sends :: "raft_output list \<Rightarrow> raft_msg set" where
  "raft_sends outs = {m. Some m \<in> raft_msg_of ` set outs}"

type_synonym raft_cluster = "(u8 \<Rightarrow> ekk_raft_ctx) \<times> raft_msg set"

inductive raft_cluster_step :: "u8 set \<Rightarrow> ekk_partition_ctx option set \<Rightarrow> raft_cluster \<Rightarrow> raft_cluster \<Rightarrow> bool"
  for ids parts
where
  cl_tick: "i \<in> ids \<Longrightarrow> part \<in> parts \<Longrightarrow> now \<noteq> 0 \<Longrightarrow> rf_current_term (nodes i) \<noteq> 0xFFFFFFFF \<Longrightarrow>
    ekk_raft_tick (nodes i) part now = (c, outs) \<Longrightarrow>
    raft_cluster_step ids parts (nodes, net) (nodes(i := c), net \<union> raft_sends outs)"
| cl_heartbeat: "i \<in> ids \<Longrightarrow> MsgHeartbeat t l \<in> net \<Longrightarrow> l \<noteq> i \<Longrightarrow>
    ekk_raft_on_heartbeat (nodes i) l t now = (c, outs) \<Longrightarrow>
    raft_cluster_step ids parts (nodes, net) (nodes(i := c), net \<union> raft_sends outs)"
| cl_vote_request: "i \<in> ids \<Longrightarrow> part \<in> parts \<Longrightarrow> MsgRequestVote t k \<in> net \<Longrightarrow> k \<noteq> i \<Longrightarrow>
    ekk_raft_on_vote_request (nodes i) part k t now = (g, c, outs) \<Longrightarrow>
    raft_cluster_step ids parts (nodes, net) (nodes(i := c), net \<union> raft_sends outs)"
| cl_vote_response: "i \<in> ids \<Longrightarrow> MsgVoteResponse i t v g \<in> net \<Longrightarrow>
    ekk_raft_on_vote_response (nodes i) v t g now = (c, outs) \<Longrightarrow>
    raft_cluster_step ids parts (nodes, net) (nodes(i := c), net \<union> raft_sends outs)"

inductive raft_reachable :: "u8 set \<Rightarrow> ekk_partition_ctx option set \<Rightarrow> u8 \<Rightarrow> raft_cluster \<Rightarrow> bool"
  for ids parts n
where
  cl_init: "(\<And>i. i \<in> ids \<Longrightarrow> nodes i = snd (ekk_raft_init raft_blank i n None)) \<Longrightarrow>
    raft_reachable ids parts n (nodes, {})"
| cl_step: "raft_reachable ids parts n s \<Longrightarrow> raft_cluster_step ids parts s s' \<Longrightarrow>
    raft_reachable ids parts n s'"

text \<open>Votes, as the network has seen them, and votes that can no longer be changed.\<close>

definition raft_voted :: "raft_msg set \<Rightarrow> u8 \<Rightarrow> u32 \<Rightarrow> u8 \<Rightarrow> bool" where
  "raft_voted net v term k \<longleftrightarrow>
     MsgVoteResponse k term v True \<in> net \<or> v = k \<and> MsgRequestVote term k \<in> net"

definition raft_locked :: "raft_cluster \<Rightarrow> u8 \<Rightarrow> u32 \<Rightarrow> u8 \<Rightarrow> bool" where
  "raft_locked s v term k \<longleftrightarrow>
     raft_voted (snd s) v term k \<and> (\<forall>k'. raft_voted (snd s) v term k' \<longrightarrow> k' = k)
     \<and> (term < rf_current_term (fst s v)
        \<or> term = rf_current_term (fst s v) \<and> rf_voted_for (fst s v) = k)"

definition raft_majority :: "u8 set \<Rightarrow> u8 \<Rightarrow> u8 set \<Rightarrow> bool" where
  "raft_majority ids n Q \<longleftrightarrow> Q \<subseteq> ids \<and> unat n < 2 * card Q"

definition raft_node_ok :: "u8 set \<Rightarrow> u8 \<Rightarrow> raft_msg set \<Rightarrow> u8 \<Rightarrow> ekk_raft_ctx \<Rightarrow> bool" where
  "raft_node_ok ids n net i c \<longleftrightarrow>
     raft_inv c \<and> rf_my_id c = i \<and> rf_total_voters c = n
     \<and> (rf_state c = EKK_RAFT_CANDIDATE \<longrightarrow>
          rf_election_start c = rf_last_heartbeat c \<and> rf_last_heartbeat c \<noteq> 0
          \<and> rf_election_timeout c < 300000
          \<and> (\<forall>v \<in> raft_tally c. v \<in> ids \<and> raft_voted net v (rf_current_term c) i))
     \<and> (rf_state c = EKK_RAFT_LEADER \<longrightarrow> MsgHeartbeat (rf_current_term c) i \<in> net)"

fun raft_msg_ok :: "u8 set \<Rightarrow> (u8 \<Rightarrow> ekk_raft_ctx) \<Rightarrow> raft_msg \<Rightarrow> bool" where
  "raft_msg_ok ids nodes (MsgHeartbeat term l) = (l \<in> ids \<and> term \<le> rf_current_term (nodes l))"
| "raft_msg_ok ids nodes (MsgRequestVote term k) = (k \<in> ids \<and> term \<le> rf_current_term (nodes k))"
| "raft_msg_ok ids nodes (MsgVoteResponse k term v g) =
     (k \<in> ids \<and> v \<in> ids \<and> term \<le> rf_current_term (nodes v))"

definition raft_votes_ok :: "u8 set \<Rightarrow> u8 \<Rightarrow> raft_cluster \<Rightarrow> bool" where
  "raft_votes_ok ids n s \<longleftrightarrow>
     (\<forall>term. (\<exists>l. MsgHeartbeat term l \<in> snd s) \<or>
        (\<forall>v k. raft_voted (snd s) v term k \<longrightarrow> raft_locked s v term k))
     \<and> (\<forall>term l. MsgHeartbeat term l \<in> snd s \<longrightarrow>
        (\<exists>Q. raft_majority ids n Q \<and> (\<forall>v \<in> Q. raft_locked s v term l)))"

definition raft_cluster_inv :: "u8 set \<Rightarrow> u8 \<Rightarrow> raft_cluster \<Rightarrow> bool" where
  "raft_cluster_inv ids n s \<longleftrightarrow>
     (\<forall>i \<in> ids. raft_node_ok ids n (snd s) i (fst s i)) \<and> (\<forall>m \<in> snd s. raft_msg_ok ids (fst s) m)
     \<and> raft_votes_ok ids n s"

lemma raft_majorities_meet:
  assumes "finite ids" "card ids \<le> unat n" "raft_majority ids n P" "raft_majority ids n Q"
  obtains v where "v \<in> P" "v \<in> Q"
proof -
  have "P \<inter> Q \<noteq> {}"
  proof
    assume "P \<inter> Q = {}"
    then have "card P + card Q = card (P \<union> Q)"
      using assms(1,3,4) by (metis card_Un_disjoint finite_subset raft_majority_def)
    also have "\<dots> \<le> card ids"
      using assms by (intro card_mono) (auto simp: raft_majority_def)
    finally show False using assms(2-4) by (simp add: raft_majority_def)
  qed
  then show ?thesis using that by blast
qed

lemma raft_votes_ok_quorum:
  assumes "raft_votes_ok ids n s" "MsgHeartbeat term l \<in> snd s"
  obtains Q where "raft_majority ids n Q" "\<forall>v \<in> Q. raft_locked s v term l"
  using assms unfolding raft_votes_ok_def by blast

lemma raft_votes_ok_open:
  "raft_votes_ok ids n s \<Longrightarrow> \<forall>l. MsgHeartbeat term l \<notin> snd s \<Longrightarrow> raft_voted (snd s) v term k \<Longrightarrow>
   raft_locked s v term k"
  unfolding raft_votes_ok_def by blast

lemma raft_leader_unique:
  assumes "finite ids" "card ids \<le> unat n" "raft_votes_ok ids n s"
    and "MsgHeartbeat term l \<in> snd s" "MsgHeartbeat term l' \<in> snd s"
  shows "l = l'"
proof -
  obtain P where P: "raft_majority ids n P" "\<forall>v \<in> P. raft_locked s v term l"
    using raft_votes_ok_quorum [OF assms(3,4)] .
  obtain Q where Q: "raft_majority ids n Q" "\<forall>v \<in> Q. raft_locked s v term l'"
    using raft_votes_ok_quorum [OF assms(3,5)] .
  from raft_majorities_meet [OF assms(1,2) P(1) Q(1)] obtain v where "v \<in> P" "v \<in> Q" .
  with P Q show ?thesis by (metis raft_locked_def)
qed

lemma raft_voted_ids:
  "\<forall>m \<in> net. raft_msg_ok ids nodes m \<Longrightarrow> raft_voted net v term k \<Longrightarrow>
   v \<in> ids \<and> k \<in> ids \<and> term \<le> rf_current_term (nodes v)"
  by (auto simp: raft_voted_def dest: bspec)

text \<open>
  The one argument behind every step of the cluster. Module \<open>i\<close> moves from \<open>nodes i\<close> to \<open>c\<close> and sends
  the messages \<open>M\<close>. The conditions: its term does not go down; it speaks for itself and in its new
  term; it asks for votes only in a fresh term; it grants only what its \<open>voted_for\<close> says; within a
  term it changes \<open>voted_for\<close> only from none, or, having voted for itself, on a heartbeat of another
  leader of that term; and it claims leadership only with the votes of a majority.
\<close>

fun raft_sent_ok ::
  "u8 set \<Rightarrow> u8 \<Rightarrow> raft_cluster \<Rightarrow> u8 \<Rightarrow> ekk_raft_ctx \<Rightarrow> raft_msg \<Rightarrow> bool"
where
  "raft_sent_ok ids n s i c (MsgHeartbeat t l) =
     (t = rf_current_term c \<and> l = i
      \<and> (MsgHeartbeat t i \<in> snd s
         \<or> t = rf_current_term (fst s i) \<and> rf_voted_for c = rf_voted_for (fst s i)
           \<and> (\<exists>Q. raft_majority ids n Q \<and> (\<forall>v \<in> Q. raft_voted (snd s) v t i))))"
| "raft_sent_ok ids n s i c (MsgRequestVote t k) =
     (t = rf_current_term c \<and> k = i \<and> rf_current_term (fst s i) < t \<and> rf_voted_for c = i)"
| "raft_sent_ok ids n s i c (MsgVoteResponse k t v g) =
     (t = rf_current_term c \<and> v = i \<and> k \<in> ids \<and> (g \<longrightarrow> rf_voted_for c = k))"

definition raft_move_ok ::
  "u8 set \<Rightarrow> u8 \<Rightarrow> raft_cluster \<Rightarrow> u8 \<Rightarrow> ekk_raft_ctx \<Rightarrow> raft_msg set \<Rightarrow> bool"
where
  "raft_move_ok ids n s i c M \<longleftrightarrow>
     rf_current_term (fst s i) \<le> rf_current_term c
     \<and> raft_node_ok ids n (snd s \<union> M) i c
     \<and> (\<forall>m \<in> M. raft_sent_ok ids n s i c m)
     \<and> (rf_current_term c = rf_current_term (fst s i) \<longrightarrow>
          rf_voted_for c = rf_voted_for (fst s i) \<or> rf_voted_for (fst s i) = 0
          \<or> M = {} \<and> rf_voted_for (fst s i) = i
            \<and> (\<exists>l. l \<noteq> i \<and> MsgHeartbeat (rf_current_term (fst s i)) l \<in> snd s))"

lemma raft_move_sent: "raft_move_ok ids n s i c M \<Longrightarrow> m \<in> M \<Longrightarrow> raft_sent_ok ids n s i c m"
  by (simp add: raft_move_ok_def)

lemma raft_move_new_vote:
  assumes "raft_move_ok ids n s i c M" "raft_voted (snd s \<union> M) v term k" "\<not> raft_voted (snd s) v term k"
  shows "v = i \<and> term = rf_current_term c \<and> rf_voted_for c = k \<and> M \<noteq> {}"
proof -
  from assms(2,3) consider "MsgVoteResponse k term v True \<in> M" | "v = k" "MsgRequestVote term k \<in> M"
    by (auto simp: raft_voted_def)
  then show ?thesis by cases (use raft_move_sent [OF assms(1)] in fastforce)+
qed

lemma raft_locked_kept:
  assumes inv: "raft_cluster_inv ids n s" and ids: "0 \<notin> ids"
    and move: "raft_move_ok ids n s i c M"
    and locked: "raft_locked s v term l"
    and other: "\<not> (v = i \<and> l = i \<and> (\<exists>l'. l' \<noteq> i \<and> MsgHeartbeat term l' \<in> snd s))"
  shows "raft_locked ((fst s)(i := c), snd s \<union> M) v term l"
proof -
  let ?t = "rf_current_term (fst s i)"
  from inv have msgs: "\<forall>m \<in> snd s. raft_msg_ok ids (fst s) m" by (simp add: raft_cluster_inv_def)
  from locked have voted: "raft_voted (snd s) v term l" by (simp add: raft_locked_def)
  with raft_voted_ids [OF msgs] ids have l: "l \<noteq> 0" and le: "term \<le> rf_current_term (fst s v)" by auto
  from move have mono: "?t \<le> rf_current_term c" by (simp add: raft_move_ok_def)
  have keep: "rf_voted_for c = l" if "v = i" "term = ?t" "rf_current_term c = ?t"
  proof -
    have voted_for: "rf_voted_for (fst s i) = l" using locked that by (simp add: raft_locked_def)
    have "rf_voted_for c = rf_voted_for (fst s i) \<or> rf_voted_for (fst s i) = 0
        \<or> rf_voted_for (fst s i) = i \<and> (\<exists>l. l \<noteq> i \<and> MsgHeartbeat ?t l \<in> snd s)"
      using move that(3) unfolding raft_move_ok_def by blast
    with voted_for l other that show ?thesis by auto
  qed
  have new: "k = l" if "raft_voted (snd s \<union> M) v term k" for k
  proof (cases "raft_voted (snd s) v term k")
    case True
    with locked show ?thesis by (simp add: raft_locked_def)
  next
    case False
    note new = raft_move_new_vote [OF move that False]
    with le mono have "term = ?t" "rf_current_term c = ?t" by auto
    with new keep show ?thesis by simp
  qed
  have "term < rf_current_term (((fst s)(i := c)) v)
      \<or> term = rf_current_term (((fst s)(i := c)) v) \<and> rf_voted_for (((fst s)(i := c)) v) = l"
  proof (cases "v = i")
    case True
    show ?thesis
    proof (cases "term = ?t \<and> rf_current_term c = ?t")
      case True
      with keep \<open>v = i\<close> show ?thesis by simp
    next
      case False
      with le mono \<open>v = i\<close> show ?thesis by (auto intro: le_neq_trans order_le_less_trans order_less_le_trans)
    qed
  next
    case False
    with locked show ?thesis by (simp add: raft_locked_def)
  qed
  moreover have "raft_voted (snd s \<union> M) v term l" using voted by (auto simp: raft_voted_def)
  ultimately show ?thesis unfolding raft_locked_def fst_conv snd_conv using new by blast
qed

lemma raft_node_ok_mono:
  "raft_node_ok ids n net i c \<Longrightarrow> raft_node_ok ids n (net \<union> M) i c"
  by (auto simp: raft_node_ok_def raft_voted_def)

lemma raft_msg_ok_mono:
  assumes "raft_msg_ok ids nodes m" "rf_current_term (nodes i) \<le> rf_current_term c"
  shows "raft_msg_ok ids (nodes(i := c)) m"
  using assms by (cases m) (auto intro: order_trans)

lemma raft_votes_ok_move:
  assumes inv: "raft_cluster_inv ids n s" and ids: "0 \<notin> ids" "finite ids" "card ids \<le> unat n"
    and move: "raft_move_ok ids n s i c M"
  shows "raft_votes_ok ids n ((fst s)(i := c), snd s \<union> M)"
proof -
  let ?s = "((fst s)(i := c), snd s \<union> M)"
  from inv have votes: "raft_votes_ok ids n s" and msgs: "\<forall>m \<in> snd s. raft_msg_ok ids (fst s) m"
    by (simp_all add: raft_cluster_inv_def)
  note kept = raft_locked_kept [OF inv ids(1) move]
  note unique = raft_leader_unique [OF ids(2,3) votes]
  have open_kept: "raft_locked ?s v t k"
    if "\<forall>l. MsgHeartbeat t l \<notin> snd s" "raft_voted (snd s) v t k" for v t k
    using kept [OF raft_votes_ok_open [OF votes that]] that(1) by blast
  have one_vote: "k = rf_voted_for c"
    if none: "\<forall>l. MsgHeartbeat (rf_current_term c) l \<notin> snd s" and "M \<noteq> {}"
      and voted: "raft_voted (snd s \<union> M) i (rf_current_term c) k" for k
  proof (cases "raft_voted (snd s) i (rf_current_term c) k")
    case True
    from raft_voted_ids [OF msgs True] ids(1) move
    have tm: "rf_current_term c = rf_current_term (fst s i)" and "k \<noteq> 0"
      by (auto simp: raft_move_ok_def)
    moreover have "rf_voted_for (fst s i) = k"
      using raft_votes_ok_open [OF votes none True] tm by (simp add: raft_locked_def)
    ultimately show ?thesis using move \<open>M \<noteq> {}\<close> unfolding raft_move_ok_def by auto
  next
    case False
    from raft_move_new_vote [OF move voted False] show ?thesis by simp
  qed
  have open_ok: "raft_locked ?s v t k"
    if none: "\<forall>l. MsgHeartbeat t l \<notin> snd s" and voted: "raft_voted (snd s \<union> M) v t k" for v t k
  proof (cases "raft_voted (snd s) v t k")
    case True
    with none show ?thesis by (rule open_kept)
  next
    case False
    note new = raft_move_new_vote [OF move voted False]
    then have "\<forall>k'. raft_voted (snd s \<union> M) i (rf_current_term c) k' \<longrightarrow> k' = rf_voted_for c"
      using one_vote none by blast
    then have "raft_locked ?s i (rf_current_term c) (rf_voted_for c)"
      unfolding raft_locked_def fst_conv snd_conv fun_upd_same using new voted by blast
    with new show ?thesis by blast
  qed
  have quorum: "\<exists>Q. raft_majority ids n Q \<and> (\<forall>v \<in> Q. raft_locked ?s v t l)"
    if beat: "MsgHeartbeat t l \<in> snd s" for t l
  proof -
    obtain Q where "raft_majority ids n Q" "\<forall>v \<in> Q. raft_locked s v t l"
      using raft_votes_ok_quorum [OF votes beat] .
    moreover from this have "raft_locked ?s v t l" if "v \<in> Q" for v
      using kept [of v t l] that unique [OF beat] by blast
    ultimately show ?thesis by blast
  qed
  have elected: "\<exists>Q. raft_majority ids n Q \<and> (\<forall>v \<in> Q. raft_locked ?s v t l)"
    if beat: "MsgHeartbeat t l \<in> M" "MsgHeartbeat t l \<notin> snd s" for t l
  proof -
    from raft_move_sent [OF move beat(1)] beat(2) obtain Q where l: "l = i" and
      Q: "raft_majority ids n Q" "\<forall>v \<in> Q. raft_voted (snd s) v t i" by auto
    have none: "\<forall>l'. MsgHeartbeat t l' \<notin> snd s"
    proof (intro allI notI)
      fix l' assume other: "MsgHeartbeat t l' \<in> snd s"
      obtain P where P: "raft_majority ids n P" "\<forall>v \<in> P. raft_locked s v t l'"
        using raft_votes_ok_quorum [OF votes other] .
      obtain v where "v \<in> P" "v \<in> Q" using raft_majorities_meet [OF ids(2,3) P(1) Q(1)] .
      with P Q have "l' = i" unfolding raft_locked_def by blast
      with other beat(2) l show False by simp
    qed
    from Q open_kept [OF none] l show ?thesis by blast
  qed
  from open_ok quorum elected show ?thesis
    unfolding raft_votes_ok_def fst_conv snd_conv by (metis UnCI UnE)
qed

text \<open>Every such move keeps the cluster invariant.\<close>

lemma raft_cluster_inv_move:
  assumes inv: "raft_cluster_inv ids n s" and ids: "0 \<notin> ids" "finite ids" "card ids \<le> unat n"
    and i: "i \<in> ids" and move: "raft_move_ok ids n s i c M"
  shows "raft_cluster_inv ids n ((fst s)(i := c), snd s \<union> M)"
proof -
  from move have mono: "rf_current_term (fst s i) \<le> rf_current_term c" by (simp add: raft_move_ok_def)
  have "raft_msg_ok ids ((fst s)(i := c)) m" if "m \<in> snd s \<union> M" for m
  proof (cases "m \<in> snd s")
    case True
    with inv have "raft_msg_ok ids (fst s) m" by (simp add: raft_cluster_inv_def)
    then show ?thesis using mono by (rule raft_msg_ok_mono)
  next
    case False
    with that have "m \<in> M" by simp
    from raft_move_sent [OF move this] i show ?thesis by (cases m) auto
  qed
  moreover have "raft_node_ok ids n (snd s \<union> M) j (((fst s)(i := c)) j)" if "j \<in> ids" for j
    using inv move that by (auto simp: raft_cluster_inv_def raft_move_ok_def raft_node_ok_mono)
  ultimately show ?thesis
    using raft_votes_ok_move [OF inv ids move] by (simp add: raft_cluster_inv_def)
qed

lemma raft_sends_simps [simp]:
  "raft_sends [] = {}"
  "raft_sends (out # outs) = (case raft_msg_of out of Some m \<Rightarrow> {m} | None \<Rightarrow> {}) \<union> raft_sends outs"
  "raft_sends (outs @ outs') = raft_sends outs \<union> raft_sends outs'"
  by (auto simp: raft_sends_def split: option.split)

lemma raft_sends_transition [simp]:
  "raft_sends (snd (raft_become_follower ctx t now)) = {}"
  "raft_sends (snd (raft_catch_up ctx t now)) = {}"
  "raft_sends (snd (raft_become_candidate ctx now)) = {MsgRequestVote (rf_current_term ctx + 1) (rf_my_id ctx)}"
  "raft_sends (snd (raft_become_leader ctx now)) = {MsgHeartbeat (rf_current_term ctx) (rf_my_id ctx)}"
  by (simp_all add: raft_become_follower_def raft_catch_up_def raft_become_candidate_def
      raft_become_leader_def Let_def)

lemma raft_node_ok_follower:
  "raft_inv c \<Longrightarrow> rf_my_id c = i \<Longrightarrow> rf_total_voters c = n \<Longrightarrow> rf_state c = EKK_RAFT_FOLLOWER \<Longrightarrow>
   raft_node_ok ids n net i c"
  by (simp add: raft_node_ok_def)

lemma raft_move_quiet:
  assumes "raft_node_ok ids n (snd s) i c" "rf_current_term c = rf_current_term (fst s i)"
    and "rf_voted_for c = rf_voted_for (fst s i)" "\<forall>m \<in> M. raft_sent_ok ids n s i c m"
  shows "raft_move_ok ids n s i c M"
  using assms by (simp add: raft_move_ok_def raft_node_ok_mono)

lemma raft_move_campaign:
  assumes "raft_node_ok ids n (snd s) i (fst s i)" "i \<in> ids" "now \<noteq> 0"
    and "rf_current_term (fst s i) \<noteq> 0xFFFFFFFF"
  shows "raft_move_ok ids n s i (fst (raft_become_candidate (fst s i) now))
    (raft_sends (snd (raft_become_candidate (fst s i) now)))"
proof -
  let ?c = "fst (raft_become_candidate (fst s i) now)"
  have my: "rf_my_id (fst s i) = i" "rf_total_voters (fst s i) = n" "raft_inv (fst s i)"
    using assms(1) by (simp_all add: raft_node_ok_def)
  have "rf_current_term (fst s i) < rf_current_term (fst s i) + 1"
    using assms(4) by (rule u32_less_Suc)
  moreover have "raft_node_ok ids n (snd s \<union> raft_sends (snd (raft_become_candidate (fst s i) now))) i ?c"
    using my assms(2,3) raft_inv_candidate [OF my(3), of now]
    by (simp add: raft_node_ok_def raft_tally_def raft_voted_def)
  ultimately show ?thesis using my by (simp add: raft_move_ok_def less_imp_le)
qed

lemma raft_move_lead:
  assumes "rf_my_id c = i" "rf_total_voters c = n" "rf_current_term c = rf_current_term (fst s i)"
    and "rf_voted_for c = rf_voted_for (fst s i)"
    and "\<forall>v \<in> raft_tally c. v \<in> ids \<and> raft_voted (snd s) v (rf_current_term c) i"
    and "raft_inv (fst (raft_become_leader c now))"
  shows "raft_move_ok ids n s i (fst (raft_become_leader c now)) (raft_sends (snd (raft_become_leader c now)))"
proof -
  have tally: "raft_tally (fst (raft_become_leader c now)) = raft_tally c" by (simp add: raft_tally_def)
  have "raft_majority ids n (raft_tally c)"
    using raft_leader_majority [OF assms(6)] assms(2,5) by (auto simp: raft_majority_def ekk_raft_is_leader_def tally)
  with assms have "raft_sent_ok ids n s i (fst (raft_become_leader c now)) (MsgHeartbeat (rf_current_term c) i)"
    by auto
  moreover have "raft_node_ok ids n (snd s \<union> {MsgHeartbeat (rf_current_term c) i}) i (fst (raft_become_leader c now))"
    using assms by (simp add: raft_node_ok_def)
  ultimately show ?thesis using assms by (simp add: raft_move_ok_def)
qed

lemma raft_node_ok_tick_move:
  assumes ok: "raft_node_ok ids n (snd s) i (fst s i)" and "i \<in> ids" "now \<noteq> 0"
    and "rf_current_term (fst s i) \<noteq> 0xFFFFFFFF" and part: "raft_can_start_election part"
  shows "raft_move_ok ids n s i (fst (ekk_raft_tick (fst s i) part now))
    (raft_sends (snd (ekk_raft_tick (fst s i) part now)))"
proof -
  let ?c = "fst s i"
  have inv: "raft_inv ?c" and my: "rf_my_id ?c = i" "rf_total_voters ?c = n" using ok by (simp_all add: raft_node_ok_def)
  note campaign = raft_move_campaign [OF assms(1-4)]
  have stay: "raft_move_ok ids n s i ?c {}" by (rule raft_move_quiet) (use ok in simp_all)
  have reset: "raft_move_ok ids n s i (raft_reset_election_timer ?c now) {}" if "rf_state ?c \<noteq> EKK_RAFT_CANDIDATE"
    by (rule raft_move_quiet)
      (use ok that in \<open>simp_all add: raft_node_ok_def raft_inv_reset\<close>)
  show ?thesis
  proof (cases "rf_last_heartbeat ?c = 0")
    case True
    then have "rf_state ?c \<noteq> EKK_RAFT_CANDIDATE" using ok by (auto simp: raft_node_ok_def)
    with True reset show ?thesis by (simp add: ekk_raft_tick_def)
  next
    case started: False
    show ?thesis
    proof (cases "rf_state ?c")
      case EKK_RAFT_FOLLOWER
      with started part campaign stay show ?thesis by (simp add: ekk_raft_tick_def Let_def)
    next
      case EKK_RAFT_CANDIDATE
      with ok have cand: "rf_election_start ?c = rf_last_heartbeat ?c" "rf_election_timeout ?c < 300000"
        and tally: "\<forall>v \<in> raft_tally ?c. v \<in> ids \<and> raft_voted (snd s) v (rf_current_term ?c) i"
        by (simp_all add: raft_node_ok_def)
      have overall: "\<not> 400000 \<le> now - rf_election_start ?c" if "\<not> rf_election_timeout ?c \<le> now - rf_last_heartbeat ?c"
        using that cand by (auto simp: word_le_nat_alt word_less_nat_alt)
      have "raft_inv (fst (raft_become_leader ?c now))" if "rf_votes_needed ?c \<le> rf_votes_received ?c"
        using inv that EKK_RAFT_CANDIDATE by (intro raft_inv_leader) (auto simp: raft_inv_def)
      then have "raft_move_ok ids n s i (fst (raft_become_leader ?c now)) (raft_sends (snd (raft_become_leader ?c now)))"
        if "rf_votes_needed ?c \<le> rf_votes_received ?c"
        using that my tally by (intro raft_move_lead) simp_all
      with EKK_RAFT_CANDIDATE started part campaign stay overall show ?thesis
        by (auto simp: ekk_raft_tick_def Let_def simp del: raft_sends_transition)
    next
      case EKK_RAFT_LEADER
      then have beat: "MsgHeartbeat (rf_current_term ?c) i \<in> snd s" using ok by (simp add: raft_node_ok_def)
      have "raft_inv (?c\<lparr>rf_last_heartbeat := now\<rparr>)" using inv by (rule raft_inv_frame) simp_all
      with EKK_RAFT_LEADER beat my
      have "raft_move_ok ids n s i (?c\<lparr>rf_last_heartbeat := now\<rparr>) {MsgHeartbeat (rf_current_term ?c) i}"
        by (intro raft_move_quiet) (simp_all add: raft_node_ok_def)
      with EKK_RAFT_LEADER started part stay my show ?thesis
        by (auto simp: ekk_raft_tick_def raft_leader_tick_def raft_can_start_election_def Let_def
            split: option.splits)
    qed
  qed
qed

lemma raft_heartbeat_move:
  assumes ok: "raft_node_ok ids n (snd s) i (fst s i)" and beat: "MsgHeartbeat t l \<in> snd s" "l \<noteq> i"
  shows "raft_move_ok ids n s i (fst (ekk_raft_on_heartbeat (fst s i) l t now))
    (raft_sends (snd (ekk_raft_on_heartbeat (fst s i) l t now)))"
proof -
  let ?c = "fst s i" and ?c' = "fst (ekk_raft_on_heartbeat (fst s i) l t now)"
  have inv: "raft_inv ?c" and my: "rf_my_id ?c = i" "rf_total_voters ?c = n" using ok by (simp_all add: raft_node_ok_def)
  have sends: "raft_sends (snd (ekk_raft_on_heartbeat ?c l t now)) = {}"
    by (simp add: ekk_raft_on_heartbeat_def Let_def split_beta)
  show ?thesis
  proof (cases "t < rf_current_term ?c")
    case True
    then have "?c' = ?c" by (auto simp: ekk_raft_on_heartbeat_def raft_catch_up_def Let_def)
    with sends ok show ?thesis by (simp add: raft_move_quiet)
  next
    case False
    have c': "rf_state ?c' = EKK_RAFT_FOLLOWER" "rf_current_term ?c' = t" "rf_my_id ?c' = i"
      "rf_total_voters ?c' = n"
      using False my by (auto simp: ekk_raft_on_heartbeat_def raft_catch_up_def Let_def split_beta not_less)
    have node: "raft_node_ok ids n net i ?c'" for net
      using c' inv by (intro raft_node_ok_follower raft_inv_heartbeat) simp_all
    have "rf_voted_for ?c' = rf_voted_for ?c \<or> rf_voted_for ?c = i" if "t = rf_current_term ?c"
      using that inv my
      by (auto simp: ekk_raft_on_heartbeat_def raft_catch_up_def Let_def split_beta raft_inv_def)
    with False beat c' node sends show ?thesis by (auto simp: raft_move_ok_def not_less)
  qed
qed

lemma raft_vote_request_move:
  assumes ok: "raft_node_ok ids n (snd s) i (fst s i)" and k: "k \<in> ids" "k \<noteq> i" "k \<noteq> 0"
  shows "raft_move_ok ids n s i (fst (snd (ekk_raft_on_vote_request (fst s i) part k t now)))
    (raft_sends (snd (snd (ekk_raft_on_vote_request (fst s i) part k t now))))"
proof -
  let ?c = "fst s i" and ?r = "ekk_raft_on_vote_request (fst s i) part k t now"
  let ?c' = "fst (snd ?r)" and ?b = "fst (raft_catch_up (fst s i) t now)"
  have inv: "raft_inv ?c" and my: "rf_my_id ?c = i" "rf_total_voters ?c = n" using ok by (simp_all add: raft_node_ok_def)
  have b: "rf_my_id ?b = i" "rf_total_voters ?b = n" using my by (simp_all add: raft_catch_up_def)
  have sends: "raft_sends (snd (snd ?r)) = {MsgVoteResponse k (rf_current_term ?c') i (fst ?r)}"
    using b by (simp add: ekk_raft_on_vote_request_def Let_def split_beta)
  have inv': "raft_inv ?c'" by (rule raft_inv_vote_request [OF inv])
  have granted: "rf_voted_for ?c' = k" if "fst ?r"
    using that by (auto simp: ekk_raft_on_vote_request_def Let_def split_beta)
  show ?thesis
  proof (cases "rf_current_term ?c < t")
    case True
    then have "rf_state ?c' = EKK_RAFT_FOLLOWER" "rf_current_term ?c' = t" "rf_my_id ?c' = i" "rf_total_voters ?c' = n"
      using my by (auto simp: ekk_raft_on_vote_request_def raft_catch_up_def Let_def split_beta)
    moreover from this have "raft_node_ok ids n net i ?c'" for net
      using inv' by (intro raft_node_ok_follower)
    moreover have "rf_current_term ?c \<le> t" "t \<noteq> rf_current_term ?c" using True by auto
    ultimately show ?thesis unfolding raft_move_ok_def sends using k granted by simp
  next
    case False
    then have b: "?b = ?c" by (simp add: raft_catch_up_def)
    show ?thesis
    proof (cases "fst ?r")
      case True
      have voted: "rf_voted_for ?c = 0 \<or> rf_voted_for ?c = k"
        using True b by (auto simp: ekk_raft_on_vote_request_def Let_def split_beta raft_may_vote_def)
      have st: "rf_state ?c = EKK_RAFT_FOLLOWER"
      proof (rule ccontr)
        assume "rf_state ?c \<noteq> EKK_RAFT_FOLLOWER"
        with inv my have "rf_voted_for ?c = i" "i \<noteq> 0" by (auto simp: raft_inv_def)
        with voted k show False by auto
      qed
      have "rf_state ?c' = EKK_RAFT_FOLLOWER" "rf_current_term ?c' = rf_current_term ?c" "rf_my_id ?c' = i"
        "rf_total_voters ?c' = n"
        using True b my st by (auto simp: ekk_raft_on_vote_request_def Let_def split_beta)
      moreover from this have "raft_node_ok ids n net i ?c'" for net
        using inv' by (intro raft_node_ok_follower)
      ultimately show ?thesis unfolding raft_move_ok_def sends using granted [OF True] k voted by auto
    next
      case False
      then have "?c' = ?c" using b by (auto simp: ekk_raft_on_vote_request_def Let_def split_beta)
      with ok sends False k show ?thesis by (simp add: raft_move_quiet)
    qed
  qed
qed

lemma raft_vote_response_move:
  assumes ok: "raft_node_ok ids n (snd s) i (fst s i)" and msg: "MsgVoteResponse i t v g \<in> snd s" and v: "v \<in> ids"
  shows "raft_move_ok ids n s i (fst (ekk_raft_on_vote_response (fst s i) v t g now))
    (raft_sends (snd (ekk_raft_on_vote_response (fst s i) v t g now)))"
proof -
  let ?c = "fst s i" and ?r = "ekk_raft_on_vote_response (fst s i) v t g now"
  have inv: "raft_inv ?c" and my: "rf_my_id ?c = i" "rf_total_voters ?c = n" using ok by (simp_all add: raft_node_ok_def)
  show ?thesis
  proof (cases "rf_state ?c = EKK_RAFT_CANDIDATE \<and> t = rf_current_term ?c \<and> g \<and> \<not> rf_vote_granted ?c v")
    case False
    then have "?r = (?c, [])" by (auto simp: ekk_raft_on_vote_response_def)
    with ok show ?thesis by (simp add: raft_move_quiet)
  next
    case True
    define c where "c = ?c\<lparr>rf_vote_granted := (rf_vote_granted ?c)(v := True),
      rf_votes_received := rf_votes_received ?c + 1\<rparr>"
    have r: "?r = (if rf_votes_needed c \<le> rf_votes_received c then raft_become_leader c now else (c, []))"
      using True by (simp add: ekk_raft_on_vote_response_def Let_def c_def)
    have tally: "raft_tally c = insert v (raft_tally ?c)" by (auto simp: raft_tally_def c_def)
    have votes: "\<forall>u \<in> raft_tally c. u \<in> ids \<and> raft_voted (snd s) u (rf_current_term ?c) i"
      using ok True msg v by (auto simp: tally raft_node_ok_def) (auto simp: raft_voted_def)
    have inv': "raft_inv (fst ?r)" by (rule raft_inv_vote_response [OF inv])
    show ?thesis
    proof (cases "rf_votes_needed c \<le> rf_votes_received c")
      case lead: True
      have "raft_move_ok ids n s i (fst (raft_become_leader c now)) (raft_sends (snd (raft_become_leader c now)))"
        by (rule raft_move_lead) (use my votes inv' r lead in \<open>simp_all add: c_def\<close>)
      with r lead show ?thesis by simp
    next
      case False
      with r inv' have "raft_inv c" "?r = (c, [])" by simp_all
      moreover from this have "raft_node_ok ids n (snd s) i c"
        using ok True votes by (simp add: raft_node_ok_def c_def)
      ultimately show ?thesis by (simp add: raft_move_quiet c_def)
    qed
  qed
qed

lemma raft_cluster_inv_step:
  assumes "raft_cluster_step ids parts s s'" and ids: "0 \<notin> ids" "card ids \<le> unat n"
    and parts: "\<forall>part \<in> parts. raft_can_start_election part" and inv: "raft_cluster_inv ids n s"
  shows "raft_cluster_inv ids n s'"
proof -
  have node: "raft_node_ok ids n (snd s) i (fst s i)" if "i \<in> ids" for i
    using inv that by (simp add: raft_cluster_inv_def)
  have msg: "raft_msg_ok ids (fst s) m" if "m \<in> snd s" for m
    using inv that by (simp add: raft_cluster_inv_def)
  have "finite ids" by simp
  note move = raft_cluster_inv_move [OF inv ids(1) this ids(2)]
  from assms(1) show ?thesis
  proof (cases rule: raft_cluster_step.cases)
    case (cl_tick i part now nodes c outs net)
    from raft_node_ok_tick_move [of ids n s i now part] cl_tick node parts
    show ?thesis using move [of i c "raft_sends outs"] by simp
  next
    case (cl_heartbeat i t l net nodes now c outs)
    from raft_heartbeat_move [of ids n s i t l now] cl_heartbeat node
    show ?thesis using move [of i c "raft_sends outs"] by simp
  next
    case (cl_vote_request i part t k net nodes now g c outs)
    with msg [of "MsgRequestVote t k"] ids(1) have "k \<in> ids" "k \<noteq> 0" by auto
    with raft_vote_request_move [of ids n s i k part t now] cl_vote_request node
    show ?thesis using move [of i c "raft_sends outs"] by simp
  next
    case (cl_vote_response i t v g net nodes now c outs)
    with msg [of "MsgVoteResponse i t v g"] have "v \<in> ids" by auto
    with raft_vote_response_move [of ids n s i t v g now] cl_vote_response node
    show ?thesis using move [of i c "raft_sends outs"] by simp
  qed
qed

lemma raft_cluster_inv_reachable:
  assumes "raft_reachable ids parts n s" "0 \<notin> ids" "card ids \<le> unat n" "n \<noteq> 0"
    and "\<forall>part \<in> parts. raft_can_start_election part"
  shows "raft_cluster_inv ids n s"
  using assms(1)
proof (induction rule: raft_reachable.induct)
  case (cl_init nodes)
  have "raft_node_ok ids n {} i (nodes i)" if "i \<in> ids" for i
  proof -
    have "i \<noteq> 0" using that assms(2) by auto
    then show ?thesis
      unfolding cl_init [OF that] using assms(4)
      by (intro raft_node_ok_follower raft_inv_init) (simp_all add: ekk_raft_init_def Let_def)
  qed
  then show ?case by (simp add: raft_cluster_inv_def raft_votes_ok_def raft_voted_def)
next
  case (cl_step s s')
  then show ?case using raft_cluster_inv_step assms(2,3,5) by blast
qed

section \<open>A run of three modules\<close>

text \<open>
  Modules 1 and 2 time out together and both campaign in term 1; module 3 votes for module 1,
  which becomes leader.
\<close>

definition raft_boot :: "u8 \<Rightarrow> ekk_raft_ctx" where
  "raft_boot i = snd (ekk_raft_init raft_blank i 3 None)"

definition raft_awake :: "u8 \<Rightarrow> ekk_raft_ctx" where
  "raft_awake i = fst (ekk_raft_tick (raft_boot i) None 1000)"

definition raft_campaigning :: "u8 \<Rightarrow> ekk_raft_ctx" where
  "raft_campaigning i = fst (raft_become_candidate (raft_awake i) 400000)"

lemma raft_boot_sel [simp]:
  "rf_last_heartbeat (raft_boot i) = 0 \<or> i = 0" "i \<noteq> 0 \<Longrightarrow> rf_current_term (raft_boot i) = 0"
  "i \<noteq> 0 \<Longrightarrow> rf_voted_for (raft_boot i) = 0" "i \<noteq> 0 \<Longrightarrow> rf_my_id (raft_boot i) = i"
  "i \<noteq> 0 \<Longrightarrow> rf_state (raft_boot i) = EKK_RAFT_FOLLOWER" "i \<noteq> 0 \<Longrightarrow> \<not> rf_persist_term (raft_boot i)"
  "i \<noteq> 0 \<Longrightarrow> rf_votes_needed (raft_boot i) = 2"
  by (auto simp: raft_boot_def ekk_raft_init_def Let_def)

lemma raft_awake_sel:
  assumes "i \<noteq> 0"
  shows "ekk_raft_tick (raft_boot i) part 1000 = (raft_awake i, [])"
    "rf_last_heartbeat (raft_awake i) = 1000" "rf_current_term (raft_awake i) = 0"
    "rf_my_id (raft_awake i) = i" "rf_state (raft_awake i) = EKK_RAFT_FOLLOWER"
    "rf_votes_needed (raft_awake i) = 2" "rf_election_timeout (raft_awake i) < 300000"
  using assms raft_boot_sel(1) [of i]
  by (auto simp: raft_awake_def ekk_raft_tick_def raft_reset_timer)

lemma raft_campaigning_sel:
  assumes "i \<noteq> 0"
  shows "\<exists>outs. ekk_raft_tick (raft_awake i) None 400000 = (raft_campaigning i, outs)
      \<and> raft_sends outs = {MsgRequestVote 1 i}"
    "rf_current_term (raft_campaigning i) = 1" "rf_my_id (raft_campaigning i) = i"
    "rf_state (raft_campaigning i) = EKK_RAFT_CANDIDATE" "rf_votes_needed (raft_campaigning i) = 2"
    "rf_votes_received (raft_campaigning i) = 1" "rf_vote_granted (raft_campaigning i) = (\<lambda>v. v = i)"
proof -
  note awake = raft_awake_sel [OF assms]
  have "rf_election_timeout (raft_awake i) \<le> 399000"
    using awake(7) by (simp add: word_less_nat_alt word_le_nat_alt)
  with awake have "ekk_raft_tick (raft_awake i) None 400000 = raft_become_candidate (raft_awake i) 400000"
    by (simp add: ekk_raft_tick_def Let_def raft_can_start_election_def)
  with awake show "\<exists>outs. ekk_raft_tick (raft_awake i) None 400000 = (raft_campaigning i, outs)
      \<and> raft_sends outs = {MsgRequestVote 1 i}"
    by (intro exI [of _ "snd (raft_become_candidate (raft_awake i) 400000)"])
      (simp add: raft_campaigning_def)
qed (use raft_awake_sel [OF assms] in \<open>simp_all add: raft_campaigning_def\<close>)

definition raft_winner :: ekk_raft_ctx where
  "raft_winner = fst (ekk_raft_on_vote_response (raft_campaigning 1) 3 1 True 400500)"

definition raft_voter :: ekk_raft_ctx where
  "raft_voter = fst (snd (ekk_raft_on_vote_request (raft_boot 3) None 1 1 400200))"

text \<open>The cluster once module 1 leads term 1, with module 2 still a candidate of that term.\<close>

definition raft_elected :: raft_cluster where
  "raft_elected = (raft_boot(1 := raft_winner, 2 := raft_campaigning 2, 3 := raft_voter),
     {MsgRequestVote 1 1, MsgRequestVote 1 2, MsgVoteResponse 1 1 3 True, MsgHeartbeat 1 1})"

lemma raft_winner_eq:
  "\<exists>outs. ekk_raft_on_vote_response (raft_campaigning 1) 3 1 True 400500 = (raft_winner, outs)
     \<and> raft_sends outs = {MsgHeartbeat 1 1}"
  "rf_state raft_winner = EKK_RAFT_LEADER" "rf_current_term raft_winner = 1" "rf_my_id raft_winner = 1"
  "rf_last_heartbeat raft_winner = 400500"
  using raft_campaigning_sel [of 1]
  by (simp_all add: raft_winner_def ekk_raft_on_vote_response_def Let_def raft_become_leader_def)

lemma raft_voter_eq:
  "\<exists>outs. ekk_raft_on_vote_request (raft_boot 3) None 1 1 400200 = (True, raft_voter, outs)
     \<and> raft_sends outs = {MsgVoteResponse 1 1 3 True}"
  using raft_boot_sel [of 3]
  by (simp add: raft_voter_def ekk_raft_on_vote_request_def Let_def raft_catch_up_def raft_may_vote_def
      raft_become_follower_def)

lemma raft_elected_reachable:
  assumes "None \<in> parts"
  shows "raft_reachable {1, 2, 3} parts 3 raft_elected"
proof -
  let ?R = "raft_reachable {1, 2, 3} parts 3"
  note boot = cl_step [OF _ cl_tick [where now = 1000, OF _ assms]]
  note tick = cl_step [OF _ cl_tick [where now = 400000, OF _ assms]]
  obtain o1 where o1: "ekk_raft_tick (raft_awake 1) None 400000 = (raft_campaigning 1, o1)"
    "raft_sends o1 = {MsgRequestVote 1 1}" using raft_campaigning_sel(1) [of 1] by auto
  obtain o2 where o2: "ekk_raft_tick (raft_awake 2) None 400000 = (raft_campaigning 2, o2)"
    "raft_sends o2 = {MsgRequestVote 1 2}" using raft_campaigning_sel(1) [of 2] by auto
  obtain o3 where o3: "ekk_raft_on_vote_request (raft_boot 3) None 1 1 400200 = (True, raft_voter, o3)"
    "raft_sends o3 = {MsgVoteResponse 1 1 3 True}" using raft_voter_eq by auto
  obtain o4 where o4: "ekk_raft_on_vote_response (raft_campaigning 1) 3 1 True 400500 = (raft_winner, o4)"
    "raft_sends o4 = {MsgHeartbeat 1 1}" using raft_winner_eq(1) by auto
  let ?A = "raft_boot(1 := raft_awake 1)"
  let ?B = "?A(2 := raft_awake 2)"
  let ?C = "?B(1 := raft_campaigning 1)"
  let ?D = "?C(2 := raft_campaigning 2)"
  let ?E = "?D(3 := raft_voter)"
  have "?R (raft_boot, {})" by (rule cl_init) (simp add: raft_boot_def)
  then have "?R (?A, {} \<union> raft_sends [])" by (rule boot) (simp_all add: raft_awake_sel(1))
  then have "?R (?B, ({} \<union> raft_sends []) \<union> raft_sends [])" by (rule boot) (simp_all add: raft_awake_sel(1))
  then have "?R (?C, ({} \<union> raft_sends []) \<union> raft_sends [] \<union> raft_sends o1)"
    by (rule tick) (simp_all add: raft_awake_sel o1)
  then have "?R (?D, ({} \<union> raft_sends []) \<union> raft_sends [] \<union> raft_sends o1 \<union> raft_sends o2)"
    by (rule tick) (simp_all add: raft_awake_sel o2)
  then have "?R (?E, ({} \<union> raft_sends []) \<union> raft_sends [] \<union> raft_sends o1 \<union> raft_sends o2 \<union> raft_sends o3)"
    by (rule cl_step [OF _ cl_vote_request [where k = 1 and t = 1 and now = 400200 and g = True, OF _ assms]])
      (simp_all add: o1 o2 o3(1))
  then have "?R (?E(1 := raft_winner),
      ({} \<union> raft_sends []) \<union> raft_sends [] \<union> raft_sends o1 \<union> raft_sends o2 \<union> raft_sends o3 \<union> raft_sends o4)"
    by (rule cl_step [OF _ cl_vote_response [where v = 3 and t = 1 and g = True and now = 400500]])
      (simp_all add: o1 o2 o3 o4(1))
  moreover have "?E(1 := raft_winner) = raft_boot(1 := raft_winner, 2 := raft_campaigning 2, 3 := raft_voter)"
    by auto
  ultimately show ?thesis by (simp add: raft_elected_def o1 o2 o3 o4 insert_commute)
qed

text \<open>
  C1. Election safety of the cluster: let the modules \<open>ids\<close>, at most \<open>n\<close> of them, run this code from
  their initial states over a network that delays, reorders, duplicates and loses messages, with
  partition contexts (if any) that permit elections. Then in every reachable state, all
  heartbeats ever sent for a term come from one module, and two modules that are leaders of the
  same term are the same module.
\<close>

theorem raft_election_safety:
  assumes "0 \<notin> ids" "card ids \<le> unat n" "n \<noteq> 0" "\<forall>part \<in> parts. raft_can_start_election part"
    and "raft_reachable ids parts n s"
  shows "(\<forall>t l l'. MsgHeartbeat t l \<in> snd s \<and> MsgHeartbeat t l' \<in> snd s \<longrightarrow> l = l')
    \<and> (\<forall>i \<in> ids. \<forall>j \<in> ids. ekk_raft_is_leader (fst s i) \<and> ekk_raft_is_leader (fst s j)
         \<and> ekk_raft_get_term (fst s i) = ekk_raft_get_term (fst s j) \<longrightarrow> i = j)"
proof -
  have inv: "raft_cluster_inv ids n s" by (rule raft_cluster_inv_reachable [OF assms(5,1,2,3,4)])
  then have votes: "raft_votes_ok ids n s" by (simp add: raft_cluster_inv_def)
  have "finite ids" by simp
  note unique = raft_leader_unique [OF this assms(2) votes]
  have "MsgHeartbeat (rf_current_term (fst s i)) i \<in> snd s" if "i \<in> ids" "ekk_raft_is_leader (fst s i)" for i
    using inv that by (simp add: raft_cluster_inv_def raft_node_ok_def ekk_raft_is_leader_def)
  with unique show ?thesis by (metis ekk_raft_get_term_def)
qed

theorem raft_election_safety_witness:
  "{l. MsgHeartbeat 1 l \<in> snd raft_elected} = {1}"
proof -
  have "raft_reachable {1, 2, 3} {None} 3 raft_elected" by (rule raft_elected_reachable) simp
  then have "\<forall>t l l'. MsgHeartbeat t l \<in> snd raft_elected \<and> MsgHeartbeat t l' \<in> snd raft_elected \<longrightarrow> l = l'"
    by (intro raft_election_safety [of "{1, 2, 3}" 3 "{None}", THEN conjunct1])
      (simp_all add: raft_can_start_election_def)
  moreover have "MsgHeartbeat 1 1 \<in> snd raft_elected" by (simp add: raft_elected_def)
  ultimately show ?thesis by blast
qed

text \<open>The partition of a module that suspects one: it may not elect, but it may vote.\<close>

definition raft_suspecting :: ekk_partition_ctx where
  "raft_suspecting = partition_blank\<lparr>pt_state := EKK_PARTITION_SUSPECTING\<rparr>"

definition raft_stepped_down :: ekk_raft_ctx where
  "raft_stepped_down = fst (ekk_raft_tick raft_winner (Some raft_suspecting) 401000)"

definition raft_turncoat :: ekk_raft_ctx where
  "raft_turncoat = fst (snd (ekk_raft_on_vote_request raft_stepped_down (Some raft_suspecting) 2 1 401500))"

definition raft_usurper :: ekk_raft_ctx where
  "raft_usurper = fst (ekk_raft_on_vote_response (raft_campaigning 2) 1 1 True 402000)"

lemma raft_stepped_down_eq:
  "\<exists>outs. ekk_raft_tick raft_winner (Some raft_suspecting) 401000 = (raft_stepped_down, outs)
     \<and> raft_sends outs = {}"
  "rf_current_term raft_stepped_down = 1" "rf_voted_for raft_stepped_down = 0" "rf_my_id raft_stepped_down = 1"
  using raft_winner_eq raft_sends_transition(1) [of raft_winner 1 401000]
  by (simp_all add: prod_eq_iff raft_stepped_down_def ekk_raft_tick_def raft_leader_tick_def ekk_raft_step_down_def
      raft_suspecting_def ekk_partition_can_elect_def Let_def split_beta)

lemma raft_turncoat_eq:
  "\<exists>outs. ekk_raft_on_vote_request raft_stepped_down (Some raft_suspecting) 2 1 401500 = (True, raft_turncoat, outs)
     \<and> raft_sends outs = {MsgVoteResponse 2 1 1 True}"
  using raft_stepped_down_eq
  by (simp add: raft_turncoat_def ekk_raft_on_vote_request_def Let_def raft_catch_up_def raft_may_vote_def
      raft_suspecting_def ekk_partition_can_vote_def)

lemma raft_usurper_eq:
  "\<exists>outs. ekk_raft_on_vote_response (raft_campaigning 2) 1 1 True 402000 = (raft_usurper, outs)
     \<and> raft_sends outs = {MsgHeartbeat 1 2}"
  using raft_campaigning_sel [of 2]
  by (simp add: raft_usurper_def ekk_raft_on_vote_response_def Let_def raft_become_leader_def)

text \<open>
  C31. Without that condition election safety fails: when a leader steps down because its
  partition is SUSPECTING (it may not elect, but it may vote), \<open>raft_become_follower\<close> clears the
  vote it cast in the current term, so it votes again in that term. In a cluster of three this
  gives two modules that both lead term 1.
\<close>

theorem raft_step_down_breaks_safety:
  "\<exists>s. raft_reachable {1, 2, 3} {None, Some raft_suspecting} 3 s
     \<and> MsgHeartbeat 1 1 \<in> snd s \<and> MsgHeartbeat 1 2 \<in> snd s"
proof -
  let ?P = "{None, Some raft_suspecting}"
  let ?R = "raft_reachable {1, 2, 3} ?P 3"
  obtain o1 where o1: "ekk_raft_tick raft_winner (Some raft_suspecting) 401000 = (raft_stepped_down, o1)"
    using raft_stepped_down_eq(1) by auto
  obtain o2 where o2: "ekk_raft_on_vote_request raft_stepped_down (Some raft_suspecting) 2 1 401500
      = (True, raft_turncoat, o2)" "raft_sends o2 = {MsgVoteResponse 2 1 1 True}"
    using raft_turncoat_eq by auto
  obtain o3 where o3: "ekk_raft_on_vote_response (raft_campaigning 2) 1 1 True 402000 = (raft_usurper, o3)"
    "raft_sends o3 = {MsgHeartbeat 1 2}" using raft_usurper_eq by auto
  let ?nodes = "raft_boot(1 := raft_winner, 2 := raft_campaigning 2, 3 := raft_voter)"
  let ?net = "{MsgRequestVote 1 1, MsgRequestVote 1 2, MsgVoteResponse 1 1 3 True, MsgHeartbeat 1 1}"
  have "?R (?nodes, ?net)"
    using raft_elected_reachable [of ?P] by (simp add: raft_elected_def)
  then have "?R (?nodes(1 := raft_stepped_down), ?net \<union> raft_sends o1)"
    by (rule cl_step [OF _ cl_tick [where part = "Some raft_suspecting" and now = 401000]])
      (simp_all add: o1 raft_winner_eq)
  then have "?R (?nodes(1 := raft_stepped_down, 1 := raft_turncoat), ?net \<union> raft_sends o1 \<union> raft_sends o2)"
    by (rule cl_step [OF _ cl_vote_request [where part = "Some raft_suspecting" and k = 2 and t = 1
          and now = 401500 and g = True]]) (simp_all add: o2)
  then have "?R (?nodes(1 := raft_stepped_down, 1 := raft_turncoat, 2 := raft_usurper),
      ?net \<union> raft_sends o1 \<union> raft_sends o2 \<union> raft_sends o3)"
    by (rule cl_step [OF _ cl_vote_response [where v = 1 and t = 1 and g = True and now = 402000]])
      (simp_all add: o2 o3(1))
  then show ?thesis by (intro exI conjI, assumption) (simp_all add: o3)
qed

end
