(* ===== verification/Ekk_Heartbeat.thy ===== *)
theory Ekk_Heartbeat
  imports Ekk_Interfaces
begin

text \<open>
  Heartbeat and liveness detection (\<open>src/ekk_heartbeat.c\<close>, \<open>include/ekk/ekk_heartbeat.h\<close>).
  The callbacks are outputs: an operation returns the calls it makes, in order, and a callback
  field records whether a callback is registered (not NULL). Reading the clock and the result
  of a broadcast are inputs (\<open>hal_now\<close>, \<open>sent\<close>). \<open>neighbor_count\<close> never exceeds 256, so it is
  a \<^typ>\<open>nat\<close>. A zero period divides by zero in C; the theorems about the tick exclude it.
\<close>

section \<open>Model\<close>

record ekk_heartbeat_config =
  hc_period :: u64
  hc_timeout_count :: u32
  hc_auto_broadcast :: bool
  hc_track_latency :: bool

record ekk_heartbeat_neighbor =
  hn_id :: u8
  hn_health :: ekk_health_state
  hn_last_seen :: u64
  hn_missed_count :: u8
  hn_sequence :: u8
  hn_avg_latency :: u64

record ekk_heartbeat =
  hb_my_id :: u8
  hb_neighbors :: "ekk_heartbeat_neighbor list"
  hb_neighbor_count :: nat
  hb_last_send :: u64
  hb_send_sequence :: u8
  hb_config :: ekk_heartbeat_config
  hb_on_neighbor_alive :: bool
  hb_on_neighbor_suspect :: bool
  hb_on_neighbor_dead :: bool

record ekk_heartbeat_msg =
  hm_sender_id :: u8
  hm_sequence :: u8
  hm_state :: ekk_module_state
  hm_neighbor_count :: u8
  hm_load_percent :: u8
  hm_thermal_percent :: u8
  hm_flags :: u8

datatype hb_callback = NeighborAlive u8 | NeighborSuspect u8 | NeighborDead u8

definition hb_find_neighbor_index :: "ekk_heartbeat \<Rightarrow> u8 \<Rightarrow> nat option" where
  "hb_find_neighbor_index hb k = find_key hn_id k (hb_neighbors hb) (hb_neighbor_count hb)"

definition set_neighbor_health ::
  "ekk_heartbeat \<Rightarrow> ekk_heartbeat_neighbor \<Rightarrow> ekk_health_state \<Rightarrow> ekk_heartbeat_neighbor \<times> hb_callback list"
where
  "set_neighbor_health hb neighbor new_state =
     (if hn_health neighbor = new_state then (neighbor, [])
      else
        (neighbor\<lparr>hn_health := new_state\<rparr>,
         case new_state of
           EKK_HEALTH_ALIVE \<Rightarrow> if hb_on_neighbor_alive hb then [NeighborAlive (hn_id neighbor)] else []
         | EKK_HEALTH_SUSPECT \<Rightarrow> if hb_on_neighbor_suspect hb then [NeighborSuspect (hn_id neighbor)] else []
         | EKK_HEALTH_DEAD \<Rightarrow> if hb_on_neighbor_dead hb then [NeighborDead (hn_id neighbor)] else []
         | _ \<Rightarrow> []))"

definition hb_blank_neighbor :: ekk_heartbeat_neighbor where
  "hb_blank_neighbor = \<lparr>hn_id = 0, hn_health = EKK_HEALTH_UNKNOWN, hn_last_seen = 0,
     hn_missed_count = 0, hn_sequence = 0, hn_avg_latency = 0\<rparr>"

definition heartbeat_default_config :: ekk_heartbeat_config where
  "heartbeat_default_config = \<lparr>hc_period = EKK_HEARTBEAT_PERIOD_US,
     hc_timeout_count = EKK_HEARTBEAT_TIMEOUT_COUNT, hc_auto_broadcast = True, hc_track_latency = False\<rparr>"

text \<open>Initialisation clears the caller's object; on an invalid id it is left alone.\<close>

definition ekk_heartbeat_init ::
  "ekk_heartbeat \<Rightarrow> u8 \<Rightarrow> ekk_heartbeat_config option \<Rightarrow> ekk_error \<times> ekk_heartbeat"
where
  "ekk_heartbeat_init hb my_id config =
     (if my_id = EKK_INVALID_MODULE_ID then (EKK_ERR_INVALID_ARG, hb)
      else (EKK_OK,
        \<lparr>hb_my_id = my_id, hb_neighbors = replicate EKK_MAX_MODULES hb_blank_neighbor,
         hb_neighbor_count = 0, hb_last_send = 0, hb_send_sequence = 0,
         hb_config = (case config of Some c \<Rightarrow> c | None \<Rightarrow> heartbeat_default_config),
         hb_on_neighbor_alive = False, hb_on_neighbor_suspect = False, hb_on_neighbor_dead = False\<rparr>))"

definition ekk_heartbeat_add_neighbor :: "ekk_heartbeat \<Rightarrow> u8 \<Rightarrow> ekk_error \<times> ekk_heartbeat" where
  "ekk_heartbeat_add_neighbor hb neighbor_id =
     (if neighbor_id = EKK_INVALID_MODULE_ID then (EKK_ERR_INVALID_ARG, hb)
      else if hb_find_neighbor_index hb neighbor_id \<noteq> None then (EKK_ERR_ALREADY_EXISTS, hb)
      else if hb_neighbor_count hb \<ge> EKK_MAX_MODULES then (EKK_ERR_NO_MEMORY, hb)
      else (EKK_OK,
        hb\<lparr>hb_neighbors := (hb_neighbors hb)[hb_neighbor_count hb := hb_blank_neighbor\<lparr>hn_id := neighbor_id\<rparr>],
           hb_neighbor_count := Suc (hb_neighbor_count hb)\<rparr>))"

definition ekk_heartbeat_remove_neighbor :: "ekk_heartbeat \<Rightarrow> u8 \<Rightarrow> ekk_error \<times> ekk_heartbeat" where
  "ekk_heartbeat_remove_neighbor hb neighbor_id =
     (if neighbor_id = EKK_INVALID_MODULE_ID then (EKK_ERR_INVALID_ARG, hb)
      else (case hb_find_neighbor_index hb neighbor_id of
          None \<Rightarrow> (EKK_ERR_NOT_FOUND, hb)
        | Some idx \<Rightarrow> (EKK_OK,
            hb\<lparr>hb_neighbors := shift_down (hb_neighbors hb) idx (hb_neighbor_count hb),
               hb_neighbor_count := hb_neighbor_count hb - 1\<rparr>)))"

definition hb_update_latency :: "ekk_heartbeat \<Rightarrow> ekk_heartbeat_neighbor \<Rightarrow> u64 \<Rightarrow> ekk_heartbeat_neighbor" where
  "hb_update_latency hb neighbor now =
     (if hc_track_latency (hb_config hb) \<and> hn_last_seen neighbor > 0
      then (let rtt = now - hn_last_seen neighbor
            in neighbor\<lparr>hn_avg_latency := (hn_avg_latency neighbor * 7 + rtt) div 8\<rparr>)
      else neighbor)"

definition ekk_heartbeat_received ::
  "ekk_heartbeat \<Rightarrow> u8 \<Rightarrow> u8 \<Rightarrow> u64 \<Rightarrow> ekk_error \<times> ekk_heartbeat \<times> hb_callback list"
where
  "ekk_heartbeat_received hb sender_id sequence now =
     (if sender_id = EKK_INVALID_MODULE_ID then (EKK_ERR_INVALID_ARG, hb, [])
      else (case hb_find_neighbor_index hb sender_id of
          None \<Rightarrow> (EKK_OK, hb, [])
        | Some idx \<Rightarrow>
            (let neighbor = hb_update_latency hb (hb_neighbors hb ! idx) now;
                 neighbor = neighbor\<lparr>hn_last_seen := now, hn_sequence := sequence, hn_missed_count := 0\<rparr>;
                 (neighbor, calls) = set_neighbor_health hb neighbor EKK_HEALTH_ALIVE
             in (EKK_OK, hb\<lparr>hb_neighbors := (hb_neighbors hb)[idx := neighbor]\<rparr>, calls))))"

definition ekk_heartbeat_send ::
  "ekk_heartbeat \<Rightarrow> ekk_error \<Rightarrow> u64 \<Rightarrow> ekk_error \<times> ekk_heartbeat \<times> ekk_heartbeat_msg"
where
  "ekk_heartbeat_send hb sent hal_now =
     (let msg = \<lparr>hm_sender_id = hb_my_id hb, hm_sequence = hb_send_sequence hb,
            hm_state = EKK_MODULE_ACTIVE, hm_neighbor_count = of_nat (hb_neighbor_count hb),
            hm_load_percent = 0, hm_thermal_percent = 0, hm_flags = 0\<rparr>;
          hb = hb\<lparr>hb_send_sequence := hb_send_sequence hb + 1\<rparr>;
          hb = (if sent = EKK_OK then hb\<lparr>hb_last_send := hal_now\<rparr> else hb)
      in (sent, hb, msg))"

text \<open>The body of the loop of \<open>ekk_heartbeat_tick\<close>; one output per state change counted.\<close>

definition hb_missed :: "ekk_heartbeat \<Rightarrow> u64 \<Rightarrow> ekk_heartbeat_neighbor \<Rightarrow> u32" where
  "hb_missed hb now neighbor = ucast ((now - hn_last_seen neighbor) div hc_period (hb_config hb))"

definition hb_check_neighbor ::
  "ekk_heartbeat \<Rightarrow> u64 \<Rightarrow> ekk_heartbeat_neighbor \<Rightarrow> ekk_heartbeat_neighbor \<times> hb_callback list list"
where
  "hb_check_neighbor hb now neighbor =
     (if hn_health neighbor = EKK_HEALTH_UNKNOWN then (neighbor, [])
      else
        (let missed = hb_missed hb now neighbor;
             neighbor = (if missed > ucast (hn_missed_count neighbor)
                         then neighbor\<lparr>hn_missed_count := ucast (min missed 255)\<rparr> else neighbor);
             old_state = hn_health neighbor;
             new_state = (if hn_missed_count neighbor = 0 then EKK_HEALTH_ALIVE
                          else if ucast (hn_missed_count neighbor) < hc_timeout_count (hb_config hb)
                          then EKK_HEALTH_SUSPECT
                          else EKK_HEALTH_DEAD)
         in if new_state \<noteq> old_state
            then (let (neighbor, calls) = set_neighbor_health hb neighbor new_state in (neighbor, [calls]))
            else (neighbor, [])))"

definition ekk_heartbeat_tick ::
  "ekk_heartbeat \<Rightarrow> u64 \<Rightarrow> ekk_error \<Rightarrow> u64 \<Rightarrow>
   nat \<times> ekk_heartbeat \<times> hb_callback list \<times> ekk_heartbeat_msg option"
where
  "ekk_heartbeat_tick hb now sent hal_now =
     (let (neighbors, changes) = array_loop (hb_check_neighbor hb now) (hb_neighbor_count hb) (hb_neighbors hb);
          hb = hb\<lparr>hb_neighbors := neighbors\<rparr>;
          state_changes = length changes
      in if hc_auto_broadcast (hb_config hb) \<and> now - hb_last_send hb \<ge> hc_period (hb_config hb)
         then (let (_, hb, msg) = ekk_heartbeat_send hb sent hal_now
               in (state_changes, hb, concat changes, Some msg))
         else (state_changes, hb, concat changes, None))"

definition ekk_heartbeat_get_health :: "ekk_heartbeat \<Rightarrow> u8 \<Rightarrow> ekk_health_state" where
  "ekk_heartbeat_get_health hb neighbor_id =
     (if neighbor_id = EKK_INVALID_MODULE_ID then EKK_HEALTH_UNKNOWN
      else (case hb_find_neighbor_index hb neighbor_id of
          None \<Rightarrow> EKK_HEALTH_UNKNOWN
        | Some idx \<Rightarrow> hn_health (hb_neighbors hb ! idx)))"

definition ekk_heartbeat_time_since :: "ekk_heartbeat \<Rightarrow> u8 \<Rightarrow> u64 \<Rightarrow> u64" where
  "ekk_heartbeat_time_since hb neighbor_id hal_now =
     (if neighbor_id = EKK_INVALID_MODULE_ID then - 1
      else (case hb_find_neighbor_index hb neighbor_id of
          None \<Rightarrow> - 1
        | Some idx \<Rightarrow>
            if hn_last_seen (hb_neighbors hb ! idx) = 0 then - 1
            else hal_now - hn_last_seen (hb_neighbors hb ! idx)))"

definition ekk_heartbeat_set_callbacks :: "ekk_heartbeat \<Rightarrow> bool \<Rightarrow> bool \<Rightarrow> bool \<Rightarrow> ekk_heartbeat" where
  "ekk_heartbeat_set_callbacks hb on_alive on_suspect on_dead =
     hb\<lparr>hb_on_neighbor_alive := on_alive, hb_on_neighbor_suspect := on_suspect, hb_on_neighbor_dead := on_dead\<rparr>"

section \<open>The table of neighbors\<close>

definition hb_live :: "ekk_heartbeat \<Rightarrow> ekk_heartbeat_neighbor list" where
  "hb_live hb = take (hb_neighbor_count hb) (hb_neighbors hb)"

definition hb_keys :: "ekk_heartbeat \<Rightarrow> u8 list" where
  "hb_keys hb = map hn_id (hb_live hb)"

definition hb_inv :: "ekk_heartbeat \<Rightarrow> bool" where
  "hb_inv hb \<longleftrightarrow> length (hb_neighbors hb) = EKK_MAX_MODULES \<and> hb_neighbor_count hb \<le> EKK_MAX_MODULES
     \<and> distinct (hb_keys hb) \<and> EKK_INVALID_MODULE_ID \<notin> set (hb_keys hb)"

lemma hb_invD:
  assumes "hb_inv hb"
  shows "hb_neighbor_count hb \<le> length (hb_neighbors hb)" "length (hb_neighbors hb) = 256"
    "hb_neighbor_count hb \<le> 256" "distinct (hb_keys hb)" "EKK_INVALID_MODULE_ID \<notin> set (hb_keys hb)"
  using assms by (simp_all add: hb_inv_def)

lemma hb_find_None_iff:
  "hb_inv hb \<Longrightarrow> hb_find_neighbor_index hb k = None \<longleftrightarrow> k \<notin> set (hb_keys hb)"
  by (simp only: hb_find_neighbor_index_def find_key_None_iff hb_invD hb_keys_def hb_live_def)

lemma hb_find_Some_iff:
  "hb_inv hb \<Longrightarrow> hb_find_neighbor_index hb k = Some i \<longleftrightarrow> i < hb_neighbor_count hb \<and> hn_id (hb_neighbors hb ! i) = k"
  unfolding hb_find_neighbor_index_def
  by (rule find_key_Some_iff) (use hb_invD [of hb] in \<open>simp_all add: hb_keys_def hb_live_def\<close>)

lemma length_hb_keys: "hb_inv hb \<Longrightarrow> length (hb_keys hb) = hb_neighbor_count hb"
  using hb_invD [of hb] by (simp add: hb_keys_def hb_live_def)

interpretation hb_table: neighbor_table hb_keys hb_inv ekk_heartbeat_add_neighbor ekk_heartbeat_remove_neighbor EKK_MAX_MODULES
proof unfold_locales
  fix hb k assume inv: "hb_inv hb" and k: "k \<noteq> EKK_INVALID_MODULE_ID"
  show "ekk_heartbeat_add_neighbor hb k = (EKK_ERR_ALREADY_EXISTS, hb)" if "k \<in> set (hb_keys hb)"
    using that k hb_find_None_iff [OF inv] by (simp add: ekk_heartbeat_add_neighbor_def)
  show "ekk_heartbeat_add_neighbor hb k = (EKK_ERR_NO_MEMORY, hb)"
    if "k \<notin> set (hb_keys hb)" "length (hb_keys hb) = EKK_MAX_MODULES"
    using that k hb_find_None_iff [OF inv] length_hb_keys [OF inv] by (simp add: ekk_heartbeat_add_neighbor_def)
  show "fst (ekk_heartbeat_add_neighbor hb k) = EKK_OK \<and> hb_inv (snd (ekk_heartbeat_add_neighbor hb k))
      \<and> hb_keys (snd (ekk_heartbeat_add_neighbor hb k)) = hb_keys hb @ [k]"
    if "k \<notin> set (hb_keys hb)" "length (hb_keys hb) < EKK_MAX_MODULES"
  proof -
    from that length_hb_keys [OF inv] have lt: "hb_neighbor_count hb < 256" by simp
    let ?hb = "hb\<lparr>hb_neighbors := (hb_neighbors hb)[hb_neighbor_count hb := hb_blank_neighbor\<lparr>hn_id := k\<rparr>],
           hb_neighbor_count := Suc (hb_neighbor_count hb)\<rparr>"
    have keys: "hb_keys ?hb = hb_keys hb @ [k]"
      using lt hb_invD [OF inv] by (simp add: hb_keys_def hb_live_def take_snoc_update)
    with that k lt inv have "hb_inv ?hb" by (simp add: hb_inv_def)
    with keys that k lt hb_find_None_iff [OF inv] show ?thesis
      by (simp add: ekk_heartbeat_add_neighbor_def)
  qed
  show "ekk_heartbeat_remove_neighbor hb k = (EKK_ERR_NOT_FOUND, hb)" if "k \<notin> set (hb_keys hb)"
    using that k hb_find_None_iff [OF inv, of k] by (simp add: ekk_heartbeat_remove_neighbor_def)
  show "fst (ekk_heartbeat_remove_neighbor hb k) = EKK_OK \<and> hb_inv (snd (ekk_heartbeat_remove_neighbor hb k))
      \<and> hb_keys (snd (ekk_heartbeat_remove_neighbor hb k)) = remove1 k (hb_keys hb)"
    if "k \<in> set (hb_keys hb)"
  proof -
    from that hb_find_None_iff [OF inv, of k] obtain i where i: "hb_find_neighbor_index hb k = Some i" by blast
    let ?hb = "hb\<lparr>hb_neighbors := shift_down (hb_neighbors hb) i (hb_neighbor_count hb),
               hb_neighbor_count := hb_neighbor_count hb - 1\<rparr>"
    have keys: "hb_keys ?hb = remove1 k (hb_keys hb)"
      using map_shift_down_key [OF hb_invD(1) [OF inv], of hn_id k i] i
      by (simp add: hb_keys_def hb_live_def hb_find_neighbor_index_def)
    have "set (remove1 k (hb_keys hb)) \<subseteq> set (hb_keys hb)" by (rule set_remove1_subset)
    with inv keys have "hb_inv ?hb" by (auto simp: hb_inv_def)
    with keys k i show ?thesis by (simp add: ekk_heartbeat_remove_neighbor_def)
  qed
qed (simp_all add: hb_inv_def hb_keys_def hb_live_def)

text \<open>The messages and the clock leave the table's keys alone.\<close>

lemma set_neighbor_health_fields [simp]:
  "hn_id (fst (set_neighbor_health hb n st)) = hn_id n"
  "hn_last_seen (fst (set_neighbor_health hb n st)) = hn_last_seen n"
  "hn_missed_count (fst (set_neighbor_health hb n st)) = hn_missed_count n"
  "hn_health (fst (set_neighbor_health hb n st)) = st"
  by (simp_all add: set_neighbor_health_def)

lemma hb_update_latency_fields [simp]:
  "hn_id (hb_update_latency hb n now) = hn_id n" "hn_health (hb_update_latency hb n now) = hn_health n"
  by (simp_all add: hb_update_latency_def Let_def)

lemma hb_check_neighbor_fields [simp]:
  "hn_id (fst (hb_check_neighbor hb now n)) = hn_id n"
  "hn_last_seen (fst (hb_check_neighbor hb now n)) = hn_last_seen n"
  by (simp_all add: hb_check_neighbor_def Let_def split: prod.splits)
    (auto simp: set_neighbor_health_def split: if_splits)

lemma hb_inv_frame:
  "length (hb_neighbors hb') = length (hb_neighbors hb) \<Longrightarrow> hb_neighbor_count hb' = hb_neighbor_count hb \<Longrightarrow>
   hb_keys hb' = hb_keys hb \<Longrightarrow> hb_inv hb \<Longrightarrow> hb_inv hb'"
  by (simp add: hb_inv_def)

lemma hb_received_tracked:
  assumes "hb_inv hb" "k \<in> set (hb_keys hb)"
  obtains i where "hb_find_neighbor_index hb k = Some i" "i < hb_neighbor_count hb"
    "i < length (hb_neighbors hb)" "hn_id (hb_neighbors hb ! i) = k"
proof -
  from assms hb_find_None_iff [OF assms(1), of k] obtain i where i: "hb_find_neighbor_index hb k = Some i" by blast
  with hb_find_Some_iff [OF assms(1)] hb_invD [OF assms(1)] that show ?thesis by auto
qed

lemma hb_received_result:
  assumes "hb_inv hb" "k \<in> set (hb_keys hb)"
  shows "\<exists>n. n \<in> set (hb_live (fst (snd (ekk_heartbeat_received hb k sq now)))) \<and> hn_id n = k
           \<and> hn_health n = EKK_HEALTH_ALIVE \<and> hn_last_seen n = now \<and> hn_missed_count n = 0"
    and "hb_inv (fst (snd (ekk_heartbeat_received hb k sq now)))"
    and "hb_keys (fst (snd (ekk_heartbeat_received hb k sq now))) = hb_keys hb"
proof -
  obtain i where i: "hb_find_neighbor_index hb k = Some i" "i < hb_neighbor_count hb"
    "i < length (hb_neighbors hb)" "hn_id (hb_neighbors hb ! i) = k"
    using hb_received_tracked [OF assms] by blast
  have "k \<noteq> EKK_INVALID_MODULE_ID" using assms hb_invD(5) by metis
  let ?n = "fst (set_neighbor_health hb ((hb_update_latency hb (hb_neighbors hb ! i) now)
    \<lparr>hn_last_seen := now, hn_sequence := sq, hn_missed_count := 0\<rparr>) EKK_HEALTH_ALIVE)"
  have eq: "fst (snd (ekk_heartbeat_received hb k sq now)) = hb\<lparr>hb_neighbors := (hb_neighbors hb)[i := ?n]\<rparr>"
    using i \<open>k \<noteq> EKK_INVALID_MODULE_ID\<close> by (simp add: ekk_heartbeat_received_def Let_def case_prod_unfold)
  have live: "hb_live (hb\<lparr>hb_neighbors := (hb_neighbors hb)[i := ?n]\<rparr>) = (hb_live hb)[i := ?n]"
    by (simp add: hb_live_def take_update_swap)
  have len: "i < length (hb_live hb)" using i hb_invD [OF assms(1)] by (simp add: hb_live_def)
  show keys: "hb_keys (fst (snd (ekk_heartbeat_received hb k sq now))) = hb_keys hb"
    unfolding eq hb_keys_def live using len i by (intro map_update_same_key) (simp_all add: hb_live_def)
  show "hb_inv (fst (snd (ekk_heartbeat_received hb k sq now)))"
    by (rule hb_inv_frame [OF _ _ keys assms(1)]) (simp_all add: eq)
  have "?n \<in> set ((hb_live hb)[i := ?n])" using len by (rule set_update_memI)
  then show "\<exists>n. n \<in> set (hb_live (fst (snd (ekk_heartbeat_received hb k sq now)))) \<and> hn_id n = k
           \<and> hn_health n = EKK_HEALTH_ALIVE \<and> hn_last_seen n = now \<and> hn_missed_count n = 0"
    unfolding eq live using i by (intro exI [of _ ?n]) simp
qed

lemma hb_received_unknown:
  assumes "hb_inv hb" "k \<notin> set (hb_keys hb)" "k \<noteq> EKK_INVALID_MODULE_ID"
  shows "ekk_heartbeat_received hb k sq now = (EKK_OK, hb, [])"
  using assms hb_find_None_iff [OF assms(1), of k] by (simp add: ekk_heartbeat_received_def)

section \<open>The periodic check\<close>

definition hb_tick_state :: "ekk_heartbeat \<Rightarrow> u64 \<Rightarrow> ekk_error \<Rightarrow> u64 \<Rightarrow> ekk_heartbeat" where
  "hb_tick_state hb now sent hal_now = fst (snd (ekk_heartbeat_tick hb now sent hal_now))"

lemma hb_tick_live:
  assumes "hb_inv hb"
  shows "hb_live (hb_tick_state hb now sent t) = map (fst \<circ> hb_check_neighbor hb now) (hb_live hb)"
    and "hb_neighbor_count (hb_tick_state hb now sent t) = hb_neighbor_count hb"
    and "length (hb_neighbors (hb_tick_state hb now sent t)) = length (hb_neighbors hb)"
    and "fst (ekk_heartbeat_tick hb now sent t) = length (concat (map (snd \<circ> hb_check_neighbor hb now) (hb_live hb)))"
    and "fst (snd (snd (ekk_heartbeat_tick hb now sent t)))
       = concat (concat (map (snd \<circ> hb_check_neighbor hb now) (hb_live hb)))"
  using hb_invD [OF assms]
  by (simp_all add: hb_tick_state_def ekk_heartbeat_tick_def ekk_heartbeat_send_def hb_live_def
      array_loop_conv Let_def)

lemma hb_tick_keys:
  assumes "hb_inv hb"
  shows "hb_keys (hb_tick_state hb now sent t) = hb_keys hb" and "hb_inv (hb_tick_state hb now sent t)"
proof -
  show keys: "hb_keys (hb_tick_state hb now sent t) = hb_keys hb"
    by (simp add: hb_keys_def hb_tick_live [OF assms] comp_def)
  show "hb_inv (hb_tick_state hb now sent t)"
    by (rule hb_inv_frame [OF _ _ keys assms]) (simp_all add: hb_tick_live [OF assms])
qed

text \<open>What the health of a neighbor should be after so many missed beats.\<close>

definition classify_health :: "u32 \<Rightarrow> nat \<Rightarrow> ekk_health_state" where
  "classify_health timeout missed =
     (if missed = 0 then EKK_HEALTH_ALIVE
      else if missed < unat timeout then EKK_HEALTH_SUSPECT
      else EKK_HEALTH_DEAD)"

definition beats_missed :: "ekk_heartbeat \<Rightarrow> u64 \<Rightarrow> ekk_heartbeat_neighbor \<Rightarrow> nat" where
  "beats_missed hb now n = unat (now - hn_last_seen n) div unat (hc_period (hb_config hb))"

lemma unat_ucast_min_255:
  fixes w :: u32
  shows "unat (ucast (min w 255) :: u8) = min (unat w) 255"
proof -
  have "unat (min w 255) = min (unat w) 255"
    by (simp add: min_def word_le_nat_alt)
  moreover have "unat (ucast (min w 255) :: u8) = unat (min w 255) mod 256"
    by (simp add: unsigned_ucast_eq take_bit_eq_mod)
  ultimately show ?thesis by (simp add: min_def)
qed

lemma unat_ucast_8_32 [simp]: "unat (ucast (b :: u8) :: u32) = unat b"
  using unsigned_less [of b, where ?'a = nat] by (simp add: unsigned_ucast_eq take_bit_eq_mod)

lemma hb_check_classifies:
  assumes "hn_health n \<noteq> EKK_HEALTH_UNKNOWN" "beats_missed hb now n < 2 ^ 32"
  defines "m \<equiv> max (unat (hn_missed_count n)) (min (beats_missed hb now n) 255)"
  shows "unat (hn_missed_count (fst (hb_check_neighbor hb now n))) = m"
    and "hn_health (fst (hb_check_neighbor hb now n)) = classify_health (hc_timeout_count (hb_config hb)) m"
    and "length (snd (hb_check_neighbor hb now n)) = (if hn_health (fst (hb_check_neighbor hb now n)) = hn_health n then 0 else 1)"
proof -
  have missed: "unat (hb_missed hb now n) = beats_missed hb now n"
    using assms(2) by (simp add: hb_missed_def beats_missed_def unsigned_ucast_eq take_bit_eq_mod unat_div)
  have c: "unat (hn_missed_count n) < 256" using unsigned_less [of "hn_missed_count n", where ?'a = nat] by simp
  define n' where "n' = (if hb_missed hb now n > ucast (hn_missed_count n)
     then n\<lparr>hn_missed_count := ucast (min (hb_missed hb now n) 255)\<rparr> else n)"
  have n': "unat (hn_missed_count n') = m" "hn_health n' = hn_health n"
    using c by (auto simp: n'_def m_def missed word_less_nat_alt unat_ucast_min_255)
  define st where "st = classify_health (hc_timeout_count (hb_config hb)) m"
  have st: "(if hn_missed_count n' = 0 then EKK_HEALTH_ALIVE
      else if ucast (hn_missed_count n') < hc_timeout_count (hb_config hb) then EKK_HEALTH_SUSPECT
      else EKK_HEALTH_DEAD) = st"
    using n'(1) by (auto simp: st_def classify_health_def word_less_nat_alt unat_gt_0)
  have eq: "hb_check_neighbor hb now n = (if st \<noteq> hn_health n
      then (fst (set_neighbor_health hb n' st), [snd (set_neighbor_health hb n' st)]) else (n', []))"
    unfolding hb_check_neighbor_def Let_def n'_def [symmetric] st
    using assms(1) by (simp add: n'(2) case_prod_unfold)
  show "unat (hn_missed_count (fst (hb_check_neighbor hb now n))) = m"
    by (simp add: eq n')
  show "hn_health (fst (hb_check_neighbor hb now n)) = classify_health (hc_timeout_count (hb_config hb)) m"
    by (simp add: eq n' flip: st_def)
  show "length (snd (hb_check_neighbor hb now n)) = (if hn_health (fst (hb_check_neighbor hb now n)) = hn_health n then 0 else 1)"
    by (simp add: eq n')
qed

section \<open>Properties\<close>

text \<open>A table used by the witnesses: one neighbor, last heard at 1000.\<close>

definition hb_example :: ekk_heartbeat where
  "hb_example = \<lparr>hb_my_id = 1,
     hb_neighbors = \<lparr>hn_id = 7, hn_health = EKK_HEALTH_ALIVE, hn_last_seen = 1000, hn_missed_count = 0,
       hn_sequence = 3, hn_avg_latency = 0\<rparr> # replicate 255 hb_blank_neighbor,
     hb_neighbor_count = 1, hb_last_send = 0, hb_send_sequence = 0, hb_config = heartbeat_default_config,
     hb_on_neighbor_alive = True, hb_on_neighbor_suspect = True, hb_on_neighbor_dead = True\<rparr>"

lemma hb_example_inv: "hb_inv hb_example" and hb_example_keys: "hb_keys hb_example = [7]"
  by (simp_all add: hb_inv_def hb_keys_def hb_live_def hb_example_def)

lemma hb_example_sel:
  "hb_neighbor_count hb_example = 1" "hb_config hb_example = heartbeat_default_config"
  "hb_neighbors hb_example ! 0 = \<lparr>hn_id = 7, hn_health = EKK_HEALTH_ALIVE, hn_last_seen = 1000,
     hn_missed_count = 0, hn_sequence = 3, hn_avg_latency = 0\<rparr>"
  "hb_live hb_example = [\<lparr>hn_id = 7, hn_health = EKK_HEALTH_ALIVE, hn_last_seen = 1000,
     hn_missed_count = 0, hn_sequence = 3, hn_avg_latency = 0\<rparr>]"
  "hb_on_neighbor_dead hb_example"
  "hc_period heartbeat_default_config = 10000" "hc_timeout_count heartbeat_default_config = 5"
  by (simp_all add: hb_example_def hb_live_def heartbeat_default_config_def)

text \<open>
  Tracking a neighbor always succeeds for a fresh valid id (the table cannot fill with
  8-bit ids), and removing it again restores the tracked ids; a tracked id is refused and an
  untracked one cannot be removed, both without any change.
\<close>

lemma heartbeat_add_remove:
  assumes "hb_inv hb" "k \<noteq> EKK_INVALID_MODULE_ID" "k \<notin> set (hb_keys hb)"
  defines "hb' \<equiv> snd (ekk_heartbeat_add_neighbor hb k)"
  shows "fst (ekk_heartbeat_add_neighbor hb k) = EKK_OK \<and> hb_inv hb' \<and> hb_keys hb' = hb_keys hb @ [k]
    \<and> ekk_heartbeat_add_neighbor hb' k = (EKK_ERR_ALREADY_EXISTS, hb')
    \<and> fst (ekk_heartbeat_remove_neighbor hb' k) = EKK_OK
    \<and> hb_keys (snd (ekk_heartbeat_remove_neighbor hb' k)) = hb_keys hb
    \<and> ekk_heartbeat_remove_neighbor hb k = (EKK_ERR_NOT_FOUND, hb)"
proof -
  have "length (hb_keys hb) < 256"
    using card_u8_ids [OF hb_invD(4,5) [OF assms(1)]] assms(1,2,3) by fastforce
  note new = hb_table.add_new [OF assms(1,2,3) this]
  then have "k \<in> set (hb_keys hb')" "hb_inv hb'" by (simp_all add: hb'_def)
  then show ?thesis
    using new hb_table.add_known [of hb' k] hb_table.remove_add_keys [OF assms(1,2)]
      hb_table.remove_unknown [OF assms(1,2,3)] assms(2)
    by (simp add: hb'_def)
qed

lemma hb_tick_nth:
  assumes "hb_inv hb" "i < hb_neighbor_count hb"
  shows "hb_neighbors (hb_tick_state hb now sent t) ! i = fst (hb_check_neighbor hb now (hb_neighbors hb ! i))"
proof -
  have "hb_live (hb_tick_state hb now sent t) ! i = (map (fst \<circ> hb_check_neighbor hb now) (hb_live hb)) ! i"
    by (simp add: hb_tick_live(1) [OF assms(1)])
  with assms hb_invD(1) [OF assms(1)] show ?thesis
    by (simp add: hb_live_def hb_tick_live(2) [OF assms(1)])
qed

lemma hb_check_outputs:
  assumes "\<forall>n \<in> set ns. beats_missed hb now n < 2 ^ 32"
  shows "length (concat (map (snd \<circ> hb_check_neighbor hb now) ns))
       = length (filter (\<lambda>n. hn_health (fst (hb_check_neighbor hb now n)) \<noteq> hn_health n) ns)"
  using assms
proof (induction ns)
  case (Cons n ns)
  have "length (snd (hb_check_neighbor hb now n)) = (if hn_health (fst (hb_check_neighbor hb now n)) = hn_health n then 0 else 1)"
  proof (cases "hn_health n = EKK_HEALTH_UNKNOWN")
    case True
    then show ?thesis by (simp add: hb_check_neighbor_def)
  next
    case False
    with hb_check_classifies(3) Cons.prems show ?thesis by simp
  qed
  with Cons show ?case by simp
qed simp

text \<open>
  One tick reclassifies every tracked neighbor that has been heard: its missed-beat counter
  becomes the larger of what it was and the whole periods elapsed since its last heartbeat
  (saturating at 255), and its health is ALIVE, SUSPECT or DEAD by that counter and the
  configured timeout. A neighbor never heard stays UNKNOWN. The value returned is the number of
  tracked neighbors whose health changed, and no id is lost, added or reordered.
\<close>

lemma heartbeat_tick_classifies:
  assumes "hb_inv hb" "hc_period (hb_config hb) \<noteq> 0"
    and "\<forall>n \<in> set (hb_live hb). beats_missed hb now n < 2 ^ 32"
  shows "(\<forall>i < hb_neighbor_count hb.
      let n = hb_neighbors hb ! i; n' = hb_neighbors (hb_tick_state hb now sent t) ! i;
          m = max (unat (hn_missed_count n)) (min (beats_missed hb now n) 255)
      in if hn_health n = EKK_HEALTH_UNKNOWN then n' = n
         else unat (hn_missed_count n') = m \<and> hn_health n' = classify_health (hc_timeout_count (hb_config hb)) m)
    \<and> fst (ekk_heartbeat_tick hb now sent t)
        = length (filter (\<lambda>n. hn_health (fst (hb_check_neighbor hb now n)) \<noteq> hn_health n) (hb_live hb))
    \<and> hb_keys (hb_tick_state hb now sent t) = hb_keys hb"
proof (intro conjI allI impI)
  fix i assume i: "i < hb_neighbor_count hb"
  have "hb_neighbors hb ! i \<in> set (hb_live hb)"
    unfolding hb_live_def using i hb_invD(1) [OF assms(1)] by (intro set_take_nth) auto
  with assms(3) have "beats_missed hb now (hb_neighbors hb ! i) < 2 ^ 32" by blast
  then show "let n = hb_neighbors hb ! i; n' = hb_neighbors (hb_tick_state hb now sent t) ! i;
          m = max (unat (hn_missed_count n)) (min (beats_missed hb now n) 255)
      in if hn_health n = EKK_HEALTH_UNKNOWN then n' = n
         else unat (hn_missed_count n') = m \<and> hn_health n' = classify_health (hc_timeout_count (hb_config hb)) m"
    using hb_check_classifies [of "hb_neighbors hb ! i" hb now]
    by (simp add: hb_tick_nth [OF assms(1) i] Let_def) (simp add: hb_check_neighbor_def)
next
  show "fst (ekk_heartbeat_tick hb now sent t)
        = length (filter (\<lambda>n. hn_health (fst (hb_check_neighbor hb now n)) \<noteq> hn_health n) (hb_live hb))"
    unfolding hb_tick_live(4) [OF assms(1)] by (rule hb_check_outputs [OF assms(3)])
qed (rule hb_tick_keys(1) [OF assms(1)])

lemma hb_check_reports_dead:
  assumes "hn_health n \<notin> {EKK_HEALTH_UNKNOWN, EKK_HEALTH_DEAD}" "hb_on_neighbor_dead hb"
    and "hn_health (fst (hb_check_neighbor hb now n)) = EKK_HEALTH_DEAD"
  shows "snd (hb_check_neighbor hb now n) = [[NeighborDead (hn_id n)]]"
  using assms unfolding hb_check_neighbor_def Let_def
  by (auto simp: set_neighbor_health_def split: if_splits)

lemma hb_check_silent_dead:
  assumes "hn_health n \<noteq> EKK_HEALTH_UNKNOWN" "beats_missed hb now n < 2 ^ 32"
    and "0 < unat (hc_timeout_count (hb_config hb))"
    and "unat (hc_timeout_count (hb_config hb)) \<le> min 255 (beats_missed hb now n)"
  shows "hn_health (fst (hb_check_neighbor hb now n)) = EKK_HEALTH_DEAD"
  using hb_check_classifies(2) [OF assms(1,2)] assms(3,4) by (auto simp: classify_health_def)

lemma hb_check_quiet:
  "hn_health (fst (hb_check_neighbor hb now n)) = hn_health n \<Longrightarrow> snd (hb_check_neighbor hb now n) = []"
  by (auto simp: hb_check_neighbor_def set_neighbor_health_def Let_def split: if_splits)

text \<open>
  C29. Failure detection within the configured time: a neighbor heard before and silent for
  \<open>timeout_count\<close> whole periods is DEAD after the next tick, and the tick reports it through the
  registered callback if it was not DEAD already; a neighbor whose heartbeat arrived less than
  one period ago is ALIVE. This needs \<open>timeout_count\<close> to be at most 255.
\<close>

theorem heartbeat_detects_failure:
  assumes "hb_inv hb" "hc_period (hb_config hb) \<noteq> 0" "i < hb_neighbor_count hb"
    and "n = hb_neighbors hb ! i" "hn_health n \<noteq> EKK_HEALTH_UNKNOWN"
    and "beats_missed hb now n < 2 ^ 32" "0 < unat (hc_timeout_count (hb_config hb))"
  shows "(unat (hc_timeout_count (hb_config hb)) \<le> min 255 (beats_missed hb now n) \<longrightarrow>
        hn_health (hb_neighbors (hb_tick_state hb now sent t) ! i) = EKK_HEALTH_DEAD
        \<and> (hn_health n \<noteq> EKK_HEALTH_DEAD \<and> hb_on_neighbor_dead hb \<longrightarrow>
             NeighborDead (hn_id n) \<in> set (fst (snd (snd (ekk_heartbeat_tick hb now sent t))))))
    \<and> (beats_missed hb now n = 0 \<and> hn_missed_count n = 0 \<longrightarrow>
        hn_health (hb_neighbors (hb_tick_state hb now sent t) ! i) = EKK_HEALTH_ALIVE)"
proof (intro conjI impI)
  let ?n' = "fst (hb_check_neighbor hb now n)"
  note cls = hb_check_classifies [OF assms(5,6)]
  have nth: "hb_neighbors (hb_tick_state hb now sent t) ! i = ?n'"
    using hb_tick_nth [OF assms(1,3)] assms(4) by simp
  show "hn_health (hb_neighbors (hb_tick_state hb now sent t) ! i) = EKK_HEALTH_ALIVE"
    if "beats_missed hb now n = 0 \<and> hn_missed_count n = 0"
    using cls(2) that by (simp add: nth classify_health_def)
  assume late: "unat (hc_timeout_count (hb_config hb)) \<le> min 255 (beats_missed hb now n)"
  then show dead: "hn_health (hb_neighbors (hb_tick_state hb now sent t) ! i) = EKK_HEALTH_DEAD"
    using hb_check_silent_dead [OF assms(5,6,7)] by (simp add: nth)
  assume report: "hn_health n \<noteq> EKK_HEALTH_DEAD \<and> hb_on_neighbor_dead hb"
  have "snd (hb_check_neighbor hb now n) = [[NeighborDead (hn_id n)]]"
    using dead report assms(5) by (simp add: nth hb_check_reports_dead)
  moreover have "n \<in> set (hb_live hb)"
    unfolding assms(4) hb_live_def using assms(3) hb_invD(1) [OF assms(1)] by (intro set_take_nth) auto
  ultimately show "NeighborDead (hn_id n) \<in> set (fst (snd (snd (ekk_heartbeat_tick hb now sent t))))"
    by (force simp: hb_tick_live(5) [OF assms(1)])
qed

theorem heartbeat_detects_failure_witness:
  "hn_health (hb_neighbors (hb_tick_state hb_example 51000 EKK_OK 51000) ! 0) = EKK_HEALTH_DEAD
   \<and> NeighborDead 7 \<in> set (fst (snd (snd (ekk_heartbeat_tick hb_example 51000 EKK_OK 51000))))"
  using heartbeat_detects_failure [OF hb_example_inv, of 0 _ 51000 EKK_OK 51000, OF _ _ refl]
  by (simp add: hb_example_sel beats_missed_def)

text \<open>
  The counter is 8 bits wide and the timeout 32: with \<open>timeout_count\<close> above 255 a silent neighbor
  is never declared dead, however long it is silent.
\<close>

lemma heartbeat_wide_timeout_never_dead:
  assumes "hb_inv hb" "i < hb_neighbor_count hb" "255 < unat (hc_timeout_count (hb_config hb))"
    and "hn_health (hb_neighbors hb ! i) \<notin> {EKK_HEALTH_UNKNOWN, EKK_HEALTH_DEAD}"
    and "beats_missed hb now (hb_neighbors hb ! i) < 2 ^ 32"
  shows "hn_health (hb_neighbors (hb_tick_state hb now sent t) ! i) \<noteq> EKK_HEALTH_DEAD"
proof -
  have "unat (hn_missed_count (hb_neighbors hb ! i)) < 256"
    using unsigned_less [of "hn_missed_count (hb_neighbors hb ! i)", where ?'a = nat] by simp
  moreover have "min (beats_missed hb now (hb_neighbors hb ! i)) 255 < unat (hc_timeout_count (hb_config hb))"
    using assms(3) by linarith
  ultimately show ?thesis
    using hb_check_classifies(2) [of "hb_neighbors hb ! i" hb now] assms
    by (auto simp: hb_tick_nth classify_health_def)
qed

end
