(* ===== verification/Ekk_Topology.thy ===== *)
theory Ekk_Topology
  imports Ekk_Interfaces "HOL-Library.Product_Lexorder" "HOL-Library.Multiset"
begin

text \<open>
  Topological neighbor election (\<open>src/ekk_topology.c\<close>, \<open>include/ekk/ekk_topology.h\<close>): every module
  keeps the \<open>k\<close> nearest of the modules it knows as its neighbors. The static array
  \<open>g_known_positions\<close>, indexed like \<open>all_known\<close>, is kept with it as one list of pairs (so the model
  is of the one topology object a program has); the static discovery counter is a field. The
  clock is an input, the change callback an output, and the overridable custom metric an argument.
\<close>

section \<open>Model\<close>

datatype ekk_distance_metric =
    EKK_DISTANCE_LOGICAL
  | EKK_DISTANCE_PHYSICAL
  | EKK_DISTANCE_LATENCY
  | EKK_DISTANCE_CUSTOM

record ekk_topology_config =
  tc_k_neighbors :: u32
  tc_metric :: ekk_distance_metric
  tc_discovery_period :: u64
  tc_reelection_delay :: u64
  tc_min_neighbors :: u32

text \<open>The coordinates are \<open>int16_t\<close>.\<close>

record ekk_position =
  ps_x :: int
  ps_y :: int
  ps_z :: int

record ekk_topology =
  tp_my_id :: u8
  tp_my_position :: ekk_position
  tp_neighbors :: "ekk_neighbor list"
  tp_neighbor_count :: nat
  tp_known :: "(u8 \<times> ekk_position) list"
  tp_known_count :: nat
  tp_last_discovery :: u64
  tp_last_reelection :: u64
  tp_config :: ekk_topology_config
  tp_discovery_sequence :: u16
  tp_callback :: bool

record ekk_discovery_msg =
  dm_sender_id :: u8
  dm_position :: ekk_position
  dm_neighbor_count :: u8
  dm_state :: ekk_module_state
  dm_sequence :: u16

record distance_entry =
  de_id :: u8
  de_distance :: int
  de_position :: ekk_position

datatype topology_output = TopologyChanged "ekk_neighbor list" nat "ekk_neighbor list" nat

definition find_known_index :: "ekk_topology \<Rightarrow> u8 \<Rightarrow> nat option" where
  "find_known_index topo k = find_key fst k (tp_known topo) (tp_known_count topo)"

definition find_neighbor_index :: "ekk_topology \<Rightarrow> u8 \<Rightarrow> nat option" where
  "find_neighbor_index topo k = find_key nb_id k (tp_neighbors topo) (tp_neighbor_count topo)"

definition add_to_known :: "ekk_topology \<Rightarrow> u8 \<Rightarrow> ekk_position \<Rightarrow> nat option \<times> ekk_topology" where
  "add_to_known topo k pos =
     (case find_known_index topo k of
        Some idx \<Rightarrow> (Some idx, topo\<lparr>tp_known := (tp_known topo)[idx := (fst (tp_known topo ! idx), pos)]\<rparr>)
      | None \<Rightarrow>
          if tp_known_count topo \<ge> EKK_MAX_MODULES then (None, topo)
          else (Some (tp_known_count topo),
            topo\<lparr>tp_known := (tp_known topo)[tp_known_count topo := (k, pos)],
                 tp_known_count := Suc (tp_known_count topo)\<rparr>))"

definition remove_from_known :: "ekk_topology \<Rightarrow> u8 \<Rightarrow> ekk_topology" where
  "remove_from_known topo k =
     (case find_known_index topo k of
        None \<Rightarrow> topo
      | Some idx \<Rightarrow> topo\<lparr>tp_known := shift_down (tp_known topo) idx (tp_known_count topo),
                        tp_known_count := tp_known_count topo - 1\<rparr>)"

text \<open>The products and sums are \<open>int32_t\<close>.\<close>

definition position_distance_sq :: "ekk_position \<Rightarrow> ekk_position \<Rightarrow> int" where
  "position_distance_sq a b =
     (let dx = ps_x a - ps_x b; dy = ps_y a - ps_y b; dz = ps_z a - ps_z b
      in to_i32 (to_i32 (to_i32 (dx * dx) + to_i32 (dy * dy)) + to_i32 (dz * dz)))"

text \<open>
  Newton's iteration on positive numbers. For \<open>n = INT32_MAX\<close> the sum \<open>x + 1\<close> overflows, which C
  leaves undefined; the model does not wrap there.
\<close>

function isqrt_loop :: "nat \<Rightarrow> nat \<Rightarrow> nat \<Rightarrow> nat" where
  "isqrt_loop n x y = (if y < x then isqrt_loop n y ((y + n div y) div 2) else x)"
  by pat_completeness auto
termination
  by (relation "measure (\<lambda>(n, x, y). x)") auto

declare isqrt_loop.simps [simp del]

definition isqrt :: "int \<Rightarrow> int" where
  "isqrt n =
     (if n \<le> 0 then 0 else if n = 1 then 1 else int (isqrt_loop (nat n) (nat n) ((nat n + 1) div 2)))"

definition entry_less_than :: "distance_entry \<Rightarrow> distance_entry \<Rightarrow> bool" where
  "entry_less_than a b =
     (if de_distance a \<noteq> de_distance b then de_distance a < de_distance b else de_id a < de_id b)"

text \<open>The inner loop of the insertion sort, at position \<open>j + 1\<close>.\<close>

fun sort_insert :: "distance_entry list \<Rightarrow> distance_entry \<Rightarrow> nat \<Rightarrow> distance_entry list" where
  "sort_insert entries key 0 = entries[0 := key]"
| "sort_insert entries key (Suc j) =
     (if entry_less_than key (entries ! j) then sort_insert (entries[Suc j := entries ! j]) key j
      else entries[Suc j := key])"

definition sort_by_distance :: "distance_entry list \<Rightarrow> nat \<Rightarrow> distance_entry list" where
  "sort_by_distance entries n = fold (\<lambda>i es. sort_insert es (es ! i) i) [1..<n] entries"

definition send_discovery :: "ekk_topology \<Rightarrow> ekk_topology \<times> ekk_discovery_msg" where
  "send_discovery topo =
     (topo\<lparr>tp_discovery_sequence := tp_discovery_sequence topo + 1\<rparr>,
      \<lparr>dm_sender_id = tp_my_id topo, dm_position = tp_my_position topo,
       dm_neighbor_count = of_nat (tp_neighbor_count topo), dm_state = EKK_MODULE_ACTIVE,
       dm_sequence = tp_discovery_sequence topo\<rparr>)"

definition ekk_topology_distance_custom :: "u8 \<Rightarrow> u8 \<Rightarrow> int" where
  "ekk_topology_distance_custom id_a id_b = uint (if id_a > id_b then id_a - id_b else id_b - id_a)"

definition ekk_topology_distance ::
  "(u8 \<Rightarrow> u8 \<Rightarrow> int) \<Rightarrow> ekk_distance_metric \<Rightarrow> u8 \<Rightarrow> ekk_position \<Rightarrow> u8 \<Rightarrow> ekk_position \<Rightarrow> int"
where
  "ekk_topology_distance custom metric id_a pos_a id_b pos_b =
     (case metric of
        EKK_DISTANCE_LOGICAL \<Rightarrow> uint (if id_a > id_b then id_a - id_b else id_b - id_a)
      | EKK_DISTANCE_PHYSICAL \<Rightarrow> isqrt (position_distance_sq pos_a pos_b)
      | EKK_DISTANCE_LATENCY \<Rightarrow> uint (if id_a > id_b then id_a - id_b else id_b - id_a)
      | EKK_DISTANCE_CUSTOM \<Rightarrow> custom id_a id_b)"

definition topology_default_config :: ekk_topology_config where
  "topology_default_config = \<lparr>tc_k_neighbors = 7, tc_metric = EKK_DISTANCE_LOGICAL,
     tc_discovery_period = 1000000, tc_reelection_delay = 100000, tc_min_neighbors = 3\<rparr>"

definition blank_neighbor :: ekk_neighbor where
  "blank_neighbor = \<lparr>nb_id = EKK_INVALID_MODULE_ID, nb_health = EKK_HEALTH_UNKNOWN, nb_last_seen = 0,
     nb_last_field = ekk_field_clear, nb_logical_distance = 0, nb_missed_heartbeats = 0, nb_capabilities = 0\<rparr>"

text \<open>The statics (positions, callback, sequence) survive an initialisation.\<close>

definition ekk_topology_init ::
  "ekk_topology \<Rightarrow> u8 \<Rightarrow> ekk_position \<Rightarrow> ekk_topology_config option \<Rightarrow> ekk_error \<times> ekk_topology"
where
  "ekk_topology_init topo my_id my_position config =
     (if my_id = EKK_INVALID_MODULE_ID then (EKK_ERR_INVALID_ARG, topo)
      else (EKK_OK,
        topo\<lparr>tp_my_id := my_id, tp_my_position := my_position,
             tp_neighbors := replicate EKK_K_NEIGHBORS blank_neighbor, tp_neighbor_count := 0,
             tp_known := map (\<lambda>(k, pos). (0, pos)) (tp_known topo), tp_known_count := 0,
             tp_last_discovery := 0, tp_last_reelection := 0,
             tp_config := (case config of Some c \<Rightarrow> c | None \<Rightarrow> topology_default_config)\<rparr>))"

text \<open>The entries of all known modules but this one, in the order they are known.\<close>

definition distance_entries :: "(u8 \<Rightarrow> u8 \<Rightarrow> int) \<Rightarrow> ekk_topology \<Rightarrow> distance_entry list" where
  "distance_entries custom topo =
     map (\<lambda>(k, pos). \<lparr>de_id = k,
            de_distance = ekk_topology_distance custom (tc_metric (tp_config topo)) (tp_my_id topo)
              (tp_my_position topo) k pos,
            de_position = pos\<rparr>)
       (filter (\<lambda>(k, pos). k \<noteq> tp_my_id topo) (take (tp_known_count topo) (tp_known topo)))"

text \<open>One slot of the new neighbor array: \<open>slot\<close> is what it held before.\<close>

definition elect_slot ::
  "ekk_neighbor list \<Rightarrow> nat \<Rightarrow> ekk_neighbor \<Rightarrow> distance_entry \<Rightarrow> ekk_neighbor"
where
  "elect_slot old_neighbors old_count slot entry =
     (let neighbor = (case find_key nb_id (de_id entry) old_neighbors old_count of
            Some old_idx \<Rightarrow> old_neighbors ! old_idx
          | None \<Rightarrow> slot\<lparr>nb_id := de_id entry, nb_health := EKK_HEALTH_UNKNOWN, nb_last_seen := 0,
              nb_logical_distance := de_distance entry, nb_missed_heartbeats := 0,
              nb_last_field := ekk_field_clear\<rparr>)
      in neighbor\<lparr>nb_logical_distance := de_distance entry\<rparr>)"

definition clear_slot :: "ekk_neighbor \<Rightarrow> ekk_neighbor" where
  "clear_slot slot = slot\<lparr>nb_id := EKK_INVALID_MODULE_ID, nb_health := EKK_HEALTH_UNKNOWN\<rparr>"

definition elected_neighbors :: "(u8 \<Rightarrow> u8 \<Rightarrow> int) \<Rightarrow> ekk_topology \<Rightarrow> nat \<times> ekk_neighbor list" where
  "elected_neighbors custom topo =
     (let entries = distance_entries custom topo;
          entry_count = length entries;
          entries = sort_by_distance entries entry_count;
          old_neighbors = tp_neighbors topo;
          new_count = min entry_count (unat (tc_k_neighbors (tp_config topo)));
          neighbors = fold (\<lambda>i nbs. nbs[i := elect_slot old_neighbors (tp_neighbor_count topo) (nbs ! i) (entries ! i)])
            [0..<new_count] (tp_neighbors topo);
          neighbors = fold (\<lambda>i nbs. nbs[i := clear_slot (nbs ! i)]) [new_count..<EKK_K_NEIGHBORS] neighbors
      in (new_count, neighbors))"

definition ekk_topology_reelect ::
  "(u8 \<Rightarrow> u8 \<Rightarrow> int) \<Rightarrow> ekk_topology \<Rightarrow> u64 \<Rightarrow> nat \<times> ekk_topology \<times> topology_output list"
where
  "ekk_topology_reelect custom topo hal_now =
     (if tp_known_count topo = 0 then (0, topo\<lparr>tp_neighbor_count := 0\<rparr>, [])
      else
        (let old_neighbors = tp_neighbors topo;
             old_count = tp_neighbor_count topo;
             (new_count, neighbors) = elected_neighbors custom topo;
             topo = topo\<lparr>tp_neighbors := neighbors, tp_neighbor_count := new_count, tp_last_reelection := hal_now\<rparr>;
             changed = (old_count \<noteq> new_count
               \<or> find_from (\<lambda>(new, old). nb_id new \<noteq> nb_id old) (zip neighbors old_neighbors) 0 new_count \<noteq> None)
         in (new_count, topo,
             if tp_callback topo \<and> changed
             then [TopologyChanged old_neighbors old_count neighbors new_count] else [])))"

definition ekk_topology_on_discovery ::
  "(u8 \<Rightarrow> u8 \<Rightarrow> int) \<Rightarrow> ekk_topology \<Rightarrow> u8 \<Rightarrow> ekk_position \<Rightarrow> u64 \<Rightarrow>
   ekk_error \<times> ekk_topology \<times> topology_output list"
where
  "ekk_topology_on_discovery custom topo sender_id sender_position hal_now =
     (if sender_id = EKK_INVALID_MODULE_ID then (EKK_ERR_INVALID_ARG, topo, [])
      else if sender_id = tp_my_id topo then (EKK_OK, topo, [])
      else (case add_to_known topo sender_id sender_position of
          (None, topo) \<Rightarrow> (EKK_ERR_NO_MEMORY, topo, [])
        | (Some idx, topo) \<Rightarrow>
            if tp_neighbor_count topo < unat (tc_k_neighbors (tp_config topo))
            then (EKK_OK, snd (ekk_topology_reelect custom topo hal_now))
            else (EKK_OK, topo, [])))"

text \<open>Removing the neighbor in slot \<open>idx\<close>, before the reelection.\<close>

definition drop_neighbor :: "ekk_topology \<Rightarrow> nat \<Rightarrow> u8 \<Rightarrow> ekk_topology" where
  "drop_neighbor topo idx lost_id =
     (let topo = topo\<lparr>tp_neighbors := (tp_neighbors topo)[idx :=
            (tp_neighbors topo ! idx)\<lparr>nb_id := EKK_INVALID_MODULE_ID, nb_health := EKK_HEALTH_DEAD\<rparr>]\<rparr>;
          topo = remove_from_known topo lost_id;
          topo = topo\<lparr>tp_neighbors := shift_down (tp_neighbors topo) idx (tp_neighbor_count topo),
                      tp_neighbor_count := tp_neighbor_count topo - 1\<rparr>
      in if tp_neighbor_count topo < EKK_K_NEIGHBORS
         then topo\<lparr>tp_neighbors := (tp_neighbors topo)[tp_neighbor_count topo :=
                     clear_slot (tp_neighbors topo ! tp_neighbor_count topo)]\<rparr>
         else topo)"

definition ekk_topology_on_neighbor_lost ::
  "(u8 \<Rightarrow> u8 \<Rightarrow> int) \<Rightarrow> ekk_topology \<Rightarrow> u8 \<Rightarrow> u64 \<Rightarrow> ekk_error \<times> ekk_topology \<times> topology_output list"
where
  "ekk_topology_on_neighbor_lost custom topo lost_id hal_now =
     (if lost_id = EKK_INVALID_MODULE_ID then (EKK_ERR_INVALID_ARG, topo, [])
      else (case find_neighbor_index topo lost_id of
          None \<Rightarrow> (EKK_ERR_NOT_FOUND, topo, [])
        | Some idx \<Rightarrow> (EKK_OK, snd (ekk_topology_reelect custom (drop_neighbor topo idx lost_id) hal_now))))"

definition discover_if :: "bool \<Rightarrow> ekk_topology \<Rightarrow> u64 \<Rightarrow> ekk_topology \<times> ekk_discovery_msg list" where
  "discover_if due topo now =
     (if due then (case send_discovery topo of (topo, msg) \<Rightarrow> (topo\<lparr>tp_last_discovery := now\<rparr>, [msg]))
      else (topo, []))"

definition ekk_topology_tick :: "ekk_topology \<Rightarrow> u64 \<Rightarrow> bool \<times> ekk_topology \<times> ekk_discovery_msg list" where
  "ekk_topology_tick topo now =
     (let (topo, first) = discover_if (now - tp_last_discovery topo \<ge> tc_discovery_period (tp_config topo)) topo now;
          (topo, second) = discover_if
            (tp_neighbor_count topo < unat (tc_min_neighbors (tp_config topo))
             \<and> now - tp_last_discovery topo \<ge> tc_discovery_period (tp_config topo) div 4) topo now
      in (False, topo, first @ second))"

definition ekk_topology_get_neighbors :: "ekk_topology \<Rightarrow> u32 \<Rightarrow> ekk_neighbor list" where
  "ekk_topology_get_neighbors topo max_count =
     take (min (tp_neighbor_count topo) (unat max_count)) (tp_neighbors topo)"

definition ekk_topology_is_neighbor :: "ekk_topology \<Rightarrow> u8 \<Rightarrow> bool" where
  "ekk_topology_is_neighbor topo module_id =
     (if module_id = EKK_INVALID_MODULE_ID then False else find_neighbor_index topo module_id \<noteq> None)"

definition ekk_topology_get_neighbor :: "ekk_topology \<Rightarrow> u8 \<Rightarrow> ekk_neighbor option" where
  "ekk_topology_get_neighbor topo module_id =
     (if module_id = EKK_INVALID_MODULE_ID then None
      else map_option (\<lambda>idx. tp_neighbors topo ! idx) (find_neighbor_index topo module_id))"

section \<open>Square roots\<close>

lemma newton_upper:
  assumes "0 < (x :: nat)"
  shows "n < ((x + n div x) div 2 + 1) * ((x + n div x) div 2 + 1)"
proof -
  let ?q = "n div x" let ?m = "(x + ?q) div 2"
  have "n < x * (?q + 1)" using assms by (simp add: dividend_less_times_div)
  then have "4 * n < 4 * (x * (?q + 1))" by simp
  also have "4 * (x * (?q + 1)) \<le> (x + (?q + 1)) * (x + (?q + 1))"
  proof -
    have "4 * (int x * int (?q + 1)) \<le> (int x + int (?q + 1)) * (int x + int (?q + 1))"
      using zero_le_square [of "int x - int (?q + 1)"] by (simp add: algebra_simps)
    then show ?thesis by (metis (no_types) of_nat_add of_nat_le_iff of_nat_mult of_nat_numeral)
  qed
  also have "\<dots> \<le> (2 * (?m + 1)) * (2 * (?m + 1))"
  proof -
    have "a + 1 \<le> 2 * (a div 2 + 1)" for a :: nat by presburger
    from this [of "x + ?q"] have "x + (?q + 1) \<le> 2 * (?m + 1)" by (simp only: add.assoc)
    then show ?thesis by (intro mult_le_mono)
  qed
  also have "\<dots> = 4 * ((?m + 1) * (?m + 1))" by (simp add: algebra_simps)
  finally show ?thesis by simp
qed

lemma isqrt_loop_correct:
  "0 < n \<Longrightarrow> 0 < x \<Longrightarrow> y = (x + n div x) div 2 \<Longrightarrow> n < (x + 1) * (x + 1) \<Longrightarrow>
   isqrt_loop n x y * isqrt_loop n x y \<le> n \<and> n < (isqrt_loop n x y + 1) * (isqrt_loop n x y + 1)"
proof (induction n x y rule: isqrt_loop.induct)
  case (1 n x y)
  show ?case
  proof (cases "y < x")
    case True
    have "0 < y"
    proof (cases "x \<le> n")
      case True
      then have "1 \<le> n div x" using 1(3) by (simp add: div_greater_zero_iff Suc_le_eq)
      with 1(3,4) show ?thesis by simp
    qed (use 1(2-4) in simp)
    moreover have "n < (y + 1) * (y + 1)" using newton_upper [OF 1(3), of n] 1(4) by simp
    ultimately show ?thesis using 1(1) [OF True 1(2) _ refl] True by (simp add: isqrt_loop.simps [of n x y])
  next
    case False
    then have "x \<le> n div x" using 1(4) by linarith
    then have "x * x \<le> x * (n div x)" by simp
    also have "\<dots> \<le> n" by (simp add: mult.commute)
    finally show ?thesis using False 1(5) by (simp add: isqrt_loop.simps [of n x y])
  qed
qed

text \<open>
  The square root of the physical metric is exact: for every \<open>int32_t\<close> argument but the
  largest (where C overflows), the loop ends and returns the floor of the root, 0 for
  non-positive arguments.
\<close>

lemma isqrt_floor:
  assumes "n < INT32_MAX"
  shows "0 \<le> isqrt n \<and> (n \<le> 0 \<longrightarrow> isqrt n = 0)
    \<and> (0 < n \<longrightarrow> isqrt n * isqrt n \<le> n \<and> n < (isqrt n + 1) * (isqrt n + 1))"
proof (cases "n \<le> 1")
  case True
  then show ?thesis by (auto simp: isqrt_def)
next
  case False
  define m r where "m = nat n" and "r = isqrt_loop m m ((m + 1) div 2)"
  have "(m + 1) div 2 = (m + m div m) div 2" "0 < m" using False by (simp_all add: m_def)
  moreover have "m < (m + 1) * (m + 1)" by simp
  ultimately have "r * r \<le> m" "m < (r + 1) * (r + 1)"
    unfolding r_def using isqrt_loop_correct [of m m "(m + 1) div 2"] by blast+
  then have "int r * int r \<le> int m" "int m < (int r + 1) * (int r + 1)"
    by (simp_all flip: of_nat_mult of_nat_add of_nat_Suc add: algebra_simps)
  moreover have "isqrt n = int r" "int m = n" using False by (simp_all add: isqrt_def r_def m_def)
  ultimately show ?thesis using False by simp
qed

section \<open>Sorting\<close>

definition entry_key :: "distance_entry \<Rightarrow> int \<times> u8" where
  "entry_key e = (de_distance e, de_id e)"

lemma entry_less_than_key: "entry_less_than a b \<longleftrightarrow> entry_key a < entry_key b"
  by (auto simp: entry_less_than_def entry_key_def less_prod_def)

lemma sort_insert_length [simp]: "length (sort_insert es k p) = length es"
  by (induction es k p rule: sort_insert.induct) simp_all

text \<open>Inserting into a sorted prefix of length \<open>p\<close>, where slot \<open>p\<close> is free.\<close>

lemma sort_insert_correct:
  assumes "p < length es" "sorted (map entry_key (take p es))"
  shows "sorted (map entry_key (take (Suc p) (sort_insert es k p)))
    \<and> mset (take (Suc p) (sort_insert es k p)) = add_mset k (mset (take p es))
    \<and> drop (Suc p) (sort_insert es k p) = drop (Suc p) es"
  using assms
proof (induction es k p rule: sort_insert.induct)
  case (1 es k)
  then show ?case by (cases es) simp_all
next
  case (2 es k j)
  have len: "j < length es" "Suc j < length es" using 2(2) by simp_all
  have take: "take (Suc j) es = take j es @ [es ! j]" using len by (simp add: take_Suc_conv_app_nth)
  have sorted: "sorted (map entry_key (take j es))" "\<forall>x \<in> set (take j es). entry_key x \<le> entry_key (es ! j)"
    using 2(3) by (auto simp: take sorted_append)
  show ?case
  proof (cases "entry_less_than k (es ! j)")
    case True
    let ?es = "es[Suc j := es ! j]"
    have "take j ?es = take j es" by simp
    then have IH: "sorted (map entry_key (take (Suc j) (sort_insert ?es k j)))"
      "mset (take (Suc j) (sort_insert ?es k j)) = add_mset k (mset (take j es))"
      "drop (Suc j) (sort_insert ?es k j) = drop (Suc j) ?es"
      using 2(1) [OF True] len sorted by simp_all
    have "sort_insert ?es k j ! Suc j = es ! j"
      using IH(3) len by (metis Cons_nth_drop_Suc length_list_update list.inject nth_list_update_eq sort_insert_length)
    then have snoc: "take (Suc (Suc j)) (sort_insert ?es k j) = take (Suc j) (sort_insert ?es k j) @ [es ! j]"
      using len by (simp add: take_Suc_conv_app_nth)
    have "set (take (Suc j) (sort_insert ?es k j)) = insert k (set (take j es))"
      using IH(2) by (metis set_mset_add_mset_insert set_mset_mset)
    with sorted True have "\<forall>x \<in> set (take (Suc j) (sort_insert ?es k j)). entry_key x \<le> entry_key (es ! j)"
      by (auto simp: entry_less_than_key)
    moreover have "drop (Suc (Suc j)) (sort_insert ?es k j) = drop (Suc (Suc j)) es"
      using IH(3) by (metis drop_drop drop_update_cancel lessI plus_1_eq_Suc)
    ultimately show ?thesis
      using True IH(1,2) by (simp add: snoc sorted_append take)
  next
    case False
    then have le: "entry_key (es ! j) \<le> entry_key k" by (simp add: entry_less_than_key)
    then have "\<forall>x \<in> set (take (Suc j) es). entry_key x \<le> entry_key k"
      using sorted(2) by (auto simp: take intro: order_trans)
    moreover have "take (Suc (Suc j)) (es[Suc j := k]) = take (Suc j) es @ [k]"
      using len by (simp add: take_Suc_conv_app_nth [of "Suc j"])
    ultimately show ?thesis using False 2(3) by (simp add: sorted_append)
  qed
qed

lemma sort_by_distance_prefix:
  assumes "n \<le> length es"
  shows "length (sort_by_distance es n) = length es
    \<and> sorted (map entry_key (take n (sort_by_distance es n)))
    \<and> mset (take n (sort_by_distance es n)) = mset (take n es)
    \<and> drop n (sort_by_distance es n) = drop n es"
  using assms
proof (induction n)
  case 0
  then show ?case by (simp add: sort_by_distance_def)
next
  case (Suc n)
  show ?case
  proof (cases n)
    case 0
    with Suc.prems show ?thesis by (cases es) (simp_all add: sort_by_distance_def)
  next
    case (Suc m)
    let ?s = "sort_by_distance es n"
    from Suc.IH Suc.prems have IH: "length ?s = length es" "sorted (map entry_key (take n ?s))"
      "mset (take n ?s) = mset (take n es)" "drop n ?s = drop n es" by simp_all
    have step: "sort_by_distance es (Suc n) = sort_insert ?s (?s ! n) n"
      using Suc by (simp add: sort_by_distance_def)
    have n: "n < length ?s" "n < length es" using IH(1) Suc.prems by simp_all
    then have nth: "?s ! n = es ! n" using IH(4) by (metis Cons_nth_drop_Suc list.inject)
    from sort_insert_correct [OF n(1) IH(2), of "?s ! n"] show ?thesis
      using n IH nth unfolding step
      by (simp add: take_Suc_conv_app_nth [of n es]) (metis Cons_nth_drop_Suc list.inject)
  qed
qed

lemma sort_by_distance_correct:
  "sorted (map entry_key (sort_by_distance es (length es)))"
  "mset (sort_by_distance es (length es)) = mset es"
  "length (sort_by_distance es (length es)) = length es"
  "set (sort_by_distance es (length es)) = set es"
proof -
  let ?s = "sort_by_distance es (length es)"
  from sort_by_distance_prefix [of "length es" es] have len: "length ?s = length es" by simp
  then have "take (length es) ?s = ?s" by simp
  with sort_by_distance_prefix [of "length es" es] show "sorted (map entry_key ?s)" "mset ?s = mset es" by simp_all
  then show "set ?s = set es" by (metis set_mset_mset)
  show "length ?s = length es" by (rule len)
qed

section \<open>Election\<close>

definition live_known :: "ekk_topology \<Rightarrow> (u8 \<times> ekk_position) list" where
  "live_known topo = take (tp_known_count topo) (tp_known topo)"

definition known_ids :: "ekk_topology \<Rightarrow> u8 list" where
  "known_ids topo = map fst (live_known topo)"

definition live_neighbors :: "ekk_topology \<Rightarrow> ekk_neighbor list" where
  "live_neighbors topo = take (tp_neighbor_count topo) (tp_neighbors topo)"

definition neighbor_ids :: "ekk_topology \<Rightarrow> u8 list" where
  "neighbor_ids topo = map nb_id (live_neighbors topo)"

definition topo_k :: "ekk_topology \<Rightarrow> nat" where
  "topo_k topo = unat (tc_k_neighbors (tp_config topo))"

text \<open>What every operation keeps of the known modules.\<close>

definition known_ok :: "ekk_topology \<Rightarrow> bool" where
  "known_ok topo \<longleftrightarrow>
     length (tp_neighbors topo) = EKK_K_NEIGHBORS \<and> length (tp_known topo) = EKK_MAX_MODULES
     \<and> tp_known_count topo \<le> EKK_MAX_MODULES \<and> topo_k topo \<le> EKK_K_NEIGHBORS
     \<and> distinct (known_ids topo) \<and> 0 \<notin> set (known_ids topo) \<and> tp_my_id topo \<notin> set (known_ids topo)"

text \<open>The distance of a known module, and the order by distance with the id as tie-breaker.\<close>

definition known_distance :: "(u8 \<Rightarrow> u8 \<Rightarrow> int) \<Rightarrow> ekk_topology \<Rightarrow> u8 \<Rightarrow> int" where
  "known_distance custom topo k =
     ekk_topology_distance custom (tc_metric (tp_config topo)) (tp_my_id topo) (tp_my_position topo) k
       (the (map_of (live_known topo) k))"

lemma known_all_kept:
  "known_ok topo \<Longrightarrow> filter (\<lambda>(k, pos). k \<noteq> tp_my_id topo) (live_known topo) = live_known topo"
  by (force simp: known_ok_def known_ids_def filter_id_conv)

lemma distance_entries_ids:
  "known_ok topo \<Longrightarrow> map de_id (distance_entries custom topo) = known_ids topo"
  using known_all_kept [of topo]
  by (simp add: distance_entries_def known_ids_def live_known_def case_prod_unfold comp_def)

lemma distance_entries_distance:
  assumes "known_ok topo" "e \<in> set (distance_entries custom topo)"
  shows "de_distance e = known_distance custom topo (de_id e)"
proof -
  from assms obtain k pos where "(k, pos) \<in> set (live_known topo)" and
    e: "de_id e = k" "de_distance e = ekk_topology_distance custom (tc_metric (tp_config topo)) (tp_my_id topo)
      (tp_my_position topo) k pos"
    by (auto simp: distance_entries_def live_known_def)
  moreover have "distinct (map fst (live_known topo))" using assms(1) by (simp add: known_ok_def known_ids_def)
  ultimately show ?thesis by (simp add: known_distance_def)
qed

lemma elect_slot_sel [simp]:
  "nb_id (elect_slot old n slot e) = de_id e"
  "nb_logical_distance (elect_slot old n slot e) = de_distance e"
  by (auto simp: elect_slot_def Let_def split: option.split dest: find_from_SomeD)

lemma elect_slot_old:
  assumes "n \<le> length old" "de_id e \<in> set (map nb_id (take n old))"
  shows "\<exists>nb \<in> set (take n old). elect_slot old n slot e = nb\<lparr>nb_logical_distance := de_distance e\<rparr>"
proof -
  obtain i where i: "find_key nb_id (de_id e) old n = Some i" "i < n" using find_key_member [OF assms] .
  then have "old ! i \<in> set (take n old)" using assms(1) by (intro set_take_nth) simp_all
  with i show ?thesis by (auto simp: elect_slot_def)
qed

text \<open>The modules in the order of their distance.\<close>

definition by_distance :: "(u8 \<Rightarrow> u8 \<Rightarrow> int) \<Rightarrow> ekk_topology \<Rightarrow> distance_entry list" where
  "by_distance custom topo =
     sort_by_distance (distance_entries custom topo) (length (distance_entries custom topo))"

lemma by_distance_length: "known_ok topo \<Longrightarrow> length (by_distance custom topo) = tp_known_count topo"
  unfolding by_distance_def sort_by_distance_correct(3)
  using arg_cong [OF distance_entries_ids, of topo length custom]
  by (simp add: known_ids_def live_known_def known_ok_def)

lemma elected_neighbors_eq:
  assumes "known_ok topo"
  defines "c \<equiv> min (tp_known_count topo) (topo_k topo)"
  shows "fst (elected_neighbors custom topo) = c"
    and "take c (snd (elected_neighbors custom topo)) =
      map (\<lambda>i. elect_slot (tp_neighbors topo) (tp_neighbor_count topo) (tp_neighbors topo ! i)
        (by_distance custom topo ! i)) [0..<c]"
    and "drop c (snd (elected_neighbors custom topo)) = map (\<lambda>i. clear_slot (tp_neighbors topo ! i)) [c..<7]"
    and "length (snd (elected_neighbors custom topo)) = 7"
proof -
  have len: "length (distance_entries custom topo) = tp_known_count topo"
    using by_distance_length [OF assms(1), of custom] by (simp add: by_distance_def sort_by_distance_correct)
  have c: "c \<le> 7" "length (tp_neighbors topo) = 7" using assms(1) by (auto simp: c_def known_ok_def)
  let ?new = "map (\<lambda>i. elect_slot (tp_neighbors topo) (tp_neighbor_count topo) (tp_neighbors topo ! i)
        (by_distance custom topo ! i)) [0..<c]"
  have "fold (\<lambda>i nbs. nbs[i := elect_slot (tp_neighbors topo) (tp_neighbor_count topo) (nbs ! i)
      (by_distance custom topo ! i)]) [0..<c] (tp_neighbors topo) = ?new @ drop c (tp_neighbors topo)"
    using c fold_update_range [of 0 c "tp_neighbors topo" "\<lambda>i slot. elect_slot (tp_neighbors topo)
      (tp_neighbor_count topo) slot (by_distance custom topo ! i)"] by simp
  then have "elected_neighbors custom topo =
      (c, fold (\<lambda>i nbs. nbs[i := clear_slot (nbs ! i)]) [c..<7] (?new @ drop c (tp_neighbors topo)))"
    by (simp only: elected_neighbors_def Let_def len c_def topo_k_def by_distance_def)
  also have "fold (\<lambda>i nbs. nbs[i := clear_slot (nbs ! i)]) [c..<7] (?new @ drop c (tp_neighbors topo)) =
      ?new @ map (\<lambda>i. clear_slot ((?new @ drop c (tp_neighbors topo)) ! i)) [c..<7]"
    using c by (subst fold_update_range) simp_all
  also have "map (\<lambda>i. clear_slot ((?new @ drop c (tp_neighbors topo)) ! i)) [c..<7] =
      map (\<lambda>i. clear_slot (tp_neighbors topo ! i)) [c..<7]"
    using c by (intro map_cong) (simp_all add: nth_append)
  finally have eq: "elected_neighbors custom topo =
      (c, ?new @ map (\<lambda>i. clear_slot (tp_neighbors topo ! i)) [c..<7])" .
  then show "fst (elected_neighbors custom topo) = c" "take c (snd (elected_neighbors custom topo)) = ?new"
    "drop c (snd (elected_neighbors custom topo)) = map (\<lambda>i. clear_slot (tp_neighbors topo ! i)) [c..<7]"
    "length (snd (elected_neighbors custom topo)) = 7" using c by simp_all
qed

lemma reelect_state:
  assumes ok: "known_ok topo" and known: "tp_known_count topo \<noteq> 0"
    and r: "ekk_topology_reelect custom topo now = (c, after, outs)"
  shows "c = min (tp_known_count topo) (topo_k topo)" "tp_neighbor_count after = c"
    "live_neighbors after = map (\<lambda>i. elect_slot (tp_neighbors topo) (tp_neighbor_count topo) (tp_neighbors topo ! i)
        (by_distance custom topo ! i)) [0..<c]"
    "neighbor_ids after = map de_id (take c (by_distance custom topo))"
    "\<forall>i. c \<le> i \<and> i < 7 \<longrightarrow> nb_id (tp_neighbors after ! i) = 0"
    "known_ok after" "live_known after = live_known topo" "tp_my_id after = tp_my_id topo"
    "tp_config after = tp_config topo" "tp_known_count after = tp_known_count topo"
proof -
  note el = elected_neighbors_eq [OF ok, of custom]
  have cc: "c = min (tp_known_count topo) (topo_k topo)" and
    after: "after = topo\<lparr>tp_neighbors := snd (elected_neighbors custom topo), tp_neighbor_count := c,
      tp_last_reelection := now\<rparr>"
    using r known el(1) by (auto simp: ekk_topology_reelect_def Let_def split_beta)
  from cc show "c = min (tp_known_count topo) (topo_k topo)" .
  show "tp_neighbor_count after = c" by (simp add: after)
  show live: "live_neighbors after = map (\<lambda>i. elect_slot (tp_neighbors topo) (tp_neighbor_count topo) (tp_neighbors topo ! i)
        (by_distance custom topo ! i)) [0..<c]"
    using el(2) by (simp add: live_neighbors_def after cc)
  show "neighbor_ids after = map de_id (take c (by_distance custom topo))"
    using by_distance_length [OF ok, of custom] cc
    by (auto simp: neighbor_ids_def live intro!: nth_equalityI)
  show "\<forall>i. c \<le> i \<and> i < 7 \<longrightarrow> nb_id (tp_neighbors after ! i) = 0"
  proof (intro allI impI)
    fix i assume i: "c \<le> i \<and> i < 7"
    then have "tp_neighbors after ! i = drop c (snd (elected_neighbors custom topo)) ! (i - c)"
      using el(4) by (simp add: after)
    also have "\<dots> = clear_slot (tp_neighbors topo ! i)"
    proof -
      have "i - c < 7 - c" using i by linarith
      then show ?thesis using el(3) [folded cc] i by simp
    qed
    finally show "nb_id (tp_neighbors after ! i) = 0" by (simp add: clear_slot_def)
  qed
  show "known_ok after" using ok el(4) by (simp add: known_ok_def after topo_k_def known_ids_def live_known_def)
  show "live_known after = live_known topo" "tp_my_id after = tp_my_id topo"
    "tp_config after = tp_config topo" "tp_known_count after = tp_known_count topo"
    by (simp_all add: after live_known_def)
qed

lemma by_distance_entries:
  assumes "known_ok topo"
  shows "set (map de_id (by_distance custom topo)) = set (known_ids topo)"
    and "distinct (map de_id (by_distance custom topo))"
    and "sorted (map entry_key (by_distance custom topo))"
    and "e \<in> set (by_distance custom topo) \<Longrightarrow> de_distance e = known_distance custom topo (de_id e)"
proof -
  note srt = sort_by_distance_correct [of "distance_entries custom topo"]
  show "set (map de_id (by_distance custom topo)) = set (known_ids topo)"
    using srt(4) distance_entries_ids [OF assms, of custom] by (metis by_distance_def set_map)
  have "distinct (map de_id (distance_entries custom topo))"
    using assms distance_entries_ids [OF assms, of custom] by (simp add: known_ok_def)
  then show "distinct (map de_id (by_distance custom topo))"
    using srt(2) by (metis by_distance_def mset_eq_imp_distinct_iff mset_map)
  show "sorted (map entry_key (by_distance custom topo))" using srt(1) by (simp add: by_distance_def)
  show "de_distance e = known_distance custom topo (de_id e)" if "e \<in> set (by_distance custom topo)"
    using that srt(4) distance_entries_distance [OF assms] by (simp add: by_distance_def)
qed

text \<open>
  C6. A reelection elects the \<open>k\<close> nearest known modules: their number is the smaller of \<open>k\<close> and the
  number of known modules, they are distinct known modules listed by increasing distance, and
  every elected module is closer than every known module left out, by distance and then by id.
  Each carries its current distance; a module that was a neighbor before keeps all its other
  data.
\<close>

theorem topology_elects_k_nearest:
  assumes "known_ok topo" "tp_known_count topo \<noteq> 0" "tp_neighbor_count topo \<le> EKK_K_NEIGHBORS"
    and "ekk_topology_reelect custom topo now = (c, after, outs)"
  shows "c = min (topo_k topo) (card (set (known_ids topo))) \<and> length (neighbor_ids after) = c
    \<and> distinct (neighbor_ids after) \<and> set (neighbor_ids after) \<subseteq> set (known_ids topo)
    \<and> sorted (map (\<lambda>k. (known_distance custom topo k, k)) (neighbor_ids after))
    \<and> (\<forall>a \<in> set (neighbor_ids after). \<forall>b \<in> set (known_ids topo) - set (neighbor_ids after).
         (known_distance custom topo a, a) < (known_distance custom topo b, b))
    \<and> (\<forall>nb \<in> set (live_neighbors after). nb_logical_distance nb = known_distance custom topo (nb_id nb)
         \<and> (nb_id nb \<in> set (neighbor_ids topo) \<longrightarrow>
              (\<exists>old \<in> set (live_neighbors topo). nb = old\<lparr>nb_logical_distance := nb_logical_distance nb\<rparr>)))"
proof -
  note st = reelect_state [OF assms(1,2,4)]
  note by_d = by_distance_entries [OF assms(1), where custom = custom]
  let ?s = "by_distance custom topo"
  have len: "length ?s = tp_known_count topo" "c \<le> length ?s"
    using by_distance_length [OF assms(1)] st(1) by simp_all
  have key: "entry_key e = (known_distance custom topo (de_id e), de_id e)" if "e \<in> set ?s" for e
    using by_d(4) [OF that] by (simp add: entry_key_def)
  have card: "card (set (known_ids topo)) = tp_known_count topo"
    using by_d(1,2) len(1) by (metis distinct_card length_map)
  have keys: "map (\<lambda>k. (known_distance custom topo k, k)) (map de_id xs) = map entry_key xs"
    if "set xs \<subseteq> set ?s" for xs
    using that key by (auto simp: map_eq_conv)
  have split: "?s = take c ?s @ drop c ?s" by simp
  have "sorted (map (\<lambda>k. (known_distance custom topo k, k)) (neighbor_ids after))"
    using by_d(3) keys [of "take c ?s"] st(4) by (simp add: set_take_subset sorted_wrt_take take_map [symmetric])
  moreover have "distinct (neighbor_ids after)" "set (neighbor_ids after) \<subseteq> set (known_ids topo)"
    using by_d(1,2) st(4) by (metis distinct_take take_map, metis set_take_subset take_map)
  moreover have "(known_distance custom topo a, a) < (known_distance custom topo b, b)"
    if "a \<in> set (neighbor_ids after)" "b \<in> set (known_ids topo) - set (neighbor_ids after)" for a b
  proof -
    from that(1) obtain e where e: "e \<in> set (take c ?s)" "a = de_id e" by (auto simp: st(4))
    from that(2) by_d(1) obtain f where f: "f \<in> set ?s" "b = de_id f" by auto
    with that(2) have "f \<notin> set (take c ?s)" by (auto simp: st(4))
    with f(1) have fd: "f \<in> set (drop c ?s)" using split by (metis Un_iff set_append)
    have "sorted (map entry_key (take c ?s) @ map entry_key (drop c ?s))"
      using by_d(3) by (metis append_take_drop_id map_append)
    then have "entry_key e \<le> entry_key f" using e fd by (auto simp: sorted_append)
    moreover have "a \<noteq> b" using that by auto
    moreover have "e \<in> set ?s" using e(1) by (rule in_set_takeD)
    ultimately show ?thesis using e(2) f key by (auto simp: less_prod_def less_eq_prod_def)
  qed
  moreover have "nb_logical_distance nb = known_distance custom topo (nb_id nb)
      \<and> (nb_id nb \<in> set (neighbor_ids topo) \<longrightarrow>
         (\<exists>old \<in> set (live_neighbors topo). nb = old\<lparr>nb_logical_distance := nb_logical_distance nb\<rparr>))"
    if nb: "nb \<in> set (live_neighbors after)" for nb
  proof -
    from nb obtain i where i: "i < c" and eq: "nb = elect_slot (tp_neighbors topo) (tp_neighbor_count topo)
        (tp_neighbors topo ! i) (?s ! i)" by (auto simp: st(3))
    then have "?s ! i \<in> set ?s" using len by simp
    with eq by_d(4) elect_slot_old [of "tp_neighbor_count topo" "tp_neighbors topo" "?s ! i"] assms(1,3)
    show ?thesis by (auto simp: neighbor_ids_def live_neighbors_def known_ok_def)
  qed
  moreover have "c = min (topo_k topo) (card (set (known_ids topo))) \<and> length (neighbor_ids after) = c"
    using st(1,4) card len(2) by (simp add: min.commute)
  ultimately show ?thesis by blast
qed

section \<open>Runs\<close>

definition position_zero :: ekk_position where
  "position_zero = \<lparr>ps_x = 0, ps_y = 0, ps_z = 0\<rparr>"

text \<open>The topology object before any initialisation, with the static arrays zeroed.\<close>

definition topology_blank :: ekk_topology where
  "topology_blank = \<lparr>tp_my_id = 0, tp_my_position = position_zero, tp_neighbors = [], tp_neighbor_count = 0,
     tp_known = replicate EKK_MAX_MODULES (0, position_zero), tp_known_count = 0, tp_last_discovery = 0,
     tp_last_reelection = 0, tp_config = topology_default_config, tp_discovery_sequence = 0, tp_callback = False\<rparr>"

definition topo_inv :: "ekk_topology \<Rightarrow> bool" where
  "topo_inv topo \<longleftrightarrow>
     known_ok topo \<and> tp_my_id topo \<noteq> 0
     \<and> tp_neighbor_count topo = min (tp_known_count topo) (topo_k topo)
     \<and> distinct (neighbor_ids topo) \<and> set (neighbor_ids topo) \<subseteq> set (known_ids topo)
     \<and> (\<forall>i. tp_neighbor_count topo \<le> i \<and> i < 7 \<longrightarrow> nb_id (tp_neighbors topo ! i) = 0)"

lemma topo_inv_init:
  assumes "my_id \<noteq> 0" "length (tp_known topo) = 256" "k \<le> 7"
    and "config = None \<or> config = Some c \<and> k = unat (tc_k_neighbors c)"
  shows "topo_inv (snd (ekk_topology_init topo my_id pos config))"
  using assms
  by (auto simp: ekk_topology_init_def topo_inv_def known_ok_def topo_k_def known_ids_def live_known_def
      neighbor_ids_def live_neighbors_def topology_default_config_def blank_neighbor_def)

lemma topo_inv_reelect:
  assumes ok: "known_ok topo" "tp_my_id topo \<noteq> 0"
    and empty: "tp_known_count topo = 0 \<Longrightarrow> \<forall>i < 7. nb_id (tp_neighbors topo ! i) = 0"
  shows "topo_inv (fst (snd (ekk_topology_reelect custom topo now)))"
    "live_known (fst (snd (ekk_topology_reelect custom topo now))) = live_known topo"
    "tp_config (fst (snd (ekk_topology_reelect custom topo now))) = tp_config topo"
    "tp_my_id (fst (snd (ekk_topology_reelect custom topo now))) = tp_my_id topo"
proof -
  have "topo_inv (fst (snd (ekk_topology_reelect custom topo now)))
    \<and> live_known (fst (snd (ekk_topology_reelect custom topo now))) = live_known topo
    \<and> tp_config (fst (snd (ekk_topology_reelect custom topo now))) = tp_config topo
    \<and> tp_my_id (fst (snd (ekk_topology_reelect custom topo now))) = tp_my_id topo"
  proof (cases "tp_known_count topo = 0")
    case True
    with ok empty show ?thesis
      by (simp add: ekk_topology_reelect_def topo_inv_def known_ok_def topo_k_def known_ids_def live_known_def
          neighbor_ids_def live_neighbors_def)
  next
    case False
    obtain c after outs where r: "ekk_topology_reelect custom topo now = (c, after, outs)"
      using prod_cases3 by blast
    note st = reelect_state [OF ok(1) False r]
    note by_d = by_distance_entries [OF ok(1), where custom = custom]
    have "distinct (neighbor_ids after)" "set (neighbor_ids after) \<subseteq> set (known_ids topo)"
      using by_d(1,2) st(4) by (metis distinct_take take_map, metis set_take_subset take_map)
    with st ok(2) r show ?thesis by (simp add: topo_inv_def topo_k_def known_ids_def)
  qed
  then show "topo_inv (fst (snd (ekk_topology_reelect custom topo now)))"
    "live_known (fst (snd (ekk_topology_reelect custom topo now))) = live_known topo"
    "tp_config (fst (snd (ekk_topology_reelect custom topo now))) = tp_config topo"
    "tp_my_id (fst (snd (ekk_topology_reelect custom topo now))) = tp_my_id topo" by simp_all
qed

lemma find_known_index_live:
  assumes "known_ok topo"
  shows "find_known_index topo k = None \<longleftrightarrow> k \<notin> set (known_ids topo)"
    and "find_known_index topo k = Some i \<Longrightarrow> i < tp_known_count topo \<and> i < 256 \<and> fst (tp_known topo ! i) = k"
  using assms
  by (auto simp: find_known_index_def find_key_None_iff known_ids_def live_known_def known_ok_def
      dest: find_from_SomeD)

text \<open>Learning of a module updates its position or appends it.\<close>

lemma add_to_known_state:
  assumes inv: "topo_inv topo" and k: "k \<noteq> 0" "k \<noteq> tp_my_id topo"
    and add: "add_to_known topo k pos = (idx, topo')"
  shows "known_ok topo'" "tp_my_id topo' = tp_my_id topo" "tp_config topo' = tp_config topo"
    "tp_neighbors topo' = tp_neighbors topo" "tp_neighbor_count topo' = tp_neighbor_count topo"
    "idx = None \<longleftrightarrow> k \<notin> set (known_ids topo) \<and> tp_known_count topo = 256"
    "known_ids topo' = (if k \<in> set (known_ids topo) \<or> tp_known_count topo = 256 then known_ids topo
      else known_ids topo @ [k])"
proof -
  from inv have ok: "known_ok topo" by (simp add: topo_inv_def)
  then have len: "length (tp_known topo) = 256" "tp_known_count topo \<le> 256" by (simp_all add: known_ok_def)
  note find = find_known_index_live [OF ok, of k]
  show frame: "tp_my_id topo' = tp_my_id topo" "tp_config topo' = tp_config topo"
    "tp_neighbors topo' = tp_neighbors topo" "tp_neighbor_count topo' = tp_neighbor_count topo"
    using add by (auto simp: add_to_known_def split: option.splits if_splits)
  show "idx = None \<longleftrightarrow> k \<notin> set (known_ids topo) \<and> tp_known_count topo = 256"
    using add find(1) len(2) by (cases "find_known_index topo k") (auto simp: add_to_known_def split: if_splits)
  show ids: "known_ids topo' = (if k \<in> set (known_ids topo) \<or> tp_known_count topo = 256 then known_ids topo
      else known_ids topo @ [k])"
  proof (cases "find_known_index topo k")
    case None
    with add find(1) len show ?thesis
      by (auto simp: add_to_known_def known_ids_def live_known_def take_snoc_update split: if_splits)
  next
    case (Some i)
    with find have "k \<in> set (known_ids topo)" "i < 256" "fst (tp_known topo ! i) = k" by auto
    with Some add len show ?thesis
      by (auto simp: add_to_known_def known_ids_def live_known_def take_map [symmetric])
  qed
  have count: "tp_known_count topo' = length (known_ids topo')" "length (tp_known topo') = 256"
    using add len by (auto simp: add_to_known_def known_ids_def live_known_def split: option.splits if_splits)
  have "tp_known_count topo' \<le> 256"
    using add len by (auto simp: add_to_known_def split: option.splits if_splits)
  with ok ids frame count k show "known_ok topo'" by (auto simp: known_ok_def topo_k_def split: if_splits)
qed

lemma on_discovery_state:
  assumes inv: "topo_inv topo" and d: "ekk_topology_on_discovery custom topo k pos now = (r, after, outs)"
  shows "topo_inv after" "tp_config after = tp_config topo" "tp_my_id after = tp_my_id topo"
    "r = EKK_OK \<and> k \<noteq> tp_my_id topo \<Longrightarrow> k \<in> set (known_ids after)"
    "set (known_ids topo) \<subseteq> set (known_ids after)"
proof -
  have "topo_inv after \<and> tp_config after = tp_config topo \<and> tp_my_id after = tp_my_id topo
    \<and> (r = EKK_OK \<and> k \<noteq> tp_my_id topo \<longrightarrow> k \<in> set (known_ids after))
    \<and> set (known_ids topo) \<subseteq> set (known_ids after)"
  proof (cases "k = 0 \<or> k = tp_my_id topo")
    case True
    then have "after = topo" "r = EKK_OK \<longrightarrow> k = tp_my_id topo"
      using d by (auto simp: ekk_topology_on_discovery_def split: if_splits)
    with inv show ?thesis by auto
  next
    case False
    obtain idx topo' where add: "add_to_known topo k pos = (idx, topo')" by fastforce
    have k: "k \<noteq> 0" "k \<noteq> tp_my_id topo" using False by auto
    note st = add_to_known_state [OF inv k add]
    have kc: "tp_known_count topo' = length (known_ids topo')"
      using st(1) by (simp add: known_ok_def known_ids_def live_known_def)
    have kc0: "tp_known_count topo = length (known_ids topo)"
      using inv by (simp add: topo_inv_def known_ok_def known_ids_def live_known_def)
    show ?thesis
    proof (cases "idx = None")
      case True
      then have "topo' = topo" using add by (auto simp: add_to_known_def split: option.splits if_splits)
      with True False inv d add show ?thesis by (auto simp: ekk_topology_on_discovery_def)
    next
      case some: False
      with st(6,7) have known: "k \<in> set (known_ids topo')" "set (known_ids topo) \<subseteq> set (known_ids topo')"
        and grow: "length (known_ids topo) \<le> length (known_ids topo')" by (auto split: if_splits)
      show ?thesis
      proof (cases "tp_neighbor_count topo' < topo_k topo'")
        case True
        have "tp_known_count topo' \<noteq> 0" using known(1) kc by auto
        then have "topo_inv (fst (snd (ekk_topology_reelect custom topo' now)))
          \<and> live_known (fst (snd (ekk_topology_reelect custom topo' now))) = live_known topo'
          \<and> tp_config (fst (snd (ekk_topology_reelect custom topo' now))) = tp_config topo'
          \<and> tp_my_id (fst (snd (ekk_topology_reelect custom topo' now))) = tp_my_id topo'"
          using topo_inv_reelect [of topo' custom now] st(1,2) inv by (simp add: topo_inv_def)
        moreover have "after = fst (snd (ekk_topology_reelect custom topo' now))"
          using d True False add some by (auto simp: ekk_topology_on_discovery_def topo_k_def)
        ultimately show ?thesis using st(2,3) known by (simp add: known_ids_def)
      next
        case full: False
        then have after: "after = topo'"
          using d False add some by (auto simp: ekk_topology_on_discovery_def topo_k_def)
        have "tp_neighbor_count topo = min (length (known_ids topo)) (topo_k topo)"
          using inv kc0 by (simp add: topo_inv_def)
        then have "tp_neighbor_count topo' = min (length (known_ids topo')) (topo_k topo')"
          using full st(3,5) grow by (auto simp: topo_k_def)
        moreover have nb: "neighbor_ids topo' = neighbor_ids topo"
          using st(4,5) by (simp add: neighbor_ids_def live_neighbors_def)
        ultimately have "topo_inv topo'"
          using inv st(1,2,4,5) known(2) kc nb unfolding topo_inv_def by auto
        with after st(2,3) known show ?thesis by simp
      qed
    qed
  qed
  then show "topo_inv after" "tp_config after = tp_config topo" "tp_my_id after = tp_my_id topo"
    "r = EKK_OK \<and> k \<noteq> tp_my_id topo \<Longrightarrow> k \<in> set (known_ids after)"
    "set (known_ids topo) \<subseteq> set (known_ids after)" by simp_all
qed

lemma remove_from_known_ids:
  assumes "known_ok topo"
  shows "known_ids (remove_from_known topo k) = remove1 k (known_ids topo)"
    and "known_ok (remove_from_known topo k)"
    and "tp_neighbors (remove_from_known topo k) = tp_neighbors topo"
    and "tp_neighbor_count (remove_from_known topo k) = tp_neighbor_count topo"
    and "tp_config (remove_from_known topo k) = tp_config topo"
    and "tp_my_id (remove_from_known topo k) = tp_my_id topo"
proof -
  from assms have len: "length (tp_known topo) = 256" "tp_known_count topo \<le> 256" by (simp_all add: known_ok_def)
  show ids: "known_ids (remove_from_known topo k) = remove1 k (known_ids topo)"
  proof (cases "find_known_index topo k")
    case None
    with find_known_index_live(1) [OF assms, of k] show ?thesis by (simp add: remove_from_known_def remove1_idem)
  next
    case (Some i)
    then have "find_key fst k (tp_known topo) (tp_known_count topo) = Some i" by (simp add: find_known_index_def)
    with map_shift_down_key [of "tp_known_count topo" "tp_known topo" fst k i] len Some show ?thesis
      by (simp add: remove_from_known_def known_ids_def live_known_def)
  qed
  show "tp_neighbors (remove_from_known topo k) = tp_neighbors topo"
    "tp_neighbor_count (remove_from_known topo k) = tp_neighbor_count topo"
    "tp_config (remove_from_known topo k) = tp_config topo"
    "tp_my_id (remove_from_known topo k) = tp_my_id topo"
    by (auto simp: remove_from_known_def split: option.split)
  moreover have "length (tp_known (remove_from_known topo k)) = 256 \<and> tp_known_count (remove_from_known topo k) \<le> 256"
    using len by (auto simp: remove_from_known_def split: option.split)
  ultimately show "known_ok (remove_from_known topo k)"
    using assms ids by (auto simp: known_ok_def topo_k_def dest: notin_set_remove1)
qed

lemma drop_neighbor_state:
  assumes inv: "topo_inv topo" and idx: "find_neighbor_index topo lost = Some idx"
  shows "known_ok (drop_neighbor topo idx lost)" "tp_my_id (drop_neighbor topo idx lost) = tp_my_id topo"
    "tp_config (drop_neighbor topo idx lost) = tp_config topo"
    "known_ids (drop_neighbor topo idx lost) = remove1 lost (known_ids topo)"
    "tp_known_count (drop_neighbor topo idx lost) = 0 \<Longrightarrow>
      \<forall>i < 7. nb_id (tp_neighbors (drop_neighbor topo idx lost) ! i) = 0"
proof -
  from inv have ok: "known_ok topo" by (simp add: topo_inv_def)
  have i: "idx < tp_neighbor_count topo" "nb_id (tp_neighbors topo ! idx) = lost"
    using idx by (auto simp: find_neighbor_index_def dest: find_from_SomeD)
  define a where "a = topo\<lparr>tp_neighbors := (tp_neighbors topo)[idx :=
    (tp_neighbors topo ! idx)\<lparr>nb_id := EKK_INVALID_MODULE_ID, nb_health := EKK_HEALTH_DEAD\<rparr>]\<rparr>"
  have a_ok: "known_ok a" using ok by (simp add: a_def known_ok_def known_ids_def live_known_def topo_k_def)
  have a_ids: "known_ids a = known_ids topo" by (simp add: a_def known_ids_def live_known_def)
  note rem = remove_from_known_ids [OF a_ok, of lost]
  define b where "b = remove_from_known a lost"
  have n7: "length (tp_neighbors topo) = 7" "tp_neighbor_count topo \<le> 7" using inv by (auto simp: topo_inv_def known_ok_def)
  have drop: "drop_neighbor topo idx lost = (let c = b\<lparr>tp_neighbors := shift_down (tp_neighbors b) idx (tp_neighbor_count b),
      tp_neighbor_count := tp_neighbor_count b - 1\<rparr> in c\<lparr>tp_neighbors := (tp_neighbors c)[tp_neighbor_count c :=
      clear_slot (tp_neighbors c ! tp_neighbor_count c)]\<rparr>)"
    using n7 i(1) rem(4) by (simp add: drop_neighbor_def Let_def a_def b_def)
  show "tp_my_id (drop_neighbor topo idx lost) = tp_my_id topo" "tp_config (drop_neighbor topo idx lost) = tp_config topo"
    using rem(5,6) by (simp_all add: drop Let_def b_def a_def)
  have known: "live_known (drop_neighbor topo idx lost) = live_known b"
    "tp_known_count (drop_neighbor topo idx lost) = tp_known_count b"
    by (simp_all add: drop Let_def live_known_def)
  then show ids: "known_ids (drop_neighbor topo idx lost) = remove1 lost (known_ids topo)"
    using rem(1) a_ids by (simp add: known_ids_def b_def)
  show "known_ok (drop_neighbor topo idx lost)"
    using rem(2) known by (simp add: b_def known_ok_def drop Let_def topo_k_def known_ids_def live_known_def)
  show "\<forall>i < 7. nb_id (tp_neighbors (drop_neighbor topo idx lost) ! i) = 0"
    if empty: "tp_known_count (drop_neighbor topo idx lost) = 0"
  proof -
    have "remove1 lost (known_ids topo) = []" using ids empty by (simp add: known_ids_def live_known_def)
    moreover have "length (known_ids topo) = tp_known_count topo"
      using ok by (simp add: known_ids_def live_known_def known_ok_def)
    moreover have "length (known_ids topo) \<le> 1" using calculation(1)
      by (cases "lost \<in> set (known_ids topo)") (auto simp: length_remove1 remove1_idem dest: arg_cong [of _ _ length])
    ultimately have one: "tp_neighbor_count topo = 1" "idx = 0" using i(1) inv by (auto simp: topo_inv_def)
    have b: "tp_neighbors b = tp_neighbors a" "tp_neighbor_count b = 1"
      using rem(3,4) one(1) by (simp_all add: b_def a_def)
    have "tp_neighbors (drop_neighbor topo idx lost) = (tp_neighbors a)[0 := clear_slot (tp_neighbors a ! 0)]"
      unfolding drop Let_def by (simp add: b one(2) shift_down_end)
    with one inv n7(1) show ?thesis by (auto simp: topo_inv_def a_def nth_list_update clear_slot_def)
  qed
qed

datatype topology_event =
    TpDiscovery u8 ekk_position u64
  | TpLost u8 u64
  | TpReelect u64
  | TpTick u64

fun topology_step :: "(u8 \<Rightarrow> u8 \<Rightarrow> int) \<Rightarrow> ekk_topology \<Rightarrow> topology_event \<Rightarrow> ekk_topology" where
  "topology_step custom topo (TpDiscovery k pos now) = fst (snd (ekk_topology_on_discovery custom topo k pos now))"
| "topology_step custom topo (TpLost k now) = fst (snd (ekk_topology_on_neighbor_lost custom topo k now))"
| "topology_step custom topo (TpReelect now) = fst (snd (ekk_topology_reelect custom topo now))"
| "topology_step custom topo (TpTick now) = fst (snd (ekk_topology_tick topo now))"

lemma topo_inv_lost:
  assumes inv: "topo_inv topo" and l: "ekk_topology_on_neighbor_lost custom topo lost now = (r, after, outs)"
  shows "topo_inv after" "tp_config after = tp_config topo" "tp_my_id after = tp_my_id topo"
    "r = EKK_OK \<longleftrightarrow> lost \<in> set (neighbor_ids topo)"
    "known_ids after = (if r = EKK_OK then remove1 lost (known_ids topo) else known_ids topo)"
proof -
  have n7: "tp_neighbor_count topo \<le> length (tp_neighbors topo)"
    using inv by (auto simp: topo_inv_def known_ok_def)
  have zero: "0 \<notin> set (neighbor_ids topo)" using inv by (auto simp: topo_inv_def known_ok_def)
  have member: "find_neighbor_index topo lost = None \<longleftrightarrow> lost \<notin> set (neighbor_ids topo)"
    using n7 by (simp add: find_neighbor_index_def find_key_None_iff neighbor_ids_def live_neighbors_def)
  have "topo_inv after \<and> tp_config after = tp_config topo \<and> tp_my_id after = tp_my_id topo
    \<and> (r = EKK_OK \<longleftrightarrow> lost \<in> set (neighbor_ids topo))
    \<and> known_ids after = (if r = EKK_OK then remove1 lost (known_ids topo) else known_ids topo)"
  proof (cases "find_neighbor_index topo lost")
    case None
    with inv l member zero show ?thesis by (auto simp: ekk_topology_on_neighbor_lost_def split: if_splits)
  next
    case (Some idx)
    note st = drop_neighbor_state [OF inv Some]
    have lost: "lost \<in> set (neighbor_ids topo)" using Some member by auto
    with zero have "lost \<noteq> 0" by auto
    with Some l have after: "r = EKK_OK" "after = fst (snd (ekk_topology_reelect custom (drop_neighbor topo idx lost) now))"
      by (auto simp: ekk_topology_on_neighbor_lost_def)
    have me: "tp_my_id (drop_neighbor topo idx lost) \<noteq> 0" using st(2) inv by (simp add: topo_inv_def)
    from topo_inv_reelect [OF st(1) me st(5), of custom now] after st(2-4) lost show ?thesis
      by (simp add: known_ids_def)
  qed
  then show "topo_inv after" "tp_config after = tp_config topo" "tp_my_id after = tp_my_id topo"
    "r = EKK_OK \<longleftrightarrow> lost \<in> set (neighbor_ids topo)"
    "known_ids after = (if r = EKK_OK then remove1 lost (known_ids topo) else known_ids topo)" by simp_all
qed

lemma topology_tick_frame:
  "ekk_topology_tick topo now = (r, after, msgs) \<Longrightarrow>
   live_known after = live_known topo \<and> tp_neighbors after = tp_neighbors topo
   \<and> tp_neighbor_count after = tp_neighbor_count topo \<and> tp_known after = tp_known topo
   \<and> tp_known_count after = tp_known_count topo \<and> tp_config after = tp_config topo \<and> tp_my_id after = tp_my_id topo"
  by (auto simp: ekk_topology_tick_def discover_if_def send_discovery_def live_known_def Let_def split: if_splits)

lemma topo_inv_tick: "topo_inv topo \<Longrightarrow> topo_inv (fst (snd (ekk_topology_tick topo now)))"
proof -
  assume inv: "topo_inv topo"
  obtain r after msgs where tick: "ekk_topology_tick topo now = (r, after, msgs)" using prod_cases3 by blast
  from topology_tick_frame [OF tick]
  have "known_ids after = known_ids topo" "neighbor_ids after = neighbor_ids topo" "topo_k after = topo_k topo"
    "known_ok after = known_ok topo" "tp_neighbors after = tp_neighbors topo"
    "tp_neighbor_count after = tp_neighbor_count topo" "tp_known_count after = tp_known_count topo"
    "tp_my_id after = tp_my_id topo"
    by (simp_all add: known_ok_def known_ids_def topo_k_def neighbor_ids_def live_neighbors_def)
  with inv show ?thesis unfolding topo_inv_def by (simp add: tick)
qed

text \<open>The machine: the invariant, together with the configuration and the module's own id.\<close>

interpretation tp: event_machine "topology_step custom" "\<lambda>topo. topo_inv topo \<and> tp_config topo = c \<and> tp_my_id topo = me"
  for custom c me
proof unfold_locales
  fix topo e assume inv: "topo_inv topo \<and> tp_config topo = c \<and> tp_my_id topo = me"
  show "topo_inv (topology_step custom topo e) \<and> tp_config (topology_step custom topo e) = c
      \<and> tp_my_id (topology_step custom topo e) = me"
  proof (cases e)
    case (TpDiscovery i pos now)
    obtain r after outs where d: "ekk_topology_on_discovery custom topo i pos now = (r, after, outs)"
      using prod_cases3 by blast
    from on_discovery_state(1-3) [OF _ d] inv TpDiscovery d show ?thesis by simp
  next
    case (TpLost i now)
    obtain r after outs where l: "ekk_topology_on_neighbor_lost custom topo i now = (r, after, outs)"
      using prod_cases3 by blast
    from topo_inv_lost(1-3) [OF _ l] inv TpLost l show ?thesis by simp
  next
    case (TpReelect now)
    from inv have "tp_known_count topo = 0 \<Longrightarrow> \<forall>i < 7. nb_id (tp_neighbors topo ! i) = 0"
      and "known_ok topo" "tp_my_id topo \<noteq> 0" by (auto simp: topo_inv_def)
    from topo_inv_reelect(1,3,4) [OF this(2,3,1), of custom now] inv TpReelect show ?thesis
      by simp
  next
    case (TpTick now)
    obtain r after msgs where tick: "ekk_topology_tick topo now = (r, after, msgs)" using prod_cases3 by blast
    from topology_tick_frame [OF tick] topo_inv_tick [of topo now] inv TpTick tick show ?thesis
      by simp
  qed
qed

text \<open>What a module knows after a discovery: there is always room for one more id.\<close>

lemma on_discovery_knows:
  assumes inv: "topo_inv topo" and k: "k \<noteq> 0" "k \<noteq> tp_my_id topo"
    and d: "ekk_topology_on_discovery custom topo k pos now = (r, after, outs)"
  shows "r = EKK_OK" "set (known_ids after) = insert k (set (known_ids topo))"
proof -
  obtain idx topo' where add: "add_to_known topo k pos = (idx, topo')" by fastforce
  note st = add_to_known_state [OF inv k add]
  have ids: "distinct (known_ids topo)" "0 \<notin> set (known_ids topo)" "length (known_ids topo) = tp_known_count topo"
    using inv by (simp_all add: topo_inv_def known_ok_def known_ids_def live_known_def)
  have room: "k \<in> set (known_ids topo) \<or> tp_known_count topo \<noteq> 256"
    using card_u8_ids [OF ids(1,2) _ k(1)] ids(3) by auto
  then have some: "idx \<noteq> None" and known: "set (known_ids topo') = insert k (set (known_ids topo))"
    using st(6,7) by auto
  have elected: "known_ids (fst (snd (ekk_topology_reelect custom topo' now))) = known_ids topo'"
    unfolding known_ids_def
  proof (rule arg_cong [OF topo_inv_reelect(2)])
    show "known_ok topo'" "tp_my_id topo' \<noteq> 0" using st(1,2) inv by (simp_all add: topo_inv_def)
    have "length (known_ids topo') = tp_known_count topo'" using st(1) by (simp add: known_ok_def known_ids_def live_known_def)
    then show "tp_known_count topo' = 0 \<Longrightarrow> \<forall>i < 7. nb_id (tp_neighbors topo' ! i) = 0" using known by auto
  qed
  have "r = EKK_OK \<and> known_ids after = known_ids topo'"
  proof (cases "tp_neighbor_count topo' < topo_k topo'")
    case True
    then have "r = EKK_OK" "after = fst (snd (ekk_topology_reelect custom topo' now))"
      using d k add some by (auto simp: ekk_topology_on_discovery_def topo_k_def)
    with elected show ?thesis by simp
  next
    case False
    then show ?thesis using d k add some by (auto simp: ekk_topology_on_discovery_def topo_k_def)
  qed
  with known show "r = EKK_OK" "set (known_ids after) = insert k (set (known_ids topo))" by auto
qed

lemma neighbor_count_card:
  assumes "topo_inv topo"
  shows "length (neighbor_ids topo) = min (topo_k topo) (card (set (known_ids topo)))"
proof -
  have "distinct (known_ids topo)" "length (known_ids topo) = tp_known_count topo"
    using assms by (simp_all add: topo_inv_def known_ok_def known_ids_def live_known_def)
  then have "card (set (known_ids topo)) = tp_known_count topo" by (simp add: distinct_card)
  moreover have "tp_neighbor_count topo \<le> length (tp_neighbors topo)" using assms by (auto simp: topo_inv_def known_ok_def)
  ultimately show ?thesis using assms by (simp add: neighbor_ids_def live_neighbors_def topo_inv_def min.commute)
qed

lemma lost_unknown:
  assumes "topo_inv topo" "lost \<notin> set (neighbor_ids topo)"
    and "ekk_topology_on_neighbor_lost custom topo lost now = (r, after, outs)"
  shows "r \<noteq> EKK_OK" "after = topo"
proof -
  show r: "r \<noteq> EKK_OK" using topo_inv_lost(4) [OF assms(1,3)] assms(2) by simp
  then show "after = topo"
    using assms(3) by (auto simp: ekk_topology_on_neighbor_lost_def split: if_splits option.splits)
qed

text \<open>
  C27. After any sequence of discoveries, losses, reelections and ticks from init (with \<open>k\<close> at most
  seven), a module has as many neighbors as it can: the smaller of \<open>k\<close> and the number of modules
  it knows; they are distinct known modules, never itself or the invalid id, and the unused
  slots are marked invalid. Whatever the module had heard before, nothing or anything, a discovery by
  another module adds exactly that module to the known ones and, while places are free, one more neighbor. A
  neighbor reported lost is forgotten, and its place is filled whenever a known module is left to
  fill it; a report about a module that is no neighbor is refused and changes nothing.
\<close>

theorem topology_keeps_k_neighbors:
  assumes "my_id \<noteq> EKK_INVALID_MODULE_ID" "unat (tc_k_neighbors c) \<le> EKK_K_NEIGHBORS"
    and "topo = foldl (topology_step custom) (snd (ekk_topology_init topology_blank my_id pos (Some c))) es"
  shows "length (neighbor_ids topo) = min (unat (tc_k_neighbors c)) (card (set (known_ids topo)))
    \<and> distinct (neighbor_ids topo) \<and> set (neighbor_ids topo) \<subseteq> set (known_ids topo)
    \<and> my_id \<notin> set (known_ids topo) \<and> EKK_INVALID_MODULE_ID \<notin> set (known_ids topo)
    \<and> (\<forall>i. length (neighbor_ids topo) \<le> i \<and> i < EKK_K_NEIGHBORS \<longrightarrow>
         nb_id (tp_neighbors topo ! i) = EKK_INVALID_MODULE_ID)
    \<and> (\<forall>sender p now r after outs. sender \<noteq> EKK_INVALID_MODULE_ID \<and> sender \<noteq> my_id \<and>
         ekk_topology_on_discovery custom topo sender p now = (r, after, outs) \<longrightarrow>
         r = EKK_OK \<and> set (known_ids after) = insert sender (set (known_ids topo))
         \<and> length (neighbor_ids after) = min (unat (tc_k_neighbors c)) (card (insert sender (set (known_ids topo)))))
    \<and> (\<forall>lost now r after outs. ekk_topology_on_neighbor_lost custom topo lost now = (r, after, outs) \<longrightarrow>
         (if lost \<in> set (neighbor_ids topo)
          then r = EKK_OK \<and> set (known_ids after) = set (known_ids topo) - {lost}
            \<and> length (neighbor_ids after) = min (unat (tc_k_neighbors c)) (card (set (known_ids topo)) - 1)
          else r \<noteq> EKK_OK \<and> after = topo))"
proof -
  let ?init = "snd (ekk_topology_init topology_blank my_id pos (Some c))"
  have "topo_inv ?init" by (rule topo_inv_init [of _ _ "unat (tc_k_neighbors c)"]) (use assms in \<open>simp_all add: topology_blank_def\<close>)
  then have init: "topo_inv ?init \<and> tp_config ?init = c \<and> tp_my_id ?init = my_id"
    using assms(1) by (simp add: ekk_topology_init_def)
  have inv: "topo_inv topo" "topo_k topo = unat (tc_k_neighbors c)" "tp_my_id topo = my_id"
    using tp.inv_run [OF init, of custom es] assms(3) by (simp_all add: topo_k_def)
  have now_k: "length (neighbor_ids topo) = min (unat (tc_k_neighbors c)) (card (set (known_ids topo)))"
    using neighbor_count_card [OF inv(1)] inv(2) by simp
  have found: "r = EKK_OK \<and> set (known_ids after) = insert sender (set (known_ids topo))
      \<and> length (neighbor_ids after) = min (unat (tc_k_neighbors c)) (card (insert sender (set (known_ids topo))))"
    if "sender \<noteq> EKK_INVALID_MODULE_ID \<and> sender \<noteq> my_id \<and> ekk_topology_on_discovery custom topo sender p now = (r, after, outs)"
    for sender p now r after outs
    using on_discovery_knows [OF inv(1), of sender custom p now r after outs] that inv(2,3)
      on_discovery_state(1,2) [OF inv(1), of custom sender p now r after outs] neighbor_count_card [of after]
    by (simp add: topo_k_def)
  have gone: "if lost \<in> set (neighbor_ids topo)
      then r = EKK_OK \<and> set (known_ids after) = set (known_ids topo) - {lost}
        \<and> length (neighbor_ids after) = min (unat (tc_k_neighbors c)) (card (set (known_ids topo)) - 1)
      else r \<noteq> EKK_OK \<and> after = topo"
    if l: "ekk_topology_on_neighbor_lost custom topo lost now = (r, after, outs)" for lost now r after outs
  proof (cases "lost \<in> set (neighbor_ids topo)")
    case True
    note lost = topo_inv_lost [OF inv(1) l]
    have "distinct (known_ids topo)" "lost \<in> set (known_ids topo)" using inv(1) True by (auto simp: topo_inv_def known_ok_def)
    then show ?thesis
      using True lost neighbor_count_card [OF lost(1)] inv(2) by (simp add: topo_k_def)
  qed (use lost_unknown [OF inv(1) _ l] in simp)
  have count: "length (neighbor_ids topo) = tp_neighbor_count topo"
    using inv(1) by (auto simp: neighbor_ids_def live_neighbors_def topo_inv_def known_ok_def)
  have "distinct (neighbor_ids topo) \<and> set (neighbor_ids topo) \<subseteq> set (known_ids topo)
    \<and> my_id \<notin> set (known_ids topo) \<and> EKK_INVALID_MODULE_ID \<notin> set (known_ids topo)
    \<and> (\<forall>i. length (neighbor_ids topo) \<le> i \<and> i < EKK_K_NEIGHBORS \<longrightarrow>
         nb_id (tp_neighbors topo ! i) = EKK_INVALID_MODULE_ID)"
    using inv(1,3) count by (simp add: topo_inv_def known_ok_def)
  with now_k found gone show ?thesis by blast
qed

definition topology_example :: ekk_topology where
  "topology_example = foldl (topology_step ekk_topology_distance_custom)
     (snd (ekk_topology_init topology_blank 10 position_zero (Some topology_default_config)))
     [TpDiscovery 12 position_zero 0, TpDiscovery 3 position_zero 0]"

lemma topology_example_ids:
  "neighbor_ids topology_example = [12, 3]" "known_ids topology_example = [12, 3]"
  by code_simp+

theorem topology_keeps_k_neighbors_witness:
  "length (neighbor_ids (fst (snd (ekk_topology_on_neighbor_lost ekk_topology_distance_custom topology_example 12 9)))) = 1
   \<and> length (neighbor_ids (fst (snd (ekk_topology_on_discovery ekk_topology_distance_custom topology_example 20 position_zero 9)))) = 3"
proof -
  obtain r after outs where
    l: "ekk_topology_on_neighbor_lost ekk_topology_distance_custom topology_example 12 9 = (r, after, outs)"
    using prod_cases3 by blast
  obtain q found new where
    d: "ekk_topology_on_discovery ekk_topology_distance_custom topology_example 20 position_zero 9 = (q, found, new)"
    using prod_cases3 by blast
  have seven: "unat (tc_k_neighbors topology_default_config) = 7" by (simp add: topology_default_config_def)
  then have ok: "(10 :: u8) \<noteq> EKK_INVALID_MODULE_ID" "unat (tc_k_neighbors topology_default_config) \<le> EKK_K_NEIGHBORS"
    by simp_all
  note keeps = topology_keeps_k_neighbors [OF ok topology_example_def, unfolded topology_example_ids,
      THEN conjunct2, THEN conjunct2, THEN conjunct2, THEN conjunct2, THEN conjunct2, THEN conjunct2]
  show ?thesis
    using keeps [THEN conjunct1, rule_format, of 20 position_zero 9 q found new]
      keeps [THEN conjunct2, rule_format, of 12 9 r after outs] l d seven by simp
qed

theorem topology_elects_k_nearest_witness:
  "known_distance ekk_topology_distance_custom topology_example 12 = 2
   \<and> sorted (map (\<lambda>k. (known_distance ekk_topology_distance_custom topology_example k, k))
        (neighbor_ids (fst (snd (ekk_topology_reelect ekk_topology_distance_custom topology_example 9)))))"
proof -
  obtain c after outs where
    r: "ekk_topology_reelect ekk_topology_distance_custom topology_example 9 = (c, after, outs)"
    using prod_cases3 by blast
  have ok: "known_ok topology_example" "tp_known_count topology_example \<noteq> 0" "tp_neighbor_count topology_example \<le> 7"
    by code_simp+
  have "known_distance ekk_topology_distance_custom topology_example 12 = 2" by code_simp
  with topology_elects_k_nearest [OF ok r] r show ?thesis by simp
qed

end
