(* ===== verification/Ekk_Consensus.thy ===== *)
theory Ekk_Consensus
  imports Ekk_Interfaces
begin

unbundle bit_operations_syntax

text \<open>
  Threshold voting with inhibition, and the quarantine protocol (\<open>src/ekk_consensus.c\<close>,
  \<open>include/ekk/ekk_consensus.h\<close>). The two callbacks are arguments: \<open>decide\<close> is what the decision
  callback answers (\<open>None\<close> when none is set), \<open>complete\<close> whether a completion callback is set. An
  operation returns the messages it sends and the completions it reports. The callbacks are
  assumed not to modify the engine. The arrays \<open>inhibited\<close> and \<open>inhibit_until\<close>, always used at
  the same index, are one list of pairs.
\<close>

section \<open>Model\<close>

abbreviation (input) EKK_K_NEIGHBORS_U32 :: u32 where "EKK_K_NEIGHBORS_U32 \<equiv> 7"
abbreviation (input) EKK_VOTE_TIMEOUT_US :: u64 where "EKK_VOTE_TIMEOUT_US \<equiv> 50000"
abbreviation (input) EKK_INVALID_BALLOT_ID :: u16 where "EKK_INVALID_BALLOT_ID \<equiv> 0"
abbreviation (input) EKK_QUARANTINE_MAX_WITNESSES :: nat where "EKK_QUARANTINE_MAX_WITNESSES \<equiv> 3"

text \<open>\<open>EKK_FLOAT_TO_FIXED(0.50f)\<close>, \<open>(0.67f)\<close> and \<open>(1.00f)\<close>.\<close>

abbreviation (input) EKK_THRESHOLD_SIMPLE_MAJORITY :: int where "EKK_THRESHOLD_SIMPLE_MAJORITY \<equiv> 32768"
abbreviation (input) EKK_THRESHOLD_SUPERMAJORITY :: int where "EKK_THRESHOLD_SUPERMAJORITY \<equiv> 43909"
abbreviation (input) EKK_THRESHOLD_UNANIMOUS :: int where "EKK_THRESHOLD_UNANIMOUS \<equiv> 65536"

text \<open>Applications extend the proposal types; \<open>EKK_PROPOSAL_OTHER\<close> stands for their values.\<close>

datatype ekk_proposal_type =
    EKK_PROPOSAL_MODE_CHANGE
  | EKK_PROPOSAL_POWER_LIMIT
  | EKK_PROPOSAL_SHUTDOWN
  | EKK_PROPOSAL_REFORMATION
  | EKK_PROPOSAL_QUARANTINE
  | EKK_PROPOSAL_CUSTOM_0
  | EKK_PROPOSAL_CUSTOM_1
  | EKK_PROPOSAL_CUSTOM_2
  | EKK_PROPOSAL_CUSTOM_3
  | EKK_PROPOSAL_OTHER u32

record ekk_consensus_config =
  cc_vote_timeout :: u64
  cc_inhibit_duration :: u64
  cc_allow_self_vote :: bool
  cc_require_all_neighbors :: bool

record ekk_ballot =
  bl_id :: u16
  bl_type :: ekk_proposal_type
  bl_proposer :: u8
  bl_proposal_data :: u32
  bl_threshold :: int
  bl_deadline :: u64
  bl_votes :: "ekk_vote_value list"
  bl_vote_count :: u8
  bl_yes_count :: u8
  bl_no_count :: u8
  bl_result :: ekk_vote_result
  bl_completed :: bool

record ekk_consensus =
  cs_my_id :: u8
  cs_ballots :: "ekk_ballot list"
  cs_active_ballot_count :: nat
  cs_inhibits :: "(u16 \<times> u64) list"
  cs_inhibit_count :: nat
  cs_next_ballot_id :: u16
  cs_config :: ekk_consensus_config

datatype consensus_output =
    CsProposal u8 u16 ekk_proposal_type u32 int
  | CsVote u8 u8 u16 ekk_vote_value u32
  | CsComplete u16 ekk_vote_result

definition find_ballot_index :: "ekk_consensus \<Rightarrow> u16 \<Rightarrow> nat option" where
  "find_ballot_index cons k = find_key bl_id k (cs_ballots cons) (cs_active_ballot_count cons)"

definition is_inhibited :: "ekk_consensus \<Rightarrow> u16 \<Rightarrow> u64 \<Rightarrow> bool" where
  "is_inhibited cons ballot_id now =
     (find_from (\<lambda>(k, t). k = ballot_id \<and> t > now) (cs_inhibits cons) 0 (cs_inhibit_count cons) \<noteq> None)"

definition allocate_ballot_slot :: "ekk_consensus \<Rightarrow> nat option" where
  "allocate_ballot_slot cons =
     (if cs_active_ballot_count cons \<ge> EKK_MAX_BALLOTS then None else Some (cs_active_ballot_count cons))"

text \<open>\<open>(ekk_fixed_t)(((int64_t)votes << 16) / neighbor_count)\<close>, 0 without neighbors.\<close>

definition vote_ratio :: "u32 \<Rightarrow> u32 \<Rightarrow> int" where
  "vote_ratio votes neighbor_count =
     (if neighbor_count > 0 then to_i32 ((uint votes * 65536) div uint neighbor_count) else 0)"

definition evaluate_ballot :: "ekk_ballot \<Rightarrow> u32 \<Rightarrow> ekk_vote_result" where
  "evaluate_ballot ballot neighbor_count =
     (if bl_completed ballot then bl_result ballot
      else
        (let total_votes = ucast (bl_vote_count ballot);
             yes_votes = ucast (bl_yes_count ballot)
         in if total_votes < neighbor_count
            then (let remaining = neighbor_count - total_votes;
                      max_yes = yes_votes + remaining
                  in if vote_ratio max_yes neighbor_count < bl_threshold ballot then EKK_VOTE_REJECTED
                     else if vote_ratio yes_votes neighbor_count \<ge> bl_threshold ballot then EKK_VOTE_APPROVED
                     else EKK_VOTE_PENDING)
            else if vote_ratio yes_votes neighbor_count \<ge> bl_threshold ballot then EKK_VOTE_APPROVED
            else EKK_VOTE_REJECTED))"

definition finalize_ballot :: "ekk_ballot \<Rightarrow> ekk_vote_result \<Rightarrow> bool \<Rightarrow> ekk_ballot \<times> consensus_output list" where
  "finalize_ballot ballot r complete =
     (ballot\<lparr>bl_result := r, bl_completed := True\<rparr>, if complete then [CsComplete (bl_id ballot) r] else [])"

definition cleanup_completed_ballots :: "ekk_consensus \<Rightarrow> ekk_consensus" where
  "cleanup_completed_ballots cons =
     (let (bs, n) = compact (\<lambda>b. \<not> bl_completed b) (cs_ballots cons) 0 0 (cs_active_ballot_count cons)
      in cons\<lparr>cs_ballots := bs, cs_active_ballot_count := n\<rparr>)"

definition broadcast_proposal :: "ekk_consensus \<Rightarrow> ekk_ballot \<Rightarrow> consensus_output" where
  "broadcast_proposal cons ballot =
     CsProposal (cs_my_id cons) (bl_id ballot) (bl_type ballot) (bl_proposal_data ballot) (bl_threshold ballot)"

definition send_vote :: "ekk_consensus \<Rightarrow> u8 \<Rightarrow> u16 \<Rightarrow> ekk_vote_value \<Rightarrow> u64 \<Rightarrow> consensus_output" where
  "send_vote cons proposer_id ballot_id vote hal_now =
     CsVote proposer_id (cs_my_id cons) ballot_id vote (ucast (hal_now AND 0xFFFFFFFF))"

definition consensus_default_config :: ekk_consensus_config where
  "consensus_default_config = \<lparr>cc_vote_timeout = EKK_VOTE_TIMEOUT_US, cc_inhibit_duration = 100000,
     cc_allow_self_vote = True, cc_require_all_neighbors = False\<rparr>"

text \<open>A zeroed ballot: \<open>memset\<close> makes every vote \<open>EKK_VOTE_ABSTAIN\<close> = 0.\<close>

definition blank_ballot :: ekk_ballot where
  "blank_ballot = \<lparr>bl_id = 0, bl_type = EKK_PROPOSAL_MODE_CHANGE, bl_proposer = 0, bl_proposal_data = 0,
     bl_threshold = 0, bl_deadline = 0, bl_votes = replicate EKK_K_NEIGHBORS EKK_VOTE_ABSTAIN,
     bl_vote_count = 0, bl_yes_count = 0, bl_no_count = 0, bl_result = EKK_VOTE_PENDING, bl_completed = False\<rparr>"

definition ekk_consensus_init ::
  "ekk_consensus \<Rightarrow> u8 \<Rightarrow> ekk_consensus_config option \<Rightarrow> ekk_error \<times> ekk_consensus"
where
  "ekk_consensus_init cons my_id config =
     (if my_id = EKK_INVALID_MODULE_ID then (EKK_ERR_INVALID_ARG, cons)
      else (EKK_OK,
        \<lparr>cs_my_id = my_id, cs_ballots = replicate EKK_MAX_BALLOTS blank_ballot, cs_active_ballot_count = 0,
         cs_inhibits = replicate EKK_MAX_BALLOTS (0, 0), cs_inhibit_count = 0, cs_next_ballot_id = 1,
         cs_config = (case config of Some c \<Rightarrow> c | None \<Rightarrow> consensus_default_config)\<rparr>))"

definition proposed_ballot :: "ekk_consensus \<Rightarrow> ekk_proposal_type \<Rightarrow> u32 \<Rightarrow> int \<Rightarrow> u64 \<Rightarrow> ekk_ballot" where
  "proposed_ballot cons type data threshold now =
     (let ballot = blank_ballot\<lparr>bl_id := cs_next_ballot_id cons, bl_type := type,
            bl_proposer := cs_my_id cons, bl_proposal_data := data, bl_threshold := threshold,
            bl_deadline := now + cc_vote_timeout (cs_config cons)\<rparr>
      in if cc_allow_self_vote (cs_config cons)
         then ballot\<lparr>bl_votes := (bl_votes ballot)[0 := EKK_VOTE_YES], bl_vote_count := 1, bl_yes_count := 1\<rparr>
         else ballot)"

text \<open>The ballot id is returned on success.\<close>

definition ekk_consensus_propose ::
  "ekk_consensus \<Rightarrow> ekk_proposal_type \<Rightarrow> u32 \<Rightarrow> int \<Rightarrow> u64 \<Rightarrow>
   ekk_error \<times> u16 option \<times> ekk_consensus \<times> consensus_output list"
where
  "ekk_consensus_propose cons type data threshold hal_now =
     (case allocate_ballot_slot cons of
        None \<Rightarrow> (EKK_ERR_BUSY, None, cons, [])
      | Some idx \<Rightarrow>
          (let ballot = proposed_ballot cons type data threshold hal_now;
               cons = cons\<lparr>cs_next_ballot_id := cs_next_ballot_id cons + 1,
                 cs_ballots := (cs_ballots cons)[idx := ballot],
                 cs_active_ballot_count := Suc (cs_active_ballot_count cons)\<rparr>
           in (EKK_OK, Some (bl_id ballot), cons, [broadcast_proposal cons ballot])))"

text \<open>\<open>sent\<close> is what sending returns.\<close>

definition ekk_consensus_vote ::
  "ekk_consensus \<Rightarrow> u16 \<Rightarrow> ekk_vote_value \<Rightarrow> ekk_error \<Rightarrow> u64 \<Rightarrow> ekk_error \<times> consensus_output list"
where
  "ekk_consensus_vote cons ballot_id vote sent hal_now =
     (if ballot_id = EKK_INVALID_BALLOT_ID then (EKK_ERR_INVALID_ARG, [])
      else (case find_ballot_index cons ballot_id of
          None \<Rightarrow> (EKK_ERR_NOT_FOUND, [])
        | Some idx \<Rightarrow>
            (let ballot = cs_ballots cons ! idx
             in if bl_completed ballot then (EKK_ERR_BUSY, [])
                else (sent, [send_vote cons (bl_proposer ballot) ballot_id vote hal_now]))))"

definition finalize_at ::
  "ekk_consensus \<Rightarrow> nat \<Rightarrow> ekk_vote_result \<Rightarrow> bool \<Rightarrow> ekk_consensus \<times> consensus_output list"
where
  "finalize_at cons idx r complete =
     (let (ballot, calls) = finalize_ballot (cs_ballots cons ! idx) r complete
      in (cons\<lparr>cs_ballots := (cs_ballots cons)[idx := ballot]\<rparr>, calls))"

definition consensus_evict_oldest :: "ekk_consensus \<Rightarrow> ekk_consensus" where
  "consensus_evict_oldest cons =
     (if cs_inhibit_count cons \<ge> EKK_MAX_BALLOTS
      then cons\<lparr>cs_inhibits := shift_down (cs_inhibits cons) 0 (cs_inhibit_count cons),
                cs_inhibit_count := cs_inhibit_count cons - 1\<rparr>
      else cons)"

definition consensus_add_inhibit :: "ekk_consensus \<Rightarrow> u16 \<Rightarrow> u64 \<Rightarrow> ekk_consensus" where
  "consensus_add_inhibit cons ballot_id now =
     cons\<lparr>cs_inhibits := (cs_inhibits cons)[cs_inhibit_count cons :=
            (ballot_id, now + cc_inhibit_duration (cs_config cons))],
          cs_inhibit_count := Suc (cs_inhibit_count cons)\<rparr>"

definition ekk_consensus_inhibit ::
  "ekk_consensus \<Rightarrow> u16 \<Rightarrow> u64 \<Rightarrow> bool \<Rightarrow> ekk_error \<times> ekk_consensus \<times> consensus_output list"
where
  "ekk_consensus_inhibit cons ballot_id now complete =
     (if ballot_id = EKK_INVALID_BALLOT_ID then (EKK_ERR_INVALID_ARG, cons, [])
      else (case find_key fst ballot_id (cs_inhibits cons) (cs_inhibit_count cons) of
          Some i \<Rightarrow> (EKK_OK,
            cons\<lparr>cs_inhibits := (cs_inhibits cons)[i :=
              (fst (cs_inhibits cons ! i), now + cc_inhibit_duration (cs_config cons))]\<rparr>, [])
        | None \<Rightarrow>
            (let cons = consensus_add_inhibit (consensus_evict_oldest cons) ballot_id now;
                 (cons, calls) = (case find_ballot_index cons ballot_id of
                     Some idx \<Rightarrow> finalize_at cons idx EKK_VOTE_CANCELLED complete
                   | None \<Rightarrow> (cons, []))
             in (EKK_OK, cons, calls @ [send_vote cons EKK_BROADCAST_ID ballot_id EKK_VOTE_INHIBIT now]))))"

text \<open>Recording a vote in the slot \<open>voter_id % EKK_K_NEIGHBORS\<close>.\<close>

definition voter_slot :: "u8 \<Rightarrow> nat" where
  "voter_slot voter_id = unat voter_id mod EKK_K_NEIGHBORS"

definition record_vote :: "ekk_ballot \<Rightarrow> nat \<Rightarrow> ekk_vote_value \<Rightarrow> ekk_ballot" where
  "record_vote ballot slot vote =
     (let ballot = ballot\<lparr>bl_votes := (bl_votes ballot)[slot := vote], bl_vote_count := bl_vote_count ballot + 1\<rparr>
      in case vote of
           EKK_VOTE_YES \<Rightarrow> ballot\<lparr>bl_yes_count := bl_yes_count ballot + 1\<rparr>
         | EKK_VOTE_NO \<Rightarrow> ballot\<lparr>bl_no_count := bl_no_count ballot + 1\<rparr>
         | _ \<Rightarrow> ballot)"

definition ekk_consensus_on_vote ::
  "ekk_consensus \<Rightarrow> u8 \<Rightarrow> u16 \<Rightarrow> ekk_vote_value \<Rightarrow> u64 \<Rightarrow> bool \<Rightarrow>
   ekk_error \<times> ekk_consensus \<times> consensus_output list"
where
  "ekk_consensus_on_vote cons voter_id ballot_id vote now complete =
     (if voter_id = EKK_INVALID_MODULE_ID \<or> ballot_id = EKK_INVALID_BALLOT_ID then (EKK_ERR_INVALID_ARG, cons, [])
      else if vote = EKK_VOTE_INHIBIT
      then (let cons = (if cs_inhibit_count cons < EKK_MAX_BALLOTS
                        then consensus_add_inhibit cons ballot_id now else cons);
                (cons, calls) = (case find_ballot_index cons ballot_id of
                    Some idx \<Rightarrow> if \<not> bl_completed (cs_ballots cons ! idx)
                      then finalize_at cons idx EKK_VOTE_CANCELLED complete else (cons, [])
                  | None \<Rightarrow> (cons, []))
            in (EKK_OK, cons, calls))
      else (case find_ballot_index cons ballot_id of
          None \<Rightarrow> (EKK_ERR_NOT_FOUND, cons, [])
        | Some idx \<Rightarrow>
            (let ballot = cs_ballots cons ! idx
             in if bl_proposer ballot \<noteq> cs_my_id cons then (EKK_ERR_INVALID_ARG, cons, [])
                else if bl_completed ballot then (EKK_OK, cons, [])
                else if bl_votes ballot ! voter_slot voter_id \<noteq> EKK_VOTE_ABSTAIN then (EKK_OK, cons, [])
                else (let ballot = record_vote ballot (voter_slot voter_id) vote;
                          cons = cons\<lparr>cs_ballots := (cs_ballots cons)[idx := ballot]\<rparr>;
                          r = evaluate_ballot ballot EKK_K_NEIGHBORS_U32;
                          (cons, calls) = (if r \<noteq> EKK_VOTE_PENDING
                            then finalize_at cons idx r complete else (cons, []))
                      in (EKK_OK, cons, calls)))))"

definition ekk_consensus_on_proposal ::
  "ekk_consensus \<Rightarrow> u8 \<Rightarrow> u16 \<Rightarrow> ekk_proposal_type \<Rightarrow> u32 \<Rightarrow> int \<Rightarrow> u64 \<Rightarrow>
   (ekk_ballot \<Rightarrow> ekk_vote_value) option \<Rightarrow> ekk_error \<times> ekk_consensus \<times> consensus_output list"
where
  "ekk_consensus_on_proposal cons proposer_id ballot_id type data threshold now decide =
     (if proposer_id = EKK_INVALID_MODULE_ID \<or> ballot_id = EKK_INVALID_BALLOT_ID
      then (EKK_ERR_INVALID_ARG, cons, [])
      else if proposer_id = cs_my_id cons then (EKK_OK, cons, [])
      else if is_inhibited cons ballot_id now
      then (EKK_ERR_INHIBITED, cons, [send_vote cons proposer_id ballot_id EKK_VOTE_INHIBIT now])
      else if find_ballot_index cons ballot_id \<noteq> None then (EKK_OK, cons, [])
      else (case allocate_ballot_slot cons of
          None \<Rightarrow> (EKK_ERR_BUSY, cons, [send_vote cons proposer_id ballot_id EKK_VOTE_NO now])
        | Some idx \<Rightarrow>
            (let ballot = blank_ballot\<lparr>bl_id := ballot_id, bl_type := type, bl_proposer := proposer_id,
                   bl_proposal_data := data, bl_threshold := threshold,
                   bl_deadline := now + cc_vote_timeout (cs_config cons)\<rparr>;
                 cons = cons\<lparr>cs_ballots := (cs_ballots cons)[idx := ballot],
                   cs_active_ballot_count := Suc (cs_active_ballot_count cons)\<rparr>;
                 my_vote = (case decide of Some f \<Rightarrow> f ballot | None \<Rightarrow> EKK_VOTE_YES)
             in (EKK_OK, cons, [send_vote cons proposer_id ballot_id my_vote now]))))"

definition ekk_consensus_get_result :: "ekk_consensus \<Rightarrow> u16 \<Rightarrow> ekk_vote_result" where
  "ekk_consensus_get_result cons ballot_id =
     (if ballot_id = EKK_INVALID_BALLOT_ID then EKK_VOTE_PENDING
      else (case find_ballot_index cons ballot_id of
          None \<Rightarrow> EKK_VOTE_PENDING
        | Some idx \<Rightarrow> bl_result (cs_ballots cons ! idx)))"

text \<open>The result the tick gives a ballot, if it gives one.\<close>

definition tick_result :: "ekk_consensus \<Rightarrow> u64 \<Rightarrow> ekk_ballot \<Rightarrow> ekk_vote_result option" where
  "tick_result cons now ballot =
     (if bl_completed ballot then None
      else if is_inhibited cons (bl_id ballot) now then Some EKK_VOTE_CANCELLED
      else if now \<ge> bl_deadline ballot
      then (let r = evaluate_ballot ballot (ucast (bl_vote_count ballot))
            in Some (if r = EKK_VOTE_PENDING then EKK_VOTE_TIMEOUT else r))
      else None)"

text \<open>The body of the first loop of the tick; one output per ballot that completes.\<close>

definition tick_ballot :: "ekk_consensus \<Rightarrow> u64 \<Rightarrow> ekk_ballot \<Rightarrow> ekk_ballot \<times> (u16 \<times> ekk_vote_result) list" where
  "tick_ballot cons now ballot =
     (case tick_result cons now ballot of
        None \<Rightarrow> (ballot, [])
      | Some r \<Rightarrow> (fst (finalize_ballot ballot r False), [(bl_id ballot, r)]))"

definition ekk_consensus_tick ::
  "ekk_consensus \<Rightarrow> u64 \<Rightarrow> bool \<Rightarrow> nat \<times> ekk_consensus \<times> consensus_output list"
where
  "ekk_consensus_tick cons now complete =
     (let (bs, done) = array_loop (tick_ballot cons now) (cs_active_ballot_count cons) (cs_ballots cons);
          (ihs, n) = compact (\<lambda>(k, t). t > now) (cs_inhibits cons) 0 0 (cs_inhibit_count cons);
          cons = cons\<lparr>cs_ballots := bs, cs_inhibits := ihs, cs_inhibit_count := n\<rparr>;
          cons = (if length done > 0 then cleanup_completed_ballots cons else cons)
      in (length done, cons, if complete then map (\<lambda>(k, r). CsComplete k r) done else []))"

section \<open>Quarantine\<close>

text \<open>
  Evidence types are kept as the numbers the code checks. The payload is a list of 24 bytes; the
  targets of the code are little-endian. \<open>wide_shift n\<close> stands for \<open>1U << n\<close> with \<open>n \<ge> 32\<close>, which C
  leaves undefined. The tables of the quarantine state have 256 entries indexed by a \<open>uint8_t\<close>,
  and the test \<open>module_id >= EKK_MAX_MODULES\<close> never holds.
\<close>

abbreviation (input) EKK_EVIDENCE_EQUIVOCATION :: u32 where "EKK_EVIDENCE_EQUIVOCATION \<equiv> 1"
abbreviation (input) EKK_EVIDENCE_INVALID_MAC :: u32 where "EKK_EVIDENCE_INVALID_MAC \<equiv> 2"
abbreviation (input) EKK_EVIDENCE_TIMING_ANOMALY :: u32 where "EKK_EVIDENCE_TIMING_ANOMALY \<equiv> 3"
abbreviation (input) EKK_EVIDENCE_STATE_INVALID :: u32 where "EKK_EVIDENCE_STATE_INVALID \<equiv> 4"

record ekk_byzantine_evidence =
  ev_evidence_type :: u32
  ev_suspect_id :: u8
  ev_witness_ids :: "u8 list"
  ev_witness_count :: u8
  ev_evidence_data :: "u8 list"
  ev_timestamp :: u32

record ekk_quarantine_state =
  qs_quarantined :: "u8 \<Rightarrow> bool"
  qs_quarantine_time :: "u8 \<Rightarrow> u64"
  qs_quarantine_count :: u8

definition compute_evidence_hash :: "ekk_byzantine_evidence \<Rightarrow> u32" where
  "compute_evidence_hash evidence =
     (let prime = 0x01000193;
          hash = 0x811c9dc5;
          hash = (hash XOR ev_evidence_type evidence) * prime;
          hash = (hash XOR ucast (ev_suspect_id evidence)) * prime;
          hash = (hash XOR ucast (ev_witness_count evidence)) * prime
      in fold (\<lambda>i hash. (hash XOR ucast (ev_evidence_data evidence ! i)) * prime) [0..<24] hash)"

definition ekk_quarantine_init :: ekk_quarantine_state where
  "ekk_quarantine_init =
     \<lparr>qs_quarantined = (\<lambda>_. False), qs_quarantine_time = (\<lambda>_. 0), qs_quarantine_count = 0\<rparr>"

text \<open>\<open>memcpy(&x, &data[k], n)\<close> into an unsigned integer.\<close>

definition le_bytes :: "u8 list \<Rightarrow> nat \<Rightarrow> nat \<Rightarrow> 'a::len word" where
  "le_bytes data k n = foldr (\<lambda>b w. push_bit 8 w OR ucast b) (take n (drop k data)) 0"

definition witnesses_ok :: "ekk_byzantine_evidence \<Rightarrow> bool" where
  "witnesses_ok evidence =
     (find_from (\<lambda>w. w = EKK_INVALID_MODULE_ID \<or> w = ev_suspect_id evidence) (ev_witness_ids evidence) 0
        (min (unat (ev_witness_count evidence)) EKK_QUARANTINE_MAX_WITNESSES) = None)"

definition evidence_payload_ok :: "(nat \<Rightarrow> u32) \<Rightarrow> ekk_byzantine_evidence \<Rightarrow> bool" where
  "evidence_payload_ok wide_shift evidence =
     (let data = ev_evidence_data evidence; t = ev_evidence_type evidence
      in if t = EKK_EVIDENCE_EQUIVOCATION then (le_bytes data 4 8 :: u64) \<noteq> le_bytes data 12 8
         else if t = EKK_EVIDENCE_TIMING_ANOMALY
         then (let expected = le_bytes data 0 8 :: u64; actual = le_bytes data 8 8; threshold = le_bytes data 16 8;
                   diff = (if actual > expected then actual - expected else expected - actual)
               in diff > threshold)
         else if t = EKK_EVIDENCE_STATE_INVALID
         then (let from_state = unat (data ! 0); to_state = unat (data ! 1); valid_bitmap = le_bytes data 2 4 :: u32;
                   shift = from_state * 8 + to_state;
                   transition_bit = (if shift < 32 then push_bit shift 1 else wide_shift shift)
               in valid_bitmap AND transition_bit = 0)
         else True)"

definition ekk_consensus_verify_evidence :: "(nat \<Rightarrow> u32) \<Rightarrow> ekk_byzantine_evidence \<Rightarrow> bool" where
  "ekk_consensus_verify_evidence wide_shift evidence =
     (ev_evidence_type evidence \<in> {EKK_EVIDENCE_EQUIVOCATION, EKK_EVIDENCE_INVALID_MAC,
        EKK_EVIDENCE_TIMING_ANOMALY, EKK_EVIDENCE_STATE_INVALID}
      \<and> ev_suspect_id evidence \<noteq> EKK_INVALID_MODULE_ID \<and> ev_witness_count evidence \<noteq> 0
      \<and> witnesses_ok evidence \<and> evidence_payload_ok wide_shift evidence)"

definition ekk_consensus_propose_quarantine ::
  "(nat \<Rightarrow> u32) \<Rightarrow> ekk_consensus \<Rightarrow> u8 \<Rightarrow> ekk_byzantine_evidence \<Rightarrow> u64 \<Rightarrow>
   ekk_error \<times> u16 option \<times> ekk_consensus \<times> consensus_output list"
where
  "ekk_consensus_propose_quarantine wide_shift cons suspect_id evidence hal_now =
     (if suspect_id = EKK_INVALID_MODULE_ID \<or> \<not> ekk_consensus_verify_evidence wide_shift evidence
      then (EKK_ERR_INVALID_ARG, None, cons, [])
      else ekk_consensus_propose cons EKK_PROPOSAL_QUARANTINE (ucast suspect_id)
        EKK_THRESHOLD_SUPERMAJORITY hal_now)"

definition ekk_consensus_execute_quarantine ::
  "ekk_consensus \<Rightarrow> ekk_quarantine_state \<Rightarrow> u8 \<Rightarrow> u64 \<Rightarrow> ekk_error \<times> ekk_quarantine_state"
where
  "ekk_consensus_execute_quarantine cons state module_id now =
     (if module_id = EKK_INVALID_MODULE_ID then (EKK_ERR_INVALID_ARG, state)
      else if module_id = cs_my_id cons then (EKK_ERR_INVALID_ARG, state)
      else if qs_quarantined state module_id then (EKK_OK, state)
      else (EKK_OK, state\<lparr>qs_quarantined := (qs_quarantined state)(module_id := True),
             qs_quarantine_time := (qs_quarantine_time state)(module_id := now),
             qs_quarantine_count := qs_quarantine_count state + 1\<rparr>))"

definition ekk_quarantine_lift :: "ekk_quarantine_state \<Rightarrow> u8 \<Rightarrow> ekk_error \<times> ekk_quarantine_state" where
  "ekk_quarantine_lift state module_id =
     (if module_id = EKK_INVALID_MODULE_ID then (EKK_ERR_INVALID_ARG, state)
      else if \<not> qs_quarantined state module_id then (EKK_OK, state)
      else (EKK_OK, state\<lparr>qs_quarantined := (qs_quarantined state)(module_id := False),
             qs_quarantine_time := (qs_quarantine_time state)(module_id := 0),
             qs_quarantine_count := qs_quarantine_count state - 1\<rparr>))"

definition ekk_consensus_is_quarantined :: "ekk_quarantine_state \<Rightarrow> u8 \<Rightarrow> bool" where
  "ekk_consensus_is_quarantined state module_id =
     (if module_id = EKK_INVALID_MODULE_ID then False else qs_quarantined state module_id)"

section \<open>Tally\<close>

lemma vote_ratio_eq:
  assumes "unat y \<le> 32767" "n > 0"
  shows "vote_ratio y n = (uint y * 65536) div uint n"
proof -
  have n: "1 \<le> uint n" using assms(2) by (simp add: word_less_def)
  have y: "0 \<le> uint y" "uint y \<le> 32767" using assms(1) uint_eq_unat [of y] by linarith+
  have "(uint y * 65536) div uint n \<le> (uint y * 65536) div 1"
    using n y by (intro zdiv_mono2) auto
  moreover have "0 \<le> (uint y * 65536) div uint n" using n y by (simp add: pos_imp_zdiv_nonneg_iff)
  ultimately show ?thesis using assms(2) y by (simp add: vote_ratio_def c_arith)
qed

lemma vote_ratio_mono:
  "unat y \<le> unat y' \<Longrightarrow> unat y' \<le> 32767 \<Longrightarrow> vote_ratio y n \<le> vote_ratio y' n"
proof (cases "n > 0")
  case True
  assume y: "unat y \<le> unat y'" "unat y' \<le> 32767"
  then have "uint y * 65536 \<le> uint y' * 65536"
    using uint_eq_unat [of y] uint_eq_unat [of y'] by linarith
  moreover have "0 < uint n" using True by (simp add: word_less_def)
  ultimately have "(uint y * 65536) div uint n \<le> (uint y' * 65536) div uint n" by (rule zdiv_mono1)
  with y True show ?thesis by (simp add: vote_ratio_eq)
qed (simp add: vote_ratio_def)

text \<open>
  The tally of a ballot: its counters are the numbers of recorded votes, and it stays open only
  while votes are missing.
\<close>

definition ballot_inv :: "ekk_ballot \<Rightarrow> bool" where
  "ballot_inv b \<longleftrightarrow>
     length (bl_votes b) = EKK_K_NEIGHBORS
     \<and> unat (bl_yes_count b) = count_list (bl_votes b) EKK_VOTE_YES
     \<and> unat (bl_no_count b) = count_list (bl_votes b) EKK_VOTE_NO
     \<and> unat (bl_yes_count b) + unat (bl_no_count b) \<le> unat (bl_vote_count b)
     \<and> unat (bl_vote_count b) \<le> EKK_K_NEIGHBORS
     \<and> (\<not> bl_completed b \<longrightarrow> unat (bl_vote_count b) < EKK_K_NEIGHBORS \<and> bl_result b = EKK_VOTE_PENDING)
     \<and> (bl_result b = EKK_VOTE_APPROVED \<longrightarrow>
          bl_threshold b \<le> vote_ratio (ucast (bl_yes_count b)) EKK_K_NEIGHBORS_U32)"

definition consensus_inv :: "ekk_consensus \<Rightarrow> bool" where
  "consensus_inv cons \<longleftrightarrow>
     length (cs_ballots cons) = EKK_MAX_BALLOTS \<and> cs_active_ballot_count cons \<le> EKK_MAX_BALLOTS
     \<and> length (cs_inhibits cons) = EKK_MAX_BALLOTS \<and> cs_inhibit_count cons \<le> EKK_MAX_BALLOTS
     \<and> (\<forall>b \<in> set (take (cs_active_ballot_count cons) (cs_ballots cons)). ballot_inv b)"

lemma ballot_inv_blank:
  "ballot_inv (blank_ballot\<lparr>bl_id := a, bl_type := b, bl_proposer := c, bl_proposal_data := d,
     bl_threshold := e, bl_deadline := f\<rparr>)"
  by (simp add: ballot_inv_def blank_ballot_def)

lemma ballot_inv_finalize:
  "ballot_inv b \<Longrightarrow>
   r = EKK_VOTE_APPROVED \<longrightarrow> bl_threshold b \<le> vote_ratio (ucast (bl_yes_count b)) EKK_K_NEIGHBORS_U32 \<Longrightarrow>
   ballot_inv (b\<lparr>bl_result := r, bl_completed := True\<rparr>)"
  by (simp add: ballot_inv_def)

lemma count_list_fresh:
  "i < length xs \<Longrightarrow> xs ! i \<noteq> y \<Longrightarrow> count_list (xs[i := x]) y = count_list xs y + (if x = y then 1 else 0)"
proof (induction xs arbitrary: i)
  case (Cons a xs)
  then show ?case by (cases i) auto
qed simp

lemma evaluate_full:
  "\<not> bl_completed b \<Longrightarrow> n \<le> ucast (bl_vote_count b) \<Longrightarrow> evaluate_ballot b n \<noteq> EKK_VOTE_PENDING"
  by (auto simp: evaluate_ballot_def Let_def not_less)

lemma voter_slot_less [simp]: "voter_slot v < 7"
  by (simp add: voter_slot_def)

text \<open>A recorded vote keeps the counters right; the last missing vote decides the ballot.\<close>

lemma record_vote_frame [simp]:
  "bl_completed (record_vote b slot v) = bl_completed b" "bl_result (record_vote b slot v) = bl_result b"
  "bl_threshold (record_vote b slot v) = bl_threshold b" "bl_id (record_vote b slot v) = bl_id b"
  "bl_vote_count (record_vote b slot v) = bl_vote_count b + 1"
  "bl_votes (record_vote b slot v) = (bl_votes b)[slot := v]"
  by (cases v; simp add: record_vote_def)+

lemma record_vote_inv:
  assumes inv: "ballot_inv b" and live: "\<not> bl_completed b"
    and slot: "slot < 7" "bl_votes b ! slot = EKK_VOTE_ABSTAIN"
    and r: "r = EKK_VOTE_APPROVED \<longrightarrow>
      bl_threshold b \<le> vote_ratio (ucast (bl_yes_count (record_vote b slot v))) EKK_K_NEIGHBORS_U32"
  shows "ballot_inv ((record_vote b slot v)\<lparr>bl_result := r, bl_completed := True\<rparr>)"
    and "unat (bl_vote_count b) < 6 \<Longrightarrow> ballot_inv (record_vote b slot v)"
proof -
  have inc: "unat (c + 1) = Suc (unat c)" if "unat c < 7" for c :: u8
    using that by (simp add: unat_word_ariths)
  have counts: "unat (bl_yes_count b) < 7" "unat (bl_no_count b) < 7" "unat (bl_vote_count b) < 7"
    using inv live by (auto simp: ballot_inv_def)
  have fresh: "count_list ((bl_votes b)[slot := x]) y = count_list (bl_votes b) y + (if x = y then 1 else 0)"
    if "y \<noteq> EKK_VOTE_ABSTAIN" for x y
    using inv slot that by (intro count_list_fresh) (auto simp: ballot_inv_def)
  have yes: "unat (bl_yes_count (record_vote b slot v)) = unat (bl_yes_count b) + (if v = EKK_VOTE_YES then 1 else 0)"
    and no: "unat (bl_no_count (record_vote b slot v)) = unat (bl_no_count b) + (if v = EKK_VOTE_NO then 1 else 0)"
    using counts by (cases v; simp add: record_vote_def inc)+
  have len: "length (bl_votes b) = 7" using inv by (simp add: ballot_inv_def)
  have base: "unat (bl_yes_count (record_vote b slot v)) = count_list ((bl_votes b)[slot := v]) EKK_VOTE_YES"
    "unat (bl_no_count (record_vote b slot v)) = count_list ((bl_votes b)[slot := v]) EKK_VOTE_NO"
    "unat (bl_yes_count (record_vote b slot v)) + unat (bl_no_count (record_vote b slot v)) \<le> Suc (unat (bl_vote_count b))"
    using inv by (simp_all add: yes no fresh ballot_inv_def)
  show "ballot_inv ((record_vote b slot v)\<lparr>bl_result := r, bl_completed := True\<rparr>)"
    using base len counts r by (simp add: ballot_inv_def inc)
  show "ballot_inv (record_vote b slot v)" if "unat (bl_vote_count b) < 6"
    using base len counts that inv live by (simp add: ballot_inv_def inc)
qed

text \<open>Votes that decide a ballot approve it only over its threshold.\<close>

lemma evaluate_approved:
  "\<not> bl_completed b \<Longrightarrow> evaluate_ballot b n = EKK_VOTE_APPROVED \<Longrightarrow>
   bl_threshold b \<le> vote_ratio (ucast (bl_yes_count b)) n"
  by (auto simp: evaluate_ballot_def Let_def split: if_splits)

section \<open>The invariant of the engine\<close>

lemma consensus_inv_frame:
  "consensus_inv cons \<Longrightarrow> consensus_inv (cons\<lparr>cs_next_ballot_id := k\<rparr>)"
  by (simp add: consensus_inv_def)

lemma find_ballot_index_live:
  assumes "consensus_inv cons" "find_ballot_index cons k = Some idx"
  shows "idx < cs_active_ballot_count cons" "idx < 4" "bl_id (cs_ballots cons ! idx) = k"
    "ballot_inv (cs_ballots cons ! idx)"
proof -
  from assms(2) have *: "idx < cs_active_ballot_count cons" "bl_id (cs_ballots cons ! idx) = k"
    by (auto simp: find_ballot_index_def dest: find_from_SomeD)
  then show "idx < cs_active_ballot_count cons" "bl_id (cs_ballots cons ! idx) = k" by simp_all
  from assms(1) have len: "length (cs_ballots cons) = 4" "cs_active_ballot_count cons \<le> 4"
    by (simp_all add: consensus_inv_def)
  with * show "idx < 4" by simp
  from * len have "cs_ballots cons ! idx \<in> set (take (cs_active_ballot_count cons) (cs_ballots cons))"
    by (intro set_take_nth) simp_all
  with assms(1) show "ballot_inv (cs_ballots cons ! idx)" by (simp add: consensus_inv_def)
qed

lemma consensus_inv_update:
  assumes "consensus_inv cons" "ballot_inv b"
  shows "consensus_inv (cons\<lparr>cs_ballots := (cs_ballots cons)[idx := b]\<rparr>)"
  using assms set_update_subset_insert [of "take (cs_active_ballot_count cons) (cs_ballots cons)" idx b]
  by (auto simp: consensus_inv_def take_update_live)

lemma consensus_inv_alloc:
  assumes "consensus_inv cons" "ballot_inv b" "allocate_ballot_slot cons = Some idx"
  shows "consensus_inv (cons\<lparr>cs_ballots := (cs_ballots cons)[idx := b],
    cs_active_ballot_count := Suc (cs_active_ballot_count cons)\<rparr>)"
  using assms by (auto simp: consensus_inv_def allocate_ballot_slot_def take_snoc_update split: if_splits)

lemma consensus_inv_finalize_at:
  assumes "consensus_inv cons" "find_ballot_index cons k = Some idx" "r \<noteq> EKK_VOTE_APPROVED"
  shows "consensus_inv (fst (finalize_at cons idx r complete))"
  using assms find_ballot_index_live [OF assms(1,2)]
  by (simp add: finalize_at_def finalize_ballot_def consensus_inv_update ballot_inv_finalize)

lemma consensus_inv_add_inhibit:
  "consensus_inv cons \<Longrightarrow> cs_inhibit_count cons < 4 \<Longrightarrow> consensus_inv (consensus_add_inhibit cons k now)"
  by (simp add: consensus_inv_def consensus_add_inhibit_def)

lemma consensus_inv_evict:
  "consensus_inv cons \<Longrightarrow>
   consensus_inv (consensus_evict_oldest cons) \<and> cs_inhibit_count (consensus_evict_oldest cons) < 4"
  by (auto simp: consensus_inv_def consensus_evict_oldest_def)

lemma ballot_inv_proposed: "ballot_inv (proposed_ballot cons ty d thr now)"
  by (simp add: proposed_ballot_def Let_def ballot_inv_def blank_ballot_def numeral_eq_Suc)

lemma consensus_inv_propose:
  assumes inv: "consensus_inv cons"
  shows "consensus_inv (fst (snd (snd (ekk_consensus_propose cons ty d thr now))))"
proof (cases "allocate_ballot_slot cons")
  case (Some idx)
  let ?cons = "cons\<lparr>cs_next_ballot_id := cs_next_ballot_id cons + 1\<rparr>"
  have "allocate_ballot_slot ?cons = Some idx" using Some by (auto simp: allocate_ballot_slot_def split: if_splits)
  from consensus_inv_alloc [OF consensus_inv_frame [OF inv] ballot_inv_proposed this] Some show ?thesis
    by (simp add: ekk_consensus_propose_def Let_def)
qed (use inv in \<open>simp add: ekk_consensus_propose_def\<close>)

lemma consensus_inv_on_proposal:
  assumes inv: "consensus_inv cons"
  shows "consensus_inv (fst (snd (ekk_consensus_on_proposal cons p k ty d thr now dec)))"
proof (cases "allocate_ballot_slot cons")
  case (Some idx)
  from consensus_inv_alloc [OF inv ballot_inv_blank Some] inv Some show ?thesis
    by (simp add: ekk_consensus_on_proposal_def Let_def)
qed (use inv in \<open>simp add: ekk_consensus_on_proposal_def\<close>)

lemma finalize_at_same:
  "cs_ballots cons ! i = b \<Longrightarrow>
   fst (finalize_at cons i r complete) = cons\<lparr>cs_ballots := (cs_ballots cons)[i := b\<lparr>bl_result := r, bl_completed := True\<rparr>]\<rparr>"
  by (simp add: finalize_at_def finalize_ballot_def)

lemma consensus_inv_inhibit:
  assumes inv: "consensus_inv cons"
  shows "consensus_inv (fst (snd (ekk_consensus_inhibit cons k now complete)))"
proof -
  let ?a = "consensus_add_inhibit (consensus_evict_oldest cons) k now"
  from consensus_inv_evict [OF inv] have "consensus_inv ?a" by (simp add: consensus_inv_add_inhibit)
  moreover from this have "consensus_inv (fst (finalize_at ?a idx EKK_VOTE_CANCELLED complete))"
    if "find_ballot_index ?a k = Some idx" for idx
    using consensus_inv_finalize_at that by blast
  moreover have "consensus_inv (cons\<lparr>cs_inhibits := (cs_inhibits cons)[i := x]\<rparr>)" for i x
    using inv by (simp add: consensus_inv_def)
  ultimately show ?thesis
    using inv by (auto simp: ekk_consensus_inhibit_def Let_def split_beta split: option.split)
qed

lemma consensus_inv_on_inhibit_vote:
  assumes inv: "consensus_inv cons"
  shows "consensus_inv (fst (snd (ekk_consensus_on_vote cons v k EKK_VOTE_INHIBIT now complete)))"
proof -
  let ?a = "if cs_inhibit_count cons < 4 then consensus_add_inhibit cons k now else cons"
  have "consensus_inv ?a" using inv by (simp add: consensus_inv_add_inhibit)
  moreover from this have "consensus_inv (fst (finalize_at ?a idx EKK_VOTE_CANCELLED complete))"
    if "find_ballot_index ?a k = Some idx" for idx
    using consensus_inv_finalize_at that by blast
  ultimately show ?thesis
    using inv by (auto simp: ekk_consensus_on_vote_def Let_def split_beta split: option.split)
qed

text \<open>What an accepted vote does to the ballot in slot \<open>idx\<close>.\<close>

definition decided_ballot :: "ekk_ballot \<Rightarrow> ekk_ballot" where
  "decided_ballot b =
     (let r = evaluate_ballot b EKK_K_NEIGHBORS_U32
      in if r \<noteq> EKK_VOTE_PENDING then b\<lparr>bl_result := r, bl_completed := True\<rparr> else b)"

lemma on_vote_cases:
  assumes "consensus_inv cons" "v \<noteq> EKK_VOTE_INHIBIT"
  obtains (same) "fst (snd (ekk_consensus_on_vote cons voter k v now complete)) = cons"
  | (recorded) idx b where "find_ballot_index cons k = Some idx" "b = cs_ballots cons ! idx"
      "bl_proposer b = cs_my_id cons" "\<not> bl_completed b" "bl_votes b ! voter_slot voter = EKK_VOTE_ABSTAIN"
      "fst (snd (ekk_consensus_on_vote cons voter k v now complete)) =
        cons\<lparr>cs_ballots := (cs_ballots cons)[idx := decided_ballot (record_vote b (voter_slot voter) v)]\<rparr>"
proof (cases "find_ballot_index cons k")
  case None
  with assms(2) same show ?thesis by (simp add: ekk_consensus_on_vote_def split: if_splits)
next
  case (Some idx)
  define b where "b = cs_ballots cons ! idx"
  have "idx < length (cs_ballots cons)"
    using find_ballot_index_live(2) [OF assms(1) Some] assms(1) by (simp add: consensus_inv_def)
  then have eq: "fst (snd (ekk_consensus_on_vote cons voter k v now complete)) =
      (if voter = 0 \<or> k = 0 \<or> bl_proposer b \<noteq> cs_my_id cons \<or> bl_completed b
          \<or> bl_votes b ! voter_slot voter \<noteq> EKK_VOTE_ABSTAIN then cons
       else cons\<lparr>cs_ballots := (cs_ballots cons)[idx := decided_ballot (record_vote b (voter_slot voter) v)]\<rparr>)"
    using Some assms(2)
    by (simp add: ekk_consensus_on_vote_def Let_def split_beta finalize_at_def finalize_ballot_def
        decided_ballot_def b_def)
  show ?thesis
  proof (cases "voter = 0 \<or> k = 0 \<or> bl_proposer b \<noteq> cs_my_id cons \<or> bl_completed b
      \<or> bl_votes b ! voter_slot voter \<noteq> EKK_VOTE_ABSTAIN")
    case True
    with eq same show ?thesis by simp
  next
    case False
    with eq recorded [OF Some b_def] show ?thesis by simp
  qed
qed

lemma decided_ballot_inv:
  assumes "ballot_inv b" "\<not> bl_completed b" "slot < 7" "bl_votes b ! slot = EKK_VOTE_ABSTAIN"
  shows "ballot_inv (decided_ballot (record_vote b slot v))"
proof (cases "evaluate_ballot (record_vote b slot v) 7 = EKK_VOTE_PENDING")
  case False
  with record_vote_inv(1) [OF assms] evaluate_approved [of "record_vote b slot v" 7] assms(2) show ?thesis
    by (simp add: decided_ballot_def Let_def)
next
  case True
  have vc: "unat (bl_vote_count b) < 7" using assms(1,2) by (simp add: ballot_inv_def)
  have "\<not> 7 \<le> (ucast (bl_vote_count b + 1) :: u32)"
    using evaluate_full [of "record_vote b slot v" 7] True assms(2) by auto
  then have "unat (bl_vote_count b) < 6"
    using vc by (simp add: word_le_nat_alt c_arith unat_word_ariths)
  with record_vote_inv(2) [OF assms, of EKK_VOTE_PENDING] True show ?thesis by (simp add: decided_ballot_def)
qed

lemma consensus_inv_on_vote:
  assumes inv: "consensus_inv cons"
  shows "consensus_inv (fst (snd (ekk_consensus_on_vote cons voter k v now complete)))"
proof (cases "v = EKK_VOTE_INHIBIT")
  case True
  with inv show ?thesis by (simp add: consensus_inv_on_inhibit_vote)
next
  case False
  from inv this show ?thesis
  proof (cases rule: on_vote_cases [of _ _ voter k now complete])
    case same
    with inv show ?thesis by simp
  next
    case (recorded idx b)
    with find_ballot_index_live [OF inv recorded(1)] inv show ?thesis
      by (simp add: consensus_inv_update decided_ballot_inv)
  qed
qed

section \<open>The tick\<close>

definition live_ballots :: "ekk_consensus \<Rightarrow> ekk_ballot list" where
  "live_ballots cons = take (cs_active_ballot_count cons) (cs_ballots cons)"

definition live_inhibits :: "ekk_consensus \<Rightarrow> (u16 \<times> u64) list" where
  "live_inhibits cons = take (cs_inhibit_count cons) (cs_inhibits cons)"

lemma is_inhibited_iff:
  "consensus_inv cons \<Longrightarrow> is_inhibited cons k now \<longleftrightarrow> (\<exists>t > now. (k, t) \<in> set (live_inhibits cons))"
  by (auto simp: is_inhibited_def live_inhibits_def find_from_None_live consensus_inv_def)

text \<open>The ballots a tick completes, with their results, in order.\<close>

definition tick_done :: "ekk_consensus \<Rightarrow> u64 \<Rightarrow> (u16 \<times> ekk_vote_result) list" where
  "tick_done cons now =
     List.map_filter (\<lambda>b. map_option (Pair (bl_id b)) (tick_result cons now b)) (live_ballots cons)"

lemma tick_ballot_outputs:
  "concat (map (snd \<circ> tick_ballot cons now) bs) =
   List.map_filter (\<lambda>b. map_option (Pair (bl_id b)) (tick_result cons now b)) bs"
  by (induction bs) (auto simp: tick_ballot_def List.map_filter_simps split: option.split)

lemma tick_done_empty: "tick_done cons now = [] \<longleftrightarrow> (\<forall>b \<in> set (live_ballots cons). tick_result cons now b = None)"
  by (auto simp: tick_done_def List.map_filter_def filter_empty_conv)

definition tick_stays :: "ekk_consensus \<Rightarrow> u64 \<Rightarrow> ekk_ballot \<Rightarrow> bool" where
  "tick_stays cons now b \<longleftrightarrow> \<not> bl_completed b \<and> tick_result cons now b = None"

lemma tick_ballot_stays:
  "filter (\<lambda>b. \<not> bl_completed b) (map (fst \<circ> tick_ballot cons now) bs) = filter (tick_stays cons now) bs"
  by (induction bs) (auto simp: tick_ballot_def tick_stays_def finalize_ballot_def split: option.split)

text \<open>The state after a tick, in terms of the live prefixes.\<close>

lemma tick_state:
  assumes inv: "consensus_inv cons" and tick: "ekk_consensus_tick cons now complete = (n, after, outs)"
  shows "n = length (tick_done cons now)"
    and "outs = (if complete then map (\<lambda>(k, r). CsComplete k r) (tick_done cons now) else [])"
    and "live_ballots after = (if tick_done cons now = [] then live_ballots cons
      else filter (tick_stays cons now) (live_ballots cons))"
    and "live_inhibits after = filter (\<lambda>(k, t). t > now) (live_inhibits cons)"
    and "length (cs_ballots after) = 4 \<and> cs_active_ballot_count after \<le> 4
      \<and> length (cs_inhibits after) = 4 \<and> cs_inhibit_count after \<le> 4 \<and> cs_my_id after = cs_my_id cons
      \<and> cs_config after = cs_config cons"
proof -
  let ?k = "cs_active_ballot_count cons" and ?bs = "cs_ballots cons"
  have len: "length ?bs = 4" "?k \<le> 4" "length (cs_inhibits cons) = 4" "cs_inhibit_count cons \<le> 4"
    using inv by (simp_all add: consensus_inv_def)
  let ?bs' = "map (fst \<circ> tick_ballot cons now) (take ?k ?bs) @ drop ?k ?bs"
  have loop: "array_loop (tick_ballot cons now) ?k ?bs = (?bs', tick_done cons now)"
    using len by (simp add: array_loop_conv tick_ballot_outputs tick_done_def live_ballots_def)
  let ?ih = "compact (\<lambda>(k, t). t > now) (cs_inhibits cons) 0 0 (cs_inhibit_count cons)"
  let ?c = "cons\<lparr>cs_ballots := ?bs', cs_inhibits := fst ?ih, cs_inhibit_count := snd ?ih\<rparr>"
  have after: "after = (if tick_done cons now \<noteq> [] then cleanup_completed_ballots ?c else ?c)"
    and "n = length (tick_done cons now)"
    and "outs = (if complete then map (\<lambda>(k, r). CsComplete k r) (tick_done cons now) else [])"
    using tick unfolding ekk_consensus_tick_def Let_def loop case_prod_unfold fst_conv snd_conv
    by (auto split: if_splits)
  then show "n = length (tick_done cons now)"
    and "outs = (if complete then map (\<lambda>(k, r). CsComplete k r) (tick_done cons now) else [])" by simp_all
  have ih: "take (snd ?ih) (fst ?ih) = filter (\<lambda>(k, t). t > now) (live_inhibits cons)"
    "length (fst ?ih) = 4" "snd ?ih \<le> cs_inhibit_count cons"
    using take_compact [of "cs_inhibit_count cons" "cs_inhibits cons"] len by (simp_all add: live_inhibits_def)
  let ?cl = "compact (\<lambda>b. \<not> bl_completed b) ?bs' 0 0 ?k"
  have "?k \<le> length ?bs'" using len by simp
  note cl = take_compact [OF this, of "\<lambda>b. \<not> bl_completed b"]
  have take: "take ?k ?bs' = map (fst \<circ> tick_ballot cons now) (take ?k ?bs)" using len by simp
  have clean: "take (snd ?cl) (fst ?cl) = filter (tick_stays cons now) (live_ballots cons)"
    using cl(1) by (simp only: take tick_ballot_stays live_ballots_def)
  have same: "map (fst \<circ> tick_ballot cons now) (take ?k ?bs) = take ?k ?bs" if "tick_done cons now = []"
    using that by (auto simp: tick_done_empty live_ballots_def tick_ballot_def intro!: map_idI)
  show "live_ballots after = (if tick_done cons now = [] then live_ballots cons
      else filter (tick_stays cons now) (live_ballots cons))"
    using clean len same by (simp add: after live_ballots_def cleanup_completed_ballots_def split_beta)
  show "live_inhibits after = filter (\<lambda>(k, t). t > now) (live_inhibits cons)"
    using ih(1) by (simp add: after live_inhibits_def cleanup_completed_ballots_def split_beta)
  show "length (cs_ballots after) = 4 \<and> cs_active_ballot_count after \<le> 4
      \<and> length (cs_inhibits after) = 4 \<and> cs_inhibit_count after \<le> 4 \<and> cs_my_id after = cs_my_id cons
      \<and> cs_config after = cs_config cons"
    using ih len cl(2,3) by (auto simp: after cleanup_completed_ballots_def split_beta)
qed

lemma consensus_inv_tick:
  assumes inv: "consensus_inv cons"
  shows "consensus_inv (fst (snd (ekk_consensus_tick cons now complete)))"
proof -
  obtain n after outs where tick: "ekk_consensus_tick cons now complete = (n, after, outs)"
    using prod_cases3 by blast
  note st = tick_state [OF inv tick]
  from inv have "\<forall>b \<in> set (live_ballots cons). ballot_inv b" by (simp add: consensus_inv_def live_ballots_def)
  then have "\<forall>b \<in> set (live_ballots after). ballot_inv b" by (simp add: st(3))
  with st(5) show ?thesis by (simp add: tick consensus_inv_def live_ballots_def)
qed

datatype consensus_event =
    CsPropose ekk_proposal_type u32 int u64
  | CsInhibit u16 u64 bool
  | CsOnVote u8 u16 ekk_vote_value u64 bool
  | CsOnProposal u8 u16 ekk_proposal_type u32 int u64 "(ekk_ballot \<Rightarrow> ekk_vote_value) option"
  | CsTick u64 bool

fun consensus_step :: "ekk_consensus \<Rightarrow> consensus_event \<Rightarrow> ekk_consensus" where
  "consensus_step cons (CsPropose ty d thr now) = fst (snd (snd (ekk_consensus_propose cons ty d thr now)))"
| "consensus_step cons (CsInhibit k now complete) = fst (snd (ekk_consensus_inhibit cons k now complete))"
| "consensus_step cons (CsOnVote v k vote now complete) =
     fst (snd (ekk_consensus_on_vote cons v k vote now complete))"
| "consensus_step cons (CsOnProposal p k ty d thr now dec) =
     fst (snd (ekk_consensus_on_proposal cons p k ty d thr now dec))"
| "consensus_step cons (CsTick now complete) = fst (snd (ekk_consensus_tick cons now complete))"

interpretation cs: event_machine consensus_step consensus_inv
proof unfold_locales
  fix cons e assume "consensus_inv cons"
  then show "consensus_inv (consensus_step cons e)"
    by (cases e) (simp_all add: consensus_inv_propose consensus_inv_inhibit consensus_inv_on_vote
        consensus_inv_on_proposal consensus_inv_tick)
qed

lemma consensus_inv_init: "my_id \<noteq> 0 \<Longrightarrow> consensus_inv (snd (ekk_consensus_init cons my_id config))"
  by (simp add: ekk_consensus_init_def consensus_inv_def)

section \<open>Properties\<close>

text \<open>The votes still to come, recorded one after the other.\<close>

definition record_votes :: "ekk_ballot \<Rightarrow> (nat \<times> ekk_vote_value) list \<Rightarrow> ekk_ballot" where
  "record_votes b vs = foldl (\<lambda>b (slot, v). record_vote b slot v) b vs"

definition yes_votes :: "(nat \<times> ekk_vote_value) list \<Rightarrow> nat" where
  "yes_votes vs = length (filter (\<lambda>(slot, v). v = EKK_VOTE_YES) vs)"

lemma record_votes_counts:
  assumes "unat (bl_vote_count b) + length vs \<le> 7" "unat (bl_yes_count b) \<le> unat (bl_vote_count b)"
  shows "unat (bl_vote_count (record_votes b vs)) = unat (bl_vote_count b) + length vs
    \<and> unat (bl_yes_count (record_votes b vs)) = unat (bl_yes_count b) + yes_votes vs
    \<and> bl_completed (record_votes b vs) = bl_completed b \<and> bl_threshold (record_votes b vs) = bl_threshold b"
  using assms
proof (induction vs arbitrary: b)
  case Nil
  then show ?case by (simp add: record_votes_def yes_votes_def)
next
  case (Cons x vs)
  obtain slot v where x: "x = (slot, v)" by fastforce
  let ?b = "record_vote b slot v"
  have inc: "unat (c + 1) = Suc (unat c)" if "unat c < 7" for c :: u8
    using that by (simp add: unat_word_ariths)
  have vc: "unat (bl_vote_count ?b) = Suc (unat (bl_vote_count b))" using Cons.prems by (simp add: inc)
  have yes: "unat (bl_yes_count ?b) = unat (bl_yes_count b) + (if v = EKK_VOTE_YES then 1 else 0)"
    using Cons.prems by (cases v) (simp_all add: record_vote_def inc)
  have "record_votes b (x # vs) = record_votes ?b vs" by (simp add: record_votes_def x)
  with Cons.IH [of ?b] Cons.prems vc yes show ?case by (simp add: yes_votes_def x)
qed

lemma evaluate_seven:
  assumes "\<not> bl_completed b" "unat (bl_vote_count b) = 7"
  shows "evaluate_ballot b 7 =
    (if bl_threshold b \<le> vote_ratio (ucast (bl_yes_count b)) 7 then EKK_VOTE_APPROVED else EKK_VOTE_REJECTED)"
proof -
  have "\<not> (ucast (bl_vote_count b) :: u32) < 7" using assms(2) by (simp add: word_less_nat_alt c_arith)
  with assms(1) show ?thesis by (simp add: evaluate_ballot_def Let_def)
qed

lemma evaluate_open:
  assumes "\<not> bl_completed b" "unat (bl_vote_count b) < 7"
  shows "evaluate_ballot b 7 =
    (let best = vote_ratio (ucast (bl_yes_count b) + (7 - ucast (bl_vote_count b))) 7
     in if best < bl_threshold b then EKK_VOTE_REJECTED
        else if bl_threshold b \<le> vote_ratio (ucast (bl_yes_count b)) 7 then EKK_VOTE_APPROVED
        else EKK_VOTE_PENDING)"
proof -
  have "(ucast (bl_vote_count b) :: u32) < 7" using assms(2) by (simp add: word_less_nat_alt c_arith)
  with assms(1) show ?thesis by (simp add: evaluate_ballot_def Let_def)
qed

text \<open>
  C14. The early decision is exact. For an open ballot of the engine with some of the seven votes
  missing: when it is already decided, the decision is the one all seven votes give, whatever the
  missing votes are; when it is still pending, the missing votes can still approve it (all yes)
  and still reject it (none yes).
\<close>

theorem early_decision_exact:
  assumes "ballot_inv b" "\<not> bl_completed b" "length vs = EKK_K_NEIGHBORS - unat (bl_vote_count b)"
  shows "(evaluate_ballot b EKK_K_NEIGHBORS_U32 \<noteq> EKK_VOTE_PENDING \<longrightarrow>
      evaluate_ballot (record_votes b vs) EKK_K_NEIGHBORS_U32 = evaluate_ballot b EKK_K_NEIGHBORS_U32)
    \<and> (evaluate_ballot b EKK_K_NEIGHBORS_U32 = EKK_VOTE_PENDING \<and> yes_votes vs = length vs \<longrightarrow>
      evaluate_ballot (record_votes b vs) EKK_K_NEIGHBORS_U32 = EKK_VOTE_APPROVED)
    \<and> (evaluate_ballot b EKK_K_NEIGHBORS_U32 = EKK_VOTE_PENDING \<and> yes_votes vs = 0 \<longrightarrow>
      evaluate_ballot (record_votes b vs) EKK_K_NEIGHBORS_U32 = EKK_VOTE_REJECTED)"
proof -
  have counts: "unat (bl_vote_count b) < 7" "unat (bl_yes_count b) \<le> unat (bl_vote_count b)"
    using assms(1,2) by (auto simp: ballot_inv_def)
  let ?b = "record_votes b vs"
  have b': "unat (bl_vote_count ?b) = 7" "unat (bl_yes_count ?b) = unat (bl_yes_count b) + yes_votes vs"
    "\<not> bl_completed ?b" "bl_threshold ?b = bl_threshold b"
    using record_votes_counts [of b vs] counts assms(2,3) by simp_all
  have yes: "yes_votes vs \<le> length vs" by (simp add: yes_votes_def)
  let ?now = "ucast (bl_yes_count b) :: u32" and ?then = "ucast (bl_yes_count ?b) :: u32"
  let ?best = "?now + (7 - ucast (bl_vote_count b)) :: u32"
  have best: "unat ?best = unat (bl_yes_count b) + length vs"
  proof -
    have "(ucast (bl_vote_count b) :: u32) \<le> 7" using counts(1) by (simp add: word_le_nat_alt c_arith)
    then have "unat (7 - ucast (bl_vote_count b) :: u32) = length vs"
      using assms(3) by (simp add: unat_sub c_arith)
    then show ?thesis using assms(3) counts by (simp add: unat_word_ariths c_arith)
  qed
  have "vote_ratio ?now 7 \<le> vote_ratio ?then 7"
    by (rule vote_ratio_mono) (use b'(2) yes assms(3) counts in \<open>simp_all add: c_arith\<close>)
  moreover have "vote_ratio ?then 7 \<le> vote_ratio ?best 7"
    by (rule vote_ratio_mono) (use b'(2) yes assms(3) counts best in \<open>simp_all add: c_arith\<close>)
  moreover have "?then = ?best" if "yes_votes vs = length vs"
    using that best b'(2) by (metis unat_ucast_up(2) word_unat_eq_iff)
  moreover have "?then = ?now" if "yes_votes vs = 0"
    using that b'(2) by (metis add_0_right unat_ucast_up(2) word_unat_eq_iff)
  ultimately show ?thesis
    using evaluate_seven [OF b'(3,1)] evaluate_open [OF assms(2) counts(1)] b'(4)
    by (auto simp: Let_def)
qed

definition ballot_three_yes :: ekk_ballot where
  "ballot_three_yes = blank_ballot\<lparr>bl_id := 1, bl_threshold := EKK_THRESHOLD_SIMPLE_MAJORITY,
     bl_votes := [EKK_VOTE_YES, EKK_VOTE_YES, EKK_VOTE_YES, EKK_VOTE_YES, EKK_VOTE_ABSTAIN, EKK_VOTE_ABSTAIN,
       EKK_VOTE_ABSTAIN], bl_vote_count := 4, bl_yes_count := 4\<rparr>"

theorem early_decision_exact_witness:
  "evaluate_ballot (record_votes ballot_three_yes [(4, EKK_VOTE_NO), (5, EKK_VOTE_NO), (6, EKK_VOTE_NO)]) 7
     = EKK_VOTE_APPROVED"
proof -
  have "ballot_inv ballot_three_yes" "\<not> bl_completed ballot_three_yes" "unat (bl_vote_count ballot_three_yes) = 4"
    by (simp_all add: ballot_three_yes_def ballot_inv_def blank_ballot_def)
  moreover have "evaluate_ballot ballot_three_yes 7 = EKK_VOTE_APPROVED"
    by (simp add: ballot_three_yes_def blank_ballot_def evaluate_ballot_def vote_ratio_def to_i32_def)
  ultimately show ?thesis
    using early_decision_exact [of ballot_three_yes "[(4, EKK_VOTE_NO), (5, EKK_VOTE_NO), (6, EKK_VOTE_NO)]"]
    by simp
qed

lemma live_ballot_inv: "consensus_inv cons \<Longrightarrow> b \<in> set (live_ballots cons) \<Longrightarrow> ballot_inv b"
  by (simp add: consensus_inv_def live_ballots_def)

text \<open>Of at most seven votes the supermajority threshold asks for more than two thirds.\<close>

lemma supermajority_votes:
  fixes y n :: u8
  assumes "unat y \<le> unat n" "unat n \<le> 7"
  shows "EKK_THRESHOLD_SUPERMAJORITY \<le> vote_ratio (ucast y) (ucast n) \<longleftrightarrow> 2 * unat n < 3 * unat y"
proof (cases "n = 0")
  case True
  with assms show ?thesis by (simp add: vote_ratio_def)
next
  case False
  have u: "uint (ucast x :: u32) = int (unat x)" for x :: u8
    by (subst uint_eq_unat) (rule arg_cong [where f = int], simp add: c_arith)
  have n: "0 < unat n" using False by (simp add: unat_gt_0)
  then have "(ucast n :: u32) > 0" by (simp add: word_less_nat_alt c_arith)
  then have "vote_ratio (ucast y) (ucast n) = (int (unat y) * 65536) div int (unat n)"
    using assms by (subst vote_ratio_eq) (simp_all add: u c_arith)
  moreover have "(int (unat y) * 65536) div int (unat n) = int (unat y * 65536 div unat n)" by (simp add: zdiv_int)
  moreover have "43909 \<le> unat y * 65536 div unat n \<longleftrightarrow> 43909 * unat n \<le> unat y * 65536"
    by (rule less_eq_div_iff_mult_less_eq [OF n])
  ultimately show ?thesis using assms n by linarith
qed

text \<open>An accepted vote, with what is reported.\<close>

lemma on_vote_open:
  assumes inv: "consensus_inv cons" and idx: "find_ballot_index cons k = Some idx" "b = cs_ballots cons ! idx"
    and "bl_proposer b = cs_my_id cons" "\<not> bl_completed b" "voter \<noteq> 0" "k \<noteq> 0" "vote \<noteq> EKK_VOTE_INHIBIT"
  defines "b' \<equiv> decided_ballot (record_vote b (voter_slot voter) vote)"
  shows "ekk_consensus_on_vote cons voter k vote now complete =
    (if bl_votes b ! voter_slot voter \<noteq> EKK_VOTE_ABSTAIN then (EKK_OK, cons, [])
     else (EKK_OK, cons\<lparr>cs_ballots := (cs_ballots cons)[idx := b']\<rparr>,
       if bl_completed b' \<and> complete then [CsComplete k (bl_result b')] else []))"
proof -
  have "idx < length (cs_ballots cons)" "bl_id b = k"
    using find_ballot_index_live [OF inv idx(1)] inv idx(2) by (simp_all add: consensus_inv_def)
  with assms show ?thesis
    by (simp add: ekk_consensus_on_vote_def Let_def split_beta finalize_at_def finalize_ballot_def decided_ballot_def)
qed

lemma decided_ballot_votes [simp]:
  "bl_votes (decided_ballot b) = bl_votes b" "bl_vote_count (decided_ballot b) = bl_vote_count b"
  "bl_threshold (decided_ballot b) = bl_threshold b"
  by (simp_all add: decided_ballot_def Let_def)

text \<open>What the tick decides, and the verdict: the votes received stand for all.\<close>

definition tick_due :: "ekk_consensus \<Rightarrow> u64 \<Rightarrow> ekk_ballot \<Rightarrow> bool" where
  "tick_due cons now b \<longleftrightarrow> \<not> bl_completed b \<and> (is_inhibited cons (bl_id b) now \<or> bl_deadline b \<le> now)"

definition tick_verdict :: "ekk_consensus \<Rightarrow> u64 \<Rightarrow> ekk_ballot \<Rightarrow> ekk_vote_result" where
  "tick_verdict cons now b =
     (if is_inhibited cons (bl_id b) now then EKK_VOTE_CANCELLED
      else if bl_threshold b \<le> vote_ratio (ucast (bl_yes_count b)) (ucast (bl_vote_count b)) then EKK_VOTE_APPROVED
      else EKK_VOTE_REJECTED)"

lemma tick_result_due: "tick_result cons now b = (if tick_due cons now b then Some (tick_verdict cons now b) else None)"
  by (auto simp: tick_result_def tick_due_def tick_verdict_def Let_def evaluate_ballot_def)

lemma tick_done_due:
  "tick_done cons now = map (\<lambda>b. (bl_id b, tick_verdict cons now b)) (filter (tick_due cons now) (live_ballots cons))"
  by (simp add: tick_done_def List.map_filter_def tick_result_due cong: map_cong)

lemma supermajority_five:
  assumes "ballot_inv b" "bl_threshold b = EKK_THRESHOLD_SUPERMAJORITY" "bl_result b = EKK_VOTE_APPROVED"
  shows "5 \<le> count_list (bl_votes b) EKK_VOTE_YES"
proof -
  have "unat (bl_yes_count b) \<le> 7" "EKK_THRESHOLD_SUPERMAJORITY \<le> vote_ratio (ucast (bl_yes_count b)) (ucast (7 :: u8))"
    using assms by (auto simp: ballot_inv_def)
  then show ?thesis using supermajority_votes [of "bl_yes_count b" 7] assms(1) by (simp add: ballot_inv_def)
qed

lemma tally_counts:
  assumes inv: "consensus_inv cons"
  shows "\<forall>b \<in> set (live_ballots cons).
      unat (bl_yes_count b) = count_list (bl_votes b) EKK_VOTE_YES
    \<and> unat (bl_no_count b) = count_list (bl_votes b) EKK_VOTE_NO
    \<and> unat (bl_yes_count b) + unat (bl_no_count b) \<le> unat (bl_vote_count b)
    \<and> unat (bl_vote_count b) \<le> EKK_K_NEIGHBORS
    \<and> (\<not> bl_completed b \<longrightarrow> bl_result b = EKK_VOTE_PENDING)
    \<and> (bl_threshold b = EKK_THRESHOLD_SUPERMAJORITY \<and> bl_result b = EKK_VOTE_APPROVED \<longrightarrow>
         5 \<le> count_list (bl_votes b) EKK_VOTE_YES)"
proof
  fix b assume "b \<in> set (live_ballots cons)"
  from live_ballot_inv [OF inv this] supermajority_five [OF live_ballot_inv [OF inv this]]
  show "unat (bl_yes_count b) = count_list (bl_votes b) EKK_VOTE_YES
    \<and> unat (bl_no_count b) = count_list (bl_votes b) EKK_VOTE_NO
    \<and> unat (bl_yes_count b) + unat (bl_no_count b) \<le> unat (bl_vote_count b)
    \<and> unat (bl_vote_count b) \<le> EKK_K_NEIGHBORS
    \<and> (\<not> bl_completed b \<longrightarrow> bl_result b = EKK_VOTE_PENDING)
    \<and> (bl_threshold b = EKK_THRESHOLD_SUPERMAJORITY \<and> bl_result b = EKK_VOTE_APPROVED \<longrightarrow>
         5 \<le> count_list (bl_votes b) EKK_VOTE_YES)" by (simp add: ballot_inv_def)
qed

lemma tally_vote:
  assumes inv: "consensus_inv cons"
  shows "\<forall>voter k vote now complete idx b. find_ballot_index cons k = Some idx \<and> b = cs_ballots cons ! idx \<and>
        bl_proposer b = cs_my_id cons \<and> \<not> bl_completed b \<and> voter \<noteq> EKK_INVALID_MODULE_ID \<and>
        k \<noteq> EKK_INVALID_BALLOT_ID \<and> vote \<noteq> EKK_VOTE_INHIBIT \<longrightarrow>
      (case ekk_consensus_on_vote cons voter k vote now complete of (err, after, outs) \<Rightarrow>
        err = EKK_OK \<and>
        (if bl_votes b ! voter_slot voter \<noteq> EKK_VOTE_ABSTAIN then after = cons \<and> outs = []
         else (let b' = cs_ballots after ! idx in
           bl_votes b' = (bl_votes b)[voter_slot voter := vote] \<and>
           unat (bl_vote_count b') = Suc (unat (bl_vote_count b)) \<and>
           (vote = EKK_VOTE_ABSTAIN \<longrightarrow> bl_votes b' = bl_votes b) \<and>
           outs = (if bl_completed b' \<and> complete then [CsComplete k (bl_result b')] else []) \<and>
           (bl_threshold b = EKK_THRESHOLD_SUPERMAJORITY \<and> bl_result b' = EKK_VOTE_APPROVED \<longrightarrow>
             5 \<le> count_list (bl_votes b') EKK_VOTE_YES))))"
proof (intro allI impI)
  fix voter :: u8 and k vote now complete idx b
  assume a: "find_ballot_index cons k = Some idx \<and> b = cs_ballots cons ! idx \<and>
        bl_proposer b = cs_my_id cons \<and> \<not> bl_completed b \<and> voter \<noteq> EKK_INVALID_MODULE_ID \<and>
        k \<noteq> EKK_INVALID_BALLOT_ID \<and> vote \<noteq> EKK_VOTE_INHIBIT"
  let ?b = "decided_ballot (record_vote b (voter_slot voter) vote)"
  have b: "ballot_inv b" "idx < length (cs_ballots cons)" "\<not> bl_completed b"
    using find_ballot_index_live [OF inv, of k idx] inv a by (auto simp: consensus_inv_def)
  have "unat (bl_vote_count b) < 7" using b(1,3) by (simp add: ballot_inv_def)
  then have inc: "unat (bl_vote_count b + 1) = Suc (unat (bl_vote_count b))" by (simp add: unat_word_ariths)
  have keep: "(bl_votes b)[voter_slot voter := EKK_VOTE_ABSTAIN] = bl_votes b" if "bl_votes b ! voter_slot voter = EKK_VOTE_ABSTAIN"
    using that list_update_id [of "bl_votes b" "voter_slot voter"] by simp
  have "5 \<le> count_list (bl_votes ?b) EKK_VOTE_YES"
    if "bl_votes b ! voter_slot voter = EKK_VOTE_ABSTAIN" "bl_threshold b = EKK_THRESHOLD_SUPERMAJORITY" "bl_result ?b = EKK_VOTE_APPROVED"
    using supermajority_five [of ?b] decided_ballot_inv [OF b(1,3) voter_slot_less that(1), of vote] that(2,3) by simp
  moreover have "ekk_consensus_on_vote cons voter k vote now complete =
      (if bl_votes b ! voter_slot voter \<noteq> EKK_VOTE_ABSTAIN then (EKK_OK, cons, [])
       else (EKK_OK, cons\<lparr>cs_ballots := (cs_ballots cons)[idx := ?b]\<rparr>,
         if bl_completed ?b \<and> complete then [CsComplete k (bl_result ?b)] else []))"
    by (rule on_vote_open [OF inv]) (use a in blast)+
  ultimately show "case ekk_consensus_on_vote cons voter k vote now complete of (err, after, outs) \<Rightarrow>
        err = EKK_OK \<and>
        (if bl_votes b ! voter_slot voter \<noteq> EKK_VOTE_ABSTAIN then after = cons \<and> outs = []
         else (let b' = cs_ballots after ! idx in
           bl_votes b' = (bl_votes b)[voter_slot voter := vote] \<and>
           unat (bl_vote_count b') = Suc (unat (bl_vote_count b)) \<and>
           (vote = EKK_VOTE_ABSTAIN \<longrightarrow> bl_votes b' = bl_votes b) \<and>
           outs = (if bl_completed b' \<and> complete then [CsComplete k (bl_result b')] else []) \<and>
           (bl_threshold b = EKK_THRESHOLD_SUPERMAJORITY \<and> bl_result b' = EKK_VOTE_APPROVED \<longrightarrow>
             5 \<le> count_list (bl_votes b') EKK_VOTE_YES)))"
    using b(2) inc keep by (simp add: Let_def)
qed

lemma tally_tick:
  assumes inv: "consensus_inv cons"
  shows "\<forall>now b. b \<in> set (live_ballots cons) \<and> bl_threshold b = EKK_THRESHOLD_SUPERMAJORITY \<longrightarrow>
      (tick_result cons now b = Some EKK_VOTE_APPROVED \<longleftrightarrow> \<not> bl_completed b \<and> bl_deadline b \<le> now \<and>
        \<not> is_inhibited cons (bl_id b) now \<and> 2 * unat (bl_vote_count b) < 3 * count_list (bl_votes b) EKK_VOTE_YES)"
proof (intro allI impI)
  fix now b assume b: "b \<in> set (live_ballots cons) \<and> bl_threshold b = EKK_THRESHOLD_SUPERMAJORITY"
  then have "ballot_inv b" using live_ballot_inv [OF inv] by blast
  then show "tick_result cons now b = Some EKK_VOTE_APPROVED \<longleftrightarrow> \<not> bl_completed b \<and> bl_deadline b \<le> now \<and>
        \<not> is_inhibited cons (bl_id b) now \<and> 2 * unat (bl_vote_count b) < 3 * count_list (bl_votes b) EKK_VOTE_YES"
    using supermajority_votes [of "bl_yes_count b" "bl_vote_count b"] b
    by (auto simp: tick_result_due tick_due_def tick_verdict_def ballot_inv_def)
qed

text \<open>
  C8. The tally is honest along every run of the engine from init. In every live ballot the yes
  and no counters are the numbers of voter slots that hold yes and no, they do not exceed the number of votes
  received, at most seven; an open ballot is pending; and a ballot with the supermajority
  threshold that reads APPROVED has at least five of its seven slots at yes. A vote on an open ballot of the
  module's own is ignored when its slot already holds a vote other than ABSTAIN, so a second yes or no
  counts nothing; otherwise it is put into its slot and counted as one more vote received, and the
  completion is reported, when a callback is set, exactly when it decides the ballot. An ABSTAIN leaves its slot as it was, so each
  repetition of it is counted again. The tick approves by the votes received: with the supermajority
  threshold exactly when more than two thirds of them are yes, be it the proposer's vote alone.
\<close>

theorem consensus_tally_honest:
  assumes "my_id \<noteq> EKK_INVALID_MODULE_ID"
    and "cons = foldl consensus_step (snd (ekk_consensus_init c0 my_id config)) es"
  shows "(\<forall>b \<in> set (live_ballots cons).
      unat (bl_yes_count b) = count_list (bl_votes b) EKK_VOTE_YES
    \<and> unat (bl_no_count b) = count_list (bl_votes b) EKK_VOTE_NO
    \<and> unat (bl_yes_count b) + unat (bl_no_count b) \<le> unat (bl_vote_count b)
    \<and> unat (bl_vote_count b) \<le> EKK_K_NEIGHBORS
    \<and> (\<not> bl_completed b \<longrightarrow> bl_result b = EKK_VOTE_PENDING)
    \<and> (bl_threshold b = EKK_THRESHOLD_SUPERMAJORITY \<and> bl_result b = EKK_VOTE_APPROVED \<longrightarrow>
         5 \<le> count_list (bl_votes b) EKK_VOTE_YES))
  \<and> (\<forall>voter k vote now complete idx b. find_ballot_index cons k = Some idx \<and> b = cs_ballots cons ! idx \<and>
        bl_proposer b = cs_my_id cons \<and> \<not> bl_completed b \<and> voter \<noteq> EKK_INVALID_MODULE_ID \<and>
        k \<noteq> EKK_INVALID_BALLOT_ID \<and> vote \<noteq> EKK_VOTE_INHIBIT \<longrightarrow>
      (case ekk_consensus_on_vote cons voter k vote now complete of (err, after, outs) \<Rightarrow>
        err = EKK_OK \<and>
        (if bl_votes b ! voter_slot voter \<noteq> EKK_VOTE_ABSTAIN then after = cons \<and> outs = []
         else (let b' = cs_ballots after ! idx in
           bl_votes b' = (bl_votes b)[voter_slot voter := vote] \<and>
           unat (bl_vote_count b') = Suc (unat (bl_vote_count b)) \<and>
           (vote = EKK_VOTE_ABSTAIN \<longrightarrow> bl_votes b' = bl_votes b) \<and>
           outs = (if bl_completed b' \<and> complete then [CsComplete k (bl_result b')] else []) \<and>
           (bl_threshold b = EKK_THRESHOLD_SUPERMAJORITY \<and> bl_result b' = EKK_VOTE_APPROVED \<longrightarrow>
             5 \<le> count_list (bl_votes b') EKK_VOTE_YES)))))
  \<and> (\<forall>now b. b \<in> set (live_ballots cons) \<and> bl_threshold b = EKK_THRESHOLD_SUPERMAJORITY \<longrightarrow>
      (tick_result cons now b = Some EKK_VOTE_APPROVED \<longleftrightarrow> \<not> bl_completed b \<and> bl_deadline b \<le> now \<and>
        \<not> is_inhibited cons (bl_id b) now \<and> 2 * unat (bl_vote_count b) < 3 * count_list (bl_votes b) EKK_VOTE_YES))"
proof -
  have "consensus_inv cons" using assms by (simp add: cs.inv_run consensus_inv_init)
  then show ?thesis by (intro conjI tally_counts tally_vote tally_tick)
qed

definition consensus_blank :: ekk_consensus where
  "consensus_blank = \<lparr>cs_my_id = 0, cs_ballots = [], cs_active_ballot_count = 0, cs_inhibits = [],
     cs_inhibit_count = 0, cs_next_ballot_id = 0, cs_config = consensus_default_config\<rparr>"

text \<open>Module 1 proposes with a supermajority threshold; modules 2 to 5 vote yes, 2 of them twice.\<close>

definition consensus_example :: "consensus_event list" where
  "consensus_example = CsPropose EKK_PROPOSAL_SHUTDOWN 0 EKK_THRESHOLD_SUPERMAJORITY 1000 #
     map (\<lambda>v. CsOnVote v 1 EKK_VOTE_YES 2000 True) [2, 3, 3, 4, 2, 5]"

lemma consensus_example_ballots:
  "map (\<lambda>b. (bl_threshold b, bl_result b, bl_votes b))
     (live_ballots (foldl consensus_step (snd (ekk_consensus_init consensus_blank 1 None)) consensus_example))
   = [(EKK_THRESHOLD_SUPERMAJORITY, EKK_VOTE_APPROVED,
       [EKK_VOTE_YES, EKK_VOTE_ABSTAIN, EKK_VOTE_YES, EKK_VOTE_YES, EKK_VOTE_YES, EKK_VOTE_YES, EKK_VOTE_ABSTAIN])]"
  by code_simp

theorem consensus_tally_honest_witness:
  "\<exists>b \<in> set (live_ballots (foldl consensus_step (snd (ekk_consensus_init consensus_blank 1 None)) consensus_example)).
     bl_result b = EKK_VOTE_APPROVED \<and> 5 \<le> count_list (bl_votes b) EKK_VOTE_YES"
proof -
  let ?c = "foldl consensus_step (snd (ekk_consensus_init consensus_blank 1 None)) consensus_example"
  obtain b where b: "b \<in> set (live_ballots ?c)" "bl_threshold b = EKK_THRESHOLD_SUPERMAJORITY"
    "bl_result b = EKK_VOTE_APPROVED"
    using consensus_example_ballots by (auto simp: map_eq_Cons_conv)
  with consensus_tally_honest [OF _ refl, of 1 consensus_blank None consensus_example] show ?thesis by auto
qed

text \<open>
  C34. The periodic tick decides exactly the open ballots that are inhibited or overdue: it returns
  their number and, when a completion callback is set, reports each of them once, in order: inhibited ones are
  cancelled, the others approved when the yes votes reach the threshold among the votes
  received and rejected otherwise, never timed out. When nothing was decided every ballot stays; otherwise
  exactly the open ballots that were not due stay, unchanged and in order, and all completed ballots are
  gone, so that reading the result of any ballot, also of one just decided, gives PENDING.
  Expired inhibitions are dropped.
\<close>

theorem consensus_tick_decides:
  assumes "consensus_inv cons" "ekk_consensus_tick cons now complete = (n, after, outs)"
    and "due = filter (\<lambda>b. \<not> bl_completed b \<and> (is_inhibited cons (bl_id b) now \<or> bl_deadline b \<le> now)) (live_ballots cons)"
  shows "n = length due
    \<and> outs = (if complete then map (\<lambda>b. CsComplete (bl_id b)
          (if is_inhibited cons (bl_id b) now then EKK_VOTE_CANCELLED
           else if bl_threshold b \<le> vote_ratio (ucast (bl_yes_count b)) (ucast (bl_vote_count b)) then EKK_VOTE_APPROVED
           else EKK_VOTE_REJECTED)) due else [])
    \<and> live_ballots after = (if n = 0 then live_ballots cons
        else filter (\<lambda>b. \<not> bl_completed b \<and> \<not> is_inhibited cons (bl_id b) now \<and> now < bl_deadline b) (live_ballots cons))
    \<and> (0 < n \<longrightarrow> (\<forall>k. ekk_consensus_get_result after k = EKK_VOTE_PENDING))
    \<and> live_inhibits after = filter (\<lambda>(k, t). t > now) (live_inhibits cons)"
proof -
  note st = tick_state [OF assms(1,2)]
  have "tick_due cons now = (\<lambda>b. \<not> bl_completed b \<and> (is_inhibited cons (bl_id b) now \<or> bl_deadline b \<le> now))"
    by (simp add: tick_due_def fun_eq_iff)
  then have due: "due = filter (tick_due cons now) (live_ballots cons)" by (simp only: assms(3))
  have n: "n = length due" by (simp add: st(1) tick_done_due due)
  have stays: "tick_stays cons now = (\<lambda>b. \<not> bl_completed b \<and> \<not> is_inhibited cons (bl_id b) now \<and> now < bl_deadline b)"
    by (auto simp: tick_stays_def tick_result_due tick_due_def fun_eq_iff not_le)
  have live: "live_ballots after = (if n = 0 then live_ballots cons else filter (tick_stays cons now) (live_ballots cons))"
    using st(1,3) by simp
  have inv: "consensus_inv after" using consensus_inv_tick [OF assms(1), of now complete] assms(2) by simp
  have pending: "ekk_consensus_get_result after k = EKK_VOTE_PENDING" if "0 < n" for k
  proof (cases "find_ballot_index after k")
    case (Some idx)
    note f = find_ballot_index_live [OF inv Some]
    have "cs_ballots after ! idx \<in> set (live_ballots after)"
      using f(1) inv by (auto simp: live_ballots_def consensus_inv_def intro!: set_take_nth)
    then have "\<not> bl_completed (cs_ballots after ! idx)" using that live by (simp add: stays)
    with f(4) Some show ?thesis by (simp add: ekk_consensus_get_result_def ballot_inv_def)
  qed (simp add: ekk_consensus_get_result_def)
  have "outs = (if complete then map (\<lambda>b. CsComplete (bl_id b) (tick_verdict cons now b)) due else [])"
    by (simp add: st(2) tick_done_due due o_def)
  then show ?thesis
    using n live pending st(4) unfolding stays tick_verdict_def by blast
qed

definition consensus_overdue :: ekk_consensus where
  "consensus_overdue = foldl consensus_step (snd (ekk_consensus_init consensus_blank 1 None))
     [CsPropose EKK_PROPOSAL_SHUTDOWN 0 EKK_THRESHOLD_SUPERMAJORITY 1000,
      CsPropose EKK_PROPOSAL_MODE_CHANGE 0 EKK_THRESHOLD_SUPERMAJORITY 30000]"

lemma consensus_overdue_inv: "consensus_inv consensus_overdue"
  unfolding consensus_overdue_def by (rule cs.inv_run [OF consensus_inv_init]) simp

lemma consensus_overdue_ballots:
  "map (\<lambda>b. (bl_completed b, bl_deadline b, is_inhibited consensus_overdue (bl_id b) 60000))
     (live_ballots consensus_overdue) = [(False, 51000, False), (False, 80000, False)]"
  by code_simp

theorem consensus_tick_decides_witness:
  "fst (ekk_consensus_tick consensus_overdue 60000 True) = 1
   \<and> snd (snd (ekk_consensus_tick consensus_overdue 60000 True)) = [CsComplete 1 EKK_VOTE_APPROVED]"
proof -
  obtain n after outs where tick: "ekk_consensus_tick consensus_overdue 60000 True = (n, after, outs)"
    using prod_cases3 by blast
  let ?due = "filter (\<lambda>b. \<not> bl_completed b \<and> (is_inhibited consensus_overdue (bl_id b) 60000 \<or> bl_deadline b \<le> 60000))
    (live_ballots consensus_overdue)"
  have "map (\<lambda>b. (bl_id b, bl_threshold b, bl_yes_count b, bl_vote_count b)) ?due = [(1, EKK_THRESHOLD_SUPERMAJORITY, 1, 1)]"
    and open1: "\<not> is_inhibited consensus_overdue 1 60000"
    by code_simp+
  then obtain z where z: "?due = [z]" "bl_id z = 1" "bl_threshold z = EKK_THRESHOLD_SUPERMAJORITY"
      "bl_yes_count z = 1" "bl_vote_count z = 1"
    by (auto simp: map_eq_Cons_conv)
  have "vote_ratio 1 1 = 65536" by (simp add: vote_ratio_def to_i32_def)
  with consensus_tick_decides [OF consensus_overdue_inv tick refl, unfolded z(1)] z(2-) open1 tick show ?thesis by simp
qed

text \<open>All four slots taken by ballots that were decided between ticks.\<close>

definition consensus_full :: "ekk_consensus \<Rightarrow> bool" where
  "consensus_full cons \<longleftrightarrow>
     consensus_inv cons \<and> cs_active_ballot_count cons = 4 \<and> (\<forall>b \<in> set (live_ballots cons). bl_completed b)"

lemma consensus_full_finalize_at:
  "consensus_full cons \<Longrightarrow> consensus_inv (fst (finalize_at cons i r complete)) \<Longrightarrow>
   consensus_full (fst (finalize_at cons i r complete))"
  using set_update_subset_insert [of "live_ballots cons" i "(cs_ballots cons ! i)\<lparr>bl_result := r, bl_completed := True\<rparr>"]
  by (auto simp: consensus_full_def finalize_at_def finalize_ballot_def live_ballots_def take_update_live)

lemma consensus_full_add_inhibit:
  "consensus_full cons \<Longrightarrow> consensus_inv (consensus_add_inhibit (consensus_evict_oldest cons) k now) \<Longrightarrow>
   consensus_full (consensus_add_inhibit (consensus_evict_oldest cons) k now)"
  "consensus_full cons \<Longrightarrow> consensus_inv (consensus_add_inhibit cons k now) \<Longrightarrow>
   consensus_full (consensus_add_inhibit cons k now)"
  by (simp_all add: consensus_full_def consensus_add_inhibit_def consensus_evict_oldest_def live_ballots_def)

lemma consensus_full_tick:
  assumes "consensus_full cons"
  shows "consensus_full (fst (snd (ekk_consensus_tick cons now complete)))"
proof -
  obtain n after outs where tick: "ekk_consensus_tick cons now complete = (n, after, outs)"
    using prod_cases3 by blast
  from assms have inv: "consensus_inv cons" by (simp add: consensus_full_def)
  have none: "tick_done cons now = []"
    using assms by (simp add: tick_done_empty consensus_full_def tick_result_def)
  note st = tick_state [OF inv tick]
  have "live_ballots after = live_ballots cons" using st(3) none by simp
  moreover from this have "cs_active_ballot_count after = 4"
    using assms st(5) inv by (auto simp: live_ballots_def consensus_full_def consensus_inv_def dest: arg_cong [of _ _ length])
  moreover have "consensus_inv after" using consensus_inv_tick [OF inv, of now complete] by (simp add: tick)
  ultimately show ?thesis using assms by (simp add: tick consensus_full_def)
qed

lemma consensus_full_on_vote:
  assumes "consensus_full cons"
  shows "consensus_full (fst (snd (ekk_consensus_on_vote cons v k vote now complete)))"
proof -
  from assms have inv: "consensus_inv cons" by (simp add: consensus_full_def)
  have decided: "bl_completed (cs_ballots c ! i)" if "consensus_full c" "find_ballot_index c k = Some i" for c i
  proof -
    have "cs_ballots c ! i \<in> set (live_ballots c)"
      using that find_ballot_index_live [of c k i]
      by (auto simp: consensus_full_def live_ballots_def consensus_inv_def intro!: set_take_nth)
    with that show ?thesis by (simp add: consensus_full_def)
  qed
  let ?a = "if cs_inhibit_count cons < 4 then consensus_add_inhibit cons k now else cons"
  have a: "consensus_full ?a"
    using assms consensus_full_add_inhibit(2) [OF assms consensus_inv_add_inhibit [OF inv]] by simp
  show ?thesis
    using assms decided [OF assms] a decided [OF a]
    by (auto simp: ekk_consensus_on_vote_def Let_def split: option.split)
qed

lemma consensus_full_inhibit:
  assumes "consensus_full cons"
  shows "consensus_full (fst (snd (ekk_consensus_inhibit cons k now complete)))"
proof -
  from assms have inv: "consensus_inv cons" by (simp add: consensus_full_def)
  let ?a = "consensus_add_inhibit (consensus_evict_oldest cons) k now"
  have a: "consensus_full ?a"
    using consensus_inv_evict [OF inv] by (intro consensus_full_add_inhibit(1) assms consensus_inv_add_inhibit) simp_all
  have "consensus_full (fst (finalize_at ?a i EKK_VOTE_CANCELLED complete))" if "find_ballot_index ?a k = Some i" for i
    using a that by (intro consensus_full_finalize_at consensus_inv_finalize_at) (auto simp: consensus_full_def)
  moreover have "consensus_full (cons\<lparr>cs_inhibits := (cs_inhibits cons)[i := x]\<rparr>)" for i x
    using assms by (simp add: consensus_full_def consensus_inv_def live_ballots_def)
  ultimately show ?thesis
    using assms a by (auto simp: ekk_consensus_inhibit_def Let_def split_beta split: option.split)
qed

interpretation cs_full: event_machine consensus_step consensus_full
proof unfold_locales
  fix cons e assume full: "consensus_full cons"
  then have none: "allocate_ballot_slot cons = None" by (simp add: allocate_ballot_slot_def consensus_full_def)
  show "consensus_full (consensus_step cons e)"
    using full none
    by (cases e) (simp_all add: consensus_full_inhibit consensus_full_on_vote consensus_full_tick
        ekk_consensus_propose_def ekk_consensus_on_proposal_def)
qed

text \<open>
  C33. Decided ballots are never collected on their own: the tick cleans up only when it decides a
  ballot itself. Once all four slots hold ballots that votes decided between two ticks, they
  stay: after any further sequence of ticks, votes, inhibitions and proposals, every proposal of
  this module is refused as BUSY.
\<close>

theorem consensus_slots_leak:
  assumes "consensus_full cons" "later = foldl consensus_step cons es"
  shows "ekk_consensus_propose later ty data threshold now = (EKK_ERR_BUSY, None, later, [])"
proof -
  have "consensus_full later" using assms by (simp add: cs_full.inv_run)
  then show ?thesis by (simp add: ekk_consensus_propose_def allocate_ballot_slot_def consensus_full_def)
qed

text \<open>Four proposals in a row, each approved at once by three neighbors.\<close>

definition consensus_leaked :: ekk_consensus where
  "consensus_leaked = foldl consensus_step (snd (ekk_consensus_init consensus_blank 1 None))
     (concat (map (\<lambda>k. CsPropose EKK_PROPOSAL_MODE_CHANGE 0 EKK_THRESHOLD_SIMPLE_MAJORITY 1000 #
        map (\<lambda>v. CsOnVote v k EKK_VOTE_YES 2000 True) [2, 3, 4]) [1, 2, 3, 4]))"

lemma consensus_leaked_full: "consensus_full consensus_leaked"
proof -
  have "consensus_inv consensus_leaked"
    unfolding consensus_leaked_def by (rule cs.inv_run [OF consensus_inv_init]) simp
  moreover have "cs_active_ballot_count consensus_leaked = 4 \<and> list_all bl_completed (live_ballots consensus_leaked)"
    by code_simp
  ultimately show ?thesis by (simp add: consensus_full_def list_all_iff)
qed

theorem consensus_slots_leak_witness:
  "fst (ekk_consensus_propose (foldl consensus_step consensus_leaked [CsTick 1000000 True, CsTick 2000000 True])
     EKK_PROPOSAL_SHUTDOWN 0 EKK_THRESHOLD_UNANIMOUS 3000000) = EKK_ERR_BUSY"
  by (simp only: consensus_slots_leak [OF consensus_leaked_full refl] fst_conv)

section \<open>Quarantine bookkeeping\<close>

datatype quarantine_event = QuExecute u8 u64 | QuLift u8

fun quarantine_step :: "ekk_consensus \<Rightarrow> ekk_quarantine_state \<Rightarrow> quarantine_event \<Rightarrow> ekk_quarantine_state" where
  "quarantine_step cons st (QuExecute m now) = snd (ekk_consensus_execute_quarantine cons st m now)"
| "quarantine_step cons st (QuLift m) = snd (ekk_quarantine_lift st m)"

definition quarantine_inv :: "u8 \<Rightarrow> ekk_quarantine_state \<Rightarrow> bool" where
  "quarantine_inv me st \<longleftrightarrow>
     unat (qs_quarantine_count st) = card {m. qs_quarantined st m}
     \<and> \<not> qs_quarantined st 0 \<and> \<not> qs_quarantined st me
     \<and> (\<forall>m. \<not> qs_quarantined st m \<longrightarrow> qs_quarantine_time st m = 0)"

lemma quarantine_inv_execute:
  assumes inv: "quarantine_inv (cs_my_id cons) st"
  shows "quarantine_inv (cs_my_id cons) (snd (ekk_consensus_execute_quarantine cons st m now))"
proof (cases "m = 0 \<or> m = cs_my_id cons \<or> qs_quarantined st m")
  case True
  with inv show ?thesis by (auto simp: ekk_consensus_execute_quarantine_def)
next
  case False
  let ?Q = "{m. qs_quarantined st m}"
  have Q: "{k. ((qs_quarantined st)(m := True)) k} = insert m ?Q" "m \<notin> ?Q" using False by auto
  have "insert m ?Q \<subseteq> UNIV - {0}" using False inv by (auto simp: quarantine_inv_def)
  then have "card (insert m ?Q) \<le> card (UNIV - {0 :: u8})" by (intro card_mono) simp_all
  then have "Suc (card ?Q) \<le> 255" using Q(2) by (simp add: card_Diff_singleton card_word)
  then have "unat (qs_quarantine_count st + 1) = Suc (card ?Q)"
    using inv by (simp add: quarantine_inv_def unat_word_ariths)
  with False inv Q show ?thesis
    by (auto simp: ekk_consensus_execute_quarantine_def quarantine_inv_def)
qed

lemma quarantine_inv_lift:
  assumes inv: "quarantine_inv me st"
  shows "quarantine_inv me (snd (ekk_quarantine_lift st m))"
proof (cases "m = 0 \<or> \<not> qs_quarantined st m")
  case True
  with inv show ?thesis by (auto simp: ekk_quarantine_lift_def)
next
  case False
  let ?Q = "{m. qs_quarantined st m}"
  have Q: "{k. ((qs_quarantined st)(m := False)) k} = ?Q - {m}" "m \<in> ?Q" using False by auto
  then have card: "card (?Q - {m}) = card ?Q - 1" "0 < card ?Q" by (auto simp: card_gt_0_iff)
  then have "(1 :: u8) \<le> qs_quarantine_count st" using inv by (simp add: quarantine_inv_def word_le_nat_alt)
  then have "unat (qs_quarantine_count st - 1) = card (?Q - {m})"
    using inv card(1) by (simp add: quarantine_inv_def unat_sub)
  with False inv Q(1) show ?thesis
    by (auto simp: ekk_quarantine_lift_def quarantine_inv_def)
qed

interpretation qs: event_machine "quarantine_step cons" "quarantine_inv (cs_my_id cons)" for cons
proof unfold_locales
  fix st e assume "quarantine_inv (cs_my_id cons) st"
  then show "quarantine_inv (cs_my_id cons) (quarantine_step cons st e)"
    by (cases e) (simp_all add: quarantine_inv_execute quarantine_inv_lift)
qed

text \<open>
  After any sequence of quarantines and lifts from the initial state, the counter is the
  number of quarantined modules, and the module itself and the invalid id are never among them.
  Quarantining a module that is not yet quarantined flags it with the time and raises the count
  by one, doing it again changes nothing, and lifting it restores the previous state exactly.
\<close>

lemma quarantine_bookkeeping:
  assumes "st = foldl (quarantine_step cons) ekk_quarantine_init es"
    and "m \<noteq> EKK_INVALID_MODULE_ID" "m \<noteq> cs_my_id cons" "\<not> ekk_consensus_is_quarantined st m"
    and "ekk_consensus_execute_quarantine cons st m now = (r, st')"
  shows "unat (qs_quarantine_count st) = card {k. ekk_consensus_is_quarantined st k}
    \<and> \<not> ekk_consensus_is_quarantined st (cs_my_id cons)
    \<and> r = EKK_OK \<and> ekk_consensus_is_quarantined st' m \<and> qs_quarantine_time st' m = now
    \<and> unat (qs_quarantine_count st') = Suc (unat (qs_quarantine_count st))
    \<and> ekk_consensus_execute_quarantine cons st' m now' = (EKK_OK, st')
    \<and> ekk_quarantine_lift st' m = (EKK_OK, st)"
proof -
  have "quarantine_inv (cs_my_id cons) ekk_quarantine_init"
    by (simp add: quarantine_inv_def ekk_quarantine_init_def)
  then have inv: "quarantine_inv (cs_my_id cons) st" unfolding assms(1) by (rule qs.inv_run)
  have r: "r = EKK_OK" and st': "st' = st\<lparr>qs_quarantined := (qs_quarantined st)(m := True),
      qs_quarantine_time := (qs_quarantine_time st)(m := now), qs_quarantine_count := qs_quarantine_count st + 1\<rparr>"
    using assms(2-5) by (auto simp: ekk_consensus_execute_quarantine_def ekk_consensus_is_quarantined_def)
  have inv': "quarantine_inv (cs_my_id cons) st'"
    using quarantine_inv_execute [OF inv, of m now] assms(5) by simp
  have fresh: "\<not> qs_quarantined st m" using assms(2,4) by (simp add: ekk_consensus_is_quarantined_def)
  have set: "{k. ekk_consensus_is_quarantined s k} = {k. qs_quarantined s k}" if "quarantine_inv me s" for me s
    using that by (auto simp: ekk_consensus_is_quarantined_def quarantine_inv_def)
  have "{k. qs_quarantined st' k} = insert m {k. qs_quarantined st k}" by (auto simp: st')
  then have count: "unat (qs_quarantine_count st') = Suc (unat (qs_quarantine_count st))"
    using inv inv' fresh by (simp add: quarantine_inv_def)
  have "(qs_quarantine_time st)(m := 0) = qs_quarantine_time st" "(qs_quarantined st)(m := False) = qs_quarantined st"
    using inv fresh by (auto simp: quarantine_inv_def fun_eq_iff)
  then have "ekk_quarantine_lift st' m = (EKK_OK, st)"
    using assms(2) by (simp add: ekk_quarantine_lift_def st')
  with r st' inv count assms(2,3) set [OF inv] show ?thesis
    by (simp add: quarantine_inv_def ekk_consensus_is_quarantined_def ekk_consensus_execute_quarantine_def)
qed

end
