(* ===== verification/Ekk_Field.thy ===== *)
theory Ekk_Field
  imports Ekk_Interfaces
begin

unbundle bit_operations_syntax

text \<open>
  Coordination fields in shared memory (\<open>src/ekk_field.c\<close>, \<open>include/ekk/ekk_field.h\<close>): publishing under
  a sequence lock, sampling with decay, aggregation over neighbors, garbage collection and field
  arithmetic. The global pointer \<open>g_field_region\<close> is an option; the table has 256 entries indexed
  by a \<open>uint8_t\<close>. The last part models the sequence lock with the writer and the reader
  interleaved.
\<close>

section \<open>Model\<close>

abbreviation (input) EKK_FIELD_MAX_AGE_US :: u64 where "EKK_FIELD_MAX_AGE_US \<equiv> EKK_FIELD_DECAY_TAU_US * 5"

record ekk_coord_field =
  cf_field :: ekk_field
  cf_sequence :: u32

record ekk_field_region =
  fr_fields :: "u8 \<Rightarrow> ekk_coord_field"
  fr_update_flags :: "u32 list"
  fr_last_gc :: u64

text \<open>The static state of the file.\<close>

record field_state =
  fs_region :: "ekk_field_region option"
  fs_decay_tau_us :: u64

definition ekk_field_init :: "field_state \<Rightarrow> ekk_error \<times> field_state" where
  "ekk_field_init st =
     (EKK_OK, st\<lparr>fs_region := Some \<lparr>fr_fields = (\<lambda>_. \<lparr>cf_field = ekk_field_clear, cf_sequence = 0\<rparr>),
        fr_update_flags = replicate 8 0, fr_last_gc = 0\<rparr>\<rparr>)"

text \<open>What publishing writes into the slot, after the first increment of its sequence.\<close>

definition published_field :: "u8 \<Rightarrow> ekk_field \<Rightarrow> u64 \<Rightarrow> u32 \<Rightarrow> ekk_field" where
  "published_field module_id f now sequence =
     \<lparr>fl_components = map (\<lambda>i. fl_components f ! i) [0..<EKK_FIELD_COUNT], fl_timestamp = now,
      fl_source = module_id, fl_sequence = ucast sequence\<rparr>"

definition ekk_field_publish :: "field_state \<Rightarrow> u8 \<Rightarrow> ekk_field \<Rightarrow> u64 \<Rightarrow> ekk_error \<times> field_state" where
  "ekk_field_publish st module_id f now =
     (case fs_region st of
        None \<Rightarrow> (EKK_ERR_HAL_FAILURE, st)
      | Some region \<Rightarrow>
          if module_id = EKK_INVALID_MODULE_ID then (EKK_ERR_INVALID_ARG, st)
          else
            (let cf = fr_fields region module_id;
                 cf = cf\<lparr>cf_sequence := cf_sequence cf + 1\<rparr>;
                 cf = cf\<lparr>cf_field := published_field module_id f now (cf_sequence cf)\<rparr>;
                 cf = cf\<lparr>cf_sequence := cf_sequence cf + 1\<rparr>;
                 word = unat module_id div 32;
                 bit = push_bit (unat module_id mod 32) 1;
                 region = region\<lparr>fr_fields := (fr_fields region)(module_id := cf),
                   fr_update_flags := (fr_update_flags region)[word := fr_update_flags region ! word OR bit]\<rparr>
             in (EKK_OK, st\<lparr>fs_region := Some region\<rparr>)))"

definition ekk_field_apply_decay :: "u64 \<Rightarrow> ekk_field \<Rightarrow> u64 \<Rightarrow> ekk_field" where
  "ekk_field_apply_decay tau f elapsed_us =
     (let decay_factor = ekk_fixed_exp_decay elapsed_us tau
      in f\<lparr>fl_components := map (\<lambda>i. ekk_fixed_mul (fl_components f ! i) decay_factor) [0..<EKK_FIELD_COUNT]\<rparr>)"

text \<open>
  \<open>seq_after\<close> is what the second reading of the sequence sees, \<open>cf_sequence\<close> of the slot when no
  writer interferes. The sampled field is returned on success.
\<close>

definition ekk_field_sample :: "field_state \<Rightarrow> u8 \<Rightarrow> u64 \<Rightarrow> u32 \<Rightarrow> ekk_error \<times> ekk_field option" where
  "ekk_field_sample st target_id now seq_after =
     (case fs_region st of
        None \<Rightarrow> (EKK_ERR_HAL_FAILURE, None)
      | Some region \<Rightarrow>
          if target_id = EKK_INVALID_MODULE_ID then (EKK_ERR_INVALID_ARG, None)
          else
            (let cf = fr_fields region target_id;
                 seq_before = cf_sequence cf
             in if seq_before AND 1 \<noteq> 0 then (EKK_ERR_BUSY, None)
                else if fl_source (cf_field cf) = EKK_INVALID_MODULE_ID then (EKK_ERR_NOT_FOUND, None)
                else (let age = now - fl_timestamp (cf_field cf)
                      in if age > EKK_FIELD_MAX_AGE_US then (EKK_ERR_FIELD_EXPIRED, None)
                         else if seq_after \<noteq> seq_before then (EKK_ERR_BUSY, None)
                         else (EKK_OK, Some (ekk_field_apply_decay (fs_decay_tau_us st) (cf_field cf) age)))))"

definition slot_sequence :: "field_state \<Rightarrow> u8 \<Rightarrow> u32" where
  "slot_sequence st k = (case fs_region st of None \<Rightarrow> 0 | Some region \<Rightarrow> cf_sequence (fr_fields region k))"

abbreviation sample_quiet :: "field_state \<Rightarrow> u8 \<Rightarrow> u64 \<Rightarrow> ekk_error \<times> ekk_field option" where
  "sample_quiet st k now \<equiv> ekk_field_sample st k now (slot_sequence st k)"

text \<open>The weight of a neighbor in the aggregate.\<close>

definition neighbor_weight :: "ekk_neighbor \<Rightarrow> int" where
  "neighbor_weight neighbor =
     (let weight = (if nb_health neighbor = EKK_HEALTH_SUSPECT then EKK_FIXED_HALF else EKK_FIXED_ONE)
      in if nb_logical_distance neighbor > 0
         then ekk_fixed_mul weight (ekk_fixed_div EKK_FIXED_ONE
           (to_i32 (EKK_FIXED_ONE + to_i32 (nb_logical_distance neighbor * 256))))
         else weight)"

text \<open>The accumulators of the loop over the neighbors: sums, total weight, newest timestamp.\<close>

definition accumulate_neighbor ::
  "field_state \<Rightarrow> u64 \<Rightarrow> ekk_neighbor \<Rightarrow> int list \<times> int \<times> u64 \<Rightarrow> int list \<times> int \<times> u64"
where
  "accumulate_neighbor st now neighbor acc =
     (case acc of (sums, total_weight, max_timestamp) \<Rightarrow>
        if nb_health neighbor = EKK_HEALTH_DEAD \<or> nb_health neighbor = EKK_HEALTH_UNKNOWN then acc
        else (case sample_quiet st (nb_id neighbor) now of
            (EKK_OK, Some nfield) \<Rightarrow>
              (let weight = neighbor_weight neighbor
               in (map (\<lambda>c. to_i64 (sums ! c + ekk_fixed_mul (fl_components nfield ! c) weight)) [0..<EKK_FIELD_COUNT],
                   to_i32 (total_weight + weight),
                   if fl_timestamp nfield > max_timestamp then fl_timestamp nfield else max_timestamp))
          | _ \<Rightarrow> acc))"

text \<open>\<open>None\<close> stands for the division by zero when the total weight is below one.\<close>

definition ekk_field_sample_neighbors ::
  "field_state \<Rightarrow> ekk_neighbor list \<Rightarrow> u64 \<Rightarrow> (ekk_error \<times> ekk_field) option"
where
  "ekk_field_sample_neighbors st neighbors now =
     (if neighbors = [] then Some (EKK_OK, ekk_field_clear)
      else (case fold (accumulate_neighbor st now) neighbors (replicate EKK_FIELD_COUNT 0, 0, 0) of
          (sums, total_weight, max_timestamp) \<Rightarrow>
            (let aggregate = ekk_field_clear\<lparr>fl_timestamp := max_timestamp\<rparr>
             in if total_weight > 0
                then (let divisor = total_weight div 65536
                      in if divisor = 0 then None
                         else Some (EKK_OK, aggregate\<lparr>fl_components :=
                           map (\<lambda>c. to_i32 ((sums ! c) sdiv divisor)) [0..<EKK_FIELD_COUNT]\<rparr>))
                else Some (EKK_OK, aggregate))))"

definition ekk_field_gradient :: "ekk_field \<Rightarrow> ekk_field \<Rightarrow> nat \<Rightarrow> int" where
  "ekk_field_gradient my_field neighbor_aggregate component =
     (if component \<ge> EKK_FIELD_COUNT then 0
      else to_i32 (fl_components neighbor_aggregate ! component - fl_components my_field ! component))"

definition ekk_field_gradient_all :: "ekk_field \<Rightarrow> ekk_field \<Rightarrow> int list" where
  "ekk_field_gradient_all my_field neighbor_aggregate =
     map (\<lambda>i. to_i32 (fl_components neighbor_aggregate ! i - fl_components my_field ! i)) [0..<EKK_FIELD_COUNT]"

definition gc_slot :: "u64 \<Rightarrow> u64 \<Rightarrow> ekk_coord_field \<Rightarrow> ekk_coord_field \<times> nat" where
  "gc_slot now max_age_us cf =
     (if fl_source (cf_field cf) = EKK_INVALID_MODULE_ID then (cf, 0)
      else if now - fl_timestamp (cf_field cf) > max_age_us
      then (cf\<lparr>cf_field := (cf_field cf)\<lparr>fl_source := EKK_INVALID_MODULE_ID\<rparr>\<rparr>, 1)
      else (cf, 0))"

definition ekk_field_gc :: "field_state \<Rightarrow> u64 \<Rightarrow> u64 \<Rightarrow> nat \<times> field_state" where
  "ekk_field_gc st max_age_us now =
     (case fs_region st of
        None \<Rightarrow> (0, st)
      | Some region \<Rightarrow>
          (let (tbl, expired_count) =
             fold (\<lambda>i (tbl, n). case gc_slot now max_age_us (tbl i) of (cf, k) \<Rightarrow> (tbl(i := cf), n + k))
               (map of_nat [0..<EKK_MAX_MODULES]) (fr_fields region, 0)
           in (expired_count, st\<lparr>fs_region := Some (region\<lparr>fr_fields := tbl, fr_last_gc := now\<rparr>)\<rparr>)))"

definition ekk_field_add :: "ekk_field \<Rightarrow> ekk_field \<Rightarrow> ekk_field" where
  "ekk_field_add a b =
     \<lparr>fl_components = map (\<lambda>i. to_i32 (fl_components a ! i + fl_components b ! i)) [0..<EKK_FIELD_COUNT],
      fl_timestamp = max (fl_timestamp a) (fl_timestamp b), fl_source = fl_source a, fl_sequence = fl_sequence a\<rparr>"

definition ekk_field_scale :: "ekk_field \<Rightarrow> int \<Rightarrow> ekk_field" where
  "ekk_field_scale f factor =
     f\<lparr>fl_components := map (\<lambda>i. ekk_fixed_mul (fl_components f ! i) factor) [0..<EKK_FIELD_COUNT]\<rparr>"

definition ekk_field_lerp :: "ekk_field \<Rightarrow> ekk_field \<Rightarrow> int \<Rightarrow> ekk_field" where
  "ekk_field_lerp a b t =
     (let t = (if t < 0 then 0 else t);
          t = (if t > EKK_FIXED_ONE then EKK_FIXED_ONE else t);
          one_minus_t = EKK_FIXED_ONE - t
      in \<lparr>fl_components = map (\<lambda>i. to_i32 (ekk_fixed_mul (fl_components a ! i) one_minus_t
             + ekk_fixed_mul (fl_components b ! i) t)) [0..<EKK_FIELD_COUNT],
          fl_timestamp = max (fl_timestamp a) (fl_timestamp b), fl_source = fl_source a,
          fl_sequence = fl_sequence a\<rparr>)"

definition ekk_field_get_region :: "field_state \<Rightarrow> ekk_field_region option" where
  "ekk_field_get_region st = fs_region st"

text \<open>The inline functions of the header that share their names with functions of \<open>ekk_types.c\<close>.\<close>

definition field_is_valid_at :: "ekk_field \<Rightarrow> u64 \<Rightarrow> u64 \<Rightarrow> bool" where
  "field_is_valid_at f now max_age_us = (fl_source f \<noteq> EKK_INVALID_MODULE_ID \<and> now - fl_timestamp f < max_age_us)"

definition field_set_main :: "ekk_field \<Rightarrow> int \<Rightarrow> int \<Rightarrow> int \<Rightarrow> ekk_field" where
  "field_set_main f load thermal pwr =
     f\<lparr>fl_components := (fl_components f)[0 := load, 1 := thermal, 2 := pwr]\<rparr>"

section \<open>Publishing and sampling\<close>

text \<open>No write in progress in any slot, and the eight words of update flags.\<close>

definition field_inv :: "field_state \<Rightarrow> bool" where
  "field_inv st = (case fs_region st of None \<Rightarrow> True
     | Some region \<Rightarrow> length (fr_update_flags region) = 8 \<and> (\<forall>k. even (cf_sequence (fr_fields region k))))"

definition field_slot :: "field_state \<Rightarrow> u8 \<Rightarrow> ekk_field" where
  "field_slot st k = (case fs_region st of None \<Rightarrow> ekk_field_clear | Some region \<Rightarrow> cf_field (fr_fields region k))"

abbreviation field_ready :: "field_state \<Rightarrow> bool" where
  "field_ready st \<equiv> field_inv st \<and> fs_region st \<noteq> None"

lemma and_one_even [simp]: "(x :: u32) AND 1 = 0 \<longleftrightarrow> even x"
  by (simp add: and_one_eq even_iff_mod_2_eq_zero)

lemma init_ready: "field_ready (snd (ekk_field_init st))"
  by (simp add: ekk_field_init_def field_inv_def)

text \<open>Sampling a quiet table, read off the slot.\<close>

lemma sample_quiet_conv:
  assumes "field_ready st" "k \<noteq> EKK_INVALID_MODULE_ID"
  shows "sample_quiet st k now =
    (if fl_source (field_slot st k) = EKK_INVALID_MODULE_ID then (EKK_ERR_NOT_FOUND, None)
     else if now - fl_timestamp (field_slot st k) > EKK_FIELD_MAX_AGE_US then (EKK_ERR_FIELD_EXPIRED, None)
     else (EKK_OK, Some (ekk_field_apply_decay (fs_decay_tau_us st) (field_slot st k)
       (now - fl_timestamp (field_slot st k)))))"
  using assms
  by (auto simp: ekk_field_sample_def slot_sequence_def field_slot_def field_inv_def Let_def split: option.splits)

lemma publish_effect:
  fixes f t
  assumes "field_ready st" "k \<noteq> EKK_INVALID_MODULE_ID"
  defines "st' \<equiv> snd (ekk_field_publish st k f t)"
  shows "fst (ekk_field_publish st k f t) = EKK_OK" "field_ready st'" "fs_decay_tau_us st' = fs_decay_tau_us st"
    "field_slot st' j = (if j = k then published_field k f t (slot_sequence st k + 1) else field_slot st j)"
  using assms
  by (auto simp: ekk_field_publish_def field_inv_def field_slot_def slot_sequence_def Let_def split: option.splits)

lemma apply_decay_now:
  assumes "tau \<noteq> 0" "length (fl_components f) = EKK_FIELD_COUNT" "\<forall>c \<in> set (fl_components f). is_i32 c"
  shows "ekk_field_apply_decay tau f 0 = f"
proof -
  have "map (\<lambda>i. ekk_fixed_mul (fl_components f ! i) EKK_FIXED_ONE) [0..<EKK_FIELD_COUNT] = fl_components f"
    using assms(2,3) by (intro nth_equalityI) (simp_all add: fixed_mul_one)
  then show ?thesis using assms(1) by (simp add: ekk_field_apply_decay_def Let_def)
qed

lemma published_components:
  "length (fl_components f) = EKK_FIELD_COUNT \<Longrightarrow> fl_components (published_field k f t s) = fl_components f"
  by (auto simp: published_field_def intro: nth_equalityI)

text \<open>
  C19. What a module publishes is what its neighbors sample: within five time constants a sample
  gives the published components attenuated by the decay of their age, unchanged at age zero,
  stamped with the publisher and the time of publication; afterwards the field is reported
  expired. The slots of the other modules are not touched.
\<close>

theorem field_publish_sample:
  assumes st: "field_ready st" "fs_decay_tau_us st = EKK_FIELD_DECAY_TAU_US"
    and k: "k \<noteq> EKK_INVALID_MODULE_ID"
    and f: "length (fl_components f) = EKK_FIELD_COUNT" "\<forall>c \<in> set (fl_components f). is_i32 c"
    and pub: "ekk_field_publish st k f t = (err, st')"
    and at: "sample_quiet st' k (t + age) = (serr, sampled)"
  shows "err = EKK_OK \<and> field_ready st'
    \<and> (if age > EKK_FIELD_MAX_AGE_US then serr = EKK_ERR_FIELD_EXPIRED \<and> sampled = None
       else serr = EKK_OK \<and> (\<exists>g. sampled = Some g \<and> fl_source g = k \<and> fl_timestamp g = t
         \<and> fl_components g = map (\<lambda>c. ekk_fixed_mul c (ekk_fixed_exp_decay age EKK_FIELD_DECAY_TAU_US)) (fl_components f)
         \<and> (age = 0 \<longrightarrow> fl_components g = fl_components f)))
    \<and> (\<forall>j now. j \<noteq> k \<longrightarrow> j \<noteq> EKK_INVALID_MODULE_ID \<longrightarrow> sample_quiet st' j now = sample_quiet st j now)"
proof -
  let ?p = "published_field k f t (slot_sequence st k + 1)"
  have st': "err = EKK_OK" "field_ready st'" "fs_decay_tau_us st' = EKK_FIELD_DECAY_TAU_US"
    and slot: "\<And>j. field_slot st' j = (if j = k then ?p else field_slot st j)"
    using publish_effect [OF st(1) k, of f t] st(2) pub by simp_all
  have p: "fl_source ?p = k" "fl_timestamp ?p = t" by (simp_all add: published_field_def)
  have own: "sample_quiet st' k (t + age) =
      (if age > EKK_FIELD_MAX_AGE_US then (EKK_ERR_FIELD_EXPIRED, None)
       else (EKK_OK, Some (ekk_field_apply_decay EKK_FIELD_DECAY_TAU_US ?p age)))"
    using k unfolding sample_quiet_conv [OF st'(2) k] by (simp add: slot p st'(3))
  have comp: "fl_components (ekk_field_apply_decay tau ?p e) = map (\<lambda>c. ekk_fixed_mul c (ekk_fixed_exp_decay e tau)) (fl_components f)"
    for tau e
    using f(1) by (auto simp: ekk_field_apply_decay_def Let_def published_components intro: nth_equalityI)
  have rest: "fl_source (ekk_field_apply_decay tau ?p e) = k" "fl_timestamp (ekk_field_apply_decay tau ?p e) = t" for tau e
    using p by (simp_all add: ekk_field_apply_decay_def Let_def)
  have now: "fl_components (ekk_field_apply_decay EKK_FIELD_DECAY_TAU_US ?p 0) = fl_components f"
    using apply_decay_now [of EKK_FIELD_DECAY_TAU_US ?p] f by (simp add: published_components)
  have others: "sample_quiet st' j now = sample_quiet st j now" if "j \<noteq> k" "j \<noteq> EKK_INVALID_MODULE_ID" for j now
    unfolding sample_quiet_conv [OF st'(2) that(2)] sample_quiet_conv [OF st(1) that(2)]
    using that(1) by (simp add: slot st'(3) st(2))
  show ?thesis using own at st' comp rest now others by (auto split: if_splits)
qed

definition field_example_state :: field_state where
  "field_example_state = snd (ekk_field_init \<lparr>fs_region = None, fs_decay_tau_us = EKK_FIELD_DECAY_TAU_US\<rparr>)"

definition field_example :: ekk_field where
  "field_example = ekk_field_clear\<lparr>fl_components := [65536, 131072, 0, 0, - 65536, 10]\<rparr>"

lemma field_example_ok:
  "field_ready field_example_state" "fs_decay_tau_us field_example_state = EKK_FIELD_DECAY_TAU_US"
  "length (fl_components field_example) = EKK_FIELD_COUNT" "\<forall>c \<in> set (fl_components field_example). is_i32 c"
  by (simp_all add: field_example_state_def init_ready) (simp_all add: ekk_field_init_def field_example_def is_i32_def)

theorem field_publish_sample_witness:
  "\<exists>g. snd (sample_quiet (snd (ekk_field_publish field_example_state 5 field_example 1000)) 5 1000) = Some g
     \<and> fl_components g = fl_components field_example"
  using field_publish_sample [OF field_example_ok(1,2) _ field_example_ok(3,4), of 5 1000
      "fst (ekk_field_publish field_example_state 5 field_example 1000)"
      "snd (ekk_field_publish field_example_state 5 field_example 1000)" 0
      "fst (sample_quiet (snd (ekk_field_publish field_example_state 5 field_example 1000)) 5 1000)"
      "snd (sample_quiet (snd (ekk_field_publish field_example_state 5 field_example 1000)) 5 1000)"]
  by auto

section \<open>Garbage collection\<close>

lemma fold_slots:
  "distinct ks \<Longrightarrow>
   fold (\<lambda>i (tbl, n). case g (tbl i) of (cf, k) \<Rightarrow> (tbl(i := cf), n + k)) ks (tbl, n :: nat) =
   ((\<lambda>j. if j \<in> set ks then fst (g (tbl j)) else tbl j), n + (\<Sum>j \<in> set ks. snd (g (tbl j))))"
proof (induction ks arbitrary: tbl n)
  case (Cons i ks)
  obtain cf k where g: "g (tbl i) = (cf, k)" by fastforce
  have "(\<Sum>j \<in> set ks. snd (g ((tbl(i := cf)) j))) = (\<Sum>j \<in> set ks. snd (g (tbl j)))"
    using Cons.prems by (intro sum.cong) auto
  then show ?case using Cons by (auto simp: g fun_eq_iff)
qed auto

lemma module_ids: "distinct (map of_nat [0..<EKK_MAX_MODULES] :: u8 list)"
  "set (map of_nat [0..<EKK_MAX_MODULES] :: u8 list) = UNIV"
proof -
  have "inj_on (of_nat :: nat \<Rightarrow> u8) {0..<256}"
    by (rule inj_onI) (simp add: word_of_nat_eq_iff take_bit_nat_eq_self)
  then show "distinct (map of_nat [0..<EKK_MAX_MODULES] :: u8 list)" by (simp add: distinct_map)
  have "(k :: u8) \<in> of_nat ` {0..<256}" for k
    using unat_u8_less [of k] by (intro image_eqI [of _ _ "unat k"]) auto
  then show "set (map of_nat [0..<EKK_MAX_MODULES] :: u8 list) = UNIV" by auto
qed

definition slot_expired :: "field_state \<Rightarrow> u64 \<Rightarrow> u64 \<Rightarrow> u8 \<Rightarrow> bool" where
  "slot_expired st max_age_us now k =
     (fl_source (field_slot st k) \<noteq> EKK_INVALID_MODULE_ID \<and> now - fl_timestamp (field_slot st k) > max_age_us)"

lemma gc_conv:
  assumes "fs_region st = Some region"
  shows "ekk_field_gc st max_age_us now =
    (\<Sum>k \<in> UNIV. snd (gc_slot now max_age_us (fr_fields region k)),
     st\<lparr>fs_region := Some (region\<lparr>fr_fields := (\<lambda>k. fst (gc_slot now max_age_us (fr_fields region k))),
       fr_last_gc := now\<rparr>)\<rparr>)"
  by (simp add: ekk_field_gc_def assms fold_slots [OF module_ids(1)] module_ids(2) del: set_map set_upt upt_conv_Cons)

lemma gc_effect:
  assumes "field_ready st" "ekk_field_gc st max_age_us now = (n, st')"
  shows "n = card {k. slot_expired st max_age_us now k}" "field_ready st'" "fs_decay_tau_us st' = fs_decay_tau_us st"
    "field_slot st' k = (if slot_expired st max_age_us now k then (field_slot st k)\<lparr>fl_source := EKK_INVALID_MODULE_ID\<rparr>
      else field_slot st k)"
    "slot_sequence st' k = slot_sequence st k"
proof -
  obtain region where r: "fs_region st = Some region" using assms(1) by auto
  note gc = gc_conv [OF r, of max_age_us now]
  have cnt: "snd (gc_slot now max_age_us (fr_fields region k)) = of_bool (slot_expired st max_age_us now k)" for k
    by (simp add: gc_slot_def slot_expired_def field_slot_def r)
  show "n = card {k. slot_expired st max_age_us now k}"
    using gc assms(2) by (simp add: cnt sum.If_cases of_bool_def Collect_conj_eq)
  have seq: "cf_sequence (fst (gc_slot now max_age_us cf)) = cf_sequence cf" for cf by (simp add: gc_slot_def)
  show "field_ready st'" using gc assms r by (auto simp: field_inv_def seq)
  show "fs_decay_tau_us st' = fs_decay_tau_us st" "slot_sequence st' k = slot_sequence st k"
    using gc assms(2) r by (auto simp: slot_sequence_def seq)
  show "field_slot st' k = (if slot_expired st max_age_us now k then (field_slot st k)\<lparr>fl_source := EKK_INVALID_MODULE_ID\<rparr>
      else field_slot st k)"
    using gc assms(2) r by (auto simp: field_slot_def slot_expired_def gc_slot_def)
qed

text \<open>
  Garbage collection removes exactly the valid fields older than the given age and returns
  their number. Called with the maximal field age it is invisible to samplers, except that
  what they saw as expired they now see as absent.
\<close>

lemma field_gc_exact:
  assumes st: "field_ready st" and gc: "ekk_field_gc st max_age_us now = (n, st')"
  shows "field_ready st' \<and> n = card {k. slot_expired st max_age_us now k}
    \<and> (\<forall>k. fl_source (field_slot st' k) =
          (if slot_expired st max_age_us now k then EKK_INVALID_MODULE_ID else fl_source (field_slot st k)))
    \<and> (\<forall>k. k \<noteq> EKK_INVALID_MODULE_ID \<longrightarrow> \<not> slot_expired st max_age_us now k \<longrightarrow>
          (\<forall>later. sample_quiet st' k later = sample_quiet st k later))
    \<and> (max_age_us = EKK_FIELD_MAX_AGE_US \<longrightarrow> (\<forall>k. k \<noteq> EKK_INVALID_MODULE_ID \<longrightarrow>
          sample_quiet st' k now =
          (if fst (sample_quiet st k now) = EKK_ERR_FIELD_EXPIRED then (EKK_ERR_NOT_FOUND, None)
           else sample_quiet st k now)))"
proof -
  note eff = gc_effect [OF st gc]
  have keep: "sample_quiet st' k later = sample_quiet st k later"
    if "k \<noteq> EKK_INVALID_MODULE_ID" "\<not> slot_expired st max_age_us now k" for k later
    unfolding sample_quiet_conv [OF eff(2) that(1)] sample_quiet_conv [OF st that(1)]
    using that(2) by (simp add: eff(3,4))
  have "sample_quiet st' k now =
      (if fst (sample_quiet st k now) = EKK_ERR_FIELD_EXPIRED then (EKK_ERR_NOT_FOUND, None)
       else sample_quiet st k now)"
    if "max_age_us = EKK_FIELD_MAX_AGE_US" "k \<noteq> EKK_INVALID_MODULE_ID" for k
    unfolding sample_quiet_conv [OF eff(2) that(2)] sample_quiet_conv [OF st that(2)]
    using that by (auto simp: eff(3,4) slot_expired_def)
  with keep show ?thesis using eff by simp
qed

section \<open>The sequence lock\<close>

text \<open>
  One slot of the shared region with its writer (the module that owns it) and a reader on
  another core. Between the memory barriers every single store of the writer and every single
  load of the reader is a step of its own, and those inside one barrier pair come in any order.
\<close>

datatype field_loc = LocComponent nat | LocTimestamp | LocSource | LocSequence

fun copy_loc :: "field_loc \<Rightarrow> ekk_field \<Rightarrow> ekk_field \<Rightarrow> ekk_field" where
  "copy_loc (LocComponent i) src dst = dst\<lparr>fl_components := (fl_components dst)[i := fl_components src ! i]\<rparr>"
| "copy_loc LocTimestamp src dst = dst\<lparr>fl_timestamp := fl_timestamp src\<rparr>"
| "copy_loc LocSource src dst = dst\<lparr>fl_source := fl_source src\<rparr>"
| "copy_loc LocSequence src dst = dst\<lparr>fl_sequence := fl_sequence src\<rparr>"

fun agree :: "field_loc \<Rightarrow> ekk_field \<Rightarrow> ekk_field \<Rightarrow> bool" where
  "agree (LocComponent i) a b = (fl_components a ! i = fl_components b ! i)"
| "agree LocTimestamp a b = (fl_timestamp a = fl_timestamp b)"
| "agree LocSource a b = (fl_source a = fl_source b)"
| "agree LocSequence a b = (fl_sequence a = fl_sequence b)"

definition field_locs :: "field_loc set" where
  "field_locs = LocComponent ` {0..<EKK_FIELD_COUNT} \<union> {LocTimestamp, LocSource, LocSequence}"

text \<open>The loads of the reader: the source check, the age check and the \<open>memcpy\<close>.\<close>

datatype field_load = LoadSource | LoadTime | LoadLoc field_loc

definition field_loads :: "field_load set" where
  "field_loads = {LoadSource, LoadTime} \<union> LoadLoc ` field_locs"

datatype seqlock_writer = WIdle | WBusy ekk_field "field_loc set"

text \<open>The reader keeps the first sequence it read, the loads still to do and what it has loaded. The
  numbers are ghosts: the version of the slot at the two readings of the sequence.\<close>

datatype seqlock_reader =
    RIdle
  | RBusy nat u32 "field_load set" u8 u64 ekk_field
  | RRetry
  | RDone nat nat u8 u64 ekk_field

text \<open>
  \<open>sl_version\<close> counts the increments of the sequence without wrapping, and \<open>sl_published n\<close> is
  the content of the slot after \<open>n\<close> publications; neither exists in the code.
\<close>

record seqlock =
  sl_cell :: ekk_coord_field
  sl_writer :: seqlock_writer
  sl_reader :: seqlock_reader
  sl_version :: nat
  sl_published :: "nat \<Rightarrow> ekk_field"

definition seqlock_init :: "ekk_field \<Rightarrow> seqlock" where
  "seqlock_init f = \<lparr>sl_cell = \<lparr>cf_field = f, cf_sequence = 0\<rparr>, sl_writer = WIdle, sl_reader = RIdle,
     sl_version = 0, sl_published = (\<lambda>_. f)\<rparr>"

inductive seqlock_step :: "u8 \<Rightarrow> seqlock \<Rightarrow> seqlock \<Rightarrow> bool" for module_id where
  write_begin:
    "sl_writer s = WIdle \<Longrightarrow> sequence = cf_sequence (sl_cell s) + 1 \<Longrightarrow>
     seqlock_step module_id s (s\<lparr>sl_cell := (sl_cell s)\<lparr>cf_sequence := sequence\<rparr>,
       sl_writer := WBusy (published_field module_id f now sequence) field_locs, sl_version := Suc (sl_version s)\<rparr>)"
| write_store:
    "sl_writer s = WBusy f pending \<Longrightarrow> l \<in> pending \<Longrightarrow>
     seqlock_step module_id s (s\<lparr>sl_cell := (sl_cell s)\<lparr>cf_field := copy_loc l f (cf_field (sl_cell s))\<rparr>,
       sl_writer := WBusy f (pending - {l})\<rparr>)"
| write_end:
    "sl_writer s = WBusy f {} \<Longrightarrow>
     seqlock_step module_id s (s\<lparr>sl_cell := (sl_cell s)\<lparr>cf_sequence := cf_sequence (sl_cell s) + 1\<rparr>,
       sl_writer := WIdle, sl_version := Suc (sl_version s),
       sl_published := (sl_published s)(Suc (sl_version s) div 2 := f)\<rparr>)"
| read_busy:
    "sl_reader s \<in> {RIdle, RRetry} \<Longrightarrow> odd (cf_sequence (sl_cell s)) \<Longrightarrow>
     seqlock_step module_id s (s\<lparr>sl_reader := RRetry\<rparr>)"
| read_begin:
    "sl_reader s \<in> {RIdle, RRetry} \<Longrightarrow> even (cf_sequence (sl_cell s)) \<Longrightarrow>
     length (fl_components buffer) = EKK_FIELD_COUNT \<Longrightarrow>
     seqlock_step module_id s (s\<lparr>sl_reader := RBusy (sl_version s) (cf_sequence (sl_cell s)) field_loads src t buffer\<rparr>)"
| read_source:
    "sl_reader s = RBusy v seq_before pending src t buffer \<Longrightarrow> LoadSource \<in> pending \<Longrightarrow>
     seqlock_step module_id s (s\<lparr>sl_reader := RBusy v seq_before (pending - {LoadSource}) (fl_source (cf_field (sl_cell s))) t buffer\<rparr>)"
| read_time:
    "sl_reader s = RBusy v seq_before pending src t buffer \<Longrightarrow> LoadTime \<in> pending \<Longrightarrow>
     seqlock_step module_id s (s\<lparr>sl_reader := RBusy v seq_before (pending - {LoadTime}) src (fl_timestamp (cf_field (sl_cell s))) buffer\<rparr>)"
| read_loc:
    "sl_reader s = RBusy v seq_before pending src t buffer \<Longrightarrow> LoadLoc l \<in> pending \<Longrightarrow>
     seqlock_step module_id s (s\<lparr>sl_reader := RBusy v seq_before (pending - {LoadLoc l}) src t
       (copy_loc l (cf_field (sl_cell s)) buffer)\<rparr>)"
| read_abandon:
    "sl_reader s = RBusy v seq_before pending src t buffer \<Longrightarrow>
     seqlock_step module_id s (s\<lparr>sl_reader := RIdle\<rparr>)"
| read_retry:
    "sl_reader s = RBusy v seq_before {} src t buffer \<Longrightarrow> cf_sequence (sl_cell s) \<noteq> seq_before \<Longrightarrow>
     seqlock_step module_id s (s\<lparr>sl_reader := RRetry\<rparr>)"
| read_end:
    "sl_reader s = RBusy v seq_before {} src t buffer \<Longrightarrow> cf_sequence (sl_cell s) = seq_before \<Longrightarrow>
     seqlock_step module_id s (s\<lparr>sl_reader := RDone v (sl_version s) src t buffer\<rparr>)"
| read_return:
    "sl_reader s = RDone v w src t buffer \<Longrightarrow>
     seqlock_step module_id s (s\<lparr>sl_reader := RIdle\<rparr>)"

abbreviation seqlock_reachable :: "u8 \<Rightarrow> ekk_field \<Rightarrow> seqlock \<Rightarrow> bool" where
  "seqlock_reachable module_id f s \<equiv> (seqlock_step module_id)\<^sup>*\<^sup>* (seqlock_init f) s"

inductive_cases seqlock_stepE: "seqlock_step module_id s s'"

text \<open>What the reader's loads must be, as long as no publication has begun since it started.\<close>

fun load_agrees :: "field_load \<Rightarrow> ekk_field \<Rightarrow> u8 \<Rightarrow> u64 \<Rightarrow> ekk_field \<Rightarrow> bool" where
  "load_agrees LoadSource f src t buffer = (src = fl_source f)"
| "load_agrees LoadTime f src t buffer = (t = fl_timestamp f)"
| "load_agrees (LoadLoc l) f src t buffer = agree l buffer f"

definition seqlock_writer_inv :: "u8 \<Rightarrow> seqlock \<Rightarrow> bool" where
  "seqlock_writer_inv module_id s =
     (cf_sequence (sl_cell s) = of_nat (sl_version s)
      \<and> length (fl_components (cf_field (sl_cell s))) = EKK_FIELD_COUNT
      \<and> (\<forall>n. length (fl_components (sl_published s n)) = EKK_FIELD_COUNT)
      \<and> (\<forall>n. 0 < n \<and> 2 * n \<le> sl_version s \<longrightarrow>
          (\<exists>f now. sl_published s n = published_field module_id f now (of_nat (2 * n - 1))))
      \<and> (case sl_writer s of
           WIdle \<Rightarrow> even (sl_version s) \<and> cf_field (sl_cell s) = sl_published s (sl_version s div 2)
         | WBusy f pending \<Rightarrow> odd (sl_version s) \<and> pending \<subseteq> field_locs
             \<and> (\<exists>g now. f = published_field module_id g now (of_nat (sl_version s)))
             \<and> (\<forall>l \<in> field_locs - pending. agree l (cf_field (sl_cell s)) f)))"

definition seqlock_reader_inv :: "seqlock \<Rightarrow> bool" where
  "seqlock_reader_inv s =
     (case sl_reader s of
        RBusy v seq_before pending src t buffer \<Rightarrow> even v \<and> v \<le> sl_version s \<and> seq_before = of_nat v \<and> length (fl_components buffer) = EKK_FIELD_COUNT
          \<and> (sl_version s = v \<longrightarrow> (\<forall>l \<in> field_loads - pending. load_agrees l (sl_published s (v div 2)) src t buffer))
      | RDone v w src t buffer \<Rightarrow> even v \<and> v \<le> w \<and> w \<le> sl_version s \<and> (of_nat w :: u32) = of_nat v
          \<and> length (fl_components buffer) = EKK_FIELD_COUNT
          \<and> (w = v \<longrightarrow> (\<forall>l \<in> field_loads. load_agrees l (sl_published s (v div 2)) src t buffer))
      | _ \<Rightarrow> True)"

lemma agree_copy [simp]:
  "agree l' (copy_loc l f x) g \<longleftrightarrow>
     (if l' = l \<and> (\<forall>i. l = LocComponent i \<longrightarrow> i < length (fl_components x)) then agree l f g else agree l' x g)"
  by (cases l; cases l') (auto simp: nth_list_update not_less list_update_beyond)

lemma length_copy_loc [simp]: "length (fl_components (copy_loc l f x)) = length (fl_components x)"
  by (cases l) auto

lemma agree_refl [simp]: "agree l f f"
  by (cases l) auto

lemma agree_all:
  assumes "length (fl_components a) = EKK_FIELD_COUNT" "length (fl_components b) = EKK_FIELD_COUNT"
    "\<forall>l \<in> field_locs. agree l a b"
  shows "a = b"
proof (rule ekk_field.equality)
  show "fl_components a = fl_components b"
    using assms by (intro nth_equalityI) (auto simp: field_locs_def)
qed (use assms(3) in \<open>auto simp: field_locs_def\<close>)

lemma length_published [simp]: "length (fl_components (published_field k f t q)) = EKK_FIELD_COUNT"
  by (simp add: published_field_def)

lemma field_locs_component: "LocComponent i \<in> field_locs \<longleftrightarrow> i < EKK_FIELD_COUNT"
  by (auto simp: field_locs_def)

lemma even_of_nat_u32 [simp]: "even (of_nat n :: u32) \<longleftrightarrow> even n"
  by transfer (simp add: even_take_bit_eq)

lemma seqlock_writer_inv_reader [simp]:
  "seqlock_writer_inv k (s\<lparr>sl_reader := r\<rparr>) = seqlock_writer_inv k s"
  by (cases "sl_writer s") (simp_all add: seqlock_writer_inv_def)

lemma seqlock_writer_inv_step:
  assumes "seqlock_step k s s'" "seqlock_writer_inv k s"
  shows "seqlock_writer_inv k s'"
  using assms
proof (cases rule: seqlock_step.cases)
  case (write_begin sequence now f)
  with assms(2) show ?thesis
    by (auto simp: seqlock_writer_inv_def add.commute elim: oddE)
next
  case (write_store f pending l)
  let ?cell = "cf_field (sl_cell s)"
  from assms(2) write_store have w: "l \<in> field_locs" "pending \<subseteq> field_locs"
    "\<forall>l \<in> field_locs - pending. agree l ?cell f" "length (fl_components ?cell) = EKK_FIELD_COUNT"
    by (auto simp: seqlock_writer_inv_def)
  have stored: "\<forall>l' \<in> field_locs - (pending - {l}). agree l' (copy_loc l f ?cell) f"
    using w by (auto simp: field_locs_component)
  have "pending - {l} \<subseteq> field_locs" using w(2) by blast
  with assms(2) stored show ?thesis
    unfolding seqlock_writer_inv_def write_store(1,2)
    by (simp del: agree_copy add: write_store(2))
next
  case (write_end f)
  from assms(2) write_end have cell: "cf_field (sl_cell s) = f"
    by (intro agree_all) (auto simp: seqlock_writer_inv_def)
  from assms(2) write_end obtain m where m: "sl_version s = Suc (2 * m)"
    by (auto simp: seqlock_writer_inv_def elim: oddE)
  from assms(2) write_end cell show ?thesis
    by (auto simp: seqlock_writer_inv_def m)
qed (use assms(2) in simp_all)

text \<open>A reader that has seen no publication begin finds the last published field in the slot.\<close>

lemma idle_when_even:
  assumes "seqlock_writer_inv k s" "even (sl_version s)"
  shows "cf_field (sl_cell s) = sl_published s (sl_version s div 2)"
  using assms by (auto simp: seqlock_writer_inv_def split: seqlock_writer.splits)

lemma load_agrees_again:
  assumes "load_agrees l f src t buffer"
  shows "load_agrees l f (fl_source f) t buffer" "load_agrees l f src (fl_timestamp f) buffer"
    "load_agrees l f src t (copy_loc m f buffer)"
  using assms by (cases l; auto)+

lemma load_agrees_copied:
  "m \<in> field_locs \<Longrightarrow> length (fl_components buffer) = EKK_FIELD_COUNT \<Longrightarrow>
   load_agrees (LoadLoc m) f src t (copy_loc m f buffer)"
  by (auto simp: field_locs_component)

lemma field_loads_loc [simp]: "LoadLoc l \<in> field_loads \<longleftrightarrow> l \<in> field_locs"
  by (auto simp: field_loads_def)

lemma seqlock_reader_inv_step:
  assumes step: "seqlock_step k s s'" and w: "seqlock_writer_inv k s" and r: "seqlock_reader_inv s"
  shows "seqlock_reader_inv s'"
  using step
proof (cases rule: seqlock_step.cases)
  case (write_begin sequence now f)
  with r show ?thesis by (auto simp: seqlock_reader_inv_def split: seqlock_reader.splits)
next
  case (write_store f pending l)
  with r show ?thesis by (auto simp: seqlock_reader_inv_def split: seqlock_reader.splits)
next
  case (write_end f)
  then obtain m where m: "sl_version s = Suc (2 * m)"
    using w by (auto simp: seqlock_writer_inv_def elim: oddE)
  with write_end r show ?thesis
    by (auto simp: seqlock_reader_inv_def split: seqlock_reader.splits)
next
  case (read_begin buffer src t)
  with w show ?thesis by (simp add: seqlock_reader_inv_def seqlock_writer_inv_def)
next
  case (read_source v seq_before pending src t buffer)
  note now = idle_when_even [OF w]
  have "m = LoadSource \<or> m \<in> field_loads - pending" if "m \<in> field_loads - (pending - {LoadSource})" for m
    using that by blast
  with read_source r show ?thesis
    by (auto simp: seqlock_reader_inv_def now dest!: bspec intro: load_agrees_again)
next
  case (read_time v seq_before pending src t buffer)
  note now = idle_when_even [OF w]
  have "m = LoadTime \<or> m \<in> field_loads - pending" if "m \<in> field_loads - (pending - {LoadTime})" for m
    using that by blast
  with read_time r show ?thesis
    by (auto simp: seqlock_reader_inv_def now dest!: bspec intro: load_agrees_again)
next
  case (read_loc v seq_before pending src t buffer l)
  note now = idle_when_even [OF w]
  have "m = LoadLoc l \<or> m \<in> field_loads - pending" if "m \<in> field_loads - (pending - {LoadLoc l})" for m
    using that by blast
  with read_loc r show ?thesis
    by (auto simp: seqlock_reader_inv_def now dest!: bspec intro: load_agrees_again load_agrees_copied)
next
  case (read_end v seq_before src t buffer)
  with r w show ?thesis by (auto simp: seqlock_reader_inv_def seqlock_writer_inv_def)
qed (auto simp: seqlock_reader_inv_def)

interpretation sl: transition_invariant "seqlock_step k" "\<lambda>s. seqlock_writer_inv k s \<and> seqlock_reader_inv s" for k
  by unfold_locales (auto intro: seqlock_writer_inv_step seqlock_reader_inv_step)

lemma seqlock_init_inv:
  "length (fl_components f) = EKK_FIELD_COUNT \<Longrightarrow>
   seqlock_writer_inv k (seqlock_init f) \<and> seqlock_reader_inv (seqlock_init f)"
  by (simp add: seqlock_init_def seqlock_writer_inv_def seqlock_reader_inv_def)

lemma load_agrees_all:
  assumes "\<forall>l \<in> field_loads. load_agrees l f src t buffer"
    "length (fl_components f) = EKK_FIELD_COUNT" "length (fl_components buffer) = EKK_FIELD_COUNT"
  shows "buffer = f" "src = fl_source f" "t = fl_timestamp f"
proof -
  have "\<forall>l \<in> field_locs. agree l buffer f"
    using assms(1) by (metis field_loads_loc load_agrees.simps(3))
  then show "buffer = f" using agree_all assms(2,3) by blast
  show "src = fl_source f" "t = fl_timestamp f" using assms(1) by (auto simp: field_loads_def)
qed

lemma of_nat_u32_eq:
  assumes "(of_nat v :: u32) = of_nat w" "v \<le> w" "w < v + 4294967296"
  shows "v = w"
proof -
  have "w mod 4294967296 = v mod 4294967296" using assms(1) by (simp add: word_of_nat_eq_iff take_bit_eq_mod)
  then have "4294967296 dvd w - v" using assms(2) by (simp add: mod_eq_dvd_iff_nat)
  moreover have "w - v < 4294967296" using assms(3) by linarith
  ultimately have "w - v = 0" using nat_dvd_not_less by (metis gr0I)
  with assms(2) show ?thesis by simp
qed

text \<open>The loads a reader still has to do can always be done.\<close>

lemma reader_loads:
  assumes "finite pending" "sl_reader s = RBusy v q pending src t buffer"
  shows "\<exists>src' t' buffer'. (seqlock_step k)\<^sup>*\<^sup>* s (s\<lparr>sl_reader := RBusy v q {} src' t' buffer'\<rparr>)"
  using assms
proof (induction pending arbitrary: s src t buffer rule: finite_psubset_induct)
  case (psubset pending)
  show ?case
  proof (cases "pending = {}")
    case True
    with psubset.prems have "s = s\<lparr>sl_reader := RBusy v q {} src t buffer\<rparr>" by simp
    then show ?thesis by (metis rtranclp.rtrancl_refl)
  next
    case False
    then obtain l where l: "l \<in> pending" by blast
    have "\<exists>src' t' buffer'. seqlock_step k s (s\<lparr>sl_reader := RBusy v q (pending - {l}) src' t' buffer'\<rparr>)"
      using psubset.prems l seqlock_step.read_source seqlock_step.read_time seqlock_step.read_loc
      by (cases l) metis+
    then obtain src' t' buffer' where
      step: "seqlock_step k s (s\<lparr>sl_reader := RBusy v q (pending - {l}) src' t' buffer'\<rparr>)" by blast
    have smaller: "pending - {l} \<subset> pending" using l by blast
    have "\<exists>src2 t2 buffer2. (seqlock_step k)\<^sup>*\<^sup>* (s\<lparr>sl_reader := RBusy v q (pending - {l}) src' t' buffer'\<rparr>)
        ((s\<lparr>sl_reader := RBusy v q (pending - {l}) src' t' buffer'\<rparr>)\<lparr>sl_reader := RBusy v q {} src2 t2 buffer2\<rparr>)"
      by (rule psubset.IH [OF smaller]) simp
    with step show ?thesis by simp (meson converse_rtranclp_into_rtranclp)
  qed
qed

lemma reader_completes:
  assumes "seqlock_writer_inv k s" "even (sl_version s)" "sl_reader s \<in> {RIdle, RRetry}"
  shows "\<exists>src t buffer. (seqlock_step k)\<^sup>*\<^sup>* s
    (s\<lparr>sl_reader := RDone (sl_version s) (sl_version s) src t buffer\<rparr>)"
proof -
  let ?q = "cf_sequence (sl_cell s)" and ?v = "sl_version s"
  have q: "even ?q" using assms(1,2) by (simp add: seqlock_writer_inv_def)
  define s1 where "s1 = s\<lparr>sl_reader := RBusy ?v ?q field_loads 0 0 (ekk_field_clear)\<rparr>"
  have "seqlock_step k s s1"
    unfolding s1_def by (rule read_begin [OF assms(3) q]) (simp add: ekk_field_clear_def)
  moreover have "finite field_loads" by (simp add: field_loads_def field_locs_def)
  then obtain src t buffer where "(seqlock_step k)\<^sup>*\<^sup>* s1 (s1\<lparr>sl_reader := RBusy ?v ?q {} src t buffer\<rparr>)"
    using reader_loads [of field_loads s1 ?v ?q 0 0 ekk_field_clear k] by (auto simp: s1_def)
  moreover have "seqlock_step k (s1\<lparr>sl_reader := RBusy ?v ?q {} src t buffer\<rparr>)
      (s\<lparr>sl_reader := RDone ?v ?v src t buffer\<rparr>)"
    using read_end [of "s1\<lparr>sl_reader := RBusy ?v ?q {} src t buffer\<rparr>" ?v ?q src t buffer k] by (simp add: s1_def)
  ultimately show ?thesis by (meson converse_rtranclp_into_rtranclp rtranclp.rtrancl_into_rtrancl)
qed

text \<open>So can the stores of a writer, and undisturbed they leave what \<open>ekk_field_publish\<close> leaves.\<close>

lemma writer_stores:
  assumes "finite pending" "sl_writer s = WBusy f pending"
  shows "\<exists>g. (seqlock_step k)\<^sup>*\<^sup>* s
    (s\<lparr>sl_cell := (sl_cell s)\<lparr>cf_field := g\<rparr>, sl_writer := WBusy f {}\<rparr>)"
  using assms
proof (induction pending arbitrary: s rule: finite_psubset_induct)
  case (psubset pending)
  show ?case
  proof (cases "pending = {}")
    case True
    with psubset.prems have "s = s\<lparr>sl_cell := (sl_cell s)\<lparr>cf_field := cf_field (sl_cell s)\<rparr>, sl_writer := WBusy f {}\<rparr>"
      by simp
    then show ?thesis by (metis rtranclp.rtrancl_refl)
  next
    case False
    then obtain l where l: "l \<in> pending" by blast
    then have smaller: "pending - {l} \<subset> pending" by blast
    let ?s = "s\<lparr>sl_cell := (sl_cell s)\<lparr>cf_field := copy_loc l f (cf_field (sl_cell s))\<rparr>, sl_writer := WBusy f (pending - {l})\<rparr>"
    have "seqlock_step k s ?s" by (rule write_store [OF psubset.prems l])
    moreover have "\<exists>g. (seqlock_step k)\<^sup>*\<^sup>* ?s (?s\<lparr>sl_cell := (sl_cell ?s)\<lparr>cf_field := g\<rparr>, sl_writer := WBusy f {}\<rparr>)"
      by (rule psubset.IH [OF smaller]) simp
    ultimately show ?thesis by simp (meson converse_rtranclp_into_rtranclp)
  qed
qed

lemma writer_completes:
  assumes inv: "seqlock_writer_inv k s" "seqlock_reader_inv s" and idle: "sl_writer s = WIdle"
  shows "\<exists>s'. (seqlock_step k)\<^sup>*\<^sup>* s s' \<and> sl_writer s' = WIdle \<and> sl_version s' = sl_version s + 2
    \<and> sl_reader s' = sl_reader s
    \<and> sl_cell s' = \<lparr>cf_field = published_field k f now (cf_sequence (sl_cell s) + 1), cf_sequence = cf_sequence (sl_cell s) + 2\<rparr>"
proof -
  let ?q = "cf_sequence (sl_cell s) + 1" and ?p = "published_field k f now (cf_sequence (sl_cell s) + 1)"
  define s1 where "s1 = s\<lparr>sl_cell := (sl_cell s)\<lparr>cf_sequence := ?q\<rparr>, sl_writer := WBusy ?p field_locs,
      sl_version := Suc (sl_version s)\<rparr>"
  have step1: "seqlock_step k s s1" unfolding s1_def by (rule write_begin [OF idle refl])
  have "finite field_locs" by (simp add: field_locs_def)
  then obtain g where stores: "(seqlock_step k)\<^sup>*\<^sup>* s1 (s1\<lparr>sl_cell := (sl_cell s1)\<lparr>cf_field := g\<rparr>, sl_writer := WBusy ?p {}\<rparr>)"
    using writer_stores [of field_locs s1 ?p] by (auto simp: s1_def)
  define s2 where "s2 = s1\<lparr>sl_cell := (sl_cell s1)\<lparr>cf_field := g\<rparr>, sl_writer := WBusy ?p {}\<rparr>"
  from step1 stores have run: "(seqlock_step k)\<^sup>*\<^sup>* s s2" unfolding s2_def by simp
  with inv have "seqlock_writer_inv k s2" using sl.inv_reachable by blast
  then have "g = ?p" by (intro agree_all) (auto simp: seqlock_writer_inv_def s2_def)
  moreover define s3 where "s3 = s2\<lparr>sl_cell := (sl_cell s2)\<lparr>cf_sequence := cf_sequence (sl_cell s2) + 1\<rparr>,
       sl_writer := WIdle, sl_version := Suc (sl_version s2),
       sl_published := (sl_published s2)(Suc (sl_version s2) div 2 := ?p)\<rparr>"
  moreover have "seqlock_step k s2 s3"
    unfolding s3_def by (rule write_end) (simp add: s2_def)
  with run have "(seqlock_step k)\<^sup>*\<^sup>* s s3" by simp
  ultimately show ?thesis
    by (intro exI [of _ s3]) (simp add: s2_def s1_def)
qed

lemma publish_slot:
  assumes "fs_region st = Some region" "k \<noteq> EKK_INVALID_MODULE_ID"
    and "fr_fields region k = \<lparr>cf_field = g, cf_sequence = q\<rparr>"
    and "fs_region (snd (ekk_field_publish st k f now)) = Some region'"
  shows "fr_fields region' k = \<lparr>cf_field = published_field k f now (q + 1), cf_sequence = q + 2\<rparr>"
  using assms by (auto simp: ekk_field_publish_def Let_def)

text \<open>
  C4. Readers never see a torn field. However the stores of a publishing module and the loads of
  a sampling one interleave, when the second reading of the sequence equals the first (and fewer
  than 2^32 increments happened in between) the copied field, and the source and the time used for
  the checks, are those of one publication, complete, and current during the whole read.
\<close>

theorem seqlock_no_torn_read:
  assumes "length (fl_components f0) = EKK_FIELD_COUNT" "seqlock_reachable k f0 s"
    and "sl_reader s = RDone v w src t buffer" "w < v + 4294967296"
  shows "w = v \<and> even v \<and> v \<le> sl_version s \<and> buffer = sl_published s (v div 2)
    \<and> src = fl_source buffer \<and> t = fl_timestamp buffer
    \<and> (0 < v \<longrightarrow> (\<exists>f now. buffer = published_field k f now (of_nat (v - 1))))"
proof -
  have inv: "seqlock_writer_inv k s" "seqlock_reader_inv s"
    using sl.inv_reachable [OF assms(2)] seqlock_init_inv [OF assms(1)] by blast+
  from inv(2) assms(3) have v: "even v" "v \<le> w" "w \<le> sl_version s" "(of_nat w :: u32) = of_nat v"
    and b: "length (fl_components buffer) = EKK_FIELD_COUNT"
    and l: "w = v \<longrightarrow> (\<forall>l \<in> field_loads. load_agrees l (sl_published s (v div 2)) src t buffer)"
    by (simp_all add: seqlock_reader_inv_def)
  from of_nat_u32_eq [OF v(4) [symmetric] v(2) assms(4)] have eq: "w = v" by simp
  have len: "length (fl_components (sl_published s (v div 2))) = EKK_FIELD_COUNT"
    using inv(1) by (simp add: seqlock_writer_inv_def)
  have copied: "buffer = sl_published s (v div 2)" "src = fl_source buffer" "t = fl_timestamp buffer"
    using load_agrees_all [of "sl_published s (v div 2)" src t buffer] l eq len b by simp_all
  have "\<exists>f now. buffer = published_field k f now (of_nat (v - 1))" if "0 < v"
  proof -
    from v(1) that obtain n where n: "v = 2 * n" "0 < n" by auto
    with inv(1) v(3) eq copied(1) show ?thesis by (simp add: seqlock_writer_inv_def)
  qed
  with v eq copied show ?thesis by simp
qed

theorem seqlock_no_torn_read_witness:
  "\<exists>s src t buffer. seqlock_reachable 5 field_example s \<and> sl_reader s = RDone 2 2 src t buffer
     \<and> buffer = sl_published s 1 \<and> src = fl_source buffer"
proof -
  let ?i = "seqlock_init field_example"
  have inv: "seqlock_writer_inv 5 ?i" "seqlock_reader_inv ?i"
    using seqlock_init_inv [OF field_example_ok(3), of 5] by simp_all
  have init: "sl_writer ?i = WIdle" "sl_version ?i = 0" "sl_reader ?i = RIdle"
    by (simp_all add: seqlock_init_def)
  from writer_completes [OF inv init(1), of field_example 1000] obtain s1 where
    s1: "seqlock_reachable 5 field_example s1" "sl_version s1 = 2" "sl_reader s1 = RIdle"
    by (auto simp: init)
  have "seqlock_writer_inv 5 s1" using sl.inv_reachable [OF s1(1)] inv by blast
  with reader_completes [of 5 s1] s1 obtain src t buffer where
    "(seqlock_step 5)\<^sup>*\<^sup>* s1 (s1\<lparr>sl_reader := RDone 2 2 src t buffer\<rparr>)" by auto
  with s1(1) have run: "seqlock_reachable 5 field_example (s1\<lparr>sl_reader := RDone 2 2 src t buffer\<rparr>)" by simp
  from seqlock_no_torn_read [OF field_example_ok(3) run, of 2 2 src t buffer]
  have "buffer = sl_published s1 1 \<and> src = fl_source buffer" by simp
  with run show ?thesis by (intro exI conjI) auto
qed

section \<open>Aggregation over neighbors\<close>

text \<open>The fields that count, with their weights: those of the sampled neighbors that are not dead.\<close>

definition contributions :: "field_state \<Rightarrow> u64 \<Rightarrow> ekk_neighbor list \<Rightarrow> (ekk_field \<times> int) list" where
  "contributions st now neighbors =
     List.map_filter (\<lambda>neighbor.
       if nb_health neighbor = EKK_HEALTH_DEAD \<or> nb_health neighbor = EKK_HEALTH_UNKNOWN then None
       else map_option (\<lambda>nfield. (nfield, neighbor_weight neighbor)) (snd (sample_quiet st (nb_id neighbor) now))) neighbors"

abbreviation near :: "ekk_neighbor \<Rightarrow> bool" where
  "near neighbor \<equiv> nb_logical_distance neighbor \<le> 8388351"

lemma sample_ok_iff: "fst (ekk_field_sample st k now sq) = EKK_OK \<longleftrightarrow> snd (ekk_field_sample st k now sq) \<noteq> None"
  by (simp add: ekk_field_sample_def Let_def split: option.splits)

lemma neighbor_weight_range:
  assumes "near neighbor"
  shows "0 < neighbor_weight neighbor \<and> neighbor_weight neighbor \<le> EKK_FIXED_ONE
    \<and> (neighbor_weight neighbor = EKK_FIXED_ONE \<longleftrightarrow>
        nb_health neighbor \<noteq> EKK_HEALTH_SUSPECT \<and> nb_logical_distance neighbor \<le> 0)"
proof (cases "0 < nb_logical_distance neighbor")
  case True
  define d where "d = EKK_FIXED_ONE + nb_logical_distance neighbor * 256"
  define q where "q = 4294967296 div d"
  have d: "65536 < d" "d \<le> 2147483647" using True assms by (simp_all add: d_def)
  have "4294967296 div d \<le> 4294967296 div 65537" using d by (intro zdiv_mono2) auto
  moreover have "4294967296 div 2147483647 \<le> 4294967296 div d" using d by (intro zdiv_mono2) auto
  ultimately have q: "2 \<le> q" "q < 65536" by (simp_all add: q_def)
  have i: "to_i32 (nb_logical_distance neighbor * 256) = nb_logical_distance neighbor * 256" "to_i32 d = d"
    using d True by (simp_all add: to_i32_id d_def)
  have "ekk_fixed_div EKK_FIXED_ONE d = q"
    using d q by (simp add: ekk_fixed_div_def sdiv_nonneg q_def[symmetric] to_i32_id)
  then have "neighbor_weight neighbor =
      ekk_fixed_mul (if nb_health neighbor = EKK_HEALTH_SUSPECT then EKK_FIXED_HALF else EKK_FIXED_ONE) q"
    using True i by (simp add: neighbor_weight_def d_def)
  moreover have "ekk_fixed_mul EKK_FIXED_HALF q = q div 2" "ekk_fixed_mul EKK_FIXED_ONE q = q"
    using q by (simp_all add: ekk_fixed_mul_def to_i32_id)
  ultimately show ?thesis using q True by auto
next
  case False
  then show ?thesis by (auto simp: neighbor_weight_def Let_def)
qed

text \<open>The accumulators after the loop; with at most 256 neighbors none of them wraps.\<close>

definition weighted_sum :: "(ekk_field \<times> int) list \<Rightarrow> nat \<Rightarrow> int" where
  "weighted_sum live c = (\<Sum>(g, w) \<leftarrow> live. ekk_fixed_mul (fl_components g ! c) w)"

definition newest :: "(ekk_field \<times> int) list \<Rightarrow> u64" where
  "newest live = fold (\<lambda>(g, w) m. max m (fl_timestamp g)) live 0"

lemma weighted_sum_bound: "\<bar>weighted_sum live c\<bar> \<le> int (length live) * 2147483648"
proof (induction live)
  case (Cons p live)
  obtain g w where p: "p = (g, w)" by fastforce
  have "is_i32 (ekk_fixed_mul (fl_components g ! c) w)" by simp
  then have "\<bar>ekk_fixed_mul (fl_components g ! c) w\<bar> \<le> 2147483648" by (auto simp: is_i32_def)
  with Cons show ?case
    by (simp add: weighted_sum_def p)
qed (simp add: weighted_sum_def)

lemma contributions_snoc:
  "contributions st now (ns @ [n]) = contributions st now ns @ contributions st now [n]"
  by (simp add: contributions_def List.map_filter_def)

lemma length_contributions: "length (contributions st now ns) \<le> length ns"
  by (simp add: contributions_def List.map_filter_def)

lemma accumulate_conv:
  "accumulate_neighbor st now n (sums, tw, newest_ts) =
     (case contributions st now [n] of
        [] \<Rightarrow> (sums, tw, newest_ts)
      | (g, w) # _ \<Rightarrow> (map (\<lambda>c. to_i64 (sums ! c + ekk_fixed_mul (fl_components g ! c) w)) [0..<EKK_FIELD_COUNT],
          to_i32 (tw + w), max newest_ts (fl_timestamp g)))"
proof (cases "sample_quiet st (nb_id n) now")
  case (Pair err g)
  have ok: "err = EKK_OK \<longleftrightarrow> g \<noteq> None" using sample_ok_iff [of st "nb_id n" now] Pair by (metis fst_conv snd_conv)
  show ?thesis
  proof (cases g)
    case None
    with ok have "err \<noteq> EKK_OK" by simp
    with None Pair show ?thesis
      by (cases err) (simp_all add: accumulate_neighbor_def contributions_def List.map_filter_def)
  next
    case (Some h)
    with ok Pair show ?thesis
      by (simp add: accumulate_neighbor_def contributions_def List.map_filter_def Let_def max_def not_less order_less_imp_le)
  qed
qed

lemma contributions_weight:
  assumes "\<forall>n \<in> set ns. near n" "(g, w) \<in> set (contributions st now ns)"
  shows "0 < w \<and> w \<le> EKK_FIXED_ONE"
  using assms neighbor_weight_range
  by (auto simp: contributions_def List.map_filter_def split: if_splits)

lemma total_weight_bound:
  assumes "\<forall>n \<in> set ns. near n"
  shows "0 \<le> sum_list (map snd (contributions st now ns))
    \<and> sum_list (map snd (contributions st now ns)) \<le> int (length (contributions st now ns)) * EKK_FIXED_ONE"
proof -
  have "\<forall>w \<in> set (map snd (contributions st now ns)). 0 \<le> w \<and> w \<le> EKK_FIXED_ONE"
    using contributions_weight [OF assms] by fastforce
  moreover have "(\<forall>w \<in> set ws. 0 \<le> w \<and> w \<le> EKK_FIXED_ONE) \<Longrightarrow>
      0 \<le> sum_list ws \<and> sum_list ws \<le> int (length ws) * EKK_FIXED_ONE" for ws :: "int list"
    by (induction ws) auto
  ultimately show ?thesis by (metis length_map)
qed

lemma accumulate_fold:
  assumes "length ns \<le> 256" "\<forall>n \<in> set ns. near n"
  shows "fold (accumulate_neighbor st now) ns (replicate EKK_FIELD_COUNT 0, 0, 0) =
    (map (weighted_sum (contributions st now ns)) [0..<EKK_FIELD_COUNT],
     sum_list (map snd (contributions st now ns)), newest (contributions st now ns))"
  using assms
proof (induction ns rule: rev_induct)
  case Nil
  then show ?case
    by (simp add: contributions_def List.map_filter_def weighted_sum_def newest_def map_replicate_const)
next
  case (snoc n ns)
  let ?live = "contributions st now ns"
  from snoc have IH: "fold (accumulate_neighbor st now) ns (replicate EKK_FIELD_COUNT 0, 0, 0) =
    (map (weighted_sum ?live) [0..<EKK_FIELD_COUNT], sum_list (map snd ?live), newest ?live)" by simp
  show ?case
  proof (cases "contributions st now [n]")
    case Nil
    then show ?thesis by (simp add: IH accumulate_conv contributions_snoc)
  next
    case (Cons p ps)
    with length_contributions [of st now "[n]"] have one: "contributions st now [n] = [p]" by simp
    obtain g w where p: "p = (g, w)" by fastforce
    have len: "length ?live \<le> 255" using length_contributions [of st now ns] snoc.prems(1) by simp
    have w: "0 < w" "w \<le> EKK_FIXED_ONE" using contributions_weight [of "[n]" g w st now] snoc.prems(2) one p by auto
    have "to_i32 (sum_list (map snd ?live) + w) = sum_list (map snd ?live) + w"
      using total_weight_bound [of ns st now] snoc.prems(2) w len by (intro to_i32_id) auto
    moreover have "to_i64 (weighted_sum ?live c + ekk_fixed_mul (fl_components g ! c) w) =
        weighted_sum ?live c + ekk_fixed_mul (fl_components g ! c) w" for c
    proof -
      have "is_i32 (ekk_fixed_mul (fl_components g ! c) w)" by simp
      moreover have "\<bar>weighted_sum ?live c\<bar> \<le> 255 * 2147483648" using weighted_sum_bound [of ?live c] len by linarith
      ultimately show ?thesis by (intro to_i64_id) (auto simp: is_i32_def)
    qed
    moreover have "weighted_sum (?live @ [p]) c = weighted_sum ?live c + ekk_fixed_mul (fl_components g ! c) w" for c
      by (simp add: weighted_sum_def p)
    ultimately show ?thesis
      by (simp add: IH accumulate_conv contributions_snoc one p newest_def del: upt_conv_Cons upt_rec_numeral cong: map_cong)
  qed
qed

text \<open>
  C40. The aggregate over the neighbors: the loop adds up the decayed fields of the reachable
  neighbors with their weights without overflow, but the sum is divided by the total weight
  rounded down to an integer. With neighbors of weight one the result is their exact mean; as
  soon as the total weight lies strictly between 0 and 1, as for a single neighbor that is
  suspect or at a positive distance, the code divides by zero.
\<close>

theorem aggregate_divisor:
  assumes "ns \<noteq> []" "length ns \<le> 256" "\<forall>n \<in> set ns. near n"
  shows "let live = contributions st now ns; weight = sum_list (map snd live)
    in (ekk_field_sample_neighbors st ns now = None \<longleftrightarrow> 0 < weight \<and> weight < EKK_FIXED_ONE)
     \<and> (EKK_FIXED_ONE \<le> weight \<longrightarrow> (\<exists>a. ekk_field_sample_neighbors st ns now = Some (EKK_OK, a)
          \<and> fl_timestamp a = newest live \<and> fl_source a = EKK_INVALID_MODULE_ID
          \<and> fl_components a = map (\<lambda>c. to_i32 (weighted_sum live c sdiv (weight div EKK_FIXED_ONE))) [0..<EKK_FIELD_COUNT]))
     \<and> (live = [] \<longrightarrow> ekk_field_sample_neighbors st ns now = Some (EKK_OK, ekk_field_clear))
     \<and> ((\<forall>n \<in> set ns. nb_health n \<noteq> EKK_HEALTH_SUSPECT \<and> nb_logical_distance n \<le> 0) \<longrightarrow>
          weight div EKK_FIXED_ONE = int (length live))
     \<and> (\<forall>n g. ns = [n] \<longrightarrow> nb_health n \<notin> {EKK_HEALTH_DEAD, EKK_HEALTH_UNKNOWN} \<longrightarrow>
          sample_quiet st (nb_id n) now = (EKK_OK, Some g) \<longrightarrow>
          nb_health n = EKK_HEALTH_SUSPECT \<or> 0 < nb_logical_distance n \<longrightarrow>
          ekk_field_sample_neighbors st ns now = None)"
proof -
  define live where "live = contributions st now ns"
  define weight where "weight = sum_list (map snd live)"
  note acc = accumulate_fold [OF assms(2,3), of st now, folded live_def, folded weight_def]
  have w0: "0 \<le> weight" using total_weight_bound [OF assms(3), of st now] by (simp add: weight_def live_def)
  have "weight div 65536 = 0 \<longleftrightarrow> weight < 65536" using w0 by (auto simp: zdiv_eq_0_iff)
  then have result: "ekk_field_sample_neighbors st ns now =
      (if weight = 0 then Some (EKK_OK, ekk_field_clear\<lparr>fl_timestamp := newest live\<rparr>)
       else if weight < 65536 then None
       else Some (EKK_OK, ekk_field_clear\<lparr>fl_timestamp := newest live, fl_components :=
         map (\<lambda>c. to_i32 (weighted_sum live c sdiv (weight div 65536))) [0..<EKK_FIELD_COUNT]\<rparr>))"
    using assms(1) w0 by (simp add: ekk_field_sample_neighbors_def acc Let_def cong: map_cong)
  have empty: "weight = 0" "newest live = 0" if "live = []" using that by (simp_all add: weight_def newest_def)
  have whole: "weight = int (length live) * 65536"
    if "\<forall>n \<in> set ns. nb_health n \<noteq> EKK_HEALTH_SUSPECT \<and> nb_logical_distance n \<le> 0"
  proof -
    have "\<forall>p \<in> set live. snd p = 65536"
      using that assms(3) neighbor_weight_range
      by (auto simp: live_def contributions_def List.map_filter_def split: if_splits)
    then have "map snd live = replicate (length live) 65536" by (intro replicate_eqI) auto
    then show ?thesis by (simp add: weight_def sum_list_replicate)
  qed
  have lone: "0 < weight \<and> weight < 65536"
    if n: "ns = [n]" "nb_health n \<notin> {EKK_HEALTH_DEAD, EKK_HEALTH_UNKNOWN}"
      "sample_quiet st (nb_id n) now = (EKK_OK, Some g)"
      "nb_health n = EKK_HEALTH_SUSPECT \<or> 0 < nb_logical_distance n" for n g
  proof -
    from n have "live = [(g, neighbor_weight n)]"
      by (auto simp: live_def contributions_def List.map_filter_def)
    then show ?thesis using neighbor_weight_range [of n] n(1,4) assms(3) by (auto simp: weight_def)
  qed
  show ?thesis
    unfolding Let_def live_def [symmetric] weight_def [symmetric] result
    using w0 empty whole lone
    by (auto simp: ekk_field_clear_def)
qed

definition example_neighbor :: ekk_neighbor where
  "example_neighbor = \<lparr>nb_id = 5, nb_health = EKK_HEALTH_ALIVE, nb_last_seen = 0, nb_last_field = ekk_field_clear,
     nb_logical_distance = 10, nb_missed_heartbeats = 0, nb_capabilities = 0\<rparr>"

theorem aggregate_divisor_witness:
  "ekk_field_sample_neighbors (snd (ekk_field_publish field_example_state 5 field_example 1000)) [example_neighbor] 1000 = None"
proof -
  let ?st = "snd (ekk_field_publish field_example_state 5 field_example 1000)"
  have "\<exists>g. sample_quiet ?st 5 1000 = (EKK_OK, Some g)"
    using publish_effect [OF field_example_ok(1), of 5 field_example 1000]
    by (subst sample_quiet_conv) (auto simp: published_field_def)
  then show ?thesis
    using aggregate_divisor [of "[example_neighbor]" ?st 1000] by (auto simp: example_neighbor_def Let_def)
qed

end
