(* ===== verification/Ekk_Module.thy ===== *)
theory Ekk_Module
  imports Ekk_Heartbeat Ekk_Topology Ekk_Consensus Ekk_Field
begin

text \<open>
  The module (\<open>src/ekk_module.c\<close>, \<open>include/ekk/ekk_module.h\<close>): its state machine, its tasks and
  their selection, and the tick that runs heartbeat, topology, fields, consensus and one task.
  The static heartbeat engine and the field region of \<open>ekk_field.c\<close> are kept with the module in
  one record; \<open>g_current_module\<close> is that module. Message reception, the clock and the results of
  broadcasts are inputs; callbacks of the application, messages sent and the task run are outputs,
  and a callback field records whether a callback is registered. What a task function does to the
  module is an argument. \<open>name\<close>, \<open>arg\<close> and \<open>user_data\<close> are never looked at and left out.
\<close>

section \<open>Model\<close>

datatype ekk_task_state = EKK_TASK_IDLE | EKK_TASK_READY | EKK_TASK_RUNNING | EKK_TASK_BLOCKED

record ekk_internal_task =
  tk_id :: u8
  tk_function :: bool
  tk_state :: ekk_task_state
  tk_priority :: u8
  tk_period :: u64
  tk_next_run :: u64
  tk_run_count :: u32
  tk_total_runtime :: u64
  tk_has_deadline :: bool
  tk_deadline :: ekk_deadline
  tk_required_caps :: ekk_capability

record ekk_module =
  md_id :: u8
  md_state :: ekk_module_state
  md_my_field :: ekk_field
  md_neighbor_aggregate :: ekk_field
  md_gradients :: "int list"
  md_topology :: ekk_topology
  md_consensus :: ekk_consensus
  md_tasks :: "ekk_internal_task list"
  md_task_count :: nat
  md_active_task :: u8
  md_last_tick :: u64
  md_tick_period :: u64
  md_ticks_total :: u32
  md_field_updates :: u32
  md_topology_changes :: u32
  md_consensus_rounds :: u32
  md_capabilities :: ekk_capability
  md_on_field_change :: bool
  md_on_neighbor_lost :: bool
  md_on_neighbor_found :: bool
  md_on_vote_request :: bool
  md_on_consensus_complete :: bool
  md_on_state_change :: bool

record module_sys =
  sy_mod :: ekk_module
  sy_heartbeat :: ekk_heartbeat
  sy_field :: field_state

text \<open>The messages of \<open>ekk_hal_recv\<close>, with the members the code reads from the buffer.\<close>

datatype rx_msg =
    RxHeartbeat u8 u8
  | RxDiscovery u8 ekk_position
  | RxProposal u8 u16 ekk_proposal_type u32 int
  | RxVote u8 u16 ekk_vote_value
  | RxField
  | RxUnknown

datatype module_output =
    MoNeighborFound u8
  | MoNeighborLost u8
  | MoVoteRequest u16
  | MoConsensusComplete u16
  | MoStateChange ekk_module_state
  | MoFieldChange
  | MoTopology topology_output
  | MoConsensus consensus_output
  | MoDiscovery ekk_discovery_msg
  | MoHeartbeat ekk_heartbeat_msg
  | MoRunTask u8

text \<open>The functions an application may override, and its task functions by task id.\<close>

record module_app =
  ap_distance :: "u8 \<Rightarrow> u8 \<Rightarrow> int"
  ap_decide_vote :: "ekk_ballot \<Rightarrow> ekk_vote_value"
  ap_run :: "u8 \<Rightarrow> ekk_module \<Rightarrow> ekk_module"

text \<open>What one tick reads from the HAL: messages, the result of the heartbeat broadcast, the clock.\<close>

record tick_input =
  ti_rx :: "rx_msg list"
  ti_sent :: ekk_error
  ti_rx_time :: u64
  ti_field_time :: u64
  ti_select_time :: u64
  ti_task_start :: u64
  ti_task_end :: u64

definition ekk_module_decide_vote :: "ekk_ballot \<Rightarrow> ekk_vote_value" where
  "ekk_module_decide_vote ballot = EKK_VOTE_YES"

section \<open>State machine\<close>

definition next_module_state :: "ekk_module_state \<Rightarrow> nat \<Rightarrow> nat \<Rightarrow> ekk_module_state" where
  "next_module_state old_state neighbor_count min_neighbors =
     (case old_state of
        EKK_MODULE_INIT \<Rightarrow> old_state
      | EKK_MODULE_DISCOVERING \<Rightarrow> if neighbor_count \<ge> min_neighbors then EKK_MODULE_ACTIVE else old_state
      | EKK_MODULE_ACTIVE \<Rightarrow>
          if neighbor_count = 0 then EKK_MODULE_ISOLATED
          else if neighbor_count < min_neighbors then EKK_MODULE_DEGRADED else old_state
      | EKK_MODULE_DEGRADED \<Rightarrow>
          if neighbor_count = 0 then EKK_MODULE_ISOLATED
          else if neighbor_count \<ge> min_neighbors then EKK_MODULE_ACTIVE else old_state
      | EKK_MODULE_ISOLATED \<Rightarrow>
          if neighbor_count \<ge> min_neighbors then EKK_MODULE_ACTIVE
          else if neighbor_count > 0 then EKK_MODULE_DEGRADED else old_state
      | EKK_MODULE_REFORMING \<Rightarrow>
          if neighbor_count \<ge> min_neighbors then EKK_MODULE_ACTIVE
          else if neighbor_count > 0 then EKK_MODULE_DEGRADED else EKK_MODULE_ISOLATED
      | EKK_MODULE_SHUTDOWN \<Rightarrow> old_state)"

definition update_module_state :: "ekk_module \<Rightarrow> ekk_module \<times> module_output list" where
  "update_module_state md =
     (let old_state = md_state md;
          new_state = next_module_state old_state (tp_neighbor_count (md_topology md))
            (unat (tc_min_neighbors (tp_config (md_topology md))))
      in if new_state \<noteq> old_state
         then (md\<lparr>md_state := new_state\<rparr>, if md_on_state_change md then [MoStateChange old_state] else [])
         else (md, []))"

definition ekk_module_start :: "ekk_module \<Rightarrow> u64 \<Rightarrow> ekk_error \<times> ekk_module" where
  "ekk_module_start md hal_now =
     (if md_state md \<noteq> EKK_MODULE_INIT then (EKK_ERR_BUSY, md)
      else (EKK_OK, md\<lparr>md_state := EKK_MODULE_DISCOVERING, md_last_tick := hal_now\<rparr>))"

definition ekk_module_stop :: "ekk_module \<Rightarrow> ekk_error \<times> ekk_module" where
  "ekk_module_stop md = (EKK_OK, md\<lparr>md_state := EKK_MODULE_SHUTDOWN\<rparr>)"

section \<open>Callbacks of the components\<close>

definition position_unknown :: ekk_position where
  "position_unknown = \<lparr>ps_x = 0, ps_y = 0, ps_z = 0\<rparr>"

definition on_neighbor_alive_cb :: "module_app \<Rightarrow> u64 \<Rightarrow> ekk_module \<Rightarrow> u8 \<Rightarrow> ekk_module \<times> module_output list" where
  "on_neighbor_alive_cb app hal_now md k =
     (let (_, topo, outs) = ekk_topology_on_discovery (ap_distance app) (md_topology md) k position_unknown hal_now
      in (md\<lparr>md_topology := topo\<rparr>,
          map MoTopology outs @ (if md_on_neighbor_found md then [MoNeighborFound k] else [])))"

definition on_neighbor_dead_cb :: "module_app \<Rightarrow> u64 \<Rightarrow> ekk_module \<Rightarrow> u8 \<Rightarrow> ekk_module \<times> module_output list" where
  "on_neighbor_dead_cb app hal_now md k =
     (let (_, topo, outs) = ekk_topology_on_neighbor_lost (ap_distance app) (md_topology md) k hal_now
      in (md\<lparr>md_topology := topo\<rparr>,
          map MoTopology outs @ (if md_on_neighbor_lost md then [MoNeighborLost k] else [])))"

fun heartbeat_callback :: "module_app \<Rightarrow> u64 \<Rightarrow> hb_callback \<Rightarrow> ekk_module \<Rightarrow> ekk_module \<times> module_output list" where
  "heartbeat_callback app hal_now (NeighborAlive k) md = on_neighbor_alive_cb app hal_now md k"
| "heartbeat_callback app hal_now (NeighborSuspect k) md = (md, [])"
| "heartbeat_callback app hal_now (NeighborDead k) md = on_neighbor_dead_cb app hal_now md k"

text \<open>
  The heartbeat engine calls back in the middle of its operations; the callbacks touch only the
  topology, which the engine does not read, so they are run after the operation, in order.
\<close>

definition heartbeat_callbacks ::
  "module_app \<Rightarrow> u64 \<Rightarrow> hb_callback list \<Rightarrow> ekk_module \<Rightarrow> ekk_module \<times> module_output list"
where
  "heartbeat_callbacks app hal_now calls md =
     fold (\<lambda>c (md, outs). case heartbeat_callback app hal_now c md of (md, new) \<Rightarrow> (md, outs @ new)) calls (md, [])"

fun consensus_message :: "ekk_module \<Rightarrow> consensus_output \<Rightarrow> module_output list" where
  "consensus_message md (CsComplete k r) = (if md_on_consensus_complete md then [MoConsensusComplete k] else [])"
| "consensus_message md msg = [MoConsensus msg]"

text \<open>The decision callback: the application is told of the request, then asked to decide.\<close>

definition module_on_proposal ::
  "module_app \<Rightarrow> ekk_module \<Rightarrow> u8 \<Rightarrow> u16 \<Rightarrow> ekk_proposal_type \<Rightarrow> u32 \<Rightarrow> int \<Rightarrow> u64 \<Rightarrow> ekk_module \<times> module_output list"
where
  "module_on_proposal app md proposer_id ballot_id type data threshold hal_now =
     (let (_, cons, outs) = ekk_consensus_on_proposal (md_consensus md) proposer_id ballot_id type data threshold
            hal_now (Some (ap_decide_vote app));
          asked = cs_active_ballot_count cons > cs_active_ballot_count (md_consensus md)
      in (md\<lparr>md_consensus := cons\<rparr>,
          (if asked \<and> md_on_vote_request md then [MoVoteRequest ballot_id] else []) @ map MoConsensus outs))"

section \<open>Messages\<close>

definition process_rx_message ::
  "module_app \<Rightarrow> u64 \<Rightarrow> u64 \<Rightarrow> rx_msg \<Rightarrow> module_sys \<Rightarrow> module_sys \<times> module_output list"
where
  "process_rx_message app now hal_now msg sys =
     (case msg of
        RxHeartbeat sender_id sequence \<Rightarrow>
          (let (_, hb, calls) = ekk_heartbeat_received (sy_heartbeat sys) sender_id sequence now;
               (md, outs) = heartbeat_callbacks app hal_now calls (sy_mod sys)
           in (sys\<lparr>sy_heartbeat := hb, sy_mod := md\<rparr>, outs))
      | RxDiscovery sender_id pos \<Rightarrow>
          (let (_, topo, outs) = ekk_topology_on_discovery (ap_distance app) (md_topology (sy_mod sys)) sender_id pos hal_now;
               (_, hb) = ekk_heartbeat_add_neighbor (sy_heartbeat sys) sender_id
           in (sys\<lparr>sy_mod := (sy_mod sys)\<lparr>md_topology := topo\<rparr>, sy_heartbeat := hb\<rparr>, map MoTopology outs))
      | RxProposal proposer_id ballot_id type data threshold \<Rightarrow>
          (let (md, outs) = module_on_proposal app (sy_mod sys) proposer_id ballot_id type data threshold hal_now
           in (sys\<lparr>sy_mod := md\<rparr>, outs))
      | RxVote voter_id ballot_id vote \<Rightarrow>
          (let (_, cons, outs) = ekk_consensus_on_vote (md_consensus (sy_mod sys)) voter_id ballot_id vote hal_now True
           in (sys\<lparr>sy_mod := (sy_mod sys)\<lparr>md_consensus := cons\<rparr>\<rparr>, concat (map (consensus_message (sy_mod sys)) outs)))
      | _ \<Rightarrow> (sys, []))"

text \<open>At most 16 messages are taken per tick.\<close>

definition process_rx_messages ::
  "module_app \<Rightarrow> u64 \<Rightarrow> u64 \<Rightarrow> rx_msg list \<Rightarrow> module_sys \<Rightarrow> module_sys \<times> module_output list"
where
  "process_rx_messages app now hal_now msgs sys =
     fold (\<lambda>m (sys, outs). case process_rx_message app now hal_now m sys of (sys, new) \<Rightarrow> (sys, outs @ new))
       (take 16 msgs) (sys, [])"

section \<open>Tasks\<close>

definition blank_task :: ekk_internal_task where
  "blank_task = \<lparr>tk_id = 0, tk_function = False, tk_state = EKK_TASK_IDLE, tk_priority = 0, tk_period = 0,
     tk_next_run = 0, tk_run_count = 0, tk_total_runtime = 0, tk_has_deadline = False,
     tk_deadline = \<lparr>dl_deadline = 0, dl_duration_est = 0, dl_slack = 0, dl_critical = False\<rparr>,
     tk_required_caps = 0\<rparr>"

definition update_task :: "ekk_module \<Rightarrow> nat \<Rightarrow> (ekk_internal_task \<Rightarrow> ekk_internal_task) \<Rightarrow> ekk_module" where
  "update_task md i f = md\<lparr>md_tasks := (md_tasks md)[i := f (md_tasks md ! i)]\<rparr>"

text \<open>The function argument is not NULL: \<open>ekk_module_add_task\<close> requires one.\<close>

definition ekk_module_add_task :: "ekk_module \<Rightarrow> u8 \<Rightarrow> u64 \<Rightarrow> ekk_error \<times> u8 option \<times> ekk_module" where
  "ekk_module_add_task md priority period =
     (if md_task_count md \<ge> EKK_MAX_TASKS_PER_MODULE then (EKK_ERR_NO_MEMORY, None, md)
      else
        (let task_id = of_nat (md_task_count md);
             md = update_task md (md_task_count md) (\<lambda>task. task\<lparr>tk_id := task_id, tk_function := True,
               tk_state := EKK_TASK_IDLE, tk_priority := priority, tk_period := period, tk_next_run := 0,
               tk_run_count := 0, tk_total_runtime := 0\<rparr>)
         in (EKK_OK, Some task_id, md\<lparr>md_task_count := Suc (md_task_count md)\<rparr>)))"

definition ekk_module_task_ready :: "ekk_module \<Rightarrow> u8 \<Rightarrow> ekk_error \<times> ekk_module" where
  "ekk_module_task_ready md task_id =
     (if unat task_id \<ge> md_task_count md then (EKK_ERR_INVALID_ARG, md)
      else (EKK_OK, update_task md (unat task_id) (\<lambda>task. task\<lparr>tk_state := EKK_TASK_READY\<rparr>)))"

definition ekk_module_task_block :: "ekk_module \<Rightarrow> u8 \<Rightarrow> ekk_error \<times> ekk_module" where
  "ekk_module_task_block md task_id =
     (if unat task_id \<ge> md_task_count md then (EKK_ERR_INVALID_ARG, md)
      else (EKK_OK, update_task md (unat task_id) (\<lambda>task. task\<lparr>tk_state := EKK_TASK_BLOCKED\<rparr>)))"

definition ekk_module_set_task_deadline :: "ekk_module \<Rightarrow> u8 \<Rightarrow> u64 \<Rightarrow> u64 \<Rightarrow> ekk_error \<times> ekk_module" where
  "ekk_module_set_task_deadline md task_id deadline duration_est =
     (if unat task_id \<ge> md_task_count md then (EKK_ERR_INVALID_ARG, md)
      else (EKK_OK, update_task md (unat task_id) (\<lambda>task. task\<lparr>tk_has_deadline := True,
        tk_deadline := \<lparr>dl_deadline = deadline, dl_duration_est = duration_est, dl_slack = 0, dl_critical = False\<rparr>\<rparr>)))"

definition ekk_module_clear_task_deadline :: "ekk_module \<Rightarrow> u8 \<Rightarrow> ekk_error \<times> ekk_module" where
  "ekk_module_clear_task_deadline md task_id =
     (if unat task_id \<ge> md_task_count md then (EKK_ERR_INVALID_ARG, md)
      else (EKK_OK, update_task md (unat task_id) (\<lambda>task. task\<lparr>tk_has_deadline := False,
        tk_deadline := \<lparr>dl_deadline = 0, dl_duration_est = 0, dl_slack = 0, dl_critical = False\<rparr>\<rparr>)))"

definition ekk_module_set_task_capabilities :: "ekk_module \<Rightarrow> u8 \<Rightarrow> ekk_capability \<Rightarrow> ekk_error \<times> ekk_module" where
  "ekk_module_set_task_capabilities md task_id caps =
     (if unat task_id \<ge> md_task_count md then (EKK_ERR_INVALID_ARG, md)
      else (EKK_OK, update_task md (unat task_id) (\<lambda>task. task\<lparr>tk_required_caps := caps\<rparr>)))"

definition ekk_module_set_capabilities :: "ekk_module \<Rightarrow> ekk_capability \<Rightarrow> ekk_error \<times> ekk_module" where
  "ekk_module_set_capabilities md caps = (EKK_OK, md\<lparr>md_capabilities := caps\<rparr>)"

definition ekk_module_get_capabilities :: "ekk_module \<Rightarrow> ekk_capability" where
  "ekk_module_get_capabilities md = md_capabilities md"

text \<open>The task the loop has chosen so far: its id, its priority, whether it is critical.\<close>

definition task_eligible :: "ekk_module \<Rightarrow> u64 \<Rightarrow> ekk_internal_task \<Rightarrow> bool" where
  "task_eligible md now task =
     (tk_state task = EKK_TASK_READY
      \<and> \<not> (tk_period task > 0 \<and> tk_next_run task > now)
      \<and> (tk_required_caps task = 0 \<or> ekk_can_perform (md_capabilities md) (tk_required_caps task)))"

definition select_consider :: "ekk_module \<Rightarrow> u64 \<Rightarrow> ekk_internal_task \<Rightarrow> u8 \<times> u8 \<times> bool \<Rightarrow> u8 \<times> u8 \<times> bool" where
  "select_consider md now task best =
     (case best of (best_task, best_priority, best_is_critical) \<Rightarrow>
        if \<not> task_eligible md now task then best
        else
          (let is_critical = (tk_has_deadline task \<and> dl_critical (tk_deadline task));
               select_this_task =
                 (if is_critical \<and> \<not> best_is_critical then True
                  else is_critical = best_is_critical \<and> tk_priority task < best_priority)
           in if select_this_task then (tk_id task, tk_priority task, is_critical) else best))"

definition ekk_module_select_task :: "ekk_module \<Rightarrow> u64 \<Rightarrow> u8" where
  "ekk_module_select_task md now =
     (if md_task_count md = 0 then 0xFF
      else fst (fold (select_consider md now) (take (md_task_count md) (md_tasks md)) (0xFF, 0xFF, False)))"

definition finish_task :: "u64 \<Rightarrow> u64 \<Rightarrow> ekk_internal_task \<Rightarrow> ekk_internal_task" where
  "finish_task elapsed now task =
     (let task = task\<lparr>tk_total_runtime := tk_total_runtime task + elapsed, tk_run_count := tk_run_count task + 1,
            tk_state := EKK_TASK_IDLE\<rparr>
      in if tk_period task > 0
         then task\<lparr>tk_next_run := now + tk_period task, tk_state := EKK_TASK_READY\<rparr> else task)"

definition run_task ::
  "module_app \<Rightarrow> ekk_module \<Rightarrow> u8 \<Rightarrow> u64 \<Rightarrow> u64 \<Rightarrow> u64 \<Rightarrow> ekk_module \<times> module_output list"
where
  "run_task app md task_id now start stop =
     (if unat task_id \<ge> md_task_count md then (md, [])
      else if tk_state (md_tasks md ! unat task_id) \<noteq> EKK_TASK_READY then (md, [])
      else
        (let md = update_task md (unat task_id) (\<lambda>task. task\<lparr>tk_state := EKK_TASK_RUNNING\<rparr>);
             md = md\<lparr>md_active_task := task_id\<rparr>;
             called = tk_function (md_tasks md ! unat task_id);
             md = (if called then ap_run app task_id md else md);
             md = update_task md (unat task_id) (finish_task (stop - start) now)
         in (md\<lparr>md_active_task := 0xFF\<rparr>, if called then [MoRunTask task_id] else [])))"

section \<open>Fields and slack\<close>

definition ekk_module_update_field :: "ekk_module \<Rightarrow> int \<Rightarrow> int \<Rightarrow> int \<Rightarrow> ekk_error \<times> ekk_module \<times> module_output list" where
  "ekk_module_update_field md load thermal pwr =
     (EKK_OK,
      md\<lparr>md_my_field := (md_my_field md)\<lparr>fl_components :=
        (fl_components (md_my_field md))[EKK_FIELD_LOAD := load, EKK_FIELD_THERMAL := thermal, EKK_FIELD_POWER := pwr]\<rparr>\<rparr>,
      if md_on_field_change md then [MoFieldChange] else [])"

definition ekk_module_get_gradient :: "ekk_module \<Rightarrow> nat \<Rightarrow> int" where
  "ekk_module_get_gradient md component = (if component \<ge> EKK_FIELD_COUNT then 0 else md_gradients md ! component)"

abbreviation (input) EKK_SLACK_NORMALIZE_US :: int where "EKK_SLACK_NORMALIZE_US \<equiv> 100000000"

text \<open>
  The slack of a task in microseconds. \<open>scaled s\<close> stands for
  \<open>EKK_FLOAT_TO_FIXED((float)s / (float)EKK_SLACK_NORMALIZE_US)\<close>, which depends on the
  floating-point unit; clamping the quotient to \<open>[0, 1]\<close> is done on \<open>s\<close>, since the quotient has
  the sign of \<open>s\<close> and \<open>s\<close> is at most \<open>EKK_SLACK_NORMALIZE_US\<close>.
\<close>

definition task_slack_us :: "u64 \<Rightarrow> ekk_internal_task \<Rightarrow> int" where
  "task_slack_us now task =
     (let completion_time = to_i64 (to_i64 (uint now) + to_i64 (uint (dl_duration_est (tk_deadline task))))
      in to_i64 (to_i64 (uint (dl_deadline (tk_deadline task))) - completion_time))"

definition slack_task :: "(int \<Rightarrow> int) \<Rightarrow> u64 \<Rightarrow> ekk_internal_task \<Rightarrow> ekk_internal_task \<times> int list" where
  "slack_task scaled now task =
     (if \<not> tk_has_deadline task then (task, [])
      else
        (let slack_us = task_slack_us now task
         in (task\<lparr>tk_deadline := (tk_deadline task)\<lparr>dl_slack := scaled slack_us,
                dl_critical := (slack_us < EKK_SLACK_THRESHOLD_US)\<rparr>\<rparr>, [slack_us])))"

definition ekk_module_compute_slack :: "(int \<Rightarrow> int) \<Rightarrow> ekk_module \<Rightarrow> u64 \<Rightarrow> ekk_error \<times> ekk_module" where
  "ekk_module_compute_slack scaled md now =
     (let (tasks, slacks) = array_loop (slack_task scaled now) (md_task_count md) (md_tasks md);
          min_slack_us = fold min slacks EKK_SLACK_NORMALIZE_US;
          component = (if slacks \<noteq> [] then (if min_slack_us < 0 then 0 else scaled min_slack_us) else EKK_FIXED_ONE)
      in (EKK_OK, md\<lparr>md_tasks := tasks, md_my_field := (md_my_field md)\<lparr>fl_components :=
            (fl_components (md_my_field md))[EKK_FIELD_SLACK := component]\<rparr>\<rparr>))"

section \<open>Consensus shortcuts\<close>

definition ekk_module_propose_mode ::
  "ekk_module \<Rightarrow> u32 \<Rightarrow> u64 \<Rightarrow> ekk_error \<times> u16 option \<times> ekk_module \<times> consensus_output list"
where
  "ekk_module_propose_mode md new_mode hal_now =
     (let (err, ballot_id, cons, outs) = ekk_consensus_propose (md_consensus md) EKK_PROPOSAL_MODE_CHANGE new_mode
            EKK_THRESHOLD_SUPERMAJORITY hal_now
      in (err, ballot_id, md\<lparr>md_consensus := cons\<rparr>, outs))"

definition ekk_module_propose_power_limit ::
  "ekk_module \<Rightarrow> u32 \<Rightarrow> u64 \<Rightarrow> ekk_error \<times> u16 option \<times> ekk_module \<times> consensus_output list"
where
  "ekk_module_propose_power_limit md power_limit_mw hal_now =
     (let (err, ballot_id, cons, outs) = ekk_consensus_propose (md_consensus md) EKK_PROPOSAL_POWER_LIMIT power_limit_mw
            EKK_THRESHOLD_SIMPLE_MAJORITY hal_now
      in (err, ballot_id, md\<lparr>md_consensus := cons\<rparr>, outs))"

section \<open>Initialisation and tick\<close>

text \<open>The statics of the topology (positions, callback, sequence) survive.\<close>

definition ekk_module_init :: "module_sys \<Rightarrow> u8 \<Rightarrow> ekk_position \<Rightarrow> ekk_error \<times> module_sys" where
  "ekk_module_init sys k pos =
     (if k = EKK_INVALID_MODULE_ID then (EKK_ERR_INVALID_ARG, sys)
      else
        (let (_, topo) = ekk_topology_init (md_topology (sy_mod sys)) k pos None;
             (_, cons) = ekk_consensus_init (md_consensus (sy_mod sys)) k None;
             (_, hb) = ekk_heartbeat_init (sy_heartbeat sys) k None;
             md = \<lparr>md_id = k, md_state = EKK_MODULE_INIT, md_my_field = ekk_field_clear\<lparr>fl_source := k\<rparr>,
               md_neighbor_aggregate = ekk_field_clear, md_gradients = replicate EKK_FIELD_COUNT 0,
               md_topology = topo, md_consensus = cons,
               md_tasks = replicate EKK_MAX_TASKS_PER_MODULE blank_task, md_task_count = 0, md_active_task = 0xFF,
               md_last_tick = 0, md_tick_period = 1000, md_ticks_total = 0, md_field_updates = 0,
               md_topology_changes = 0, md_consensus_rounds = 0, md_capabilities = 0,
               md_on_field_change = False, md_on_neighbor_lost = False, md_on_neighbor_found = False,
               md_on_vote_request = False, md_on_consensus_complete = False, md_on_state_change = False\<rparr>
         in (EKK_OK, sys\<lparr>sy_mod := md, sy_heartbeat := ekk_heartbeat_set_callbacks hb True True True\<rparr>)))"

text \<open>The phases of the tick.\<close>

definition tick_heartbeat :: "module_app \<Rightarrow> tick_input \<Rightarrow> u64 \<Rightarrow> module_sys \<Rightarrow> module_sys \<times> module_output list" where
  "tick_heartbeat app ti now sys =
     (let (hb_changes, hb, calls, sent) = ekk_heartbeat_tick (sy_heartbeat sys) now (ti_sent ti) (ti_rx_time ti);
          (md, outs) = heartbeat_callbacks app (ti_rx_time ti) calls (sy_mod sys);
          md = (if hb_changes > 0 then md\<lparr>md_topology_changes := md_topology_changes md + 1\<rparr> else md)
      in (sys\<lparr>sy_mod := md, sy_heartbeat := hb\<rparr>,
          outs @ (case sent of None \<Rightarrow> [] | Some m \<Rightarrow> [MoHeartbeat m])))"

definition tick_topology :: "u64 \<Rightarrow> ekk_module \<Rightarrow> ekk_module \<times> module_output list" where
  "tick_topology now md =
     (let (topo_changed, topo, msgs) = ekk_topology_tick (md_topology md) now;
          md = md\<lparr>md_topology := topo\<rparr>;
          md = (if topo_changed then md\<lparr>md_topology_changes := md_topology_changes md + 1\<rparr> else md)
      in (md, map MoDiscovery msgs))"

text \<open>\<open>None\<close> is the division by zero of \<open>ekk_field_sample_neighbors\<close>.\<close>

definition tick_fields :: "field_state \<Rightarrow> u64 \<Rightarrow> ekk_module \<Rightarrow> ekk_module option" where
  "tick_fields fs field_now md =
     (case ekk_field_sample_neighbors fs (take (tp_neighbor_count (md_topology md)) (tp_neighbors (md_topology md))) field_now of
        None \<Rightarrow> None
      | Some (err, aggregate) \<Rightarrow>
          (let md = md\<lparr>md_neighbor_aggregate := aggregate\<rparr>
           in Some (if err = EKK_OK
             then md\<lparr>md_gradients := ekk_field_gradient_all (md_my_field md) (md_neighbor_aggregate md)\<rparr> else md)))"

definition tick_consensus :: "u64 \<Rightarrow> ekk_module \<Rightarrow> ekk_module \<times> module_output list" where
  "tick_consensus now md =
     (let (ballot_changes, cons, outs) = ekk_consensus_tick (md_consensus md) now True;
          md = md\<lparr>md_consensus := cons\<rparr>;
          md = (if ballot_changes > 0 then md\<lparr>md_consensus_rounds := md_consensus_rounds md + 1\<rparr> else md)
      in (md, concat (map (consensus_message md) outs)))"

definition tick_task :: "module_app \<Rightarrow> tick_input \<Rightarrow> u64 \<Rightarrow> ekk_module \<Rightarrow> ekk_module \<times> module_output list" where
  "tick_task app ti now md =
     (let task_to_run = ekk_module_select_task md (ti_select_time ti)
      in if unat task_to_run < md_task_count md
         then run_task app md task_to_run now (ti_task_start ti) (ti_task_end ti) else (md, []))"

definition tick_publish :: "u64 \<Rightarrow> u64 \<Rightarrow> module_sys \<Rightarrow> module_sys" where
  "tick_publish now field_now sys =
     (let md = sy_mod sys;
          md = md\<lparr>md_my_field := (md_my_field md)\<lparr>fl_timestamp := now\<rparr>\<rparr>;
          (err, fs) = ekk_field_publish (sy_field sys) (md_id md) (md_my_field md) field_now;
          md = (if err = EKK_OK then md\<lparr>md_field_updates := md_field_updates md + 1\<rparr> else md)
      in sys\<lparr>sy_mod := md, sy_field := fs\<rparr>)"

definition ekk_module_tick ::
  "module_app \<Rightarrow> module_sys \<Rightarrow> tick_input \<Rightarrow> u64 \<Rightarrow> (ekk_error \<times> module_sys \<times> module_output list) option"
where
  "ekk_module_tick app sys ti now =
     (if md_state (sy_mod sys) = EKK_MODULE_INIT \<or> md_state (sy_mod sys) = EKK_MODULE_SHUTDOWN
      then Some (EKK_OK, sys, [])
      else
        (let sys = sys\<lparr>sy_mod := (sy_mod sys)\<lparr>md_ticks_total := md_ticks_total (sy_mod sys) + 1\<rparr>\<rparr>;
             (sys, rx_outs) = process_rx_messages app now (ti_rx_time ti) (ti_rx ti) sys;
             (sys, hb_outs) = tick_heartbeat app ti now sys;
             (md, topo_outs) = tick_topology now (sy_mod sys)
         in case tick_fields (sy_field sys) (ti_field_time ti) md of
              None \<Rightarrow> None
            | Some md \<Rightarrow>
                (let (md, cons_outs) = tick_consensus now md;
                     (md, task_outs) = tick_task app ti now md;
                     sys = tick_publish now (ti_task_end ti) (sys\<lparr>sy_mod := md\<rparr>);
                     (md, state_outs) = update_module_state (sy_mod sys)
                 in Some (EKK_OK, sys\<lparr>sy_mod := md\<lparr>md_last_tick := now\<rparr>\<rparr>,
                      rx_outs @ hb_outs @ topo_outs @ cons_outs @ task_outs @ state_outs))))"

record ekk_module_status =
  ms_id :: u8
  ms_state :: ekk_module_state
  ms_neighbor_count :: nat
  ms_load_gradient :: int
  ms_thermal_gradient :: int
  ms_active_ballots :: nat
  ms_ticks_total :: u32

definition ekk_module_get_status :: "ekk_module \<Rightarrow> ekk_error \<times> ekk_module_status" where
  "ekk_module_get_status md =
     (EKK_OK, \<lparr>ms_id = md_id md, ms_state = md_state md, ms_neighbor_count = tp_neighbor_count (md_topology md),
        ms_load_gradient = md_gradients md ! EKK_FIELD_LOAD, ms_thermal_gradient = md_gradients md ! EKK_FIELD_THERMAL,
        ms_active_ballots = cs_active_ballot_count (md_consensus md), ms_ticks_total = md_ticks_total md\<rparr>)"

section \<open>Task selection\<close>

text \<open>
  The order the selection follows: critical tasks first, then the lower priority number, then the
  earlier slot.
\<close>

datatype task_rank = TaskRank (rank_critical: bool) (rank_priority: u8) (rank_slot: nat)

definition rank_key :: "task_rank \<Rightarrow> nat \<times> nat \<times> nat" where
  "rank_key r = (if rank_critical r then 0 else 1, unat (rank_priority r), rank_slot r)"

lemma rank_key_inject: "rank_key a = rank_key b \<longleftrightarrow> a = b"
  by (cases a; cases b) (auto simp: rank_key_def word_unat_eq_iff split: if_splits)

instantiation task_rank :: linorder
begin

definition less_eq_task_rank :: "task_rank \<Rightarrow> task_rank \<Rightarrow> bool" where
  "less_eq_task_rank a b \<longleftrightarrow> rank_key a \<le> rank_key b"

definition less_task_rank :: "task_rank \<Rightarrow> task_rank \<Rightarrow> bool" where
  "less_task_rank a b \<longleftrightarrow> rank_key a < rank_key b"

instance
  by standard (auto simp: less_eq_task_rank_def less_task_rank_def rank_key_inject [symmetric])

end

lemma rank_le_iff:
  "TaskRank c p i \<le> TaskRank d q j \<longleftrightarrow> (c \<and> \<not> d) \<or> (c = d \<and> (p < q \<or> (p = q \<and> i \<le> j)))"
  by (auto simp: less_eq_task_rank_def rank_key_def word_less_nat_alt word_unat_eq_iff)

definition is_critical :: "ekk_internal_task \<Rightarrow> bool" where
  "is_critical task = (tk_has_deadline task \<and> dl_critical (tk_deadline task))"

text \<open>A task that is not critical and has the priority 255 of an idle module is never chosen.\<close>

definition task_candidate :: "ekk_module \<Rightarrow> u64 \<Rightarrow> ekk_internal_task \<Rightarrow> bool" where
  "task_candidate md now task = (task_eligible md now task \<and> (is_critical task \<or> tk_priority task < 255))"

definition rank_at :: "ekk_internal_task list \<Rightarrow> nat \<Rightarrow> task_rank" where
  "rank_at tasks i = TaskRank (is_critical (tasks ! i)) (tk_priority (tasks ! i)) i"

definition candidate_ranks :: "ekk_module \<Rightarrow> u64 \<Rightarrow> task_rank set" where
  "candidate_ranks md now =
     rank_at (md_tasks md) ` {i. i < md_task_count md \<and> task_candidate md now (md_tasks md ! i)}"

definition tasks_ok :: "ekk_module \<Rightarrow> bool" where
  "tasks_ok md = (length (md_tasks md) = EKK_MAX_TASKS_PER_MODULE \<and> md_task_count md \<le> EKK_MAX_TASKS_PER_MODULE
     \<and> (\<forall>i < md_task_count md. tk_id (md_tasks md ! i) = of_nat i))"

text \<open>What the loop knows after the tasks \<open>ts\<close>.\<close>

definition best_of :: "ekk_module \<Rightarrow> u64 \<Rightarrow> ekk_internal_task list \<Rightarrow> u8 \<times> u8 \<times> bool \<Rightarrow> bool" where
  "best_of md now ts best =
     (if \<exists>t \<in> set ts. task_candidate md now t
      then \<exists>i < length ts. task_candidate md now (ts ! i)
             \<and> best = (tk_id (ts ! i), tk_priority (ts ! i), is_critical (ts ! i))
             \<and> (\<forall>j < length ts. task_candidate md now (ts ! j) \<longrightarrow> rank_at ts i \<le> rank_at ts j)
      else best = (0xFF, 0xFF, False))"

lemma best_of_snoc:
  assumes "best_of md now ts best"
  shows "best_of md now (ts @ [t]) (select_consider md now t best)"
proof (cases "task_candidate md now t")
  case False
  then have "select_consider md now t best = best"
    using assms by (cases best)
      (auto simp: select_consider_def task_candidate_def is_critical_def best_of_def Let_def not_less
        dest!: word_le_less_eq [THEN iffD1] split: if_splits)
  with False assms show ?thesis
    by (auto simp: best_of_def nth_append rank_at_def less_Suc_eq split: if_splits)
next
  case cand: True
  show ?thesis
  proof (cases "\<exists>u \<in> set ts. task_candidate md now u")
    case False
    with assms have "best = (0xFF, 0xFF, False)" by (simp add: best_of_def)
    with cand have "select_consider md now t best = (tk_id t, tk_priority t, is_critical t)"
      by (auto simp: select_consider_def task_candidate_def is_critical_def Let_def)
    moreover have "\<not> task_candidate md now (ts ! j)" if "j < length ts" for j using False that by simp
    ultimately show ?thesis using cand
      by (auto simp: best_of_def nth_append less_Suc_eq intro!: exI [of _ "length ts"])
  next
    case True
    with assms obtain i where i: "i < length ts" "task_candidate md now (ts ! i)"
      "best = (tk_id (ts ! i), tk_priority (ts ! i), is_critical (ts ! i))"
      "\<forall>j < length ts. task_candidate md now (ts ! j) \<longrightarrow> rank_at ts i \<le> rank_at ts j"
      by (auto simp: best_of_def)
    have old: "rank_at (ts @ [t]) j = rank_at ts j" if "j < length ts" for j
      using that by (simp add: rank_at_def nth_append)
    let ?n = "length ts"
    have pick: "select_consider md now t best =
        (if rank_at (ts @ [t]) i \<le> rank_at (ts @ [t]) ?n then best else (tk_id t, tk_priority t, is_critical t))"
      using cand i(1,3)
      by (auto simp: select_consider_def task_candidate_def is_critical_def [symmetric] Let_def rank_at_def
          nth_append rank_le_iff)
    have least: "\<exists>m < Suc ?n. task_candidate md now ((ts @ [t]) ! m)
        \<and> select_consider md now t best = (tk_id ((ts @ [t]) ! m), tk_priority ((ts @ [t]) ! m), is_critical ((ts @ [t]) ! m))
        \<and> (\<forall>j < Suc ?n. task_candidate md now ((ts @ [t]) ! j) \<longrightarrow> rank_at (ts @ [t]) m \<le> rank_at (ts @ [t]) j)"
    proof (cases "rank_at (ts @ [t]) i \<le> rank_at (ts @ [t]) ?n")
      case True
      then show ?thesis using i pick old
        by (intro exI [of _ i]) (auto simp: nth_append less_Suc_eq)
    next
      case False
      then show ?thesis using i pick old cand
        by (intro exI [of _ ?n]) (auto simp: nth_append less_Suc_eq intro: order_trans [OF less_imp_le])
    qed
    with True show ?thesis by (auto simp: best_of_def)
  qed
qed

lemma best_of_fold: "best_of md now ts (fold (select_consider md now) ts (0xFF, 0xFF, False))"
  by (induction ts rule: rev_induct) (simp_all add: best_of_snoc, simp add: best_of_def)

text \<open>
  C20. Task selection is optimal: when the module has a task that may run now, namely a ready one,
  due if periodic, whose required capabilities the module has, the one selected is the least in
  the order of criticality, priority and slot; the module idles exactly when there is none. (Only
  a task of priority 255 that is not critical is never selected.)
\<close>

theorem module_select_optimal:
  assumes "tasks_ok md"
  shows "ekk_module_select_task md now =
    (if candidate_ranks md now = {} then 0xFF else of_nat (rank_slot (Min (candidate_ranks md now))))"
proof -
  let ?n = "md_task_count md" and ?ts = "take (md_task_count md) (md_tasks md)"
  have n: "?n \<le> length (md_tasks md)" using assms by (simp add: tasks_ok_def)
  then have len: "length ?ts = ?n" by simp
  have rank: "rank_at ?ts i = rank_at (md_tasks md) i" if "i < ?n" for i using that by (simp add: rank_at_def)
  have fin: "finite (candidate_ranks md now)" by (simp add: candidate_ranks_def)
  have sel: "ekk_module_select_task md now = fst (fold (select_consider md now) ?ts (0xFF, 0xFF, False))"
    by (simp add: ekk_module_select_task_def)
  have some: "(\<exists>t \<in> set ?ts. task_candidate md now t) \<longleftrightarrow> candidate_ranks md now \<noteq> {}"
    using n by (force simp: candidate_ranks_def in_set_conv_nth)
  show ?thesis
  proof (cases "candidate_ranks md now = {}")
    case True
    with best_of_fold [of md now ?ts] some show ?thesis by (simp add: best_of_def sel)
  next
    case False
    with some have "\<exists>t \<in> set ?ts. task_candidate md now t" by blast
    with best_of_fold [of md now ?ts] obtain i where i: "i < length ?ts" "task_candidate md now (?ts ! i)"
      "fold (select_consider md now) ?ts (0xFF, 0xFF, False) = (tk_id (?ts ! i), tk_priority (?ts ! i), is_critical (?ts ! i))"
      "\<forall>j < length ?ts. task_candidate md now (?ts ! j) \<longrightarrow> rank_at ?ts i \<le> rank_at ?ts j"
      unfolding best_of_def by (simp only: if_True) blast
    note i = i [unfolded len]
    have "Min (candidate_ranks md now) = rank_at (md_tasks md) i"
      using i rank by (intro Min_eqI [OF fin]) (auto simp: candidate_ranks_def)
    moreover have "tk_id (md_tasks md ! i) = of_nat i" using assms i(1) by (simp add: tasks_ok_def)
    ultimately show ?thesis using False i(1,3) by (simp add: rank_at_def sel)
  qed
qed

definition example_task :: "u8 \<Rightarrow> u8 \<Rightarrow> ekk_internal_task" where
  "example_task k priority = blank_task\<lparr>tk_id := k, tk_function := True, tk_state := EKK_TASK_READY, tk_priority := priority\<rparr>"

definition blank_sys :: module_sys where
  "blank_sys = \<lparr>sy_mod = \<lparr>md_id = 0, md_state = EKK_MODULE_INIT, md_my_field = ekk_field_clear,
     md_neighbor_aggregate = ekk_field_clear, md_gradients = [], md_topology = topology_blank,
     md_consensus = consensus_blank,
     md_tasks = [], md_task_count = 0, md_active_task = 0, md_last_tick = 0, md_tick_period = 0, md_ticks_total = 0,
     md_field_updates = 0, md_topology_changes = 0, md_consensus_rounds = 0, md_capabilities = 0,
     md_on_field_change = False, md_on_neighbor_lost = False, md_on_neighbor_found = False,
     md_on_vote_request = False, md_on_consensus_complete = False, md_on_state_change = False\<rparr>,
     sy_heartbeat = hb_example, sy_field = field_example_state\<rparr>"

definition example_sys :: module_sys where
  "example_sys = snd (ekk_module_init blank_sys 3 position_zero)"

definition example_md :: ekk_module where
  "example_md = (sy_mod example_sys)\<lparr>md_tasks := example_task 0 9 # example_task 1 4 # replicate 6 blank_task, md_task_count := 2\<rparr>"

lemma example_md_tasks: "md_tasks example_md = example_task 0 9 # example_task 1 4 # replicate 6 blank_task"
  "md_task_count example_md = 2" "md_capabilities example_md = 0"
  by (simp_all add: example_md_def example_sys_def ekk_module_init_def Let_def split_beta)

lemma less_2_cases_nat: "i < (2::nat) \<longleftrightarrow> i = 0 \<or> i = 1" by auto

theorem module_select_optimal_witness: "ekk_module_select_task example_md 1000 = 1"
proof -
  have ok: "tasks_ok example_md"
    by (auto simp: tasks_ok_def example_md_tasks less_2_cases_nat example_task_def blank_task_def)
  have "{i. i < md_task_count example_md \<and> task_candidate example_md 1000 (md_tasks example_md ! i)} = {0, 1}"
    by (auto simp: example_md_tasks less_2_cases_nat example_task_def blank_task_def
        task_candidate_def task_eligible_def is_critical_def)
  then have "candidate_ranks example_md 1000 = {TaskRank False 9 0, TaskRank False 4 1}"
    by (simp add: candidate_ranks_def rank_at_def example_md_tasks example_task_def blank_task_def is_critical_def)
  then show ?thesis
    using module_select_optimal [OF ok, of 1000] by (simp add: min_def rank_le_iff)
qed

end
