(* ===== verification/Ekk_Coordination.thy ===== *)
theory Ekk_Coordination
  imports Ekk_Module
begin

text \<open>
  The tick of a module as the composition of its components (\<open>ekk_module_tick\<close>): the components'
  invariants along every run, what the composition does with the health of neighbors, the state
  machine against the number of neighbors, and the path from a missing heartbeat to the
  topology.
\<close>

section \<open>Health in the neighbor array\<close>

text \<open>The topology never learns that a neighbor is alive: its entries keep the health they start with.\<close>

definition unheard :: "ekk_topology \<Rightarrow> bool" where
  "unheard topo = (\<forall>nb \<in> set (tp_neighbors topo). nb_health nb = EKK_HEALTH_UNKNOWN)"

lemma unheard_nth: "length (tp_neighbors topo) = 7 \<Longrightarrow> unheard topo \<longleftrightarrow> (\<forall>i < 7. nb_health (tp_neighbors topo ! i) = EKK_HEALTH_UNKNOWN)"
  by (simp add: unheard_def all_set_conv_all_nth)

lemma elect_slot_unheard:
  assumes "\<forall>nb \<in> set old. nb_health nb = EKK_HEALTH_UNKNOWN" "n \<le> length old"
  shows "nb_health (elect_slot old n slot e) = EKK_HEALTH_UNKNOWN"
  using assms by (auto simp: elect_slot_def Let_def split: option.split dest: find_from_SomeD)

lemma unheard_reelect:
  assumes "known_ok topo" "tp_neighbor_count topo \<le> 7" "unheard topo"
  shows "unheard (fst (snd (ekk_topology_reelect custom topo now)))"
proof (cases "tp_known_count topo = 0")
  case True
  with assms(3) show ?thesis by (simp add: ekk_topology_reelect_def unheard_def)
next
  case False
  define c where "c = min (tp_known_count topo) (topo_k topo)"
  note el = elected_neighbors_eq [OF assms(1), of custom, folded c_def]
  have len: "length (tp_neighbors topo) = 7" using assms(1) by (simp add: known_ok_def)
  have "snd (elected_neighbors custom topo) =
      take c (snd (elected_neighbors custom topo)) @ drop c (snd (elected_neighbors custom topo))" by simp
  then have "set (snd (elected_neighbors custom topo)) =
      set (take c (snd (elected_neighbors custom topo))) \<union> set (drop c (snd (elected_neighbors custom topo)))"
    by (metis set_append)
  then have "\<forall>nb \<in> set (snd (elected_neighbors custom topo)). nb_health nb = EKK_HEALTH_UNKNOWN"
    using assms(2,3) len by (auto simp: el(2,3) unheard_def clear_slot_def elect_slot_unheard)
  with False show ?thesis
    by (simp add: ekk_topology_reelect_def unheard_def Let_def split_beta)
qed

lemma remove_from_known_neighbors [simp]:
  "tp_neighbors (remove_from_known topo k) = tp_neighbors topo"
  "tp_neighbor_count (remove_from_known topo k) = tp_neighbor_count topo"
  by (auto simp: remove_from_known_def split: option.split)

lemma unheard_drop:
  assumes "topo_inv topo" "unheard topo" "find_neighbor_index topo lost = Some idx"
  shows "unheard (drop_neighbor topo idx lost)" "tp_neighbor_count (drop_neighbor topo idx lost) \<le> 7"
proof -
  let ?n = "tp_neighbor_count topo"
  let ?nbs = "(tp_neighbors topo)[idx := (tp_neighbors topo ! idx)\<lparr>nb_id := EKK_INVALID_MODULE_ID, nb_health := EKK_HEALTH_DEAD\<rparr>]"
  let ?sh = "shift_down ?nbs idx ?n"
  have len: "length (tp_neighbors topo) = 7" "?n \<le> 7" using assms(1) by (auto simp: topo_inv_def known_ok_def)
  have idx: "idx < ?n" using assms(3) by (auto simp: find_neighbor_index_def dest: find_from_SomeD)
  have nbs: "tp_neighbors (drop_neighbor topo idx lost) = ?sh[?n - 1 := clear_slot (?sh ! (?n - 1))]"
    and cnt: "tp_neighbor_count (drop_neighbor topo idx lost) = ?n - 1"
    using idx len less_le_trans [of "?n - 1" ?n 7] by (simp_all add: drop_neighbor_def Let_def)
  have "nb_health (tp_neighbors (drop_neighbor topo idx lost) ! j) = EKK_HEALTH_UNKNOWN" if "j < 7" for j
    using that idx len assms(2)
    by (auto simp: nbs nth_list_update nth_shift_down unheard_nth clear_slot_def)
  then show "unheard (drop_neighbor topo idx lost)" using len by (simp add: nbs unheard_nth)
  show "tp_neighbor_count (drop_neighbor topo idx lost) \<le> 7" using cnt len by simp
qed

interpretation un: event_machine "topology_step custom" "\<lambda>topo. (topo_inv topo \<and> tp_config topo = c \<and> tp_my_id topo = me) \<and> unheard topo"
  for custom c me
proof unfold_locales
  fix topo e assume inv: "(topo_inv topo \<and> tp_config topo = c \<and> tp_my_id topo = me) \<and> unheard topo"
  then have ok: "known_ok topo" "tp_neighbor_count topo \<le> 7" by (auto simp: topo_inv_def known_ok_def)
  have "unheard (topology_step custom topo e)"
  proof (cases e)
    case (TpDiscovery i pos now)
    show ?thesis
    proof (cases "i = 0 \<or> i = tp_my_id topo")
      case True
      with inv TpDiscovery show ?thesis by (auto simp: ekk_topology_on_discovery_def)
    next
      case False
      obtain idx topo' where add: "add_to_known topo i pos = (idx, topo')" by fastforce
      have st: "known_ok topo'" "tp_neighbors topo' = tp_neighbors topo" "tp_neighbor_count topo' = tp_neighbor_count topo"
        using add_to_known_state(1,4,5) [OF _ _ _ add] inv False by auto
      then have "unheard topo'" using inv by (simp add: unheard_def)
      with st inv ok TpDiscovery False add show ?thesis
        by (auto simp: ekk_topology_on_discovery_def unheard_reelect split: option.splits)
    qed
  next
    case (TpLost i now)
    then show ?thesis
      using inv unheard_drop [of topo i] drop_neighbor_state(1) [of topo i]
      by (auto simp: ekk_topology_on_neighbor_lost_def unheard_reelect split: option.splits)
  next
    case (TpReelect now)
    with inv ok show ?thesis by (simp add: unheard_reelect)
  next
    case (TpTick now)
    obtain r after msgs where tick: "ekk_topology_tick topo now = (r, after, msgs)" using prod_cases3 by blast
    from topology_tick_frame [OF tick] inv TpTick tick show ?thesis by (simp add: unheard_def)
  qed
  with tp.inv_step inv show "(topo_inv (topology_step custom topo e) \<and> tp_config (topology_step custom topo e) = c
      \<and> tp_my_id (topology_step custom topo e) = me) \<and> unheard (topology_step custom topo e)" by blast
qed

section \<open>Invariants of a module and its components\<close>

definition md_ok :: "ekk_topology_config \<Rightarrow> u8 \<Rightarrow> ekk_module \<Rightarrow> bool" where
  "md_ok c me md =
     (((topo_inv (md_topology md) \<and> tp_config (md_topology md) = c \<and> tp_my_id (md_topology md) = me)
         \<and> unheard (md_topology md))
      \<and> consensus_inv (md_consensus md) \<and> tasks_ok md)"

definition sys_ok :: "ekk_topology_config \<Rightarrow> u8 \<Rightarrow> module_sys \<Rightarrow> bool" where
  "sys_ok c me sys = (md_ok c me (sy_mod sys) \<and> hb_inv (sy_heartbeat sys) \<and> field_inv (sy_field sys))"

text \<open>The task functions of the application leave alone what belongs to the coordination loop.\<close>

definition app_respects :: "module_app \<Rightarrow> bool" where
  "app_respects app = (\<forall>t md. md_topology (ap_run app t md) = md_topology md
     \<and> md_state (ap_run app t md) = md_state md \<and> md_neighbor_aggregate (ap_run app t md) = md_neighbor_aggregate md
     \<and> md_gradients (ap_run app t md) = md_gradients md
     \<and> (consensus_inv (md_consensus md) \<longrightarrow> consensus_inv (md_consensus (ap_run app t md)))
     \<and> (tasks_ok md \<longrightarrow> tasks_ok (ap_run app t md) \<and> md_task_count md \<le> md_task_count (ap_run app t md)))"

lemma md_ok_topology_step:
  "md_ok c me md \<Longrightarrow> md_ok c me (md\<lparr>md_topology := topology_step custom (md_topology md) e\<rparr>)"
  using un.inv_step [of "md_topology md" c me custom e] by (simp add: md_ok_def tasks_ok_def)

lemma md_ok_consensus_step:
  "md_ok c me md \<Longrightarrow> md_ok c me (md\<lparr>md_consensus := consensus_step (md_consensus md) e\<rparr>)"
  using cs.inv_step [of "md_consensus md" e] by (simp add: md_ok_def tasks_ok_def)

lemma hb_inv_received: "hb_inv hb \<Longrightarrow> hb_inv (fst (snd (ekk_heartbeat_received hb k sq now)))"
  using hb_received_result(2) [of hb k sq now] hb_received_unknown [of hb k sq now]
  by (cases "k = EKK_INVALID_MODULE_ID"; cases "k \<in> set (hb_keys hb)") (auto simp: ekk_heartbeat_received_def)

lemma hb_inv_add: "hb_inv hb \<Longrightarrow> hb_inv (snd (ekk_heartbeat_add_neighbor hb k))"
  using hb_table.inv_add [of hb k]
  by (cases "k = EKK_INVALID_MODULE_ID") (auto simp: ekk_heartbeat_add_neighbor_def)

text \<open>The phases before the fields change nothing but the topology, the consensus engine and the heartbeats.\<close>

definition same_but :: "ekk_module \<Rightarrow> ekk_module \<Rightarrow> bool" where
  "same_but md m = (\<exists>topo cons. m = md\<lparr>md_topology := topo, md_consensus := cons\<rparr>)"

lemma same_but_refl [simp]: "same_but md md"
  unfolding same_but_def by (intro exI [of _ "md_topology md"] exI [of _ "md_consensus md"]) simp

lemma same_but_update:
  assumes "same_but md m"
  shows "same_but md (m\<lparr>md_topology := x\<rparr>)" "same_but md (m\<lparr>md_consensus := y\<rparr>)"
proof -
  from assms obtain topo cons where m: "m = md\<lparr>md_topology := topo, md_consensus := cons\<rparr>"
    by (auto simp: same_but_def)
  show "same_but md (m\<lparr>md_topology := x\<rparr>)"
    unfolding same_but_def by (intro exI [of _ x] exI [of _ cons]) (simp add: m)
  show "same_but md (m\<lparr>md_consensus := y\<rparr>)"
    unfolding same_but_def by (intro exI [of _ topo] exI [of _ y]) (simp add: m)
qed

lemma same_but_trans: "same_but a b \<Longrightarrow> same_but b c \<Longrightarrow> same_but a c"
  unfolding same_but_def by fastforce

lemma same_but_sel:
  "same_but md m \<Longrightarrow> md_state m = md_state md \<and> md_my_field m = md_my_field md \<and> md_id m = md_id md
     \<and> md_tasks m = md_tasks md \<and> md_task_count m = md_task_count md"
  by (auto simp: same_but_def)

lemma heartbeat_callback_topology:
  "\<exists>e. fst (heartbeat_callback app t c md) = md\<lparr>md_topology := topology_step (ap_distance app) (md_topology md) e\<rparr>
     \<or> fst (heartbeat_callback app t c md) = md"
proof (cases c)
  case (NeighborAlive k)
  then show ?thesis
    by (auto simp: on_neighbor_alive_cb_def split_beta Let_def intro!: exI [of _ "TpDiscovery k position_unknown t"])
next
  case (NeighborDead k)
  then show ?thesis
    by (auto simp: on_neighbor_dead_cb_def split_beta Let_def intro!: exI [of _ "TpLost k t"])
qed simp

lemma callbacks_ok:
  assumes "md_ok c me md"
  shows "md_ok c me (fst (heartbeat_callbacks app t calls md)) \<and> same_but md (fst (heartbeat_callbacks app t calls md))"
proof -
  let ?P = "\<lambda>m. md_ok c me m \<and> same_but md m"
  have "?P (fst (heartbeat_callback app t cb m))" if "?P m" for cb m
  proof -
    from heartbeat_callback_topology [of app t cb m] obtain e where
      e: "fst (heartbeat_callback app t cb m) = m\<lparr>md_topology := topology_step (ap_distance app) (md_topology m) e\<rparr>
       \<or> fst (heartbeat_callback app t cb m) = m" by blast
    have "?P (m\<lparr>md_topology := topology_step (ap_distance app) (md_topology m) e\<rparr>)"
      using that md_ok_topology_step same_but_update(1) by blast
    with e that show ?thesis by metis
  qed
  then show ?thesis
    unfolding heartbeat_callbacks_def using assms by (intro fold_outputs_inv [where P = ?P]) simp_all
qed

definition comm_ok :: "ekk_topology_config \<Rightarrow> u8 \<Rightarrow> module_sys \<Rightarrow> module_sys \<Rightarrow> bool" where
  "comm_ok c me sys s =
     (md_ok c me (sy_mod s) \<and> hb_inv (sy_heartbeat s) \<and> sy_field s = sy_field sys \<and> same_but (sy_mod sys) (sy_mod s))"

lemma rx_message_ok:
  assumes "comm_ok c me sys s"
  shows "comm_ok c me sys (fst (process_rx_message app now t msg s))"
proof (cases msg)
  case (RxHeartbeat sender sq)
  obtain r hb calls where h: "ekk_heartbeat_received (sy_heartbeat s) sender sq now = (r, hb, calls)"
    using prod_cases3 by blast
  have hb: "hb_inv hb" using hb_inv_received [of "sy_heartbeat s" sender sq now] h assms by (simp add: comm_ok_def)
  obtain md outs where m: "heartbeat_callbacks app t calls (sy_mod s) = (md, outs)" by fastforce
  have "md_ok c me md \<and> same_but (sy_mod s) md"
    using callbacks_ok [of c me "sy_mod s" app t calls] m assms by (simp add: comm_ok_def)
  with assms have "md_ok c me md" "same_but (sy_mod sys) md" by (auto simp: comm_ok_def intro: same_but_trans)
  with assms hb RxHeartbeat h m show ?thesis by (simp add: process_rx_message_def comm_ok_def)
next
  case (RxDiscovery sender pos)
  then show ?thesis
    using assms md_ok_topology_step [of c me "sy_mod s" "ap_distance app" "TpDiscovery sender pos t"]
      hb_inv_add [of "sy_heartbeat s" sender]
    by (simp add: process_rx_message_def comm_ok_def split_beta Let_def same_but_update)
next
  case (RxProposal p b ty d thr)
  then show ?thesis
    using assms md_ok_consensus_step [of c me "sy_mod s" "CsOnProposal p b ty d thr t (Some (ap_decide_vote app))"]
    by (simp add: process_rx_message_def module_on_proposal_def comm_ok_def split_beta Let_def same_but_update)
next
  case (RxVote v b vote)
  then show ?thesis
    using assms md_ok_consensus_step [of c me "sy_mod s" "CsOnVote v b vote t True"]
    by (simp add: process_rx_message_def comm_ok_def split_beta Let_def same_but_update)
qed (use assms in \<open>simp_all add: process_rx_message_def\<close>)

lemma rx_messages_ok:
  assumes "comm_ok c me sys s"
  shows "comm_ok c me sys (fst (process_rx_messages app now t msgs s))"
  unfolding process_rx_messages_def
  by (rule fold_outputs_inv [where P = "comm_ok c me sys"]) (use assms in \<open>simp_all add: rx_message_ok\<close>)

section \<open>The phases of the tick\<close>

definition keeps :: "ekk_module \<Rightarrow> ekk_module \<Rightarrow> bool" where
  "keeps md m = (md_state m = md_state md \<and> md_my_field m = md_my_field md \<and> md_id m = md_id md)"

lemma same_but_keeps: "same_but md m \<Longrightarrow> keeps md m"
  using same_but_sel [of md m] by (simp add: keeps_def)

lemma md_ok_frame:
  "md_ok c me md \<Longrightarrow> md_topology m = md_topology md \<Longrightarrow> md_consensus m = md_consensus md \<Longrightarrow>
   md_tasks m = md_tasks md \<Longrightarrow> md_task_count m = md_task_count md \<Longrightarrow> md_ok c me m"
  by (simp add: md_ok_def tasks_ok_def)

lemma tick_heartbeat_ok:
  fixes app ti now
  assumes "md_ok c me (sy_mod s)" "hb_inv (sy_heartbeat s)"
  defines "s' \<equiv> fst (tick_heartbeat app ti now s)"
  shows "md_ok c me (sy_mod s')" "hb_inv (sy_heartbeat s')" "sy_field s' = sy_field s" "keeps (sy_mod s) (sy_mod s')"
proof -
  obtain n hb calls sent where h: "ekk_heartbeat_tick (sy_heartbeat s) now (ti_sent ti) (ti_rx_time ti) = (n, hb, calls, sent)"
    using prod_cases4 by blast
  have hb: "hb_inv hb" using hb_tick_keys(2) [OF assms(2), of now "ti_sent ti" "ti_rx_time ti"] h
    by (simp add: hb_tick_state_def)
  obtain md outs where m: "heartbeat_callbacks app (ti_rx_time ti) calls (sy_mod s) = (md, outs)" by fastforce
  have md: "md_ok c me md" "keeps (sy_mod s) md"
    using callbacks_ok [OF assms(1), of app "ti_rx_time ti" calls] m same_but_keeps by auto
  have s': "s' = s\<lparr>sy_mod := (if n > 0 then md\<lparr>md_topology_changes := md_topology_changes md + 1\<rparr> else md), sy_heartbeat := hb\<rparr>"
    by (simp add: s'_def tick_heartbeat_def h m)
  show "md_ok c me (sy_mod s')" "hb_inv (sy_heartbeat s')" "sy_field s' = sy_field s" "keeps (sy_mod s) (sy_mod s')"
    using md hb by (auto simp: s' keeps_def intro: md_ok_frame)
qed

lemma tick_topology_ok:
  assumes "md_ok c me md"
  shows "md_ok c me (fst (tick_topology now md))" "keeps md (fst (tick_topology now md))"
proof -
  obtain r topo msgs where t: "ekk_topology_tick (md_topology md) now = (r, topo, msgs)" using prod_cases3 by blast
  have "md_ok c me (md\<lparr>md_topology := topo\<rparr>)"
    using md_ok_topology_step [OF assms, of _ "TpTick now"] t by simp
  then show "md_ok c me (fst (tick_topology now md))" "keeps md (fst (tick_topology now md))"
    by (auto simp: tick_topology_def t keeps_def Let_def intro: md_ok_frame)
qed

text \<open>No neighbor is ever sampled, so the aggregate is the empty field.\<close>

lemma fold_accumulate_unheard:
  "\<forall>nb \<in> set ns. nb_health nb = EKK_HEALTH_UNKNOWN \<Longrightarrow> fold (accumulate_neighbor fs now) ns acc = acc"
  by (induction ns arbitrary: acc) (auto simp: accumulate_neighbor_def split: prod.split)

lemma sample_unheard:
  assumes "\<forall>nb \<in> set ns. nb_health nb = EKK_HEALTH_UNKNOWN"
  shows "ekk_field_sample_neighbors fs ns now = Some (EKK_OK, ekk_field_clear)"
  by (simp add: ekk_field_sample_neighbors_def fold_accumulate_unheard [OF assms] ekk_field_clear_def Let_def)

lemma tick_fields_ok:
  assumes "md_ok c me md"
  shows "\<exists>m. tick_fields fs now md = Some m \<and> md_ok c me m \<and> keeps md m \<and> md_topology m = md_topology md
    \<and> md_neighbor_aggregate m = ekk_field_clear \<and> md_gradients m = ekk_field_gradient_all (md_my_field md) ekk_field_clear"
proof -
  have "\<forall>nb \<in> set (take (tp_neighbor_count (md_topology md)) (tp_neighbors (md_topology md))). nb_health nb = EKK_HEALTH_UNKNOWN"
    using assms by (auto simp: md_ok_def unheard_def dest: in_set_takeD)
  from sample_unheard [OF this] show ?thesis
    using assms by (auto simp: tick_fields_def keeps_def intro: md_ok_frame)
qed

lemma tick_consensus_ok:
  assumes "md_ok c me md"
  shows "md_ok c me (fst (tick_consensus now md))" "keeps md (fst (tick_consensus now md))"
    "md_neighbor_aggregate (fst (tick_consensus now md)) = md_neighbor_aggregate md"
    "md_gradients (fst (tick_consensus now md)) = md_gradients md"
    "md_topology (fst (tick_consensus now md)) = md_topology md"
proof -
  obtain n cons outs where c: "ekk_consensus_tick (md_consensus md) now True = (n, cons, outs)" using prod_cases3 by blast
  have "md_ok c me (md\<lparr>md_consensus := cons\<rparr>)"
    using md_ok_consensus_step [OF assms, of "CsTick now True"] c by simp
  then show "md_ok c me (fst (tick_consensus now md))" "keeps md (fst (tick_consensus now md))"
    "md_neighbor_aggregate (fst (tick_consensus now md)) = md_neighbor_aggregate md"
    "md_gradients (fst (tick_consensus now md)) = md_gradients md"
    "md_topology (fst (tick_consensus now md)) = md_topology md"
    by (auto simp: tick_consensus_def c keeps_def Let_def intro: md_ok_frame)
qed

lemma tasks_ok_update:
  "tasks_ok md \<Longrightarrow> (\<And>t. tk_id (f t) = tk_id t) \<Longrightarrow> tasks_ok (update_task md i f)"
  by (cases "i < length (md_tasks md)") (auto simp: tasks_ok_def update_task_def nth_list_update list_update_beyond)

lemma update_task_sel [simp]:
  "md_topology (update_task md i f) = md_topology md" "md_consensus (update_task md i f) = md_consensus md"
  "md_state (update_task md i f) = md_state md" "md_id (update_task md i f) = md_id md"
  "md_my_field (update_task md i f) = md_my_field md" "md_task_count (update_task md i f) = md_task_count md"
  "md_neighbor_aggregate (update_task md i f) = md_neighbor_aggregate md" "md_gradients (update_task md i f) = md_gradients md"
  by (simp_all add: update_task_def)

lemma md_ok_update_task:
  "md_ok c me md \<Longrightarrow> (\<And>t. tk_id (f t) = tk_id t) \<Longrightarrow> md_ok c me (update_task md i f)"
  by (simp add: md_ok_def tasks_ok_update)

lemma finish_task_id [simp]: "tk_id (finish_task e now t) = tk_id t"
  by (simp add: finish_task_def Let_def)

lemma run_task_ok:
  fixes i now start stop
  assumes "app_respects app" "md_ok c me md"
  defines "m \<equiv> fst (run_task app md i now start stop)"
  shows "md_ok c me m" "md_state m = md_state md" "md_topology m = md_topology md"
    "md_neighbor_aggregate m = md_neighbor_aggregate md" "md_gradients m = md_gradients md"
proof -
  define a where "a = (update_task md (unat i) (\<lambda>task. task\<lparr>tk_state := EKK_TASK_RUNNING\<rparr>))\<lparr>md_active_task := i\<rparr>"
  define b where "b = (if tk_function (md_tasks a ! unat i) then ap_run app i a else a)"
  have a: "md_ok c me a" "md_state a = md_state md" "md_topology a = md_topology md"
    "md_neighbor_aggregate a = md_neighbor_aggregate md" "md_gradients a = md_gradients md"
    using md_ok_frame [OF md_ok_update_task [OF assms(2), of "\<lambda>task. task\<lparr>tk_state := EKK_TASK_RUNNING\<rparr>" "unat i"], of a]
    by (simp_all add: a_def)
  have b: "md_ok c me b" "md_state b = md_state md" "md_topology b = md_topology md"
    "md_neighbor_aggregate b = md_neighbor_aggregate md" "md_gradients b = md_gradients md"
    using assms(1) a by (auto simp: b_def app_respects_def md_ok_def)
  have "m = md \<or> m = (update_task b (unat i) (finish_task (stop - start) now))\<lparr>md_active_task := 0xFF\<rparr>"
    by (auto simp: m_def run_task_def Let_def a_def b_def)
  then show "md_ok c me m" "md_state m = md_state md" "md_topology m = md_topology md"
    "md_neighbor_aggregate m = md_neighbor_aggregate md" "md_gradients m = md_gradients md"
    using assms(2) b md_ok_frame [OF md_ok_update_task [OF b(1), of "finish_task (stop - start) now" "unat i"], of m]
    by (auto intro: md_ok_frame)
qed

lemma field_inv_publish:
  assumes "field_inv fs"
  shows "field_inv (snd (ekk_field_publish fs k f t))"
  using assms publish_effect(2) [of fs k f t]
  by (cases "fs_region fs"; cases "k = EKK_INVALID_MODULE_ID") (auto simp: ekk_field_publish_def)

lemma tick_publish_ok:
  fixes now t
  assumes "md_ok c me (sy_mod s)" "field_inv (sy_field s)"
  defines "s' \<equiv> tick_publish now t s"
  shows "md_ok c me (sy_mod s')" "field_inv (sy_field s')" "sy_heartbeat s' = sy_heartbeat s"
    "md_state (sy_mod s') = md_state (sy_mod s)" "md_topology (sy_mod s') = md_topology (sy_mod s)"
    "md_neighbor_aggregate (sy_mod s') = md_neighbor_aggregate (sy_mod s)" "md_gradients (sy_mod s') = md_gradients (sy_mod s)"
  using assms field_inv_publish
  by (auto simp: s'_def tick_publish_def Let_def split_beta intro: md_ok_frame)

lemma update_state_sel:
  "md_state (fst (update_module_state md)) =
     next_module_state (md_state md) (tp_neighbor_count (md_topology md)) (unat (tc_min_neighbors (tp_config (md_topology md))))"
  "md_topology (fst (update_module_state md)) = md_topology md" "md_consensus (fst (update_module_state md)) = md_consensus md"
  "md_tasks (fst (update_module_state md)) = md_tasks md" "md_task_count (fst (update_module_state md)) = md_task_count md"
  "md_neighbor_aggregate (fst (update_module_state md)) = md_neighbor_aggregate md"
  "md_gradients (fst (update_module_state md)) = md_gradients md"
  by (simp_all add: update_module_state_def Let_def)

abbreviation running :: "module_sys \<Rightarrow> bool" where
  "running sys \<equiv> md_state (sy_mod sys) \<noteq> EKK_MODULE_INIT \<and> md_state (sy_mod sys) \<noteq> EKK_MODULE_SHUTDOWN"

abbreviation counted :: "module_sys \<Rightarrow> module_sys" where
  "counted sys \<equiv> sys\<lparr>sy_mod := (sy_mod sys)\<lparr>md_ticks_total := md_ticks_total (sy_mod sys) + 1\<rparr>\<rparr>"

text \<open>One tick of a running module, phase by phase.\<close>

lemma tick_ok:
  assumes app: "app_respects app" and ok: "sys_ok c me sys" and run: "running sys"
  shows "\<exists>sys' outs. ekk_module_tick app sys ti now = Some (EKK_OK, sys', outs) \<and> sys_ok c me sys'
    \<and> md_neighbor_aggregate (sy_mod sys') = ekk_field_clear
    \<and> md_gradients (sy_mod sys') = ekk_field_gradient_all (md_my_field (sy_mod sys)) ekk_field_clear
    \<and> md_state (sy_mod sys') = next_module_state (md_state (sy_mod sys)) (tp_neighbor_count (md_topology (sy_mod sys')))
         (unat (tc_min_neighbors (tp_config (md_topology (sy_mod sys')))))
    \<and> (let heard = fst (process_rx_messages app now (ti_rx_time ti) (ti_rx ti) (counted sys));
            s = fst (tick_heartbeat app ti now heard)
         in md_topology (sy_mod sys') = fst (snd (ekk_topology_tick (md_topology (sy_mod s)) now))
            \<and> set (snd (tick_heartbeat app ti now heard)) \<subseteq> set outs)"
proof -
  define s0 where "s0 = sys\<lparr>sy_mod := (sy_mod sys)\<lparr>md_ticks_total := md_ticks_total (sy_mod sys) + 1\<rparr>\<rparr>"
  have "comm_ok c me s0 s0"
    using ok by (auto simp: comm_ok_def s0_def sys_ok_def intro: md_ok_frame)
  define s1 where "s1 = fst (process_rx_messages app now (ti_rx_time ti) (ti_rx ti) s0)"
  have s1: "comm_ok c me s0 s1" unfolding s1_def by (rule rx_messages_ok) fact
  have keep1: "keeps (sy_mod sys) (sy_mod s1)" and f1: "field_inv (sy_field s1)"
    using s1 same_but_keeps [of "sy_mod s0" "sy_mod s1"] ok by (auto simp: comm_ok_def keeps_def s0_def sys_ok_def)
  have ok1: "md_ok c me (sy_mod s1)" "hb_inv (sy_heartbeat s1)" using s1 by (simp_all add: comm_ok_def)
  define s2 where "s2 = fst (tick_heartbeat app ti now s1)"
  note s2 = tick_heartbeat_ok [OF ok1, of app ti now, folded s2_def]
  define m3 where "m3 = fst (tick_topology now (sy_mod s2))"
  note m3 = tick_topology_ok [OF s2(1), of now, folded m3_def]
  from tick_fields_ok [OF m3(1), of "sy_field s2" "ti_field_time ti"] obtain m4 where
    m4: "tick_fields (sy_field s2) (ti_field_time ti) m3 = Some m4" "md_ok c me m4" "keeps m3 m4"
    "md_topology m4 = md_topology m3"
    "md_neighbor_aggregate m4 = ekk_field_clear" "md_gradients m4 = ekk_field_gradient_all (md_my_field m3) ekk_field_clear"
    by blast
  define m5 where "m5 = fst (tick_consensus now m4)"
  note m5 = tick_consensus_ok [OF m4(2), of now, folded m5_def]
  define m6 where "m6 = fst (tick_task app ti now m5)"
  have "m6 = m5 \<or> m6 = fst (run_task app m5 (ekk_module_select_task m5 (ti_select_time ti)) now (ti_task_start ti) (ti_task_end ti))"
    by (simp add: m6_def tick_task_def Let_def)
  then have m6: "md_ok c me m6" "md_state m6 = md_state m5" "md_neighbor_aggregate m6 = ekk_field_clear"
    "md_gradients m6 = ekk_field_gradient_all (md_my_field m3) ekk_field_clear" "md_topology m6 = md_topology m3"
    using m5 m4 run_task_ok [OF app m5(1)] by auto
  define s7 where "s7 = tick_publish now (ti_task_end ti) (s2\<lparr>sy_mod := m6\<rparr>)"
  have s7: "md_ok c me (sy_mod s7)" "field_inv (sy_field s7)" "sy_heartbeat s7 = sy_heartbeat s2" "md_state (sy_mod s7) = md_state m6"
    "md_neighbor_aggregate (sy_mod s7) = ekk_field_clear"
    "md_gradients (sy_mod s7) = ekk_field_gradient_all (md_my_field m3) ekk_field_clear"
    "md_topology (sy_mod s7) = md_topology m6"
    using tick_publish_ok [of c me "s2\<lparr>sy_mod := m6\<rparr>" now "ti_task_end ti", folded s7_def] m6 s2(3) f1 by simp_all
  define sys' where "sys' = s7\<lparr>sy_mod := (fst (update_module_state (sy_mod s7)))\<lparr>md_last_tick := now\<rparr>\<rparr>"
  obtain outs where tick: "ekk_module_tick app sys ti now = Some (EKK_OK, sys', outs)"
    and outs: "set (snd (tick_heartbeat app ti now s1)) \<subseteq> set outs"
    using run m4(1)
    by (simp add: ekk_module_tick_def split_beta Let_def s0_def [symmetric] s1_def [symmetric] s2_def [symmetric]
        m3_def [symmetric] m5_def [symmetric] m6_def [symmetric] s7_def [symmetric] sys'_def [symmetric]) blast
  have "sys_ok c me sys'"
    using s7 s2(2) by (auto simp: sys'_def sys_ok_def update_state_sel intro: md_ok_frame)
  moreover have "md_my_field m3 = md_my_field (sy_mod sys)" "md_state (sy_mod s7) = md_state (sy_mod sys)"
    using keep1 s2(4) m3(2) m4(3) m5(2) m6(2) s7(4) by (simp_all add: keeps_def)
  moreover have "md_topology (sy_mod sys') = md_topology m3"
    using s7(7) m6(5) by (simp add: sys'_def update_state_sel)
  moreover have "md_topology m3 = fst (snd (ekk_topology_tick (md_topology (sy_mod s2)) now))"
    by (simp add: m3_def tick_topology_def split_beta Let_def)
  ultimately show ?thesis using s7(5,6) tick outs
    by (intro exI [of _ sys'] exI [of _ outs])
      (auto simp: sys'_def update_state_sel s2_def s1_def [symmetric] s0_def [symmetric] Let_def)
qed

lemma length_neighbor_ids: "topo_inv topo \<Longrightarrow> length (neighbor_ids topo) = tp_neighbor_count topo"
  by (auto simp: topo_inv_def known_ok_def neighbor_ids_def live_neighbors_def)

lemma tick_idle:
  "\<not> running sys \<Longrightarrow> ekk_module_tick app sys ti now = Some (EKK_OK, sys, [])"
  by (auto simp: ekk_module_tick_def)

section \<open>Properties\<close>

text \<open>
  C38. The state the code computes at every tick is a function of the state before and of the number
  of neighbors, whatever the messages: a module that has been ACTIVE once is ACTIVE with at least
  \<open>min_neighbors\<close> neighbors, ISOLATED with none and DEGRADED in between; DISCOVERING is left only
  for ACTIVE, when the minimum is reached; a module not started or stopped does not react. This is
  not the state machine of the document \<open>spec/state-machines.md\<close>: no tick ends in REFORMING, the
  state the document has for an isolated module that discovers a neighbor, and a module that is
  DISCOVERING and finds nobody is never ISOLATED, the end the document has for its timeout.
\<close>

theorem module_state_follows_neighbors:
  assumes "app_respects app" "sys_ok c me sys"
    and tick: "ekk_module_tick app sys ti now = Some (err, sys', outs)"
    and "n = length (neighbor_ids (md_topology (sy_mod sys')))"
    and "least = unat (tc_min_neighbors (tp_config (md_topology (sy_mod sys'))))" "0 < least"
  shows "err = EKK_OK \<and> sys_ok c me sys' \<and> md_state (sy_mod sys') \<noteq> EKK_MODULE_REFORMING
    \<and> (md_state (sy_mod sys) = EKK_MODULE_DISCOVERING \<longrightarrow> md_state (sy_mod sys') \<noteq> EKK_MODULE_ISOLATED)
    \<and> md_state (sy_mod sys') =
    (case md_state (sy_mod sys) of
       EKK_MODULE_INIT \<Rightarrow> EKK_MODULE_INIT
     | EKK_MODULE_SHUTDOWN \<Rightarrow> EKK_MODULE_SHUTDOWN
     | EKK_MODULE_DISCOVERING \<Rightarrow> if least \<le> n then EKK_MODULE_ACTIVE else EKK_MODULE_DISCOVERING
     | _ \<Rightarrow> if least \<le> n then EKK_MODULE_ACTIVE else if n = 0 then EKK_MODULE_ISOLATED else EKK_MODULE_DEGRADED)"
proof (cases "running sys")
  case False
  with tick_idle [OF False, of app ti now] assms(2) tick show ?thesis by auto
next
  case True
  from tick_ok [OF assms(1,2) True, of ti now] tick
  have new: "err = EKK_OK" "sys_ok c me sys'" "md_state (sy_mod sys') = next_module_state (md_state (sy_mod sys))
      (tp_neighbor_count (md_topology (sy_mod sys'))) least"
    by (auto simp: assms(5))
  then have "n = tp_neighbor_count (md_topology (sy_mod sys'))"
    by (simp add: assms(4) sys_ok_def md_ok_def length_neighbor_ids)
  with new assms(6) show ?thesis
    by (cases "md_state (sy_mod sys)") (auto simp: next_module_state_def)
qed

text \<open>A run of ticks with their inputs; \<open>None\<close> if one of them divides by zero.\<close>

fun module_run :: "module_app \<Rightarrow> module_sys \<Rightarrow> (tick_input \<times> u64) list \<Rightarrow> module_sys option" where
  "module_run app sys [] = Some sys"
| "module_run app sys ((ti, now) # inputs) =
     (case ekk_module_tick app sys ti now of
        None \<Rightarrow> None
      | Some (_, sys, _) \<Rightarrow> module_run app sys inputs)"

text \<open>Initialising and starting a module.\<close>

definition module_boot :: "module_sys \<Rightarrow> u8 \<Rightarrow> ekk_position \<Rightarrow> u64 \<Rightarrow> module_sys" where
  "module_boot sys k pos t =
     (let sys = snd (ekk_module_init sys k pos) in sys\<lparr>sy_mod := snd (ekk_module_start (sy_mod sys) t)\<rparr>)"

lemma boot_ok:
  assumes "me \<noteq> EKK_INVALID_MODULE_ID" "length (tp_known (md_topology (sy_mod sys))) = EKK_MAX_MODULES" "field_inv (sy_field sys)"
  shows "sys_ok topology_default_config me (module_boot sys me pos t)" "md_state (sy_mod (module_boot sys me pos t)) = EKK_MODULE_DISCOVERING"
    "md_neighbor_aggregate (sy_mod (module_boot sys me pos t)) = ekk_field_clear"
proof -
  obtain r topo where topo: "ekk_topology_init (md_topology (sy_mod sys)) me pos None = (r, topo)" by fastforce
  have "topo_inv topo"
    using topo_inv_init [of me "md_topology (sy_mod sys)" 7 None undefined pos] assms(1,2) topo by simp
  moreover have "tp_config topo = topology_default_config" "tp_my_id topo = me" "unheard topo"
    using topo assms(1) by (auto simp: ekk_topology_init_def unheard_def blank_neighbor_def)
  moreover obtain q cons where cons: "ekk_consensus_init (md_consensus (sy_mod sys)) me None = (q, cons)" by fastforce
  moreover have "consensus_inv cons" using consensus_inv_init [of me "md_consensus (sy_mod sys)" None] assms(1) cons by simp
  moreover obtain p hb where hb: "ekk_heartbeat_init (sy_heartbeat sys) me None = (p, hb)" by fastforce
  moreover have "hb_inv (ekk_heartbeat_set_callbacks hb True True True)"
    using hb assms(1) by (auto simp: ekk_heartbeat_init_def ekk_heartbeat_set_callbacks_def hb_inv_def hb_keys_def hb_live_def)
  ultimately show "sys_ok topology_default_config me (module_boot sys me pos t)" "md_state (sy_mod (module_boot sys me pos t)) = EKK_MODULE_DISCOVERING"
    "md_neighbor_aggregate (sy_mod (module_boot sys me pos t)) = ekk_field_clear"
    using assms(1,3)
    by (simp_all add: module_boot_def ekk_module_init_def ekk_module_start_def topo sys_ok_def md_ok_def tasks_ok_def)
qed

lemma next_state_running:
  "s \<noteq> EKK_MODULE_INIT \<Longrightarrow> s \<noteq> EKK_MODULE_SHUTDOWN \<Longrightarrow>
   next_module_state s n m \<noteq> EKK_MODULE_INIT \<and> next_module_state s n m \<noteq> EKK_MODULE_SHUTDOWN"
  by (cases s) (auto simp: next_module_state_def)

lemma run_ok:
  assumes "app_respects app" "sys_ok c me sys" "running sys" "md_neighbor_aggregate (sy_mod sys) = ekk_field_clear"
  shows "\<exists>sys'. module_run app sys inputs = Some sys' \<and> sys_ok c me sys' \<and> running sys'
    \<and> md_neighbor_aggregate (sy_mod sys') = ekk_field_clear"
  using assms(2-)
proof (induction inputs arbitrary: sys)
  case (Cons i inputs)
  obtain ti now where i: "i = (ti, now)" by fastforce
  from tick_ok [OF assms(1) Cons.prems(1,2), of ti now] obtain sys1 outs where
    t: "ekk_module_tick app sys ti now = Some (EKK_OK, sys1, outs)" "sys_ok c me sys1"
    "md_neighbor_aggregate (sy_mod sys1) = ekk_field_clear"
    "md_state (sy_mod sys1) = next_module_state (md_state (sy_mod sys)) (tp_neighbor_count (md_topology (sy_mod sys1)))
         (unat (tc_min_neighbors (tp_config (md_topology (sy_mod sys1)))))" by blast
  with Cons.prems(2) next_state_running have "running sys1" by metis
  from Cons.IH [OF t(2) this t(3)] show ?case by (simp add: i t(1))
qed simp

text \<open>
  C10. From boot on, whatever messages arrive and whatever the clock shows, every tick succeeds and
  keeps the invariants of the components: the tracked ids of the heartbeat engine are distinct,
  the neighbors are distinct known modules, as many as there can be, and the ballots are well
  formed. But no heartbeat ever reaches the neighbor array, so no neighbor is ever sampled: the
  aggregate stays the empty field and the gradients are the negated own field, whatever the
  neighbors publish.
\<close>

theorem module_run_blind:
  assumes "app_respects app" "me \<noteq> EKK_INVALID_MODULE_ID"
    and "length (tp_known (md_topology (sy_mod sys0))) = EKK_MAX_MODULES" "field_inv (sy_field sys0)"
    and sys: "sys = module_boot sys0 me pos t"
  shows "\<exists>sys1. module_run app sys inputs = Some sys1
    \<and> hb_inv (sy_heartbeat sys1) \<and> consensus_inv (md_consensus (sy_mod sys1)) \<and> tasks_ok (sy_mod sys1)
    \<and> distinct (neighbor_ids (md_topology (sy_mod sys1)))
    \<and> length (neighbor_ids (md_topology (sy_mod sys1))) = min 7 (card (set (known_ids (md_topology (sy_mod sys1)))))
    \<and> set (neighbor_ids (md_topology (sy_mod sys1))) \<subseteq> set (known_ids (md_topology (sy_mod sys1)))
    \<and> md_neighbor_aggregate (sy_mod sys1) = ekk_field_clear
    \<and> (\<exists>sys2 outs. ekk_module_tick app sys1 ti now = Some (EKK_OK, sys2, outs)
         \<and> (\<forall>c < EKK_FIELD_COUNT. ekk_module_get_gradient (sy_mod sys2) c = to_i32 (- fl_components (md_my_field (sy_mod sys1)) ! c)))"
proof -
  note boot = boot_ok [OF assms(2-4), of pos t, folded sys]
  from run_ok [OF assms(1) boot(1) _ boot(3), of inputs] boot(2) obtain sys1 where
    run: "module_run app sys inputs = Some sys1" "sys_ok topology_default_config me sys1" "running sys1"
    "md_neighbor_aggregate (sy_mod sys1) = ekk_field_clear" by auto
  from tick_ok [OF assms(1) run(2,3), of ti now] obtain sys2 outs where
    tick: "ekk_module_tick app sys1 ti now = Some (EKK_OK, sys2, outs)"
    "md_gradients (sy_mod sys2) = ekk_field_gradient_all (md_my_field (sy_mod sys1)) ekk_field_clear" by blast
  let ?t = "md_topology (sy_mod sys1)"
  from run(2) have topo: "topo_inv ?t" "topo_k ?t = 7"
    by (simp_all add: sys_ok_def md_ok_def topo_k_def topology_default_config_def)
  have "length (known_ids ?t) = tp_known_count ?t" "distinct (known_ids ?t)"
    using topo(1) by (auto simp: topo_inv_def known_ok_def known_ids_def live_known_def)
  then have "card (set (known_ids ?t)) = tp_known_count ?t" by (simp add: distinct_card)
  then have "length (neighbor_ids ?t) = min 7 (card (set (known_ids ?t)))"
    using topo length_neighbor_ids [of ?t] by (simp add: topo_inv_def min.commute)
  moreover have "ekk_module_get_gradient (sy_mod sys2) c = to_i32 (- fl_components (md_my_field (sy_mod sys1)) ! c)"
    if "c < EKK_FIELD_COUNT" for c
    using that by (simp add: ekk_module_get_gradient_def tick(2) ekk_field_gradient_all_def ekk_field_clear_def)
  ultimately show ?thesis
    using run topo(1) tick(1) by (auto simp: sys_ok_def md_ok_def topo_inv_def)
qed

section \<open>From missing heartbeats to the topology\<close>

text \<open>What a change of health means to the topology, as an event; a suspect neighbor means nothing.\<close>

definition call_event :: "u64 \<Rightarrow> hb_callback \<Rightarrow> topology_event list" where
  "call_event t c =
     (case c of
        NeighborAlive k \<Rightarrow> [TpDiscovery k position_unknown t]
      | NeighborSuspect k \<Rightarrow> []
      | NeighborDead k \<Rightarrow> [TpLost k t])"

text \<open>The event of a neighbor whose health, judged by the heartbeats missed, is not what it was.\<close>

definition health_event :: "ekk_heartbeat \<Rightarrow> u64 \<Rightarrow> u64 \<Rightarrow> ekk_heartbeat_neighbor \<Rightarrow> topology_event list" where
  "health_event hb now t n =
     (let health = classify_health (hc_timeout_count (hb_config hb))
            (max (unat (hn_missed_count n)) (min (beats_missed hb now n) 255))
      in if hn_health n = EKK_HEALTH_UNKNOWN \<or> hn_health n = health then []
         else if health = EKK_HEALTH_ALIVE then [TpDiscovery (hn_id n) position_unknown t]
         else if health = EKK_HEALTH_DEAD then [TpLost (hn_id n) t] else [])"

lemma check_calls:
  assumes "beats_missed hb now n < 2 ^ 32" "hb_on_neighbor_alive hb" "hb_on_neighbor_dead hb"
  shows "concat (map (call_event t) (concat (snd (hb_check_neighbor hb now n)))) = health_event hb now t n"
proof (cases "hn_health n = EKK_HEALTH_UNKNOWN")
  case True
  then show ?thesis by (simp add: hb_check_neighbor_def health_event_def Let_def)
next
  case False
  let ?h = "classify_health (hc_timeout_count (hb_config hb)) (max (unat (hn_missed_count n)) (min (beats_missed hb now n) 255))"
  have h: "hn_health (fst (hb_check_neighbor hb now n)) = ?h" by (rule hb_check_classifies(2) [OF False assms(1)])
  show ?thesis
  proof (cases "?h = hn_health n")
    case True
    with h have "snd (hb_check_neighbor hb now n) = []" by (intro hb_check_quiet) simp
    with True show ?thesis by (simp add: health_event_def)
  next
    case changed: False
    have "concat (snd (hb_check_neighbor hb now n)) = (case ?h of
        EKK_HEALTH_ALIVE \<Rightarrow> [NeighborAlive (hn_id n)]
      | EKK_HEALTH_SUSPECT \<Rightarrow> if hb_on_neighbor_suspect hb then [NeighborSuspect (hn_id n)] else []
      | EKK_HEALTH_DEAD \<Rightarrow> [NeighborDead (hn_id n)]
      | _ \<Rightarrow> [])"
      unfolding h [symmetric] using False changed h assms(2,3)
      by (auto simp: hb_check_neighbor_def set_neighbor_health_def Let_def split: if_splits)
    then show ?thesis
      using False changed by (auto simp: health_event_def call_event_def classify_health_def)
  qed
qed

lemma callbacks_events:
  "md_topology (fst (heartbeat_callbacks app t calls md)) =
     foldl (topology_step (ap_distance app)) (md_topology md) (concat (map (call_event t) calls))"
  "md_on_neighbor_lost md \<Longrightarrow> NeighborDead k \<in> set calls \<Longrightarrow> MoNeighborLost k \<in> set (snd (heartbeat_callbacks app t calls md))"
proof -
  let ?step = "\<lambda>c (md, outs). case heartbeat_callback app t c md of (md, new) \<Rightarrow> (md, outs @ new)"
  have one: "md_topology (fst (heartbeat_callback app t c m)) =
      foldl (topology_step (ap_distance app)) (md_topology m) (call_event t c)"
    "md_on_neighbor_lost (fst (heartbeat_callback app t c m)) = md_on_neighbor_lost m" for c m
    by (cases c; simp add: on_neighbor_alive_cb_def on_neighbor_dead_cb_def call_event_def case_prod_beta Let_def)+
  have told: "MoNeighborLost k \<in> set (snd (heartbeat_callback app t (NeighborDead k) m))" if "md_on_neighbor_lost m" for m
    using that by (simp add: on_neighbor_dead_cb_def case_prod_beta Let_def)
  have "md_topology (fst (fold ?step calls (m, outs))) =
      foldl (topology_step (ap_distance app)) (md_topology m) (concat (map (call_event t) calls))" for m outs
    by (induction calls arbitrary: m outs) (simp_all add: case_prod_beta one(1))
  then show "md_topology (fst (heartbeat_callbacks app t calls md)) =
     foldl (topology_step (ap_distance app)) (md_topology md) (concat (map (call_event t) calls))"
    by (simp add: heartbeat_callbacks_def)
  have kept: "set outs \<subseteq> set (snd (fold ?step cs (m, outs)))" for cs m outs
  proof (induction cs arbitrary: m outs)
    case (Cons c cs)
    show ?case
      using Cons.IH [of "outs @ snd (heartbeat_callback app t c m)" "fst (heartbeat_callback app t c m)"]
      by (simp add: case_prod_beta)
  qed simp
  have "md_on_neighbor_lost m \<Longrightarrow> NeighborDead k \<in> set calls \<Longrightarrow> MoNeighborLost k \<in> set (snd (fold ?step calls (m, outs)))" for m outs
  proof (induction calls arbitrary: m outs)
    case (Cons c cs)
    let ?m = "fst (heartbeat_callback app t c m)" and ?o = "outs @ snd (heartbeat_callback app t c m)"
    have rest: "fold ?step (c # cs) (m, outs) = fold ?step cs (?m, ?o)" by (simp add: case_prod_beta)
    show ?case
    proof (cases "c = NeighborDead k")
      case True
      then have "MoNeighborLost k \<in> set ?o" using told [OF Cons.prems(1)] by simp
      then show ?thesis unfolding rest using kept by blast
    next
      case False
      then show ?thesis unfolding rest using Cons by (simp add: one(2))
    qed
  qed simp
  then show "md_on_neighbor_lost md \<Longrightarrow> NeighborDead k \<in> set calls \<Longrightarrow> MoNeighborLost k \<in> set (snd (heartbeat_callbacks app t calls md))"
    by (simp add: heartbeat_callbacks_def)
qed

text \<open>The heartbeat phase of the tick, over the neighbors as they are after the messages.\<close>

lemma tick_heartbeat_events:
  assumes "hb_inv (sy_heartbeat s)" "hb_on_neighbor_alive (sy_heartbeat s)" "hb_on_neighbor_dead (sy_heartbeat s)"
    and "\<forall>n \<in> set (hb_live (sy_heartbeat s)). beats_missed (sy_heartbeat s) now n < 2 ^ 32"
    and "events = concat (map (health_event (sy_heartbeat s) now (ti_rx_time ti)) (hb_live (sy_heartbeat s)))"
  shows "md_topology (sy_mod (fst (tick_heartbeat app ti now s))) = foldl (topology_step (ap_distance app)) (md_topology (sy_mod s)) events"
    "md_on_neighbor_lost (sy_mod s) \<Longrightarrow> TpLost k (ti_rx_time ti) \<in> set events \<Longrightarrow> MoNeighborLost k \<in> set (snd (tick_heartbeat app ti now s))"
proof -
  let ?hb = "sy_heartbeat s" and ?t = "ti_rx_time ti"
  let ?calls = "fst (snd (snd (ekk_heartbeat_tick ?hb now (ti_sent ti) ?t)))"
  have events: "concat (map (call_event ?t) ?calls) = events"
  proof -
    have "concat (map (call_event ?t) (concat (concat (map (snd \<circ> hb_check_neighbor ?hb now) ns)))) =
        concat (map (health_event ?hb now ?t) ns)" if "set ns \<subseteq> set (hb_live ?hb)" for ns
      using that by (induction ns) (use assms(4) check_calls [OF _ assms(2,3), of now _ ?t] in auto)
    from this [of "hb_live ?hb"] show ?thesis by (simp add: hb_tick_live(5) [OF assms(1)] assms(5))
  qed
  show "md_topology (sy_mod (fst (tick_heartbeat app ti now s))) = foldl (topology_step (ap_distance app)) (md_topology (sy_mod s)) events"
    by (simp add: tick_heartbeat_def case_prod_beta Let_def callbacks_events(1) events)
  assume "md_on_neighbor_lost (sy_mod s)" "TpLost k ?t \<in> set events"
  moreover from this(2) have "NeighborDead k \<in> set ?calls"
  proof -
    from \<open>TpLost k ?t \<in> set events\<close> obtain x where "x \<in> set ?calls" "TpLost k ?t \<in> set (call_event ?t x)"
      unfolding events [symmetric] by auto
    moreover from this(2) have "x = NeighborDead k" by (cases x) (simp_all add: call_event_def)
    ultimately show ?thesis by simp
  qed
  ultimately show "MoNeighborLost k \<in> set (snd (tick_heartbeat app ti now s))"
    by (simp add: tick_heartbeat_def case_prod_beta Let_def callbacks_events(2))
qed

text \<open>
  C35. From the missing heartbeats to the topology. A tick first takes the messages waiting, whatever they
  are; then, with every neighbor of the heartbeat table judged by the heartbeats it has missed by
  now, the neighbors whose health changed reach the topology in order: one that turned DEAD is reported lost,
  one that turned ALIVE is discovered, and nothing else in the tick changes the known
  modules or the neighbors. Every neighbor heard before and silent for the timeout is among the lost,
  messages or not, and each of the lost is told to the application. When one neighbor alone changes its health and
  is lost, it is forgotten and its place is filled if it can be; but a silent module that is known
  without being a neighbor stays known, and may be elected later. The callbacks for ALIVE and DEAD are
  set, as the initialisation of a module sets them, and no silence is longer than 2^32 periods.
\<close>

theorem module_drops_silent_neighbor:
  assumes "app_respects app" "sys_ok c me sys" "running sys"
    and tick: "ekk_module_tick app sys ti now = Some (err, sys', outs)"
    and heard: "heard = fst (process_rx_messages app now (ti_rx_time ti) (ti_rx ti) (counted sys))"
    and hb: "hb = sy_heartbeat heard" "hb_on_neighbor_alive hb" "hb_on_neighbor_dead hb"
      "\<forall>n \<in> set (hb_live hb). beats_missed hb now n < 2 ^ 32"
    and events: "events = concat (map (health_event hb now (ti_rx_time ti)) (hb_live hb))"
    and topo: "topo = foldl (topology_step (ap_distance app)) (md_topology (sy_mod heard)) events"
  shows "neighbor_ids (md_topology (sy_mod sys')) = neighbor_ids topo \<and> known_ids (md_topology (sy_mod sys')) = known_ids topo
    \<and> (\<forall>n \<in> set (hb_live hb). hn_health n \<notin> {EKK_HEALTH_UNKNOWN, EKK_HEALTH_DEAD} \<and> 0 < unat (hc_timeout_count (hb_config hb))
         \<and> unat (hc_timeout_count (hb_config hb)) \<le> min 255 (beats_missed hb now n) \<longrightarrow>
         TpLost (hn_id n) (ti_rx_time ti) \<in> set events)
    \<and> (md_on_neighbor_lost (sy_mod sys) \<longrightarrow> (\<forall>k. TpLost k (ti_rx_time ti) \<in> set events \<longrightarrow> MoNeighborLost k \<in> set outs))
    \<and> (\<forall>k. events = [TpLost k (ti_rx_time ti)] \<longrightarrow>
        (if k \<in> set (neighbor_ids (md_topology (sy_mod heard)))
         then k \<notin> set (neighbor_ids (md_topology (sy_mod sys')))
           \<and> known_ids (md_topology (sy_mod sys')) = remove1 k (known_ids (md_topology (sy_mod heard)))
           \<and> length (neighbor_ids (md_topology (sy_mod sys'))) =
               min (unat (tc_k_neighbors c)) (length (known_ids (md_topology (sy_mod heard))) - 1)
         else known_ids (md_topology (sy_mod sys')) = known_ids (md_topology (sy_mod heard))))"
proof (intro conjI impI allI)
  let ?topo0 = "md_topology (sy_mod heard)" and ?now = "ti_rx_time ti"
  have "comm_ok c me (counted sys) (counted sys)"
    using assms(2) by (auto simp: comm_ok_def sys_ok_def intro: md_ok_frame)
  then have ok: "comm_ok c me (counted sys) heard" unfolding heard by (rule rx_messages_ok)
  then have hbi: "hb_inv hb" and inv: "topo_inv ?topo0" "tp_config ?topo0 = c"
    and told: "md_on_neighbor_lost (sy_mod heard) = md_on_neighbor_lost (sy_mod sys)"
    by (auto simp: comm_ok_def md_ok_def hb(1) same_but_def)
  note phase = tick_heartbeat_events [of heard now events ti, folded hb(1), OF hbi hb(2-4) events]
  from tick_ok [OF assms(1-3), of ti now] tick
  have final: "md_topology (sy_mod sys') = fst (snd (ekk_topology_tick topo now))" "sys_ok c me sys'"
    "set (snd (tick_heartbeat app ti now heard)) \<subseteq> set outs"
    by (auto simp: Let_def heard [symmetric] phase(1) topo)
  obtain q t2 msgs where tt: "ekk_topology_tick topo now = (q, t2, msgs)" using prod_cases3 by blast
  show ids: "neighbor_ids (md_topology (sy_mod sys')) = neighbor_ids topo" "known_ids (md_topology (sy_mod sys')) = known_ids topo"
    using final(1) tt topology_tick_frame [OF tt] by (simp_all add: known_ids_def neighbor_ids_def live_neighbors_def)
  show "\<forall>n \<in> set (hb_live hb). hn_health n \<notin> {EKK_HEALTH_UNKNOWN, EKK_HEALTH_DEAD} \<and> 0 < unat (hc_timeout_count (hb_config hb))
         \<and> unat (hc_timeout_count (hb_config hb)) \<le> min 255 (beats_missed hb now n) \<longrightarrow> TpLost (hn_id n) ?now \<in> set events"
    by (auto simp: events health_event_def classify_health_def Let_def intro!: bexI)
  show "MoNeighborLost k \<in> set outs" if "md_on_neighbor_lost (sy_mod sys)" "TpLost k ?now \<in> set events" for k
    using phase(2) that told final(3) by auto
  fix k assume one: "events = [TpLost k ?now]"
  obtain r t1 touts where lost: "ekk_topology_on_neighbor_lost (ap_distance app) ?topo0 k ?now = (r, t1, touts)"
    using prod_cases3 by blast
  note l = topo_inv_lost [OF inv(1) lost]
  have t1: "topo = t1" by (simp add: topo one lost)
  show "if k \<in> set (neighbor_ids ?topo0)
      then k \<notin> set (neighbor_ids (md_topology (sy_mod sys')))
        \<and> known_ids (md_topology (sy_mod sys')) = remove1 k (known_ids ?topo0)
        \<and> length (neighbor_ids (md_topology (sy_mod sys'))) = min (unat (tc_k_neighbors c)) (length (known_ids ?topo0) - 1)
      else known_ids (md_topology (sy_mod sys')) = known_ids ?topo0"
  proof (cases "k \<in> set (neighbor_ids ?topo0)")
    case True
    with l(4,5) have known: "known_ids t1 = remove1 k (known_ids ?topo0)" by simp
    have dist: "distinct (known_ids ?topo0)" "k \<in> set (known_ids ?topo0)" using inv(1) True by (auto simp: topo_inv_def known_ok_def)
    have "length (neighbor_ids t1) = min (topo_k t1) (card (set (known_ids t1)))" by (rule neighbor_count_card [OF l(1)])
    moreover have "card (set (known_ids t1)) = length (known_ids ?topo0) - 1" using known dist by (simp add: distinct_card)
    moreover have "k \<notin> set (neighbor_ids t1)" using l(1) known dist by (auto simp: topo_inv_def)
    ultimately show ?thesis using True known l(2) inv(2) by (simp add: ids t1 topo_k_def)
  qed (use l(4,5) in \<open>simp add: ids t1\<close>)
qed

section \<open>A concrete module\<close>

text \<open>An application whose tasks report a load, and a tick with three discoveries waiting.\<close>

definition example_app :: module_app where
  "example_app = \<lparr>ap_distance = ekk_topology_distance_custom, ap_decide_vote = ekk_module_decide_vote,
     ap_run = (\<lambda>t md. fst (snd (ekk_module_update_field md 32768 0 0)))\<rparr>"

definition example_input :: tick_input where
  "example_input = \<lparr>ti_rx = [RxDiscovery 4 position_zero, RxDiscovery 9 position_zero, RxDiscovery 12 position_zero],
     ti_sent = EKK_OK, ti_rx_time = 1000, ti_field_time = 1000, ti_select_time = 1000, ti_task_start = 1000,
     ti_task_end = 1000\<rparr>"

lemma example_app_respects: "app_respects example_app"
  by (simp add: app_respects_def example_app_def ekk_module_update_field_def tasks_ok_def)

lemma blank_sys_ok:
  "length (tp_known (md_topology (sy_mod blank_sys))) = EKK_MAX_MODULES" "field_inv (sy_field blank_sys)"
  using field_example_ok(1) by (simp_all add: blank_sys_def topology_blank_def)

lemmas example_boot_ok = boot_ok [of 3, OF _ blank_sys_ok, simplified]

theorem module_state_follows_neighbors_witness:
  "\<exists>sys' outs. ekk_module_tick example_app (module_boot blank_sys 3 position_zero 0) example_input 1000 = Some (EKK_OK, sys', outs)
     \<and> md_state (sy_mod sys') =
        (if 3 \<le> length (neighbor_ids (md_topology (sy_mod sys'))) then EKK_MODULE_ACTIVE else EKK_MODULE_DISCOVERING)"
proof -
  let ?sys = "module_boot blank_sys 3 position_zero 0"
  have run: "running ?sys" by (simp add: example_boot_ok)
  from tick_ok [OF example_app_respects example_boot_ok(1) run, of example_input 1000] obtain sys' outs where
    t: "ekk_module_tick example_app ?sys example_input 1000 = Some (EKK_OK, sys', outs)"
      "sys_ok topology_default_config 3 sys'" by blast
  then have "unat (tc_min_neighbors (tp_config (md_topology (sy_mod sys')))) = 3"
    by (simp add: sys_ok_def md_ok_def topology_default_config_def)
  with module_state_follows_neighbors [OF example_app_respects example_boot_ok(1) t(1) refl refl] t(1)
  show ?thesis by (auto simp: example_boot_ok)
qed

theorem module_run_blind_witness:
  "\<exists>sys1. module_run example_app (module_boot blank_sys 3 position_zero 0) [(example_input, 1000)] = Some sys1
     \<and> md_neighbor_aggregate (sy_mod sys1) = ekk_field_clear"
  using module_run_blind [OF example_app_respects _ blank_sys_ok refl, of 3 position_zero 0 "[(example_input, 1000)]"]
  by (simp del: module_run.simps) blast

definition example_heard :: module_sys where
  "example_heard = (let sys = module_boot blank_sys 3 position_zero 0
     in sys\<lparr>sy_heartbeat := hb_example, sy_mod := (sy_mod sys)\<lparr>md_topology :=
          topology_step ekk_topology_distance_custom (md_topology (sy_mod sys)) (TpDiscovery 7 position_zero 5)\<rparr>\<rparr>)"

lemma example_heard_ok: "sys_ok topology_default_config 3 example_heard" "running example_heard"
  "sy_heartbeat example_heard = hb_example"
proof -
  have "md_ok topology_default_config 3 (sy_mod (module_boot blank_sys 3 position_zero 0))" "field_inv (sy_field (module_boot blank_sys 3 position_zero 0))"
    using example_boot_ok(1) by (simp_all add: sys_ok_def)
  then show "sys_ok topology_default_config 3 example_heard"
    using md_ok_topology_step [of _ _ _ ekk_topology_distance_custom "TpDiscovery 7 position_zero 5"] hb_example_inv
    by (simp add: example_heard_def Let_def sys_ok_def)
  show "running example_heard" "sy_heartbeat example_heard = hb_example"
    by (simp_all add: example_heard_def Let_def example_boot_ok)
qed

lemma example_heard_neighbors: "neighbor_ids (md_topology (sy_mod example_heard)) = [7]"
  by code_simp

text \<open>Module 9 sends a discovery just before module 7 is found silent.\<close>

lemma example_heard_events:
  "health_event hb_example 51000 1000 (hb_neighbors hb_example ! 0) = [TpLost 7 1000]"
  by (simp add: health_event_def classify_health_def beats_missed_def hb_example_sel)

definition example_after :: module_sys where
  "example_after = fst (process_rx_messages example_app 51000 1000 [RxDiscovery 9 position_zero] (counted example_heard))"

lemma example_after_sel:
  "hb_live (sy_heartbeat example_after) = [hb_neighbors hb_example ! 0, hb_blank_neighbor\<lparr>hn_id := 9\<rparr>]"
  "hb_config (sy_heartbeat example_after) = hb_config hb_example"
  "hb_on_neighbor_alive (sy_heartbeat example_after)" "hb_on_neighbor_dead (sy_heartbeat example_after)"
  "set (neighbor_ids (md_topology (sy_mod example_after))) = {7, 9}"
  by code_simp+

theorem module_drops_silent_neighbor_witness:
  "\<exists>sys' outs. ekk_module_tick example_app example_heard (example_input\<lparr>ti_rx := [RxDiscovery 9 position_zero]\<rparr>) 51000
       = Some (EKK_OK, sys', outs)
     \<and> 7 \<notin> set (neighbor_ids (md_topology (sy_mod sys')))"
proof -
  let ?ti = "example_input\<lparr>ti_rx := [RxDiscovery 9 position_zero]\<rparr>" and ?hb = "sy_heartbeat example_after"
  from tick_ok [OF example_app_respects example_heard_ok(1,2), of ?ti 51000] obtain sys' outs where
    t: "ekk_module_tick example_app example_heard ?ti 51000 = Some (EKK_OK, sys', outs)" by blast
  have after: "example_after = fst (process_rx_messages example_app 51000 (ti_rx_time ?ti) (ti_rx ?ti) (counted example_heard))"
    by (simp add: example_after_def example_input_def)
  have time: "ti_rx_time ?ti = 1000" by (simp add: example_input_def)
  have missed: "beats_missed ?hb 51000 = beats_missed hb_example 51000"
    by (simp add: beats_missed_def example_after_sel(2) fun_eq_iff)
  have small: "\<forall>n \<in> set (hb_live ?hb). beats_missed ?hb 51000 n < 2 ^ 32"
    by (simp add: missed example_after_sel(1)) (simp add: beats_missed_def hb_example_sel hb_blank_neighbor_def)
  have same: "health_event ?hb 51000 1000 = health_event hb_example 51000 1000"
    by (simp add: health_event_def missed example_after_sel(2) fun_eq_iff)
  have "concat (map (health_event ?hb 51000 (ti_rx_time ?ti)) (hb_live ?hb)) = [TpLost 7 (ti_rx_time ?ti)]"
    unfolding time same example_after_sel(1)
    by (simp add: example_heard_events) (simp add: health_event_def hb_blank_neighbor_def)
  then show ?thesis
    using module_drops_silent_neighbor [OF example_app_respects example_heard_ok(1,2) t after refl example_after_sel(3,4) small refl refl]
      t example_after_sel(5) by auto
qed

end
