(* ===== verification/Ekk_Gossip.thy ===== *)
theory Ekk_Gossip
  imports Ekk_Interfaces
begin

unbundle bit_operations_syntax

text \<open>
  The event gossip protocol (\<open>src/ekk_gossip.c\<close>, \<open>include/ekk/ekk_gossip.h\<close>): version vectors,
  last-writer-wins timestamps, neighbors, emission, forwarding with duplicate and gap detection,
  and replay on request. What the weak callbacks send, store and deliver are outputs, in order;
  loading a stored event is an argument. A received message is given decoded (\<open>gossip_wire\<close>),
  with one case for a message shorter than its packed structure and one for unknown types.
\<close>

section \<open>Version vectors\<close>

abbreviation (input) EKK_GOSSIP_MAX_HOPS :: u8 where "EKK_GOSSIP_MAX_HOPS \<equiv> 3"
abbreviation (input) EKK_GOSSIP_TICK_US :: u64 where "EKK_GOSSIP_TICK_US \<equiv> 10000"
abbreviation (input) EKK_GOSSIP_BATCH_SIZE :: nat where "EKK_GOSSIP_BATCH_SIZE \<equiv> 2"
abbreviation (input) EKK_GOSSIP_SYNC_INTERVAL_US :: u64 where "EKK_GOSSIP_SYNC_INTERVAL_US \<equiv> 10000000"
abbreviation (input) VV_ENTRIES :: nat where "VV_ENTRIES \<equiv> 8"

record ekk_version_vector =
  vv_entries :: "(u8 \<times> u32) list"
  vv_count :: nat

datatype ekk_vv_order = EKK_VV_EQUAL | EKK_VV_BEFORE | EKK_VV_AFTER | EKK_VV_CONCURRENT

definition ekk_vv_init :: ekk_version_vector where
  "ekk_vv_init = \<lparr>vv_entries = replicate VV_ENTRIES (0, 0), vv_count = 0\<rparr>"

definition ekk_vv_get :: "ekk_version_vector \<Rightarrow> u8 \<Rightarrow> u32" where
  "ekk_vv_get vv module_id =
     (case find_key fst module_id (vv_entries vv) (vv_count vv) of
        Some i \<Rightarrow> snd (vv_entries vv ! i)
      | None \<Rightarrow> 0)"

definition ekk_vv_set :: "ekk_version_vector \<Rightarrow> u8 \<Rightarrow> u32 \<Rightarrow> ekk_error \<times> ekk_version_vector" where
  "ekk_vv_set vv module_id seq =
     (case find_key fst module_id (vv_entries vv) (vv_count vv) of
        Some i \<Rightarrow> (EKK_OK, vv\<lparr>vv_entries := (vv_entries vv)[i := (fst (vv_entries vv ! i), seq)]\<rparr>)
      | None \<Rightarrow>
          if vv_count vv \<ge> VV_ENTRIES then (EKK_ERR_NO_MEMORY, vv)
          else (EKK_OK, vv\<lparr>vv_entries := (vv_entries vv)[vv_count vv := (module_id, seq)],
                 vv_count := Suc (vv_count vv)\<rparr>))"

definition ekk_vv_increment :: "ekk_version_vector \<Rightarrow> u8 \<Rightarrow> u32 \<times> ekk_version_vector" where
  "ekk_vv_increment vv module_id =
     (let next = ekk_vv_get vv module_id + 1 in (next, snd (ekk_vv_set vv module_id next)))"

definition ekk_vv_compare :: "ekk_version_vector \<Rightarrow> ekk_version_vector \<Rightarrow> ekk_vv_order" where
  "ekk_vv_compare a b =
     (let flags = fold (\<lambda>i (a_dom, b_dom).
            let a_seq = snd (vv_entries a ! i); b_seq = ekk_vv_get b (fst (vv_entries a ! i))
            in (if a_seq < b_seq then False else a_dom, if a_seq > b_seq then False else b_dom))
            [0..<vv_count a] (True, True);
          (a_dominates, b_dominates) = fold (\<lambda>i (a_dom, b_dom).
            let b_seq = snd (vv_entries b ! i); a_seq = ekk_vv_get a (fst (vv_entries b ! i))
            in (if a_seq < b_seq then False else a_dom, if a_seq > b_seq then False else b_dom))
            [0..<vv_count b] flags
      in if a_dominates \<and> b_dominates then EKK_VV_EQUAL
         else if a_dominates then EKK_VV_AFTER
         else if b_dominates then EKK_VV_BEFORE
         else EKK_VV_CONCURRENT)"

definition ekk_vv_merge :: "ekk_version_vector \<Rightarrow> ekk_version_vector \<Rightarrow> ekk_version_vector" where
  "ekk_vv_merge local_vv remote =
     fold (\<lambda>i vv. case vv_entries remote ! i of (k, remote_seq) \<Rightarrow>
        if remote_seq > ekk_vv_get vv k then snd (ekk_vv_set vv k remote_seq) else vv) [0..<vv_count remote] local_vv"

text \<open>A summary has one byte per neighbor, by its position in the neighbor array.\<close>

definition ekk_vv_to_summary :: "ekk_version_vector \<Rightarrow> u8 list \<Rightarrow> u8 list" where
  "ekk_vv_to_summary vv neighbor_ids =
     fold (\<lambda>i s. s[i := ucast (ekk_vv_get vv (neighbor_ids ! i))]) [0..<min (length neighbor_ids) EKK_K_NEIGHBORS]
       (replicate EKK_K_NEIGHBORS 0)"

definition ekk_vv_from_summary :: "ekk_version_vector \<Rightarrow> u8 list \<Rightarrow> u8 list \<Rightarrow> ekk_version_vector" where
  "ekk_vv_from_summary vv seqs neighbor_ids =
     fold (\<lambda>i vv. if seqs ! i > 0 then snd (ekk_vv_set vv (neighbor_ids ! i) (ucast (seqs ! i))) else vv)
       [0..<min (length neighbor_ids) EKK_K_NEIGHBORS] vv"

section \<open>Events and timestamps\<close>

record ekk_event_v2 =
  ev_sequence :: u32
  ev_timestamp_us :: u32
  ev_event_type :: u8
  ev_flags :: u8
  ev_origin_id :: u8
  ev_hop_count :: u8
  ev_origin_seq :: u32
  ev_payload :: "u8 list"

datatype ekk_lww_timestamp = LwwTimestamp (lww_timestamp_us: u32) (lww_origin_id: u8)

definition ekk_lww_is_newer :: "ekk_lww_timestamp \<Rightarrow> ekk_lww_timestamp \<Rightarrow> bool" where
  "ekk_lww_is_newer a b =
     (if lww_timestamp_us a \<noteq> lww_timestamp_us b then lww_timestamp_us a > lww_timestamp_us b
      else lww_origin_id a > lww_origin_id b)"

definition ekk_lww_from_event :: "ekk_event_v2 \<Rightarrow> ekk_lww_timestamp" where
  "ekk_lww_from_event event = LwwTimestamp (ev_timestamp_us event) (ev_origin_id event)"

section \<open>The gossip context\<close>

record ekk_gossip_stats =
  gt_events_sent :: u32
  gt_events_received :: u32
  gt_duplicates :: u32
  gt_gaps_detected :: u32
  gt_gaps_filled :: u32
  gt_ttl_expired :: u32

record ekk_neighbor_gossip =
  ng_id :: u8
  ng_last_seen_seq :: u32
  ng_cursor :: u32
  ng_last_sync :: u64

record ekk_gossip_ctx =
  gx_my_id :: u8
  gx_vv :: ekk_version_vector
  gx_local_sequence :: u32
  gx_neighbors :: "ekk_neighbor_gossip list"
  gx_neighbor_count :: nat
  gx_pending_events :: "ekk_event_v2 list"
  gx_pending_count :: nat
  gx_buffered_events :: "ekk_event_v2 list"
  gx_buffered_count :: nat
  gx_last_gossip_tick :: u64
  gx_last_sync :: u64
  gx_stats :: ekk_gossip_stats

record ekk_gossip_msg =
  gm_source_module :: u8
  gm_event_count :: u8
  gm_vv_summary :: "u8 list"
  gm_events :: "ekk_event_v2 list"

record ekk_gossip_request =
  gr_requester :: u8
  gr_target_origin :: u8
  gr_from_seq :: u32
  gr_to_seq :: u32

datatype gossip_wire = WireGossip ekk_gossip_msg | WireAck | WireRequest ekk_gossip_request | WireShort | WireUnknown

datatype gossip_output =
    GsSend u8 ekk_gossip_msg
  | GsRequest u8 ekk_gossip_request
  | GsStore ekk_event_v2
  | GsDeliver ekk_event_v2

definition blank_event :: ekk_event_v2 where
  "blank_event = \<lparr>ev_sequence = 0, ev_timestamp_us = 0, ev_event_type = 0, ev_flags = 0, ev_origin_id = 0,
     ev_hop_count = 0, ev_origin_seq = 0, ev_payload = replicate 20 0\<rparr>"

definition blank_stats :: ekk_gossip_stats where
  "blank_stats = \<lparr>gt_events_sent = 0, gt_events_received = 0, gt_duplicates = 0, gt_gaps_detected = 0,
     gt_gaps_filled = 0, gt_ttl_expired = 0\<rparr>"

definition blank_neighbor_gossip :: ekk_neighbor_gossip where
  "blank_neighbor_gossip = \<lparr>ng_id = 0, ng_last_seen_seq = 0, ng_cursor = 0, ng_last_sync = 0\<rparr>"

definition ekk_gossip_init :: "ekk_gossip_ctx \<Rightarrow> u8 \<Rightarrow> ekk_error \<times> ekk_gossip_ctx" where
  "ekk_gossip_init ctx my_id =
     (if my_id = EKK_INVALID_MODULE_ID then (EKK_ERR_INVALID_ARG, ctx)
      else (EKK_OK, \<lparr>gx_my_id = my_id, gx_vv = snd (ekk_vv_set ekk_vv_init my_id 0), gx_local_sequence = 1,
        gx_neighbors = replicate EKK_K_NEIGHBORS blank_neighbor_gossip, gx_neighbor_count = 0,
        gx_pending_events = replicate 8 blank_event, gx_pending_count = 0,
        gx_buffered_events = replicate 4 blank_event, gx_buffered_count = 0,
        gx_last_gossip_tick = 0, gx_last_sync = 0, gx_stats = blank_stats\<rparr>))"

definition gx_find_neighbor :: "ekk_gossip_ctx \<Rightarrow> u8 \<Rightarrow> nat option" where
  "gx_find_neighbor ctx k = find_key ng_id k (gx_neighbors ctx) (gx_neighbor_count ctx)"

definition ekk_gossip_add_neighbor :: "ekk_gossip_ctx \<Rightarrow> u8 \<Rightarrow> ekk_error \<times> ekk_gossip_ctx" where
  "ekk_gossip_add_neighbor ctx neighbor_id =
     (if neighbor_id = EKK_INVALID_MODULE_ID then (EKK_ERR_INVALID_ARG, ctx)
      else if gx_find_neighbor ctx neighbor_id \<noteq> None then (EKK_ERR_ALREADY_EXISTS, ctx)
      else if gx_neighbor_count ctx \<ge> EKK_K_NEIGHBORS then (EKK_ERR_NO_MEMORY, ctx)
      else (EKK_OK, ctx\<lparr>gx_neighbors := (gx_neighbors ctx)[gx_neighbor_count ctx :=
               \<lparr>ng_id = neighbor_id, ng_last_seen_seq = 0, ng_cursor = 0, ng_last_sync = 0\<rparr>],
             gx_neighbor_count := Suc (gx_neighbor_count ctx)\<rparr>))"

definition ekk_gossip_remove_neighbor :: "ekk_gossip_ctx \<Rightarrow> u8 \<Rightarrow> ekk_error \<times> ekk_gossip_ctx" where
  "ekk_gossip_remove_neighbor ctx neighbor_id =
     (case gx_find_neighbor ctx neighbor_id of
        None \<Rightarrow> (EKK_ERR_NOT_FOUND, ctx)
      | Some i \<Rightarrow> (EKK_OK, ctx\<lparr>gx_neighbors := shift_down (gx_neighbors ctx) i (gx_neighbor_count ctx),
             gx_neighbor_count := gx_neighbor_count ctx - 1\<rparr>))"

definition count_stat :: "(ekk_gossip_stats \<Rightarrow> ekk_gossip_stats) \<Rightarrow> ekk_gossip_ctx \<Rightarrow> ekk_gossip_ctx" where
  "count_stat f ctx = ctx\<lparr>gx_stats := f (gx_stats ctx)\<rparr>"

text \<open>A NULL payload is \<open>None\<close>.\<close>

definition ekk_gossip_emit ::
  "ekk_gossip_ctx \<Rightarrow> u8 \<Rightarrow> u8 list option \<Rightarrow> u64 \<Rightarrow> ekk_error \<times> ekk_gossip_ctx \<times> gossip_output list"
where
  "ekk_gossip_emit ctx event_type payload hal_now =
     (let payload_len = (case payload of None \<Rightarrow> 0 | Some p \<Rightarrow> length p)
      in if payload_len > 20 then (EKK_ERR_INVALID_ARG, ctx, [])
         else if gx_pending_count ctx \<ge> 8 then (EKK_ERR_NO_MEMORY, ctx, [])
         else
           (let event = \<lparr>ev_sequence = gx_local_sequence ctx, ev_timestamp_us = ucast hal_now,
                  ev_event_type = event_type, ev_flags = 0, ev_origin_id = gx_my_id ctx, ev_hop_count = 0,
                  ev_origin_seq = gx_local_sequence ctx,
                  ev_payload = (case payload of None \<Rightarrow> [] | Some p \<Rightarrow> p) @ replicate (20 - payload_len) 0\<rparr>;
                ctx = ctx\<lparr>gx_pending_events := (gx_pending_events ctx)[gx_pending_count ctx := event],
                  gx_local_sequence := gx_local_sequence ctx + 1, gx_pending_count := Suc (gx_pending_count ctx),
                  gx_vv := snd (ekk_vv_increment (gx_vv ctx) (gx_my_id ctx))\<rparr>
            in (EKK_OK, ctx, [GsDeliver event, GsStore event])))"

definition gx_neighbor_ids :: "ekk_gossip_ctx \<Rightarrow> u8 list" where
  "gx_neighbor_ids ctx = map ng_id (take (gx_neighbor_count ctx) (gx_neighbors ctx))"

text \<open>The events after the batch in the message are zero.\<close>

definition send_gossip_to_neighbor ::
  "ekk_gossip_ctx \<Rightarrow> u8 \<Rightarrow> ekk_event_v2 list \<Rightarrow> ekk_gossip_ctx \<times> gossip_output list"
where
  "send_gossip_to_neighbor ctx neighbor_id events =
     (let event_count = length events
      in if event_count = 0 \<or> event_count > EKK_GOSSIP_BATCH_SIZE then (ctx, [])
         else
           (let msg = \<lparr>gm_source_module = gx_my_id ctx, gm_event_count = of_nat event_count,
                  gm_vv_summary = ekk_vv_to_summary (gx_vv ctx) (gx_neighbor_ids ctx),
                  gm_events = map (\<lambda>event. if ev_origin_id event \<noteq> gx_my_id ctx
                      then event\<lparr>ev_hop_count := ev_hop_count event + 1\<rparr> else event) events
                    @ replicate (EKK_GOSSIP_BATCH_SIZE - event_count) blank_event\<rparr>
            in (count_stat (\<lambda>t. t\<lparr>gt_events_sent := gt_events_sent t + of_nat event_count\<rparr>) ctx,
                [GsSend neighbor_id msg])))"

text \<open>Sending to every neighbor that \<open>wanted\<close> admits, in order.\<close>

definition send_to_neighbors ::
  "(u8 \<Rightarrow> bool) \<Rightarrow> ekk_event_v2 list \<Rightarrow> ekk_gossip_ctx \<Rightarrow> ekk_gossip_ctx \<times> gossip_output list"
where
  "send_to_neighbors wanted events ctx =
     collect (\<lambda>k ctx. if wanted k then send_gossip_to_neighbor ctx k events else (ctx, [])) (gx_neighbor_ids ctx) ctx"

fun batches :: "ekk_event_v2 list \<Rightarrow> ekk_event_v2 list list" where
  "batches [] = []"
| "batches [e] = [[e]]"
| "batches (e # f # es) = [e, f] # batches es"

definition ekk_gossip_sync :: "ekk_gossip_ctx \<Rightarrow> u8 \<Rightarrow> ekk_error \<times> ekk_gossip_ctx" where
  "ekk_gossip_sync ctx neighbor_id = (EKK_OK, ctx)"

definition sync_neighbor :: "u64 \<Rightarrow> ekk_neighbor_gossip \<Rightarrow> ekk_neighbor_gossip" where
  "sync_neighbor now n = (if now - ng_last_sync n > EKK_GOSSIP_SYNC_INTERVAL_US then n\<lparr>ng_last_sync := now\<rparr> else n)"

definition send_pending :: "ekk_gossip_ctx \<Rightarrow> ekk_gossip_ctx \<times> gossip_output list" where
  "send_pending ctx =
     (case collect (\<lambda>neighbor ctx. collect (\<lambda>batch ctx. send_gossip_to_neighbor ctx neighbor batch)
             (batches (take (gx_pending_count ctx) (gx_pending_events ctx))) ctx) (gx_neighbor_ids ctx) ctx of
        (ctx, outs) \<Rightarrow> (ctx\<lparr>gx_pending_count := 0\<rparr>, outs))"

definition ekk_gossip_tick :: "ekk_gossip_ctx \<Rightarrow> u64 \<Rightarrow> ekk_error \<times> ekk_gossip_ctx \<times> gossip_output list" where
  "ekk_gossip_tick ctx now =
     (if now - gx_last_gossip_tick ctx < EKK_GOSSIP_TICK_US then (EKK_OK, ctx, [])
      else
        (let ctx = ctx\<lparr>gx_last_gossip_tick := now\<rparr>;
             (ctx, outs) = (if gx_pending_count ctx > 0 then send_pending ctx
               else (ctx, []));
             ctx = (if now - gx_last_sync ctx > EKK_GOSSIP_SYNC_INTERVAL_US
               then ctx\<lparr>gx_last_sync := now,
                 gx_neighbors := map (sync_neighbor now) (take (gx_neighbor_count ctx) (gx_neighbors ctx))
                   @ drop (gx_neighbor_count ctx) (gx_neighbors ctx)\<rparr>
               else ctx)
         in (EKK_OK, ctx, outs)))"

section \<open>Receiving\<close>

text \<open>
  The loop over the buffered events: one pass, staying at a position whose event was removed.
\<close>

definition deliver_buffered :: "ekk_gossip_ctx \<Rightarrow> nat \<Rightarrow> ekk_gossip_ctx" where
  "deliver_buffered ctx i =
     (let buffered = gx_buffered_events ctx ! i
      in ctx\<lparr>gx_vv := snd (ekk_vv_set (gx_vv ctx) (ev_origin_id buffered) (ev_origin_seq buffered)),
           gx_buffered_events := shift_down (gx_buffered_events ctx) i (gx_buffered_count ctx),
           gx_buffered_count := gx_buffered_count ctx - 1\<rparr>)"

function drain_buffered :: "ekk_gossip_ctx \<Rightarrow> nat \<Rightarrow> gossip_output list \<Rightarrow> ekk_gossip_ctx \<times> gossip_output list" where
  "drain_buffered ctx i outs =
     (if i < gx_buffered_count ctx
      then (let buffered = gx_buffered_events ctx ! i;
                expected = ekk_vv_get (gx_vv ctx) (ev_origin_id buffered) + 1
            in if ev_origin_seq buffered = expected
               then drain_buffered (deliver_buffered ctx i) i (outs @ [GsStore buffered, GsDeliver buffered])
               else drain_buffered ctx (Suc i) outs)
      else (ctx, outs))"
  by pat_completeness auto
termination
  by (relation "measure (\<lambda>(ctx, i, outs). gx_buffered_count ctx - i)") (auto simp: deliver_buffered_def Let_def)

declare drain_buffered.simps [simp del]

definition ekk_gossip_handle_event ::
  "ekk_gossip_ctx \<Rightarrow> ekk_event_v2 \<Rightarrow> u8 \<Rightarrow> ekk_error \<times> ekk_gossip_ctx \<times> gossip_output list"
where
  "ekk_gossip_handle_event ctx event sender =
     (let ctx = count_stat (\<lambda>t. t\<lparr>gt_events_received := gt_events_received t + 1\<rparr>) ctx;
          known_seq = ekk_vv_get (gx_vv ctx) (ev_origin_id event)
      in if ev_origin_seq event \<le> known_seq
         then (EKK_ERR_ALREADY_EXISTS, count_stat (\<lambda>t. t\<lparr>gt_duplicates := gt_duplicates t + 1\<rparr>) ctx, [])
         else if ev_origin_seq event > known_seq + 1
         then (let ctx = count_stat (\<lambda>t. t\<lparr>gt_gaps_detected := gt_gaps_detected t + 1\<rparr>) ctx;
                   ctx = (if gx_buffered_count ctx < 4
                     then ctx\<lparr>gx_buffered_events := (gx_buffered_events ctx)[gx_buffered_count ctx := event],
                       gx_buffered_count := Suc (gx_buffered_count ctx)\<rparr>
                     else ctx);
                   req = \<lparr>gr_requester = gx_my_id ctx, gr_target_origin = ev_origin_id event,
                     gr_from_seq = known_seq + 1, gr_to_seq = ev_origin_seq event - 1\<rparr>
               in (EKK_ERR_NOT_FOUND, ctx, [GsRequest sender req]))
         else
           (let ctx = (if ev_hop_count event \<ge> EKK_GOSSIP_MAX_HOPS
                  then count_stat (\<lambda>t. t\<lparr>gt_ttl_expired := gt_ttl_expired t + 1\<rparr>) ctx else ctx);
                ctx = ctx\<lparr>gx_vv := snd (ekk_vv_set (gx_vv ctx) (ev_origin_id event) (ev_origin_seq event))\<rparr>;
                (ctx, sent) = (if ev_hop_count event < EKK_GOSSIP_MAX_HOPS
                  then send_to_neighbors (\<lambda>k. k \<noteq> sender) [event\<lparr>ev_hop_count := ev_hop_count event + 1\<rparr>] ctx
                  else (ctx, []));
                (ctx, outs) = drain_buffered ctx 0 ([GsStore event, GsDeliver event] @ sent)
            in (EKK_OK, ctx, outs)))"

text \<open>
  Replay on request. The loop counter is 32 bits wide, so the loop does not end when
  \<open>to_seq\<close> is the largest value; loading from the store is an argument.
\<close>

definition replay_event ::
  "(u8 \<Rightarrow> u32 \<Rightarrow> ekk_event_v2 option) \<Rightarrow> u8 \<Rightarrow> u32 \<Rightarrow> ekk_gossip_ctx \<times> gossip_output list \<Rightarrow> ekk_gossip_ctx \<times> gossip_output list"
where
  "replay_event load requester seq st =
     (case st of (ctx, outs) \<Rightarrow>
        case load (gx_my_id ctx) seq of
          None \<Rightarrow> (ctx, outs)
        | Some event \<Rightarrow>
            (case send_gossip_to_neighbor ctx requester [event] of (ctx, new) \<Rightarrow>
               (count_stat (\<lambda>t. t\<lparr>gt_gaps_filled := gt_gaps_filled t + 1\<rparr>) ctx, outs @ new)))"

partial_function (option) replay_events ::
  "(u8 \<Rightarrow> u32 \<Rightarrow> ekk_event_v2 option) \<Rightarrow> u8 \<Rightarrow> u32 \<Rightarrow> u32 \<Rightarrow> ekk_gossip_ctx \<times> gossip_output list
   \<Rightarrow> (ekk_gossip_ctx \<times> gossip_output list) option"
where
  "replay_events load requester to_seq seq st =
     (if seq \<le> to_seq then replay_events load requester to_seq (seq + 1) (replay_event load requester seq st)
      else Some st)"

definition merge_summary :: "ekk_gossip_ctx \<Rightarrow> u8 list \<Rightarrow> ekk_gossip_ctx" where
  "merge_summary ctx summary =
     ctx\<lparr>gx_vv := ekk_vv_merge (gx_vv ctx) (ekk_vv_from_summary ekk_vv_init summary (gx_neighbor_ids ctx))\<rparr>"

definition handle_gossip_events ::
  "ekk_gossip_msg \<Rightarrow> ekk_gossip_ctx \<Rightarrow> ekk_gossip_ctx \<times> gossip_output list"
where
  "handle_gossip_events msg ctx =
     collect (\<lambda>event ctx. snd (ekk_gossip_handle_event ctx event (gm_source_module msg)))
       (take (min (unat (gm_event_count msg)) EKK_GOSSIP_BATCH_SIZE) (gm_events msg)) ctx"

definition ekk_gossip_handle_msg ::
  "(u8 \<Rightarrow> u32 \<Rightarrow> ekk_event_v2 option) \<Rightarrow> ekk_gossip_ctx \<Rightarrow> gossip_wire
   \<Rightarrow> (ekk_error \<times> ekk_gossip_ctx \<times> gossip_output list) option"
where
  "ekk_gossip_handle_msg load ctx wire =
     (case wire of
        WireShort \<Rightarrow> Some (EKK_ERR_INVALID_ARG, ctx, [])
      | WireUnknown \<Rightarrow> Some (EKK_ERR_INVALID_ARG, ctx, [])
      | WireAck \<Rightarrow> Some (EKK_OK, ctx, [])
      | WireGossip msg \<Rightarrow>
          (case handle_gossip_events msg ctx of (ctx, outs) \<Rightarrow>
             Some (EKK_OK, merge_summary ctx (gm_vv_summary msg), outs))
      | WireRequest req \<Rightarrow>
          (if gr_target_origin req = gx_my_id ctx
           then map_option (Pair EKK_OK)
             (replay_events load (gr_requester req) (gr_to_seq req) (gr_from_seq req) (ctx, []))
           else Some (EKK_OK, ctx, [])))"

definition ekk_gossip_get_stats :: "ekk_gossip_ctx \<Rightarrow> ekk_gossip_stats" where
  "ekk_gossip_get_stats ctx = gx_stats ctx"

definition ekk_gossip_reset_stats :: "ekk_gossip_ctx \<Rightarrow> ekk_gossip_ctx" where
  "ekk_gossip_reset_stats ctx = ctx\<lparr>gx_stats := blank_stats\<rparr>"

section \<open>Version vectors as functions from modules to sequence numbers\<close>

definition vv_keys :: "ekk_version_vector \<Rightarrow> u8 list" where
  "vv_keys vv = map fst (take (vv_count vv) (vv_entries vv))"

definition vv_ok :: "ekk_version_vector \<Rightarrow> bool" where
  "vv_ok vv \<longleftrightarrow> length (vv_entries vv) = VV_ENTRIES \<and> vv_count vv \<le> VV_ENTRIES \<and> distinct (vv_keys vv)"

lemma vv_ok_init [simp]: "vv_ok ekk_vv_init" "vv_keys ekk_vv_init = []"
  by (simp_all add: vv_ok_def vv_keys_def ekk_vv_init_def)

lemma vv_find_None_iff: "vv_ok vv \<Longrightarrow> find_key fst k (vv_entries vv) (vv_count vv) = None \<longleftrightarrow> k \<notin> set (vv_keys vv)"
  unfolding vv_keys_def by (rule find_key_None_iff) (simp add: vv_ok_def)

lemma vv_find_Some_iff:
  "vv_ok vv \<Longrightarrow> find_key fst k (vv_entries vv) (vv_count vv) = Some i \<longleftrightarrow> i < vv_count vv \<and> fst (vv_entries vv ! i) = k"
  by (rule find_key_Some_iff) (simp_all add: vv_ok_def vv_keys_def)

lemma vv_get_nth: "vv_ok vv \<Longrightarrow> i < vv_count vv \<Longrightarrow> ekk_vv_get vv (fst (vv_entries vv ! i)) = snd (vv_entries vv ! i)"
  using vv_find_Some_iff [of vv "fst (vv_entries vv ! i)" i] by (simp add: ekk_vv_get_def)

lemma vv_get_unknown: "vv_ok vv \<Longrightarrow> k \<notin> set (vv_keys vv) \<Longrightarrow> ekk_vv_get vv k = 0"
  by (simp add: ekk_vv_get_def vv_find_None_iff [symmetric])

lemma vv_keys_nth: "vv_ok vv \<Longrightarrow> k \<in> set (vv_keys vv) \<longleftrightarrow> (\<exists>i < vv_count vv. fst (vv_entries vv ! i) = k)"
proof -
  assume ok: "vv_ok vv"
  show ?thesis
    using vv_find_None_iff [OF ok, of k] vv_find_Some_iff [OF ok, of k]
    by (cases "find_key fst k (vv_entries vv) (vv_count vv)") auto
qed

text \<open>Setting succeeds exactly when the module is known or a slot is left.\<close>

definition vv_room :: "ekk_version_vector \<Rightarrow> u8 \<Rightarrow> bool" where
  "vv_room vv k \<longleftrightarrow> k \<in> set (vv_keys vv) \<or> vv_count vv < VV_ENTRIES"

lemma vv_set_full: "vv_ok vv \<Longrightarrow> \<not> vv_room vv k \<Longrightarrow> ekk_vv_set vv k x = (EKK_ERR_NO_MEMORY, vv)"
  by (simp add: ekk_vv_set_def vv_room_def vv_find_None_iff [symmetric])

lemma vv_set_room:
  assumes "vv_ok vv" "vv_room vv k" "vv' = snd (ekk_vv_set vv k x)"
  shows "fst (ekk_vv_set vv k x) = EKK_OK" "vv_ok vv'"
    "set (vv_keys vv') = insert k (set (vv_keys vv))" "ekk_vv_get vv' = (ekk_vv_get vv)(k := x)"
proof -
  have "fst (ekk_vv_set vv k x) = EKK_OK \<and> vv_ok vv' \<and> vv_keys vv' = (if k \<in> set (vv_keys vv) then vv_keys vv else vv_keys vv @ [k])
      \<and> (\<forall>j. ekk_vv_get vv' j = (if j = k then x else ekk_vv_get vv j))"
  proof (cases "find_key fst k (vv_entries vv) (vv_count vv)")
    case None
    with assms have room: "vv_count vv < VV_ENTRIES" "k \<notin> set (vv_keys vv)"
      by (auto simp: vv_room_def vv_find_None_iff)
    from None room assms(3) have vv': "vv' = vv\<lparr>vv_entries := (vv_entries vv)[vv_count vv := (k, x)], vv_count := Suc (vv_count vv)\<rparr>"
      by (simp add: ekk_vv_set_def)
    have keys: "vv_keys vv' = vv_keys vv @ [k]"
      using room assms(1) take_snoc_update [of "vv_count vv" "vv_entries vv" "(k, x)"]
      by (simp add: vv' vv_keys_def vv_ok_def)
    with vv' assms(1) room have ok: "vv_ok vv'" by (simp add: vv_ok_def)
    have "ekk_vv_get vv' j = (if j = k then x else ekk_vv_get vv j)" for j
    proof (cases "j \<in> set (vv_keys vv')")
      case True
      with ok obtain i where i: "i < vv_count vv'" "fst (vv_entries vv' ! i) = j" by (auto simp: vv_keys_nth)
      show ?thesis
      proof (cases "i = vv_count vv")
        case True
        with i vv_get_nth [OF ok i(1)] assms(1) room(1) show ?thesis by (simp add: vv' vv_ok_def)
      next
        case False
        with i have lt: "i < vv_count vv" by (simp add: vv')
        then have same: "vv_entries vv' ! i = vv_entries vv ! i" by (simp add: vv')
        have "j \<noteq> k" using lt i(2) same room(2) assms(1) by (auto simp: vv_keys_nth)
        with vv_get_nth [OF ok i(1)] vv_get_nth [OF assms(1) lt] i(2) same show ?thesis by simp
      qed
    next
      case False
      with keys vv_get_unknown [OF ok False] vv_get_unknown [OF assms(1), of j] show ?thesis by simp
    qed
    with None room keys ok show ?thesis by (simp add: ekk_vv_set_def)
  next
    case (Some i)
    with assms(1) have i: "i < vv_count vv" "fst (vv_entries vv ! i) = k" by (simp_all add: vv_find_Some_iff)
    from Some i assms(3) have vv': "vv' = vv\<lparr>vv_entries := (vv_entries vv)[i := (k, x)]\<rparr>" by (simp add: ekk_vv_set_def)
    have len: "i < length (take (vv_count vv) (vv_entries vv))" using assms(1) i by (simp add: vv_ok_def)
    have keys: "vv_keys vv' = vv_keys vv"
      using map_update_same_key [OF len, of fst "(k, x)"] i len by (simp add: vv' vv_keys_def loop_simps)
    with vv' assms(1) have ok: "vv_ok vv'" by (simp add: vv_ok_def)
    have mem: "k \<in> set (vv_keys vv)" using i assms(1) by (auto simp: vv_keys_nth)
    have "ekk_vv_get vv' j = (if j = k then x else ekk_vv_get vv j)" for j
    proof (cases "j \<in> set (vv_keys vv)")
      case True
      with assms(1) obtain m where m: "m < vv_count vv" "fst (vv_entries vv ! m) = j" by (auto simp: vv_keys_nth)
      have m': "fst (vv_entries vv' ! m) = j" using m i assms(1) by (auto simp: vv' vv_ok_def nth_list_update)
      have "m = i \<longleftrightarrow> j = k"
        using i m assms(1) vv_find_Some_iff [OF assms(1), of k] by (metis option.inject)
      with vv_get_nth [OF ok, of m] vv_get_nth [OF assms(1) m(1)] m m' i assms(1) show ?thesis
        by (simp add: vv' vv_ok_def nth_list_update split: if_splits)
    next
      case False
      with mem keys vv_get_unknown [OF ok, of j] vv_get_unknown [OF assms(1), of j] show ?thesis by auto
    qed
    with Some keys ok mem show ?thesis by (simp add: ekk_vv_set_def)
  qed
  then show "fst (ekk_vv_set vv k x) = EKK_OK" "vv_ok vv'"
    "set (vv_keys vv') = insert k (set (vv_keys vv))" "ekk_vv_get vv' = (ekk_vv_get vv)(k := x)"
    by (auto simp: fun_eq_iff split: if_splits)
qed

text \<open>With at most eight modules in play, every one of them has a slot.\<close>

lemma vv_room_card:
  assumes "vv_ok vv" "set (vv_keys vv) \<subseteq> S" "k \<in> S" "finite S" "card S \<le> VV_ENTRIES"
  shows "vv_room vv k"
proof (cases "k \<in> set (vv_keys vv)")
  case False
  with assms have "card (insert k (set (vv_keys vv))) \<le> VV_ENTRIES"
    by (meson card_mono insert_subset le_trans)
  moreover have "card (set (vv_keys vv)) = length (vv_keys vv)"
    by (rule distinct_card) (use assms(1) in \<open>simp add: vv_ok_def\<close>)
  moreover have "length (vv_keys vv) = vv_count vv" using assms(1) by (simp add: vv_ok_def vv_keys_def)
  ultimately show ?thesis using False by (simp add: vv_room_def)
qed (simp add: vv_room_def)

lemma fold_flags:
  "fold (\<lambda>i (x, y). (if P i then False else x, if Q i then False else y)) xs (x, y)
   = (x \<and> (\<forall>i \<in> set xs. \<not> P i), y \<and> (\<forall>i \<in> set xs. \<not> Q i))"
  by (induction xs arbitrary: x y) auto

lemma vv_pointwise:
  assumes "vv_ok a" "vv_ok b" "\<And>x. R x x"
  shows "(\<forall>i < vv_count a. R (snd (vv_entries a ! i)) (ekk_vv_get b (fst (vv_entries a ! i)))) \<and>
         (\<forall>i < vv_count b. R (ekk_vv_get a (fst (vv_entries b ! i))) (snd (vv_entries b ! i)))
         \<longleftrightarrow> (\<forall>k. R (ekk_vv_get a k) (ekk_vv_get b k))" (is "?L \<longleftrightarrow> ?R")
proof
  assume L: ?L
  show ?R
  proof
    fix k
    show "R (ekk_vv_get a k) (ekk_vv_get b k)"
    proof (cases "k \<in> set (vv_keys a) \<union> set (vv_keys b)")
      case True
      with L assms show ?thesis by (auto simp: vv_keys_nth vv_get_nth)
    next
      case False
      with assms show ?thesis by (simp add: vv_get_unknown)
    qed
  qed
next
  assume ?R
  with assms show ?L by (metis vv_get_nth)
qed

lemma vv_compare_conv:
  assumes "vv_ok a" "vv_ok b"
  shows "ekk_vv_compare a b =
     (if ekk_vv_get a = ekk_vv_get b then EKK_VV_EQUAL
      else if ekk_vv_get b \<le> ekk_vv_get a then EKK_VV_AFTER
      else if ekk_vv_get a \<le> ekk_vv_get b then EKK_VV_BEFORE
      else EKK_VV_CONCURRENT)"
proof -
  have a: "ekk_vv_get b \<le> ekk_vv_get a \<longleftrightarrow>
      (\<forall>i < vv_count a. \<not> snd (vv_entries a ! i) < ekk_vv_get b (fst (vv_entries a ! i))) \<and>
      (\<forall>i < vv_count b. \<not> ekk_vv_get a (fst (vv_entries b ! i)) < snd (vv_entries b ! i))"
    using vv_pointwise [OF assms, of "\<lambda>x y. \<not> x < y"] by (simp add: le_fun_def not_less)
  have b: "ekk_vv_get a \<le> ekk_vv_get b \<longleftrightarrow>
      (\<forall>i < vv_count a. \<not> snd (vv_entries a ! i) > ekk_vv_get b (fst (vv_entries a ! i))) \<and>
      (\<forall>i < vv_count b. \<not> ekk_vv_get a (fst (vv_entries b ! i)) > snd (vv_entries b ! i))"
    using vv_pointwise [OF assms, of "\<lambda>x y. \<not> x > y"] by (simp add: le_fun_def not_less)
  let ?flags = "\<lambda>n x y. fold (\<lambda>i (a_dom, b_dom). (if x i < y i then False else a_dom, if x i > y i then False else b_dom)) [0..<n]"
  have "?flags (vv_count b) (\<lambda>i. ekk_vv_get a (fst (vv_entries b ! i))) (\<lambda>i. snd (vv_entries b ! i))
      (?flags (vv_count a) (\<lambda>i. snd (vv_entries a ! i)) (\<lambda>i. ekk_vv_get b (fst (vv_entries a ! i))) (True, True))
      = (ekk_vv_get b \<le> ekk_vv_get a, ekk_vv_get a \<le> ekk_vv_get b)"
    unfolding fold_flags a b by auto
  then show ?thesis unfolding ekk_vv_compare_def Let_def by auto
qed

lemma vv_merge_room:
  assumes "vv_ok l" "vv_ok r" "set (vv_keys l) \<union> set (vv_keys r) \<subseteq> S" "finite S" "card S \<le> VV_ENTRIES"
    and "vv' = ekk_vv_merge l r"
  shows "vv_ok vv'" "set (vv_keys vv') \<subseteq> S" "ekk_vv_get vv' = (\<lambda>k. max (ekk_vv_get l k) (ekk_vv_get r k))"
proof -
  define m where "m n = fold (\<lambda>i vv. case vv_entries r ! i of (k, remote_seq) \<Rightarrow>
        if remote_seq > ekk_vv_get vv k then snd (ekk_vv_set vv k remote_seq) else vv) [0..<n] l" for n
  have inv: "n \<le> vv_count r \<Longrightarrow> vv_ok (m n) \<and> set (vv_keys (m n)) \<subseteq> S \<and>
      (\<forall>k. ekk_vv_get (m n) k = (if \<exists>i < n. fst (vv_entries r ! i) = k
         then max (ekk_vv_get l k) (ekk_vv_get r k) else ekk_vv_get l k))" for n
  proof (induction n)
    case 0
    with assms show ?case by (simp add: m_def)
  next
    case (Suc n)
    then have IH: "vv_ok (m n)" "set (vv_keys (m n)) \<subseteq> S"
      "\<And>k. ekk_vv_get (m n) k = (if \<exists>i < n. fst (vv_entries r ! i) = k
         then max (ekk_vv_get l k) (ekk_vv_get r k) else ekk_vv_get l k)" by simp_all
    obtain k x where e: "vv_entries r ! n = (k, x)" by fastforce
    from Suc.prems e have x: "ekk_vv_get r k = x" using vv_get_nth [OF assms(2), of n] by simp
    have "k \<in> set (vv_keys r)" using vv_keys_nth [OF assms(2), of k] Suc.prems e by (metis Suc_le_lessD fst_conv)
    then have "k \<in> S" using assms(3) by blast
    then have room: "vv_room (m n) k" using vv_room_card IH assms by blast
    have fresh: "\<not> (\<exists>i < n. fst (vv_entries r ! i) = k)"
    proof
      assume "\<exists>i < n. fst (vv_entries r ! i) = k"
      then obtain i where "i < n" "fst (vv_entries r ! i) = k" by blast
      with Suc.prems e vv_find_Some_iff [OF assms(2), of k i] vv_find_Some_iff [OF assms(2), of k n] show False by simp
    qed
    have step: "m (Suc n) = (if x > ekk_vv_get (m n) k then snd (ekk_vv_set (m n) k x) else m n)"
      by (simp add: m_def e)
    show ?case
    proof (cases "x > ekk_vv_get (m n) k")
      case True
      with step have "m (Suc n) = snd (ekk_vv_set (m n) k x)" by simp
      from vv_set_room [OF IH(1) room this] IH \<open>k \<in> S\<close> True x e fresh show ?thesis
        by (auto simp: less_Suc_eq max_def)
    next
      case False
      with step have "m (Suc n) = m n" by simp
      with IH False x e fresh show ?thesis by (auto simp: less_Suc_eq max_def)
    qed
  qed
  have m: "ekk_vv_merge l r = m (vv_count r)" by (simp add: ekk_vv_merge_def m_def)
  with inv [of "vv_count r"] assms(6) show "vv_ok vv'" "set (vv_keys vv') \<subseteq> S" by simp_all
  show "ekk_vv_get vv' = (\<lambda>k. max (ekk_vv_get l k) (ekk_vv_get r k))"
  proof
    fix k
    show "ekk_vv_get vv' k = max (ekk_vv_get l k) (ekk_vv_get r k)"
      using inv [of "vv_count r"] m assms(6) vv_keys_nth [OF assms(2), of k] vv_get_unknown [OF assms(2), of k]
      by (auto simp: max_def)
  qed
qed

definition vv_of :: "(u8 \<times> u32) list \<Rightarrow> ekk_version_vector" where
  "vv_of es = fold (\<lambda>(k, x) vv. snd (ekk_vv_set vv k x)) es ekk_vv_init"

text \<open>
  C30. Version vectors form a lattice. Comparing two vectors decides the pointwise order on
  the sequence numbers they hold (a module without an entry counts as 0), with the four
  results for equal, above, below and incomparable; and as long as the two vectors mention at
  most eight modules, merging is their least upper bound: the merged vector is well formed,
  holds the maximum for every module, and is at or below a third vector exactly when both
  inputs are.
\<close>

theorem vv_merge_lattice:
  assumes "vv_ok a" "vv_ok b" "vv_ok c" "card (set (vv_keys a) \<union> set (vv_keys b)) \<le> VV_ENTRIES"
  shows "ekk_vv_compare a b =
       (if ekk_vv_get a = ekk_vv_get b then EKK_VV_EQUAL
        else if ekk_vv_get b \<le> ekk_vv_get a then EKK_VV_AFTER
        else if ekk_vv_get a \<le> ekk_vv_get b then EKK_VV_BEFORE
        else EKK_VV_CONCURRENT) \<and>
     vv_ok (ekk_vv_merge a b) \<and>
     ekk_vv_get (ekk_vv_merge a b) = (\<lambda>k. max (ekk_vv_get a k) (ekk_vv_get b k)) \<and>
     (ekk_vv_compare (ekk_vv_merge a b) c \<in> {EKK_VV_EQUAL, EKK_VV_BEFORE} \<longleftrightarrow>
        ekk_vv_compare a c \<in> {EKK_VV_EQUAL, EKK_VV_BEFORE} \<and> ekk_vv_compare b c \<in> {EKK_VV_EQUAL, EKK_VV_BEFORE})"
proof (intro conjI)
  note merge = vv_merge_room [OF assms(1,2) subset_refl _ assms(4) refl, simplified]
  have below: "ekk_vv_compare x c \<in> {EKK_VV_EQUAL, EKK_VV_BEFORE} \<longleftrightarrow> ekk_vv_get x \<le> ekk_vv_get c" if "vv_ok x" for x
    using that assms(3) by (auto simp: vv_compare_conv)
  show "ekk_vv_compare (ekk_vv_merge a b) c \<in> {EKK_VV_EQUAL, EKK_VV_BEFORE} \<longleftrightarrow>
        ekk_vv_compare a c \<in> {EKK_VV_EQUAL, EKK_VV_BEFORE} \<and> ekk_vv_compare b c \<in> {EKK_VV_EQUAL, EKK_VV_BEFORE}"
    unfolding below [OF merge(1)] below [OF assms(1)] below [OF assms(2)] merge(3) by (auto simp: le_fun_def)
qed (use assms vv_merge_room [OF assms(1,2) subset_refl _ assms(4) refl] vv_compare_conv in auto)

theorem vv_merge_lattice_witness:
  "ekk_vv_get (ekk_vv_merge (vv_of [(1, 5), (2, 1)]) (vv_of [(2, 4), (3, 7)])) =
     (\<lambda>k. max (ekk_vv_get (vv_of [(1, 5), (2, 1)]) k) (ekk_vv_get (vv_of [(2, 4), (3, 7)]) k))"
proof -
  have ok: "vv_ok (vv_of [(1, 5), (2, 1)])" "vv_ok (vv_of [(2, 4), (3, 7)])" by code_simp+
  have "card (set (vv_keys (vv_of [(1, 5), (2, 1)])) \<union> set (vv_keys (vv_of [(2, 4), (3, 7)]))) \<le> VV_ENTRIES"
    by code_simp
  from vv_merge_lattice [OF ok ok(1) this] show ?thesis by blast
qed

text \<open>When nine modules are in play, merging loses the ninth without any error.\<close>

lemma vv_merge_full_loses:
  "ekk_vv_get (ekk_vv_merge (vv_of [(1, 1), (2, 1), (3, 1), (4, 1), (5, 1), (6, 1), (7, 1), (8, 1)]) (vv_of [(9, 1)])) 9 = 0"
  by code_simp

section \<open>Last writer wins\<close>

text \<open>\<open>ekk_lww_is_newer\<close> is the strict part of a linear order, so the winner does not depend on the order of arrival.\<close>

instantiation ekk_lww_timestamp :: linorder
begin

definition less_ekk_lww_timestamp :: "ekk_lww_timestamp \<Rightarrow> ekk_lww_timestamp \<Rightarrow> bool" where
  "less_ekk_lww_timestamp a b = ekk_lww_is_newer b a"

definition less_eq_ekk_lww_timestamp :: "ekk_lww_timestamp \<Rightarrow> ekk_lww_timestamp \<Rightarrow> bool" where
  "less_eq_ekk_lww_timestamp a b = (\<not> ekk_lww_is_newer a b)"

instance
proof
  fix a b c :: ekk_lww_timestamp
  show "a < b \<longleftrightarrow> a \<le> b \<and> \<not> b \<le> a"
    by (auto simp: less_ekk_lww_timestamp_def less_eq_ekk_lww_timestamp_def ekk_lww_is_newer_def)
  show "a \<le> a" by (simp add: less_eq_ekk_lww_timestamp_def ekk_lww_is_newer_def)
  show "a \<le> b \<Longrightarrow> b \<le> c \<Longrightarrow> a \<le> c"
    by (auto simp: less_eq_ekk_lww_timestamp_def ekk_lww_is_newer_def split: if_splits)
  show "a \<le> b \<Longrightarrow> b \<le> a \<Longrightarrow> a = b"
    by (cases a; cases b) (auto simp: less_eq_ekk_lww_timestamp_def ekk_lww_is_newer_def split: if_splits)
  show "a \<le> b \<or> b \<le> a" by (auto simp: less_eq_ekk_lww_timestamp_def ekk_lww_is_newer_def)
qed

end

lemma lww_winner_order_independent:
  fixes a b :: ekk_event_v2
  shows "(if ekk_lww_is_newer (ekk_lww_from_event a) (ekk_lww_from_event b) then ekk_lww_from_event a else ekk_lww_from_event b)
    = max (ekk_lww_from_event a) (ekk_lww_from_event b)"
  by (simp add: max_def less_eq_ekk_lww_timestamp_def)

section \<open>The neighbor table\<close>

definition gx_table_ok :: "ekk_gossip_ctx \<Rightarrow> bool" where
  "gx_table_ok ctx \<longleftrightarrow> length (gx_neighbors ctx) = EKK_K_NEIGHBORS \<and> gx_neighbor_count ctx \<le> EKK_K_NEIGHBORS \<and>
     distinct (gx_neighbor_ids ctx) \<and> EKK_INVALID_MODULE_ID \<notin> set (gx_neighbor_ids ctx)"

lemma gx_find_None_iff: "gx_table_ok ctx \<Longrightarrow> gx_find_neighbor ctx k = None \<longleftrightarrow> k \<notin> set (gx_neighbor_ids ctx)"
  unfolding gx_find_neighbor_def gx_neighbor_ids_def by (rule find_key_None_iff) (simp add: gx_table_ok_def)

lemma gx_add_new:
  assumes "gx_table_ok ctx" "k \<noteq> EKK_INVALID_MODULE_ID" "k \<notin> set (gx_neighbor_ids ctx)"
    "length (gx_neighbor_ids ctx) < EKK_K_NEIGHBORS"
  shows "fst (ekk_gossip_add_neighbor ctx k) = EKK_OK \<and> gx_table_ok (snd (ekk_gossip_add_neighbor ctx k)) \<and>
    gx_neighbor_ids (snd (ekk_gossip_add_neighbor ctx k)) = gx_neighbor_ids ctx @ [k]"
proof -
  from assms have lt: "gx_neighbor_count ctx < length (gx_neighbors ctx)" "length (gx_neighbors ctx) = 7"
    by (auto simp: gx_table_ok_def gx_neighbor_ids_def)
  let ?n = "\<lparr>ng_id = k, ng_last_seen_seq = 0, ng_cursor = 0, ng_last_sync = 0\<rparr>"
  have "map ng_id (take (Suc (gx_neighbor_count ctx)) ((gx_neighbors ctx)[gx_neighbor_count ctx := ?n]))
      = gx_neighbor_ids ctx @ [k]"
    unfolding take_snoc_update [OF lt(1)] by (simp add: gx_neighbor_ids_def)
  with assms lt show ?thesis
    by (simp add: ekk_gossip_add_neighbor_def gx_find_None_iff gx_table_ok_def gx_neighbor_ids_def)
qed

interpretation gx_table: neighbor_table gx_neighbor_ids gx_table_ok ekk_gossip_add_neighbor ekk_gossip_remove_neighbor EKK_K_NEIGHBORS
proof unfold_locales
  fix ctx k assume ok: "gx_table_ok ctx" and k: "k \<noteq> EKK_INVALID_MODULE_ID"
  show "ekk_gossip_add_neighbor ctx k = (EKK_ERR_ALREADY_EXISTS, ctx)" if "k \<in> set (gx_neighbor_ids ctx)"
    using that k gx_find_None_iff [OF ok] by (simp add: ekk_gossip_add_neighbor_def)
  show "ekk_gossip_add_neighbor ctx k = (EKK_ERR_NO_MEMORY, ctx)"
    if "k \<notin> set (gx_neighbor_ids ctx)" "length (gx_neighbor_ids ctx) = EKK_K_NEIGHBORS"
  proof -
    have "gx_neighbor_count ctx = 7" using that(2) ok by (simp add: gx_table_ok_def gx_neighbor_ids_def)
    with that(1) k gx_find_None_iff [OF ok] show ?thesis by (simp add: ekk_gossip_add_neighbor_def)
  qed
  show "fst (ekk_gossip_add_neighbor ctx k) = EKK_OK \<and> gx_table_ok (snd (ekk_gossip_add_neighbor ctx k)) \<and>
      gx_neighbor_ids (snd (ekk_gossip_add_neighbor ctx k)) = gx_neighbor_ids ctx @ [k]"
    if "k \<notin> set (gx_neighbor_ids ctx)" "length (gx_neighbor_ids ctx) < EKK_K_NEIGHBORS"
    using gx_add_new [OF ok k that] .
  show "ekk_gossip_remove_neighbor ctx k = (EKK_ERR_NOT_FOUND, ctx)" if "k \<notin> set (gx_neighbor_ids ctx)"
    using that gx_find_None_iff [OF ok, of k] by (simp add: ekk_gossip_remove_neighbor_def)
  show "fst (ekk_gossip_remove_neighbor ctx k) = EKK_OK \<and> gx_table_ok (snd (ekk_gossip_remove_neighbor ctx k)) \<and>
      gx_neighbor_ids (snd (ekk_gossip_remove_neighbor ctx k)) = remove1 k (gx_neighbor_ids ctx)"
    if "k \<in> set (gx_neighbor_ids ctx)"
  proof -
    from that gx_find_None_iff [OF ok] obtain i where i: "gx_find_neighbor ctx k = Some i" by blast
    have "map ng_id (take (gx_neighbor_count ctx - 1) (shift_down (gx_neighbors ctx) i (gx_neighbor_count ctx)))
        = remove1 k (gx_neighbor_ids ctx)"
      unfolding gx_neighbor_ids_def
      by (rule map_shift_down_key) (use ok i in \<open>simp_all add: gx_table_ok_def gx_find_neighbor_def\<close>)
    with i ok show ?thesis
      by (auto simp: ekk_gossip_remove_neighbor_def gx_table_ok_def gx_neighbor_ids_def
          dest: notin_set_remove1)
  qed
qed (auto simp: gx_table_ok_def gx_neighbor_ids_def)

section \<open>Delivery\<close>

text \<open>The sequence numbers of module \<open>k\<close> delivered to the application, in order.\<close>

primrec delivered_events :: "gossip_output list \<Rightarrow> ekk_event_v2 list" where
  "delivered_events [] = []"
| "delivered_events (out # outs) =
     (case out of GsDeliver event \<Rightarrow> event # delivered_events outs | _ \<Rightarrow> delivered_events outs)"

definition delivered :: "u8 \<Rightarrow> gossip_output list \<Rightarrow> u32 list" where
  "delivered k outs = map ev_origin_seq (filter (\<lambda>event. ev_origin_id event = k) (delivered_events outs))"

lemma delivered_append [simp]: "delivered k (xs @ ys) = delivered k xs @ delivered k ys"
proof -
  have "delivered_events (xs @ ys) = delivered_events xs @ delivered_events ys"
    by (induction xs) (auto split: gossip_output.split)
  then show ?thesis by (simp add: delivered_def)
qed

lemma delivered_simps [simp]:
  "delivered k [] = []"
  "delivered k (GsSend d m # outs) = delivered k outs"
  "delivered k (GsRequest d r # outs) = delivered k outs"
  "delivered k (GsStore e # outs) = delivered k outs"
  "delivered k (GsDeliver e # outs) = (if ev_origin_id e = k then ev_origin_seq e # delivered k outs else delivered k outs)"
  by (simp_all add: delivered_def)

lemma delivered_sends: "delivered k (map (GsSend d \<circ> f) xs) = []"
  by (induction xs) simp_all

text \<open>
  \<open>advance full v v' ds\<close>: while the known sequence number goes from \<open>v\<close> to \<open>v'\<close>, the numbers
  \<open>ds\<close> are delivered, strictly increasing; with \<open>full\<close>, all of them are.
\<close>

definition advance :: "bool \<Rightarrow> u32 \<Rightarrow> u32 \<Rightarrow> u32 list \<Rightarrow> bool" where
  "advance full v v' ds \<longleftrightarrow> v \<le> v' \<and> sorted_wrt (<) ds \<and> (\<forall>d \<in> set ds. v < d \<and> d \<le> v') \<and>
     (full \<longrightarrow> map unat ds = [Suc (unat v)..<Suc (unat v')])"

lemma advance_refl [simp]: "advance full v v []"
  by (simp add: advance_def)

lemma advance_skip: "v \<le> v' \<Longrightarrow> advance False v v' []"
  by (simp add: advance_def)

lemma advance_weaken: "advance full v v' ds \<Longrightarrow> advance False v v' ds"
  by (simp add: advance_def)

lemma advance_next:
  assumes "x = v + 1" "x \<noteq> 0"
  shows "advance full v x [x]"
proof -
  have "v \<noteq> 0xFFFFFFFF" using assms by auto
  then have "unat x = Suc (unat v)" "v < x" using assms(1) unat_u32_Suc [of v] u32_less_Suc [of v] by simp_all
  then show ?thesis by (auto simp: advance_def)
qed

lemma advance_trans: "advance full v1 v2 ds \<Longrightarrow> advance full v2 v3 es \<Longrightarrow> advance full v1 v3 (ds @ es)"
proof -
  assume a: "advance full v1 v2 ds" "advance full v2 v3 es"
  then have le: "unat v1 \<le> unat v2" "unat v2 \<le> unat v3" by (simp_all add: advance_def word_le_nat_alt)
  have "[Suc (unat v1)..<Suc (unat v2)] @ [Suc (unat v2)..<Suc (unat v3)] = [Suc (unat v1)..<Suc (unat v3)]"
    using le upt_add_eq_append [of "Suc (unat v1)" "Suc (unat v2)" "unat v3 - unat v2"] by simp
  with a show ?thesis
    by (auto simp: advance_def sorted_wrt_append simp del: upt_Suc intro: order_trans order.strict_trans1 order.strict_trans2)
qed

text \<open>
  The invariant: the vector has room for the modules \<open>S\<close>, to which everything stored in the
  context belongs, and no event in the buffer has sequence number 0.
\<close>

definition gossip_inv :: "u8 set \<Rightarrow> ekk_gossip_ctx \<Rightarrow> bool" where
  "gossip_inv S ctx \<longleftrightarrow> finite S \<and> card S \<le> VV_ENTRIES \<and> gx_my_id ctx \<in> S \<and>
     vv_ok (gx_vv ctx) \<and> set (vv_keys (gx_vv ctx)) \<subseteq> S \<and>
     gx_table_ok ctx \<and> set (gx_neighbor_ids ctx) \<subseteq> S \<and>
     length (gx_buffered_events ctx) = 4 \<and> gx_buffered_count ctx \<le> 4 \<and>
     (\<forall>event \<in> set (take (gx_buffered_count ctx) (gx_buffered_events ctx)).
        ev_origin_id event \<in> S \<and> ev_origin_seq event \<noteq> 0)"

definition progress :: "u8 set \<Rightarrow> bool \<Rightarrow> ekk_gossip_ctx \<Rightarrow> ekk_gossip_ctx \<Rightarrow> gossip_output list \<Rightarrow> bool" where
  "progress S full ctx ctx' outs \<longleftrightarrow>
     (gossip_inv S ctx \<longrightarrow> gossip_inv S ctx' \<and> gx_my_id ctx' = gx_my_id ctx \<and>
       (\<forall>k. k \<noteq> gx_my_id ctx \<longrightarrow>
          advance full (ekk_vv_get (gx_vv ctx) k) (ekk_vv_get (gx_vv ctx') k) (delivered k outs)))"

lemma progress_refl: "progress S full ctx ctx []"
  by (simp add: progress_def)

lemma progress_trans: "progress S full r s as \<Longrightarrow> progress S full s t bs \<Longrightarrow> progress S full r t (as @ bs)"
  by (auto simp: progress_def intro: advance_trans)

lemma progress_weaken: "progress S full s t as \<Longrightarrow> progress S False s t as"
  by (auto simp: progress_def intro: advance_weaken)

text \<open>What does not touch vector, buffer and neighbors, and delivers nothing, makes no progress and does no harm.\<close>

definition gx_core :: "ekk_gossip_ctx \<Rightarrow> u8 \<times> ekk_version_vector \<times> u8 list \<times> ekk_event_v2 list \<times> nat \<times> bool" where
  "gx_core ctx = (gx_my_id ctx, gx_vv ctx, gx_neighbor_ids ctx, gx_buffered_events ctx, gx_buffered_count ctx, gx_table_ok ctx)"

definition quiet :: "ekk_gossip_ctx \<Rightarrow> ekk_gossip_ctx \<Rightarrow> gossip_output list \<Rightarrow> bool" where
  "quiet ctx ctx' outs \<longleftrightarrow> gx_core ctx' = gx_core ctx \<and> (\<forall>k. delivered k outs = [])"

lemma quiet_refl: "quiet ctx ctx []" by (simp add: quiet_def)

lemma quiet_trans: "quiet r s as \<Longrightarrow> quiet s t bs \<Longrightarrow> quiet r t (as @ bs)" by (simp add: quiet_def)

lemma quiet_progress: "quiet s t outs \<Longrightarrow> progress S full s t outs"
  by (simp add: quiet_def gx_core_def progress_def gossip_inv_def)

lemma gx_core_simps [simp]:
  "gx_core (count_stat f ctx) = gx_core ctx"
  "gx_core (ctx\<lparr>gx_pending_events := p\<rparr>) = gx_core ctx"
  "gx_core (ctx\<lparr>gx_pending_count := n\<rparr>) = gx_core ctx"
  "gx_core (ctx\<lparr>gx_local_sequence := l\<rparr>) = gx_core ctx"
  "gx_core (ctx\<lparr>gx_last_gossip_tick := t\<rparr>) = gx_core ctx"
  "gx_core (ctx\<lparr>gx_last_sync := t\<rparr>) = gx_core ctx"
  "gx_core (ctx\<lparr>gx_stats := g\<rparr>) = gx_core ctx"
  by (simp_all add: gx_core_def count_stat_def gx_neighbor_ids_def gx_table_ok_def)

lemma quiet_send: "quiet ctx (fst (send_gossip_to_neighbor ctx k events)) (snd (send_gossip_to_neighbor ctx k events))"
  by (simp add: send_gossip_to_neighbor_def Let_def quiet_def)

lemma quiet_send_to_neighbors:
  "quiet ctx (fst (send_to_neighbors wanted events ctx)) (snd (send_to_neighbors wanted events ctx))"
  unfolding send_to_neighbors_def
  by (rule collect_rel [where R = quiet]) (auto simp: quiet_refl quiet_send intro: quiet_trans)

lemma gossip_inv_room: "gossip_inv S ctx \<Longrightarrow> k \<in> S \<Longrightarrow> vv_room (gx_vv ctx) k"
  unfolding gossip_inv_def by (blast intro: vv_room_card)

lemma gossip_inv_vv:
  assumes "gossip_inv S ctx" "vv_ok vv" "set (vv_keys vv) \<subseteq> S"
  shows "gossip_inv S (ctx\<lparr>gx_vv := vv\<rparr>)"
  using assms by (simp add: gossip_inv_def gx_table_ok_def gx_neighbor_ids_def)

lemma gossip_inv_set_vv:
  assumes "gossip_inv S ctx" "k \<in> S"
  shows "gossip_inv S (ctx\<lparr>gx_vv := snd (ekk_vv_set (gx_vv ctx) k x)\<rparr>)"
    "ekk_vv_get (snd (ekk_vv_set (gx_vv ctx) k x)) = (ekk_vv_get (gx_vv ctx))(k := x)"
proof -
  have "vv_ok (gx_vv ctx)" using assms(1) by (simp add: gossip_inv_def)
  note vv = vv_set_room [OF this gossip_inv_room [OF assms] refl, where x = x]
  show "gossip_inv S (ctx\<lparr>gx_vv := snd (ekk_vv_set (gx_vv ctx) k x)\<rparr>)"
    using assms vv by (intro gossip_inv_vv) (simp_all add: gossip_inv_def)
  show "ekk_vv_get (snd (ekk_vv_set (gx_vv ctx) k x)) = (ekk_vv_get (gx_vv ctx))(k := x)" by (rule vv)
qed

lemma progress_accept:
  assumes "ev_origin_id event \<in> S" "ev_origin_seq event \<noteq> 0"
    and "ev_origin_seq event = ekk_vv_get (gx_vv ctx) (ev_origin_id event) + 1"
  shows "progress S full ctx
     (ctx\<lparr>gx_vv := snd (ekk_vv_set (gx_vv ctx) (ev_origin_id event) (ev_origin_seq event))\<rparr>) [GsStore event, GsDeliver event]"
proof -
  have "advance full (ekk_vv_get (gx_vv ctx) (ev_origin_id event)) (ev_origin_seq event) [ev_origin_seq event]"
    using assms(2,3) by (intro advance_next) simp_all
  then show ?thesis
    using gossip_inv_set_vv [OF _ assms(1), where x = "ev_origin_seq event"] assms(3) by (simp add: progress_def)
qed

lemma gossip_inv_drop_buffered:
  assumes "gossip_inv S ctx" "i < gx_buffered_count ctx"
  shows "gossip_inv S (ctx\<lparr>gx_buffered_events := shift_down (gx_buffered_events ctx) i (gx_buffered_count ctx),
           gx_buffered_count := gx_buffered_count ctx - 1\<rparr>)"
proof -
  from assms have "gx_buffered_count ctx \<le> length (gx_buffered_events ctx)" by (simp add: gossip_inv_def)
  then have "set (take (gx_buffered_count ctx - 1) (shift_down (gx_buffered_events ctx) i (gx_buffered_count ctx)))
      \<subseteq> set (take (gx_buffered_count ctx) (gx_buffered_events ctx))"
    unfolding take_shift_down [OF \<open>gx_buffered_count ctx \<le> length (gx_buffered_events ctx)\<close> assms(2)]
    unfolding set_append using assms(2) by (intro Un_least set_take_subset_set_take set_drop_subset) simp
  with assms show ?thesis
    by (auto simp: gossip_inv_def gx_table_ok_def gx_neighbor_ids_def)
qed

lemma deliver_buffered_split:
  "deliver_buffered ctx i =
     (let ctx' = ctx\<lparr>gx_vv := snd (ekk_vv_set (gx_vv ctx) (ev_origin_id (gx_buffered_events ctx ! i)) (ev_origin_seq (gx_buffered_events ctx ! i)))\<rparr>
      in ctx'\<lparr>gx_buffered_events := shift_down (gx_buffered_events ctx') i (gx_buffered_count ctx'),
           gx_buffered_count := gx_buffered_count ctx' - 1\<rparr>)"
  by (simp add: deliver_buffered_def Let_def)

lemma progress_deliver_buffered:
  assumes "i < gx_buffered_count ctx" "event = gx_buffered_events ctx ! i"
    and "ev_origin_seq event = ekk_vv_get (gx_vv ctx) (ev_origin_id event) + 1"
  shows "progress S full ctx (deliver_buffered ctx i) [GsStore event, GsDeliver event]"
proof (cases "gossip_inv S ctx")
  case inv: True
  let ?ctx' = "ctx\<lparr>gx_vv := snd (ekk_vv_set (gx_vv ctx) (ev_origin_id event) (ev_origin_seq event))\<rparr>"
  from inv assms(1) have "event \<in> set (take (gx_buffered_count ctx) (gx_buffered_events ctx))"
    unfolding assms(2) by (intro set_take_nth) (simp_all add: gossip_inv_def)
  with inv have "ev_origin_id event \<in> S" "ev_origin_seq event \<noteq> 0" by (auto simp: gossip_inv_def)
  from progress_accept [OF this assms(3)] have "progress S full ctx ?ctx' [GsStore event, GsDeliver event]" .
  moreover have "progress S full ?ctx' (deliver_buffered ctx i) []"
    using gossip_inv_drop_buffered [of S ?ctx' i] assms(1)
    by (simp add: progress_def deliver_buffered_split assms(2) [symmetric] Let_def)
  ultimately show ?thesis using progress_trans by fastforce
qed (simp add: progress_def)

lemma progress_drain:
  "\<exists>new. snd (drain_buffered ctx i outs) = outs @ new \<and> progress S full ctx (fst (drain_buffered ctx i outs)) new"
proof (induction ctx i outs rule: drain_buffered.induct)
  case (1 ctx i outs)
  let ?e = "gx_buffered_events ctx ! i"
  consider (deliver) "i < gx_buffered_count ctx" "ev_origin_seq ?e = ekk_vv_get (gx_vv ctx) (ev_origin_id ?e) + 1"
    | (skip) "i < gx_buffered_count ctx" "ev_origin_seq ?e \<noteq> ekk_vv_get (gx_vv ctx) (ev_origin_id ?e) + 1"
    | (stop) "\<not> i < gx_buffered_count ctx" by blast
  then show ?case
  proof cases
    case deliver
    with 1(1) obtain new where
      "snd (drain_buffered (deliver_buffered ctx i) i (outs @ [GsStore ?e, GsDeliver ?e])) = (outs @ [GsStore ?e, GsDeliver ?e]) @ new"
      "progress S full (deliver_buffered ctx i) (fst (drain_buffered (deliver_buffered ctx i) i (outs @ [GsStore ?e, GsDeliver ?e]))) new"
      by blast
    with deliver progress_trans [OF progress_deliver_buffered [OF deliver(1) refl deliver(2)] this(2)] show ?thesis
      by (subst (1 2) drain_buffered.simps) (simp add: Let_def)
  next
    case skip
    with 1(2) show ?thesis by (subst (1 2) drain_buffered.simps) (simp add: Let_def)
  next
    case stop
    then show ?thesis by (subst (1 2) drain_buffered.simps) (simp add: progress_refl)
  qed
qed

lemma progress_handle_event:
  assumes "ev_origin_id event \<in> S"
  shows "progress S full ctx (fst (snd (ekk_gossip_handle_event ctx event sender)))
     (snd (snd (ekk_gossip_handle_event ctx event sender)))"
proof -
  let ?k = "ev_origin_id event" and ?x = "ev_origin_seq event"
  let ?c = "count_stat (\<lambda>t. t\<lparr>gt_events_received := gt_events_received t + 1\<rparr>) ctx"
  have c: "quiet ctx ?c []" by (simp add: quiet_def)
  have vv: "gx_vv ?c = gx_vv ctx" by (simp add: count_stat_def)
  consider (dup) "?x \<le> ekk_vv_get (gx_vv ?c) ?k" | (gap) "?x > ekk_vv_get (gx_vv ?c) ?k + 1" "\<not> ?x \<le> ekk_vv_get (gx_vv ?c) ?k"
    | (ok) "\<not> ?x \<le> ekk_vv_get (gx_vv ?c) ?k" "\<not> ?x > ekk_vv_get (gx_vv ?c) ?k + 1" by blast
  then show ?thesis
  proof cases
    case dup
    then show ?thesis
      by (intro quiet_progress) (simp add: ekk_gossip_handle_event_def Let_def quiet_def)
  next
    case gap
    have "progress S full ?c (fst (snd (ekk_gossip_handle_event ctx event sender)))
        (snd (snd (ekk_gossip_handle_event ctx event sender)))"
    proof (cases "gx_buffered_count ctx < 4")
      case True
      have "x \<noteq> 0" if "x > y" for x y :: u32 using that by (metis word_not_simps(1))
      with gap have "?x \<noteq> 0" by blast
      with gap assms True show ?thesis
        by (auto simp: progress_def ekk_gossip_handle_event_def Let_def gossip_inv_def gx_table_ok_def
            gx_neighbor_ids_def count_stat_def take_Suc_conv_app_nth)
    next
      case False
      with gap show ?thesis
        by (intro quiet_progress) (simp add: ekk_gossip_handle_event_def Let_def quiet_def count_stat_def)
    qed
    then show ?thesis using progress_trans [OF quiet_progress [OF c]] by fastforce
  next
    case ok
    have "ekk_vv_get (gx_vv ?c) ?k \<noteq> 0xFFFFFFFF"
    proof
      assume "ekk_vv_get (gx_vv ?c) ?k = 0xFFFFFFFF"
      with ok(1) unat_u32_less [of ?x] show False by (simp add: word_le_nat_alt)
    qed
    from unat_u32_Suc [OF this] have x: "?x = ekk_vv_get (gx_vv ?c) ?k + 1"
      using ok by (simp add: not_le not_less word_le_nat_alt word_less_nat_alt word_unat_eq_iff)
    have x0: "?x \<noteq> 0" using ok(1) by auto
    define d where "d = (if ev_hop_count event \<ge> EKK_GOSSIP_MAX_HOPS
      then count_stat (\<lambda>t. t\<lparr>gt_ttl_expired := gt_ttl_expired t + 1\<rparr>) ?c else ?c)"
    have d: "quiet ctx d []" and dv: "gx_vv d = gx_vv ?c" by (auto simp: d_def quiet_def count_stat_def)
    define e where "e = d\<lparr>gx_vv := snd (ekk_vv_set (gx_vv d) ?k ?x)\<rparr>"
    have e: "progress S full d e [GsStore event, GsDeliver event]"
      unfolding e_def by (rule progress_accept) (use assms x0 x dv in simp_all)
    define f where "f = (if ev_hop_count event < EKK_GOSSIP_MAX_HOPS
      then send_to_neighbors (\<lambda>k. k \<noteq> sender) [event\<lparr>ev_hop_count := ev_hop_count event + 1\<rparr>] e else (e, []))"
    have f: "quiet e (fst f) (snd f)" by (simp add: f_def quiet_send_to_neighbors quiet_refl)
    have res: "snd (ekk_gossip_handle_event ctx event sender) =
        drain_buffered (fst f) 0 ([GsStore event, GsDeliver event] @ snd f)"
      unfolding ekk_gossip_handle_event_def using ok
      by (simp add: Let_def f_def e_def d_def case_prod_beta)
    obtain new where new: "snd (drain_buffered (fst f) 0 ([GsStore event, GsDeliver event] @ snd f)) =
          ([GsStore event, GsDeliver event] @ snd f) @ new"
      "progress S full (fst f) (fst (drain_buffered (fst f) 0 ([GsStore event, GsDeliver event] @ snd f))) new"
      using progress_drain by blast
    have "progress S full ctx (fst (snd (ekk_gossip_handle_event ctx event sender)))
        (([] @ [GsStore event, GsDeliver event]) @ snd f @ new)"
      unfolding res
      by (rule progress_trans [OF progress_trans [OF quiet_progress [OF d] e] progress_trans [OF quiet_progress [OF f] new(2)]])
    then show ?thesis unfolding res using new(1) by simp
  qed
qed

lemma progress_emit:
  "progress S full ctx (fst (snd (ekk_gossip_emit ctx event_type payload hal_now)))
     (snd (snd (ekk_gossip_emit ctx event_type payload hal_now)))"
proof (cases "fst (ekk_gossip_emit ctx event_type payload hal_now) = EKK_OK")
  case True
  have "gossip_inv S (fst (snd (ekk_gossip_emit ctx event_type payload hal_now))) \<and>
      gx_my_id (fst (snd (ekk_gossip_emit ctx event_type payload hal_now))) = gx_my_id ctx \<and>
      (\<forall>k. k \<noteq> gx_my_id ctx \<longrightarrow> ekk_vv_get (gx_vv (fst (snd (ekk_gossip_emit ctx event_type payload hal_now)))) k
         = ekk_vv_get (gx_vv ctx) k \<and> delivered k (snd (snd (ekk_gossip_emit ctx event_type payload hal_now))) = [])"
    if inv: "gossip_inv S ctx"
  proof -
    from inv have "gx_my_id ctx \<in> S" by (simp add: gossip_inv_def)
    from gossip_inv_set_vv [OF inv this] True show ?thesis
      by (auto simp: ekk_gossip_emit_def Let_def ekk_vv_increment_def gossip_inv_def gx_table_ok_def gx_neighbor_ids_def
          split: if_splits)
  qed
  then show ?thesis by (simp add: progress_def)
next
  case False
  then have "snd (ekk_gossip_emit ctx event_type payload hal_now) = (ctx, [])"
    by (auto simp: ekk_gossip_emit_def Let_def split: if_splits)
  then show ?thesis by (simp add: progress_refl)
qed

lemma quiet_send_pending: "quiet ctx (fst (send_pending ctx)) (snd (send_pending ctx))"
proof -
  have batch: "quiet s (fst (collect (\<lambda>batch ctx. send_gossip_to_neighbor ctx k batch) bs s))
      (snd (collect (\<lambda>batch ctx. send_gossip_to_neighbor ctx k batch) bs s))" for k bs s
    by (rule collect_rel [where R = quiet]) (auto simp: quiet_refl quiet_send intro: quiet_trans)
  have "quiet ctx (fst (collect (\<lambda>k c. collect (\<lambda>batch ctx. send_gossip_to_neighbor ctx k batch) (bs c) c) ks ctx))
      (snd (collect (\<lambda>k c. collect (\<lambda>batch ctx. send_gossip_to_neighbor ctx k batch) (bs c) c) ks ctx))" for bs ks
    by (rule collect_rel [where R = quiet]) (auto simp: quiet_refl batch intro: quiet_trans)
  from this [where bs = "\<lambda>ctx. batches (take (gx_pending_count ctx) (gx_pending_events ctx))"] show ?thesis
    by (simp add: send_pending_def case_prod_beta quiet_def)
qed

lemma gx_core_sync:
  "gx_core (c\<lparr>gx_last_sync := now, gx_neighbors := map (sync_neighbor now) (take (gx_neighbor_count c) (gx_neighbors c))
      @ drop (gx_neighbor_count c) (gx_neighbors c)\<rparr>) = gx_core c"
proof -
  have "map ng_id (take n (map (sync_neighbor now) (take n xs) @ drop n xs)) = map ng_id (take n xs)" for n xs
    by (auto simp: sync_neighbor_def comp_def min_def)
  then show ?thesis by (auto simp: gx_core_def gx_neighbor_ids_def gx_table_ok_def)
qed

lemma quiet_tick: "quiet ctx (fst (snd (ekk_gossip_tick ctx now))) (snd (snd (ekk_gossip_tick ctx now)))"
  using quiet_send_pending [of "ctx\<lparr>gx_last_gossip_tick := now\<rparr>"]
  by (auto simp: ekk_gossip_tick_def Let_def case_prod_beta quiet_def gx_core_sync)

lemma progress_table:
  assumes "k \<in> S" "k \<noteq> EKK_INVALID_MODULE_ID"
  shows "progress S full ctx (snd (ekk_gossip_add_neighbor ctx k)) []"
    "progress S full ctx (snd (ekk_gossip_remove_neighbor ctx k)) []"
proof -
  have add: "gx_table_ok ctx \<Longrightarrow> set (gx_neighbor_ids (snd (ekk_gossip_add_neighbor ctx k))) \<subseteq> insert k (set (gx_neighbor_ids ctx))"
    using gx_table.add_known [of ctx k] gx_table.add_full [of ctx k] gx_table.add_new [of ctx k] gx_table.keys_limit [of ctx] assms(2)
    by (cases "k \<in> set (gx_neighbor_ids ctx)"; cases "length (gx_neighbor_ids ctx) = EKK_K_NEIGHBORS") auto
  have rem: "gx_table_ok ctx \<Longrightarrow> set (gx_neighbor_ids (snd (ekk_gossip_remove_neighbor ctx k))) \<subseteq> set (gx_neighbor_ids ctx)"
    using gx_table.remove_known [of ctx k] gx_table.remove_unknown [of ctx k] assms(2)
      set_remove1_subset [of k "gx_neighbor_ids ctx"]
    by (cases "k \<in> set (gx_neighbor_ids ctx)") auto
  have same: "gx_my_id c = gx_my_id ctx \<and> gx_vv c = gx_vv ctx \<and> gx_buffered_events c = gx_buffered_events ctx \<and>
      gx_buffered_count c = gx_buffered_count ctx"
    if "c = snd (ekk_gossip_add_neighbor ctx k) \<or> c = snd (ekk_gossip_remove_neighbor ctx k)" for c
    using that by (auto simp: ekk_gossip_add_neighbor_def ekk_gossip_remove_neighbor_def split: option.splits)
  show "progress S full ctx (snd (ekk_gossip_add_neighbor ctx k)) []"
    using add same [of "snd (ekk_gossip_add_neighbor ctx k)"] gx_table.inv_add [of ctx k] assms
    by (auto simp: progress_def gossip_inv_def)
  show "progress S full ctx (snd (ekk_gossip_remove_neighbor ctx k)) []"
    using rem same [of "snd (ekk_gossip_remove_neighbor ctx k)"] gx_table.inv_remove [of ctx k] assms
    by (auto simp: progress_def gossip_inv_def)
qed

section \<open>Replay\<close>

lemma replay_events_stop: "\<not> seq \<le> to_seq \<Longrightarrow> replay_events load requester to_seq seq st = Some st"
  by (subst replay_events.simps) simp

lemma replay_events_step:
  "seq \<le> to_seq \<Longrightarrow> replay_events load requester to_seq seq st =
     replay_events load requester to_seq (seq + 1) (replay_event load requester seq st)"
  by (subst replay_events.simps) simp

text \<open>The sequence numbers asked for, in order.\<close>

definition u32_range :: "u32 \<Rightarrow> u32 \<Rightarrow> u32 list" where
  "u32_range from_seq to_seq = map of_nat [unat from_seq..<Suc (unat to_seq)]"

lemma u32_range_empty: "\<not> a \<le> b \<Longrightarrow> u32_range a b = []"
  by (simp add: u32_range_def word_le_nat_alt)

lemma u32_range_Cons:
  assumes "a \<le> b" "b \<noteq> 0xFFFFFFFF"
  shows "u32_range a b = a # u32_range (a + 1) b"
proof -
  have "unat b \<noteq> unat (0xFFFFFFFF :: u32)" using assms(2) by (metis word_unat_eq_iff)
  then have "a \<noteq> 0xFFFFFFFF" using assms(1) unat_u32_less [of b] by (auto simp: word_le_nat_alt)
  then have "unat (a + 1) = Suc (unat a)" by (rule unat_u32_Suc)
  then show ?thesis using assms(1) by (simp add: u32_range_def word_le_nat_alt upt_conv_Cons del: upt_Suc)
qed

lemma replay_events_terminates:
  assumes "to_seq \<noteq> 0xFFFFFFFF"
  shows "replay_events load requester to_seq seq st = Some (fold (replay_event load requester) (u32_range seq to_seq) st)"
proof (induction "unat to_seq + 1 - unat seq" arbitrary: seq st)
  case 0
  then have "\<not> seq \<le> to_seq" by (simp add: word_le_nat_alt)
  then show ?case by (simp add: replay_events_stop u32_range_empty)
next
  case (Suc n)
  then have le: "seq \<le> to_seq" by (simp add: word_le_nat_alt)
  have "unat to_seq \<noteq> unat (0xFFFFFFFF :: u32)" using assms by (metis word_unat_eq_iff)
  then have "seq \<noteq> 0xFFFFFFFF" using le unat_u32_less [of to_seq] by (auto simp: word_le_nat_alt)
  then have "unat (seq + 1) = Suc (unat seq)" by (rule unat_u32_Suc)
  with Suc.hyps(2) have "n = unat to_seq + 1 - unat (seq + 1)" by simp
  from Suc.hyps(1) [OF this] le assms show ?case by (simp add: replay_events_step u32_range_Cons)
qed

text \<open>At the largest 32-bit value the loop condition is always true, so no number of iterations ends it.\<close>

lemma replay_events_returns_bound: "replay_events load requester to_seq seq st = Some r \<Longrightarrow> to_seq \<noteq> 0xFFFFFFFF"
proof (erule replay_events.raw_induct [where P = "\<lambda>load requester to_seq seq st r. to_seq \<noteq> 0xFFFFFFFF", rotated])
  fix rec :: "(u8 \<Rightarrow> u32 \<Rightarrow> ekk_event_v2 option) \<Rightarrow> u8 \<Rightarrow> u32 \<Rightarrow> u32 \<Rightarrow> ekk_gossip_ctx \<times> gossip_output list
      \<Rightarrow> (ekk_gossip_ctx \<times> gossip_output list) option"
  fix load requester and to_seq seq :: u32 and st r
  assume IH: "\<And>load requester to_seq seq st r. rec load requester to_seq seq st = Some r \<Longrightarrow> to_seq \<noteq> 0xFFFFFFFF"
    and step: "(if seq \<le> to_seq then rec load requester to_seq (seq + 1) (replay_event load requester seq st) else Some st) = Some r"
  have "seq \<le> 0xFFFFFFFF" using unat_u32_less [of seq] by (simp add: word_le_nat_alt)
  with IH step show "to_seq \<noteq> 0xFFFFFFFF" by (cases "seq \<le> to_seq") auto
qed

lemma replay_events_diverges: "replay_events load requester 0xFFFFFFFF seq st = None"
  using replay_events_returns_bound [of load requester "0xFFFFFFFF" seq st] by (cases "replay_events load requester 0xFFFFFFFF seq st") auto

definition replay_message :: "ekk_gossip_ctx \<Rightarrow> ekk_event_v2 \<Rightarrow> ekk_gossip_msg" where
  "replay_message ctx event =
     \<lparr>gm_source_module = gx_my_id ctx, gm_event_count = 1, gm_vv_summary = ekk_vv_to_summary (gx_vv ctx) (gx_neighbor_ids ctx),
      gm_events = [if ev_origin_id event \<noteq> gx_my_id ctx then event\<lparr>ev_hop_count := ev_hop_count event + 1\<rparr> else event, blank_event]\<rparr>"

lemma replay_message_core: "gx_core ctx' = gx_core ctx \<Longrightarrow> replay_message ctx' = replay_message ctx"
  by (simp add: gx_core_def replay_message_def fun_eq_iff)

lemma replay_event_conv:
  "fst (replay_event load requester seq (ctx, outs)) =
     (case load (gx_my_id ctx) seq of None \<Rightarrow> ctx
      | Some event \<Rightarrow> count_stat (\<lambda>t. t\<lparr>gt_events_sent := gt_events_sent t + 1, gt_gaps_filled := gt_gaps_filled t + 1\<rparr>) ctx)"
  "snd (replay_event load requester seq (ctx, outs)) =
     outs @ map (GsSend requester \<circ> replay_message ctx) (case load (gx_my_id ctx) seq of None \<Rightarrow> [] | Some event \<Rightarrow> [event])"
  by (simp_all add: replay_event_def send_gossip_to_neighbor_def replay_message_def count_stat_def Let_def split: option.split)

lemma fold_replay_event:
  "\<exists>ctx'. fold (replay_event load requester) seqs (ctx, outs) =
      (ctx', outs @ map (GsSend requester \<circ> replay_message ctx) (List.map_filter (load (gx_my_id ctx)) seqs)) \<and>
    gx_core ctx' = gx_core ctx \<and>
    gt_gaps_filled (gx_stats ctx') = gt_gaps_filled (gx_stats ctx) + of_nat (length (List.map_filter (load (gx_my_id ctx)) seqs))"
proof (induction seqs arbitrary: ctx outs)
  case Nil
  then show ?case by (simp add: map_filter_simps)
next
  case (Cons seq seqs)
  obtain c out where c: "replay_event load requester seq (ctx, outs) = (c, out)" by fastforce
  have core: "gx_core c = gx_core ctx"
    using replay_event_conv(1) [of load requester seq ctx outs] c by (auto split: option.splits)
  then have same: "replay_message c = replay_message ctx" "gx_my_id c = gx_my_id ctx"
    by (rule replay_message_core) (use core in \<open>simp add: gx_core_def\<close>)
  from Cons.IH [of c out] core same c replay_event_conv [of load requester seq ctx outs] show ?case
    by (cases "load (gx_my_id ctx) seq") (auto simp: map_filter_simps count_stat_def)
qed

text \<open>
  C24. A replay request makes the module send events exactly when it is addressed to it, and
  handling it ends exactly when the last sequence number asked for is not the largest 32-bit
  value: with \<open>to_seq = UINT32_MAX\<close> the loop never ends. When it ends, the requester is sent
  every stored event of the range, each in a message of its own, in order, and the counter of
  filled gaps grows by their number.
\<close>

theorem gossip_replay_exact:
  "(ekk_gossip_handle_msg load ctx (WireRequest req) = None \<longleftrightarrow>
      gr_target_origin req = gx_my_id ctx \<and> gr_to_seq req = 0xFFFFFFFF) \<and>
   (\<exists>ctx'. ekk_gossip_handle_msg load ctx (WireRequest req) =
      (if gr_target_origin req \<noteq> gx_my_id ctx then Some (EKK_OK, ctx, [])
       else if gr_to_seq req = 0xFFFFFFFF then None
       else Some (EKK_OK, ctx',
         map (GsSend (gr_requester req) \<circ> replay_message ctx)
           (List.map_filter (load (gx_my_id ctx)) (u32_range (gr_from_seq req) (gr_to_seq req))))) \<and>
      gt_gaps_filled (gx_stats ctx') = gt_gaps_filled (gx_stats ctx) +
        of_nat (length (List.map_filter (load (gx_my_id ctx)) (u32_range (gr_from_seq req) (gr_to_seq req)))))"
proof -
  obtain ctx' where ctx': "fold (replay_event load (gr_requester req)) (u32_range (gr_from_seq req) (gr_to_seq req)) (ctx, []) =
      (ctx', map (GsSend (gr_requester req) \<circ> replay_message ctx)
        (List.map_filter (load (gx_my_id ctx)) (u32_range (gr_from_seq req) (gr_to_seq req))))"
    "gt_gaps_filled (gx_stats ctx') = gt_gaps_filled (gx_stats ctx) +
      of_nat (length (List.map_filter (load (gx_my_id ctx)) (u32_range (gr_from_seq req) (gr_to_seq req))))"
    using fold_replay_event [of load "gr_requester req" "u32_range (gr_from_seq req) (gr_to_seq req)" ctx "[]"] by auto
  show ?thesis
  proof (cases "gr_to_seq req = 0xFFFFFFFF")
    case True
    with ctx'(2) show ?thesis
      by (auto simp: ekk_gossip_handle_msg_def replay_events_diverges intro!: exI [of _ ctx'])
  next
    case False
    with ctx' show ?thesis
      by (auto simp: ekk_gossip_handle_msg_def replay_events_terminates intro!: exI [of _ ctx'])
  qed
qed

section \<open>Runs\<close>

datatype gossip_op =
    GoEmit u8 "u8 list option" u64
  | GoTick u64
  | GoEvent ekk_event_v2 u8
  | GoMsg gossip_wire
  | GoAddNeighbor u8
  | GoRemoveNeighbor u8
  | GoResetStats

definition gossip_step ::
  "(u8 \<Rightarrow> u32 \<Rightarrow> ekk_event_v2 option) \<Rightarrow> ekk_gossip_ctx \<Rightarrow> gossip_op \<Rightarrow> (ekk_gossip_ctx \<times> gossip_output list) option"
where
  "gossip_step load ctx op =
     (case op of
        GoEmit event_type payload hal_now \<Rightarrow> Some (snd (ekk_gossip_emit ctx event_type payload hal_now))
      | GoTick now \<Rightarrow> Some (snd (ekk_gossip_tick ctx now))
      | GoEvent event sender \<Rightarrow> Some (snd (ekk_gossip_handle_event ctx event sender))
      | GoMsg wire \<Rightarrow> map_option snd (ekk_gossip_handle_msg load ctx wire)
      | GoAddNeighbor k \<Rightarrow> Some (snd (ekk_gossip_add_neighbor ctx k), [])
      | GoRemoveNeighbor k \<Rightarrow> Some (snd (ekk_gossip_remove_neighbor ctx k), [])
      | GoResetStats \<Rightarrow> Some (ekk_gossip_reset_stats ctx, []))"

primrec gossip_run ::
  "(u8 \<Rightarrow> u32 \<Rightarrow> ekk_event_v2 option) \<Rightarrow> ekk_gossip_ctx \<Rightarrow> gossip_op list \<Rightarrow> (ekk_gossip_ctx \<times> gossip_output list) option"
where
  "gossip_run load ctx [] = Some (ctx, [])"
| "gossip_run load ctx (op # ops) =
     (case gossip_step load ctx op of
        None \<Rightarrow> None
      | Some (ctx', outs) \<Rightarrow> map_option (\<lambda>(ctx'', outs'). (ctx'', outs @ outs')) (gossip_run load ctx' ops))"

text \<open>All modules mentioned are in \<open>S\<close>, and no request asks for the last sequence number.\<close>

definition op_within :: "u8 set \<Rightarrow> gossip_op \<Rightarrow> bool" where
  "op_within S op =
     (case op of
        GoEvent event sender \<Rightarrow> ev_origin_id event \<in> S
      | GoMsg (WireGossip msg) \<Rightarrow>
          list_all (\<lambda>event. ev_origin_id event \<in> S) (take (min (unat (gm_event_count msg)) EKK_GOSSIP_BATCH_SIZE) (gm_events msg))
      | GoMsg (WireRequest req) \<Rightarrow> gr_to_seq req \<noteq> 0xFFFFFFFF
      | GoAddNeighbor k \<Rightarrow> k \<in> S \<and> k \<noteq> EKK_INVALID_MODULE_ID
      | GoRemoveNeighbor k \<Rightarrow> k \<in> S \<and> k \<noteq> EKK_INVALID_MODULE_ID
      | _ \<Rightarrow> True)"

definition no_summary :: "gossip_op \<Rightarrow> bool" where
  "no_summary op = (case op of GoMsg (WireGossip msg) \<Rightarrow> False | _ \<Rightarrow> True)"

lemma vv_set_ok:
  assumes "vv_ok vv"
  shows "vv_ok (snd (ekk_vv_set vv k x)) \<and> set (vv_keys (snd (ekk_vv_set vv k x))) \<subseteq> insert k (set (vv_keys vv))"
  using vv_set_room [OF assms _ refl, of k x] vv_set_full [OF assms, of k x] assms by (cases "vv_room vv k") auto

lemma from_summary_ok:
  assumes "vv_ok vv"
  shows "vv_ok (ekk_vv_from_summary vv seqs ids) \<and>
     set (vv_keys (ekk_vv_from_summary vv seqs ids)) \<subseteq> set (vv_keys vv) \<union> set ids"
proof -
  have "vv_ok (fold (\<lambda>i vv. if seqs ! i > 0 then snd (ekk_vv_set vv (ids ! i) (ucast (seqs ! i))) else vv) is vv) \<and>
      set (vv_keys (fold (\<lambda>i vv. if seqs ! i > 0 then snd (ekk_vv_set vv (ids ! i) (ucast (seqs ! i))) else vv) is vv))
        \<subseteq> set (vv_keys vv) \<union> set ids" if "\<forall>i \<in> set is. i < length ids" for "is"
    using that assms
  proof (induction "is" arbitrary: vv)
    case (Cons i "is")
    let ?vv = "if seqs ! i > 0 then snd (ekk_vv_set vv (ids ! i) (ucast (seqs ! i))) else vv"
    have "ids ! i \<in> set ids" using Cons.prems(1) by simp
    then have "vv_ok ?vv \<and> set (vv_keys ?vv) \<subseteq> set (vv_keys vv) \<union> set ids"
      using vv_set_ok [OF Cons.prems(2), of "ids ! i" "ucast (seqs ! i)"] Cons.prems(2) by auto
    with Cons.IH [of ?vv] Cons.prems(1) show ?case by auto
  qed simp
  then show ?thesis unfolding ekk_vv_from_summary_def by simp
qed

lemma progress_merge_summary: "progress S False ctx (merge_summary ctx summary) []"
proof (cases "gossip_inv S ctx")
  case inv: True
  let ?r = "ekk_vv_from_summary ekk_vv_init summary (gx_neighbor_ids ctx)"
  from inv have ok: "vv_ok (gx_vv ctx)" "set (vv_keys (gx_vv ctx)) \<subseteq> S" "set (gx_neighbor_ids ctx) \<subseteq> S" "finite S" "card S \<le> VV_ENTRIES"
    by (simp_all add: gossip_inv_def)
  have r: "vv_ok ?r" "set (vv_keys ?r) \<subseteq> S" using from_summary_ok [of ekk_vv_init summary "gx_neighbor_ids ctx"] ok(3) by auto
  note merge = vv_merge_room [OF ok(1) r(1) Un_least [OF ok(2) r(2)] ok(4,5) refl]
  have "gossip_inv S (merge_summary ctx summary)"
    unfolding merge_summary_def by (rule gossip_inv_vv [OF inv merge(1,2)])
  then show ?thesis by (simp add: progress_def merge_summary_def merge(3) advance_skip)
qed (simp add: progress_def)

lemma gossip_step_progress:
  assumes "op_within S op"
  shows "\<exists>ctx' outs. gossip_step load ctx op = Some (ctx', outs) \<and> progress S (no_summary op) ctx ctx' outs"
proof (cases op)
  case (GoMsg wire)
  show ?thesis
  proof (cases wire)
    case (WireGossip msg)
    let ?events = "take (min (unat (gm_event_count msg)) EKK_GOSSIP_BATCH_SIZE) (gm_events msg)"
    let ?c = "fst (handle_gossip_events msg ctx)" and ?outs = "snd (handle_gossip_events msg ctx)"
    have "progress S False ctx ?c ?outs"
      unfolding handle_gossip_events_def
      by (rule collect_rel [where R = "progress S False"])
        (use assms GoMsg WireGossip in \<open>auto simp: progress_refl op_within_def list_all_iff
            intro: progress_trans progress_handle_event\<close>)
    from progress_trans [OF this progress_merge_summary] GoMsg WireGossip show ?thesis
      by (simp add: gossip_step_def ekk_gossip_handle_msg_def case_prod_beta no_summary_def)
  next
    case (WireRequest req)
    obtain ctx' where "fold (replay_event load (gr_requester req)) (u32_range (gr_from_seq req) (gr_to_seq req)) (ctx, []) =
        (ctx', map (GsSend (gr_requester req) \<circ> replay_message ctx)
          (List.map_filter (load (gx_my_id ctx)) (u32_range (gr_from_seq req) (gr_to_seq req))))"
      "gx_core ctx' = gx_core ctx"
      using fold_replay_event [of load "gr_requester req" "u32_range (gr_from_seq req) (gr_to_seq req)" ctx "[]"] by auto
    then have "quiet ctx ctx' (map (GsSend (gr_requester req) \<circ> replay_message ctx)
          (List.map_filter (load (gx_my_id ctx)) (u32_range (gr_from_seq req) (gr_to_seq req))))"
      by (simp add: quiet_def delivered_sends)
    then show ?thesis
      using assms GoMsg WireRequest \<open>fold _ _ _ = _\<close> progress_refl
      by (auto simp: gossip_step_def ekk_gossip_handle_msg_def op_within_def replay_events_terminates intro: quiet_progress)
  qed (use GoMsg in \<open>simp_all add: gossip_step_def ekk_gossip_handle_msg_def progress_refl\<close>)
next
  case GoResetStats
  then show ?thesis
    by (auto simp: gossip_step_def ekk_gossip_reset_stats_def quiet_def intro!: quiet_progress)
next
  case (GoEmit event_type payload hal_now)
  then show ?thesis using progress_emit by (simp add: gossip_step_def) (metis prod.collapse)
next
  case (GoTick now)
  then show ?thesis using quiet_progress [OF quiet_tick] by (simp add: gossip_step_def) (metis prod.collapse)
next
  case (GoEvent event sender)
  with assms have "ev_origin_id event \<in> S" by (simp add: op_within_def)
  from progress_handle_event [OF this] GoEvent show ?thesis by (simp add: gossip_step_def) (metis prod.collapse)
qed (use assms in \<open>simp_all add: gossip_step_def op_within_def progress_table\<close>)

lemma gossip_run_progress:
  "list_all (op_within S) ops \<Longrightarrow>
   \<exists>ctx' outs. gossip_run load ctx ops = Some (ctx', outs) \<and> progress S (list_all no_summary ops) ctx ctx' outs"
proof (induction ops arbitrary: ctx)
  case Nil
  then show ?case by (simp add: progress_refl)
next
  case (Cons op ops)
  then have "op_within S op" by simp
  then obtain c outs where c: "gossip_step load ctx op = Some (c, outs)" "progress S (no_summary op) ctx c outs"
    using gossip_step_progress by blast
  from Cons obtain c' outs' where c': "gossip_run load c ops = Some (c', outs')" "progress S (list_all no_summary ops) c c' outs'"
    by fastforce
  have "progress S (no_summary op \<and> list_all no_summary ops) ctx c' (outs @ outs')"
    using progress_trans [OF c(2)] progress_trans [OF progress_weaken [OF c(2)] progress_weaken [OF c'(2)]] c'(2)
    by (cases "no_summary op"; cases "list_all no_summary ops") auto
  with c(1) c'(1) show ?case by simp
qed

lemma gossip_inv_init:
  assumes "my_id \<noteq> EKK_INVALID_MODULE_ID" "finite S" "card S \<le> VV_ENTRIES" "my_id \<in> S"
  shows "gossip_inv S (snd (ekk_gossip_init ctx my_id))"
  using assms vv_set_ok [of ekk_vv_init my_id 0]
  by (auto simp: ekk_gossip_init_def gossip_inv_def gx_table_ok_def gx_neighbor_ids_def)

text \<open>
  C7. Delivery is in order and at most once. Let a run of the gossip layer, from a state that
  satisfies the invariant (initialisation does), mention at most eight modules and let no
  replay request ask for the last sequence number. Then the run completes and keeps the
  invariant, and for every other module the events delivered to the application have strictly
  increasing sequence numbers, above the one known before and up to the one known after,
  whatever duplicates, gaps and reorderings the messages have. As long as no version vector
  summary has been merged, nothing is left out either: exactly the sequence numbers between
  the two are delivered.
\<close>

theorem gossip_delivers_in_order:
  assumes "gossip_inv S ctx" "list_all (op_within S) ops" "k \<noteq> gx_my_id ctx"
  shows "\<exists>ctx' outs. gossip_run load ctx ops = Some (ctx', outs) \<and> gossip_inv S ctx' \<and>
     sorted_wrt (<) (delivered k outs) \<and>
     set (delivered k outs) \<subseteq> {ekk_vv_get (gx_vv ctx) k <.. ekk_vv_get (gx_vv ctx') k} \<and>
     (list_all no_summary ops \<longrightarrow>
        map unat (delivered k outs) = [Suc (unat (ekk_vv_get (gx_vv ctx) k))..<Suc (unat (ekk_vv_get (gx_vv ctx') k))])"
proof -
  obtain ctx' outs where r: "gossip_run load ctx ops = Some (ctx', outs)" "progress S (list_all no_summary ops) ctx ctx' outs"
    using gossip_run_progress [OF assms(2)] by blast
  with assms(1,3) have "gossip_inv S ctx'"
    "advance (list_all no_summary ops) (ekk_vv_get (gx_vv ctx) k) (ekk_vv_get (gx_vv ctx') k) (delivered k outs)"
    by (simp_all add: progress_def)
  then show ?thesis using r(1) by (intro exI [of _ ctx'] exI [of _ outs]) (auto simp: advance_def)
qed

definition example_event :: "u8 \<Rightarrow> u32 \<Rightarrow> ekk_event_v2" where
  "example_event origin seq = blank_event\<lparr>ev_origin_id := origin, ev_origin_seq := seq\<rparr>"

definition gossip_fresh :: ekk_gossip_ctx where
  "gossip_fresh = \<lparr>gx_my_id = 1, gx_vv = ekk_vv_init, gx_local_sequence = 1, gx_neighbors = [], gx_neighbor_count = 0,
     gx_pending_events = [], gx_pending_count = 0, gx_buffered_events = [], gx_buffered_count = 0,
     gx_last_gossip_tick = 0, gx_last_sync = 0, gx_stats = blank_stats\<rparr>"

definition example_gossip :: ekk_gossip_ctx where
  "example_gossip = snd (ekk_gossip_init gossip_fresh 1)"

theorem gossip_delivers_in_order_witness:
  "\<exists>ctx' outs. gossip_run (\<lambda>_ _. None) example_gossip
       [GoAddNeighbor 2, GoEvent (example_event 2 2) 2, GoEvent (example_event 2 1) 2, GoEvent (example_event 2 1) 2] = Some (ctx', outs) \<and>
     map unat (delivered 2 outs) = [Suc (unat (ekk_vv_get (gx_vv example_gossip) 2))..<Suc (unat (ekk_vv_get (gx_vv ctx') 2))]"
proof -
  have inv: "gossip_inv {1, 2} example_gossip"
    unfolding example_gossip_def by (rule gossip_inv_init) simp_all
  have me: "2 \<noteq> gx_my_id example_gossip" by code_simp
  have ops: "list_all (op_within {1, 2})
      [GoAddNeighbor 2, GoEvent (example_event 2 2) 2, GoEvent (example_event 2 1) 2, GoEvent (example_event 2 1) 2]"
    by (simp add: op_within_def example_event_def)
  from gossip_delivers_in_order [OF inv ops me, of "\<lambda>_ _. None"] show ?thesis
    by (auto simp: no_summary_def simp del: upt_Suc)
qed

text \<open>
  The two ways events get lost. A summary is decoded with the receiver's own order of neighbors
  and merged as if its events had been delivered: an event that arrives later is a duplicate.
\<close>

definition summary_only :: ekk_gossip_msg where
  "summary_only = \<lparr>gm_source_module = 2, gm_event_count = 0, gm_vv_summary = [1, 0, 0, 0, 0, 0, 0], gm_events = [blank_event, blank_event]\<rparr>"

lemma gossip_summary_loses_event:
  "map_option (\<lambda>(ctx, outs). (ekk_vv_get (gx_vv ctx) 3, delivered 3 outs))
     (gossip_run (\<lambda>_ _. None) example_gossip [GoAddNeighbor 3, GoMsg (WireGossip summary_only), GoEvent (example_event 3 1) 2])
   = Some (1, [])"
  by code_simp

text \<open>The pass over the buffer does not go back: after 3 and 2 are buffered and 1 arrives, 3 stays behind.\<close>

lemma gossip_single_pass:
  "map_option (\<lambda>(ctx, outs). (delivered 2 outs, gx_buffered_count ctx))
     (gossip_run (\<lambda>_ _. None) example_gossip
       [GoEvent (example_event 2 3) 2, GoEvent (example_event 2 2) 2, GoEvent (example_event 2 1) 2])
   = Some ([1, 2], 1)"
  by code_simp

text \<open>With nine modules the vector is full, and every copy of the ninth module's first event is delivered.\<close>

lemma gossip_full_vector_redelivers:
  "map_option (\<lambda>(ctx, outs). delivered 9 outs)
     (gossip_run (\<lambda>_ _. None) example_gossip
       (map (\<lambda>k. GoEvent (example_event k 1) 2) [2, 3, 4, 5, 6, 7, 8, 9, 9])) = Some [1, 1]"
  by code_simp

end
