(* ===== verification/Ekk_Stream_Index.thy ===== *)
theory Ekk_Stream_Index
  imports Ekk_Types
begin

text \<open>
  The in-memory index of the gateway's event log (\<open>src/ekk_stream_index.c\<close>,
  \<open>include/ekk/ekk_gateway.h\<close>): entries appended in order, the first and last entry of every
  stream, and queries by sequence number, time, stream and type. The caller's entry buffer is the
  list \<open>sx_entries\<close>, whose length is the capacity; indices and counts stay below the 32-bit
  sentinel 0xFFFFFFFF and are natural numbers.
\<close>

section \<open>State\<close>

abbreviation (input) EKK_GATEWAY_MAX_MODULES :: nat where "EKK_GATEWAY_MAX_MODULES \<equiv> 256"
abbreviation (input) NO_INDEX :: nat where "NO_INDEX \<equiv> 0xFFFFFFFF"

record ekk_index_entry =
  ie_global_seq :: u32
  ie_flash_offset :: u32
  ie_timestamp_us :: u32
  ie_stream_seq :: u16
  ie_stream_id :: u8
  ie_event_type :: u8

record ekk_stream_state =
  ss_module_id :: u8
  ss_sequence :: u32
  ss_event_count :: u32
  ss_first_index :: nat
  ss_last_index :: nat
  ss_last_timestamp_us :: u32

record ekk_stream_index =
  sx_entries :: "ekk_index_entry list"
  sx_capacity :: nat
  sx_count :: nat
  sx_oldest_seq :: u32
  sx_newest_seq :: u32
  sx_streams :: "ekk_stream_state list"
  sx_stream_count :: u8

definition blank_stream :: ekk_stream_state where
  "blank_stream = \<lparr>ss_module_id = 0, ss_sequence = 0, ss_event_count = 0, ss_first_index = 0, ss_last_index = 0,
     ss_last_timestamp_us = 0\<rparr>"

section \<open>Searching\<close>

function binary_search :: "('a \<Rightarrow> bool) \<Rightarrow> 'a list \<Rightarrow> nat \<Rightarrow> nat \<Rightarrow> nat" where
  "binary_search below xs lo hi =
     (if lo < hi
      then (let mid = lo + (hi - lo) div 2
            in if below (xs ! mid) then binary_search below xs (mid + 1) hi else binary_search below xs lo mid)
      else lo)"
  by pat_completeness auto
termination
  by (relation "measure (\<lambda>(below, xs, lo, hi). hi - lo)") auto

declare binary_search.simps [simp del]

definition binary_search_time :: "ekk_stream_index \<Rightarrow> u32 \<Rightarrow> nat" where
  "binary_search_time index target_time_us =
     (if sx_count index = 0 then 0
      else binary_search (\<lambda>e. ie_timestamp_us e < target_time_us) (sx_entries index) 0 (sx_count index))"

definition binary_search_seq :: "ekk_stream_index \<Rightarrow> u32 \<Rightarrow> nat" where
  "binary_search_seq index target_seq =
     (if sx_count index = 0 then 0
      else binary_search (\<lambda>e. ie_global_seq e < target_seq) (sx_entries index) 0 (sx_count index))"

definition find_stream :: "ekk_stream_index \<Rightarrow> u8 \<Rightarrow> nat option" where
  "find_stream index stream_id =
     find_from (\<lambda>s. ss_module_id s = stream_id) (sx_streams index) 0 (unat (sx_stream_count index))"

text \<open>
  The number of streams is a byte, which is compared with 256 as an integer: the comparison
  never holds, and the 256th stream makes the number 0 again.
\<close>

definition create_stream :: "ekk_stream_index \<Rightarrow> u8 \<Rightarrow> (nat \<times> ekk_stream_index) option" where
  "create_stream index stream_id =
     (if unat (sx_stream_count index) \<ge> EKK_GATEWAY_MAX_MODULES then None
      else (let i = unat (sx_stream_count index)
            in Some (i, index\<lparr>sx_streams := (sx_streams index)[i := blank_stream
                 \<lparr>ss_module_id := stream_id, ss_first_index := NO_INDEX, ss_last_index := NO_INDEX\<rparr>],
                 sx_stream_count := sx_stream_count index + 1\<rparr>)))"

section \<open>Operations\<close>

definition ekk_stream_index_init :: "ekk_index_entry list \<Rightarrow> nat \<Rightarrow> ekk_error \<times> ekk_stream_index option" where
  "ekk_stream_index_init buffer capacity =
     (if capacity = 0 then (EKK_ERR_INVALID_ARG, None)
      else (EKK_OK, Some \<lparr>sx_entries = buffer, sx_capacity = capacity, sx_count = 0, sx_oldest_seq = 0, sx_newest_seq = 0,
         sx_streams = replicate EKK_GATEWAY_MAX_MODULES blank_stream, sx_stream_count = 0\<rparr>))"

definition stream_append :: "nat \<Rightarrow> ekk_index_entry \<Rightarrow> ekk_stream_state \<Rightarrow> ekk_stream_state" where
  "stream_append idx entry stream =
     (let stream = (if ss_first_index stream = NO_INDEX then stream\<lparr>ss_first_index := idx\<rparr> else stream)
      in stream\<lparr>ss_last_index := idx, ss_sequence := ss_sequence stream + 1,
           ss_event_count := ss_event_count stream + 1, ss_last_timestamp_us := ie_timestamp_us entry\<rparr>)"

definition ekk_stream_index_add :: "ekk_stream_index \<Rightarrow> ekk_index_entry \<Rightarrow> ekk_error \<times> ekk_stream_index" where
  "ekk_stream_index_add index entry =
     (if sx_count index \<ge> sx_capacity index then (EKK_ERR_NO_MEMORY, index)
      else
        (case (case find_stream index (ie_stream_id entry) of
                 Some i \<Rightarrow> Some (i, index) | None \<Rightarrow> create_stream index (ie_stream_id entry)) of
           None \<Rightarrow> (EKK_ERR_NO_MEMORY, index)
         | Some (i, index) \<Rightarrow>
             (let idx = sx_count index;
                  index = index\<lparr>sx_entries := (sx_entries index)[idx := entry], sx_count := idx + 1,
                    sx_streams := (sx_streams index)[i := stream_append idx entry (sx_streams index ! i)]\<rparr>;
                  index = (if idx = 0 \<or> ie_global_seq entry < sx_oldest_seq index
                           then index\<lparr>sx_oldest_seq := ie_global_seq entry\<rparr> else index);
                  index = (if ie_global_seq entry > sx_newest_seq index
                           then index\<lparr>sx_newest_seq := ie_global_seq entry\<rparr> else index)
              in (EKK_OK, index))))"

text \<open>\<open>while (end < n && P(a[end])) end++;\<close>\<close>

function scan_while :: "('a \<Rightarrow> bool) \<Rightarrow> 'a list \<Rightarrow> nat \<Rightarrow> nat \<Rightarrow> nat" where
  "scan_while P xs i n = (if i < n \<and> P (xs ! i) then scan_while P xs (Suc i) n else i)"
  by pat_completeness auto
termination
  by (relation "measure (\<lambda>(P, xs, i, n). n - i)") auto

declare scan_while.simps [simp del]

definition range_result :: "nat \<Rightarrow> nat \<Rightarrow> ekk_error \<times> nat \<times> nat" where
  "range_result start stop = (if stop - start > 0 then EKK_OK else EKK_ERR_NOT_FOUND, start, stop - start)"

definition ekk_stream_index_find_seq :: "ekk_stream_index \<Rightarrow> u32 \<Rightarrow> u32 \<Rightarrow> ekk_error \<times> nat \<times> nat" where
  "ekk_stream_index_find_seq index from_seq to_seq =
     (if sx_count index = 0 then (EKK_ERR_NOT_FOUND, 0, 0)
      else (let start = binary_search_seq index from_seq
            in if start \<ge> sx_count index then (EKK_ERR_NOT_FOUND, 0, 0)
               else range_result start
                 (scan_while (\<lambda>e. ie_global_seq e \<le> to_seq) (sx_entries index) start (sx_count index))))"

definition ekk_stream_index_find_time :: "ekk_stream_index \<Rightarrow> u32 \<Rightarrow> u32 \<Rightarrow> ekk_error \<times> nat \<times> nat" where
  "ekk_stream_index_find_time index from_time_us to_time_us =
     (if sx_count index = 0 then (EKK_ERR_NOT_FOUND, 0, 0)
      else (let start = binary_search_time index from_time_us
            in if start \<ge> sx_count index then (EKK_ERR_NOT_FOUND, 0, 0)
               else range_result start
                 (scan_while (\<lambda>e. ie_timestamp_us e \<le> to_time_us) (sx_entries index) start (sx_count index))))"

definition ekk_stream_index_find_stream :: "ekk_stream_index \<Rightarrow> u8 \<Rightarrow> u32 \<Rightarrow> ekk_error \<times> nat \<times> nat" where
  "ekk_stream_index_find_stream index stream_id from_stream_seq =
     (case find_stream index stream_id of
        None \<Rightarrow> (EKK_ERR_NOT_FOUND, 0, 0)
      | Some k \<Rightarrow>
          (let stream = sx_streams index ! k
           in if ss_first_index stream = NO_INDEX then (EKK_ERR_NOT_FOUND, 0, 0)
              else
                (let (found_first, found_count) = fold (\<lambda>i (found_first, found_count).
                        let entry = sx_entries index ! i
                        in if ie_stream_id entry = stream_id \<and> ucast (ie_stream_seq entry) \<ge> from_stream_seq
                           then (if found_first = NO_INDEX then i else found_first, found_count + 1)
                           else (found_first, found_count))
                      [ss_first_index stream..<min (Suc (ss_last_index stream)) (sx_count index)] (NO_INDEX, 0)
                 in if found_first = NO_INDEX then (EKK_ERR_NOT_FOUND, 0, 0) else (EKK_OK, found_first, found_count))))"

definition ekk_stream_index_get :: "ekk_stream_index \<Rightarrow> nat \<Rightarrow> ekk_index_entry option" where
  "ekk_stream_index_get index idx = (if idx \<ge> sx_count index then None else Some (sx_entries index ! idx))"

text \<open>The results are the event count and, unless the stream is empty, its first and last number.\<close>

definition ekk_stream_index_stream_info ::
  "ekk_stream_index \<Rightarrow> u8 \<Rightarrow> ekk_error \<times> (u32 \<times> u16 option \<times> u16 option) option"
where
  "ekk_stream_index_stream_info index stream_id =
     (case find_stream index stream_id of
        None \<Rightarrow> (EKK_ERR_NOT_FOUND, None)
      | Some k \<Rightarrow>
          (let stream = sx_streams index ! k
           in (EKK_OK, Some (ss_event_count stream,
                if ss_first_index stream \<noteq> NO_INDEX then Some (ie_stream_seq (sx_entries index ! ss_first_index stream)) else None,
                if ss_last_index stream \<noteq> NO_INDEX then Some (ie_stream_seq (sx_entries index ! ss_last_index stream)) else None))))"

definition ekk_stream_index_list_streams :: "ekk_stream_index \<Rightarrow> nat \<Rightarrow> u8 list" where
  "ekk_stream_index_list_streams index max_count =
     map (\<lambda>i. ss_module_id (sx_streams index ! i)) [0..<min (unat (sx_stream_count index)) max_count]"

function find_by_type_from :: "ekk_stream_index \<Rightarrow> u8 \<Rightarrow> nat \<Rightarrow> nat \<Rightarrow> nat list \<Rightarrow> nat list" where
  "find_by_type_from index event_type max_count i out =
     (if i < sx_count index \<and> length out < max_count
      then find_by_type_from index event_type max_count (Suc i)
        (if ie_event_type (sx_entries index ! i) = event_type then out @ [i] else out)
      else out)"
  by pat_completeness auto
termination
  by (relation "measure (\<lambda>(index, event_type, max_count, i, out). sx_count index - i)") auto

declare find_by_type_from.simps [simp del]

definition ekk_stream_index_find_by_type :: "ekk_stream_index \<Rightarrow> u8 \<Rightarrow> nat \<Rightarrow> nat list" where
  "ekk_stream_index_find_by_type index event_type max_count = find_by_type_from index event_type max_count 0 []"

definition ekk_stream_index_count_by_type :: "ekk_stream_index \<Rightarrow> u8 \<Rightarrow> nat" where
  "ekk_stream_index_count_by_type index event_type =
     fold (\<lambda>i n. if ie_event_type (sx_entries index ! i) = event_type then n + 1 else n) [0..<sx_count index] 0"

definition ekk_stream_index_stats :: "ekk_stream_index \<Rightarrow> nat \<times> u8 \<times> u32" where
  "ekk_stream_index_stats index =
     (sx_count index, sx_stream_count index, of_nat (sx_count index) * 100 div of_nat (sx_capacity index))"

text \<open>The loop counter of the reset is a byte that is compared with 256.\<close>

partial_function (option) clear_streams :: "ekk_stream_state list \<Rightarrow> u8 \<Rightarrow> ekk_stream_state list option" where
  "clear_streams streams i =
     (if unat i < EKK_GATEWAY_MAX_MODULES then clear_streams (streams[unat i := blank_stream]) (i + 1) else Some streams)"

definition ekk_stream_index_reset :: "ekk_stream_index \<Rightarrow> ekk_stream_index option" where
  "ekk_stream_index_reset index =
     map_option (\<lambda>streams. index\<lparr>sx_count := 0, sx_stream_count := 0, sx_oldest_seq := 0, sx_newest_seq := 0, sx_streams := streams\<rparr>)
       (clear_streams (sx_streams index) 0)"

section \<open>Searching\<close>

lemma binary_search_spec:
  assumes "lo \<le> hi" "\<And>i j. lo \<le> i \<Longrightarrow> i \<le> j \<Longrightarrow> j < hi \<Longrightarrow> below (xs ! j) \<Longrightarrow> below (xs ! i)"
  shows "lo \<le> binary_search below xs lo hi \<and> binary_search below xs lo hi \<le> hi \<and>
    (\<forall>i. lo \<le> i \<and> i < hi \<longrightarrow> (below (xs ! i) \<longleftrightarrow> i < binary_search below xs lo hi))"
  using assms
proof (induction below xs lo hi rule: binary_search.induct)
  case (1 below xs lo hi)
  show ?case
  proof (cases "lo < hi")
    case False
    then have "binary_search below xs lo hi = lo" by (subst binary_search.simps) simp
    with 1(3) False show ?thesis by auto
  next
    case True
    define mid where "mid = lo + (hi - lo) div 2"
    have mid: "lo \<le> mid" "mid < hi" using True by (simp_all add: mid_def)
    show ?thesis
    proof (cases "below (xs ! mid)")
      case b: True
      let ?r = "binary_search below xs (mid + 1) hi"
      have r: "binary_search below xs lo hi = ?r"
        using True b by (simp add: binary_search.simps [of below xs lo hi] Let_def flip: mid_def)
      have IH: "mid + 1 \<le> ?r \<and> ?r \<le> hi \<and> (\<forall>i. mid + 1 \<le> i \<and> i < hi \<longrightarrow> (below (xs ! i) \<longleftrightarrow> i < ?r))"
        using mid 1(4) b True by (intro 1(1) mid_def) (auto simp: mid_def)
      show ?thesis unfolding r
      proof (intro conjI allI impI)
        show "lo \<le> ?r" "?r \<le> hi" using IH mid by simp_all
        fix i assume i: "lo \<le> i \<and> i < hi"
        show "below (xs ! i) \<longleftrightarrow> i < ?r"
        proof (cases "i \<le> mid")
          case True
          then show ?thesis using 1(4) [of i mid] i b mid IH by simp
        next
          case False
          then show ?thesis using IH i by simp
        qed
      qed
    next
      case b: False
      let ?r = "binary_search below xs lo mid"
      have r: "binary_search below xs lo hi = ?r"
        using True b by (simp add: binary_search.simps [of below xs lo hi] Let_def flip: mid_def)
      have IH: "lo \<le> ?r \<and> ?r \<le> mid \<and> (\<forall>i. lo \<le> i \<and> i < mid \<longrightarrow> (below (xs ! i) \<longleftrightarrow> i < ?r))"
        using mid 1(4) b True by (intro 1(2) mid_def) (auto simp: mid_def)
      show ?thesis unfolding r
      proof (intro conjI allI impI)
        show "lo \<le> ?r" "?r \<le> hi" using IH mid by simp_all
        fix i assume i: "lo \<le> i \<and> i < hi"
        show "below (xs ! i) \<longleftrightarrow> i < ?r"
        proof (cases "i < mid")
          case True
          then show ?thesis using IH i by simp
        next
          case False
          then show ?thesis using 1(4) [of mid i] i b mid IH by auto
        qed
      qed
    qed
  qed
qed

lemma scan_while_spec:
  "i \<le> n \<Longrightarrow> i \<le> scan_while P xs i n \<and> scan_while P xs i n \<le> n \<and>
   (\<forall>k. i \<le> k \<and> k < scan_while P xs i n \<longrightarrow> P (xs ! k)) \<and> (scan_while P xs i n < n \<longrightarrow> \<not> P (xs ! scan_while P xs i n))"
proof (induction P xs i n rule: scan_while.induct)
  case (1 P xs i n)
  show ?case
  proof (cases "i < n \<and> P (xs ! i)")
    case True
    with 1 show ?thesis
      by (auto simp: scan_while.simps [of P xs i n]) (metis Suc_leI le_neq_implies_less)+
  next
    case False
    then show ?thesis using 1(2) by (auto simp: scan_while.simps [of P xs i n])
  qed
qed

text \<open>The positions, in order, of the entries that satisfy a condition.\<close>

definition positions :: "('a \<Rightarrow> bool) \<Rightarrow> 'a list \<Rightarrow> nat list" where
  "positions P xs = filter (\<lambda>i. P (xs ! i)) [0..<length xs]"

lemma positions_append: "positions P (xs @ [x]) = positions P xs @ (if P x then [length xs] else [])"
  unfolding positions_def by (auto simp: nth_append intro: filter_cong)

lemma positions_less: "i \<in> set (positions P xs) \<Longrightarrow> i < length xs \<and> P (xs ! i)"
  by (auto simp: positions_def)

lemma sorted_positions: "sorted (positions P xs)"
  by (simp add: positions_def sorted_wrt_filter)

lemma upt_split3: "a \<le> b \<Longrightarrow> b \<le> n \<Longrightarrow> [0..<n] = [0..<a] @ [a..<b] @ [b..<n]"
  using upt_add_eq_append [of 0 a "n - a"] upt_add_eq_append [of a b "n - b"] by simp

lemma positions_interval:
  assumes "start \<le> stop" "stop \<le> length xs" "\<And>i. i < length xs \<Longrightarrow> P (xs ! i) \<longleftrightarrow> start \<le> i \<and> i < stop"
  shows "positions P xs = [start..<stop]"
proof -
  show ?thesis
    using assms by (simp add: positions_def filter_empty_conv upt_split3 [OF assms(1,2)])
qed

text \<open>A range query over sorted keys: binary search, then a scan.\<close>

lemma range_query:
  fixes key :: "'a \<Rightarrow> u32" and a b :: u32 and xs :: "'a list" and n :: nat
  assumes "sorted (map key (take n xs))" "n \<le> length xs" "0 < n"
  defines "start \<equiv> binary_search (\<lambda>e. key e < a) xs 0 n"
  shows "positions (\<lambda>e. a \<le> key e \<and> key e \<le> b) (take n xs) =
    (if start \<ge> n then [] else [start..<scan_while (\<lambda>e. key e \<le> b) xs start n])"
proof -
  have mono: "key (xs ! i) \<le> key (xs ! j)" if "i \<le> j" "j < n" for i j
    using sorted_nth_mono [OF assms(1), of i j] that assms(2) by simp
  have s: "start \<le> n" "\<And>i. i < n \<Longrightarrow> key (xs ! i) < a \<longleftrightarrow> i < start"
    using binary_search_spec [of 0 n "\<lambda>e. key e < a" xs] mono unfolding start_def by (auto intro: le_less_trans)
  show ?thesis
  proof (cases "start \<ge> n")
    case True
    then show ?thesis using s assms(2) by (auto simp: positions_def filter_empty_conv not_le)
  next
    case False
    let ?stop = "scan_while (\<lambda>e. key e \<le> b) xs start n"
    have st: "start \<le> ?stop" "?stop \<le> n" "\<And>k. start \<le> k \<Longrightarrow> k < ?stop \<Longrightarrow> key (xs ! k) \<le> b"
      "?stop < n \<Longrightarrow> \<not> key (xs ! ?stop) \<le> b"
      using scan_while_spec [OF s(1), of "\<lambda>e. key e \<le> b" xs] by auto
    have "positions (\<lambda>e. a \<le> key e \<and> key e \<le> b) (take n xs) = [start..<?stop]"
    proof (rule positions_interval)
      fix i assume "i < length (take n xs)"
      then have i: "i < n" by simp
      have "start \<le> i \<Longrightarrow> key (xs ! i) \<le> b \<longleftrightarrow> i < ?stop"
        using st(3) [of i] st(4) mono [of ?stop i] i by (meson le_less_trans not_less order_trans)
      with s(2) [OF i] i show "a \<le> key (take n xs ! i) \<and> key (take n xs ! i) \<le> b \<longleftrightarrow> start \<le> i \<and> i < ?stop"
        by (auto simp: not_less)
    qed (use st assms(2) in simp_all)
    with False show ?thesis by simp
  qed
qed

section \<open>What the index holds\<close>

definition of_stream :: "u8 \<Rightarrow> ekk_index_entry \<Rightarrow> bool" where
  "of_stream stream_id e \<longleftrightarrow> ie_stream_id e = stream_id"

abbreviation stream_ids :: "ekk_stream_index \<Rightarrow> u8 list" where
  "stream_ids index \<equiv> map ss_module_id (take (unat (sx_stream_count index)) (sx_streams index))"

text \<open>The index after the entries \<open>es\<close>: the buffer holds them, and every stream its first and last one.\<close>

definition indexes :: "ekk_index_entry list \<Rightarrow> ekk_stream_index \<Rightarrow> bool" where
  "indexes es index \<longleftrightarrow>
     length (sx_entries index) = sx_capacity index \<and> sx_capacity index \<le> NO_INDEX \<and> sx_count index = length es \<and>
     length es \<le> sx_capacity index \<and> take (length es) (sx_entries index) = es \<and>
     length (sx_streams index) = EKK_GATEWAY_MAX_MODULES \<and> distinct (stream_ids index) \<and>
     set (stream_ids index) = ie_stream_id ` set es \<and>
     (\<forall>k < unat (sx_stream_count index).
        (let stream = sx_streams index ! k; js = positions (of_stream (ss_module_id stream)) es
         in ss_first_index stream = hd js \<and> ss_last_index stream = last js \<and> ss_event_count stream = of_nat (length js)))"

lemma positions_nonempty: "positions P xs \<noteq> [] \<longleftrightarrow> (\<exists>x \<in> set xs. P x)"
  by (force simp: positions_def filter_empty_conv in_set_conv_nth)

lemma no_positions:
  assumes "s \<notin> ie_stream_id ` set es" "\<And>e. P e \<Longrightarrow> ie_stream_id e = s"
  shows "positions P es = []"
proof (rule ccontr)
  assume "positions P es \<noteq> []"
  then obtain e where "e \<in> set es" "P e" by (auto simp: positions_nonempty)
  with assms show False by (metis image_eqI)
qed

lemma find_stream_result:
  assumes "indexes es index"
  shows "find_stream index s = None \<longleftrightarrow> s \<notin> ie_stream_id ` set es"
    and "find_stream index s = Some k \<Longrightarrow> k < unat (sx_stream_count index) \<and> ss_module_id (sx_streams index ! k) = s"
proof -
  have "unat (sx_stream_count index) \<le> length (sx_streams index)"
    using assms unat_u8_less [of "sx_stream_count index"] by (simp add: indexes_def)
  then have "find_stream index s = None \<longleftrightarrow> s \<notin> set (stream_ids index)"
    unfolding find_stream_def by (subst find_from_None_live) auto
  with assms show "find_stream index s = None \<longleftrightarrow> s \<notin> ie_stream_id ` set es" by (simp add: indexes_def)
  show "find_stream index s = Some k \<Longrightarrow> k < unat (sx_stream_count index) \<and> ss_module_id (sx_streams index ! k) = s"
    unfolding find_stream_def by (blast dest: find_from_SomeD)
qed

lemma stream_count_room:
  assumes "distinct ids" "0 \<notin> set ids" "s \<notin> set ids" "s \<noteq> (0 :: u8)"
  shows "length ids < 255"
proof -
  have "insert 0 (insert s (set ids)) \<subseteq> UNIV" by simp
  then have "card (insert 0 (insert s (set ids))) \<le> card (UNIV :: u8 set)" by (intro card_mono) simp_all
  then have "Suc (Suc (length ids)) \<le> 256" using assms by (simp add: card_word distinct_card)
  then show ?thesis by simp
qed

lemma length_stream_ids: "indexes es index \<Longrightarrow> length (stream_ids index) = unat (sx_stream_count index)"
  using unat_u8_less [of "sx_stream_count index"] by (simp add: indexes_def)

lemma indexes_init:
  "length buffer = capacity \<Longrightarrow> 0 < capacity \<Longrightarrow> capacity \<le> NO_INDEX \<Longrightarrow>
   \<exists>index. ekk_stream_index_init buffer capacity = (EKK_OK, Some index) \<and> indexes [] index \<and> sx_capacity index = capacity"
  by (simp add: ekk_stream_index_init_def indexes_def)

lemma hd_append_nonempty: "xs \<noteq> [] \<Longrightarrow> hd (xs @ ys) = hd xs" by simp

lemma add_state:
  fixes index es e k
  assumes base: "length (sx_entries index) = sx_capacity index" "sx_capacity index \<le> NO_INDEX" "sx_count index = length es"
      "length es < sx_capacity index" "take (length es) (sx_entries index) = es" "length (sx_streams index) = EKK_GATEWAY_MAX_MODULES"
    and k: "k < unat (sx_stream_count index)" "ss_module_id (sx_streams index ! k) = ie_stream_id e"
    and ids: "distinct (stream_ids index)" "set (stream_ids index) = insert (ie_stream_id e) (ie_stream_id ` set es)"
    and others: "\<And>j. j < unat (sx_stream_count index) \<Longrightarrow> j \<noteq> k \<Longrightarrow>
        (let stream = sx_streams index ! j; js = positions (of_stream (ss_module_id stream)) es
         in ss_first_index stream = hd js \<and> ss_last_index stream = last js \<and> ss_event_count stream = of_nat (length js))"
    and appended: "let stream = stream_append (length es) e (sx_streams index ! k); js = positions (of_stream (ie_stream_id e)) es
         in ss_first_index stream = hd (js @ [length es]) \<and> ss_event_count stream = of_nat (Suc (length js))"
    and index': "sx_entries index' = (sx_entries index)[length es := e]" "sx_count index' = Suc (length es)"
      "sx_capacity index' = sx_capacity index" "sx_stream_count index' = sx_stream_count index"
      "sx_streams index' = (sx_streams index)[k := stream_append (length es) e (sx_streams index ! k)]"
  shows "indexes (es @ [e]) index'"
proof -
  let ?s = "stream_append (length es) e (sx_streams index ! k)"
  have k256: "k < length (sx_streams index)" using k(1) base(6) unat_u8_less [of "sx_stream_count index"] by simp
  have mid: "ss_module_id ?s = ie_stream_id e" by (simp add: stream_append_def Let_def k(2))
  have same_ids: "stream_ids index' = stream_ids index"
  proof (rule nth_equalityI)
    fix i assume "i < length (stream_ids index')"
    then show "stream_ids index' ! i = stream_ids index ! i"
      using k(2) mid k256 by (cases "i = k") (simp_all add: index')
  qed (simp add: index')
  have last: "ss_last_index ?s = length es" by (simp add: stream_append_def Let_def)
  have streams: "let stream = sx_streams index' ! j; js = positions (of_stream (ss_module_id stream)) (es @ [e])
       in ss_first_index stream = hd js \<and> ss_last_index stream = last js \<and> ss_event_count stream = of_nat (length js)"
    if j: "j < unat (sx_stream_count index')" for j
  proof (cases "j = k")
    case True
    then show ?thesis
      using appended last k256 by (simp add: index' mid positions_append of_stream_def Let_def)
  next
    case False
    have jl: "j < unat (sx_stream_count index)" using j by (simp add: index')
    have "stream_ids index ! j \<noteq> stream_ids index ! k"
      using ids(1) False jl k(1) k256 base(6) unat_u8_less [of "sx_stream_count index"]
      by (subst nth_eq_iff_index_eq) simp_all
    then have "ss_module_id (sx_streams index ! j) \<noteq> ie_stream_id e"
      using jl k base(6) unat_u8_less [of "sx_stream_count index"] by simp
    with others [OF jl False] False show ?thesis
      by (auto simp: index' positions_append of_stream_def Let_def)
  qed
  have "take (Suc (length es)) ((sx_entries index)[length es := e]) = es @ [e]"
    using base(1,4,5) by (simp add: take_Suc_conv_app_nth)
  then show ?thesis
    unfolding indexes_def using base ids streams same_ids by (simp add: index')
qed

lemma indexes_add:
  assumes inv: "indexes es index" and room: "length es < sx_capacity index"
    and ids: "0 \<notin> ie_stream_id ` set es" "ie_stream_id e \<noteq> 0"
  shows "fst (ekk_stream_index_add index e) = EKK_OK \<and> indexes (es @ [e]) (snd (ekk_stream_index_add index e)) \<and>
    sx_capacity (snd (ekk_stream_index_add index e)) = sx_capacity index"
proof (cases "find_stream index (ie_stream_id e)")
  case (Some k)
  note k = find_stream_result(2) [OF inv Some]
  let ?js = "positions (of_stream (ie_stream_id e)) es"
  have stream: "ss_first_index (sx_streams index ! k) = hd ?js" "ss_event_count (sx_streams index ! k) = of_nat (length ?js)"
    using inv k by (auto simp: indexes_def Let_def)
  have "ie_stream_id e \<in> ie_stream_id ` set es"
    using find_stream_result(1) [OF inv, of "ie_stream_id e"] Some by auto
  then have ne: "?js \<noteq> []" by (auto simp: positions_nonempty of_stream_def)
  then have "hd ?js < length es" using positions_less [OF hd_in_set] by blast
  then have "hd ?js \<noteq> NO_INDEX" using inv room by (simp add: indexes_def)
  then have appended: "let stream = stream_append (length es) e (sx_streams index ! k)
       in ss_first_index stream = hd (?js @ [length es]) \<and> ss_event_count stream = of_nat (Suc (length ?js))"
    using stream ne by (simp add: stream_append_def Let_def)
  have "indexes (es @ [e]) (snd (ekk_stream_index_add index e))"
  proof (rule add_state [where index = index and k = k])
    show "set (stream_ids index) = insert (ie_stream_id e) (ie_stream_id ` set es)"
      using inv \<open>ie_stream_id e \<in> ie_stream_id ` set es\<close> by (auto simp: indexes_def)
  qed (use inv room k appended Some in \<open>auto simp: indexes_def ekk_stream_index_add_def Let_def\<close>)
  with Some room inv show ?thesis by (simp add: ekk_stream_index_add_def indexes_def Let_def)
next
  case None
  then have new: "ie_stream_id e \<notin> ie_stream_id ` set es" using find_stream_result(1) [OF inv] by blast
  let ?k = "unat (sx_stream_count index)"
  have sid: "distinct (stream_ids index)" "set (stream_ids index) = ie_stream_id ` set es" using inv by (simp_all add: indexes_def)
  have k255: "?k < 255"
    using stream_count_room [OF sid(1), of "ie_stream_id e"] sid(2) ids new length_stream_ids [OF inv] by simp
  then have count: "unat (sx_stream_count index + 1) = Suc ?k" by (simp add: unat_word_ariths)
  let ?new = "blank_stream\<lparr>ss_module_id := ie_stream_id e, ss_first_index := NO_INDEX, ss_last_index := NO_INDEX\<rparr>"
  let ?index = "index\<lparr>sx_streams := (sx_streams index)[?k := ?new], sx_stream_count := sx_stream_count index + 1\<rparr>"
  have create: "create_stream index (ie_stream_id e) = Some (?k, ?index)"
    using unat_u8_less [of "sx_stream_count index"] by (simp add: create_stream_def Let_def)
  have len: "length (sx_streams index) = EKK_GATEWAY_MAX_MODULES" using inv by (simp add: indexes_def)
  have sids: "stream_ids ?index = stream_ids index @ [ie_stream_id e]"
    using k255 len by (simp add: count take_Suc_conv_app_nth)
  have js: "positions (of_stream (ie_stream_id e)) es = []"
    using new by (rule no_positions) (simp add: of_stream_def)
  have "indexes (es @ [e]) (snd (ekk_stream_index_add index e))"
  proof (rule add_state [where index = ?index and k = ?k])
    show "distinct (stream_ids ?index)" "set (stream_ids ?index) = insert (ie_stream_id e) (ie_stream_id ` set es)"
      unfolding sids using sid new by auto
    show "?k < unat (sx_stream_count ?index)" by (simp add: count)
    fix j assume "j < unat (sx_stream_count ?index)" "j \<noteq> ?k"
    then show "let stream = sx_streams ?index ! j; js = positions (of_stream (ss_module_id stream)) es
         in ss_first_index stream = hd js \<and> ss_last_index stream = last js \<and> ss_event_count stream = of_nat (length js)"
      using inv by (simp add: count indexes_def Let_def)
  qed (use inv room k255 len None create js in \<open>simp_all add: indexes_def ekk_stream_index_add_def Let_def stream_append_def blank_stream_def\<close>)
  with None create room inv show ?thesis by (simp add: ekk_stream_index_add_def indexes_def Let_def)
qed

lemma indexes_run:
  assumes "indexes es index" "length es + length new \<le> sx_capacity index" "0 \<notin> ie_stream_id ` set (es @ new)"
  shows "indexes (es @ new) (foldl (\<lambda>index e. snd (ekk_stream_index_add index e)) index new) \<and>
    sx_capacity (foldl (\<lambda>index e. snd (ekk_stream_index_add index e)) index new) = sx_capacity index"
  using assms
proof (induction new arbitrary: es index)
  case (Cons e new)
  let ?index = "snd (ekk_stream_index_add index e)"
  have step: "indexes (es @ [e]) ?index" "sx_capacity ?index = sx_capacity index"
    using indexes_add [OF Cons.prems(1), of e] Cons.prems(2,3) by auto
  from Cons.IH [OF step(1)] Cons.prems(2,3) step(2) show ?case by simp
qed simp

lemma sorted_bounds: "sorted xs \<Longrightarrow> x \<in> set xs \<Longrightarrow> hd xs \<le> x \<and> x \<le> last xs" for x :: nat
proof (induction xs)
  case (Cons y ys)
  then show ?case by (cases ys) auto
qed simp

lemma find_range:
  fixes key :: "ekk_index_entry \<Rightarrow> u32" and b :: u32
  assumes "take n xs = es" "n = length es" "n \<le> length xs" "sorted (map key es)" "start = binary_search (\<lambda>e. key e < a) xs 0 n"
  defines "js \<equiv> positions (\<lambda>e. a \<le> key e \<and> key e \<le> b) es"
    and "result \<equiv> if n = 0 then (EKK_ERR_NOT_FOUND, 0, 0)
      else if start \<ge> n then (EKK_ERR_NOT_FOUND, 0, 0) else range_result start (scan_while (\<lambda>e. key e \<le> b) xs start n)"
  shows "if js = [] then fst result = EKK_ERR_NOT_FOUND
    else \<exists>first. result = (EKK_OK, first, length js) \<and> js = [first..<first + length js]"
proof (cases "n = 0")
  case True
  then show ?thesis using assms(2) by (simp add: js_def result_def positions_def)
next
  case False
  have js: "js = (if start \<ge> n then [] else [start..<scan_while (\<lambda>e. key e \<le> b) xs start n])"
    using range_query [of key n xs a b] assms(1-5) False by (simp add: js_def)
  show ?thesis
  proof (cases "start \<ge> n")
    case True
    then show ?thesis using js False by (simp add: result_def)
  next
    case less: False
    have "start \<le> scan_while (\<lambda>e. key e \<le> b) xs start n"
      using scan_while_spec [of start n "\<lambda>e. key e \<le> b" xs] less by simp
    then show ?thesis
      using js less False by (auto simp: result_def range_result_def)
  qed
qed

text \<open>The scan of a stream counts, between its first and its last entry, the entries asked for.\<close>

lemma stream_scan:
  assumes "\<forall>j \<in> set js. j < NO_INDEX"
  shows "fold (\<lambda>i (found_first, found_count).
            if P i then (if found_first = NO_INDEX then i else found_first, found_count + 1) else (found_first, found_count))
          js (NO_INDEX, 0 :: nat) =
        (if filter P js = [] then (NO_INDEX, 0) else (hd (filter P js), length (filter P js)))"
  using assms
proof (induction js rule: rev_induct)
  case (snoc j js)
  have "hd (filter P js) < NO_INDEX" if "filter P js \<noteq> []"
    using snoc.prems hd_in_set [OF that] by auto
  with snoc show ?case by (cases "filter P js = []") auto
qed simp

lemma find_stream_exact:
  fixes s :: u8 and from_seq :: u32 and es index
  assumes inv: "indexes es index"
  defines "js \<equiv> positions (\<lambda>e. ie_stream_id e = s \<and> ucast (ie_stream_seq e) \<ge> from_seq) es"
  shows "ekk_stream_index_find_stream index s from_seq =
    (if js = [] then (EKK_ERR_NOT_FOUND, 0, 0) else (EKK_OK, hd js, length js))"
proof (cases "find_stream index s")
  case None
  then have "s \<notin> ie_stream_id ` set es" using find_stream_result(1) [OF inv, of s] by blast
  then have "js = []" unfolding js_def by (rule no_positions) simp
  with None show ?thesis by (simp add: ekk_stream_index_find_stream_def)
next
  case (Some k)
  note k = find_stream_result(2) [OF inv Some]
  let ?ss = "positions (of_stream s) es"
  have stream: "ss_first_index (sx_streams index ! k) = hd ?ss" "ss_last_index (sx_streams index ! k) = last ?ss"
    using inv k by (auto simp: indexes_def Let_def)
  have "s \<in> ie_stream_id ` set es" using find_stream_result(1) [OF inv, of s] Some by auto
  then have ne: "?ss \<noteq> []" by (auto simp: positions_nonempty of_stream_def)
  have less: "hd ?ss < length es" "last ?ss < length es"
    using positions_less [OF hd_in_set [OF ne]] positions_less [OF last_in_set [OF ne]] by simp_all
  have entries: "sx_entries index ! i = es ! i" if "i < length es" for i
    using inv that by (metis indexes_def nth_take)
  have cap: "length es \<le> NO_INDEX" "sx_count index = length es" using inv by (simp_all add: indexes_def)
  define span where "span = [hd ?ss..<Suc (last ?ss)]"
  have less_span: "i < length es" if "i \<in> set span" for i using that less(2) by (auto simp: span_def)
  let ?P = "\<lambda>i. ie_stream_id (sx_entries index ! i) = s \<and> ucast (ie_stream_seq (sx_entries index ! i)) \<ge> from_seq"
  have "filter ?P span = filter (\<lambda>i. ie_stream_id (es ! i) = s \<and> ucast (ie_stream_seq (es ! i)) \<ge> from_seq) span"
    using less_span entries by (intro filter_cong) auto
  also have "\<dots> = js"
  proof -
    let ?Q = "\<lambda>i. ie_stream_id (es ! i) = s \<and> ucast (ie_stream_seq (es ! i)) \<ge> from_seq"
    have "hd ?ss \<le> last ?ss" using sorted_bounds [OF sorted_positions hd_in_set [OF ne]] by simp
    then have split: "[0..<length es] = [0..<hd ?ss] @ span @ [Suc (last ?ss)..<length es]"
      using less upt_split3 [of "hd ?ss" "Suc (last ?ss)" "length es"] unfolding span_def by linarith
    have outside: "\<not> ?Q i" if "i < length es" "i < hd ?ss \<or> last ?ss < i" for i
    proof
      assume "?Q i"
      then have "i \<in> set ?ss" using that(1) by (simp add: positions_def of_stream_def)
      with that(2) sorted_bounds [OF sorted_positions] show False by fastforce
    qed
    show ?thesis unfolding js_def
      by (subst positions_def, subst split) (use outside less in \<open>auto simp: filter_empty_conv\<close>)
  qed
  finally have eq: "filter ?P span = js" .
  have "\<forall>j \<in> set span. j < NO_INDEX" using less_span cap(1) by force
  from stream_scan [OF this, of ?P] eq have "fold (\<lambda>i (found_first, found_count).
            if ?P i then (if found_first = NO_INDEX then i else found_first, found_count + 1) else (found_first, found_count))
          span (NO_INDEX, 0 :: nat) = (if js = [] then (NO_INDEX, 0) else (hd js, length js))" by (simp only:)
  moreover have "[ss_first_index (sx_streams index ! k)..<min (Suc (ss_last_index (sx_streams index ! k))) (sx_count index)] = span"
    unfolding stream span_def using less(2) cap(2) by (simp del: upt.simps upt_Suc)
  moreover have "ss_first_index (sx_streams index ! k) \<noteq> NO_INDEX" using less cap by (simp add: stream)
  moreover have "hd js \<noteq> NO_INDEX" if "js \<noteq> []"
    using positions_less [of "hd js" _ es] hd_in_set [OF that] cap(1) by (force simp: js_def)
  ultimately show ?thesis
    unfolding ekk_stream_index_find_stream_def Some Let_def option.case by (simp del: upt.simps upt_Suc)
qed


section \<open>The index as a whole\<close>

abbreviation ekk_stream_index_add_all :: "ekk_stream_index \<Rightarrow> ekk_index_entry list \<Rightarrow> ekk_stream_index" where
  "ekk_stream_index_add_all \<equiv> foldl (\<lambda>index e. snd (ekk_stream_index_add index e))"

text \<open>
  The two forms of a right answer: the first of the entries asked for and their number, and a
  contiguous interval that holds the entries asked for and no other.
\<close>

definition first_and_number :: "('a \<Rightarrow> bool) \<Rightarrow> 'a list \<Rightarrow> ekk_error \<times> nat \<times> nat" where
  "first_and_number P es =
     (let js = positions P es in if js = [] then (EKK_ERR_NOT_FOUND, 0, 0) else (EKK_OK, hd js, length js))"

definition is_interval_of :: "('a \<Rightarrow> bool) \<Rightarrow> 'a list \<Rightarrow> ekk_error \<times> nat \<times> nat \<Rightarrow> bool" where
  "is_interval_of P es result \<longleftrightarrow>
     (let js = positions P es
      in if js = [] then fst result = EKK_ERR_NOT_FOUND
         else fst result = EKK_OK \<and> snd (snd result) = length js \<and> js = [fst (snd result)..<fst (snd result) + length js])"

lemma find_range_interval:
  fixes key :: "ekk_index_entry \<Rightarrow> u32" and a b :: u32
  assumes "take n xs = es" "n = length es" "n \<le> length xs" "sorted (map key es)" "start = binary_search (\<lambda>e. key e < a) xs 0 n"
  shows "is_interval_of (\<lambda>e. a \<le> key e \<and> key e \<le> b) es
    (if n = 0 then (EKK_ERR_NOT_FOUND, 0, 0)
      else if start \<ge> n then (EKK_ERR_NOT_FOUND, 0, 0) else range_result start (scan_while (\<lambda>e. key e \<le> b) xs start n))"
proof (cases "positions (\<lambda>e. a \<le> key e \<and> key e \<le> b) es = []")
  case True
  with find_range [OF assms, of b] show ?thesis unfolding is_interval_of_def Let_def by simp
next
  case False
  with find_range [OF assms, of b] obtain first where
    r: "(if n = 0 then (EKK_ERR_NOT_FOUND, 0, 0)
      else if start \<ge> n then (EKK_ERR_NOT_FOUND, 0, 0) else range_result start (scan_while (\<lambda>e. key e \<le> b) xs start n)) =
        (EKK_OK, first, length (positions (\<lambda>e. a \<le> key e \<and> key e \<le> b) es))"
      "positions (\<lambda>e. a \<le> key e \<and> key e \<le> b) es = [first..<first + length (positions (\<lambda>e. a \<le> key e \<and> key e \<le> b) es)]"
    by (simp only: if_False) blast
  show ?thesis unfolding r(1) is_interval_of_def Let_def using False r(2) by simp
qed

lemma find_seq_exact:
  assumes "indexes es index" "sorted (map ie_global_seq es)"
  shows "is_interval_of (\<lambda>e. a \<le> ie_global_seq e \<and> ie_global_seq e \<le> b) es (ekk_stream_index_find_seq index a b)"
proof (cases "es = []")
  case True
  with assms(1) show ?thesis
    by (simp add: ekk_stream_index_find_seq_def indexes_def is_interval_of_def positions_def)
next
  case False
  have es: "take (length es) (sx_entries index) = es" "length es \<le> length (sx_entries index)" "sx_count index = length es"
    using assms(1) by (simp_all add: indexes_def)
  from find_range_interval [OF es(1) refl es(2) assms(2) refl] False show ?thesis
    unfolding ekk_stream_index_find_seq_def binary_search_seq_def es(3) Let_def by (simp only: length_0_conv if_False)
qed

lemma find_time_exact:
  assumes "indexes es index" "sorted (map ie_timestamp_us es)"
  shows "is_interval_of (\<lambda>e. a \<le> ie_timestamp_us e \<and> ie_timestamp_us e \<le> b) es (ekk_stream_index_find_time index a b)"
proof (cases "es = []")
  case True
  with assms(1) show ?thesis
    by (simp add: ekk_stream_index_find_time_def indexes_def is_interval_of_def positions_def)
next
  case False
  have es: "take (length es) (sx_entries index) = es" "length es \<le> length (sx_entries index)" "sx_count index = length es"
    using assms(1) by (simp_all add: indexes_def)
  from find_range_interval [OF es(1) refl es(2) assms(2) refl] False show ?thesis
    unfolding ekk_stream_index_find_time_def binary_search_time_def es(3) Let_def by (simp only: length_0_conv if_False)
qed

lemma clear_streams_diverges: "clear_streams streams i = None"
proof (cases "clear_streams streams i")
  case (Some r)
  then have False
    by (rule clear_streams.raw_induct [where P = "\<lambda>_ _ _. False", rotated])
      (use unat_u8_less in \<open>auto split: if_splits\<close>)
  then show ?thesis ..
qed simp

lemma count_by_type_exact:
  assumes "indexes es index"
  shows "ekk_stream_index_count_by_type index t = length (filter (\<lambda>e. ie_event_type e = t) es)"
proof -
  have "fold (\<lambda>i n. if ie_event_type (sx_entries index ! i) = t then n + 1 else n) [0..<k] m =
      m + length (filter (\<lambda>e. ie_event_type e = t) (take k es))" if "k \<le> length es" for k m
    using that
  proof (induction k arbitrary: m)
    case (Suc k)
    have "sx_entries index ! k = es ! k" using assms Suc.prems by (metis indexes_def nth_take Suc_le_eq)
    with Suc show ?case by (simp add: take_Suc_conv_app_nth)
  qed simp
  from this [of "length es" 0] show ?thesis
    using assms by (simp add: ekk_stream_index_count_by_type_def indexes_def)
qed

lemma find_by_type_loop:
  assumes "indexes es index" "i \<le> length es"
  shows "find_by_type_from index t max_count i out =
    out @ take (max_count - length out) (filter (\<lambda>j. ie_event_type (es ! j) = t) [i..<length es])"
  using assms(2)
proof (induction "length es - i" arbitrary: i out)
  case 0
  then show ?case using assms(1) by (simp add: find_by_type_from.simps [of index t max_count i] indexes_def)
next
  case (Suc d)
  have n: "sx_count index = length es" "sx_entries index ! i = es ! i" and i: "i < length es"
    using assms(1) Suc.hyps(2) nth_take [of i "length es" "sx_entries index"] by (auto simp: indexes_def)
  show ?case
  proof (cases "length out < max_count")
    case True
    have "d = length es - Suc i" using Suc.hyps(2) by simp
    note IH = Suc.hyps(1) [OF this]
    have "find_by_type_from index t max_count i out =
        find_by_type_from index t max_count (Suc i) (if ie_event_type (es ! i) = t then out @ [i] else out)"
      using True i n by (subst find_by_type_from.simps) simp
    moreover have "max_count - length out = Suc (max_count - Suc (length out))" using True by simp
    ultimately show ?thesis using i by (simp add: IH upt_conv_Cons)
  qed (simp add: find_by_type_from.simps [of index t max_count i])
qed

lemma find_by_type_exact:
  "indexes es index \<Longrightarrow> ekk_stream_index_find_by_type index t max_count =
     take max_count (filter (\<lambda>i. ie_event_type (es ! i) = t) [0..<length es])"
  by (simp add: ekk_stream_index_find_by_type_def find_by_type_loop)

lemma get_exact: "indexes es index \<Longrightarrow> ekk_stream_index_get index i = (if i < length es then Some (es ! i) else None)"
  using nth_take [of i "length es" "sx_entries index"] by (auto simp: ekk_stream_index_get_def indexes_def)

text \<open>Out of order, the binary search walks past the entry.\<close>

lemma find_time_unordered:
  assumes "indexes es index"
    and es: "es = [e1, e2, e3] \<and> ie_timestamp_us e2 < ie_timestamp_us e1 \<and> ie_timestamp_us e3 < ie_timestamp_us e1"
  shows "ekk_stream_index_find_time index (ie_timestamp_us e1) (ie_timestamp_us e1) = (EKK_ERR_NOT_FOUND, 0, 0)"
proof -
  have n: "sx_count index = 3" "take 3 (sx_entries index) = [e1, e2, e3]" using assms by (auto simp: indexes_def numeral_3_eq_3)
  then have e: "sx_entries index ! 1 = e2" "sx_entries index ! 2 = e3"
    using nth_take [of 1 3 "sx_entries index"] nth_take [of 2 3 "sx_entries index"] by simp_all
  have two: "Suc (Suc 0) = (2 :: nat)" by simp
  let ?below = "\<lambda>e. ie_timestamp_us e < ie_timestamp_us e1"
  have "binary_search ?below (sx_entries index) 0 3 = binary_search ?below (sx_entries index) 2 3"
    using es e by (subst binary_search.simps) (simp add: Let_def two)
  also have "\<dots> = binary_search ?below (sx_entries index) 3 3"
    using es e by (subst binary_search.simps) (simp add: Let_def)
  also have "\<dots> = 3" by (subst binary_search.simps) simp
  finally have "binary_search ?below (sx_entries index) 0 3 = 3" .
  then show ?thesis using n by (simp add: ekk_stream_index_find_time_def binary_search_time_def)
qed

text \<open>
  C18. The index holds what was appended. From an empty buffer, after appending entries (stream
  numbers other than 0, no more than the capacity), a query by stream answers exactly the entries of
  that stream from the asked number on: the position of the first one and their number. The query
  by type answers the positions of the entries of that type in order, the first \<open>max_count\<close> of them, and the
  count by type is exact; the entry at a position is the one appended there. The next append is refused with a
  no-memory error and leaves the index alone when the buffer is full. The queries by sequence number and by time
  answer exactly the entries in the interval, which are contiguous, provided the keys were appended in
  order; nothing ensures that for the time stamps, and a query for a time stamp that is there can
  answer that there is none. Clearing the index never returns: its byte counter is always below 256.
\<close>

theorem stream_index_exact:
  assumes "length buffer = capacity" "0 < capacity" "capacity \<le> NO_INDEX"
    "length es \<le> capacity" "0 \<notin> ie_stream_id ` set es"
  shows "\<exists>empty. ekk_stream_index_init buffer capacity = (EKK_OK, Some empty) \<and>
    (let index = ekk_stream_index_add_all empty es in
      (\<forall>s from_seq. ekk_stream_index_find_stream index s from_seq =
         first_and_number (\<lambda>e. ie_stream_id e = s \<and> ucast (ie_stream_seq e) \<ge> from_seq) es) \<and>
      (sorted (map ie_global_seq es) \<longrightarrow> (\<forall>a b.
         is_interval_of (\<lambda>e. a \<le> ie_global_seq e \<and> ie_global_seq e \<le> b) es (ekk_stream_index_find_seq index a b))) \<and>
      (sorted (map ie_timestamp_us es) \<longrightarrow> (\<forall>a b.
         is_interval_of (\<lambda>e. a \<le> ie_timestamp_us e \<and> ie_timestamp_us e \<le> b) es (ekk_stream_index_find_time index a b))) \<and>
      (\<forall>t max_count. ekk_stream_index_find_by_type index t max_count =
         take max_count (filter (\<lambda>i. ie_event_type (es ! i) = t) [0..<length es])) \<and>
      (\<forall>t. ekk_stream_index_count_by_type index t = length (filter (\<lambda>e. ie_event_type e = t) es)) \<and>
      (\<forall>i. ekk_stream_index_get index i = (if i < length es then Some (es ! i) else None)) \<and>
      (length es = capacity \<longrightarrow> (\<forall>e. ekk_stream_index_add index e = (EKK_ERR_NO_MEMORY, index))) \<and>
      ekk_stream_index_reset index = None \<and>
      (\<forall>e1 e2 e3. es = [e1, e2, e3] \<and> ie_timestamp_us e2 < ie_timestamp_us e1 \<and> ie_timestamp_us e3 < ie_timestamp_us e1 \<longrightarrow>
         ekk_stream_index_find_time index (ie_timestamp_us e1) (ie_timestamp_us e1) = (EKK_ERR_NOT_FOUND, 0, 0)))"
proof -
  obtain empty where empty: "ekk_stream_index_init buffer capacity = (EKK_OK, Some empty)" "indexes [] empty"
      "sx_capacity empty = capacity"
    using indexes_init [OF assms(1-3)] by blast
  let ?index = "ekk_stream_index_add_all empty es"
  have run: "indexes es ?index" "sx_capacity ?index = capacity"
    using indexes_run [OF empty(2), of es] assms(4,5) empty(3) by simp_all
  have full: "ekk_stream_index_add ?index e = (EKK_ERR_NO_MEMORY, ?index)" if "length es = capacity" for e
    using run that by (simp add: ekk_stream_index_add_def indexes_def)
  have reset: "ekk_stream_index_reset ?index = None"
    by (simp add: ekk_stream_index_reset_def clear_streams_diverges)
  have stream: "ekk_stream_index_find_stream ?index s from_seq =
      first_and_number (\<lambda>e. ie_stream_id e = s \<and> ucast (ie_stream_seq e) \<ge> from_seq) es" for s and from_seq :: u32
    unfolding first_and_number_def Let_def by (rule find_stream_exact [OF run(1)])
  show ?thesis
    unfolding Let_def using full reset stream
    by (intro exI [of _ empty] conjI impI allI empty(1) find_seq_exact [OF run(1)] find_time_exact [OF run(1)]
      find_by_type_exact [OF run(1)] count_by_type_exact [OF run(1)] get_exact [OF run(1)]
      find_time_unordered [OF run(1)]) blast+
qed

abbreviation (input) sample_entry :: "u32 \<Rightarrow> u8 \<Rightarrow> u16 \<Rightarrow> ekk_index_entry" where
  "sample_entry n s q \<equiv> \<lparr>ie_global_seq = n, ie_flash_offset = 0, ie_timestamp_us = 10 * n, ie_stream_seq = q,
     ie_stream_id = s, ie_event_type = 1\<rparr>"

theorem stream_index_exact_witness:
  "\<exists>empty. ekk_stream_index_init (replicate 4 (sample_entry 0 0 0)) 4 = (EKK_OK, Some empty) \<and>
    ekk_stream_index_find_stream (ekk_stream_index_add_all empty [sample_entry 1 5 0, sample_entry 2 7 0, sample_entry 3 5 1])
      5 0 = (EKK_OK, 0, 2)"
proof -
  let ?es = "[sample_entry 1 5 0, sample_entry 2 7 0, sample_entry 3 5 1]"
  obtain empty where empty: "ekk_stream_index_init (replicate 4 (sample_entry 0 0 0)) 4 = (EKK_OK, Some empty)"
      "\<forall>s from_seq. ekk_stream_index_find_stream (ekk_stream_index_add_all empty ?es) s from_seq =
         first_and_number (\<lambda>e. ie_stream_id e = s \<and> ucast (ie_stream_seq e) \<ge> from_seq) ?es"
    using stream_index_exact [of "replicate 4 (sample_entry 0 0 0)" 4 ?es] unfolding Let_def by auto
  have "first_and_number (\<lambda>e. ie_stream_id e = 5 \<and> ucast (ie_stream_seq e) \<ge> (0 :: u32)) ?es = (EKK_OK, 0, 2)"
    by (simp add: first_and_number_def positions_def upt_rec)
  then show ?thesis using empty(1) by (intro exI [of _ empty] conjI) (simp_all only: empty(2) [rule_format])
qed

end
