(* ===== verification/Ekk_Bytes.thy ===== *)
theory Ekk_Bytes
  imports Ekk_Prelude
begin

unbundle bit_operations_syntax

text \<open>
  Packed structures are stored and sent as little-endian bytes, on every target of the code:
  the bytes of a word, and the word that bytes stand for.
\<close>

definition le_bytes :: "nat \<Rightarrow> 'a::len word \<Rightarrow> u8 list" where
  "le_bytes n w = map (\<lambda>i. ucast (drop_bit (8 * i) w)) [0..<n]"

definition le_word :: "u8 list \<Rightarrow> 'a::len word" where
  "le_word bs = foldr (\<lambda>b w. ucast b OR push_bit 8 w) bs 0"

definition le16 :: "u16 \<Rightarrow> u8 list" where "le16 = le_bytes 2"
definition le32 :: "u32 \<Rightarrow> u8 list" where "le32 = le_bytes 4"
definition le64 :: "u64 \<Rightarrow> u8 list" where "le64 = le_bytes 8"

lemma length_le_bytes [simp]:
  "length (le_bytes n w) = n" "length (le16 x) = 2" "length (le32 y) = 4" "length (le64 z) = 8"
  by (simp_all add: le_bytes_def le16_def le32_def le64_def)

lemma bit_le_word:
  "bit (le_word bs :: 'a::len word) k \<longleftrightarrow> k < LENGTH('a) \<and> k div 8 < length bs \<and> bit (bs ! (k div 8)) (k mod 8)"
proof (induction bs arbitrary: k)
  case Nil
  then show ?case by (simp add: le_word_def)
next
  case (Cons b bs)
  have w: "(le_word (b # bs) :: 'a word) = ucast b OR push_bit 8 (le_word bs)" by (simp add: le_word_def)
  show ?case
  proof (cases "k < 8")
    case True
    then show ?thesis unfolding w by (auto simp: bit_or_iff bit_push_bit_iff bit_ucast_iff dest: bit_imp_le_length)
  next
    case False
    then obtain j where j: "k = 8 + j" using le_Suc_ex [of 8 k] by auto
    have b8: "\<not> bit b k" using False bit_imp_le_length [of b k] by auto
    have "bit (le_word (b # bs) :: 'a word) k \<longleftrightarrow> k < LENGTH('a) \<and> bit (le_word bs :: 'a word) j"
      unfolding w using b8 False by (auto simp: bit_or_iff bit_push_bit_iff bit_ucast_iff j)
    moreover have "bit (le_word bs :: 'a word) j \<and> k < LENGTH('a) \<longleftrightarrow> k < LENGTH('a) \<and> j div 8 < length bs \<and> bit (bs ! (j div 8)) (j mod 8)"
      using Cons.IH [of j] by (auto simp: j)
    moreover have "k div 8 = Suc (j div 8)" "k mod 8 = j mod 8" by (simp_all add: j)
    ultimately show ?thesis by auto
  qed
qed

lemma le_word_bytes:
  assumes "LENGTH('a) \<le> 8 * n"
  shows "le_word (le_bytes n w) = (w :: 'a::len word)"
proof (rule bit_word_eqI)
  fix k assume k: "k < LENGTH('a)"
  then have "k div 8 < n" using assms by (simp add: less_mult_imp_div_less mult.commute)
  then show "bit (le_word (le_bytes n w) :: 'a word) k \<longleftrightarrow> bit w k"
    using k by (simp add: bit_le_word le_bytes_def bit_ucast_iff bit_drop_bit_eq)
qed

lemma le_round [simp]: "le_word (le16 x) = x" "le_word (le32 y) = y" "le_word (le64 z) = z"
  by (simp_all add: le16_def le32_def le64_def le_word_bytes)

lemma le_bytes_word:
  assumes "8 * length bs \<le> LENGTH('a)"
  shows "le_bytes (length bs) (le_word bs :: 'a::len word) = bs"
proof (rule nth_equalityI)
  fix i assume "i < length (le_bytes (length bs) (le_word bs :: 'a word))"
  then have i: "i < length bs" by simp
  show "le_bytes (length bs) (le_word bs :: 'a word) ! i = bs ! i"
  proof (rule bit_word_eqI)
    fix k assume k: "k < LENGTH(8)"
    have d: "(8 * i + k) div 8 = i" "(8 * i + k) mod 8 = k" using k by simp_all
    have "8 * i + k < LENGTH('a)" using i k assms by simp
    then show "bit (le_bytes (length bs) (le_word bs :: 'a word) ! i) k \<longleftrightarrow> bit (bs ! i) k"
      using i k by (simp add: le_bytes_def bit_ucast_iff bit_drop_bit_eq bit_le_word d)
  qed
qed simp

text \<open>Consecutive fields of a packed structure.\<close>

definition field :: "u8 list \<Rightarrow> nat \<Rightarrow> nat \<Rightarrow> u8 list" where
  "field bs offset n = take n (drop offset bs)"

lemma field_skip: "length a \<le> i \<Longrightarrow> field (a @ b) i n = field b (i - length a) n"
  by (simp add: field_def)

lemma field_here: "length a = n \<Longrightarrow> field (a @ b) 0 n = a"
  by (simp add: field_def)

lemmas field_simps [simp] = field_skip field_here

lemma field_all [simp]: "length a \<le> n \<Longrightarrow> field a 0 n = a"
  by (simp add: field_def)

end
