(* ===== verification/Ekk_Crc.thy ===== *)
theory Ekk_Crc
  imports Ekk_Prelude
begin

unbundle bit_operations_syntax

text \<open>
  The two table-driven 32-bit checksums: the one of the filesystem and the databases
  (\<open>ekkfs_crc32\<close> in \<open>src/ekkfs.c\<close>) and the one of the gateway (\<open>crc32_compute\<close> in
  \<open>src/ekk_gateway.c\<close>). The reference is the bit-by-bit division by the polynomial
  0xEDB88320. What every table with distinct leading bytes promises is a locale,
  interpreted on both tables.
\<close>

section \<open>The code\<close>

definition ekkfs_crc32_table :: "u32 list" where
  "ekkfs_crc32_table = [
    0x00000000, 0x77073096, 0xEE0E612C, 0x990951BA, 0x076DC419, 0x706AF48F,
    0xE963A535, 0x9E6495A3, 0x0EDB8832, 0x79DCB8A4, 0xE0D5E91E, 0x97D2D988,
    0x09B64C2B, 0x7EB17CBD, 0xE7B82D07, 0x90BF1D91, 0x1DB71064, 0x6AB020F2,
    0xF3B97148, 0x84BE41DE, 0x1ADAD47D, 0x6DDDE4EB, 0xF4D4B551, 0x83D385C7,
    0x136C9856, 0x646BA8C0, 0xFD62F97A, 0x8A65C9EC, 0x14015C4F, 0x63066CD9,
    0xFA0F3D63, 0x8D080DF5, 0x3B6E20C8, 0x4C69105E, 0xD56041E4, 0xA2677172,
    0x3C03E4D1, 0x4B04D447, 0xD20D85FD, 0xA50AB56B, 0x35B5A8FA, 0x42B2986C,
    0xDBBBC9D6, 0xACBCF940, 0x32D86CE3, 0x45DF5C75, 0xDCD60DCF, 0xABD13D59,
    0x26D930AC, 0x51DE003A, 0xC8D75180, 0xBFD06116, 0x21B4F4B5, 0x56B3C423,
    0xCFBA9599, 0xB8BDA50F, 0x2802B89E, 0x5F058808, 0xC60CD9B2, 0xB10BE924,
    0x2F6F7C87, 0x58684C11, 0xC1611DAB, 0xB6662D3D, 0x76DC4190, 0x01DB7106,
    0x98D220BC, 0xEFD5102A, 0x71B18589, 0x06B6B51F, 0x9FBFE4A5, 0xE8B8D433,
    0x7807C9A2, 0x0F00F934, 0x9609A88E, 0xE10E9818, 0x7F6A0DBB, 0x086D3D2D,
    0x91646C97, 0xE6635C01, 0x6B6B51F4, 0x1C6C6162, 0x856530D8, 0xF262004E,
    0x6C0695ED, 0x1B01A57B, 0x8208F4C1, 0xF50FC457, 0x65B0D9C6, 0x12B7E950,
    0x8BBEB8EA, 0xFCB9887C, 0x62DD1DDF, 0x15DA2D49, 0x8CD37CF3, 0xFBD44C65,
    0x4DB26158, 0x3AB551CE, 0xA3BC0074, 0xD4BB30E2, 0x4ADFA541, 0x3DD895D7,
    0xA4D1C46D, 0xD3D6F4FB, 0x4369E96A, 0x346ED9FC, 0xAD678846, 0xDA60B8D0,
    0x44042D73, 0x33031DE5, 0xAA0A4C5F, 0xDD0D7CC9, 0x5005713C, 0x270241AA,
    0xBE0B1010, 0xC90C2086, 0x5768B525, 0x206F85B3, 0xB966D409, 0xCE61E49F,
    0x5EDEF90E, 0x29D9C998, 0xB0D09822, 0xC7D7A8B4, 0x59B33D17, 0x2EB40D81,
    0xB7BD5C3B, 0xC0BA6CAD, 0xEDB88320, 0x9ABFB3B6, 0x03B6E20C, 0x74B1D29A,
    0xEAD54739, 0x9DD277AF, 0x04DB2615, 0x73DC1683, 0xE3630B12, 0x94643B84,
    0x0D6D6A3E, 0x7A6A5AA8, 0xE40ECF0B, 0x9309FF9D, 0x0A00AE27, 0x7D079EB1,
    0xF00F9344, 0x8708A3D2, 0x1E01F268, 0x6906C2FE, 0xF762575D, 0x806567CB,
    0x196C3671, 0x6E6B06E7, 0xFED41B76, 0x89D32BE0, 0x10DA7A5A, 0x67DD4ACC,
    0xF9B9DF6F, 0x8EBEEFF9, 0x17B7BE43, 0x60B08ED5, 0xD6D6A3E8, 0xA1D1937E,
    0x38D8C2C4, 0x4FDFF252, 0xD1BB67F1, 0xA6BC5767, 0x3FB506DD, 0x48B2364B,
    0xD80D2BDA, 0xAF0A1B4C, 0x36034AF6, 0x41047A60, 0xDF60EFC3, 0xA867DF55,
    0x316E8EEF, 0x4669BE79, 0xCB61B38C, 0xBC66831A, 0x256FD2A0, 0x5268E236,
    0xCC0C7795, 0xBB0B4703, 0x220216B9, 0x5505262F, 0xC5BA3BBE, 0xB2BD0B28,
    0x2BB45A92, 0x5CB36A04, 0xC2D7FFA7, 0xB5D0CF31, 0x2CD99E8B, 0x5BDEAE1D,
    0x9B64C2B0, 0xEC63F226, 0x756AA39C, 0x026D930A, 0x9C0906A9, 0xEB0E363F,
    0x72076785, 0x05005713, 0x95BF4A82, 0xE2B87A14, 0x7BB12BAE, 0x0CB61B38,
    0x92D28E9B, 0xE5D5BE0D, 0x7CDCEFB7, 0x0BDBDF21, 0x86D3D2D4, 0xF1D4E242,
    0x68DDB3F8, 0x1FDA836E, 0x81BE16CD, 0xF6B9265B, 0x6FB077E1, 0x18B74777,
    0x88085AE6, 0xFF0F6A70, 0x66063BCA, 0x11010B5C, 0x8F659EFF, 0xF862AE69,
    0x616BFFD3, 0x166CCF45, 0xA00AE278, 0xD70DD2EE, 0x4E048354, 0x3903B3C2,
    0xA7672661, 0xD06016F7, 0x4969474D, 0x3E6E77DB, 0xAED16A4A, 0xD9D65ADC,
    0x40DF0B66, 0x37D83BF0, 0xA9BCAE53, 0xDEBB9EC5, 0x47B2CF7F, 0x30B5FFE9,
    0xBDBDF21C, 0xCABAC28A, 0x53B39330, 0x24B4A3A6, 0xBAD03605, 0xCDD706B3,
    0x54DE5729, 0x23D967BF, 0xB3667A2E, 0xC4614AB8, 0x5D681B02, 0x2A6F2B94,
    0xB40BBE37, 0xC30C8EA1, 0x5A05DF1B, 0x2D02EF8D]"

definition gateway_crc32_table :: "u32 list" where
  "gateway_crc32_table = [
    0x00000000, 0x77073096, 0xEE0E612C, 0x990951BA, 0x076DC419, 0x706AF48F,
    0xE963A535, 0x9E6495A3, 0x0EDB8832, 0x79DCB8A4, 0xE0D5E91E, 0x97D2D988,
    0x09B64C2B, 0x7EB17CBD, 0xE7B82D07, 0x90BF1D91, 0x1DB71064, 0x6AB020F2,
    0xF3B97148, 0x84BE41DE, 0x1ADAD47D, 0x6DDDE4EB, 0xF4D4B551, 0x83D385C7,
    0x136C9856, 0x646BA8C0, 0xFD62F97A, 0x8A65C9EC, 0x14015C4F, 0x63066CD9,
    0xFA0F3D63, 0x8D080DF5, 0x3B6E20C8, 0x4C69105E, 0xD56041E4, 0xA2677172,
    0x3C03E4D1, 0x4B04D447, 0xD20D85FD, 0xA50AB56B, 0x35B5A8FA, 0x42B2986C,
    0xDBBBC9D6, 0xACBCF940, 0x32D86CE3, 0x45DF5C75, 0xDCD60DCF, 0xABD13D59,
    0x26D930AC, 0x51DE003A, 0xC8D75180, 0xBFD06116, 0x21B4F4B5, 0x56B3C423,
    0xCFBA9599, 0xB8BDA50F, 0x2802B89E, 0x5F058808, 0xC60CD9B2, 0xB10BE924,
    0x2F6F7C87, 0x58684C11, 0xC1611DAB, 0xB6662D3D, 0x76DC4190, 0x01DB7106,
    0x98D220BC, 0xEFD5102A, 0x71B18589, 0x06B6B51F, 0x9FBFE4A5, 0xE8B8D433,
    0x7807C9A2, 0x0F00F934, 0x9609A88E, 0xE10E9818, 0x7F6A0DBB, 0x086D3D2D,
    0x91646C97, 0xE6635C01, 0x6B6B51F4, 0x1C6C6162, 0x856530D8, 0xF262004E,
    0x6C0695ED, 0x1B01A57B, 0x8208F4C1, 0xF50FC457, 0x65B0D9C6, 0x12B7E950,
    0x8BBEB8EA, 0xFCB9887C, 0x62DD1DDF, 0x15DA2D49, 0x8CD37CF3, 0xFBD44C65,
    0x4DB26158, 0x3AB551CE, 0xA3BC0074, 0xD4BB30E2, 0x4ADFA541, 0x3DD895D7,
    0xA4D1C46D, 0xD3D6F4FB, 0x4369E96A, 0x346ED9FC, 0xAD678846, 0xDA60B8D0,
    0x44042D73, 0x33031DE5, 0xAA0A4C5F, 0xDD0D7CC9, 0x5005713C, 0x270241AA,
    0xBE0B1010, 0xC90C2086, 0x5768B525, 0x206F85B3, 0xB966D409, 0xCE61E49F,
    0x5EDEF90E, 0x29D9C998, 0xB0D09822, 0xC7D7A8B4, 0x59B33D17, 0x2EB40D81,
    0xB7BD5C3B, 0xC0BA6CAD, 0xEDB88320, 0x9ABFB3B6, 0x03B6E20C, 0x74B1D29A,
    0xEAD54739, 0x9DD277AF, 0x04DB2615, 0x73DC1683, 0xE3630B12, 0x94643B84,
    0x0D6D6A3E, 0x7A6A5AA8, 0xE40ECF0B, 0x9309FF9D, 0x0A00AE27, 0x7D079EB1,
    0xF00F9344, 0x8708A3D2, 0x1E01F268, 0x6906C2FE, 0xF762575D, 0x806567CB,
    0x196C3671, 0x6E6B06E7, 0xFED41B76, 0x89D32BE0, 0x10DA7A5A, 0x67DD4ACC,
    0xF9B9DF6F, 0x8EBEEFF9, 0x17B7BE43, 0x60B08ED5, 0xD6D6A3E8, 0xA1D1937E,
    0x38D8C2C4, 0x4FDFF252, 0xD1BB67F1, 0xA6BC5767, 0x3FB506DD, 0x48B2364B,
    0xD80D2BDA, 0xAF0A1B4C, 0x36034AF6, 0x41047A60, 0xDF60EFC3, 0xA867DF55,
    0x316E8EEF, 0x4669BE79, 0xCB61B38C, 0xBC66831A, 0x256FD2A0, 0x5268E236,
    0xCC0C7795, 0xBB0B4703, 0x220216B9, 0x5505262F, 0xC5BA3BBE, 0xB2BD0B28,
    0x2BB45A92, 0x5CB36A04, 0xC2D7FFA7, 0xB5D0CF31, 0x2CD99E8B, 0x5BDEAE1D,
    0x9B64C2B0, 0xEC63F226, 0x756AA39C, 0x026D930A, 0x9C0906A9, 0xEB0E363F,
    0x72076785, 0x05005713, 0x95BF4A82, 0xE2B87A14, 0x7BB12BAE, 0x0CB61B38,
    0x92D28E9B, 0xE5D5BE0D, 0x7CDCEFB7, 0x0BDBDF21, 0x86D3D2D4, 0xF1D4E242,
    0x68DDB3F8, 0x1FDA836E, 0x81BE16CD, 0xF6B9265B, 0x6FB077E1, 0x18B74777,
    0x88085AE6, 0xFF0F6A70, 0x66063BCA, 0x11010B5C, 0x8F659EFF, 0xF862AE69,
    0x616BFFD3, 0x166CCF45, 0xA00AE278, 0xD70DD2EE, 0x4E048354, 0x3903B3C2,
    0xA7672661, 0xD06016F7, 0x4969474D, 0x3E6E77DB, 0xAED16A4A, 0xD9D65ADC,
    0x40DF0B66, 0x37D83BF0, 0xA9BCAE53, 0xDEBB9EC5, 0x47B2CF7F, 0x30B5FFE9,
    0xBDBDF21C, 0xCABAC28A, 0x53B39330, 0x24B4A3A6, 0xBAD03605, 0xCDD70693,
    0x54DE5729, 0x23D967BF, 0xB3667A2E, 0xC4614AB8, 0x5D681B02, 0x2A6F2B94,
    0xB40BBE37, 0xC30C8EA1, 0x5A05DF1B, 0x2D02EF8D]"

definition crc_step :: "u32 list \<Rightarrow> u32 \<Rightarrow> u8 \<Rightarrow> u32" where
  "crc_step table crc b = table ! unat ((crc XOR ucast b) AND 0xFF) XOR drop_bit 8 crc"

definition ekkfs_crc32 :: "u8 list \<Rightarrow> u32" where
  "ekkfs_crc32 data = foldl (crc_step ekkfs_crc32_table) 0xFFFFFFFF data XOR 0xFFFFFFFF"

definition crc32_compute :: "u8 list \<Rightarrow> u32" where
  "crc32_compute data = foldl (crc_step gateway_crc32_table) 0xFFFFFFFF data XOR 0xFFFFFFFF"

section \<open>The reference\<close>

definition crc_bit :: "u32 \<Rightarrow> u32" where
  "crc_bit c = (if odd c then drop_bit 1 c XOR 0xEDB88320 else drop_bit 1 c)"

definition crc_byte :: "u32 \<Rightarrow> u32" where
  "crc_byte c = crc_bit (crc_bit (crc_bit (crc_bit (crc_bit (crc_bit (crc_bit (crc_bit c)))))))"

definition crc_reference :: "u8 list \<Rightarrow> u32" where
  "crc_reference data = foldl (\<lambda>crc b. crc_byte (crc XOR ucast b)) 0xFFFFFFFF data XOR 0xFFFFFFFF"

lemma crc_bit_xor: "crc_bit (a XOR b) = crc_bit a XOR crc_bit b"
  by (rule bit_word_eqI) (auto simp: crc_bit_def bit_xor_iff bit_drop_bit_eq even_xor_iff)

lemma crc_byte_xor: "crc_byte (a XOR b) = crc_byte a XOR crc_byte b"
  by (simp add: crc_byte_def crc_bit_xor)

lemma crc_bit_even: "even c \<Longrightarrow> crc_bit c = drop_bit 1 c"
  by (simp add: crc_bit_def)

lemma crc_byte_high: "take_bit 8 c = 0 \<Longrightarrow> crc_byte c = drop_bit 8 c"
proof -
  assume low: "take_bit 8 c = 0"
  have b: "\<not> bit c n" if "n < 8" for n
    using that arg_cong [OF low, of "\<lambda>w. bit w n"] by (simp add: bit_take_bit_iff)
  have shift: "crc_bit (drop_bit n c) = drop_bit (Suc n) c" if "n < 8" for n
    using b [OF that] by (simp add: bit_iff_odd_drop_bit crc_bit_even)
  have "crc_byte (drop_bit 0 c) = drop_bit (Suc (Suc (Suc (Suc (Suc (Suc (Suc (Suc 0)))))))) c"
    unfolding crc_byte_def by (simp only: shift)
  then show ?thesis by (simp add: numeral_eq_Suc)
qed

lemma crc_byte_split: "crc_byte c = crc_byte (c AND 0xFF) XOR drop_bit 8 c"
proof -
  have m: "(0xFF :: u32) = mask 8" by (simp add: mask_eq_exp_minus_1)
  have c: "c = (c AND w) XOR (c AND NOT w)" for w :: u32
    by (rule bit_word_eqI) (auto simp: bit_xor_iff bit_and_iff bit_not_iff)
  have "take_bit 8 (c AND NOT 0xFF) = 0"
    unfolding m by (rule bit_word_eqI) (auto simp: bit_take_bit_iff bit_and_iff bit_not_iff bit_mask_iff)
  then have "crc_byte (c AND NOT 0xFF) = drop_bit 8 (c AND NOT 0xFF)" by (rule crc_byte_high)
  also have "\<dots> = drop_bit 8 c"
    unfolding m
    by (rule bit_word_eqI) (auto simp: bit_drop_bit_eq bit_and_iff bit_not_iff bit_mask_iff dest: bit_imp_le_length)
  finally show ?thesis using crc_byte_xor [of "c AND 0xFF" "c AND NOT 0xFF"] by (simp only: flip: c)
qed

lemma gateway_table_row0: "take 64 (drop 0 gateway_crc32_table) = map (\<lambda>i. crc_byte (word_of_int i)) [0..63]"
proof -
  have row: "[0..63] = ([0, 1, 2, 3, 4, 5, 6, 7, 8, 9, 10, 11, 12, 13, 14, 15, 16, 17, 18, 19, 20, 21, 22, 23, 24, 25, 26, 27, 28, 29, 30, 31, 32, 33, 34, 35, 36, 37, 38, 39, 40, 41, 42, 43, 44, 45, 46, 47, 48, 49, 50, 51, 52, 53, 54, 55, 56, 57, 58, 59, 60, 61, 62, 63] :: int list)" by (simp add: upto_rec1)
  have "take 64 (drop 0 gateway_crc32_table) = [0x00000000, 0x77073096, 0xEE0E612C, 0x990951BA, 0x076DC419, 0x706AF48F, 0xE963A535, 0x9E6495A3, 0x0EDB8832, 0x79DCB8A4, 0xE0D5E91E, 0x97D2D988, 0x09B64C2B, 0x7EB17CBD, 0xE7B82D07, 0x90BF1D91, 0x1DB71064, 0x6AB020F2, 0xF3B97148, 0x84BE41DE, 0x1ADAD47D, 0x6DDDE4EB, 0xF4D4B551, 0x83D385C7, 0x136C9856, 0x646BA8C0, 0xFD62F97A, 0x8A65C9EC, 0x14015C4F, 0x63066CD9, 0xFA0F3D63, 0x8D080DF5, 0x3B6E20C8, 0x4C69105E, 0xD56041E4, 0xA2677172, 0x3C03E4D1, 0x4B04D447, 0xD20D85FD, 0xA50AB56B, 0x35B5A8FA, 0x42B2986C, 0xDBBBC9D6, 0xACBCF940, 0x32D86CE3, 0x45DF5C75, 0xDCD60DCF, 0xABD13D59, 0x26D930AC, 0x51DE003A, 0xC8D75180, 0xBFD06116, 0x21B4F4B5, 0x56B3C423, 0xCFBA9599, 0xB8BDA50F, 0x2802B89E, 0x5F058808, 0xC60CD9B2, 0xB10BE924, 0x2F6F7C87, 0x58684C11, 0xC1611DAB, 0xB6662D3D]"
    by (simp add: gateway_crc32_table_def)
  then show ?thesis unfolding row list.map by (simp add: crc_byte_def crc_bit_def)
qed

lemma gateway_table_row1: "take 64 (drop 64 gateway_crc32_table) = map (\<lambda>i. crc_byte (word_of_int i)) [64..127]"
proof -
  have row: "[64..127] = ([64, 65, 66, 67, 68, 69, 70, 71, 72, 73, 74, 75, 76, 77, 78, 79, 80, 81, 82, 83, 84, 85, 86, 87, 88, 89, 90, 91, 92, 93, 94, 95, 96, 97, 98, 99, 100, 101, 102, 103, 104, 105, 106, 107, 108, 109, 110, 111, 112, 113, 114, 115, 116, 117, 118, 119, 120, 121, 122, 123, 124, 125, 126, 127] :: int list)" by (simp add: upto_rec1)
  have "take 64 (drop 64 gateway_crc32_table) = [0x76DC4190, 0x01DB7106, 0x98D220BC, 0xEFD5102A, 0x71B18589, 0x06B6B51F, 0x9FBFE4A5, 0xE8B8D433, 0x7807C9A2, 0x0F00F934, 0x9609A88E, 0xE10E9818, 0x7F6A0DBB, 0x086D3D2D, 0x91646C97, 0xE6635C01, 0x6B6B51F4, 0x1C6C6162, 0x856530D8, 0xF262004E, 0x6C0695ED, 0x1B01A57B, 0x8208F4C1, 0xF50FC457, 0x65B0D9C6, 0x12B7E950, 0x8BBEB8EA, 0xFCB9887C, 0x62DD1DDF, 0x15DA2D49, 0x8CD37CF3, 0xFBD44C65, 0x4DB26158, 0x3AB551CE, 0xA3BC0074, 0xD4BB30E2, 0x4ADFA541, 0x3DD895D7, 0xA4D1C46D, 0xD3D6F4FB, 0x4369E96A, 0x346ED9FC, 0xAD678846, 0xDA60B8D0, 0x44042D73, 0x33031DE5, 0xAA0A4C5F, 0xDD0D7CC9, 0x5005713C, 0x270241AA, 0xBE0B1010, 0xC90C2086, 0x5768B525, 0x206F85B3, 0xB966D409, 0xCE61E49F, 0x5EDEF90E, 0x29D9C998, 0xB0D09822, 0xC7D7A8B4, 0x59B33D17, 0x2EB40D81, 0xB7BD5C3B, 0xC0BA6CAD]"
    by (simp add: gateway_crc32_table_def)
  then show ?thesis unfolding row list.map by (simp add: crc_byte_def crc_bit_def)
qed

lemma gateway_table_row2: "take 64 (drop 128 gateway_crc32_table) = map (\<lambda>i. crc_byte (word_of_int i)) [128..191]"
proof -
  have row: "[128..191] = ([128, 129, 130, 131, 132, 133, 134, 135, 136, 137, 138, 139, 140, 141, 142, 143, 144, 145, 146, 147, 148, 149, 150, 151, 152, 153, 154, 155, 156, 157, 158, 159, 160, 161, 162, 163, 164, 165, 166, 167, 168, 169, 170, 171, 172, 173, 174, 175, 176, 177, 178, 179, 180, 181, 182, 183, 184, 185, 186, 187, 188, 189, 190, 191] :: int list)" by (simp add: upto_rec1)
  have "take 64 (drop 128 gateway_crc32_table) = [0xEDB88320, 0x9ABFB3B6, 0x03B6E20C, 0x74B1D29A, 0xEAD54739, 0x9DD277AF, 0x04DB2615, 0x73DC1683, 0xE3630B12, 0x94643B84, 0x0D6D6A3E, 0x7A6A5AA8, 0xE40ECF0B, 0x9309FF9D, 0x0A00AE27, 0x7D079EB1, 0xF00F9344, 0x8708A3D2, 0x1E01F268, 0x6906C2FE, 0xF762575D, 0x806567CB, 0x196C3671, 0x6E6B06E7, 0xFED41B76, 0x89D32BE0, 0x10DA7A5A, 0x67DD4ACC, 0xF9B9DF6F, 0x8EBEEFF9, 0x17B7BE43, 0x60B08ED5, 0xD6D6A3E8, 0xA1D1937E, 0x38D8C2C4, 0x4FDFF252, 0xD1BB67F1, 0xA6BC5767, 0x3FB506DD, 0x48B2364B, 0xD80D2BDA, 0xAF0A1B4C, 0x36034AF6, 0x41047A60, 0xDF60EFC3, 0xA867DF55, 0x316E8EEF, 0x4669BE79, 0xCB61B38C, 0xBC66831A, 0x256FD2A0, 0x5268E236, 0xCC0C7795, 0xBB0B4703, 0x220216B9, 0x5505262F, 0xC5BA3BBE, 0xB2BD0B28, 0x2BB45A92, 0x5CB36A04, 0xC2D7FFA7, 0xB5D0CF31, 0x2CD99E8B, 0x5BDEAE1D]"
    by (simp add: gateway_crc32_table_def)
  then show ?thesis unfolding row list.map by (simp add: crc_byte_def crc_bit_def)
qed

lemma gateway_table_row3: "take 64 (drop 192 gateway_crc32_table) = map (\<lambda>i. crc_byte (word_of_int i)) [192..255]"
proof -
  have row: "[192..255] = ([192, 193, 194, 195, 196, 197, 198, 199, 200, 201, 202, 203, 204, 205, 206, 207, 208, 209, 210, 211, 212, 213, 214, 215, 216, 217, 218, 219, 220, 221, 222, 223, 224, 225, 226, 227, 228, 229, 230, 231, 232, 233, 234, 235, 236, 237, 238, 239, 240, 241, 242, 243, 244, 245, 246, 247, 248, 249, 250, 251, 252, 253, 254, 255] :: int list)" by (simp add: upto_rec1)
  have "take 64 (drop 192 gateway_crc32_table) = [0x9B64C2B0, 0xEC63F226, 0x756AA39C, 0x026D930A, 0x9C0906A9, 0xEB0E363F, 0x72076785, 0x05005713, 0x95BF4A82, 0xE2B87A14, 0x7BB12BAE, 0x0CB61B38, 0x92D28E9B, 0xE5D5BE0D, 0x7CDCEFB7, 0x0BDBDF21, 0x86D3D2D4, 0xF1D4E242, 0x68DDB3F8, 0x1FDA836E, 0x81BE16CD, 0xF6B9265B, 0x6FB077E1, 0x18B74777, 0x88085AE6, 0xFF0F6A70, 0x66063BCA, 0x11010B5C, 0x8F659EFF, 0xF862AE69, 0x616BFFD3, 0x166CCF45, 0xA00AE278, 0xD70DD2EE, 0x4E048354, 0x3903B3C2, 0xA7672661, 0xD06016F7, 0x4969474D, 0x3E6E77DB, 0xAED16A4A, 0xD9D65ADC, 0x40DF0B66, 0x37D83BF0, 0xA9BCAE53, 0xDEBB9EC5, 0x47B2CF7F, 0x30B5FFE9, 0xBDBDF21C, 0xCABAC28A, 0x53B39330, 0x24B4A3A6, 0xBAD03605, 0xCDD70693, 0x54DE5729, 0x23D967BF, 0xB3667A2E, 0xC4614AB8, 0x5D681B02, 0x2A6F2B94, 0xB40BBE37, 0xC30C8EA1, 0x5A05DF1B, 0x2D02EF8D]"
    by (simp add: gateway_crc32_table_def)
  then show ?thesis unfolding row list.map by (simp add: crc_byte_def crc_bit_def)
qed


lemma length_gateway_table: "length gateway_crc32_table = 256"
  by (simp add: gateway_crc32_table_def)

lemma gateway_table:
  assumes "i < 256"
  shows "gateway_crc32_table ! i = crc_byte (of_nat i)"
proof -
  have row: "gateway_crc32_table ! i = crc_byte (of_nat i)"
    if "take 64 (drop (nat a) gateway_crc32_table) = map (\<lambda>i. crc_byte (word_of_int i)) [a..a + 63]" "nat a \<le> i" "i < nat a + 64" "0 \<le> a" for a
  proof -
    have "gateway_crc32_table ! i = take 64 (drop (nat a) gateway_crc32_table) ! (i - nat a)"
      using that(2,3) assms by (simp add: length_gateway_table)
    also have "\<dots> = crc_byte (word_of_int (a + int (i - nat a)))" unfolding that(1) using that(2,3) by (subst nth_map) simp_all
    also have "a + int (i - nat a) = int i" using that(2,4) by simp
    finally show ?thesis by simp
  qed
  from assms consider "i < 64" | "64 \<le> i" "i < 128" | "128 \<le> i" "i < 192" | "192 \<le> i" by linarith
  then show ?thesis
    using row [of 0] row [of 64] row [of 128] row [of 192] gateway_table_row0 gateway_table_row1 gateway_table_row2
      gateway_table_row3 assms by cases simp_all
qed

text \<open>The filesystem's table has one wrong entry, with index 245.\<close>

lemma ekkfs_table: "ekkfs_crc32_table = gateway_crc32_table[245 := 0xCDD706B3]"
  by (simp add: ekkfs_crc32_table_def gateway_crc32_table_def)

section \<open>Tables with distinct leading bytes\<close>

locale crc_table =
  fixes table :: "u32 list"
  assumes table_length: "length table = 256"
    and leading_bytes: "i < 256 \<Longrightarrow> j < 256 \<Longrightarrow> drop_bit 24 (table ! i) = drop_bit 24 (table ! j) \<Longrightarrow> i = j"
begin

text \<open>
  The leading byte of a new state tells which entry was used, and the entry and the new state
  give the old state without its low byte: agreement of new states from bit \<open>8 * j\<close> on is
  agreement of old states from bit \<open>8 * (j + 1)\<close> on.
\<close>

definition index :: "u32 \<Rightarrow> u8 \<Rightarrow> u32" where
  "index c b = (c XOR ucast b) AND 0xFF"

lemma index_less: "unat (index c b) < 256"
proof -
  have "index c b \<le> 0xFF" unfolding index_def by (rule word_and_le1)
  then show ?thesis by (simp add: word_le_nat_alt)
qed

lemma step_backwards:
  assumes "drop_bit (8 * j) (crc_step table c b) = drop_bit (8 * j) (crc_step table c' b')" "j \<le> 3"
  shows "index c b = index c' b'" "drop_bit (8 * Suc j) c = drop_bit (8 * Suc j) c'"
proof -
  have top: "drop_bit 24 (crc_step table c b) = drop_bit 24 (table ! unat (index c b))" for c b
    by (simp add: crc_step_def index_def drop_bit_xor)
  have "drop_bit (24 - 8 * j) (drop_bit (8 * j) (crc_step table c b)) = drop_bit (24 - 8 * j) (drop_bit (8 * j) (crc_step table c' b'))"
    by (simp only: assms(1))
  moreover have "24 - 8 * j + 8 * j = 24" using assms(2) by simp
  ultimately have "drop_bit 24 (crc_step table c b) = drop_bit 24 (crc_step table c' b')" by (simp only: drop_bit_drop_bit)
  then have "unat (index c b) = unat (index c' b')" unfolding top by (intro leading_bytes index_less)
  then show i: "index c b = index c' b'" by (simp only: word_unat_eq_iff)
  have "drop_bit (8 * j) (crc_step table c b) = drop_bit (8 * j) (table ! unat (index c b)) XOR drop_bit (8 * j) (drop_bit 8 c)" for c b
    by (simp only: crc_step_def index_def drop_bit_xor)
  with assms(1) i have "drop_bit (8 * j) (table ! unat (index c b)) XOR (drop_bit (8 * j) (table ! unat (index c b)) XOR drop_bit (8 * j) (drop_bit 8 c)) =
      drop_bit (8 * j) (table ! unat (index c b)) XOR (drop_bit (8 * j) (table ! unat (index c b)) XOR drop_bit (8 * j) (drop_bit 8 c'))"
    by (simp only:)
  then have "drop_bit (8 * j) (drop_bit 8 c) = drop_bit (8 * j) (drop_bit 8 c')"
    by (simp only: xor.assoc [symmetric] xor_self_eq xor.left_neutral)
  then show "drop_bit (8 * Suc j) c = drop_bit (8 * Suc j) c'" by (simp add: drop_bit_drop_bit add.commute)
qed

lemma run_backwards:
  "drop_bit (8 * j) (foldl (crc_step table) c xs) = drop_bit (8 * j) (foldl (crc_step table) c' ys) \<Longrightarrow>
   length xs = length ys \<Longrightarrow> j + length xs \<le> 4 \<Longrightarrow> drop_bit (8 * (j + length xs)) c = drop_bit (8 * (j + length xs)) c'"
proof (induction xs arbitrary: ys j rule: rev_induct)
  case (snoc b bs)
  from snoc.prems(2) obtain d ds where ys: "ys = ds @ [d]" "length bs = length ds" by (cases ys rule: rev_cases) auto
  with snoc.prems(1,3) have "drop_bit (8 * Suc j) (foldl (crc_step table) c bs) = drop_bit (8 * Suc j) (foldl (crc_step table) c' ds)"
    by (intro step_backwards(2)) simp_all
  from snoc.IH [OF this ys(2)] snoc.prems(3) show ?case by simp
qed simp

lemma index_injective: "index c b = index c b' \<Longrightarrow> b = b'"
proof (rule bit_word_eqI)
  fix n assume i: "index c b = index c b'" and n: "n < LENGTH(8)"
  have m: "(0xFF :: u32) = mask 8" by (simp add: mask_eq_exp_minus_1)
  from arg_cong [OF i, of "\<lambda>w. bit w n"] n show "bit b n \<longleftrightarrow> bit b' n"
    unfolding index_def m by (auto simp: bit_and_iff bit_xor_iff bit_mask_iff bit_ucast_iff)
qed

lemma burst_injective:
  "foldl (crc_step table) c xs = foldl (crc_step table) c ys \<Longrightarrow> length xs = length ys \<Longrightarrow> length xs \<le> 4 \<Longrightarrow> xs = ys"
proof (induction xs arbitrary: c ys)
  case (Cons b bs)
  then obtain d ds where ys: "ys = d # ds" "length bs = length ds" by (cases ys) auto
  have "drop_bit (8 * length bs) (crc_step table c b) = drop_bit (8 * length bs) (crc_step table c d)"
    using run_backwards [of 0 "crc_step table c b" bs "crc_step table c d" ds] Cons.prems ys by simp
  from step_backwards(1) [OF this] Cons.prems(3) have "b = d" by (intro index_injective) simp
  with Cons ys show ?case by auto
qed simp

lemma step_injective: "crc_step table c b = crc_step table c' b \<Longrightarrow> c = c'"
proof (rule bit_word_eqI)
  fix n assume eq: "crc_step table c b = crc_step table c' b" and n: "n < LENGTH(32)"
  have m: "(0xFF :: u32) = mask 8" by (simp add: mask_eq_exp_minus_1)
  have s: "index c b = index c' b" "drop_bit (8 * Suc 0) c = drop_bit (8 * Suc 0) c'"
    using step_backwards [of 0 c b c' b] eq by simp_all
  show "bit c n \<longleftrightarrow> bit c' n"
  proof (cases "n < 8")
    case True
    with arg_cong [OF s(1), of "\<lambda>w. bit w n"] n show ?thesis
      unfolding m index_def by (simp add: bit_and_iff bit_xor_iff bit_mask_iff) blast
  next
    case False
    with arg_cong [OF s(2), of "\<lambda>w. bit w (n - 8)"] show ?thesis by (simp add: bit_drop_bit_eq)
  qed
qed

lemma run_injective: "foldl (crc_step table) c bs = foldl (crc_step table) c' bs \<Longrightarrow> c = c'"
  by (induction bs arbitrary: c c') (auto dest: step_injective)

text \<open>Two messages that differ only within four consecutive bytes have different checksums.\<close>

lemma burst_detected:
  assumes "length xs = length ys" "length xs \<le> 4" "xs \<noteq> ys"
  shows "foldl (crc_step table) c (pre @ xs @ post) \<noteq> foldl (crc_step table) c (pre @ ys @ post)"
  using assms burst_injective run_injective by (fastforce simp: foldl_append)

end

definition high_zero :: "nat \<Rightarrow> u32 \<Rightarrow> bool" where
  "high_zero m u \<longleftrightarrow> (\<forall>n < 32. m \<le> n \<longrightarrow> \<not> bit u n)"

lemma crc_bit_high_zero:
  assumes "high_zero m (crc_bit u)" "m \<le> 31"
  shows "even u" "high_zero (Suc m) u"
proof -
  have top: "bit (0xEDB88320 :: u32) 31" by simp
  have "\<not> bit (crc_bit u) 31" using assms by (simp add: high_zero_def)
  moreover have "\<not> bit (drop_bit 1 u) 31" by (auto simp: bit_drop_bit_eq dest: bit_imp_le_length)
  ultimately show e: "even u" using top by (auto simp: crc_bit_def bit_xor_iff split: if_splits)
  have "\<not> bit u n" if "n < 32" "Suc m \<le> n" for n
  proof -
    have "\<not> bit (crc_bit u) (n - 1)" using assms(1) that by (simp add: high_zero_def)
    then show ?thesis using that by (simp add: crc_bit_even [OF e] bit_drop_bit_eq)
  qed
  then show "high_zero (Suc m) u" by (simp add: high_zero_def)
qed

lemma crc_byte_leading:
  assumes "drop_bit 24 (crc_byte z) = 0"
  shows "take_bit 8 z = 0"
proof -
  let ?u = "\<lambda>k. (crc_bit ^^ k) z"
  have u: "?u (Suc k) = crc_bit (?u k)" for k by simp
  have byte: "crc_byte z = ?u 8" by (simp add: crc_byte_def numeral_eq_Suc)
  have "high_zero 24 (?u 8)"
    unfolding high_zero_def
  proof (intro allI impI)
    fix n :: nat assume "n < 32" "24 \<le> n"
    with arg_cong [OF assms, of "\<lambda>w. bit w (n - 24)"] show "\<not> bit (?u 8) n" by (simp add: byte bit_drop_bit_eq)
  qed
  have high: "high_zero (32 - k) (?u k)" if "k \<le> 8" for k
    using that
  proof (induction "8 - k" arbitrary: k)
    case 0
    then show ?case using \<open>high_zero 24 (?u 8)\<close> by simp
  next
    case (Suc d)
    then have "high_zero (32 - Suc k) (crc_bit (?u k))" using Suc.hyps(1) [of "Suc k"] by simp
    then have "high_zero (Suc (32 - Suc k)) (?u k)" by (rule crc_bit_high_zero(2)) simp
    moreover have "Suc (32 - Suc k) = 32 - k" using Suc.hyps(2) Suc.prems by simp
    ultimately show ?case by simp
  qed
  have e: "even (?u k)" if "k < 8" for k
    using high [of "Suc k"] that by (auto intro: crc_bit_high_zero(1))
  have d: "?u k = drop_bit k z" if "k \<le> 8" for k
    using that
  proof (induction k)
    case (Suc k)
    then show ?case using e [of k] by (simp add: crc_bit_even)
  qed simp
  show ?thesis
  proof (rule bit_word_eqI)
    fix n assume "n < LENGTH(32)"
    have "\<not> bit z n" if "n < 8" using e [of n] d [of n] that by (simp add: bit_iff_odd_drop_bit)
    then show "bit (take_bit 8 z) n \<longleftrightarrow> bit (0 :: u32) n" by (simp add: bit_take_bit_iff)
  qed
qed

lemma xor_eq_zero: "a XOR b = 0 \<Longrightarrow> a = (b :: u32)"
proof (rule bit_word_eqI)
  fix n assume "a XOR b = 0"
  from arg_cong [OF this, of "\<lambda>w. bit w n"] show "bit a n \<longleftrightarrow> bit b n" by (simp add: bit_xor_iff)
qed

lemma xor_cancel: "a XOR m = b XOR m \<Longrightarrow> a = (b :: u32)"
proof (rule bit_word_eqI)
  fix n assume "a XOR m = b XOR m"
  from arg_cong [OF this, of "\<lambda>w. bit w n"] show "bit a n \<longleftrightarrow> bit b n" by (auto simp: bit_xor_iff)
qed

lemma byte_of_nat_xor:
  assumes "i < 256" "j < 256" "take_bit 8 ((of_nat i :: u32) XOR of_nat j) = 0"
  shows "i = j"
proof -
  have "take_bit 8 (of_nat i :: u32) XOR take_bit 8 (of_nat j) = 0" using assms(3) by (simp only: take_bit_xor)
  then have "take_bit 8 (of_nat i :: u32) = take_bit 8 (of_nat j)"
    by (rule xor_eq_zero)
  then have "unat (take_bit 8 (of_nat i :: u32)) = unat (take_bit 8 (of_nat j :: u32))" by simp
  then show ?thesis using assms(1,2) by (simp add: unsigned_take_bit_eq unat_of_nat take_bit_nat_eq_self)
qed

interpretation gateway_crc: crc_table gateway_crc32_table
proof unfold_locales
  show "length gateway_crc32_table = 256" by (rule length_gateway_table)
  fix i j :: nat
  assume ij: "i < 256" "j < 256" and "drop_bit 24 (gateway_crc32_table ! i) = drop_bit 24 (gateway_crc32_table ! j)"
  then have "drop_bit 24 (crc_byte (of_nat i XOR of_nat j)) = 0" by (simp add: gateway_table crc_byte_xor drop_bit_xor)
  then show "i = j" using ij by (intro byte_of_nat_xor crc_byte_leading)
qed

interpretation ekkfs_crc: crc_table ekkfs_crc32_table
proof unfold_locales
  show "length ekkfs_crc32_table = 256" by (simp add: ekkfs_table length_gateway_table)
  have "drop_bit 24 (gateway_crc32_table ! 245) = (0xCD :: u32)" by (simp add: gateway_crc32_table_def)
  then have "drop_bit 24 (ekkfs_crc32_table ! i) = drop_bit 24 (gateway_crc32_table ! i)" for i
    by (cases "i = 245") (simp_all add: ekkfs_table length_gateway_table)
  then show "i < 256 \<Longrightarrow> j < 256 \<Longrightarrow> drop_bit 24 (ekkfs_crc32_table ! i) = drop_bit 24 (ekkfs_crc32_table ! j) \<Longrightarrow> i = j" for i j
    using gateway_crc.leading_bytes [of i j] by simp
qed

section \<open>The checksums\<close>

definition ekkfs_index :: "u8 list \<Rightarrow> nat \<Rightarrow> u32" where
  "ekkfs_index data k = (foldl (crc_step ekkfs_crc32_table) 0xFFFFFFFF (take k data) XOR ucast (data ! k)) AND 0xFF"

lemma gateway_step: "crc_step gateway_crc32_table c b = crc_byte (c XOR ucast b)"
proof -
  have i: "unat ((c XOR ucast b) AND 0xFF) < 256" using gateway_crc.index_less [of c b] by (simp add: gateway_crc.index_def)
  have "crc_byte (c XOR ucast b) = crc_byte ((c XOR ucast b) AND 0xFF) XOR drop_bit 8 (c XOR ucast b)" by (rule crc_byte_split)
  moreover have "drop_bit 8 (c XOR ucast b) = drop_bit 8 c"
    by (rule bit_word_eqI) (auto simp: bit_drop_bit_eq bit_xor_iff bit_ucast_iff dest: bit_imp_le_length)
  ultimately show ?thesis by (simp add: crc_step_def gateway_table [OF i])
qed

lemma crc32_compute_reference: "crc32_compute data = crc_reference data"
  unfolding crc32_compute_def crc_reference_def gateway_step ..

lemma ekkfs_gateway_step:
  assumes "(c XOR ucast b) AND 0xFF \<noteq> 245"
  shows "crc_step ekkfs_crc32_table c b = crc_step gateway_crc32_table c b"
proof -
  have "unat ((c XOR ucast b) AND 0xFF) \<noteq> unat (245 :: u32)"
  proof
    assume "unat ((c XOR ucast b) AND 0xFF) = unat (245 :: u32)"
    then have "(c XOR ucast b) AND 0xFF = 245" by (simp only: word_unat_eq_iff)
    with assms show False ..
  qed
  then show ?thesis by (simp add: crc_step_def ekkfs_table)
qed

lemma ekkfs_run:
  "(\<forall>k < length data. ekkfs_index data k \<noteq> 245) \<Longrightarrow>
   foldl (crc_step ekkfs_crc32_table) 0xFFFFFFFF data = foldl (crc_step gateway_crc32_table) 0xFFFFFFFF data"
proof (induction data rule: rev_induct)
  case (snoc b bs)
  have "ekkfs_index (bs @ [b]) k = ekkfs_index bs k" if "k < length bs" for k
    using that by (simp add: ekkfs_index_def nth_append)
  then have "\<forall>k < length bs. ekkfs_index bs k \<noteq> 245" using snoc.prems by (metis length_append_singleton less_SucI)
  then have IH: "foldl (crc_step ekkfs_crc32_table) 0xFFFFFFFF bs = foldl (crc_step gateway_crc32_table) 0xFFFFFFFF bs"
    by (rule snoc.IH)
  have "ekkfs_index (bs @ [b]) (length bs) \<noteq> 245" using snoc.prems by (metis length_append_singleton lessI)
  then have "crc_step ekkfs_crc32_table (foldl (crc_step ekkfs_crc32_table) 0xFFFFFFFF bs) b =
      crc_step gateway_crc32_table (foldl (crc_step ekkfs_crc32_table) 0xFFFFFFFF bs) b"
    by (intro ekkfs_gateway_step) (simp add: ekkfs_index_def)
  then show ?case by (simp add: IH)
qed simp

text \<open>
  C22. The two checksums. The gateway's table-driven checksum is, for every message, the remainder
  that the bit-by-bit division computes. The filesystem's is so for every message that
  does not use entry 245 of its table, and differs for the message of the single byte 10, whose checksum is made with that entry.
  Still, both detect every damage that is confined to four consecutive bytes.
\<close>

theorem crc_tables_sound:
  assumes "length xs = length ys" "length xs \<le> 4" "xs \<noteq> ys"
  shows "crc32_compute data = crc_reference data \<and>
    (ekkfs_crc32 data = crc_reference data \<or> (\<exists>k < length data. ekkfs_index data k = 245)) \<and>
    ekkfs_crc32 [10] \<noteq> crc_reference [10] \<and>
    crc32_compute (pre @ xs @ post) \<noteq> crc32_compute (pre @ ys @ post) \<and>
    ekkfs_crc32 (pre @ xs @ post) \<noteq> ekkfs_crc32 (pre @ ys @ post)"
proof (intro conjI)
  have xor_inj: "a XOR m \<noteq> b XOR m" if "a \<noteq> b" for a b m :: u32
    using that xor_cancel by blast
  show "crc32_compute data = crc_reference data" by (rule crc32_compute_reference)
  have "ekkfs_crc32 data = crc32_compute data" if "\<forall>k < length data. ekkfs_index data k \<noteq> 245"
    using ekkfs_run [OF that] by (simp add: ekkfs_crc32_def crc32_compute_def)
  then show "ekkfs_crc32 data = crc_reference data \<or> (\<exists>k < length data. ekkfs_index data k = 245)"
    using crc32_compute_reference by auto
  show "ekkfs_crc32 [10] \<noteq> crc_reference [10]"
    unfolding crc32_compute_reference [symmetric]
    by (simp add: ekkfs_crc32_def crc32_compute_def crc_step_def ekkfs_crc32_table_def gateway_crc32_table_def)
  show "crc32_compute (pre @ xs @ post) \<noteq> crc32_compute (pre @ ys @ post)"
    unfolding crc32_compute_def by (intro xor_inj gateway_crc.burst_detected assms)
  show "ekkfs_crc32 (pre @ xs @ post) \<noteq> ekkfs_crc32 (pre @ ys @ post)"
    unfolding ekkfs_crc32_def by (intro xor_inj ekkfs_crc.burst_detected assms)
qed

theorem crc_tables_sound_witness:
  "crc32_compute [1, 2, 3, 4, 5] \<noteq> crc32_compute [1, 7, 3, 8, 5]"
  using crc_tables_sound [of "[2, 3, 4]" "[7, 3, 8]" "[]" "[1]" "[5]"] by simp

end
