(* ===== verification/Ekk_Flash_Log.thy ===== *)
theory Ekk_Flash_Log
  imports Ekk_Types Ekk_Bytes Ekk_Crc
begin

text \<open>
  The gateway's append-only log in flash (\<open>src/ekk_flash_log.c\<close>) with the checksum of its entries
  (\<open>src/ekk_gateway.c\<close>) and the flash driver of the TC397 (\<open>src/hal/ekk_hal_tc397.c\<close>). The driver
  functions are a record of functions over the state of a flash device, because the code declares
  them as replaceable; \<open>nor_flash\<close> says what the code relies on. Entries and sector headers are
  64 bytes in flash. The static variables of the file and the log they belong to are one record.
  The arithmetic modulo the number of sectors is undefined when there is none; an operation that
  would divide by 0 answers \<open>None\<close>.
\<close>

section \<open>Entries\<close>

record ekk_flash_entry =
  fe_global_seq :: u32
  fe_crc32 :: u32
  fe_length :: u16
  fe_stream_id :: u8
  fe_event_type :: u8
  fe_timestamp_us :: u32
  fe_origin_seq :: u32
  fe_data :: "u8 list"

definition entry_bytes :: "ekk_flash_entry \<Rightarrow> u8 list" where
  "entry_bytes e = le32 (fe_global_seq e) @ le32 (fe_crc32 e) @ le16 (fe_length e) @ [fe_stream_id e] @ [fe_event_type e] @
     le32 (fe_timestamp_us e) @ le32 (fe_origin_seq e) @ fe_data e"

definition entry_of_bytes :: "u8 list \<Rightarrow> ekk_flash_entry" where
  "entry_of_bytes bs = \<lparr>fe_global_seq = le_word (field bs 0 4), fe_crc32 = le_word (field bs 4 4),
     fe_length = le_word (field bs 8 2), fe_stream_id = le_word (field bs 10 1), fe_event_type = le_word (field bs 11 1),
     fe_timestamp_us = le_word (field bs 12 4), fe_origin_seq = le_word (field bs 16 4), fe_data = field bs 20 44\<rparr>"

text \<open>The checksum covers the sequence number and everything after the checksum field.\<close>

definition ekk_flash_entry_crc :: "ekk_flash_entry \<Rightarrow> u32" where
  "ekk_flash_entry_crc e =
     (let bytes = entry_bytes e;
          crc = foldl (crc_step gateway_crc32_table) 0xFFFFFFFF (take 4 bytes);
          crc = foldl (crc_step gateway_crc32_table) crc (take 56 (drop 8 bytes))
      in crc XOR 0xFFFFFFFF)"

definition ekk_flash_entry_verify :: "ekk_flash_entry \<Rightarrow> bool" where
  "ekk_flash_entry_verify e \<longleftrightarrow> fe_crc32 e = ekk_flash_entry_crc e"

section \<open>Sectors\<close>

abbreviation (input) EKK_FLASH_SECTOR_SIZE :: u32 where "EKK_FLASH_SECTOR_SIZE \<equiv> 16384"
abbreviation (input) ENTRIES_PER_SECTOR :: u32 where "ENTRIES_PER_SECTOR \<equiv> 256"
abbreviation (input) MAX_SECTORS :: u32 where "MAX_SECTORS \<equiv> 1024"
abbreviation (input) FLASH_ENDURANCE :: u32 where "FLASH_ENDURANCE \<equiv> 100000"
abbreviation (input) SECTOR_MAGIC :: u32 where "SECTOR_MAGIC \<equiv> 0x454B4B31"

record ekk_sector_header =
  sh_magic :: u32
  sh_sector_id :: u32
  sh_erase_count :: u32
  sh_first_seq :: u32
  sh_entry_count :: u32
  sh_timestamp_us :: u32

definition header_bytes :: "ekk_sector_header \<Rightarrow> u8 list" where
  "header_bytes h = le32 (sh_magic h) @ le32 (sh_sector_id h) @ le32 (sh_erase_count h) @ le32 (sh_first_seq h) @
     le32 (sh_entry_count h) @ le32 (sh_timestamp_us h) @ replicate 40 0"

definition header_of_bytes :: "u8 list \<Rightarrow> ekk_sector_header" where
  "header_of_bytes bs = \<lparr>sh_magic = le_word (field bs 0 4), sh_sector_id = le_word (field bs 4 4),
     sh_erase_count = le_word (field bs 8 4), sh_first_seq = le_word (field bs 12 4),
     sh_entry_count = le_word (field bs 16 4), sh_timestamp_us = le_word (field bs 20 4)\<rparr>"

section \<open>State\<close>

record 'f flash_hal =
  fh_read :: "'f \<Rightarrow> u32 \<Rightarrow> nat \<Rightarrow> ekk_error \<times> u8 list"
  fh_write :: "'f \<Rightarrow> u32 \<Rightarrow> u8 list \<Rightarrow> ekk_error \<times> 'f"
  fh_erase_sector :: "'f \<Rightarrow> u32 \<Rightarrow> ekk_error \<times> 'f"

record ekk_flash_log =
  fl_base_address :: u32
  fl_capacity :: u32
  fl_sector_count :: u32
  fl_write_head :: u32
  fl_write_sector :: u32
  fl_global_sequence :: u32
  fl_total_writes :: u32
  fl_total_erases :: u32
  fl_crc_errors :: u32

record 'f flash_store =
  fs_log :: ekk_flash_log
  fs_sector_erase_counts :: "u32 list"
  fs_sector_entry_counts :: "u32 list"
  fs_current_sector :: u32
  fs_sector_write_pos :: u32
  fs_flash :: 'f

text \<open>The default driver: reads are memory reads, writes and erasures do nothing.\<close>

definition weak_flash_hal :: "(nat \<Rightarrow> u8) flash_hal" where
  "weak_flash_hal = \<lparr>fh_read = \<lambda>f address len. (EKK_OK, map f [unat address..<unat address + len]),
     fh_write = \<lambda>f address bs. (EKK_OK, f), fh_erase_sector = \<lambda>f address. (EKK_OK, f)\<rparr>"

text \<open>
  The driver of the TC397: the memory, and the counts of programmed pages and erased sectors. The
  waits for the flash controller are taken to end; the commands to it are left out in the source.
\<close>

record tc397_flash =
  tc_memory :: "nat \<Rightarrow> u8"
  tc_flash_write_count :: u32
  tc_flash_erase_count :: u32

abbreviation (input) PFLASH_BASE :: u32 where "PFLASH_BASE \<equiv> 0x80000000"
abbreviation (input) PFLASH_SIZE :: u32 where "PFLASH_SIZE \<equiv> 0x01000000"

definition tc397_flash_read :: "tc397_flash \<Rightarrow> u32 \<Rightarrow> nat \<Rightarrow> ekk_error \<times> u8 list" where
  "tc397_flash_read f address len =
     (if address < PFLASH_BASE \<or> address + of_nat len > PFLASH_BASE + PFLASH_SIZE then (EKK_ERR_INVALID_ARG, [])
      else (EKK_OK, map (tc_memory f) [unat address..<unat address + len]))"

definition tc397_flash_write :: "tc397_flash \<Rightarrow> u32 \<Rightarrow> u8 list \<Rightarrow> ekk_error \<times> tc397_flash" where
  "tc397_flash_write f address bs =
     (if address < PFLASH_BASE \<or> address + of_nat (length bs) > PFLASH_BASE + PFLASH_SIZE then (EKK_ERR_INVALID_ARG, f)
      else if address AND 0xFF \<noteq> 0 \<or> (of_nat (length bs) AND 0xFF :: u32) \<noteq> 0 then (EKK_ERR_INVALID_ARG, f)
      else (EKK_OK, f\<lparr>tc_flash_write_count := tc_flash_write_count f + of_nat (length bs div 256)\<rparr>))"

definition tc397_flash_erase_sector :: "tc397_flash \<Rightarrow> u32 \<Rightarrow> ekk_error \<times> tc397_flash" where
  "tc397_flash_erase_sector f address =
     (if address < PFLASH_BASE \<or> address \<ge> PFLASH_BASE + PFLASH_SIZE then (EKK_ERR_INVALID_ARG, f)
      else (EKK_OK, f\<lparr>tc_flash_erase_count := tc_flash_erase_count f + 1\<rparr>))"

definition tc397_flash_hal :: "tc397_flash flash_hal" where
  "tc397_flash_hal = \<lparr>fh_read = tc397_flash_read, fh_write = tc397_flash_write, fh_erase_sector = tc397_flash_erase_sector\<rparr>"

section \<open>Operations\<close>

definition sector_address :: "ekk_flash_log \<Rightarrow> u32 \<Rightarrow> u32" where
  "sector_address log sector = fl_base_address log + sector * EKK_FLASH_SECTOR_SIZE"

definition read_sector_header :: "'f flash_hal \<Rightarrow> 'f \<Rightarrow> ekk_flash_log \<Rightarrow> u32 \<Rightarrow> ekk_error \<times> ekk_sector_header" where
  "read_sector_header hal f log sector =
     (let (err, bytes) = fh_read hal f (sector_address log sector) 64 in (err, header_of_bytes bytes))"

definition write_sector_header ::
  "'f flash_hal \<Rightarrow> 'f \<Rightarrow> ekk_flash_log \<Rightarrow> u32 \<Rightarrow> ekk_sector_header \<Rightarrow> ekk_error \<times> 'f"
where
  "write_sector_header hal f log sector header = fh_write hal f (sector_address log sector) (header_bytes header)"

definition find_min_erase_sector :: "u32 list \<Rightarrow> u32 \<Rightarrow> u32 \<Rightarrow> u32" where
  "find_min_erase_sector erase_counts sector_count exclude =
     snd (fold (\<lambda>i (min_erases, min_sector).
           if of_nat i = exclude then (min_erases, min_sector)
           else if erase_counts ! i < min_erases then (erase_counts ! i, of_nat i) else (min_erases, min_sector))
         [0..<unat sector_count] (0xFFFFFFFF, 0))"

definition erase_and_init_sector ::
  "'f flash_hal \<Rightarrow> 'f flash_store \<Rightarrow> u32 \<Rightarrow> u32 \<Rightarrow> u64 \<Rightarrow> ekk_error \<times> 'f flash_store"
where
  "erase_and_init_sector hal s sector first_seq now =
     (let (err, f) = fh_erase_sector hal (fs_flash s) (sector_address (fs_log s) sector);
          s = s\<lparr>fs_flash := f\<rparr>
      in if err \<noteq> EKK_OK then (err, s)
         else
           (let erase_count = fs_sector_erase_counts s ! unat sector + 1;
                s = s\<lparr>fs_sector_erase_counts := (fs_sector_erase_counts s)[unat sector := erase_count],
                  fs_log := (fs_log s)\<lparr>fl_total_erases := fl_total_erases (fs_log s) + 1\<rparr>\<rparr>;
                header = \<lparr>sh_magic = SECTOR_MAGIC, sh_sector_id = sector, sh_erase_count = erase_count,
                  sh_first_seq = first_seq, sh_entry_count = 0, sh_timestamp_us = ucast now\<rparr>;
                (err, f) = write_sector_header hal (fs_flash s) (fs_log s) sector header;
                s = s\<lparr>fs_flash := f\<rparr>
            in if err \<noteq> EKK_OK then (err, s)
               else (EKK_OK, s\<lparr>fs_sector_entry_counts := (fs_sector_entry_counts s)[unat sector := 0]\<rparr>)))"

definition next_sector :: "'f flash_store \<Rightarrow> u32" where
  "next_sector s =
     (let n = (fs_current_sector s + 1) mod fl_sector_count (fs_log s)
      in if fs_sector_entry_counts s ! unat n > 0
         then find_min_erase_sector (fs_sector_erase_counts s) (fl_sector_count (fs_log s)) (fs_current_sector s) else n)"

definition advance_sector :: "'f flash_hal \<Rightarrow> 'f flash_store \<Rightarrow> u64 \<Rightarrow> (ekk_error \<times> 'f flash_store) option" where
  "advance_sector hal s now =
     (if fl_sector_count (fs_log s) = 0 then None
      else
        (let n = next_sector s;
             (err, s) = erase_and_init_sector hal s n (fl_global_sequence (fs_log s)) now
         in if err \<noteq> EKK_OK then Some (err, s)
            else Some (EKK_OK, s\<lparr>fs_current_sector := n, fs_sector_write_pos := 1,
                   fs_log := (fs_log s)\<lparr>fl_write_sector := n\<rparr>\<rparr>)))"

text \<open>The scan of the headers: the counts recovered, and the sector with the greatest sequence number.\<close>

definition scan_header ::
  "'f flash_hal \<Rightarrow> nat \<Rightarrow> 'f flash_store \<times> u32 \<times> u32 \<Rightarrow> 'f flash_store \<times> u32 \<times> u32"
where
  "scan_header hal i = (\<lambda>(s, max_seq, newest_sector).
     (let (err, header) = read_sector_header hal (fs_flash s) (fs_log s) (of_nat i)
      in if err = EKK_OK \<and> sh_magic header = SECTOR_MAGIC
         then
           (let s = s\<lparr>fs_sector_erase_counts := (fs_sector_erase_counts s)[i := sh_erase_count header],
                  fs_sector_entry_counts := (fs_sector_entry_counts s)[i := sh_entry_count header]\<rparr>;
                sector_max_seq = sh_first_seq header + sh_entry_count header
            in if sector_max_seq > max_seq then (s, sector_max_seq, of_nat i) else (s, max_seq, newest_sector))
         else (s, max_seq, newest_sector)))"

definition ekk_flash_log_init :: "'f flash_hal \<Rightarrow> 'f \<Rightarrow> u32 \<Rightarrow> u32 \<Rightarrow> u64 \<Rightarrow> 'f flash_store option" where
  "ekk_flash_log_init hal f base_address capacity now =
     (let sector_count = capacity div ENTRIES_PER_SECTOR;
          sector_count = (if sector_count > MAX_SECTORS then MAX_SECTORS else sector_count);
          log = \<lparr>fl_base_address = base_address, fl_capacity = capacity, fl_sector_count = sector_count,
            fl_write_head = 0, fl_write_sector = 0, fl_global_sequence = 0, fl_total_writes = 0, fl_total_erases = 0,
            fl_crc_errors = 0\<rparr>;
          s = \<lparr>fs_log = log, fs_sector_erase_counts = replicate (unat MAX_SECTORS) 0,
            fs_sector_entry_counts = replicate (unat MAX_SECTORS) 0, fs_current_sector = 0, fs_sector_write_pos = 0,
            fs_flash = f\<rparr>;
          (s, max_seq, newest_sector) = fold (scan_header hal) [0..<unat sector_count] (s, 0, 0);
          s = s\<lparr>fs_current_sector := newest_sector,
            fs_sector_write_pos := fs_sector_entry_counts s ! unat newest_sector + 1,
            fs_log := (fs_log s)\<lparr>fl_write_sector := newest_sector, fl_global_sequence := max_seq\<rparr>\<rparr>
      in if fs_sector_write_pos s \<ge> ENTRIES_PER_SECTOR then map_option snd (advance_sector hal s now) else Some s)"

definition write_offset :: "'f flash_store \<Rightarrow> u32" where
  "write_offset s = (fs_current_sector s * ENTRIES_PER_SECTOR + fs_sector_write_pos s) * 64"

definition append_entry :: "'f flash_hal \<Rightarrow> 'f flash_store \<Rightarrow> ekk_flash_entry \<Rightarrow> u32 \<times> 'f flash_store" where
  "append_entry hal s entry =
     (let offset = write_offset s;
          (err, f) = fh_write hal (fs_flash s) (fl_base_address (fs_log s) + offset) (entry_bytes entry);
          s = s\<lparr>fs_flash := f\<rparr>;
          i = unat (fs_current_sector s)
      in if err \<noteq> EKK_OK then (0xFFFFFFFF, s)
         else (offset, s\<lparr>fs_sector_write_pos := fs_sector_write_pos s + 1,
                fs_sector_entry_counts := (fs_sector_entry_counts s)[i := fs_sector_entry_counts s ! i + 1],
                fs_log := (fs_log s)\<lparr>fl_write_head := fl_write_head (fs_log s) + 1,
                  fl_total_writes := fl_total_writes (fs_log s) + 1\<rparr>\<rparr>))"

definition ekk_flash_log_write :: "'f flash_hal \<Rightarrow> 'f flash_store \<Rightarrow> ekk_flash_entry \<Rightarrow> u64 \<Rightarrow> (u32 \<times> 'f flash_store) option" where
  "ekk_flash_log_write hal s entry now =
     (if fs_sector_write_pos s \<ge> ENTRIES_PER_SECTOR
      then (case advance_sector hal s now of
              None \<Rightarrow> None
            | Some (err, s) \<Rightarrow> Some (if err \<noteq> EKK_OK then (0xFFFFFFFF, s) else append_entry hal s entry))
      else Some (append_entry hal s entry))"

text \<open>The entry is what the caller's buffer holds afterwards; it is filled also when the checksum fails.\<close>

definition ekk_flash_log_read ::
  "'f flash_hal \<Rightarrow> 'f flash_store \<Rightarrow> u32 \<Rightarrow> ekk_error \<times> ekk_flash_entry option \<times> 'f flash_store"
where
  "ekk_flash_log_read hal s offset =
     (let (err, bytes) = fh_read hal (fs_flash s) (fl_base_address (fs_log s) + offset) 64;
          entry = entry_of_bytes bytes
      in if err \<noteq> EKK_OK then (err, None, s)
         else if \<not> ekk_flash_entry_verify entry
         then (EKK_ERR_INVALID_ARG, Some entry, s\<lparr>fs_log := (fs_log s)\<lparr>fl_crc_errors := fl_crc_errors (fs_log s) + 1\<rparr>\<rparr>)
         else (EKK_OK, Some entry, s))"

text \<open>The average divides by the number of sectors.\<close>

definition ekk_flash_log_wear_stats :: "'f flash_store \<Rightarrow> (u32 \<times> u32 \<times> u32) option" where
  "ekk_flash_log_wear_stats s =
     (let (lowest, highest, sum) = fold (\<lambda>i (lowest, highest, sum).
            let n = fs_sector_erase_counts s ! i
            in (if n < lowest then n else lowest, if n > highest then n else highest, sum + ucast n))
          [0..<unat (fl_sector_count (fs_log s))] (0xFFFFFFFF, 0, 0 :: u64)
      in if fl_sector_count (fs_log s) = 0 then None
         else Some (lowest, highest, ucast (sum div ucast (fl_sector_count (fs_log s)))))"

definition ekk_flash_log_remaining_life :: "'f flash_store \<Rightarrow> u32" where
  "ekk_flash_log_remaining_life s =
     (let max_erases = fold (\<lambda>i m. if fs_sector_erase_counts s ! i > m then fs_sector_erase_counts s ! i else m)
            [0..<unat (fl_sector_count (fs_log s))] 0
      in if max_erases \<ge> FLASH_ENDURANCE then 0 else 100 - max_erases * 100 div FLASH_ENDURANCE)"


section \<open>Layout of entries and headers\<close>

lemma le_word_single [simp]: "le_word [b] = (b :: u8)"
  by (simp add: le_word_def)

lemma length_entry_bytes [simp]: "length (entry_bytes e) = 20 + length (fe_data e)"
  by (simp add: entry_bytes_def)

lemma entry_round: "length (fe_data e) = 44 \<Longrightarrow> entry_of_bytes (entry_bytes e) = e"
  by (simp add: entry_of_bytes_def entry_bytes_def del: append.simps)

lemma length_header_bytes [simp]: "length (header_bytes h) = 64"
  by (simp add: header_bytes_def)

lemma header_round: "header_of_bytes (header_bytes h) = h"
  by (simp add: header_of_bytes_def header_bytes_def)

definition erased :: "u8 list" where "erased = replicate 64 0xFF"

lemma erased_magic: "sh_magic (header_of_bytes erased) \<noteq> SECTOR_MAGIC"
proof -
  have "field erased 0 4 = [0xFF, 0xFF, 0xFF, 0xFF]"
    by (simp add: field_def erased_def numeral_eq_Suc)
  then show ?thesis by (simp add: header_of_bytes_def le_word_def)
qed

section \<open>What the code relies on\<close>

text \<open>
  A flash device, seen from the base address as slots of 64 bytes, of which 256 are a sector: a slot is
  read, an erased slot is programmed, a sector is erased, and nothing else changes. What
  programming does to a slot that is not erased is not said.
\<close>

definition nor_flash :: "'f flash_hal \<Rightarrow> ('f \<Rightarrow> nat \<Rightarrow> u8 list) \<Rightarrow> u32 \<Rightarrow> nat \<Rightarrow> bool" where
  "nor_flash hal slot base n \<longleftrightarrow>
     (\<forall>f q. q < 256 * n \<longrightarrow> fh_read hal f (base + of_nat (64 * q)) 64 = (EKK_OK, slot f q)) \<and>
     (\<forall>f q bs. q < 256 * n \<and> length bs = 64 \<and> slot f q = erased \<longrightarrow>
        fst (fh_write hal f (base + of_nat (64 * q)) bs) = EKK_OK \<and>
        (\<forall>q' < 256 * n. slot (snd (fh_write hal f (base + of_nat (64 * q)) bs)) q' = (if q' = q then bs else slot f q'))) \<and>
     (\<forall>f c. c < n \<longrightarrow> fst (fh_erase_sector hal f (base + of_nat (16384 * c))) = EKK_OK \<and>
        (\<forall>q' < 256 * n. slot (snd (fh_erase_sector hal f (base + of_nat (16384 * c)))) q' =
           (if q' div 256 = c then erased else slot f q')))"

lemma nor_read: "nor_flash hal slot base n \<Longrightarrow> q < 256 * n \<Longrightarrow> fh_read hal f (base + of_nat (64 * q)) 64 = (EKK_OK, slot f q)"
  by (simp add: nor_flash_def)

lemma nor_write:
  assumes "nor_flash hal slot base n" "q < 256 * n" "length bs = 64" "slot f q = erased"
  shows "\<exists>f'. fh_write hal f (base + of_nat (64 * q)) bs = (EKK_OK, f') \<and>
    (\<forall>q' < 256 * n. slot f' q' = (if q' = q then bs else slot f q'))"
  using assms unfolding nor_flash_def by (metis prod.collapse)

lemma nor_erase:
  assumes "nor_flash hal slot base n" "c < n"
  shows "\<exists>f'. fh_erase_sector hal f (base + of_nat (16384 * c)) = (EKK_OK, f') \<and>
    (\<forall>q' < 256 * n. slot f' q' = (if q' div 256 = c then erased else slot f q'))"
  using assms unfolding nor_flash_def by (metis prod.collapse)

section \<open>One step\<close>

text \<open>The log writes at slot \<open>pos\<close> of sector \<open>cur\<close>, and what follows in that sector is erased.\<close>

definition ready :: "('f \<Rightarrow> nat \<Rightarrow> u8 list) \<Rightarrow> u32 \<Rightarrow> nat \<Rightarrow> nat \<Rightarrow> nat \<Rightarrow> 'f flash_store \<Rightarrow> bool" where
  "ready slot base n cur pos s \<longleftrightarrow>
     fl_base_address (fs_log s) = base \<and> fl_sector_count (fs_log s) = of_nat n \<and> n \<le> 1024 \<and>
     length (fs_sector_erase_counts s) = 1024 \<and> length (fs_sector_entry_counts s) = 1024 \<and>
     fs_current_sector s = of_nat cur \<and> cur < n \<and> fs_sector_write_pos s = of_nat pos \<and> 0 < pos \<and> pos \<le> 256 \<and>
     (\<forall>q. 256 * cur + pos \<le> q \<and> q < 256 * cur + 256 \<longrightarrow> slot (fs_flash s) q = erased)"

lemma ready_append:
  assumes flash: "nor_flash hal slot base n" and inv: "ready slot base n cur pos s" and pos: "pos < 256"
    and e: "length (fe_data e) = 44"
  obtains f' where "append_entry hal s e = (of_nat (64 * (256 * cur + pos)), s\<lparr>fs_flash := f', fs_sector_write_pos := fs_sector_write_pos s + 1,
        fs_sector_entry_counts := (fs_sector_entry_counts s)[cur := fs_sector_entry_counts s ! cur + 1],
        fs_log := (fs_log s)\<lparr>fl_write_head := fl_write_head (fs_log s) + 1, fl_total_writes := fl_total_writes (fs_log s) + 1\<rparr>\<rparr>)"
    "\<And>q. q < 256 * n \<Longrightarrow> slot f' q = (if q = 256 * cur + pos then entry_bytes e else slot (fs_flash s) q)"
proof -
  have cur: "cur < n" "n \<le> 1024" "unat (of_nat cur :: u32) = cur"
    using inv unat_small [of cur] by (simp_all add: ready_def)
  have offset: "write_offset s = of_nat (64 * (256 * cur + pos))"
    using inv by (simp add: write_offset_def ready_def algebra_simps)
  have "256 * cur + pos < 256 * n" using cur pos by linarith
  moreover have "slot (fs_flash s) (256 * cur + pos) = erased" using inv pos by (simp add: ready_def)
  ultimately obtain f' where f': "fh_write hal (fs_flash s) (base + of_nat (64 * (256 * cur + pos))) (entry_bytes e) = (EKK_OK, f')"
      "\<And>q. q < 256 * n \<Longrightarrow> slot f' q = (if q = 256 * cur + pos then entry_bytes e else slot (fs_flash s) q)"
    using nor_write [OF flash, of "256 * cur + pos" "entry_bytes e" "fs_flash s"] e by auto
  have "fl_base_address (fs_log s) = base" "fs_current_sector s = of_nat cur" using inv by (simp_all add: ready_def)
  then show thesis
    using f' cur(3) by (intro that [of f']) (simp_all add: append_entry_def offset Let_def del: of_nat_mult of_nat_add)
qed

lemma ready_erase:
  assumes flash: "nor_flash hal slot base n" and inv: "ready slot base n cur pos s" and t: "t < n"
  shows "\<exists>f' h. erase_and_init_sector hal s (of_nat t) first_seq now = (EKK_OK, s\<lparr>fs_flash := f',
        fs_sector_erase_counts := (fs_sector_erase_counts s)[t := fs_sector_erase_counts s ! t + 1],
        fs_sector_entry_counts := (fs_sector_entry_counts s)[t := 0],
        fs_log := (fs_log s)\<lparr>fl_total_erases := fl_total_erases (fs_log s) + 1\<rparr>\<rparr>) \<and>
    (\<forall>q < 256 * n. slot f' q =
       (if q = 256 * t then header_bytes h else if q div 256 = t then erased else slot (fs_flash s) q)) \<and>
    sh_magic h = SECTOR_MAGIC \<and> sh_entry_count h = 0"
proof -
  have u: "unat (of_nat t :: u32) = t" using t inv unat_small [of t] by (simp add: ready_def)
  have a: "sector_address (fs_log s) (of_nat t) = base + of_nat (16384 * t)"
    using inv by (simp add: sector_address_def ready_def mult.commute)
  obtain f1 where f1: "fh_erase_sector hal (fs_flash s) (base + of_nat (16384 * t)) = (EKK_OK, f1)"
      "\<And>q. q < 256 * n \<Longrightarrow> slot f1 q = (if q div 256 = t then erased else slot (fs_flash s) q)"
    using nor_erase [OF flash t, of "fs_flash s"] by blast
  let ?h = "\<lparr>sh_magic = SECTOR_MAGIC, sh_sector_id = of_nat t, sh_erase_count = fs_sector_erase_counts s ! t + 1,
     sh_first_seq = first_seq, sh_entry_count = 0, sh_timestamp_us = ucast now\<rparr>"
  have "256 * t < 256 * n" "slot f1 (256 * t) = erased" using t f1(2) [of "256 * t"] by simp_all
  then obtain f2 where f2: "fh_write hal f1 (base + of_nat (64 * (256 * t))) (header_bytes ?h) = (EKK_OK, f2)"
      "\<And>q. q < 256 * n \<Longrightarrow> slot f2 q = (if q = 256 * t then header_bytes ?h else slot f1 q)"
    using nor_write [OF flash, of "256 * t" "header_bytes ?h" f1] by auto
  have m: "64 * (256 * t) = 16384 * t" by simp
  show ?thesis
  proof (intro exI [of _ f2] exI [of _ ?h] conjI allI impI)
    show "erase_and_init_sector hal s (of_nat t) first_seq now = (EKK_OK, s\<lparr>fs_flash := f2,
        fs_sector_erase_counts := (fs_sector_erase_counts s)[t := fs_sector_erase_counts s ! t + 1],
        fs_sector_entry_counts := (fs_sector_entry_counts s)[t := 0],
        fs_log := (fs_log s)\<lparr>fl_total_erases := fl_total_erases (fs_log s) + 1\<rparr>\<rparr>)"
      using f1(1) f2(1) a
      by (simp add: erase_and_init_sector_def write_sector_header_def sector_address_def u m del: of_nat_mult)
    show "slot f2 q = (if q = 256 * t then header_bytes ?h else if q div 256 = t then erased else slot (fs_flash s) q)"
      if "q < 256 * n" for q
      using f1(2) [OF that] f2(2) [OF that] by simp
  qed simp_all
qed


section \<open>Appending until the flash is full\<close>

text \<open>The client sets the sequence number of the log before each write.\<close>

fun flash_log_run ::
  "'f flash_hal \<Rightarrow> 'f flash_store \<Rightarrow> (u32 \<times> u64 \<times> ekk_flash_entry) list \<Rightarrow> (u32 list \<times> 'f flash_store) option"
where
  "flash_log_run hal s [] = Some ([], s)"
| "flash_log_run hal s ((seq, now, e) # ops) =
     (case ekk_flash_log_write hal (s\<lparr>fs_log := (fs_log s)\<lparr>fl_global_sequence := seq\<rparr>\<rparr>) e now of
        None \<Rightarrow> None
      | Some (offset, s) \<Rightarrow> map_option (\<lambda>(offsets, s). (offset # offsets, s)) (flash_log_run hal s ops))"

text \<open>The slot of the \<open>k\<close>th entry: slot 0 of each sector is its header.\<close>

definition place :: "nat \<Rightarrow> nat" where
  "place k = 256 * (k div 255) + k mod 255 + 1"

lemma place_at: "p < 255 \<Longrightarrow> place (255 * c + p) = 256 * c + p + 1"
  by (simp add: place_def)

lemma place_parts: "place k div 256 = k div 255" "place k mod 256 = k mod 255 + 1"
proof -
  have r: "k mod 255 < 255" by simp
  show "place k mod 256 = k mod 255 + 1" using r by (simp add: place_def mod_mult_self2)
  have "place k = k mod 255 + 1 + 256 * (k div 255)" by (simp add: place_def)
  with r show "place k div 256 = k div 255" by (simp only: div_mult_self2)
qed

lemma place_inj: "place j = place k \<Longrightarrow> j = k"
  using place_parts [of j] place_parts [of k] by (metis add_right_cancel div_mult_mod_eq)

text \<open>Sectors before \<open>c\<close> are full, sector \<open>c\<close> holds \<open>p\<close> entries, later ones are unused.\<close>

definition filled ::
  "('f \<Rightarrow> nat \<Rightarrow> u8 list) \<Rightarrow> u32 \<Rightarrow> nat \<Rightarrow> nat \<Rightarrow> nat \<Rightarrow> ekk_flash_entry list \<Rightarrow> 'f flash_store \<Rightarrow> bool"
where
  "filled slot base n c p es s \<longleftrightarrow>
     ready slot base n c (p + 1) s \<and> length es = 255 * c + p \<and>
     (\<forall>j < 1024. fs_sector_entry_counts s ! j = (if j < c then 255 else if j = c then of_nat p else 0)) \<and>
     (\<forall>k < length es. slot (fs_flash s) (place k) = entry_bytes (es ! k)) \<and>
     (\<forall>j < n. if j = 0 \<or> c < j then slot (fs_flash s) (256 * j) = erased
        else \<exists>h. slot (fs_flash s) (256 * j) = header_bytes h \<and> sh_magic h = SECTOR_MAGIC \<and> sh_entry_count h = 0)"

lemma filled_sequence: "filled slot base n c p es s \<Longrightarrow> filled slot base n c p es (s\<lparr>fs_log := (fs_log s)\<lparr>fl_global_sequence := seq\<rparr>\<rparr>)"
  by (simp add: filled_def ready_def)

lemma place_sector:
  assumes "k < 255 * c + p" "p \<le> 255"
  shows "place k < 256 * c + p + 1" "place k mod 256 \<noteq> 0"
proof -
  have r: "k mod 255 < 255" by simp
  show "place k mod 256 \<noteq> 0" by (simp add: place_parts)
  have k: "k = 255 * (k div 255) + k mod 255" by simp
  show "place k < 256 * c + p + 1"
  proof (cases "k div 255 < c")
    case True
    then have "256 * Suc (k div 255) \<le> 256 * c" by (intro mult_le_mono2) simp
    with r show ?thesis by (simp add: place_def)
  next
    case False
    then have "255 * c \<le> 255 * (k div 255)" by simp
    with k assms have "k div 255 = c \<or> 255 * Suc c \<le> 255 * (k div 255)" by linarith
    with k assms have "k div 255 = c" by auto
    with k assms show ?thesis unfolding place_def by linarith
  qed
qed

lemma filled_append:
  assumes flash: "nor_flash hal slot base n" and inv: "filled slot base n c p es s" and p: "p < 255"
    and e: "length (fe_data e) = 44"
  shows "\<exists>s'. append_entry hal s e = (of_nat (64 * place (length es)), s') \<and> filled slot base n c (p + 1) (es @ [e]) s'"
proof -
  have r: "ready slot base n c (p + 1) s" and len: "length es = 255 * c + p" using inv by (simp_all add: filled_def)
  have pl: "place (length es) = 256 * c + (p + 1)" using p by (simp add: len place_at)
  obtain f' where f': "append_entry hal s e = (of_nat (64 * (256 * c + (p + 1))), s\<lparr>fs_flash := f', fs_sector_write_pos := fs_sector_write_pos s + 1,
        fs_sector_entry_counts := (fs_sector_entry_counts s)[c := fs_sector_entry_counts s ! c + 1],
        fs_log := (fs_log s)\<lparr>fl_write_head := fl_write_head (fs_log s) + 1, fl_total_writes := fl_total_writes (fs_log s) + 1\<rparr>\<rparr>)"
    "\<And>q. q < 256 * n \<Longrightarrow> slot f' q = (if q = 256 * c + (p + 1) then entry_bytes e else slot (fs_flash s) q)"
    using ready_append [OF flash r, of e] p e by auto
  let ?s = "s\<lparr>fs_flash := f', fs_sector_write_pos := fs_sector_write_pos s + 1,
        fs_sector_entry_counts := (fs_sector_entry_counts s)[c := fs_sector_entry_counts s ! c + 1],
        fs_log := (fs_log s)\<lparr>fl_write_head := fl_write_head (fs_log s) + 1, fl_total_writes := fl_total_writes (fs_log s) + 1\<rparr>\<rparr>"
  have cn: "c < n" "n \<le> 1024" using r by (simp_all add: ready_def)
  have place: "place k \<noteq> 256 * c + (p + 1)" "place k < 256 * n" if "k < length es" for k
    using place_sector(1) [of k c p] that len p cn by simp_all
  have at: "256 * c + (p + 1) < 256 * n" using cn p by linarith
  have head: "256 * j \<noteq> 256 * c + (p + 1)" for j
  proof
    assume "256 * j = 256 * c + (p + 1)"
    then have "(256 * j) mod 256 = (256 * c + (p + 1)) mod 256" by simp
    then show False using p by simp
  qed
  have "ready slot base n c (p + 2) ?s"
    using r f'(2) cn p unfolding ready_def by (auto simp: add.commute)
  moreover have "\<forall>k < length (es @ [e]). slot f' (place k) = entry_bytes ((es @ [e]) ! k)"
    using inv f'(2) place pl at by (auto simp: filled_def less_Suc_eq nth_append)
  moreover have "\<forall>j < n. if j = 0 \<or> c < j then slot f' (256 * j) = erased
        else \<exists>h. slot f' (256 * j) = header_bytes h \<and> sh_magic h = SECTOR_MAGIC \<and> sh_entry_count h = 0"
    using inv f'(2) head by (simp add: filled_def)
  moreover have "\<forall>j < 1024. (fs_sector_entry_counts s)[c := fs_sector_entry_counts s ! c + 1] ! j =
      (if j < c then 255 else if j = c then of_nat (p + 1) else 0)"
    using inv cn by (auto simp: filled_def ready_def nth_list_update)
  ultimately have "filled slot base n c (p + 1) (es @ [e]) ?s"
    using len by (simp add: filled_def)
  with f'(1) pl show ?thesis by auto
qed


lemma next_mod:
  assumes "Suc c < n" "n \<le> 1024"
  shows "(of_nat c + 1 :: u32) mod of_nat n = of_nat (Suc c)"
proof -
  have "unat ((of_nat (Suc c) :: u32) mod of_nat n) = unat (of_nat (Suc c) :: u32)"
    using assms by (simp only: unat_mod_distrib) (simp del: of_nat_Suc add: unat_small)
  then have "(of_nat (Suc c) :: u32) mod of_nat n = of_nat (Suc c)" by (simp only: word_unat_eq_iff)
  then show ?thesis by (simp add: add.commute)
qed

lemma filled_advance:
  assumes flash: "nor_flash hal slot base n" and inv: "filled slot base n c 255 es s" and c: "Suc c < n"
  shows "\<exists>s'. advance_sector hal s now = Some (EKK_OK, s') \<and> filled slot base n (Suc c) 0 es s'"
proof -
  have r: "ready slot base n c 256 s" and len: "length es = 255 * c + 255" using inv by (simp_all add: filled_def)
  have n: "n \<le> 1024" "fl_sector_count (fs_log s) = of_nat n" "fs_current_sector s = of_nat c" using r by (simp_all add: ready_def)
  have u: "unat (of_nat (Suc c) :: u32) = Suc c" using c n(1) by (intro unat_small) simp
  have "fs_sector_entry_counts s ! Suc c = 0" using inv c n(1) by (simp add: filled_def)
  then have nxt: "next_sector s = of_nat (Suc c)"
    unfolding next_sector_def n(2,3) next_mod [OF c n(1)] Let_def u by simp
  have n0: "fl_sector_count (fs_log s) \<noteq> 0"
    using c n of_nat_eq_small [of n 0] by simp
  obtain f' h where er: "erase_and_init_sector hal s (of_nat (Suc c)) (fl_global_sequence (fs_log s)) now = (EKK_OK, s\<lparr>fs_flash := f',
        fs_sector_erase_counts := (fs_sector_erase_counts s)[Suc c := fs_sector_erase_counts s ! Suc c + 1],
        fs_sector_entry_counts := (fs_sector_entry_counts s)[Suc c := 0],
        fs_log := (fs_log s)\<lparr>fl_total_erases := fl_total_erases (fs_log s) + 1\<rparr>\<rparr>)"
      "\<And>q. q < 256 * n \<Longrightarrow> slot f' q =
         (if q = 256 * Suc c then header_bytes h else if q div 256 = Suc c then erased else slot (fs_flash s) q)"
      "sh_magic h = SECTOR_MAGIC" "sh_entry_count h = 0"
    using ready_erase [OF flash r c, of "fl_global_sequence (fs_log s)" now] by blast
  let ?s = "s\<lparr>fs_flash := f',
        fs_sector_erase_counts := (fs_sector_erase_counts s)[Suc c := fs_sector_erase_counts s ! Suc c + 1],
        fs_sector_entry_counts := (fs_sector_entry_counts s)[Suc c := 0], fs_current_sector := of_nat (Suc c), fs_sector_write_pos := 1,
        fs_log := (fs_log s)\<lparr>fl_total_erases := fl_total_erases (fs_log s) + 1, fl_write_sector := of_nat (Suc c)\<rparr>\<rparr>"
  have adv: "advance_sector hal s now = Some (EKK_OK, ?s)"
    using n0 by (simp add: advance_sector_def nxt er(1) Let_def del: of_nat_Suc)
  have "slot f' q = erased" if "256 * Suc c + 1 \<le> q" "q < 256 * Suc c + 256" for q
  proof -
    have "q div 256 = Suc c" using that by (intro div_nat_eqI) simp_all
    moreover have "256 * Suc (Suc c) \<le> 256 * n" using c by (intro mult_le_mono2) simp
    ultimately show ?thesis using er(2) that by simp
  qed
  then have "ready slot base n (Suc c) 1 ?s" using r c by (simp add: ready_def)
  moreover have "\<forall>k < length es. slot f' (place k) = entry_bytes (es ! k)"
  proof (intro allI impI)
    fix k assume k: "k < length es"
    then have "k div 255 < Suc c" using len by (simp add: less_mult_imp_div_less)
    then have "place k div 256 \<noteq> Suc c" by (simp add: place_parts)
    moreover have "place k < 256 * n" using place_sector(1) [of k c 255] k len c by simp
    moreover have "place k \<noteq> 256 * Suc c" using place_sector(2) [of k c 255] k len by auto
    ultimately show "slot f' (place k) = entry_bytes (es ! k)" using er(2) inv k by (simp add: filled_def)
  qed
  moreover have "\<forall>j < n. if j = 0 \<or> Suc c < j then slot f' (256 * j) = erased
        else \<exists>h. slot f' (256 * j) = header_bytes h \<and> sh_magic h = SECTOR_MAGIC \<and> sh_entry_count h = 0"
  proof (intro allI impI)
    fix j assume j: "j < n"
    show "if j = 0 \<or> Suc c < j then slot f' (256 * j) = erased
        else \<exists>h. slot f' (256 * j) = header_bytes h \<and> sh_magic h = SECTOR_MAGIC \<and> sh_entry_count h = 0"
    proof (cases "j = Suc c")
      case True
      then show ?thesis using er(2) [of "256 * Suc c"] er(3,4) j by auto
    next
      case False
      moreover have "slot f' (256 * j) = slot (fs_flash s) (256 * j)" using er(2) [of "256 * j"] j False by simp
      ultimately show ?thesis using inv j by (auto simp: filled_def split: if_splits)
    qed
  qed
  moreover have "\<forall>j < 1024. (fs_sector_entry_counts s)[Suc c := 0] ! j = (if j < Suc c then 255 else if j = Suc c then of_nat 0 else 0)"
    using inv by (auto simp: filled_def ready_def nth_list_update)
  ultimately have "filled slot base n (Suc c) 0 es ?s" using len by (simp add: filled_def)
  with adv show ?thesis by blast
qed

lemma filled_write:
  assumes flash: "nor_flash hal slot base n" and inv: "filled slot base n c p es s" and room: "length es < 255 * n"
    and e: "length (fe_data e) = 44"
  shows "\<exists>s' c' p'. ekk_flash_log_write hal s e now = Some (of_nat (64 * place (length es)), s') \<and>
    filled slot base n c' p' (es @ [e]) s' \<and> 0 < p'"
proof (cases "p < 255")
  case True
  then have "fs_sector_write_pos s < ENTRIES_PER_SECTOR"
    using inv unat_small [of "Suc p"] by (simp add: filled_def ready_def word_less_nat_alt del: of_nat_Suc)
  with filled_append [OF flash inv True e] show ?thesis
    by (force simp: ekk_flash_log_write_def not_le)
next
  case False
  then have p: "p = 255" and pos: "fs_sector_write_pos s = 256" using inv by (auto simp: filled_def ready_def)
  have "Suc c < n" using inv room unfolding filled_def p by (simp add: algebra_simps)
  from filled_advance [OF flash inv [unfolded p] this] obtain s1 where
    s1: "advance_sector hal s now = Some (EKK_OK, s1)" "filled slot base n (Suc c) 0 es s1" by blast
  from filled_append [OF flash s1(2) _ e] s1(1) show ?thesis
    by (force simp: ekk_flash_log_write_def pos)
qed


lemma filled_run:
  assumes "nor_flash hal slot base n" "filled slot base n c p es s" "p = 0 \<longrightarrow> c = 0"
    "length es + length ops \<le> 255 * n" "\<forall>(seq, now, e) \<in> set ops. length (fe_data e) = 44"
  shows "\<exists>s' c' p'. flash_log_run hal s ops = Some (map (\<lambda>k. of_nat (64 * place k)) [length es..<length es + length ops], s') \<and>
    filled slot base n c' p' (es @ map (\<lambda>op. snd (snd op)) ops) s' \<and> (p' = 0 \<longrightarrow> c' = 0)"
  using assms
proof (induction ops arbitrary: s c p es)
  case Nil
  then show ?case by auto
next
  case (Cons op ops)
  obtain seq now e where op: "op = (seq, now, e)" by (cases op)
  obtain s1 c1 p1 where s1: "ekk_flash_log_write hal (s\<lparr>fs_log := (fs_log s)\<lparr>fl_global_sequence := seq\<rparr>\<rparr>) e now =
       Some (of_nat (64 * place (length es)), s1)" "filled slot base n c1 p1 (es @ [e]) s1" "0 < p1"
    using filled_write [OF Cons.prems(1) filled_sequence [OF Cons.prems(2)], of e seq now] Cons.prems(4,5) op by auto
  have "\<exists>s' c' p'. flash_log_run hal s1 ops =
      Some (map (\<lambda>k. of_nat (64 * place k)) [length (es @ [e])..<length (es @ [e]) + length ops], s') \<and>
      filled slot base n c' p' ((es @ [e]) @ map (\<lambda>op. snd (snd op)) ops) s' \<and> (p' = 0 \<longrightarrow> c' = 0)"
    by (rule Cons.IH [OF Cons.prems(1) s1(2)]) (use s1(3) Cons.prems(4,5) in auto)
  then obtain s' c' p' where
    s': "flash_log_run hal s1 ops = Some (map (\<lambda>k. of_nat (64 * place k)) [Suc (length es)..<Suc (length es) + length ops], s')"
      "filled slot base n c' p' (es @ [e] @ map (\<lambda>op. snd (snd op)) ops) s'" "p' = 0 \<longrightarrow> c' = 0"
    by (simp only: length_append_singleton append_assoc) blast
  have "[length es..<length es + length (op # ops)] = length es # [Suc (length es)..<Suc (length es) + length ops]"
    by (simp add: upt_conv_Cons del: upt_Suc)
  with s1(1) s' show ?case
    by (intro exI [of _ s'] exI [of _ c'] exI [of _ p']) (simp add: op del: upt_Suc)
qed

section \<open>Starting\<close>

text \<open>Headers say that their sector is empty: the code writes a header once, with that count.\<close>

lemma scan_headers:
  assumes flash: "nor_flash hal slot base n" and s: "fl_base_address (fs_log s) = base" "n \<le> 1024"
      "fs_sector_entry_counts s = replicate 1024 0" "length (fs_sector_erase_counts s) = 1024"
    and headers: "\<forall>j < n. sh_magic (header_of_bytes (slot (fs_flash s) (256 * j))) = SECTOR_MAGIC \<longrightarrow>
      sh_entry_count (header_of_bytes (slot (fs_flash s) (256 * j))) = 0"
  shows "k \<le> n \<Longrightarrow> \<exists>counts max_seq j. fold (scan_header hal) [0..<k] (s, 0, 0) = (s\<lparr>fs_sector_erase_counts := counts\<rparr>, max_seq, of_nat j) \<and>
    length counts = 1024 \<and>
    (j = 0 \<or> j < k \<and> sh_magic (header_of_bytes (slot (fs_flash s) (256 * j))) = SECTOR_MAGIC) \<and>
    ((\<forall>i < k. sh_magic (header_of_bytes (slot (fs_flash s) (256 * i))) \<noteq> SECTOR_MAGIC) \<longrightarrow>
       counts = fs_sector_erase_counts s \<and> max_seq = 0 \<and> j = 0)"
proof (induction k)
  case 0
  then show ?case using s by (intro exI [of _ "fs_sector_erase_counts s"] exI [of _ 0] exI [of _ 0]) simp
next
  case (Suc k)
  then obtain counts max_seq j where IH: "fold (scan_header hal) [0..<k] (s, 0, 0) = (s\<lparr>fs_sector_erase_counts := counts\<rparr>, max_seq, of_nat j)"
      "length counts = 1024"
      "j = 0 \<or> j < k \<and> sh_magic (header_of_bytes (slot (fs_flash s) (256 * j))) = SECTOR_MAGIC"
      "(\<forall>i < k. sh_magic (header_of_bytes (slot (fs_flash s) (256 * i))) \<noteq> SECTOR_MAGIC) \<longrightarrow>
         counts = fs_sector_erase_counts s \<and> max_seq = 0 \<and> j = 0"
    by auto
  let ?h = "header_of_bytes (slot (fs_flash s) (256 * k))"
  have "fh_read hal (fs_flash s) (base + of_nat (64 * (256 * k))) 64 = (EKK_OK, slot (fs_flash s) (256 * k))"
    using Suc.prems by (intro nor_read [OF flash]) simp
  then have rd: "read_sector_header hal (fs_flash s) (fs_log s) (of_nat k) = (EKK_OK, ?h)"
    using s(1) by (simp add: read_sector_header_def sector_address_def mult.commute)
  have "(replicate 1024 0)[k := 0] = (replicate 1024 0 :: u32 list)"
    by (cases "k < 1024") (simp_all add: list_update_same_conv list_update_beyond)
  then have same: "(fs_sector_entry_counts s)[k := 0] = fs_sector_entry_counts s" using s(3) by simp
  have upd: "s\<lparr>fs_sector_erase_counts := xs, fs_sector_entry_counts := fs_sector_entry_counts s\<rparr> = s\<lparr>fs_sector_erase_counts := xs\<rparr>" for xs
    by (cases s) simp
  show ?case
  proof (cases "sh_magic ?h = SECTOR_MAGIC")
    case False
    then have "fold (scan_header hal) [0..<Suc k] (s, 0, 0) = (s\<lparr>fs_sector_erase_counts := counts\<rparr>, max_seq, of_nat j)"
      using IH(1) rd by (simp add: scan_header_def)
    then show ?thesis using IH(2-4)
      by (intro exI [of _ counts] exI [of _ max_seq] exI [of _ j]) (auto split: if_splits simp: less_Suc_eq)
  next
    case True
    then have z: "sh_entry_count ?h = 0" using headers Suc.prems by simp
    let ?counts = "counts[k := sh_erase_count ?h]"
    let ?s = "s\<lparr>fs_sector_erase_counts := ?counts\<rparr>"
    have step: "fold (scan_header hal) [0..<Suc k] (s, 0, 0) =
        (if sh_first_seq ?h > max_seq then (?s, sh_first_seq ?h, of_nat k) else (?s, max_seq, of_nat j))"
      using IH(1) rd True z by (simp add: scan_header_def same upd)
    show ?thesis
    proof (cases "sh_first_seq ?h > max_seq")
      case True
      then show ?thesis using step \<open>sh_magic ?h = _\<close> IH(2)
        by (intro exI [of _ ?counts] exI [of _ "sh_first_seq ?h"] exI [of _ k]) auto
    next
      case False
      then show ?thesis using step \<open>sh_magic ?h = _\<close> IH(2,3)
        by (intro exI [of _ ?counts] exI [of _ max_seq] exI [of _ j]) (auto split: if_splits)
    qed
  qed
qed


lemma init_scanned:
  assumes flash: "nor_flash hal slot base n" and n: "unat capacity div 256 = n" "n \<le> 1024" "0 < n"
    and headers: "\<forall>j < n. sh_magic (header_of_bytes (slot f (256 * j))) = SECTOR_MAGIC \<longrightarrow>
      sh_entry_count (header_of_bytes (slot f (256 * j))) = 0"
  shows "\<exists>s j. ekk_flash_log_init hal f base capacity now = Some s \<and> fs_flash s = f \<and> fl_base_address (fs_log s) = base \<and>
    fl_sector_count (fs_log s) = of_nat n \<and> fs_sector_entry_counts s = replicate 1024 0 \<and> length (fs_sector_erase_counts s) = 1024 \<and>
    j < n \<and> fs_current_sector s = of_nat j \<and> fs_sector_write_pos s = 1 \<and>
    (j = 0 \<or> sh_magic (header_of_bytes (slot f (256 * j))) = SECTOR_MAGIC) \<and>
    ((\<forall>i < n. sh_magic (header_of_bytes (slot f (256 * i))) \<noteq> SECTOR_MAGIC) \<longrightarrow>
       j = 0 \<and> fs_sector_erase_counts s = replicate 1024 0 \<and> fl_global_sequence (fs_log s) = 0)"
proof -
  have sc: "capacity div 256 = of_nat n"
    using n(1) by (simp add: word_unat_eq_iff unat_div_distrib unat_small [of n] n(2) le_trans [OF n(2)])
  have not: "\<not> (of_nat n :: u32) > MAX_SECTORS"
    using n(2) by (simp add: word_less_nat_alt unat_small [of n])
  have un: "unat (of_nat n :: u32) = n" using n(2) by (intro unat_small) simp
  let ?log = "\<lparr>fl_base_address = base, fl_capacity = capacity, fl_sector_count = of_nat n,
            fl_write_head = 0, fl_write_sector = 0, fl_global_sequence = 0, fl_total_writes = 0, fl_total_erases = 0,
            fl_crc_errors = 0\<rparr>"
  let ?s = "\<lparr>fs_log = ?log, fs_sector_erase_counts = replicate 1024 0,
            fs_sector_entry_counts = replicate 1024 0, fs_current_sector = 0, fs_sector_write_pos = 0, fs_flash = f\<rparr>"
  have "\<exists>counts max_seq j. fold (scan_header hal) [0..<n] (?s, 0, 0) = (?s\<lparr>fs_sector_erase_counts := counts\<rparr>, max_seq, of_nat j) \<and>
     length counts = 1024 \<and> (j = 0 \<or> j < n \<and> sh_magic (header_of_bytes (slot f (256 * j))) = SECTOR_MAGIC) \<and>
     ((\<forall>i < n. sh_magic (header_of_bytes (slot f (256 * i))) \<noteq> SECTOR_MAGIC) \<longrightarrow> counts = replicate 1024 0 \<and> max_seq = 0 \<and> j = 0)"
    using scan_headers [OF flash, of ?s n] headers n(2) by simp
  then obtain counts max_seq j where sc2: "fold (scan_header hal) [0..<n] (?s, 0, 0) = (?s\<lparr>fs_sector_erase_counts := counts\<rparr>, max_seq, of_nat j)"
     "length counts = 1024" "j = 0 \<or> j < n \<and> sh_magic (header_of_bytes (slot f (256 * j))) = SECTOR_MAGIC"
     "(\<forall>i < n. sh_magic (header_of_bytes (slot f (256 * i))) \<noteq> SECTOR_MAGIC) \<longrightarrow> counts = replicate 1024 0 \<and> max_seq = 0 \<and> j = 0"
    by blast
  have j: "j < n" "unat (of_nat j :: u32) = j" "j < 1024"
    using sc2(3) n unat_small [of j] by (auto split: if_splits)
  let ?r = "?s\<lparr>fs_sector_erase_counts := counts, fs_current_sector := of_nat j, fs_sector_write_pos := 1,
     fs_log := ?log\<lparr>fl_write_sector := of_nat j, fl_global_sequence := max_seq\<rparr>\<rparr>"
  have init: "ekk_flash_log_init hal f base capacity now = Some ?r"
    unfolding ekk_flash_log_init_def sc Let_def if_not_P [OF not] un
    using sc2(1) j by (simp add: word_le_nat_alt)
  show ?thesis
    by (intro exI [of _ ?r] exI [of _ j] conjI init) (use j sc2 n in \<open>auto split: if_splits\<close>)
qed

lemma init_blank:
  assumes flash: "nor_flash hal slot base n" and n: "unat capacity div 256 = n" "n \<le> 1024" "0 < n"
    and blank: "\<forall>q < 256 * n. slot f q = erased"
  shows "\<exists>s. ekk_flash_log_init hal f base capacity now = Some s \<and> filled slot base n 0 0 [] s \<and>
    fs_sector_erase_counts s = replicate 1024 0 \<and> fl_global_sequence (fs_log s) = 0"
proof -
  have "\<forall>j < n. sh_magic (header_of_bytes (slot f (256 * j))) \<noteq> SECTOR_MAGIC"
    using blank erased_magic by simp
  with init_scanned [OF flash n, of f now] obtain s where
    s: "ekk_flash_log_init hal f base capacity now = Some s" "fs_flash s = f" "fl_base_address (fs_log s) = base"
      "fl_sector_count (fs_log s) = of_nat n" "fs_sector_entry_counts s = replicate 1024 0"
      "fs_sector_erase_counts s = replicate 1024 0" "fs_current_sector s = 0" "fs_sector_write_pos s = 1"
      "fl_global_sequence (fs_log s) = 0"
    by auto
  then have "filled slot base n 0 0 [] s" using blank n by (simp add: filled_def ready_def)
  with s show ?thesis by blast
qed


section \<open>Reading back, and starting again\<close>

lemma filled_read:
  assumes flash: "nor_flash hal slot base n" and inv: "filled slot base n c p es s" and k: "k < length es"
    and e: "length (fe_data (es ! k)) = 44" "ekk_flash_entry_verify (es ! k)"
  shows "ekk_flash_log_read hal s (of_nat (64 * place k)) = (EKK_OK, Some (es ! k), s)"
proof -
  have r: "ready slot base n c (p + 1) s" "length es = 255 * c + p" using inv by (simp_all add: filled_def)
  then have "place k < 256 * n" using place_sector(1) [of k c p] k by (simp add: ready_def)
  then have "fh_read hal (fs_flash s) (base + of_nat (64 * place k)) 64 = (EKK_OK, slot (fs_flash s) (place k))"
    by (intro nor_read [OF flash])
  moreover have "slot (fs_flash s) (place k) = entry_bytes (es ! k)" using inv k by (simp add: filled_def)
  moreover have "fl_base_address (fs_log s) = base" using r by (simp add: ready_def)
  ultimately show ?thesis using e by (simp add: ekk_flash_log_read_def entry_round del: of_nat_mult)
qed

text \<open>After a restart the next entry goes where an entry is.\<close>

lemma restart_overwrites:
  assumes flash: "nor_flash hal slot base n" and n: "unat capacity div 256 = n" "n \<le> 1024" "0 < n"
    and inv: "filled slot base n c p es s" "p = 0 \<longrightarrow> c = 0" "es \<noteq> []"
  shows "\<exists>s' k. ekk_flash_log_init hal (fs_flash s) base capacity now = Some s' \<and>
    k < length es \<and> write_offset s' = of_nat (64 * place k) \<and> slot (fs_flash s') (place k) = entry_bytes (es ! k)"
proof -
  have sc: "c < n" "length es = 255 * c + p" "p \<le> 255"
    and hs: "\<And>j. j < n \<Longrightarrow> if j = 0 \<or> c < j then slot (fs_flash s) (256 * j) = erased
        else \<exists>h. slot (fs_flash s) (256 * j) = header_bytes h \<and> sh_magic h = SECTOR_MAGIC \<and> sh_entry_count h = 0"
    and es: "\<And>k. k < length es \<Longrightarrow> slot (fs_flash s) (place k) = entry_bytes (es ! k)"
    using inv(1) by (simp_all add: filled_def ready_def)
  have "\<forall>j < n. sh_magic (header_of_bytes (slot (fs_flash s) (256 * j))) = SECTOR_MAGIC \<longrightarrow>
      sh_entry_count (header_of_bytes (slot (fs_flash s) (256 * j))) = 0"
    using hs erased_magic by (metis header_round)
  from init_scanned [OF flash n this, of now] obtain s' j where
    s': "ekk_flash_log_init hal (fs_flash s) base capacity now = Some s'" "fs_flash s' = fs_flash s" "j < n"
      "fs_current_sector s' = of_nat j" "fs_sector_write_pos s' = 1"
      "j = 0 \<or> sh_magic (header_of_bytes (slot (fs_flash s) (256 * j))) = SECTOR_MAGIC"
    by blast
  have "j \<le> c"
  proof (rule ccontr)
    assume "\<not> j \<le> c"
    with hs [OF s'(3)] s'(6) erased_magic show False by auto
  qed
  moreover have "0 < p \<or> c = 0 \<and> p = 0" using inv(2) by auto
  ultimately have k: "255 * j < length es" using sc(2) inv(3) by (cases "j = c") auto
  have "write_offset s' = of_nat (64 * place (255 * j))"
    using s'(4,5) place_at [of 0 j] by (simp add: write_offset_def algebra_simps)
  with s'(1,2) k es [OF k] show ?thesis by auto
qed

text \<open>
  C13. On an erased flash, as many entries as the sectors have room for can be appended, at
  successive places behind the headers of the sectors, and every one of them reads back unchanged at
  the offset its append returned, whatever sequence numbers and clock readings the client
  uses. But the log does not survive a restart: the headers' entry counts stay 0, so the log starts
  behind a header again and its next append programs a place that holds an entry.
\<close>

theorem flash_log_round_trip:
  assumes "nor_flash hal slot base n" "unat capacity div 256 = n" "0 < n" "n \<le> 1024" "\<forall>q < 256 * n. slot f q = erased"
    "length ops \<le> 255 * n" "\<forall>(seq, now, e) \<in> set ops. length (fe_data e) = 44 \<and> ekk_flash_entry_verify e"
  shows "\<exists>s0 s. ekk_flash_log_init hal f base capacity boot = Some s0 \<and>
    flash_log_run hal s0 ops = Some (map (\<lambda>k. of_nat (64 * place k)) [0..<length ops], s) \<and>
    (\<forall>k < length ops. ekk_flash_log_read hal s (of_nat (64 * place k)) = (EKK_OK, Some (snd (snd (ops ! k))), s)) \<and>
    (ops \<noteq> [] \<longrightarrow> (\<exists>s' k. ekk_flash_log_init hal (fs_flash s) base capacity reboot = Some s' \<and> k < length ops \<and>
       write_offset s' = of_nat (64 * place k) \<and> slot (fs_flash s') (place k) = entry_bytes (snd (snd (ops ! k)))))"
proof -
  let ?es = "map (\<lambda>op. snd (snd op)) ops"
  obtain s0 where s0: "ekk_flash_log_init hal f base capacity boot = Some s0" "filled slot base n 0 0 [] s0"
    using init_blank [OF assms(1,2,4,3,5)] by blast
  have len: "\<forall>(seq, now, e) \<in> set ops. length (fe_data e) = 44" using assms(7) by auto
  obtain s c p where s: "flash_log_run hal s0 ops = Some (map (\<lambda>k. of_nat (64 * place k)) [0..<length ops], s)"
      "filled slot base n c p ?es s" "p = 0 \<longrightarrow> c = 0"
    using filled_run [OF assms(1) s0(2) _ _ len] assms(6) by (auto simp del: of_nat_mult)
  have "ekk_flash_log_read hal s (of_nat (64 * place k)) = (EKK_OK, Some (snd (snd (ops ! k))), s)" if "k < length ops" for k
    using filled_read [OF assms(1) s(2), of k] assms(7) that nth_mem [OF that] by (cases "ops ! k") auto
  moreover have "\<exists>s' k. ekk_flash_log_init hal (fs_flash s) base capacity reboot = Some s' \<and> k < length ops \<and>
       write_offset s' = of_nat (64 * place k) \<and> slot (fs_flash s') (place k) = entry_bytes (snd (snd (ops ! k)))" if "ops \<noteq> []"
    using restart_overwrites [OF assms(1,2,4,3) s(2,3), of reboot] that by (auto simp del: of_nat_mult)
  ultimately show ?thesis using s0(1) s(1) by (intro exI [of _ s0] exI [of _ s]) blast
qed

text \<open>A device of two sectors at address 0.\<close>

abbreviation (input) array_flash :: "(nat \<Rightarrow> u8 list) flash_hal" where
  "array_flash \<equiv> \<lparr>fh_read = \<lambda>f a len. (EKK_OK, f (unat a div 64)), fh_write = \<lambda>f a bs. (EKK_OK, f(unat a div 64 := bs)),
     fh_erase_sector = \<lambda>f a. (EKK_OK, \<lambda>q. if q div 256 = unat a div 16384 then erased else f q)\<rparr>"

lemma array_flash:
  assumes "n \<le> 1024"
  shows "nor_flash array_flash (\<lambda>f q. f q) 0 n"
proof -
  have "unat (of_nat (64 * q) :: u32) = 64 * q" if "q < 256 * n" for q using that assms by (intro unat_small) simp
  moreover have "unat (of_nat (16384 * c) :: u32) = 16384 * c" if "c < n" for c using that assms by (intro unat_small) simp
  ultimately show ?thesis unfolding nor_flash_def by (simp del: of_nat_mult)
qed

definition sample_flash_entry :: "u32 \<Rightarrow> ekk_flash_entry" where
  "sample_flash_entry n =
     (let e = \<lparr>fe_global_seq = n, fe_crc32 = 0, fe_length = 20, fe_stream_id = 5, fe_event_type = 1, fe_timestamp_us = 10,
        fe_origin_seq = 3, fe_data = replicate 44 0\<rparr> in e\<lparr>fe_crc32 := ekk_flash_entry_crc e\<rparr>)"

lemma sample_flash_entry: "length (fe_data (sample_flash_entry n)) = 44 \<and> ekk_flash_entry_verify (sample_flash_entry n)"
  by (simp add: sample_flash_entry_def ekk_flash_entry_verify_def ekk_flash_entry_crc_def entry_bytes_def Let_def)

theorem flash_log_round_trip_witness:
  "\<exists>s0 s offsets. ekk_flash_log_init array_flash (\<lambda>_. erased) 0 512 0 = Some s0 \<and>
    flash_log_run array_flash s0 (map (\<lambda>k. (of_nat k, 0, sample_flash_entry (of_nat k))) [0..<300]) = Some (offsets, s) \<and>
    ekk_flash_log_read array_flash s (of_nat (64 * place 299)) = (EKK_OK, Some (sample_flash_entry 299), s)"
proof -
  let ?ops = "map (\<lambda>k. (of_nat k :: u32, 0 :: u64, sample_flash_entry (of_nat k))) [0..<300]"
  have ops: "length ?ops \<le> 255 * 2" "\<forall>(seq, now, e) \<in> set ?ops. length (fe_data e) = 44 \<and> ekk_flash_entry_verify e"
    using sample_flash_entry by auto
  have "unat (512 :: u32) div 256 = 2" "(0 :: nat) < 2" "(2 :: nat) \<le> 1024" by simp_all
  from flash_log_round_trip [OF array_flash [OF this(3)] this(1,2,3) _ ops, of "\<lambda>_. erased" 0 0] obtain s0 s where
    r: "ekk_flash_log_init array_flash (\<lambda>_. erased) 0 512 0 = Some s0"
    "flash_log_run array_flash s0 ?ops = Some (map (\<lambda>k. of_nat (64 * place k)) [0..<length ?ops], s)"
    "\<forall>k < length ?ops. ekk_flash_log_read array_flash s (of_nat (64 * place k)) = (EKK_OK, Some (snd (snd (?ops ! k))), s)"
    by blast
  have "299 < length ?ops" "snd (snd (?ops ! 299)) = sample_flash_entry 299" by simp_all
  then have "ekk_flash_log_read array_flash s (of_nat (64 * place 299)) = (EKK_OK, Some (sample_flash_entry 299), s)"
    using r(3) [rule_format, of 299] by (simp only:)
  with r(1,2) show ?thesis by blast
qed


section \<open>Wear\<close>

lemma find_min_spec:
  assumes "n \<le> 1024" "i0 < n" "i0 \<noteq> ex" "counts ! i0 = of_nat m" "ex < n" "Suc m < 0xFFFFFFFF"
    "\<forall>i < n. counts ! i = of_nat m \<or> counts ! i = of_nat (Suc m)"
  shows "\<exists>t < n. t \<noteq> ex \<and> counts ! t = of_nat m \<and> find_min_erase_sector counts (of_nat n) (of_nat ex) = of_nat t"
proof -
  define step where "step = (\<lambda>i (min_erases :: u32, min_sector :: u32).
     if of_nat i = (of_nat ex :: u32) then (min_erases, min_sector)
     else if counts ! i < min_erases then (counts ! i, of_nat i) else (min_erases, min_sector))"
  have scan: "(\<forall>i < k. i \<noteq> ex \<longrightarrow> fst (fold step [0..<k] (0xFFFFFFFF, 0)) \<le> counts ! i) \<and>
      (fold step [0..<k] (0xFFFFFFFF, 0) = (0xFFFFFFFF, 0) \<or>
       (\<exists>t < k. t \<noteq> ex \<and> fold step [0..<k] (0xFFFFFFFF, 0) = (counts ! t, of_nat t)))" if "k \<le> n" for k
    using that
  proof (induction k)
    case (Suc k)
    obtain mn ms where st: "fold step [0..<k] (0xFFFFFFFF, 0) = (mn, ms)" by (cases "fold step [0..<k] (0xFFFFFFFF, 0)")
    have ex: "(of_nat k :: u32) = of_nat ex \<longleftrightarrow> k = ex" using Suc.prems assms(1,5) by (intro of_nat_eq_small) simp_all
    have IH: "\<forall>i < k. i \<noteq> ex \<longrightarrow> mn \<le> counts ! i" "(mn, ms) = (0xFFFFFFFF, 0) \<or> (\<exists>t < k. t \<noteq> ex \<and> (mn, ms) = (counts ! t, of_nat t))"
      using Suc st by simp_all
    have nxt: "fold step [0..<Suc k] (0xFFFFFFFF, 0) =
        (if k = ex then (mn, ms) else if counts ! k < mn then (counts ! k, of_nat k) else (mn, ms))"
      by (simp add: st) (simp add: step_def ex)
    consider "k = ex" | "k \<noteq> ex" "counts ! k < mn" | "k \<noteq> ex" "\<not> counts ! k < mn" by blast
    then show ?case
    proof cases
      case 1
      then show ?thesis using IH unfolding nxt by (auto simp: less_Suc_eq)
    next
      case 2
      then have "\<forall>i < Suc k. i \<noteq> ex \<longrightarrow> counts ! k \<le> counts ! i" using IH(1) by (force simp: less_Suc_eq)
      then show ?thesis using 2 unfolding nxt by auto
    next
      case 3
      then show ?thesis using IH unfolding nxt by (auto simp: less_Suc_eq not_less)
    qed
  qed simp
  have min_fold: "find_min_erase_sector counts (of_nat n) (of_nat ex) = snd (fold step [0..<n] (0xFFFFFFFF, 0))"
    using unat_small [of n] assms(1) by (simp add: find_min_erase_sector_def step_def)
  have ms: "unat (of_nat m :: u32) = m" "unat (of_nat (Suc m) :: u32) = Suc m"
    using assms(6) unat_small [of m] unat_small [of "Suc m"] by simp_all
  have "fst (fold step [0..<n] (0xFFFFFFFF, 0)) \<le> of_nat m" using scan [of n] assms(2-4) by auto
  moreover have "\<not> (0xFFFFFFFF :: u32) \<le> of_nat m" using ms assms(6) by (simp add: word_le_nat_alt)
  ultimately obtain t where t: "t < n" "t \<noteq> ex" "fold step [0..<n] (0xFFFFFFFF, 0) = (counts ! t, of_nat t)" "counts ! t \<le> of_nat m"
    using scan [of n] by auto
  have "\<not> (of_nat (Suc m) :: u32) \<le> of_nat m" using ms by (simp only: word_le_nat_alt)
  with t(1,4) assms(7) have "counts ! t = of_nat m" by auto
  with t min_fold show ?thesis by auto
qed

text \<open>
  Every sector has been erased \<open>m\<close> or \<open>m + 1\<close> times; some sector that is not being written, and
  every other sector that is empty, \<open>m\<close> times.
\<close>

definition even_wear :: "('f \<Rightarrow> nat \<Rightarrow> u8 list) \<Rightarrow> u32 \<Rightarrow> nat \<Rightarrow> nat \<Rightarrow> nat \<Rightarrow> nat \<Rightarrow> 'f flash_store \<Rightarrow> bool" where
  "even_wear slot base n cur pos m s \<longleftrightarrow>
     ready slot base n cur pos s \<and> fs_sector_entry_counts s ! cur = of_nat (pos - 1) \<and>
     (\<forall>i < n. fs_sector_erase_counts s ! i = of_nat m \<or> fs_sector_erase_counts s ! i = of_nat (Suc m)) \<and>
     (n = 1 \<or> (\<exists>i < n. i \<noteq> cur \<and> fs_sector_erase_counts s ! i = of_nat m)) \<and>
     (\<forall>i < n. i \<noteq> cur \<and> fs_sector_entry_counts s ! i = 0 \<longrightarrow> fs_sector_erase_counts s ! i = of_nat m)"

lemma even_wear_append:
  assumes flash: "nor_flash hal slot base n" and inv: "even_wear slot base n cur pos m s" and pos: "pos < 256"
    and e: "length (fe_data e) = 44"
  shows "\<exists>s'. append_entry hal s e = (of_nat (64 * (256 * cur + pos)), s') \<and> even_wear slot base n cur (Suc pos) m s'"
proof -
  have r: "ready slot base n cur pos s" using inv by (simp add: even_wear_def)
  then have cn: "cur < n" "n \<le> 1024" "0 < pos" "length (fs_sector_entry_counts s) = 1024" by (simp_all add: ready_def)
  show ?thesis
  proof (rule ready_append [OF flash r pos e])
    fix f'
    let ?s = "s\<lparr>fs_flash := f', fs_sector_write_pos := fs_sector_write_pos s + 1,
        fs_sector_entry_counts := (fs_sector_entry_counts s)[cur := fs_sector_entry_counts s ! cur + 1],
        fs_log := (fs_log s)\<lparr>fl_write_head := fl_write_head (fs_log s) + 1, fl_total_writes := fl_total_writes (fs_log s) + 1\<rparr>\<rparr>"
    assume a: "append_entry hal s e = (of_nat (64 * (256 * cur + pos)), ?s)"
      and f': "\<And>q. q < 256 * n \<Longrightarrow> slot f' q = (if q = 256 * cur + pos then entry_bytes e else slot (fs_flash s) q)"
    have "ready slot base n cur (Suc pos) ?s"
      using r f' cn pos unfolding ready_def by (auto simp: add.commute)
    moreover have "(of_nat (pos - 1) + 1 :: u32) = of_nat pos" using cn(3) by (metis Suc_pred' add.commute of_nat_Suc)
    ultimately have "even_wear slot base n cur (Suc pos) m ?s"
      using inv cn by (auto simp: even_wear_def)
    with a show ?thesis by blast
  qed
qed

lemma next_sector_wear:
  assumes inv: "even_wear slot base n cur 256 m s" and n: "1 < n" and m: "Suc m < 0xFFFFFFFF"
  shows "\<exists>t < n. t \<noteq> cur \<and> fs_sector_erase_counts s ! t = of_nat m \<and> next_sector s = of_nat t"
proof -
  have r: "fl_sector_count (fs_log s) = of_nat n" "fs_current_sector s = of_nat cur" "cur < n" "n \<le> 1024"
    using inv by (simp_all add: even_wear_def ready_def)
  define t0 where "t0 = (if Suc cur < n then Suc cur else 0)"
  have t0: "t0 < n" "t0 \<noteq> cur" using n r(3) by (auto simp: t0_def)
  have mod: "(of_nat cur + 1 :: u32) mod of_nat n = of_nat t0"
  proof (cases "Suc cur < n")
    case True
    then show ?thesis using next_mod [OF True r(4)] by (simp add: t0_def)
  next
    case False
    then have "n = Suc cur" using r(3) by simp
    then show ?thesis by (simp add: t0_def add.commute)
  qed
  have u: "unat (of_nat t0 :: u32) = t0" using t0 r(4) by (intro unat_small) simp
  show ?thesis
  proof (cases "fs_sector_entry_counts s ! t0 > 0")
    case False
    then have "fs_sector_entry_counts s ! t0 = 0" by (simp add: word_gt_0)
    then have "fs_sector_erase_counts s ! t0 = of_nat m" using inv t0 by (simp add: even_wear_def)
    with False t0 show ?thesis by (auto simp: next_sector_def r mod u Let_def)
  next
    case True
    obtain i0 where "i0 < n" "i0 \<noteq> cur" "fs_sector_erase_counts s ! i0 = of_nat m" using inv n by (auto simp: even_wear_def)
    from find_min_spec [OF r(4) this r(3) m] inv True show ?thesis
      by (auto simp: next_sector_def r mod u Let_def even_wear_def)
  qed
qed


lemma even_wear_advance:
  assumes flash: "nor_flash hal slot base n" and inv: "even_wear slot base n cur 256 m s" and m: "Suc m < 0xFFFFFFFF"
  shows "\<exists>t m' s'. advance_sector hal s now = Some (EKK_OK, s') \<and> even_wear slot base n t 1 m' s' \<and> m' \<le> Suc m"
proof -
  have r: "ready slot base n cur 256 s" using inv by (simp add: even_wear_def)
  then have cn: "cur < n" "n \<le> 1024" "fl_sector_count (fs_log s) = of_nat n" "fs_current_sector s = of_nat cur"
      "length (fs_sector_erase_counts s) = 1024" "length (fs_sector_entry_counts s) = 1024"
    by (simp_all add: ready_def)
  have counts: "\<And>i. i < n \<Longrightarrow> fs_sector_erase_counts s ! i = of_nat m \<or> fs_sector_erase_counts s ! i = of_nat (Suc m)"
    and cur: "fs_sector_entry_counts s ! cur = 255"
    and empty: "\<And>i. i < n \<Longrightarrow> i \<noteq> cur \<Longrightarrow> fs_sector_entry_counts s ! i = 0 \<Longrightarrow> fs_sector_erase_counts s ! i = of_nat m"
    using inv by (simp_all add: even_wear_def)
  have empty': "fs_sector_erase_counts s ! i = of_nat m" if "i < n" "fs_sector_entry_counts s ! i = 0" for i
    using empty [OF that(1) _ that(2)] that(2) cur by (cases "i = cur") simp_all
  have "\<exists>t < n. next_sector s = of_nat t \<and> (if n = 1 then t = cur else t \<noteq> cur \<and> fs_sector_erase_counts s ! t = of_nat m)"
  proof (cases "1 < n")
    case True
    with next_sector_wear [OF inv True m] show ?thesis by auto
  next
    case False
    then have n: "n = 1" "cur = 0" using cn(1) by auto
    have "find_min_erase_sector (fs_sector_erase_counts s) 1 0 = 0" by (simp add: find_min_erase_sector_def)
    then show ?thesis using n cn cur by (auto simp: next_sector_def Let_def)
  qed
  then obtain t where t: "t < n" "next_sector s = of_nat t" "if n = 1 then t = cur else t \<noteq> cur \<and> fs_sector_erase_counts s ! t = of_nat m"
    by blast
  have n0: "fl_sector_count (fs_log s) \<noteq> 0" using cn of_nat_eq_small [of n 0] by simp
  obtain f' h where er: "erase_and_init_sector hal s (of_nat t) (fl_global_sequence (fs_log s)) now = (EKK_OK, s\<lparr>fs_flash := f',
        fs_sector_erase_counts := (fs_sector_erase_counts s)[t := fs_sector_erase_counts s ! t + 1],
        fs_sector_entry_counts := (fs_sector_entry_counts s)[t := 0],
        fs_log := (fs_log s)\<lparr>fl_total_erases := fl_total_erases (fs_log s) + 1\<rparr>\<rparr>)"
      "\<And>q. q < 256 * n \<Longrightarrow> slot f' q =
         (if q = 256 * t then header_bytes h else if q div 256 = t then erased else slot (fs_flash s) q)"
    using ready_erase [OF flash r t(1), of "fl_global_sequence (fs_log s)" now] by blast
  let ?s = "s\<lparr>fs_flash := f', fs_sector_erase_counts := (fs_sector_erase_counts s)[t := fs_sector_erase_counts s ! t + 1],
        fs_sector_entry_counts := (fs_sector_entry_counts s)[t := 0], fs_current_sector := of_nat t, fs_sector_write_pos := 1,
        fs_log := (fs_log s)\<lparr>fl_total_erases := fl_total_erases (fs_log s) + 1, fl_write_sector := of_nat t\<rparr>\<rparr>"
  have adv: "advance_sector hal s now = Some (EKK_OK, ?s)"
    using n0 by (simp add: advance_sector_def t(2) er(1) Let_def)
  have "slot f' q = erased" if "256 * t + 1 \<le> q" "q < 256 * t + 256" for q
  proof -
    have "q div 256 = t" using that by (intro div_nat_eqI) simp_all
    moreover have "256 * Suc t \<le> 256 * n" using t(1) by (intro mult_le_mono2) simp
    ultimately show ?thesis using er(2) that by simp
  qed
  then have ready: "ready slot base n t 1 ?s" using r t(1) by (simp add: ready_def)
  have t1024: "t < 1024" using t(1) cn(2) by simp
  show ?thesis
  proof (cases "n = 1")
    case True
    then have "t = 0" "fs_sector_erase_counts s ! 0 = of_nat m \<or> fs_sector_erase_counts s ! 0 = of_nat (Suc m)"
      using t(1) counts [of 0] by simp_all
    then have "even_wear slot base n t 1 (Suc m) ?s"
      using ready True cn t1024 by (auto simp: even_wear_def add.commute)
    with adv show ?thesis by blast
  next
    case False
    then have tc: "t \<noteq> cur" "fs_sector_erase_counts s ! t = of_nat m" using t(3) by simp_all
    have new: "fs_sector_erase_counts ?s ! i = (if i = t then of_nat (Suc m) else fs_sector_erase_counts s ! i)"
        "fs_sector_entry_counts ?s ! i = (if i = t then 0 else fs_sector_entry_counts s ! i)" for i
      using cn t1024 tc(2) by (auto simp: add.commute)
    show ?thesis
    proof (cases "\<exists>i < n. i \<noteq> t \<and> fs_sector_erase_counts s ! i = of_nat m")
      case True
      have "even_wear slot base n t 1 m ?s"
        unfolding even_wear_def new using ready True counts empty' by auto
      with adv show ?thesis by (intro exI [of _ t] exI [of _ m] exI [of _ ?s]) simp
    next
      case all: False
      then have others: "fs_sector_erase_counts s ! i = of_nat (Suc m)" if "i < n" "i \<noteq> t" for i using counts that by blast
      moreover have "\<exists>i < n. i \<noteq> t \<and> fs_sector_erase_counts s ! i = of_nat (Suc m)"
        using others [of cur] tc(1) cn(1) by (intro exI [of _ cur]) auto
      ultimately have "even_wear slot base n t 1 (Suc m) ?s"
        unfolding even_wear_def new using ready by auto
      with adv show ?thesis by blast
    qed
  qed
qed

lemma even_wear_write:
  assumes flash: "nor_flash hal slot base n" and inv: "even_wear slot base n cur pos m s" and m: "Suc m < 0xFFFFFFFF"
    and e: "length (fe_data e) = 44"
  shows "\<exists>offset s' cur' pos' m'. ekk_flash_log_write hal s e now = Some (offset, s') \<and> offset \<noteq> 0xFFFFFFFF \<and>
    even_wear slot base n cur' pos' m' s' \<and> m' \<le> Suc m"
proof -
  have offset: "(of_nat (64 * (256 * c + p)) :: u32) \<noteq> 0xFFFFFFFF" if "c < 1024" "p < 256" for c p
  proof
    have u: "unat (of_nat (64 * (256 * c + p)) :: u32) = 64 * (256 * c + p)" using that by (intro unat_small) simp
    assume "(of_nat (64 * (256 * c + p)) :: u32) = 0xFFFFFFFF"
    then have "64 * (256 * c + p) = 0xFFFFFFFF" using u by simp
    then show False using that by simp
  qed
  have r: "n \<le> 1024" "cur < n" "fs_sector_write_pos s = of_nat pos" "pos \<le> 256" using inv by (simp_all add: even_wear_def ready_def)
  show ?thesis
  proof (cases "pos < 256")
    case True
    then have "\<not> fs_sector_write_pos s \<ge> ENTRIES_PER_SECTOR"
      using unat_small [of pos] r(3) by (simp add: word_le_nat_alt)
    moreover obtain s' where "append_entry hal s e = (of_nat (64 * (256 * cur + pos)), s')" "even_wear slot base n cur (Suc pos) m s'"
      using even_wear_append [OF flash inv True e] by blast
    ultimately show ?thesis using offset [of cur pos] True r unfolding ekk_flash_log_write_def
      by (intro exI [of _ "of_nat (64 * (256 * cur + pos))"] exI [of _ s'] exI [of _ cur] exI [of _ "Suc pos"] exI [of _ m])
        (simp del: of_nat_mult of_nat_add)
  next
    case False
    then have pos: "pos = 256" "fs_sector_write_pos s = 256" using r by simp_all
    obtain t m' s1 where s1: "advance_sector hal s now = Some (EKK_OK, s1)" "even_wear slot base n t 1 m' s1" "m' \<le> Suc m"
      using even_wear_advance [OF flash inv [unfolded pos(1)] m] by blast
    obtain s' where s': "append_entry hal s1 e = (of_nat (64 * (256 * t + 1)), s')" "even_wear slot base n t (Suc 1) m' s'"
      using even_wear_append [OF flash s1(2) _ e] by auto
    have "t < n" using s1(2) by (simp add: even_wear_def ready_def)
    then show ?thesis using offset [of t 1] r(1) s1 s' unfolding ekk_flash_log_write_def
      by (intro exI [of _ "of_nat (64 * (256 * t + 1))"] exI [of _ s'] exI [of _ t] exI [of _ "Suc 1"] exI [of _ m'])
        (simp add: pos(2) del: of_nat_mult of_nat_add)
  qed
qed

lemma even_wear_run:
  assumes "nor_flash hal slot base n" "even_wear slot base n cur pos m s" "m + length ops < 0xFFFFFFFE"
    "\<forall>(seq, now, e) \<in> set ops. length (fe_data e) = 44"
  shows "\<exists>offsets s' cur' pos' m'. flash_log_run hal s ops = Some (offsets, s') \<and> 0xFFFFFFFF \<notin> set offsets \<and>
    even_wear slot base n cur' pos' m' s' \<and> m' < 0xFFFFFFFE"
  using assms
proof (induction ops arbitrary: s cur pos m)
  case Nil
  then show ?case by auto
next
  case (Cons op ops)
  obtain seq now e where op: "op = (seq, now, e)" by (cases op)
  have "even_wear slot base n cur pos m (s\<lparr>fs_log := (fs_log s)\<lparr>fl_global_sequence := seq\<rparr>\<rparr>)"
    using Cons.prems(2) by (simp add: even_wear_def ready_def)
  then obtain offset s1 cur1 pos1 m1 where s1: "ekk_flash_log_write hal (s\<lparr>fs_log := (fs_log s)\<lparr>fl_global_sequence := seq\<rparr>\<rparr>) e now = Some (offset, s1)"
      "offset \<noteq> 0xFFFFFFFF" "even_wear slot base n cur1 pos1 m1 s1" "m1 \<le> Suc m"
    using even_wear_write [OF Cons.prems(1), of cur pos m _ e now] Cons.prems(3,4) op by fastforce
  have "\<exists>offsets s' cur' pos' m'. flash_log_run hal s1 ops = Some (offsets, s') \<and> 0xFFFFFFFF \<notin> set offsets \<and>
    even_wear slot base n cur' pos' m' s' \<and> m' < 0xFFFFFFFE"
    by (rule Cons.IH [OF Cons.prems(1) s1(3)]) (use Cons.prems(3,4) s1(4) in auto)
  then obtain offsets s' cur' pos' m' where s': "flash_log_run hal s1 ops = Some (offsets, s')" "0xFFFFFFFF \<notin> set offsets"
      "even_wear slot base n cur' pos' m' s'" "m' < 0xFFFFFFFE"
    by blast
  with s1 show ?case unfolding op
    by (intro exI [of _ "offset # offsets"] exI [of _ s'] exI [of _ cur'] exI [of _ pos'] exI [of _ m']) simp
qed

text \<open>
  C39. Wear levelling. On a flash that starts erased, appending goes on however often the log wraps
  around (up to nearly 2^32 entries): every append succeeds, and the numbers of times any two sectors
  have been erased never differ by more than one.
\<close>

theorem flash_log_wear_levelled:
  assumes "nor_flash hal slot base n" "unat capacity div 256 = n" "0 < n" "n \<le> 1024" "\<forall>q < 256 * n. slot f q = erased"
    "length ops < 0xFFFFFFFE" "\<forall>(seq, now, e) \<in> set ops. length (fe_data e) = 44"
  shows "\<exists>s0 offsets s. ekk_flash_log_init hal f base capacity boot = Some s0 \<and>
    flash_log_run hal s0 ops = Some (offsets, s) \<and> 0xFFFFFFFF \<notin> set offsets \<and>
    (\<forall>i < n. \<forall>j < n. unat (fs_sector_erase_counts s ! i) \<le> unat (fs_sector_erase_counts s ! j) + 1)"
proof -
  obtain s0 where s0: "ekk_flash_log_init hal f base capacity boot = Some s0" "filled slot base n 0 0 [] s0"
      "fs_sector_erase_counts s0 = replicate 1024 0"
    using init_blank [OF assms(1,2,4,3,5)] by blast
  have "even_wear slot base n 0 1 0 s0"
    using s0(2,3) assms(3,4) by (cases "n = 1") (auto simp: even_wear_def filled_def intro: exI [of _ "Suc 0"])
  from even_wear_run [OF assms(1) this _ assms(7)] assms(6) obtain offsets s cur pos m where
    s: "flash_log_run hal s0 ops = Some (offsets, s)" "0xFFFFFFFF \<notin> set offsets" "even_wear slot base n cur pos m s" "m < 0xFFFFFFFE"
    by auto
  have "unat (fs_sector_erase_counts s ! i) = m \<or> unat (fs_sector_erase_counts s ! i) = Suc m" if "i < n" for i
    using s(3,4) that unat_small [of m] unat_small [of "Suc m"] by (auto simp: even_wear_def simp del: of_nat_Suc)
  then have "\<forall>i < n. \<forall>j < n. unat (fs_sector_erase_counts s ! i) \<le> unat (fs_sector_erase_counts s ! j) + 1"
    by (metis Suc_eq_plus1 le_SucI le_refl)
  with s0(1) s(1,2) show ?thesis by blast
qed

theorem flash_log_wear_levelled_witness:
  "\<exists>s0 offsets s. ekk_flash_log_init array_flash (\<lambda>_. erased) 0 512 0 = Some s0 \<and>
    flash_log_run array_flash s0 (replicate 5000 (7, 0, sample_flash_entry 7)) = Some (offsets, s) \<and>
    unat (fs_sector_erase_counts s ! 0) \<le> unat (fs_sector_erase_counts s ! 1) + 1"
proof -
  let ?ops = "replicate 5000 (7 :: u32, 0 :: u64, sample_flash_entry 7)"
  have ops: "length ?ops < 0xFFFFFFFE" "\<forall>(seq, now, e) \<in> set ?ops. length (fe_data e) = 44"
    using sample_flash_entry by auto
  have "unat (512 :: u32) div 256 = 2" "(0 :: nat) < 2" "(2 :: nat) \<le> 1024" by simp_all
  from flash_log_wear_levelled [OF array_flash [OF this(3)] this(1,2,3) _ ops, of "\<lambda>_. erased" 0] show ?thesis by auto
qed

section \<open>The driver of the TC397\<close>

text \<open>
  The driver accepts only whole pages of 256 bytes, and the log writes 64 bytes at a time: no
  header and no entry is ever written.
\<close>

lemma tc397_write_refused: "length bs = 64 \<Longrightarrow> fst (tc397_flash_write f address bs) = EKK_ERR_INVALID_ARG"
  by (simp add: tc397_flash_write_def)

lemma tc397_log_never_writes:
  assumes "length (fe_data e) = 44" "ekk_flash_log_write tc397_flash_hal s e now = Some (offset, s')"
  shows "offset = 0xFFFFFFFF"
proof -
  have append: "fst (append_entry tc397_flash_hal s e) = 0xFFFFFFFF" for s
    using tc397_write_refused [of "entry_bytes e"] assms(1)
    by (auto simp: append_entry_def tc397_flash_hal_def Let_def split: prod.splits) (metis ekk_error.distinct(1) fst_conv)
  with assms(2) show ?thesis
    by (auto simp: ekk_flash_log_write_def split: if_splits option.splits prod.splits) (metis fst_conv)+
qed

end
