(* ===== verification/Ekk_Gateway.thy ===== *)
theory Ekk_Gateway
  imports Ekk_Gossip Ekk_Stream_Index Ekk_Flash_Log
begin

text \<open>
  The gateway's event store (\<open>src/ekk_gateway.c\<close>): gossip messages received over CAN are appended
  to the flash log, indexed, and folded into a projection per module; queries read a stream, the
  current projection, or the state of a module at a time. Messages are bytes. The upstream
  connection is a stub in the source and is modelled as that. Operations that write to the log
  take the clock reading that a new sector would get, and answer \<open>None\<close> only where the log
  would divide by 0.
\<close>

section \<open>State\<close>

abbreviation (input) EKK_FLASH_LOG_CAPACITY :: u32 where "EKK_FLASH_LOG_CAPACITY \<equiv> 262144"
abbreviation (input) EKK_CAN_INTERFACES :: nat where "EKK_CAN_INTERFACES \<equiv> 12"
abbreviation (input) EKK_EVENT_STATE_TRANSITION :: u8 where "EKK_EVENT_STATE_TRANSITION \<equiv> 1"
abbreviation (input) EKK_EVENT_FIELD_PUBLISHED :: u8 where "EKK_EVENT_FIELD_PUBLISHED \<equiv> 2"
abbreviation (input) EKK_EVENT_NEIGHBOR_JOINED :: u8 where "EKK_EVENT_NEIGHBOR_JOINED \<equiv> 3"
abbreviation (input) EKK_EVENT_NEIGHBOR_LEFT :: u8 where "EKK_EVENT_NEIGHBOR_LEFT \<equiv> 4"
abbreviation (input) EKK_MSG_EVENT_GOSSIP :: u8 where "EKK_MSG_EVENT_GOSSIP \<equiv> 0x60"

record ekk_module_projection =
  mp_module_id :: u8
  mp_state :: ekk_module_state
  mp_last_seen :: u64
  mp_event_count :: u32
  mp_load :: int
  mp_thermal :: int
  mp_power :: int
  mp_neighbor_count :: u8
  mp_missed_heartbeats :: u8
  mp_capabilities :: u16

record ekk_can_interface =
  ci_index :: u8
  ci_enabled :: bool
  ci_rx_count :: u32
  ci_tx_count :: u32
  ci_error_count :: u32
  ci_last_activity :: u64

record ekk_upstream =
  up_connected :: bool
  up_sync_cursor :: u32
  up_pending_count :: u32
  up_last_sync :: u64
  up_sync_errors :: u32

record 'f ekk_gateway =
  gw_gateway_id :: u8
  gw_initialized :: bool
  gw_can :: "ekk_can_interface list"
  gw_flash_log :: "'f flash_store"
  gw_index :: ekk_stream_index
  gw_projections :: "ekk_module_projection list"
  gw_projection_count :: u8
  gw_upstream :: ekk_upstream
  gw_events_received :: u32
  gw_events_stored :: u32
  gw_queries_served :: u32

definition blank_projection :: ekk_module_projection where
  "blank_projection = \<lparr>mp_module_id = 0, mp_state = EKK_MODULE_INIT, mp_last_seen = 0, mp_event_count = 0, mp_load = 0,
     mp_thermal = 0, mp_power = 0, mp_neighbor_count = 0,
     mp_missed_heartbeats = 0, mp_capabilities = 0\<rparr>"

section \<open>Projections\<close>

definition find_projection :: "ekk_module_projection list \<Rightarrow> u8 \<Rightarrow> u8 \<Rightarrow> nat option" where
  "find_projection projections projection_count module_id =
     find_from (\<lambda>p. mp_module_id p = module_id) projections 0 (unat projection_count)"

text \<open>The number of projections is a byte that is compared with 256, like the number of streams.\<close>

definition create_projection ::
  "ekk_module_projection list \<Rightarrow> u8 \<Rightarrow> u8 \<Rightarrow> (nat \<times> ekk_module_projection list \<times> u8) option"
where
  "create_projection projections projection_count module_id =
     (if unat projection_count \<ge> EKK_GATEWAY_MAX_MODULES then None
      else (let i = unat projection_count
            in Some (i, projections[i := blank_projection\<lparr>mp_module_id := module_id, mp_state := EKK_MODULE_INIT\<rparr>],
                 projection_count + 1)))"

text \<open>The states below \<open>EKK_MODULE_SHUTDOWN\<close>, by their number.\<close>

definition state_below_shutdown :: "u8 \<Rightarrow> ekk_module_state option" where
  "state_below_shutdown b =
     (if b < 6
      then Some ([EKK_MODULE_INIT, EKK_MODULE_DISCOVERING, EKK_MODULE_ACTIVE, EKK_MODULE_DEGRADED, EKK_MODULE_ISOLATED,
             EKK_MODULE_REFORMING] ! unat b)
      else None)"

definition state_transition :: "u8 list \<Rightarrow> ekk_module_projection \<Rightarrow> ekk_module_projection" where
  "state_transition payload proj =
     (case state_below_shutdown (payload ! 0) of Some state \<Rightarrow> proj\<lparr>mp_state := state\<rparr> | None \<Rightarrow> proj)"

text \<open>The value is four bytes, most significant first, as a signed number.\<close>

definition field_published :: "u8 list \<Rightarrow> ekk_module_projection \<Rightarrow> ekk_module_projection" where
  "field_published payload proj =
     (let field_id = payload ! 0;
          bits = push_bit 24 (ucast (payload ! 1)) OR push_bit 16 (ucast (payload ! 2)) OR push_bit 8 (ucast (payload ! 3)) OR
            ucast (payload ! 4) :: u32;
          field_value = to_i32 (uint bits)
      in if field_id = 0 then proj\<lparr>mp_load := field_value\<rparr>
         else if field_id = 1 then proj\<lparr>mp_thermal := field_value\<rparr>
         else if field_id = 2 then proj\<lparr>mp_power := field_value\<rparr>
         else proj)"

definition project_event :: "ekk_event_v2 \<Rightarrow> ekk_module_projection \<Rightarrow> ekk_module_projection" where
  "project_event event proj =
     (let proj = proj\<lparr>mp_last_seen := ucast (ev_timestamp_us event), mp_event_count := mp_event_count proj + 1\<rparr>
      in if ev_event_type event = EKK_EVENT_STATE_TRANSITION then state_transition (ev_payload event) proj
         else if ev_event_type event = EKK_EVENT_FIELD_PUBLISHED then field_published (ev_payload event) proj
         else if ev_event_type event = EKK_EVENT_NEIGHBOR_JOINED
         then (if mp_neighbor_count proj < 255 then proj\<lparr>mp_neighbor_count := mp_neighbor_count proj + 1\<rparr> else proj)
         else if ev_event_type event = EKK_EVENT_NEIGHBOR_LEFT
         then (if mp_neighbor_count proj > 0 then proj\<lparr>mp_neighbor_count := mp_neighbor_count proj - 1\<rparr> else proj)
         else proj)"

definition update_projection :: "'f ekk_gateway \<Rightarrow> ekk_event_v2 \<Rightarrow> 'f ekk_gateway" where
  "update_projection gw event =
     (case (case find_projection (gw_projections gw) (gw_projection_count gw) (ev_origin_id event) of
              Some i \<Rightarrow> Some (i, gw_projections gw, gw_projection_count gw)
            | None \<Rightarrow> create_projection (gw_projections gw) (gw_projection_count gw) (ev_origin_id event)) of
        None \<Rightarrow> gw
      | Some (i, projections, projection_count) \<Rightarrow>
          gw\<lparr>gw_projections := projections[i := project_event event (projections ! i)], gw_projection_count := projection_count\<rparr>)"

section \<open>Operations\<close>

definition ekk_upstream_init :: ekk_upstream where
  "ekk_upstream_init = \<lparr>up_connected = False, up_sync_cursor = 0, up_pending_count = 0, up_last_sync = 0, up_sync_errors = 0\<rparr>"

definition ekk_gateway_init ::
  "'f flash_hal \<Rightarrow> 'f \<Rightarrow> u8 \<Rightarrow> u32 \<Rightarrow> ekk_index_entry list \<Rightarrow> nat \<Rightarrow> u64 \<Rightarrow> (ekk_error \<times> 'f ekk_gateway option) option"
where
  "ekk_gateway_init hal f gateway_id flash_base index_buffer index_capacity now =
     (if index_capacity = 0 then Some (EKK_ERR_INVALID_ARG, None)
      else
        (case ekk_flash_log_init hal f flash_base EKK_FLASH_LOG_CAPACITY now of
           None \<Rightarrow> None
         | Some store \<Rightarrow>
             (case ekk_stream_index_init index_buffer index_capacity of
                (err, None) \<Rightarrow> Some (err, None)
              | (err, Some index) \<Rightarrow>
                  Some (EKK_OK, Some \<lparr>gw_gateway_id = gateway_id, gw_initialized = True,
                    gw_can = map (\<lambda>i. \<lparr>ci_index = of_nat i, ci_enabled = False, ci_rx_count = 0, ci_tx_count = 0,
                       ci_error_count = 0, ci_last_activity = 0\<rparr>) [0..<EKK_CAN_INTERFACES],
                    gw_flash_log = store, gw_index = index,
                    gw_projections = replicate EKK_GATEWAY_MAX_MODULES blank_projection, gw_projection_count = 0,
                    gw_upstream = ekk_upstream_init, gw_events_received = 0, gw_events_stored = 0, gw_queries_served = 0\<rparr>))))"

definition flash_entry_of :: "u32 \<Rightarrow> u8 \<Rightarrow> ekk_event_v2 \<Rightarrow> ekk_flash_entry" where
  "flash_entry_of global_seq module_id event =
     (let entry = \<lparr>fe_global_seq = global_seq, fe_crc32 = 0, fe_length = 20, fe_stream_id = module_id,
            fe_event_type = ev_event_type event, fe_timestamp_us = ev_timestamp_us event, fe_origin_seq = ev_origin_seq event,
            fe_data = ev_payload event @ replicate 24 0\<rparr>
      in entry\<lparr>fe_crc32 := ekk_flash_entry_crc entry\<rparr>)"

definition index_entry_of :: "ekk_flash_entry \<Rightarrow> u32 \<Rightarrow> ekk_index_entry" where
  "index_entry_of entry offset =
     \<lparr>ie_global_seq = fe_global_seq entry, ie_flash_offset = offset, ie_timestamp_us = fe_timestamp_us entry,
      ie_stream_seq = ucast (fe_origin_seq entry AND 0xFFFF), ie_stream_id = fe_stream_id entry,
      ie_event_type = fe_event_type entry\<rparr>"

definition ekk_gateway_append ::
  "'f flash_hal \<Rightarrow> 'f ekk_gateway \<Rightarrow> u8 \<Rightarrow> ekk_event_v2 \<Rightarrow> u64 \<Rightarrow> (u32 \<times> 'f ekk_gateway) option"
where
  "ekk_gateway_append hal gw module_id event now =
     (let log = fs_log (gw_flash_log gw);
          global_seq = fl_global_sequence log;
          store = (gw_flash_log gw)\<lparr>fs_log := log\<lparr>fl_global_sequence := global_seq + 1\<rparr>\<rparr>;
          entry = flash_entry_of global_seq module_id event
      in case ekk_flash_log_write hal store entry now of
           None \<Rightarrow> None
         | Some (offset, store) \<Rightarrow>
             (let gw = gw\<lparr>gw_flash_log := store\<rparr>
              in if offset = 0xFFFFFFFF then Some (0, gw)
                 else
                   (let gw = gw\<lparr>gw_index := snd (ekk_stream_index_add (gw_index gw) (index_entry_of entry offset))\<rparr>;
                        gw = update_projection gw event
                    in Some (global_seq, gw\<lparr>gw_events_stored := gw_events_stored gw + 1\<rparr>))))"

text \<open>The messages of the gossip protocol as they come over CAN, packed.\<close>

definition event_of_bytes :: "u8 list \<Rightarrow> ekk_event_v2" where
  "event_of_bytes bs = \<lparr>ev_sequence = le_word (field bs 0 4), ev_timestamp_us = le_word (field bs 4 4), ev_event_type = bs ! 8,
     ev_flags = bs ! 9, ev_origin_id = bs ! 10, ev_hop_count = bs ! 11, ev_origin_seq = le_word (field bs 12 4),
     ev_payload = field bs 16 20\<rparr>"

definition gossip_msg_of_bytes :: "u8 list \<Rightarrow> ekk_gossip_msg" where
  "gossip_msg_of_bytes bs = \<lparr>gm_source_module = bs ! 1, gm_event_count = bs ! 2, gm_vv_summary = field bs 3 7,
     gm_events = map (\<lambda>i. event_of_bytes (field bs (10 + 36 * i) 36)) [0..<EKK_GOSSIP_BATCH_SIZE]\<rparr>"

text \<open>\<open>clock i\<close> is the clock reading while the \<open>i\<close>th event is stored.\<close>

definition ekk_gateway_process_can ::
  "'f flash_hal \<Rightarrow> 'f ekk_gateway \<Rightarrow> u8 \<Rightarrow> u8 list \<Rightarrow> u64 \<Rightarrow> (nat \<Rightarrow> u64) \<Rightarrow> (ekk_error \<times> 'f ekk_gateway) option"
where
  "ekk_gateway_process_can hal gw can_idx data now clock =
     (if unat can_idx \<ge> EKK_CAN_INTERFACES then Some (EKK_ERR_INVALID_ARG, gw)
      else
        (let i = unat can_idx; can = gw_can gw ! i;
             gw = gw\<lparr>gw_can := (gw_can gw)[i := can\<lparr>ci_rx_count := ci_rx_count can + 1, ci_last_activity := now\<rparr>],
               gw_events_received := gw_events_received gw + 1\<rparr>
         in if length data \<ge> 1 \<and> data ! 0 = EKK_MSG_EVENT_GOSSIP \<and> length data \<ge> 82
            then
              (let msg = gossip_msg_of_bytes data
               in map_option (Pair EKK_OK) (fold (\<lambda>i result. case result of
                      None \<Rightarrow> None
                    | Some gw \<Rightarrow> map_option snd
                        (ekk_gateway_append hal gw (gm_source_module msg) (gm_events msg ! i) (clock i)))
                   [0..<min (unat (gm_event_count msg)) EKK_GOSSIP_BATCH_SIZE] (Some gw)))
            else Some (EKK_OK, gw)))"

definition event_of_entry :: "ekk_flash_entry \<Rightarrow> ekk_event_v2" where
  "event_of_entry entry = \<lparr>ev_sequence = fe_global_seq entry, ev_timestamp_us = fe_timestamp_us entry,
     ev_event_type = fe_event_type entry, ev_flags = 0, ev_origin_id = fe_stream_id entry, ev_hop_count = 0,
     ev_origin_seq = fe_origin_seq entry, ev_payload = take 20 (fe_data entry)\<rparr>"

definition read_indexed ::
  "'f flash_hal \<Rightarrow> ekk_stream_index \<Rightarrow> nat \<Rightarrow> 'f flash_store \<times> ekk_event_v2 list \<Rightarrow> 'f flash_store \<times> ekk_event_v2 list"
where
  "read_indexed hal index i = (\<lambda>(store, buffer).
     case ekk_flash_log_read hal store (ie_flash_offset (sx_entries index ! i)) of
       (EKK_OK, Some entry, store) \<Rightarrow> (store, buffer @ [event_of_entry entry])
     | (_, _, store) \<Rightarrow> (store, buffer))"

text \<open>The events put into the buffer; the code returns their number.\<close>

definition ekk_gateway_read_stream ::
  "'f flash_hal \<Rightarrow> 'f ekk_gateway \<Rightarrow> u8 \<Rightarrow> u32 \<Rightarrow> nat \<Rightarrow> ekk_event_v2 list \<times> 'f ekk_gateway"
where
  "ekk_gateway_read_stream hal gw stream_id from_seq max_count =
     (if max_count = 0 then ([], gw)
      else
        (case ekk_stream_index_find_stream (gw_index gw) stream_id from_seq of
           (EKK_OK, first_idx, n) \<Rightarrow>
             (let n = (if n > max_count then max_count else n);
                  (store, buffer) = fold (\<lambda>i. read_indexed hal (gw_index gw) (first_idx + i)) [0..<n] (gw_flash_log gw, [])
              in (buffer, gw\<lparr>gw_flash_log := store, gw_queries_served := gw_queries_served gw + 1\<rparr>))
         | _ \<Rightarrow> ([], gw)))"

definition ekk_gateway_module_state :: "'f ekk_gateway \<Rightarrow> u8 \<Rightarrow> ekk_error \<times> ekk_module_projection option" where
  "ekk_gateway_module_state gw module_id =
     (case find_projection (gw_projections gw) (gw_projection_count gw) module_id of
        None \<Rightarrow> (EKK_ERR_NOT_FOUND, None)
      | Some i \<Rightarrow> (EKK_OK, Some (gw_projections gw ! i)))"

definition replay_state :: "ekk_event_v2 \<Rightarrow> ekk_module_projection \<Rightarrow> ekk_module_projection" where
  "replay_state event proj =
     (let proj = proj\<lparr>mp_last_seen := ucast (ev_timestamp_us event), mp_event_count := mp_event_count proj + 1\<rparr>
      in if ev_event_type event = EKK_EVENT_STATE_TRANSITION then state_transition (ev_payload event) proj else proj)"

definition replay_indexed ::
  "'f flash_hal \<Rightarrow> ekk_stream_index \<Rightarrow> u8 \<Rightarrow> nat \<Rightarrow> 'f flash_store \<times> ekk_module_projection \<Rightarrow> 'f flash_store \<times> ekk_module_projection"
where
  "replay_indexed hal index module_id i = (\<lambda>(store, proj).
     let idx = sx_entries index ! i
     in if ie_stream_id idx \<noteq> module_id then (store, proj)
        else
          (case ekk_flash_log_read hal store (ie_flash_offset idx) of
             (EKK_OK, Some entry, store) \<Rightarrow> (store, replay_state (event_of_entry entry) proj)
           | (_, _, store) \<Rightarrow> (store, proj)))"

definition ekk_gateway_state_at ::
  "'f flash_hal \<Rightarrow> 'f ekk_gateway \<Rightarrow> u8 \<Rightarrow> u32 \<Rightarrow> ekk_module_projection \<times> 'f ekk_gateway"
where
  "ekk_gateway_state_at hal gw module_id timestamp_us =
     (let proj = blank_projection\<lparr>mp_module_id := module_id, mp_state := EKK_MODULE_INIT\<rparr>
      in case ekk_stream_index_find_time (gw_index gw) 0 timestamp_us of
           (EKK_OK, first_idx, n) \<Rightarrow>
             (let (store, proj) = fold (\<lambda>i. replay_indexed hal (gw_index gw) module_id (first_idx + i)) [0..<n]
                    (gw_flash_log gw, proj)
              in (proj, gw\<lparr>gw_flash_log := store\<rparr>))
         | _ \<Rightarrow> (proj, gw))"

definition ekk_upstream_sync :: "'f ekk_gateway \<Rightarrow> ekk_error \<times> 'f ekk_gateway" where
  "ekk_upstream_sync gw = (EKK_OK, gw)"

definition ekk_upstream_pull :: "'f ekk_gateway \<Rightarrow> u32 \<Rightarrow> ekk_error \<times> 'f ekk_gateway" where
  "ekk_upstream_pull gw from_seq = (EKK_OK, gw)"

definition ekk_gateway_tick :: "'f ekk_gateway \<Rightarrow> u64 \<Rightarrow> ekk_error \<times> 'f ekk_gateway" where
  "ekk_gateway_tick gw now =
     (EKK_OK, if up_connected (gw_upstream gw) \<and> up_pending_count (gw_upstream gw) > 0 then snd (ekk_upstream_sync gw) else gw)"


section \<open>Storing events\<close>

fun gateway_run ::
  "'f flash_hal \<Rightarrow> 'f ekk_gateway \<Rightarrow> (u8 \<times> ekk_event_v2 \<times> u64) list \<Rightarrow> (u32 list \<times> 'f ekk_gateway) option"
where
  "gateway_run hal gw [] = Some ([], gw)"
| "gateway_run hal gw ((module_id, event, now) # ops) =
     (case ekk_gateway_append hal gw module_id event now of
        None \<Rightarrow> None
      | Some (seq, gw) \<Rightarrow> map_option (\<lambda>(seqs, gw). (seq # seqs, gw)) (gateway_run hal gw ops))"

text \<open>What the log and the index hold after the events \<open>evs\<close>.\<close>

definition stored :: "(u8 \<times> ekk_event_v2) list \<Rightarrow> ekk_flash_entry list" where
  "stored evs = map (\<lambda>k. flash_entry_of (of_nat k) (fst (evs ! k)) (snd (evs ! k))) [0..<length evs]"

definition indexed :: "(u8 \<times> ekk_event_v2) list \<Rightarrow> ekk_index_entry list" where
  "indexed evs = map (\<lambda>k. index_entry_of (stored evs ! k) (of_nat (64 * place k))) [0..<length evs]"

lemma length_stored [simp]: "length (stored evs) = length evs" "length (indexed evs) = length evs"
  by (simp_all add: stored_def indexed_def)

lemma nth_stored: "k < length evs \<Longrightarrow> stored evs ! k = flash_entry_of (of_nat k) (fst (evs ! k)) (snd (evs ! k))"
  by (simp add: stored_def)

lemma nth_indexed: "k < length evs \<Longrightarrow> indexed evs ! k = index_entry_of (stored evs ! k) (of_nat (64 * place k))"
  by (simp add: indexed_def del: of_nat_mult)

lemma stored_append: "stored (evs @ [x]) = stored evs @ [flash_entry_of (of_nat (length evs)) (fst x) (snd x)]"
  by (simp add: stored_def nth_append)

lemma indexed_append:
  "indexed (evs @ [x]) = indexed evs @
     [index_entry_of (flash_entry_of (of_nat (length evs)) (fst x) (snd x)) (of_nat (64 * place (length evs)))]"
  by (simp add: indexed_def nth_append stored_append del: of_nat_mult)

lemma crc_of_crc [simp]: "ekk_flash_entry_crc (e\<lparr>fe_crc32 := x\<rparr>) = ekk_flash_entry_crc e"
  by (simp add: ekk_flash_entry_crc_def entry_bytes_def)

lemma verify_signed: "ekk_flash_entry_verify (e\<lparr>fe_crc32 := ekk_flash_entry_crc e\<rparr>)"
  by (simp add: ekk_flash_entry_verify_def)

lemma flash_entry_of_ok:
  "length (ev_payload event) = 20 \<Longrightarrow> length (fe_data (flash_entry_of n m event)) = 44"
  "ekk_flash_entry_verify (flash_entry_of n m event)"
  unfolding flash_entry_of_def Let_def by (simp, rule verify_signed)

lemma flash_entry_fields:
  "fe_global_seq (flash_entry_of n m event) = n" "fe_stream_id (flash_entry_of n m event) = m"
  "fe_event_type (flash_entry_of n m event) = ev_event_type event"
  "fe_timestamp_us (flash_entry_of n m event) = ev_timestamp_us event"
  "fe_origin_seq (flash_entry_of n m event) = ev_origin_seq event"
  "fe_data (flash_entry_of n m event) = ev_payload event @ replicate 24 0"
  by (simp_all add: flash_entry_of_def Let_def)

lemma write_keeps_sequence:
  "ekk_flash_log_write hal s e now = Some (offset, s') \<Longrightarrow> fl_global_sequence (fs_log s') = fl_global_sequence (fs_log s)"
  by (auto simp: ekk_flash_log_write_def append_entry_def advance_sector_def erase_and_init_sector_def Let_def
      split: if_splits option.splits prod.splits)

lemma update_projection_keeps [simp]:
  "gw_flash_log (update_projection gw event) = gw_flash_log gw" "gw_index (update_projection gw event) = gw_index gw"
  by (simp_all add: update_projection_def split: option.splits prod.splits)

text \<open>The log holds the events, and the index points at them.\<close>

definition holds :: "('f \<Rightarrow> nat \<Rightarrow> u8 list) \<Rightarrow> u32 \<Rightarrow> nat \<Rightarrow> (u8 \<times> ekk_event_v2) list \<Rightarrow> 'f ekk_gateway \<Rightarrow> bool" where
  "holds slot base capacity evs gw \<longleftrightarrow>
     (\<exists>c p. filled slot base 1024 c p (stored evs) (gw_flash_log gw) \<and> (p = 0 \<longrightarrow> c = 0)) \<and>
     fl_global_sequence (fs_log (gw_flash_log gw)) = of_nat (length evs) \<and>
     indexes (indexed evs) (gw_index gw) \<and> sx_capacity (gw_index gw) = capacity"

lemma stored_streams: "ie_stream_id ` set (indexed evs) = fst ` set evs"
proof -
  have "map ie_stream_id (indexed evs) = map fst evs"
    by (rule nth_equalityI) (simp_all add: nth_indexed nth_stored index_entry_of_def flash_entry_fields)
  then show ?thesis by (metis list.set_map)
qed

lemma holds_append:
  assumes flash: "nor_flash hal slot base 1024" and inv: "holds slot base capacity evs gw"
    and room: "length evs < capacity" "length evs < 255 * 1024"
    and ok: "length (ev_payload event) = 20" "module_id \<noteq> 0" "0 \<notin> fst ` set evs"
  shows "\<exists>gw'. ekk_gateway_append hal gw module_id event now = Some (of_nat (length evs), gw') \<and>
    holds slot base capacity (evs @ [(module_id, event)]) gw' \<and>
    (gw_projections gw', gw_projection_count gw') =
      (gw_projections (update_projection gw event), gw_projection_count (update_projection gw event))"
proof -
  obtain c p where f: "filled slot base 1024 c p (stored evs) (gw_flash_log gw)" "p = 0 \<longrightarrow> c = 0"
    and seq: "fl_global_sequence (fs_log (gw_flash_log gw)) = of_nat (length evs)"
    and ix: "indexes (indexed evs) (gw_index gw)" "sx_capacity (gw_index gw) = capacity"
    using inv by (auto simp: holds_def)
  let ?e = "flash_entry_of (of_nat (length evs)) module_id event"
  let ?store = "(gw_flash_log gw)\<lparr>fs_log := (fs_log (gw_flash_log gw))\<lparr>fl_global_sequence := of_nat (length evs) + 1\<rparr>\<rparr>"
  obtain store c' p' where w: "ekk_flash_log_write hal ?store ?e now = Some (of_nat (64 * place (length evs)), store)"
      "filled slot base 1024 c' p' (stored evs @ [?e]) store" "0 < p'"
    using filled_write [OF flash filled_sequence [OF f(1), of "of_nat (length evs) + 1"], of ?e now] room(2) flash_entry_of_ok(1) [OF ok(1)]
    by auto
  have gs: "fl_global_sequence (fs_log store) = of_nat (length (evs @ [(module_id, event)]))"
    using write_keeps_sequence [OF w(1)] by (simp add: add.commute)
  have "unat (of_nat (64 * place (length evs)) :: u32) = 64 * place (length evs)"
    using place_sector(1) [of "length evs" 1023 255] room(2) by (intro unat_small) simp
  moreover have "64 * place (length evs) \<noteq> 0xFFFFFFFF"
  proof
    assume "64 * place (length evs) = 0xFFFFFFFF"
    then have "(64 * place (length evs)) mod 2 = (0xFFFFFFFF :: nat) mod 2" by (simp only:)
    then show False by simp
  qed
  ultimately have offset: "(of_nat (64 * place (length evs)) :: u32) \<noteq> 0xFFFFFFFF"
    by (metis unat_small order_refl of_nat_numeral)
  let ?i = "index_entry_of ?e (of_nat (64 * place (length evs)))"
  have id: "ie_stream_id ?i = module_id" by (simp add: index_entry_of_def flash_entry_fields)
  have ix': "indexes (indexed evs @ [?i]) (snd (ekk_stream_index_add (gw_index gw) ?i))"
      "sx_capacity (snd (ekk_stream_index_add (gw_index gw) ?i)) = capacity"
    using indexes_add [OF ix(1), of ?i] ix(2) room(1) ok(2,3) id stored_streams [of evs] by simp_all
  let ?gw = "gw\<lparr>gw_flash_log := store, gw_index := snd (ekk_stream_index_add (gw_index gw) ?i)\<rparr>"
  let ?gw' = "(update_projection ?gw event)\<lparr>gw_events_stored := gw_events_stored (update_projection ?gw event) + 1\<rparr>"
  have "ekk_gateway_append hal gw module_id event now = Some (of_nat (length evs), ?gw')"
    unfolding ekk_gateway_append_def Let_def seq using w(1) offset by (simp del: of_nat_mult)
  moreover have "holds slot base capacity (evs @ [(module_id, event)]) ?gw'"
    unfolding holds_def using w(2,3) gs ix' by (auto simp: stored_append indexed_append simp del: of_nat_mult)
  moreover have "(gw_projections ?gw', gw_projection_count ?gw') =
      (gw_projections (update_projection gw event), gw_projection_count (update_projection gw event))"
    by (simp add: update_projection_def split: option.splits prod.splits)
  ultimately show ?thesis by blast
qed


lemma holds_run:
  assumes "nor_flash hal slot base 1024" "holds slot base capacity evs gw"
    "length evs + length ops \<le> capacity" "length evs + length ops \<le> 255 * 1024" "0 \<notin> fst ` set evs"
    "\<forall>(module_id, event, now) \<in> set ops. module_id \<noteq> 0 \<and> length (ev_payload event) = 20"
  shows "\<exists>gw'. gateway_run hal gw ops = Some (map of_nat [length evs..<length evs + length ops], gw') \<and>
    holds slot base capacity (evs @ map (\<lambda>(m, e, now). (m, e)) ops) gw' \<and>
    (gw_projections gw', gw_projection_count gw') =
      (let gw'' = fold (\<lambda>(m, e, now) gw. update_projection gw e) ops gw in (gw_projections gw'', gw_projection_count gw''))"
  using assms
proof (induction ops arbitrary: evs gw)
  case Nil
  then show ?case by simp
next
  case (Cons op ops)
  obtain m e now where op: "op = (m, e, now)" by (cases op)
  have me: "length (ev_payload e) = 20" "m \<noteq> 0" using Cons.prems(6) op by auto
  obtain gw1 where gw1: "ekk_gateway_append hal gw m e now = Some (of_nat (length evs), gw1)"
      "holds slot base capacity (evs @ [(m, e)]) gw1"
      "(gw_projections gw1, gw_projection_count gw1) =
        (gw_projections (update_projection gw e), gw_projection_count (update_projection gw e))"
    using holds_append [OF Cons.prems(1,2) _ _ me Cons.prems(5), of now] Cons.prems(3,4) by auto
  have "\<exists>gw'. gateway_run hal gw1 ops = Some (map of_nat [length (evs @ [(m, e)])..<length (evs @ [(m, e)]) + length ops], gw') \<and>
    holds slot base capacity ((evs @ [(m, e)]) @ map (\<lambda>(m, e, now). (m, e)) ops) gw' \<and>
    (gw_projections gw', gw_projection_count gw') =
      (let gw'' = fold (\<lambda>(m, e, now) gw. update_projection gw e) ops gw1 in (gw_projections gw'', gw_projection_count gw''))"
    by (rule Cons.IH [OF Cons.prems(1) gw1(2)]) (use Cons.prems(3-6) me in auto)
  then obtain gw' where gw': "gateway_run hal gw1 ops = Some (map of_nat [Suc (length evs)..<Suc (length evs) + length ops], gw')"
      "holds slot base capacity (evs @ [(m, e)] @ map (\<lambda>(m, e, now). (m, e)) ops) gw'"
      "(gw_projections gw', gw_projection_count gw') =
        (let gw'' = fold (\<lambda>(m, e, now) gw. update_projection gw e) ops gw1 in (gw_projections gw'', gw_projection_count gw''))"
    by (simp only: length_append_singleton append_assoc) blast
  have same: "gw_projections (fold (\<lambda>(m, e, now) gw. update_projection gw e) ops g) = gw_projections (fold (\<lambda>(m, e, now) gw. update_projection gw e) ops h) \<and>
      gw_projection_count (fold (\<lambda>(m, e, now) gw. update_projection gw e) ops g) = gw_projection_count (fold (\<lambda>(m, e, now) gw. update_projection gw e) ops h)"
    if "gw_projections g = gw_projections h" "gw_projection_count g = gw_projection_count h" for g h :: "'a ekk_gateway"
    using that
  proof (induction ops arbitrary: g h)
    case (Cons op ops)
    obtain m e now where op: "op = (m, e, now)" by (cases op)
    have "gw_projections (update_projection g e) = gw_projections (update_projection h e)"
        "gw_projection_count (update_projection g e) = gw_projection_count (update_projection h e)"
      using Cons.prems by (simp_all add: update_projection_def split: option.splits prod.splits)
    from Cons.IH [OF this] show ?case by (simp add: op)
  qed simp
  have "[length evs..<length evs + length (op # ops)] = length evs # [Suc (length evs)..<Suc (length evs) + length ops]"
    by (simp add: upt_conv_Cons del: upt_Suc)
  then show ?case
    using gw1 gw' same [of gw1 "update_projection gw e"] by (intro exI [of _ gw']) (simp add: op Let_def del: upt_Suc)
qed

section \<open>Reading what was stored\<close>

lemma holds_read:
  assumes flash: "nor_flash hal slot base 1024" and inv: "holds slot base capacity evs gw" and k: "k < length evs"
    and ok: "length (ev_payload (snd (evs ! k))) = 20"
  shows "ekk_flash_log_read hal (gw_flash_log gw) (ie_flash_offset (sx_entries (gw_index gw) ! k)) = (EKK_OK, Some (stored evs ! k), gw_flash_log gw)"
    and "ie_stream_id (sx_entries (gw_index gw) ! k) = fst (evs ! k)"
proof -
  obtain c p where f: "filled slot base 1024 c p (stored evs) (gw_flash_log gw)" and ix: "indexes (indexed evs) (gw_index gw)"
    using inv by (auto simp: holds_def)
  have "take (length evs) (sx_entries (gw_index gw)) = indexed evs" using ix by (simp add: indexes_def)
  then have "sx_entries (gw_index gw) ! k = indexed evs ! k" using k by (metis nth_take)
  then have e: "sx_entries (gw_index gw) ! k = index_entry_of (stored evs ! k) (of_nat (64 * place k))"
    using k by (simp add: nth_indexed del: of_nat_mult)
  show "ekk_flash_log_read hal (gw_flash_log gw) (ie_flash_offset (sx_entries (gw_index gw) ! k)) = (EKK_OK, Some (stored evs ! k), gw_flash_log gw)"
    using filled_read [OF flash f] k ok by (simp add: e index_entry_of_def nth_stored flash_entry_of_ok del: of_nat_mult)
  show "ie_stream_id (sx_entries (gw_index gw) ! k) = fst (evs ! k)"
    using k by (simp add: e index_entry_of_def nth_stored flash_entry_fields)
qed

lemma read_fold:
  assumes "\<And>k. k \<in> set ks \<Longrightarrow> ekk_flash_log_read hal store (ie_flash_offset (sx_entries index ! k)) = (EKK_OK, Some (es ! k), store)"
  shows "fold (read_indexed hal index) ks (store, buffer) = (store, buffer @ map (\<lambda>k. event_of_entry (es ! k)) ks)"
  using assms by (induction ks arbitrary: buffer) (simp_all add: read_indexed_def)

lemma replay_fold:
  assumes "\<And>k. k \<in> set ks \<Longrightarrow> ekk_flash_log_read hal store (ie_flash_offset (sx_entries index ! k)) = (EKK_OK, Some (es ! k), store)"
  shows "fold (replay_indexed hal index m) ks (store, proj) =
    (store, fold replay_state (map (\<lambda>k. event_of_entry (es ! k)) (filter (\<lambda>k. ie_stream_id (sx_entries index ! k) = m) ks)) proj)"
  using assms by (induction ks arbitrary: proj) (simp_all add: replay_indexed_def)

lemma fold_shift: "fold (\<lambda>i. f (first + i)) [0..<n] = fold f [first..<first + n]"
proof -
  have "[first..<first + n] = map (\<lambda>i. first + i) [0..<n]"
    using map_add_upt [of first n] by (simp add: add.commute)
  then show ?thesis by (simp add: fold_map comp_def)
qed

lemma positions_map:
  assumes "length ys = length xs" "\<And>k. k < length xs \<Longrightarrow> P (ys ! k) \<longleftrightarrow> Q (xs ! k)"
  shows "positions P ys = positions Q xs"
  unfolding positions_def assms(1) using assms(2) by (intro filter_cong) auto

lemma nth_positions: "map ((!) xs) (positions P xs) = filter P xs"
proof (induction xs rule: rev_induct)
  case (snoc x xs)
  have "map ((!) (xs @ [x])) (positions P xs) = map ((!) xs) (positions P xs)"
    by (rule map_cong) (auto dest: positions_less simp: nth_append)
  with snoc show ?case by (simp add: positions_append)
qed (simp add: positions_def)


lemma positions_filter: "filter (\<lambda>k. Q (xs ! k)) (positions P xs) = positions (\<lambda>x. Q x \<and> P x) xs"
  by (simp add: positions_def conj_commute)

lemma event_of_stored:
  assumes "length (ev_payload event) = 20"
  shows "replay_state (event_of_entry (flash_entry_of n m event)) = replay_state event"
  using assms by (intro ext) (simp add: replay_state_def event_of_entry_def flash_entry_fields Let_def)

lemma take_interval: "take m [a..<a + n] = [a..<a + min m n]"
  by (rule nth_equalityI) auto

lemma positions_window:
  assumes "positions P xs \<noteq> []" "k \<in> set [hd (positions P xs)..<hd (positions P xs) + length (positions P xs)]"
  shows "k < length xs"
proof -
  let ?js = "positions P xs"
  have "set ?js \<subseteq> {hd ?js..last ?js}"
  proof
    fix x assume "x \<in> set ?js"
    from sorted_bounds [OF sorted_positions this] show "x \<in> {hd ?js..last ?js}" by simp
  qed
  then have "card (set ?js) \<le> card {hd ?js..last ?js}" by (intro card_mono) simp_all
  moreover have "card (set ?js) = length ?js" by (rule distinct_card) (simp add: positions_def)
  moreover have "hd ?js \<le> last ?js" using sorted_bounds [OF sorted_positions hd_in_set [OF assms(1)]] by simp
  moreover have "last ?js < length xs" using positions_less [OF last_in_set [OF assms(1)]] by simp
  moreover have "k < hd ?js + length ?js" using assms(2) by simp
  ultimately show ?thesis by simp
qed

lemma holds_read_stream:
  assumes flash: "nor_flash hal slot base 1024" and inv: "holds slot base capacity evs gw" and "0 < max_count"
    and ok: "\<forall>x \<in> set evs. length (ev_payload (snd x)) = 20"
  shows "fst (ekk_gateway_read_stream hal gw s from_seq max_count) =
    (let js = positions (\<lambda>(m, e). m = s \<and> ucast (ucast (ev_origin_seq e AND 0xFFFF) :: u16) \<ge> from_seq) evs
     in if js = [] then []
        else map (\<lambda>k. event_of_entry (flash_entry_of (of_nat k) (fst (evs ! k)) (snd (evs ! k))))
          (take max_count [hd js..<hd js + length js]))"
proof -
  let ?P = "\<lambda>(m, e). m = s \<and> ucast (ucast (ev_origin_seq e AND 0xFFFF) :: u16) \<ge> from_seq"
  let ?js = "positions ?P evs"
  have ix: "indexes (indexed evs) (gw_index gw)" using inv by (simp add: holds_def)
  have js: "positions (\<lambda>e. ie_stream_id e = s \<and> ucast (ie_stream_seq e) \<ge> from_seq) (indexed evs) = ?js"
    by (rule positions_map) (simp_all add: nth_indexed nth_stored index_entry_of_def flash_entry_fields split: prod.splits)
  show ?thesis
  proof (cases "?js = []")
    case True
    then show ?thesis
      using find_stream_exact [OF ix, of s from_seq] assms(3) by (simp add: js ekk_gateway_read_stream_def)
  next
    case False
    have find: "ekk_stream_index_find_stream (gw_index gw) s from_seq = (EKK_OK, hd ?js, length ?js)"
      using find_stream_exact [OF ix, of s from_seq] False by (simp add: js)
    define ks where "ks = [hd ?js..<hd ?js + min (length ?js) max_count]"
    have sub: "k < length evs" if k: "k \<in> set ks" for k
      using positions_window [OF False, of k] k by (simp add: ks_def min_def split: if_splits)
    have read: "ekk_flash_log_read hal (gw_flash_log gw) (ie_flash_offset (sx_entries (gw_index gw) ! k)) =
        (EKK_OK, Some (stored evs ! k), gw_flash_log gw)" if "k \<in> set ks" for k
      using holds_read(1) [OF flash inv sub [OF that]] ok nth_mem [OF sub [OF that]] by simp
    have n: "(if length ?js > max_count then max_count else length ?js) = min (length ?js) max_count" by simp
    have "fst (ekk_gateway_read_stream hal gw s from_seq max_count) = snd (fold (read_indexed hal (gw_index gw)) ks (gw_flash_log gw, []))"
      using assms(3) unfolding ekk_gateway_read_stream_def find
      by (simp only: prod.case ekk_error.case Let_def n fold_shift if_False neq0_conv flip: ks_def) (simp split: prod.splits)
    also have "\<dots> = map (\<lambda>k. event_of_entry (stored evs ! k)) ks" by (subst read_fold [OF read]) simp_all
    also have "\<dots> = map (\<lambda>k. event_of_entry (flash_entry_of (of_nat k) (fst (evs ! k)) (snd (evs ! k)))) ks"
      using sub by (intro map_cong) (simp_all add: nth_stored)
    also have "ks = take max_count [hd ?js..<hd ?js + length ?js]" unfolding ks_def by (simp only: take_interval min.commute)
    finally show ?thesis using False by (simp add: Let_def)
  qed
qed

lemma holds_state_at:
  assumes flash: "nor_flash hal slot base 1024" and inv: "holds slot base capacity evs gw"
    and ok: "\<forall>x \<in> set evs. length (ev_payload (snd x)) = 20" and order: "sorted (map (\<lambda>(m, e). ev_timestamp_us e) evs)"
  shows "fst (ekk_gateway_state_at hal gw m t) =
    fold replay_state (map snd (filter (\<lambda>(m', e). m' = m \<and> ev_timestamp_us e \<le> t) evs)) (blank_projection\<lparr>mp_module_id := m\<rparr>)"
proof -
  let ?T = "\<lambda>(m, e). ev_timestamp_us e \<le> t" and ?M = "\<lambda>x. fst x = m"
  let ?js = "positions ?T evs"
  have ix: "indexes (indexed evs) (gw_index gw)" using inv by (simp add: holds_def)
  have ts: "map ie_timestamp_us (indexed evs) = map (\<lambda>(m, e). ev_timestamp_us e) evs"
    by (rule nth_equalityI) (simp_all add: nth_indexed nth_stored index_entry_of_def flash_entry_fields split: prod.splits)
  have js: "positions (\<lambda>e. 0 \<le> ie_timestamp_us e \<and> ie_timestamp_us e \<le> t) (indexed evs) = ?js"
    by (rule positions_map) (simp_all add: nth_indexed nth_stored index_entry_of_def flash_entry_fields split: prod.splits)
  have find: "is_interval_of (\<lambda>e. 0 \<le> ie_timestamp_us e \<and> ie_timestamp_us e \<le> t) (indexed evs) (ekk_stream_index_find_time (gw_index gw) 0 t)"
    by (rule find_time_exact [OF ix]) (simp add: ts order)
  have init: "blank_projection\<lparr>mp_module_id := m, mp_state := EKK_MODULE_INIT\<rparr> = blank_projection\<lparr>mp_module_id := m\<rparr>"
    by (simp add: blank_projection_def)
  have filt: "filter (\<lambda>(m', e). m' = m \<and> ev_timestamp_us e \<le> t) evs = map ((!) evs) (filter (\<lambda>k. ?M (evs ! k)) ?js)"
  proof -
    have "filter (\<lambda>k. ?M (evs ! k)) ?js = positions (\<lambda>x. ?M x \<and> ?T x) evs" by (rule positions_filter)
    then show ?thesis by (simp only: nth_positions) (intro filter_cong; auto)
  qed
  show ?thesis
  proof (cases "?js = []")
    case True
    then have "fst (ekk_stream_index_find_time (gw_index gw) 0 t) = EKK_ERR_NOT_FOUND"
      using find unfolding is_interval_of_def js by (simp add: Let_def)
    then show ?thesis unfolding filt
      using True by (cases "ekk_stream_index_find_time (gw_index gw) 0 t") (simp add: ekk_gateway_state_at_def init)
  next
    case False
    then obtain first where find: "ekk_stream_index_find_time (gw_index gw) 0 t = (EKK_OK, first, length ?js)"
        "?js = [first..<first + length ?js]"
      using find unfolding is_interval_of_def js Let_def by (cases "ekk_stream_index_find_time (gw_index gw) 0 t") auto
    have sub: "k < length evs" if "k \<in> set ?js" for k using positions_less [OF that] by simp
    have read: "ekk_flash_log_read hal (gw_flash_log gw) (ie_flash_offset (sx_entries (gw_index gw) ! k)) =
        (EKK_OK, Some (stored evs ! k), gw_flash_log gw)" "ie_stream_id (sx_entries (gw_index gw) ! k) = fst (evs ! k)"
      if "k \<in> set ?js" for k
      by (rule holds_read [OF flash inv sub [OF that]], use ok nth_mem [OF sub [OF that]] in simp)+
    have "fst (ekk_gateway_state_at hal gw m t) =
        snd (fold (replay_indexed hal (gw_index gw) m) ?js (gw_flash_log gw, blank_projection\<lparr>mp_module_id := m\<rparr>))"
      unfolding ekk_gateway_state_at_def find(1) init
      by (simp only: prod.case ekk_error.case Let_def fold_shift flip: find(2)) (simp split: prod.splits)
    also have "\<dots> = fold replay_state (map (\<lambda>k. event_of_entry (stored evs ! k))
        (filter (\<lambda>k. ie_stream_id (sx_entries (gw_index gw) ! k) = m) ?js)) (blank_projection\<lparr>mp_module_id := m\<rparr>)"
      by (subst replay_fold [OF read(1)]) simp_all
    also have "filter (\<lambda>k. ie_stream_id (sx_entries (gw_index gw) ! k) = m) ?js = filter (\<lambda>k. ?M (evs ! k)) ?js"
      using read(2) by (intro filter_cong) auto
    also have "fold replay_state (map (\<lambda>k. event_of_entry (stored evs ! k)) (filter (\<lambda>k. ?M (evs ! k)) ?js)) =
        fold replay_state (map (\<lambda>k. snd (evs ! k)) (filter (\<lambda>k. ?M (evs ! k)) ?js))"
      unfolding fold_map comp_def
    proof (rule ext, rule fold_cong)
      fix k assume "k \<in> set (filter (\<lambda>k. ?M (evs ! k)) ?js)"
      then have "k < length evs" using sub by simp
      then show "replay_state (event_of_entry (stored evs ! k)) = replay_state (snd (evs ! k))"
        using ok nth_mem [of k evs] by (simp add: nth_stored event_of_stored)
    qed simp_all
    finally show ?thesis unfolding filt by (simp add: comp_def)
  qed
qed


lemma gateway_holds_init:
  assumes flash: "nor_flash hal slot base 1024" and blank: "\<forall>q < 256 * 1024. slot f q = erased"
    and buffer: "length buffer = capacity" "0 < capacity" "capacity \<le> NO_INDEX"
  shows "\<exists>gw. ekk_gateway_init hal f gateway_id base buffer capacity now = Some (EKK_OK, Some gw) \<and>
    holds slot base capacity [] gw \<and> gw_projections gw = replicate EKK_GATEWAY_MAX_MODULES blank_projection \<and>
    gw_projection_count gw = 0"
proof -
  have n: "unat EKK_FLASH_LOG_CAPACITY div 256 = 1024" by simp
  obtain s where s: "ekk_flash_log_init hal f base EKK_FLASH_LOG_CAPACITY now = Some s" "filled slot base 1024 0 0 [] s"
      "fl_global_sequence (fs_log s) = 0"
    using init_blank [OF flash n _ _ blank] by auto
  obtain index where index: "ekk_stream_index_init buffer capacity = (EKK_OK, Some index)" "indexes [] index" "sx_capacity index = capacity"
    using indexes_init [OF buffer] by blast
  show ?thesis
    using s index buffer(2) by (auto simp: ekk_gateway_init_def holds_def stored_def indexed_def)
qed


section \<open>Projections follow the events\<close>

abbreviation projection_ids :: "'f ekk_gateway \<Rightarrow> u8 list" where
  "projection_ids gw \<equiv> map mp_module_id (take (unat (gw_projection_count gw)) (gw_projections gw))"

definition projection_of :: "u8 \<Rightarrow> ekk_event_v2 list \<Rightarrow> ekk_module_projection" where
  "projection_of m evs = fold project_event (filter (\<lambda>e. ev_origin_id e = m) evs) (blank_projection\<lparr>mp_module_id := m\<rparr>)"

definition projects :: "ekk_event_v2 list \<Rightarrow> 'f ekk_gateway \<Rightarrow> bool" where
  "projects evs gw \<longleftrightarrow> length (gw_projections gw) = EKK_GATEWAY_MAX_MODULES \<and> distinct (projection_ids gw) \<and>
     set (projection_ids gw) = ev_origin_id ` set evs \<and>
     (\<forall>k < unat (gw_projection_count gw). gw_projections gw ! k = projection_of (mp_module_id (gw_projections gw ! k)) evs)"

lemma project_event_id [simp]: "mp_module_id (project_event event proj) = mp_module_id proj"
  by (simp add: project_event_def state_transition_def field_published_def Let_def split: option.splits)

lemma projection_of_id [simp]: "mp_module_id (projection_of m evs) = m"
proof -
  have "mp_module_id (fold project_event es proj) = mp_module_id proj" for es proj
    by (induction es arbitrary: proj) simp_all
  then show ?thesis by (simp add: projection_of_def)
qed

lemma projection_of_snoc:
  "projection_of m (evs @ [e]) = (if ev_origin_id e = m then project_event e (projection_of m evs) else projection_of m evs)"
  by (simp add: projection_of_def)

lemma find_projection_result:
  assumes "projects evs gw"
  shows "find_projection (gw_projections gw) (gw_projection_count gw) m = None \<longleftrightarrow> m \<notin> ev_origin_id ` set evs"
    and "find_projection (gw_projections gw) (gw_projection_count gw) m = Some k \<Longrightarrow>
      k < unat (gw_projection_count gw) \<and> mp_module_id (gw_projections gw ! k) = m"
proof -
  have "unat (gw_projection_count gw) \<le> length (gw_projections gw)"
    using assms unat_u8_less [of "gw_projection_count gw"] by (simp add: projects_def)
  then have "find_projection (gw_projections gw) (gw_projection_count gw) m = None \<longleftrightarrow> m \<notin> set (projection_ids gw)"
    unfolding find_projection_def by (subst find_from_None_live) auto
  with assms show "find_projection (gw_projections gw) (gw_projection_count gw) m = None \<longleftrightarrow> m \<notin> ev_origin_id ` set evs"
    by (simp add: projects_def)
  show "find_projection (gw_projections gw) (gw_projection_count gw) m = Some k \<Longrightarrow>
      k < unat (gw_projection_count gw) \<and> mp_module_id (gw_projections gw ! k) = m"
    unfolding find_projection_def by (blast dest: find_from_SomeD)
qed

lemma projects_step:
  assumes inv: "projects evs gw" and k: "k < unat (gw_projection_count gw')" "length (gw_projections gw') = EKK_GATEWAY_MAX_MODULES"
    and ids: "distinct (projection_ids gw')" "set (projection_ids gw') = insert (ev_origin_id e) (ev_origin_id ` set evs)"
    and here: "gw_projections gw' ! k = projection_of (ev_origin_id e) (evs @ [e])"
    and others: "\<And>j. j < unat (gw_projection_count gw') \<Longrightarrow> j \<noteq> k \<Longrightarrow>
      gw_projections gw' ! j = projection_of (mp_module_id (gw_projections gw' ! j)) evs"
  shows "projects (evs @ [e]) gw'"
proof -
  have k256: "unat (gw_projection_count gw') \<le> length (gw_projections gw')" using k(2) unat_u8_less [of "gw_projection_count gw'"] by simp
  have "gw_projections gw' ! j = projection_of (mp_module_id (gw_projections gw' ! j)) (evs @ [e])"
    if j: "j < unat (gw_projection_count gw')" for j
  proof (cases "j = k")
    case True
    then show ?thesis using here by simp
  next
    case False
    have "projection_ids gw' ! j \<noteq> projection_ids gw' ! k"
      using ids(1) False j k(1) k256 by (subst nth_eq_iff_index_eq) simp_all
    then have "mp_module_id (gw_projections gw' ! j) \<noteq> ev_origin_id e" using j k(1) k256 here by simp
    then have "projection_of (mp_module_id (gw_projections gw' ! j)) (evs @ [e]) = projection_of (mp_module_id (gw_projections gw' ! j)) evs"
      by (simp add: projection_of_def)
    with others [OF j False] show ?thesis by simp
  qed
  with ids k(2) show ?thesis by (simp add: projects_def)
qed

lemma projects_update:
  assumes inv: "projects evs gw" and ids: "0 \<notin> ev_origin_id ` set evs" "ev_origin_id e \<noteq> 0"
  shows "projects (evs @ [e]) (update_projection gw e)"
proof (cases "find_projection (gw_projections gw) (gw_projection_count gw) (ev_origin_id e)")
  case (Some k)
  note k = find_projection_result(2) [OF inv Some]
  have len: "length (gw_projections gw) = EKK_GATEWAY_MAX_MODULES" using inv by (simp add: projects_def)
  then have k256: "k < length (gw_projections gw)" using k unat_u8_less [of "gw_projection_count gw"] by simp
  have here: "gw_projections gw ! k = projection_of (ev_origin_id e) evs" using inv k by (metis projects_def)
  have upd: "update_projection gw e = gw\<lparr>gw_projections := (gw_projections gw)[k := project_event e (gw_projections gw ! k)],
      gw_projection_count := gw_projection_count gw\<rparr>"
    by (simp add: update_projection_def Some)
  have same: "map mp_module_id ((gw_projections gw)[k := project_event e (gw_projections gw ! k)]) = map mp_module_id (gw_projections gw)"
    using k256 by (simp add: map_update list_update_same_conv)
  then have "projection_ids (update_projection gw e) = projection_ids gw" by (simp add: upd flip: take_map)
  moreover have "ev_origin_id e \<in> ev_origin_id ` set evs" using find_projection_result(1) [OF inv, of "ev_origin_id e"] Some by auto
  ultimately show ?thesis
  proof (intro projects_step [OF inv, of k])
    show "gw_projections (update_projection gw e) ! k = projection_of (ev_origin_id e) (evs @ [e])"
      using here k256 by (simp add: upd projection_of_snoc)
  qed (use inv k k256 len in \<open>auto simp: upd projects_def\<close>)
next
  case None
  then have new: "ev_origin_id e \<notin> ev_origin_id ` set evs" using find_projection_result(1) [OF inv] by blast
  let ?k = "unat (gw_projection_count gw)"
  have sid: "distinct (projection_ids gw)" "set (projection_ids gw) = ev_origin_id ` set evs"
    and len: "length (gw_projections gw) = EKK_GATEWAY_MAX_MODULES" using inv by (simp_all add: projects_def)
  then have "length (projection_ids gw) = ?k" using unat_u8_less [of "gw_projection_count gw"] by simp
  with stream_count_room [OF sid(1), of "ev_origin_id e"] sid(2) ids new have k255: "?k < 255" by simp
  then have number: "unat (gw_projection_count gw + 1) = Suc ?k" by (simp add: unat_word_ariths)
  let ?new = "project_event e (blank_projection\<lparr>mp_module_id := ev_origin_id e, mp_state := EKK_MODULE_INIT\<rparr>)"
  have upd: "update_projection gw e = gw\<lparr>gw_projections := (gw_projections gw)[?k := ?new], gw_projection_count := gw_projection_count gw + 1\<rparr>"
    using k255 len by (simp add: update_projection_def None create_projection_def Let_def)
  have pids: "projection_ids (update_projection gw e) = projection_ids gw @ [ev_origin_id e]"
    using k255 len by (simp add: upd number take_Suc_conv_app_nth)
  have none: "filter (\<lambda>x. ev_origin_id x = ev_origin_id e) evs = []" using new by (auto simp: filter_empty_conv image_iff)
  have init: "blank_projection\<lparr>mp_module_id := m, mp_state := EKK_MODULE_INIT\<rparr> = blank_projection\<lparr>mp_module_id := m\<rparr>" for m
    by (simp add: blank_projection_def)
  show ?thesis
  proof (rule projects_step [OF inv, of ?k])
    show "distinct (projection_ids (update_projection gw e))"
        "set (projection_ids (update_projection gw e)) = insert (ev_origin_id e) (ev_origin_id ` set evs)"
      unfolding pids using sid new by auto
    show "gw_projections (update_projection gw e) ! ?k = projection_of (ev_origin_id e) (evs @ [e])"
      using k255 len by (simp add: upd projection_of_def none init)
  qed (use inv k255 len in \<open>auto simp: upd number projects_def\<close>)
qed


lemma projects_run:
  assumes "projects evs gw" "0 \<notin> ev_origin_id ` set (evs @ map (\<lambda>(m, e, now). e) ops)"
  shows "projects (evs @ map (\<lambda>(m, e, now). e) ops) (fold (\<lambda>(m, e, now) gw. update_projection gw e) ops gw)"
  using assms
proof (induction ops arbitrary: evs gw)
  case (Cons op ops)
  obtain m e now where op: "op = (m, e, now)" by (cases op)
  have "projects (evs @ [e]) (update_projection gw e)"
    using Cons.prems op by (intro projects_update) auto
  from Cons.IH [OF this] Cons.prems(2) op show ?case by simp
qed simp

lemma projects_init:
  "gw_projections gw = replicate EKK_GATEWAY_MAX_MODULES blank_projection \<Longrightarrow> gw_projection_count gw = 0 \<Longrightarrow> projects [] gw"
  by (simp add: projects_def)

lemma projects_state:
  assumes "projects evs gw"
  shows "ekk_gateway_module_state gw m =
    (if m \<in> ev_origin_id ` set evs then (EKK_OK, Some (projection_of m evs)) else (EKK_ERR_NOT_FOUND, None))"
proof (cases "find_projection (gw_projections gw) (gw_projection_count gw) m")
  case None
  with find_projection_result(1) [OF assms, of m] show ?thesis by (simp add: ekk_gateway_module_state_def)
next
  case (Some k)
  with find_projection_result [OF assms, of m] assms show ?thesis
    by (auto simp: ekk_gateway_module_state_def projects_def)
qed

text \<open>
  C16. The gateway is an event store. Started on an erased flash, it numbers the appended events 0, 1,
  2, ... and keeps them (up to the capacity of the index and of the flash; 20-byte payloads; sending
  and originating module numbers other than 0): the projection of a module is the fold of all events it
  originated, and is not found when there is none; when events are appended in the order of their
  time stamps, the state of a module at a time is the replay of the events received from it up to that
  time. A read of a stream returns as many events as the stream has from the asked number on,
  but always consecutive ones of the log, starting with the first match: events of other modules take
  the place of the stream's own ones when they were stored in between.
\<close>

theorem gateway_event_store:
  assumes "nor_flash hal slot base 1024" "\<forall>q < 256 * 1024. slot f q = erased"
    "length buffer = capacity" "0 < capacity" "capacity \<le> NO_INDEX" "length ops \<le> capacity" "length ops \<le> 255 * 1024"
    "\<forall>(m, e, now) \<in> set ops. m \<noteq> 0 \<and> ev_origin_id e \<noteq> 0 \<and> length (ev_payload e) = 20"
  shows "\<exists>gw0 gw. ekk_gateway_init hal f gateway_id base buffer capacity boot = Some (EKK_OK, Some gw0) \<and>
    gateway_run hal gw0 ops = Some (map of_nat [0..<length ops], gw) \<and>
    (\<forall>m. let evs = map (\<lambda>(m, e, now). e) ops in
       ekk_gateway_module_state gw m =
         (if m \<in> ev_origin_id ` set evs then (EKK_OK, Some (projection_of m evs)) else (EKK_ERR_NOT_FOUND, None))) \<and>
    (sorted (map (\<lambda>(m, e, now). ev_timestamp_us e) ops) \<longrightarrow> (\<forall>m t. fst (ekk_gateway_state_at hal gw m t) =
       fold replay_state (map (\<lambda>(m, e, now). e) (filter (\<lambda>(m', e, now). m' = m \<and> ev_timestamp_us e \<le> t) ops))
         (blank_projection\<lparr>mp_module_id := m\<rparr>))) \<and>
    (\<forall>s from_seq max_count. 0 < max_count \<longrightarrow>
       (let js = positions (\<lambda>(m, e, now). m = s \<and> ucast (ucast (ev_origin_seq e AND 0xFFFF) :: u16) \<ge> from_seq) ops
        in fst (ekk_gateway_read_stream hal gw s from_seq max_count) =
           (if js = [] then []
            else map (\<lambda>k. event_of_entry (flash_entry_of (of_nat k) (fst (ops ! k)) (fst (snd (ops ! k)))))
              (take max_count [hd js..<hd js + length js]))))"
proof -
  obtain gw0 where gw0: "ekk_gateway_init hal f gateway_id base buffer capacity boot = Some (EKK_OK, Some gw0)"
      "holds slot base capacity [] gw0" "gw_projections gw0 = replicate EKK_GATEWAY_MAX_MODULES blank_projection"
      "gw_projection_count gw0 = 0"
    using gateway_holds_init [OF assms(1-5)] by blast
  define evs where "evs = map (\<lambda>(m, e, now). (m, e)) ops"
  have len: "length evs = length ops" and ok: "\<forall>x \<in> set evs. length (ev_payload (snd x)) = 20"
    using assms(8) by (auto simp: evs_def)
  have cond: "\<forall>(m, e, now) \<in> set ops. m \<noteq> 0 \<and> length (ev_payload e) = 20" using assms(8) by auto
  have "\<exists>gw'. gateway_run hal gw0 ops = Some (map of_nat [0..<length ops], gw') \<and>
    holds slot base capacity evs gw' \<and>
    (gw_projections gw', gw_projection_count gw') =
      (let gw'' = fold (\<lambda>(m, e, now) gw. update_projection gw e) ops gw0 in (gw_projections gw'', gw_projection_count gw''))"
    using holds_run [OF assms(1) gw0(2) _ _ _ cond] assms(6,7) by (simp add: evs_def)
  then obtain gw where run: "gateway_run hal gw0 ops = Some (map of_nat [0..<length ops], gw)" "holds slot base capacity evs gw"
      "gw_projections gw = gw_projections (fold (\<lambda>(m, e, now) gw. update_projection gw e) ops gw0)"
      "gw_projection_count gw = gw_projection_count (fold (\<lambda>(m, e, now) gw. update_projection gw e) ops gw0)"
    by (auto simp: evs_def Let_def)
  have "projects ([] @ map (\<lambda>(m, e, now). e) ops) (fold (\<lambda>(m, e, now) gw. update_projection gw e) ops gw0)"
    by (rule projects_run [OF projects_init [OF gw0(3,4)]]) (use assms(8) in auto)
  then have "projects (map (\<lambda>(m, e, now). e) ops) gw" using run(3,4) by (simp add: projects_def)
  note state = projects_state [OF this]
  have pos: "positions (\<lambda>(m, e). P m e) evs = positions (\<lambda>(m, e, now). P m e) ops" for P
    by (rule positions_map) (auto simp: evs_def split: prod.splits)
  have nth: "fst (evs ! k) = fst (ops ! k)" "snd (evs ! k) = fst (snd (ops ! k))" if "k < length ops" for k
    using that by (simp_all add: evs_def split: prod.splits)
  show ?thesis
  proof (rule exI [of _ gw0], rule exI [of _ gw], intro conjI allI impI)
    fix m t assume "sorted (map (\<lambda>(m, e, now). ev_timestamp_us e) ops)"
    then have "sorted (map (\<lambda>(m, e). ev_timestamp_us e) evs)" by (simp add: evs_def comp_def case_prod_unfold)
    from holds_state_at [OF assms(1) run(2) ok this, of m t]
    show "fst (ekk_gateway_state_at hal gw m t) =
       fold replay_state (map (\<lambda>(m, e, now). e) (filter (\<lambda>(m', e, now). m' = m \<and> ev_timestamp_us e \<le> t) ops))
         (blank_projection\<lparr>mp_module_id := m\<rparr>)"
      by (simp add: evs_def filter_map comp_def case_prod_unfold)
  next
    fix s and from_seq :: u32 and max_count :: nat assume "0 < max_count"
    note read = holds_read_stream [OF assms(1) run(2) this ok, of s from_seq]
    let ?js = "positions (\<lambda>(m, e, now). m = s \<and> ucast (ucast (ev_origin_seq e AND 0xFFFF) :: u16) \<ge> from_seq) ops"
    have "map (\<lambda>k. event_of_entry (flash_entry_of (of_nat k) (fst (evs ! k)) (snd (evs ! k)))) (take max_count [hd ?js..<hd ?js + length ?js]) =
        map (\<lambda>k. event_of_entry (flash_entry_of (of_nat k) (fst (ops ! k)) (fst (snd (ops ! k))))) (take max_count [hd ?js..<hd ?js + length ?js])"
      if "?js \<noteq> []"
      using positions_window [OF that] nth by (intro map_cong refl) (auto dest: in_set_takeD)
    with read show "let js = positions (\<lambda>(m, e, now). m = s \<and> ucast (ucast (ev_origin_seq e AND 0xFFFF) :: u16) \<ge> from_seq) ops
        in fst (ekk_gateway_read_stream hal gw s from_seq max_count) =
           (if js = [] then []
            else map (\<lambda>k. event_of_entry (flash_entry_of (of_nat k) (fst (ops ! k)) (fst (snd (ops ! k)))))
              (take max_count [hd js..<hd js + length js]))"
      unfolding pos Let_def by simp
  qed (use gw0(1) run(1) state in \<open>simp_all add: Let_def\<close>)
qed


abbreviation (input) sample_event :: "u8 \<Rightarrow> u32 \<Rightarrow> ekk_event_v2" where
  "sample_event m seq \<equiv> \<lparr>ev_sequence = seq, ev_timestamp_us = 0, ev_event_type = 1, ev_flags = 0, ev_origin_id = m,
     ev_hop_count = 0, ev_origin_seq = seq, ev_payload = 2 # replicate 19 0\<rparr>"

theorem gateway_event_store_witness:
  "\<exists>gw0 gw seqs. ekk_gateway_init array_flash (\<lambda>_. erased) 1 0 (replicate 8 (sample_entry 0 0 0)) 8 0 = Some (EKK_OK, Some gw0) \<and>
    gateway_run array_flash gw0 [(5, sample_event 5 1, 0), (7, sample_event 7 1, 0), (5, sample_event 5 2, 0)] = Some (seqs, gw) \<and>
    map ev_origin_id (fst (ekk_gateway_read_stream array_flash gw 5 0 10)) = [5, 7]"
proof -
  let ?ops = "[(5 :: u8, sample_event 5 1, 0 :: u64), (7, sample_event 7 1, 0), (5, sample_event 5 2, 0)]"
  obtain gw0 gw where gw: "ekk_gateway_init array_flash (\<lambda>_. erased) 1 0 (replicate 8 (sample_entry 0 0 0)) 8 0 = Some (EKK_OK, Some gw0)"
      "gateway_run array_flash gw0 ?ops = Some (map of_nat [0..<length ?ops], gw)"
      "\<forall>s from_seq max_count. 0 < max_count \<longrightarrow>
       (let js = positions (\<lambda>(m, e, now). m = s \<and> ucast (ucast (ev_origin_seq e AND 0xFFFF) :: u16) \<ge> from_seq) ?ops
        in fst (ekk_gateway_read_stream array_flash gw s from_seq max_count) =
           (if js = [] then []
            else map (\<lambda>k. event_of_entry (flash_entry_of (of_nat k) (fst (?ops ! k)) (fst (snd (?ops ! k)))))
              (take max_count [hd js..<hd js + length js])))"
    using gateway_event_store [OF array_flash [OF order_refl], of "\<lambda>_. erased" "replicate 8 (sample_entry 0 0 0)" 8 ?ops 1 0] by auto
  have js: "positions (\<lambda>(m, e, now). m = 5 \<and> ucast (ucast (ev_origin_seq e AND 0xFFFF) :: u16) \<ge> (0 :: u32)) ?ops = [0, 2]"
    by (simp add: positions_def upt_rec)
  have read: "fst (ekk_gateway_read_stream array_flash gw 5 0 10) =
      map (\<lambda>k. event_of_entry (flash_entry_of (of_nat k) (fst (?ops ! k)) (fst (snd (?ops ! k))))) [0, 1]"
    using gw(3) [rule_format, of 10 5 0] unfolding js Let_def by (simp add: upt_rec)
  have "map ev_origin_id (fst (ekk_gateway_read_stream array_flash gw 5 0 10)) = [5, 7]"
    unfolding read by (simp add: event_of_entry_def flash_entry_fields)
  with gw(1,2) show ?thesis
    by - (rule exI [of _ gw0], rule exI [of _ gw], rule exI [of _ "map of_nat [0..<length ?ops]"], intro conjI; assumption)
qed

end
