(* ===== verification/Ekkfs_Block.thy ===== *)
theory Ekkfs_Block
  imports Ekk_Bytes Ekk_Crc
begin

text \<open>
  Block input and output of the file system (\<open>src/ekkfs.c\<close>, \<open>src/ekkfs.h\<close>): the state of a mounted
  file system, and the block cache in front of the SD card. The SD card driver and the clock are a record
  of functions over the state of the hardware; \<open>sd_partition\<close> says what the code relies on. A driver
  call answers whether it succeeded; the file system only compares its result with \<open>SD_OK\<close>.
\<close>

section \<open>State\<close>

abbreviation (input) CACHE_SIZE :: nat where "CACHE_SIZE \<equiv> 16"
abbreviation (input) CACHE_INVALID_BLOCK :: u32 where "CACHE_INVALID_BLOCK \<equiv> 0xFFFFFFFF"

record 's sd_driver =
  sd_read_block :: "'s \<Rightarrow> u32 \<Rightarrow> u8 list option \<times> 's"
  sd_write_block :: "'s \<Rightarrow> u32 \<Rightarrow> u8 list \<Rightarrow> bool \<times> 's"
  hal_time_us :: "'s \<Rightarrow> u64 \<times> 's"

record ekkfs_superblock =
  sb_magic :: u32
  sb_version :: u32
  sb_block_size :: u32
  sb_total_blocks :: u32
  sb_inode_count :: u32
  sb_inode_start :: u32
  sb_bitmap_start :: u32
  sb_journal_start :: u32
  sb_data_start :: u32
  sb_free_blocks :: u32
  sb_mount_time :: u64
  sb_mount_count :: u32
  sb_crc32 :: u32
  sb_reserved :: "u8 list"

record ekkfs_journal_header =
  jh_magic :: u32
  jh_head :: u32
  jh_tail :: u32
  jh_sequence :: u32
  jh_tx_active :: u32
  jh_tx_start_seq :: u32
  jh_reserved :: "u8 list"
  jh_crc32 :: u32
  jh_padding :: "u8 list"

record ekkfs_journal_state =
  js_header :: ekkfs_journal_header
  js_current_tx_seq :: u32
  js_tx_active :: bool
  js_dirty :: bool

record cache_entry =
  ce_block_num :: u32
  ce_access_count :: u32
  ce_dirty :: bool
  ce_data :: "u8 list"

record block_cache =
  bc_entries :: "cache_entry list"
  bc_access_counter :: u32
  bc_hits :: u32
  bc_misses :: u32
  bc_enabled :: bool

record 's ekkfs =
  ef_mounted :: bool
  ef_partition_lba :: u32
  ef_superblock :: ekkfs_superblock
  ef_bitmap_buf :: "u8 list"
  ef_bitmap_blocks :: u32
  ef_journal :: ekkfs_journal_state
  ef_cache :: block_cache
  ef_sd :: 's

section \<open>The cache\<close>

definition cache_init :: "block_cache \<Rightarrow> block_cache" where
  "cache_init cache =
     \<lparr>bc_entries = map (\<lambda>e. e\<lparr>ce_block_num := CACHE_INVALID_BLOCK, ce_access_count := 0, ce_dirty := False\<rparr>) (bc_entries cache),
      bc_access_counter = 0, bc_hits = 0, bc_misses = 0, bc_enabled = True\<rparr>"

definition touch :: "block_cache \<Rightarrow> nat \<Rightarrow> (cache_entry \<Rightarrow> cache_entry) \<Rightarrow> block_cache" where
  "touch cache i change =
     (let n = bc_access_counter cache + 1
      in cache\<lparr>bc_access_counter := n, bc_entries := (bc_entries cache)[i := (change (bc_entries cache ! i))\<lparr>ce_access_count := n\<rparr>]\<rparr>)"

definition cache_find :: "block_cache \<Rightarrow> u32 \<Rightarrow> nat option \<times> block_cache" where
  "cache_find cache block_num =
     (if \<not> bc_enabled cache then (None, cache)
      else
        (case find_from (\<lambda>e. ce_block_num e = block_num) (bc_entries cache) 0 CACHE_SIZE of
           Some i \<Rightarrow> (Some i, (touch cache i id)\<lparr>bc_hits := bc_hits cache + 1\<rparr>)
         | None \<Rightarrow> (None, cache\<lparr>bc_misses := bc_misses cache + 1\<rparr>)))"

function find_lru_from :: "cache_entry list \<Rightarrow> nat \<Rightarrow> u32 \<Rightarrow> nat \<Rightarrow> nat" where
  "find_lru_from entries i min_access lru_idx =
     (if i < CACHE_SIZE
      then
        (if ce_block_num (entries ! i) = CACHE_INVALID_BLOCK then i
         else if ce_access_count (entries ! i) < min_access then find_lru_from entries (Suc i) (ce_access_count (entries ! i)) i
         else find_lru_from entries (Suc i) min_access lru_idx)
      else lru_idx)"
  by pat_completeness auto
termination
  by (relation "measure (\<lambda>(entries, i, min_access, lru_idx). CACHE_SIZE - i)") auto

declare find_lru_from.simps [simp del]

definition cache_find_lru :: "block_cache \<Rightarrow> nat" where
  "cache_find_lru cache = find_lru_from (bc_entries cache) 1 (ce_access_count (bc_entries cache ! 0)) 0"

definition cache_writeback :: "'s sd_driver \<Rightarrow> 's ekkfs \<Rightarrow> nat \<Rightarrow> bool \<times> 's ekkfs" where
  "cache_writeback hal s idx =
     (let cache = ef_cache s; entry = bc_entries cache ! idx
      in if ce_dirty entry \<and> ce_block_num entry \<noteq> CACHE_INVALID_BLOCK
         then
           (let lba = ef_partition_lba s + ce_block_num entry;
                (ok, sd) = sd_write_block hal (ef_sd s) lba (ce_data entry);
                s = s\<lparr>ef_sd := sd\<rparr>
            in (ok, if ok
                  then s\<lparr>ef_cache := cache\<lparr>bc_entries := (bc_entries cache)[idx := entry\<lparr>ce_dirty := False\<rparr>]\<rparr>\<rparr> else s))
         else (True, s))"

definition cache_flush :: "'s sd_driver \<Rightarrow> 's ekkfs \<Rightarrow> bool \<times> 's ekkfs" where
  "cache_flush hal s =
     fold (\<lambda>i (result, s).
         if ce_dirty (bc_entries (ef_cache s) ! i)
         then (let (ok, s) = cache_writeback hal s i in (if \<not> ok then False else result, s))
         else (result, s))
       [0..<CACHE_SIZE] (True, s)"

definition cache_invalidate :: "'s sd_driver \<Rightarrow> 's ekkfs \<Rightarrow> 's ekkfs" where
  "cache_invalidate hal s =
     (let (ok, s) = cache_flush hal s; cache = ef_cache s
      in s\<lparr>ef_cache := cache\<lparr>bc_entries := map (\<lambda>e. e\<lparr>ce_block_num := CACHE_INVALID_BLOCK, ce_dirty := False\<rparr>) (bc_entries cache)\<rparr>\<rparr>)"

definition ekkfs_cache_stats :: "'s ekkfs \<Rightarrow> u32 \<times> u32" where
  "ekkfs_cache_stats s = (bc_hits (ef_cache s), bc_misses (ef_cache s))"

section \<open>Blocks\<close>

text \<open>The entry evicted is written back; the result of that is ignored.\<close>

definition cache_add :: "'s sd_driver \<Rightarrow> 's ekkfs \<Rightarrow> u32 \<Rightarrow> u8 list \<Rightarrow> 's ekkfs" where
  "cache_add hal s block_num buffer =
     (if bc_enabled (ef_cache s)
      then
        (let idx = cache_find_lru (ef_cache s);
             (ok, s) = cache_writeback hal s idx
         in s\<lparr>ef_cache := touch (ef_cache s) idx (\<lambda>e. e\<lparr>ce_block_num := block_num, ce_dirty := False, ce_data := buffer\<rparr>)\<rparr>)
      else s)"

definition read_block :: "'s sd_driver \<Rightarrow> 's ekkfs \<Rightarrow> u32 \<Rightarrow> u8 list option \<times> 's ekkfs" where
  "read_block hal s block_num =
     (let (idx, cache) = cache_find (ef_cache s) block_num; s = s\<lparr>ef_cache := cache\<rparr>
      in case idx of
           Some i \<Rightarrow> (Some (ce_data (bc_entries cache ! i)), s)
         | None \<Rightarrow>
             (case sd_read_block hal (ef_sd s) (ef_partition_lba s + block_num) of
                (None, sd) \<Rightarrow> (None, s\<lparr>ef_sd := sd\<rparr>)
              | (Some buffer, sd) \<Rightarrow> (Some buffer, cache_add hal (s\<lparr>ef_sd := sd\<rparr>) block_num buffer)))"

definition write_block :: "'s sd_driver \<Rightarrow> 's ekkfs \<Rightarrow> u32 \<Rightarrow> u8 list \<Rightarrow> bool \<times> 's ekkfs" where
  "write_block hal s block_num buffer =
     (let (idx, cache) = cache_find (ef_cache s) block_num; s = s\<lparr>ef_cache := cache\<rparr>
      in case idx of
           Some i \<Rightarrow>
             (let s = s\<lparr>ef_cache := touch cache i (\<lambda>e. e\<lparr>ce_data := buffer, ce_dirty := True\<rparr>)\<rparr>;
                  (ok, sd) = sd_write_block hal (ef_sd s) (ef_partition_lba s + block_num) buffer
              in (ok, s\<lparr>ef_sd := sd\<rparr>))
         | None \<Rightarrow>
             (let (ok, sd) = sd_write_block hal (ef_sd s) (ef_partition_lba s + block_num) buffer; s = s\<lparr>ef_sd := sd\<rparr>
              in if \<not> ok then (False, s) else (True, cache_add hal s block_num buffer)))"

section \<open>What the code relies on\<close>

text \<open>
  The blocks below \<open>n\<close> of a partition at \<open>base\<close>: reads return what was written, neither reads nor writes fail
  or change anything else, and asking for the time changes no block.
\<close>

definition sd_partition :: "'s sd_driver \<Rightarrow> ('s \<Rightarrow> u32 \<Rightarrow> u8 list) \<Rightarrow> u32 \<Rightarrow> u32 \<Rightarrow> bool" where
  "sd_partition hal blk base n \<longleftrightarrow>
     (\<forall>d b. b < n \<longrightarrow> length (blk d b) = 512 \<and>
        (\<exists>d'. sd_read_block hal d (base + b) = (Some (blk d b), d') \<and> (\<forall>b' < n. blk d' b' = blk d b'))) \<and>
     (\<forall>d b data. b < n \<and> length data = 512 \<longrightarrow>
        (\<exists>d'. sd_write_block hal d (base + b) data = (True, d') \<and> (\<forall>b' < n. blk d' b' = (if b' = b then data else blk d b')))) \<and>
     (\<forall>d. \<forall>b < n. blk (snd (hal_time_us hal d)) b = blk d b)"

text \<open>
  The card holds \<open>f\<close>, and so does the cache, entry by entry: it is written through. No block has two
  entries.
\<close>

abbreviation nth_block :: "block_cache \<Rightarrow> nat \<Rightarrow> u32" where
  "nth_block cache i \<equiv> ce_block_num (bc_entries cache ! i)"

definition cache_ok :: "u32 \<Rightarrow> (u32 \<Rightarrow> u8 list) \<Rightarrow> block_cache \<Rightarrow> bool" where
  "cache_ok n f cache \<longleftrightarrow> length (bc_entries cache) = CACHE_SIZE \<and>
     (bc_enabled cache \<longrightarrow>
       (\<forall>i < CACHE_SIZE. nth_block cache i \<noteq> CACHE_INVALID_BLOCK \<longrightarrow>
          nth_block cache i < n \<and> ce_data (bc_entries cache ! i) = f (nth_block cache i)) \<and>
       (\<forall>i < CACHE_SIZE. \<forall>j < CACHE_SIZE. nth_block cache i \<noteq> CACHE_INVALID_BLOCK \<and> nth_block cache i = nth_block cache j \<longrightarrow> i = j))"

definition disk_is ::
  "'s sd_driver \<Rightarrow> ('s \<Rightarrow> u32 \<Rightarrow> u8 list) \<Rightarrow> u32 \<Rightarrow> u32 \<Rightarrow> (u32 \<Rightarrow> u8 list) \<Rightarrow> 's ekkfs \<Rightarrow> bool"
where
  "disk_is hal blk base n f s \<longleftrightarrow>
     sd_partition hal blk base n \<and> ef_partition_lba s = base \<and> (\<forall>b < n. blk (ef_sd s) b = f b) \<and> cache_ok n f (ef_cache s)"

text \<open>Only the cache and the card change.\<close>

definition io_only :: "'s ekkfs \<Rightarrow> 's ekkfs \<Rightarrow> bool" where
  "io_only s s' \<longleftrightarrow> ef_mounted s' = ef_mounted s \<and> ef_partition_lba s' = ef_partition_lba s \<and>
     ef_superblock s' = ef_superblock s \<and> ef_bitmap_buf s' = ef_bitmap_buf s \<and> ef_bitmap_blocks s' = ef_bitmap_blocks s \<and>
     ef_journal s' = ef_journal s \<and> bc_enabled (ef_cache s') = bc_enabled (ef_cache s)"

lemma io_only_refl [simp]: "io_only s s"
  by (simp add: io_only_def)

lemma io_only_trans: "io_only s s' \<Longrightarrow> io_only s' s'' \<Longrightarrow> io_only s s''"
  by (simp add: io_only_def)

lemma disk_lengths: "disk_is hal blk base n f s \<Longrightarrow> \<forall>b < n. length (f b) = 512"
  unfolding disk_is_def sd_partition_def by metis

section \<open>The cache is invisible\<close>

lemma lru_less: "lru_idx < CACHE_SIZE \<Longrightarrow> find_lru_from entries i m lru_idx < CACHE_SIZE"
  by (induction entries i m lru_idx rule: find_lru_from.induct) (subst find_lru_from.simps, simp)

lemma cache_find_lru_less: "cache_find_lru cache < CACHE_SIZE"
  unfolding cache_find_lru_def by (rule lru_less) simp

lemma below_invalid: "b < n \<Longrightarrow> b \<noteq> CACHE_INVALID_BLOCK" for b n :: u32
  using unat_u32_less [of n] by (auto simp: word_less_nat_alt)

lemma touch_put:
  assumes c: "cache_ok n f cache" and i: "i < CACHE_SIZE" and b: "b < n"
    and change: "ce_block_num (change (bc_entries cache ! i)) = b" "ce_data (change (bc_entries cache ! i)) = x"
    and others: "bc_enabled cache \<Longrightarrow> \<forall>j < CACHE_SIZE. j \<noteq> i \<longrightarrow> nth_block cache j \<noteq> b"
  shows "cache_ok n (f(b := x)) (touch cache i change)"
proof (cases "bc_enabled cache")
  case False
  then show ?thesis using c by (simp add: cache_ok_def touch_def Let_def)
next
  case True
  have len: "length (bc_entries cache) = CACHE_SIZE" using c by (simp add: cache_ok_def)
  have new: "nth_block (touch cache i change) j = (if j = i then b else nth_block cache j)"
      "ce_data (bc_entries (touch cache i change) ! j) = (if j = i then x else ce_data (bc_entries cache ! j))" if "j < CACHE_SIZE" for j
    using change i len that by (auto simp: touch_def Let_def nth_list_update)
  have inj: "\<And>j k. j < CACHE_SIZE \<Longrightarrow> k < CACHE_SIZE \<Longrightarrow> nth_block cache j \<noteq> CACHE_INVALID_BLOCK \<Longrightarrow> nth_block cache j = nth_block cache k \<Longrightarrow> j = k"
    and right: "\<And>j. j < CACHE_SIZE \<Longrightarrow> nth_block cache j \<noteq> CACHE_INVALID_BLOCK \<Longrightarrow>
      nth_block cache j < n \<and> ce_data (bc_entries cache ! j) = f (nth_block cache j)"
    using c True unfolding cache_ok_def by blast+
  show ?thesis
    unfolding cache_ok_def
  proof (intro conjI impI allI)
    show "length (bc_entries (touch cache i change)) = CACHE_SIZE" using len by (simp add: touch_def Let_def)
    fix j assume j: "j < CACHE_SIZE" "nth_block (touch cache i change) j \<noteq> CACHE_INVALID_BLOCK"
    show "nth_block (touch cache i change) j < n" using j new(1) [OF j(1)] right [OF j(1)] b by (cases "j = i") simp_all
    show "ce_data (bc_entries (touch cache i change) ! j) = (f(b := x)) (nth_block (touch cache i change) j)"
      using j new [OF j(1)] right [OF j(1)] others [OF True] by (cases "j = i") simp_all
  next
    fix j k assume "j < CACHE_SIZE" "k < CACHE_SIZE"
      "nth_block (touch cache i change) j \<noteq> CACHE_INVALID_BLOCK \<and> nth_block (touch cache i change) j = nth_block (touch cache i change) k"
    then show "j = k" using new(1) [of j] new(1) [of k] inj [of j k] others [OF True] by (auto split: if_splits)
  qed
qed

lemma cache_ok_counters [simp]:
  "cache_ok n f (c\<lparr>bc_hits := x\<rparr>) = cache_ok n f c" "cache_ok n f (c\<lparr>bc_misses := x\<rparr>) = cache_ok n f c"
  by (simp_all add: cache_ok_def)

lemma cache_find_hit:
  assumes c: "cache_ok n f cache" and b: "b < n" and hit: "fst (cache_find cache b) = Some i"
  shows "bc_enabled cache" "i < CACHE_SIZE" "nth_block (snd (cache_find cache b)) i = b"
    "ce_data (bc_entries (snd (cache_find cache b)) ! i) = f b" "cache_ok n f (snd (cache_find cache b))"
    "\<forall>j < CACHE_SIZE. j \<noteq> i \<longrightarrow> nth_block (snd (cache_find cache b)) j \<noteq> b" "bc_enabled (snd (cache_find cache b))"
proof -
  have i: "bc_enabled cache" "find_from (\<lambda>e. ce_block_num e = b) (bc_entries cache) 0 CACHE_SIZE = Some i"
    using hit by (simp_all add: cache_find_def split: if_splits option.splits)
  then have lt: "i < CACHE_SIZE" "nth_block cache i = b" by (auto dest: find_from_SomeD)
  have inv: "b \<noteq> CACHE_INVALID_BLOCK" by (rule below_invalid [OF b])
  have len: "length (bc_entries cache) = CACHE_SIZE" and data: "ce_data (bc_entries cache ! i) = f b"
    and others: "\<forall>j < CACHE_SIZE. j \<noteq> i \<longrightarrow> nth_block cache j \<noteq> b"
    using c i(1) lt inv unfolding cache_ok_def by auto
  have snd: "snd (cache_find cache b) = (touch cache i id)\<lparr>bc_hits := bc_hits cache + 1\<rparr>"
    using i by (simp add: cache_find_def)
  have "cache_ok n (f(b := f b)) (touch cache i id)"
    using lt data others by (intro touch_put [OF c _ b]) simp_all
  then show "cache_ok n f (snd (cache_find cache b))" by (simp add: snd)
  show "bc_enabled cache" "i < CACHE_SIZE" by (fact i(1), fact lt(1))
  show "nth_block (snd (cache_find cache b)) i = b" "ce_data (bc_entries (snd (cache_find cache b)) ! i) = f b"
    using lt len data by (simp_all add: snd touch_def Let_def)
  show "\<forall>j < CACHE_SIZE. j \<noteq> i \<longrightarrow> nth_block (snd (cache_find cache b)) j \<noteq> b" "bc_enabled (snd (cache_find cache b))"
    using others i(1) by (simp_all add: snd touch_def Let_def)
qed

lemma cache_find_miss:
  assumes c: "cache_ok n f cache" and miss: "fst (cache_find cache b) = None"
  shows "cache_ok n f (snd (cache_find cache b))" "bc_enabled (snd (cache_find cache b)) = bc_enabled cache"
    "bc_enabled cache \<Longrightarrow> \<forall>j < CACHE_SIZE. nth_block (snd (cache_find cache b)) j \<noteq> b"
    "bc_entries (snd (cache_find cache b)) = bc_entries cache"
proof -
  have m: "bc_enabled cache \<Longrightarrow> find_from (\<lambda>e. ce_block_num e = b) (bc_entries cache) 0 CACHE_SIZE = None"
    using miss by (simp add: cache_find_def split: option.splits)
  then have snd: "snd (cache_find cache b) = (if bc_enabled cache then cache\<lparr>bc_misses := bc_misses cache + 1\<rparr> else cache)"
    by (simp add: cache_find_def)
  show "cache_ok n f (snd (cache_find cache b))" "bc_enabled (snd (cache_find cache b)) = bc_enabled cache"
    "bc_entries (snd (cache_find cache b)) = bc_entries cache"
    using c by (simp_all add: snd)
  assume "bc_enabled cache"
  from m [OF this] show "\<forall>j < CACHE_SIZE. nth_block (snd (cache_find cache b)) j \<noteq> b"
    by (simp add: snd find_from_None)
qed

lemma cache_ok_cong:
  assumes c: "cache_ok n f c" and c': "length (bc_entries c') = CACHE_SIZE" "bc_enabled c' = bc_enabled c"
    and same: "\<forall>j < CACHE_SIZE. nth_block c' j = nth_block c j \<and> ce_data (bc_entries c' ! j) = ce_data (bc_entries c ! j)"
  shows "cache_ok n f c'"
proof (cases "bc_enabled c")
  case True
  then have right: "\<forall>i < CACHE_SIZE. nth_block c i \<noteq> CACHE_INVALID_BLOCK \<longrightarrow> nth_block c i < n \<and> ce_data (bc_entries c ! i) = f (nth_block c i)"
    and inj: "\<And>i j. i < CACHE_SIZE \<Longrightarrow> j < CACHE_SIZE \<Longrightarrow> nth_block c i \<noteq> CACHE_INVALID_BLOCK \<Longrightarrow> nth_block c i = nth_block c j \<Longrightarrow> i = j"
    using c unfolding cache_ok_def by blast+
  have "\<forall>i < CACHE_SIZE. nth_block c' i \<noteq> CACHE_INVALID_BLOCK \<longrightarrow>
      nth_block c' i < n \<and> ce_data (bc_entries c' ! i) = f (nth_block c' i)"
    using right same by simp
  moreover have "\<forall>i < CACHE_SIZE. \<forall>j < CACHE_SIZE. nth_block c' i \<noteq> CACHE_INVALID_BLOCK \<and> nth_block c' i = nth_block c' j \<longrightarrow> i = j"
    using inj same by auto
  ultimately show ?thesis using c' unfolding cache_ok_def by blast
qed (use c' in \<open>simp add: cache_ok_def\<close>)

lemma cache_writeback_ok:
  assumes d: "disk_is hal blk base n f s" and i: "i < CACHE_SIZE" and e: "bc_enabled (ef_cache s)"
  shows "fst (cache_writeback hal s i) \<and> disk_is hal blk base n f (snd (cache_writeback hal s i)) \<and>
    io_only s (snd (cache_writeback hal s i)) \<and>
    (\<forall>j < CACHE_SIZE. nth_block (ef_cache (snd (cache_writeback hal s i))) j = nth_block (ef_cache s) j)"
proof -
  let ?e = "bc_entries (ef_cache s) ! i"
  have len: "length (bc_entries (ef_cache s)) = CACHE_SIZE" using d by (simp add: disk_is_def cache_ok_def)
  show ?thesis
  proof (cases "ce_dirty ?e \<and> ce_block_num ?e \<noteq> CACHE_INVALID_BLOCK")
    case False
    then show ?thesis using d by (auto simp: cache_writeback_def Let_def)
  next
    case True
    then have num: "ce_block_num ?e < n" "ce_data ?e = f (ce_block_num ?e)" using d e i by (simp_all add: disk_is_def cache_ok_def)
    then have "length (ce_data ?e) = 512" using disk_lengths [OF d] by simp
    then obtain sd where sd: "sd_write_block hal (ef_sd s) (base + ce_block_num ?e) (ce_data ?e) = (True, sd)"
        "\<forall>b' < n. blk sd b' = (if b' = ce_block_num ?e then ce_data ?e else blk (ef_sd s) b')"
      using d num(1) unfolding disk_is_def sd_partition_def by blast
    let ?c = "(ef_cache s)\<lparr>bc_entries := (bc_entries (ef_cache s))[i := ?e\<lparr>ce_dirty := False\<rparr>]\<rparr>"
    have wb: "cache_writeback hal s i = (True, s\<lparr>ef_sd := sd, ef_cache := ?c\<rparr>)"
      using True sd(1) d by (simp add: cache_writeback_def Let_def disk_is_def)
    have same: "nth_block ?c j = nth_block (ef_cache s) j" "ce_data (bc_entries ?c ! j) = ce_data (bc_entries (ef_cache s) ! j)"
      if "j < CACHE_SIZE" for j
      using len that by (cases "j = i"; simp)+
    have "\<forall>b' < n. blk sd b' = f b'" using sd(2) num d by (simp add: disk_is_def)
    moreover have "cache_ok n f ?c"
    proof (rule cache_ok_cong)
      show "cache_ok n f (ef_cache s)" using d by (simp add: disk_is_def)
      show "\<forall>j < CACHE_SIZE. nth_block ?c j = nth_block (ef_cache s) j \<and>
          ce_data (bc_entries ?c ! j) = ce_data (bc_entries (ef_cache s) ! j)"
        using same by blast
    qed (use len in simp_all)
    ultimately show ?thesis using d same unfolding wb by (simp add: disk_is_def io_only_def)
  qed
qed

text \<open>What was read or written is added when the cache has no entry for it.\<close>

lemma cache_add_ok:
  assumes d: "disk_is hal blk base n f s" and b: "b < n"
    and new: "bc_enabled (ef_cache s) \<Longrightarrow> \<forall>j < CACHE_SIZE. nth_block (ef_cache s) j \<noteq> b"
  shows "disk_is hal blk base n f (cache_add hal s b (f b)) \<and> io_only s (cache_add hal s b (f b))"
proof (cases "bc_enabled (ef_cache s)")
  case False
  then show ?thesis using d by (simp add: cache_add_def)
next
  case True
  let ?i = "cache_find_lru (ef_cache s)"
  obtain ok s1 where wb: "cache_writeback hal s ?i = (ok, s1)" by (cases "cache_writeback hal s ?i")
  then have s1: "disk_is hal blk base n f s1" "io_only s s1" "\<forall>j < CACHE_SIZE. nth_block (ef_cache s1) j = nth_block (ef_cache s) j"
    using cache_writeback_ok [OF d cache_find_lru_less [of "ef_cache s"] True] by simp_all
  let ?c = "touch (ef_cache s1) ?i (\<lambda>e. e\<lparr>ce_block_num := b, ce_dirty := False, ce_data := f b\<rparr>)"
  have add: "cache_add hal s b (f b) = s1\<lparr>ef_cache := ?c\<rparr>" using True wb by (simp add: cache_add_def)
  have "cache_ok n (f(b := f b)) ?c"
    using s1(1,3) new [OF True] cache_find_lru_less [of "ef_cache s"] by (intro touch_put [OF _ _ b]) (simp_all add: disk_is_def)
  then have "disk_is hal blk base n f (s1\<lparr>ef_cache := ?c\<rparr>)" using s1(1) by (simp add: disk_is_def)
  moreover have "io_only s (s1\<lparr>ef_cache := ?c\<rparr>)" using s1(2) by (simp add: io_only_def touch_def Let_def)
  ultimately show ?thesis unfolding add by blast
qed

lemma read_block_ok:
  assumes d: "disk_is hal blk base n f s" and b: "b < n"
  shows "\<exists>s'. read_block hal s b = (Some (f b), s') \<and> disk_is hal blk base n f s' \<and> io_only s s'"
proof -
  let ?c = "cache_find (ef_cache s) b"
  let ?s = "s\<lparr>ef_cache := snd ?c\<rparr>"
  have c: "cache_ok n f (ef_cache s)" using d by (simp add: disk_is_def)
  show ?thesis
  proof (cases "fst ?c")
    case (Some i)
    note hit = cache_find_hit [OF c b Some]
    then have "disk_is hal blk base n f ?s" "io_only s ?s" using d by (simp_all add: disk_is_def io_only_def)
    then show ?thesis using hit(4) Some by (simp add: read_block_def case_prod_unfold Let_def)
  next
    case None
    note miss = cache_find_miss [OF c None]
    have "sd_partition hal blk base n" "ef_partition_lba s = base" "blk (ef_sd s) b = f b" using d b by (simp_all add: disk_is_def)
    then obtain sd where sd: "sd_read_block hal (ef_sd s) (base + b) = (Some (f b), sd)" "\<forall>b' < n. blk sd b' = blk (ef_sd s) b'"
      using b unfolding sd_partition_def by metis
    have d1: "disk_is hal blk base n f (?s\<lparr>ef_sd := sd\<rparr>)" "io_only s (?s\<lparr>ef_sd := sd\<rparr>)"
      using d miss(1,2) sd(2) by (simp_all add: disk_is_def io_only_def)
    have "read_block hal s b = (Some (f b), cache_add hal (?s\<lparr>ef_sd := sd\<rparr>) b (f b))"
      using None sd(1) d by (simp add: read_block_def case_prod_unfold Let_def disk_is_def)
    with cache_add_ok [OF d1(1) b] miss(2,3) d1(2) show ?thesis by (auto intro: io_only_trans)
  qed
qed

lemma write_block_ok:
  assumes d: "disk_is hal blk base n f s" and b: "b < n" and data: "length data = 512"
  shows "\<exists>s'. write_block hal s b data = (True, s') \<and> disk_is hal blk base n (f(b := data)) s' \<and> io_only s s'"
proof -
  let ?c = "cache_find (ef_cache s) b"
  let ?s = "s\<lparr>ef_cache := snd ?c\<rparr>"
  have c: "cache_ok n f (ef_cache s)" using d by (simp add: disk_is_def)
  have part: "sd_partition hal blk base n" "ef_partition_lba s = base" "\<forall>b < n. blk (ef_sd s) b = f b" using d by (simp_all add: disk_is_def)
  then obtain sd where sd: "sd_write_block hal (ef_sd s) (base + b) data = (True, sd)"
      "\<forall>b' < n. blk sd b' = (if b' = b then data else blk (ef_sd s) b')"
    using b data unfolding sd_partition_def by metis
  show ?thesis
  proof (cases "fst ?c")
    case (Some i)
    note hit = cache_find_hit [OF c b Some]
    let ?cache = "touch (snd ?c) i (\<lambda>e. e\<lparr>ce_data := data, ce_dirty := True\<rparr>)"
    have "cache_ok n (f(b := data)) ?cache"
      using hit by (intro touch_put [OF hit(5,2) b]) simp_all
    then have "disk_is hal blk base n (f(b := data)) (s\<lparr>ef_cache := ?cache, ef_sd := sd\<rparr>)"
      using part sd(2) by (simp add: disk_is_def)
    moreover have "io_only s (s\<lparr>ef_cache := ?cache, ef_sd := sd\<rparr>)" using hit(1,7) by (simp add: io_only_def touch_def Let_def)
    moreover have "write_block hal s b data = (True, s\<lparr>ef_cache := ?cache, ef_sd := sd\<rparr>)"
      using Some sd(1) part(2) by (simp add: write_block_def case_prod_unfold Let_def)
    ultimately show ?thesis by blast
  next
    case None
    note miss = cache_find_miss [OF c None]
    have "cache_ok n (f(b := data)) (snd ?c)"
      using miss unfolding cache_ok_def by auto
    then have d1: "disk_is hal blk base n (f(b := data)) (?s\<lparr>ef_sd := sd\<rparr>)" "io_only s (?s\<lparr>ef_sd := sd\<rparr>)"
      using part miss(2) sd(2) by (simp_all add: disk_is_def io_only_def)
    have "write_block hal s b data = (True, cache_add hal (?s\<lparr>ef_sd := sd\<rparr>) b ((f(b := data)) b))"
      using None sd(1) part(2) by (simp add: write_block_def case_prod_unfold Let_def)
    with cache_add_ok [OF d1(1) b] miss(2,3) d1(2) show ?thesis by (auto intro: io_only_trans)
  qed
qed

lemma cache_flush_ok:
  assumes d: "disk_is hal blk base n f s" and e: "bc_enabled (ef_cache s)"
  shows "fst (cache_flush hal s) \<and> disk_is hal blk base n f (snd (cache_flush hal s)) \<and> io_only s (snd (cache_flush hal s))"
proof -
  let ?step = "\<lambda>i (result, s). if ce_dirty (bc_entries (ef_cache s) ! i)
      then (let (ok, s) = cache_writeback hal s i in (if \<not> ok then False else result, s)) else (result, s)"
  have "fst (fold ?step is r) \<and> disk_is hal blk base n f (snd (fold ?step is r)) \<and> io_only s (snd (fold ?step is r))"
    if "set is \<subseteq> {..<16}" "fst r" "disk_is hal blk base n f (snd r)" "io_only s (snd r)" for "is" r
    using that
  proof (induction "is" arbitrary: r)
    case (Cons i js)
    obtain res t where r: "r = (res, t)" by (cases r)
    have t: "bc_enabled (ef_cache t)" "i < CACHE_SIZE" using Cons.prems e by (simp_all add: r io_only_def)
    have wb: "fst (cache_writeback hal t i) \<and> disk_is hal blk base n f (snd (cache_writeback hal t i)) \<and> io_only t (snd (cache_writeback hal t i))"
      using cache_writeback_ok [OF _ t(2,1)] Cons.prems(3) by (simp add: r)
    show ?case
      unfolding fold_Cons o_apply
      by (rule Cons.IH) (use Cons.prems wb in \<open>auto simp: r case_prod_unfold Let_def intro: io_only_trans\<close>)
  qed simp
  then show ?thesis
    using d unfolding cache_flush_def by (auto simp: atLeast0LessThan)
qed

lemma cache_ok_empty:
  "length (bc_entries c) = CACHE_SIZE \<Longrightarrow> \<forall>i < CACHE_SIZE. nth_block c i = CACHE_INVALID_BLOCK \<Longrightarrow> cache_ok n f c"
  by (simp add: cache_ok_def)

lemma cache_invalidate_ok:
  assumes d: "disk_is hal blk base n f s" and e: "bc_enabled (ef_cache s)"
  shows "disk_is hal blk base n f (cache_invalidate hal s) \<and> io_only s (cache_invalidate hal s)"
proof -
  obtain ok t where t: "cache_flush hal s = (ok, t)" by (cases "cache_flush hal s")
  have dt: "disk_is hal blk base n f t" "io_only s t" using cache_flush_ok [OF d e] by (simp_all add: t)
  then have "length (bc_entries (ef_cache t)) = CACHE_SIZE" by (simp add: disk_is_def cache_ok_def)
  then show ?thesis
    using dt by (simp add: cache_invalidate_def t Let_def disk_is_def io_only_def cache_ok_empty)
qed

lemma cache_init_ok:
  assumes "sd_partition hal blk base n" "ef_partition_lba s = base" "length (bc_entries (ef_cache s)) = CACHE_SIZE"
  shows "disk_is hal blk base n (blk (ef_sd s)) (s\<lparr>ef_cache := cache_init (ef_cache s)\<rparr>)"
  using assms by (simp add: disk_is_def cache_init_def cache_ok_empty)

section \<open>Sequences of block operations\<close>

datatype block_op = Read_Block u32 | Write_Block u32 "u8 list" | Flush | Invalidate
datatype block_result = Got "u8 list option" | Wrote bool | Flushed bool | Invalidated

fun block_op_step :: "'s sd_driver \<Rightarrow> block_op \<Rightarrow> 's ekkfs \<Rightarrow> block_result \<times> 's ekkfs" where
  "block_op_step hal (Read_Block b) s = apfst Got (read_block hal s b)"
| "block_op_step hal (Write_Block b data) s = apfst Wrote (write_block hal s b data)"
| "block_op_step hal Flush s = apfst Flushed (cache_flush hal s)"
| "block_op_step hal Invalidate s = (Invalidated, cache_invalidate hal s)"

text \<open>The same on an array of blocks.\<close>

fun array_op_step :: "block_op \<Rightarrow> (u32 \<Rightarrow> u8 list) \<Rightarrow> block_result \<times> (u32 \<Rightarrow> u8 list)" where
  "array_op_step (Read_Block b) f = (Got (Some (f b)), f)"
| "array_op_step (Write_Block b data) f = (Wrote True, f(b := data))"
| "array_op_step Flush f = (Flushed True, f)"
| "array_op_step Invalidate f = (Invalidated, f)"

fun block_op_ok :: "u32 \<Rightarrow> block_op \<Rightarrow> bool" where
  "block_op_ok n (Read_Block b) = (b < n)"
| "block_op_ok n (Write_Block b data) = (b < n \<and> length data = 512)"
| "block_op_ok n _ = True"

fun run_ops :: "('op \<Rightarrow> 'st \<Rightarrow> 'out \<times> 'st) \<Rightarrow> 'op list \<Rightarrow> 'st \<Rightarrow> 'out list \<times> 'st" where
  "run_ops step [] s = ([], s)"
| "run_ops step (op # ops) s = (let (out, s) = step op s; (outs, s) = run_ops step ops s in (out # outs, s))"

lemma block_op_step_ok:
  assumes d: "disk_is hal blk base n f s" and e: "bc_enabled (ef_cache s)" and ok: "block_op_ok n op"
  shows "fst (block_op_step hal op s) = fst (array_op_step op f) \<and>
    disk_is hal blk base n (snd (array_op_step op f)) (snd (block_op_step hal op s)) \<and> io_only s (snd (block_op_step hal op s))"
proof (cases op)
  case (Read_Block b)
  with read_block_ok [OF d, of b] ok show ?thesis by auto
next
  case (Write_Block b data)
  with write_block_ok [OF d, of b data] ok show ?thesis by auto
next
  case Flush
  with cache_flush_ok [OF d e] show ?thesis by simp
next
  case Invalidate
  with cache_invalidate_ok [OF d e] show ?thesis by simp
qed

lemma run_ops_ok:
  assumes "disk_is hal blk base n f s" "bc_enabled (ef_cache s)" "\<forall>op \<in> set ops. block_op_ok n op"
  shows "fst (run_ops (block_op_step hal) ops s) = fst (run_ops array_op_step ops f) \<and>
    disk_is hal blk base n (snd (run_ops array_op_step ops f)) (snd (run_ops (block_op_step hal) ops s))"
  using assms
proof (induction ops arbitrary: s f)
  case (Cons op ops)
  then have step: "fst (block_op_step hal op s) = fst (array_op_step op f)"
    "disk_is hal blk base n (snd (array_op_step op f)) (snd (block_op_step hal op s))" "io_only s (snd (block_op_step hal op s))"
    using block_op_step_ok [of hal blk base n f s op] by auto
  with Cons show ?case by (simp add: case_prod_unfold Let_def io_only_def)
qed simp

text \<open>
  C12. The block cache cannot be observed. After \<open>cache_init\<close>, any sequence of block reads and
  writes, flushes and invalidations answers what an array of blocks would answer, whatever entries
  the access counters choose to evict (they wrap), and after every such sequence the card itself
  holds the written blocks: the cache is written through.
\<close>

theorem block_cache_transparent:
  assumes card: "sd_partition hal blk base n" "ef_partition_lba s = base" "length (bc_entries (ef_cache s)) = CACHE_SIZE"
    and ops: "\<forall>op \<in> set ops. block_op_ok n op"
    and run: "run_ops (block_op_step hal) ops (s\<lparr>ef_cache := cache_init (ef_cache s)\<rparr>) = (outs, s')"
    and spec: "run_ops array_op_step ops (blk (ef_sd s)) = (outs', f')"
  shows "outs = outs' \<and> (\<forall>b < n. blk (ef_sd s') b = f' b)"
proof -
  let ?s = "s\<lparr>ef_cache := cache_init (ef_cache s)\<rparr>"
  have "bc_enabled (ef_cache ?s)" by (simp add: cache_init_def)
  from run_ops_ok [OF cache_init_ok [OF card] this ops] show ?thesis by (simp add: run spec disk_is_def)
qed

text \<open>A card that is a function of its block numbers, with the partition at block 8.\<close>

definition fun_card :: "(u32 \<Rightarrow> u8 list) sd_driver" where
  "fun_card = \<lparr>sd_read_block = \<lambda>d b. (Some (take 512 (d b @ replicate 512 0)), d), sd_write_block = \<lambda>d b data. (True, d(b := data)),
     hal_time_us = \<lambda>d. (0, d)\<rparr>"

definition fun_card_block :: "u32 \<Rightarrow> (u32 \<Rightarrow> u8 list) \<Rightarrow> u32 \<Rightarrow> u8 list" where
  "fun_card_block base d b = take 512 (d (base + b) @ replicate 512 0)"

lemma fun_card_partition: "sd_partition fun_card (fun_card_block base) base n"
  by (auto simp: sd_partition_def fun_card_def fun_card_block_def)

definition no_inode_superblock :: ekkfs_superblock where
  "no_inode_superblock = \<lparr>sb_magic = 0, sb_version = 0, sb_block_size = 0, sb_total_blocks = 0, sb_inode_count = 0,
     sb_inode_start = 0, sb_bitmap_start = 0, sb_journal_start = 0, sb_data_start = 0, sb_free_blocks = 0, sb_mount_time = 0,
     sb_mount_count = 0, sb_crc32 = 0, sb_reserved = replicate 456 0\<rparr>"

definition zero_journal_header :: ekkfs_journal_header where
  "zero_journal_header = \<lparr>jh_magic = 0, jh_head = 0, jh_tail = 0, jh_sequence = 0, jh_tx_active = 0, jh_tx_start_seq = 0,
     jh_reserved = replicate 8 0, jh_crc32 = 0, jh_padding = replicate 24 0\<rparr>"

text \<open>The static state of the file system before anything runs.\<close>

definition ekkfs_boot :: "'s \<Rightarrow> 's ekkfs" where
  "ekkfs_boot sd = \<lparr>ef_mounted = False, ef_partition_lba = 0, ef_superblock = no_inode_superblock,
     ef_bitmap_buf = replicate 4096 0, ef_bitmap_blocks = 0,
     ef_journal = \<lparr>js_header = zero_journal_header, js_current_tx_seq = 0, js_tx_active = False, js_dirty = False\<rparr>,
     ef_cache = \<lparr>bc_entries = replicate 16 \<lparr>ce_block_num = 0, ce_access_count = 0, ce_dirty = False, ce_data = replicate 512 0\<rparr>,
       bc_access_counter = 0, bc_hits = 0, bc_misses = 0, bc_enabled = False\<rparr>,
     ef_sd = sd\<rparr>"

definition blank_card :: "u32 \<Rightarrow> u8 list" where
  "blank_card = (\<lambda>_. replicate 512 0)"

theorem block_cache_transparent_witness:
  "fst (run_ops (block_op_step fun_card) [Write_Block 2 (replicate 512 7), Read_Block 2]
      ((ekkfs_boot blank_card) \<lparr>ef_cache := cache_init (ef_cache (ekkfs_boot blank_card))\<rparr>)) =
    [Wrote True, Got (Some (replicate 512 7))]"
proof -
  let ?s = "ekkfs_boot blank_card" and ?ops = "[Write_Block 2 (replicate 512 7), Read_Block 2]"
  obtain outs s' where run: "run_ops (block_op_step fun_card) ?ops (?s\<lparr>ef_cache := cache_init (ef_cache ?s)\<rparr>) = (outs, s')"
    by fastforce
  obtain f' where spec: "run_ops array_op_step ?ops (fun_card_block 0 (ef_sd ?s)) = ([Wrote True, Got (Some (replicate 512 7))], f')"
    by simp
  have "outs = [Wrote True, Got (Some (replicate 512 7))]"
    using block_cache_transparent [where hal = fun_card and blk = "fun_card_block 0" and base = 0 and n = 4 and s = ?s and ops = ?ops
        and outs = outs and s' = s' and outs' = "[Wrote True, Got (Some (replicate 512 7))]" and f' = f'] run spec fun_card_partition [of 0 4]
    by (simp add: ekkfs_boot_def)
  then show ?thesis by (simp only: run fst_conv)
qed

end
