(* ===== verification/Ekkfs_Journal.thy ===== *)
theory Ekkfs_Journal
  imports Ekkfs_Block "HOL-Library.Monad_Syntax"
begin

unbundle bit_operations_syntax

text \<open>
  Free blocks, transactions and their journal (\<open>src/ekkfs.c\<close>): the bitmap of the data blocks, the journal
  in its four blocks, \<open>ekkfs_tx_begin\<close>, \<open>ekkfs_tx_commit\<close>, \<open>ekkfs_tx_abort\<close> and the recovery of
  the journal at the time of mounting. An operation answers \<open>None\<close> where the C code is undefined (an
  access behind the end of a buffer) or does not end; results are the integers of the code.
  A buffer the card failed to fill is taken to be as it was.
\<close>

section \<open>Layout\<close>

abbreviation (input) EKKFS_OK :: int where "EKKFS_OK \<equiv> 0"
abbreviation (input) EKKFS_ERR_IO :: int where "EKKFS_ERR_IO \<equiv> - 1"
abbreviation (input) EKKFS_ERR_CORRUPT :: int where "EKKFS_ERR_CORRUPT \<equiv> - 2"
abbreviation (input) EKKFS_ERR_NOT_FOUND :: int where "EKKFS_ERR_NOT_FOUND \<equiv> - 3"
abbreviation (input) EKKFS_ERR_EXISTS :: int where "EKKFS_ERR_EXISTS \<equiv> - 4"
abbreviation (input) EKKFS_ERR_FULL :: int where "EKKFS_ERR_FULL \<equiv> - 5"
abbreviation (input) EKKFS_ERR_NO_INODES :: int where "EKKFS_ERR_NO_INODES \<equiv> - 6"
abbreviation (input) EKKFS_ERR_INVALID :: int where "EKKFS_ERR_INVALID \<equiv> - 7"
abbreviation (input) EKKFS_ERR_NOT_MOUNTED :: int where "EKKFS_ERR_NOT_MOUNTED \<equiv> - 8"
abbreviation (input) EKKFS_ERR_NAME_TOO_LONG :: int where "EKKFS_ERR_NAME_TOO_LONG \<equiv> - 9"
abbreviation (input) EKKFS_ERR_PERMISSION :: int where "EKKFS_ERR_PERMISSION \<equiv> - 10"

abbreviation (input) BITMAP_BYTES :: nat where "BITMAP_BYTES \<equiv> 4096"

definition superblock_bytes :: "ekkfs_superblock \<Rightarrow> u8 list" where
  "superblock_bytes sb =
     concat (map le32 [sb_magic sb, sb_version sb, sb_block_size sb, sb_total_blocks sb, sb_inode_count sb, sb_inode_start sb,
       sb_bitmap_start sb, sb_journal_start sb, sb_data_start sb, sb_free_blocks sb]) @
     le64 (sb_mount_time sb) @ le32 (sb_mount_count sb) @ le32 (sb_crc32 sb) @ sb_reserved sb"

definition superblock_of_bytes :: "u8 list \<Rightarrow> ekkfs_superblock" where
  "superblock_of_bytes bs =
     \<lparr>sb_magic = le_word (field bs 0 4), sb_version = le_word (field bs 4 4), sb_block_size = le_word (field bs 8 4),
      sb_total_blocks = le_word (field bs 12 4), sb_inode_count = le_word (field bs 16 4), sb_inode_start = le_word (field bs 20 4),
      sb_bitmap_start = le_word (field bs 24 4), sb_journal_start = le_word (field bs 28 4), sb_data_start = le_word (field bs 32 4),
      sb_free_blocks = le_word (field bs 36 4), sb_mount_time = le_word (field bs 40 8), sb_mount_count = le_word (field bs 48 4),
      sb_crc32 = le_word (field bs 52 4), sb_reserved = field bs 56 456\<rparr>"

definition seal_superblock :: "ekkfs_superblock \<Rightarrow> ekkfs_superblock" where
  "seal_superblock sb = sb\<lparr>sb_crc32 := ekkfs_crc32 (take 52 (superblock_bytes sb))\<rparr>"

definition journal_header_bytes :: "ekkfs_journal_header \<Rightarrow> u8 list" where
  "journal_header_bytes h =
     concat (map le32 [jh_magic h, jh_head h, jh_tail h, jh_sequence h, jh_tx_active h, jh_tx_start_seq h]) @
     jh_reserved h @ le32 (jh_crc32 h) @ jh_padding h"

definition journal_header_of_bytes :: "u8 list \<Rightarrow> ekkfs_journal_header" where
  "journal_header_of_bytes bs =
     \<lparr>jh_magic = le_word (field bs 0 4), jh_head = le_word (field bs 4 4), jh_tail = le_word (field bs 8 4),
      jh_sequence = le_word (field bs 12 4), jh_tx_active = le_word (field bs 16 4), jh_tx_start_seq = le_word (field bs 20 4),
      jh_reserved = field bs 24 8, jh_crc32 = le_word (field bs 32 4), jh_padding = field bs 36 24\<rparr>"

definition seal_header :: "ekkfs_journal_header \<Rightarrow> ekkfs_journal_header" where
  "seal_header h = h\<lparr>jh_crc32 := ekkfs_crc32 (take 32 (journal_header_bytes h))\<rparr>"

record ekkfs_journal_entry =
  je_sequence :: u32
  je_type :: u32
  je_inode :: u32
  je_block :: u32
  je_old_value :: u32
  je_new_value :: u32
  je_timestamp :: u32
  je_crc32 :: u32

definition journal_entry_bytes :: "ekkfs_journal_entry \<Rightarrow> u8 list" where
  "journal_entry_bytes e =
     concat (map le32 [je_sequence e, je_type e, je_inode e, je_block e, je_old_value e, je_new_value e, je_timestamp e, je_crc32 e])"

definition journal_entry_of_bytes :: "u8 list \<Rightarrow> ekkfs_journal_entry" where
  "journal_entry_of_bytes bs =
     \<lparr>je_sequence = le_word (field bs 0 4), je_type = le_word (field bs 4 4), je_inode = le_word (field bs 8 4),
      je_block = le_word (field bs 12 4), je_old_value = le_word (field bs 16 4), je_new_value = le_word (field bs 20 4),
      je_timestamp = le_word (field bs 24 4), je_crc32 = le_word (field bs 28 4)\<rparr>"

text \<open>\<open>memcpy\<close> into a buffer that is long enough.\<close>

definition splice :: "u8 list \<Rightarrow> nat \<Rightarrow> u8 list \<Rightarrow> u8 list" where
  "splice buf offset bs = take offset buf @ bs @ drop (offset + length bs) buf"

section \<open>The journal\<close>

definition journal_read_block :: "'s sd_driver \<Rightarrow> 's ekkfs \<Rightarrow> u32 \<Rightarrow> u8 list option \<times> 's ekkfs" where
  "journal_read_block hal s journal_block_idx =
     (if journal_block_idx \<ge> 4 then (None, s) else read_block hal s (sb_journal_start (ef_superblock s) + journal_block_idx))"

definition journal_write_block :: "'s sd_driver \<Rightarrow> 's ekkfs \<Rightarrow> u32 \<Rightarrow> u8 list \<Rightarrow> bool \<times> 's ekkfs" where
  "journal_write_block hal s journal_block_idx buffer =
     (if journal_block_idx \<ge> 4 then (False, s) else write_block hal s (sb_journal_start (ef_superblock s) + journal_block_idx) buffer)"

definition journal_total_entries :: u32 where
  "journal_total_entries = 14 + (4 - 1) * 16"

definition journal_entry_location :: "u32 \<Rightarrow> u32 \<times> nat" where
  "journal_entry_location entry_idx =
     (if entry_idx < 14 then (0, 60 + unat entry_idx * 32)
      else (1 + (entry_idx - 14) div 16, unat ((entry_idx - 14) mod 16) * 32))"

definition update_header :: "(ekkfs_journal_header \<Rightarrow> ekkfs_journal_header) \<Rightarrow> 's ekkfs \<Rightarrow> 's ekkfs" where
  "update_header change s = s\<lparr>ef_journal := (ef_journal s)\<lparr>js_header := change (js_header (ef_journal s))\<rparr>\<rparr>"

abbreviation ef_header :: "'s ekkfs \<Rightarrow> ekkfs_journal_header" where
  "ef_header s \<equiv> js_header (ef_journal s)"

text \<open>The header is written over the first bytes of its block; the entries behind it are kept.\<close>

definition store_header :: "'s sd_driver \<Rightarrow> 's ekkfs \<Rightarrow> bool \<times> 's ekkfs" where
  "store_header hal s =
     (case journal_read_block hal s 0 of
        (None, s) \<Rightarrow> (False, s)
      | (Some buffer, s) \<Rightarrow> journal_write_block hal s 0 (splice buffer 0 (journal_header_bytes (ef_header s))))"

definition make_entry :: "u32 \<Rightarrow> u32 \<Rightarrow> u32 \<Rightarrow> u32 \<Rightarrow> u32 \<Rightarrow> u32 \<Rightarrow> u64 \<Rightarrow> ekkfs_journal_entry" where
  "make_entry seq ty inode block old_value new_value now =
     (let entry = \<lparr>je_sequence = seq, je_type = ty, je_inode = inode, je_block = block, je_old_value = old_value, je_new_value = new_value,
        je_timestamp = ucast (now div 1000000), je_crc32 = 0\<rparr>
      in entry\<lparr>je_crc32 := ekkfs_crc32 (take 28 (journal_entry_bytes entry))\<rparr>)"

definition ekkfs_journal_log :: "'s sd_driver \<Rightarrow> u32 \<Rightarrow> u32 \<Rightarrow> u32 \<Rightarrow> u32 \<Rightarrow> u32 \<Rightarrow> 's ekkfs \<Rightarrow> int \<times> 's ekkfs" where
  "ekkfs_journal_log hal ty inode block old_value new_value s =
     (if \<not> ef_mounted s then (EKKFS_ERR_NOT_MOUNTED, s)
      else
        (let seq = (if js_tx_active (ef_journal s) then js_current_tx_seq (ef_journal s) else jh_sequence (ef_header s));
             head = jh_head (ef_header s);
             tail = jh_tail (ef_header s);
             next_head = (head + 1) mod journal_total_entries;
             s = (if next_head = tail then update_header (\<lambda>h. h\<lparr>jh_tail := (tail + 1) mod journal_total_entries\<rparr>) s else s);
             (now, sd) = hal_time_us hal (ef_sd s);
             s = s\<lparr>ef_sd := sd\<rparr>;
             entry = make_entry seq ty inode block old_value new_value now;
             (block_idx, entry_offset) = journal_entry_location head;
             (buffer, s) = journal_read_block hal s block_idx
         in case buffer of
              None \<Rightarrow> (EKKFS_ERR_IO, s)
            | Some buffer \<Rightarrow>
                (let (ok, s) = journal_write_block hal s block_idx (splice buffer entry_offset (journal_entry_bytes entry))
                 in if \<not> ok then (EKKFS_ERR_IO, s)
                    else
                      (let s = update_header (\<lambda>h. h\<lparr>jh_head := next_head\<rparr>) s;
                           s = s\<lparr>ef_journal := (ef_journal s)\<lparr>js_dirty := True\<rparr>\<rparr>
                       in if js_tx_active (ef_journal s) then (EKKFS_OK, s)
                          else (EKKFS_OK, snd (store_header hal (update_header seal_header s)))))))"

definition fresh_header :: ekkfs_journal_header where
  "fresh_header = seal_header
     \<lparr>jh_magic = 0x4A524E4C, jh_head = 0, jh_tail = 0, jh_sequence = 1, jh_tx_active = 0, jh_tx_start_seq = 0,
      jh_reserved = replicate 8 0, jh_crc32 = 0, jh_padding = replicate 24 0\<rparr>"

text \<open>Blocks \<open>i\<close> to \<open>n - 1\<close> after a starting block, all with the same bytes.\<close>

function write_blocks :: "'s sd_driver \<Rightarrow> u32 \<Rightarrow> u8 list \<Rightarrow> nat \<Rightarrow> nat \<Rightarrow> 's ekkfs \<Rightarrow> bool \<times> 's ekkfs" where
  "write_blocks hal start buffer i n s =
     (if i < n
      then (let (ok, s) = write_block hal s (start + of_nat i) buffer
            in if \<not> ok then (False, s) else write_blocks hal start buffer (Suc i) n s)
      else (True, s))"
  by pat_completeness auto
termination
  by (relation "measure (\<lambda>(hal, start, buffer, i, n, s). n - i)") auto

declare write_blocks.simps [simp del]

definition ekkfs_journal_init :: "'s sd_driver \<Rightarrow> 's ekkfs \<Rightarrow> int \<times> 's ekkfs" where
  "ekkfs_journal_init hal s =
     (let header = fresh_header;
          start = sb_journal_start (ef_superblock s);
          (ok, s) = write_block hal s start (splice (replicate 512 0) 0 (journal_header_bytes header))
      in if \<not> ok then (EKKFS_ERR_IO, s)
         else
           (let (ok, s) = write_blocks hal start (replicate 512 0) 1 4 s
            in if \<not> ok then (EKKFS_ERR_IO, s)
               else (EKKFS_OK, s\<lparr>ef_journal := \<lparr>js_header = header, js_current_tx_seq = 0, js_tx_active = False, js_dirty = False\<rparr>\<rparr>)))"

section \<open>The bitmap\<close>

definition bitmap_get :: "'s ekkfs \<Rightarrow> u32 \<Rightarrow> bool option" where
  "bitmap_get s block_num =
     (if block_num < sb_data_start (ef_superblock s) then Some True
      else
        (let data_block = block_num - sb_data_start (ef_superblock s); byte_idx = unat (data_block div 8); bit_idx = unat (data_block mod 8)
         in if BITMAP_BYTES \<le> byte_idx then None else Some (bit (ef_bitmap_buf s ! byte_idx) bit_idx)))"

definition bitmap_set :: "u32 \<Rightarrow> bool \<Rightarrow> 's ekkfs \<Rightarrow> 's ekkfs option" where
  "bitmap_set block_num used s =
     (if block_num < sb_data_start (ef_superblock s) then Some s
      else
        (let data_block = block_num - sb_data_start (ef_superblock s);
             byte_idx = unat (data_block div 8);
             mask = push_bit (unat (data_block mod 8)) 1;
             old = ef_bitmap_buf s ! byte_idx
         in if BITMAP_BYTES \<le> byte_idx then None
            else Some (s\<lparr>ef_bitmap_buf := (ef_bitmap_buf s)[byte_idx := (if used then old OR mask else old AND NOT mask)]\<rparr>)))"

definition add_free_blocks :: "u32 \<Rightarrow> 's ekkfs \<Rightarrow> 's ekkfs" where
  "add_free_blocks k s = s\<lparr>ef_superblock := (ef_superblock s)\<lparr>sb_free_blocks := sb_free_blocks (ef_superblock s) + k\<rparr>\<rparr>"

definition alloc_block_of :: "'s ekkfs \<Rightarrow> nat \<Rightarrow> nat \<Rightarrow> u32" where
  "alloc_block_of s i b = sb_data_start (ef_superblock s) + of_nat i * 8 + of_nat b"

definition alloc_in_byte :: "'s ekkfs \<Rightarrow> nat \<Rightarrow> nat option" where
  "alloc_in_byte s i =
     find (\<lambda>b. \<not> bit (ef_bitmap_buf s ! i) b \<and> alloc_block_of s i b < sb_total_blocks (ef_superblock s)) [0..<8]"

function alloc_from :: "'s ekkfs \<Rightarrow> nat \<Rightarrow> nat \<Rightarrow> (nat \<times> nat) option option" where
  "alloc_from s i bitmap_bytes =
     (if i < bitmap_bytes
      then
        (if BITMAP_BYTES \<le> i then None
         else if ef_bitmap_buf s ! i \<noteq> 0xFF
         then (case alloc_in_byte s i of Some b \<Rightarrow> Some (Some (i, b)) | None \<Rightarrow> alloc_from s (Suc i) bitmap_bytes)
         else alloc_from s (Suc i) bitmap_bytes)
      else Some None)"
  by pat_completeness auto
termination
  by (relation "measure (\<lambda>(s, i, n). n - i)") auto

declare alloc_from.simps [simp del]

definition bitmap_alloc :: "'s sd_driver \<Rightarrow> 's ekkfs \<Rightarrow> (int \<times> 's ekkfs) option" where
  "bitmap_alloc hal s =
     (let total_data_blocks = sb_total_blocks (ef_superblock s) - sb_data_start (ef_superblock s);
          bitmap_bytes = unat ((total_data_blocks + 7) div 8)
      in do {
        found \<leftarrow> alloc_from s 0 bitmap_bytes;
        case found of
          None \<Rightarrow> Some (- 1, s)
        | Some (i, b) \<Rightarrow>
            (let block = alloc_block_of s i b;
                 s = add_free_blocks (- 1) (s\<lparr>ef_bitmap_buf := (ef_bitmap_buf s)[i := ef_bitmap_buf s ! i OR push_bit b 1]\<rparr>);
                 s = (if js_tx_active (ef_journal s) then snd (ekkfs_journal_log hal 5 0 block 0 block s) else s)
             in Some (sint block, s))
      })"

definition bitmap_free :: "'s sd_driver \<Rightarrow> u32 \<Rightarrow> 's ekkfs \<Rightarrow> 's ekkfs option" where
  "bitmap_free hal block_num s =
     (if block_num \<ge> sb_data_start (ef_superblock s)
      then do {
        s \<leftarrow> bitmap_set block_num False
          (if js_tx_active (ef_journal s) then snd (ekkfs_journal_log hal 6 0 block_num block_num 0 s) else s);
        Some (add_free_blocks 1 s)
      }
      else Some s)"

function bitmap_load_from :: "'s sd_driver \<Rightarrow> nat \<Rightarrow> nat \<Rightarrow> 's ekkfs \<Rightarrow> (int \<times> 's ekkfs) option" where
  "bitmap_load_from hal i n s =
     (if i < n
      then
        (if 8 \<le> i then None
         else
           (case read_block hal s (sb_bitmap_start (ef_superblock s) + of_nat i) of
              (None, s) \<Rightarrow> Some (EKKFS_ERR_IO, s)
            | (Some buffer, s) \<Rightarrow> bitmap_load_from hal (Suc i) n (s\<lparr>ef_bitmap_buf := splice (ef_bitmap_buf s) (512 * i) buffer\<rparr>)))
      else Some (EKKFS_OK, s))"
  by pat_completeness auto
termination
  by (relation "measure (\<lambda>(hal, i, n, s). n - i)") auto

declare bitmap_load_from.simps [simp del]

definition bitmap_load :: "'s sd_driver \<Rightarrow> 's ekkfs \<Rightarrow> (int \<times> 's ekkfs) option" where
  "bitmap_load hal s = bitmap_load_from hal 0 (unat (ef_bitmap_blocks s)) s"

function bitmap_save_from :: "'s sd_driver \<Rightarrow> nat \<Rightarrow> nat \<Rightarrow> 's ekkfs \<Rightarrow> (int \<times> 's ekkfs) option" where
  "bitmap_save_from hal i n s =
     (if i < n
      then
        (if 8 \<le> i then None
         else
           (case write_block hal s (sb_bitmap_start (ef_superblock s) + of_nat i) (field (ef_bitmap_buf s) (512 * i) 512) of
              (False, s) \<Rightarrow> Some (EKKFS_ERR_IO, s)
            | (True, s) \<Rightarrow> bitmap_save_from hal (Suc i) n s))
      else Some (EKKFS_OK, s))"
  by pat_completeness auto
termination
  by (relation "measure (\<lambda>(hal, i, n, s). n - i)") auto

declare bitmap_save_from.simps [simp del]

definition bitmap_save :: "'s sd_driver \<Rightarrow> 's ekkfs \<Rightarrow> (int \<times> 's ekkfs) option" where
  "bitmap_save hal s = bitmap_save_from hal 0 (unat (ef_bitmap_blocks s)) s"

definition ekkfs_sync :: "'s sd_driver \<Rightarrow> 's ekkfs \<Rightarrow> (int \<times> 's ekkfs) option" where
  "ekkfs_sync hal s =
     (if \<not> ef_mounted s then Some (EKKFS_ERR_NOT_MOUNTED, s)
      else do {
        (saved, s) \<leftarrow> bitmap_save hal (snd (cache_flush hal s));
        if saved \<noteq> EKKFS_OK then Some (EKKFS_ERR_IO, s)
        else
          (let s = s\<lparr>ef_superblock := seal_superblock (ef_superblock s)\<rparr>;
               (ok, sd) = sd_write_block hal (ef_sd s) (ef_partition_lba s) (superblock_bytes (ef_superblock s));
               s = s\<lparr>ef_sd := sd\<rparr>
           in Some (if \<not> ok then EKKFS_ERR_IO else EKKFS_OK, s))
      })"

section \<open>Transactions\<close>

definition ekkfs_tx_begin :: "'s sd_driver \<Rightarrow> 's ekkfs \<Rightarrow> int \<times> 's ekkfs" where
  "ekkfs_tx_begin hal s =
     (if \<not> ef_mounted s then (EKKFS_ERR_NOT_MOUNTED, s)
      else if js_tx_active (ef_journal s) then (EKKFS_ERR_INVALID, s)
      else
        (let seq = jh_sequence (ef_header s);
             s = s\<lparr>ef_journal := (ef_journal s)\<lparr>js_current_tx_seq := seq, js_tx_active := True, js_dirty := True\<rparr>\<rparr>;
             s = update_header (\<lambda>h. seal_header (h\<lparr>jh_tx_active := 1, jh_tx_start_seq := seq\<rparr>)) s;
             (ok, s) = store_header hal s
         in if \<not> ok then (EKKFS_ERR_IO, s\<lparr>ef_journal := (ef_journal s)\<lparr>js_tx_active := False\<rparr>\<rparr>) else (sint seq, s)))"

definition ekkfs_tx_commit :: "'s sd_driver \<Rightarrow> 's ekkfs \<Rightarrow> (int \<times> 's ekkfs) option" where
  "ekkfs_tx_commit hal s =
     (if \<not> ef_mounted s then Some (EKKFS_ERR_NOT_MOUNTED, s)
      else if \<not> js_tx_active (ef_journal s) then Some (EKKFS_ERR_INVALID, s)
      else
        (let (result, s) = ekkfs_journal_log hal 7 0 0 0 0 s
         in if result \<noteq> EKKFS_OK then Some (result, s)
            else
              (let s = update_header (\<lambda>h. seal_header (h\<lparr>jh_tx_active := 0, jh_sequence := jh_sequence h + 1\<rparr>)) s;
                   (ok, s) = store_header hal s
               in if \<not> ok then Some (EKKFS_ERR_IO, s)
                  else do {
                    (result, s) \<leftarrow> ekkfs_sync hal s;
                    Some (EKKFS_OK, s\<lparr>ef_journal := (ef_journal s)\<lparr>js_tx_active := False, js_dirty := False\<rparr>\<rparr>)
                  })))"

text \<open>
  An allocation is undone by freeing its block, and the other way round. The sequence of the journal
  is not undone.
\<close>

definition roll_back :: "ekkfs_journal_entry \<Rightarrow> u32 \<times> 's ekkfs \<Rightarrow> (u32 \<times> 's ekkfs) option" where
  "roll_back entry r =
     (let (n, s) = r
      in if je_type entry = 5 then do { s \<leftarrow> bitmap_set (je_new_value entry) False s; Some (n + 1, add_free_blocks 1 s) }
         else if je_type entry = 6 then do { s \<leftarrow> bitmap_set (je_old_value entry) True s; Some (n + 1, add_free_blocks (- 1) s) }
         else Some (n, s))"

definition entry_at :: "u8 list \<Rightarrow> nat \<Rightarrow> ekkfs_journal_entry" where
  "entry_at buffer offset = journal_entry_of_bytes (field buffer offset 32)"

partial_function (option) abort_from :: "'s sd_driver \<Rightarrow> u32 \<Rightarrow> u32 \<times> 's ekkfs \<Rightarrow> (u32 \<times> 's ekkfs) option" where
  "abort_from hal pos r =
     (if pos = jh_head (ef_header (snd r)) then Some r
      else
        (let (block_idx, entry_offset) = journal_entry_location pos;
             (buffer, s) = journal_read_block hal (snd r) block_idx
         in case buffer of
              None \<Rightarrow> Some (fst r, s)
            | Some buffer \<Rightarrow>
                (let entry = entry_at buffer entry_offset
                 in do {
                   r \<leftarrow> (if je_sequence entry \<ge> jh_tx_start_seq (ef_header s) \<and> je_type entry \<noteq> 0
                         then roll_back entry (fst r, s) else Some (fst r, s));
                   abort_from hal ((pos + 1) mod journal_total_entries) r
                 })))"

definition ekkfs_tx_abort :: "'s sd_driver \<Rightarrow> 's ekkfs \<Rightarrow> (int \<times> 's ekkfs) option" where
  "ekkfs_tx_abort hal s =
     (if \<not> ef_mounted s then Some (EKKFS_ERR_NOT_MOUNTED, s)
      else if \<not> js_tx_active (ef_journal s) then Some (EKKFS_ERR_INVALID, s)
      else do {
        (rollback_count, s) \<leftarrow> abort_from hal (jh_tail (ef_header s)) (0, s);
        let s = snd (store_header hal (update_header (\<lambda>h. seal_header (h\<lparr>jh_tx_active := 0\<rparr>)) s));
        s \<leftarrow> (if rollback_count > 0 then map_option snd (bitmap_save hal s) else Some s);
        Some (EKKFS_OK, s\<lparr>ef_journal := (ef_journal s)\<lparr>js_tx_active := False, js_dirty := False\<rparr>\<rparr>)
      })"

section \<open>Recovery\<close>

text \<open>
  The pointer to the header goes into the buffer that the blocks of the journal are read into: from
  the first entry on, the head and the starting sequence are read from the block just read.
\<close>

partial_function (option) recover_from :: "'s sd_driver \<Rightarrow> u8 list \<Rightarrow> u32 \<Rightarrow> u32 \<times> 's ekkfs \<Rightarrow> (u32 \<times> 's ekkfs) option" where
  "recover_from hal journal_buf pos r =
     (if pos = jh_head (journal_header_of_bytes journal_buf) then Some r
      else
        (let (block_idx, entry_offset) = journal_entry_location pos;
             (buffer, s) = journal_read_block hal (snd r) block_idx
         in case buffer of
              None \<Rightarrow> Some (fst r, s)
            | Some buffer \<Rightarrow>
                (let entry = entry_at buffer entry_offset
                 in do {
                   r \<leftarrow> (if je_sequence entry \<ge> jh_tx_start_seq (journal_header_of_bytes buffer) \<and> je_type entry \<noteq> 7 \<and> je_type entry \<noteq> 0
                         then roll_back entry (fst r, s) else Some (fst r, s));
                   recover_from hal buffer ((pos + 1) mod journal_total_entries) r
                 })))"

definition ekkfs_journal_recover :: "'s sd_driver \<Rightarrow> 's ekkfs \<Rightarrow> (int \<times> 's ekkfs) option" where
  "ekkfs_journal_recover hal s =
     (case read_block hal s (sb_journal_start (ef_superblock s)) of
        (None, s) \<Rightarrow> Some (EKKFS_ERR_IO, s)
      | (Some buffer, s) \<Rightarrow>
          (let header = journal_header_of_bytes buffer
           in if jh_magic header \<noteq> 0x4A524E4C then Some (ekkfs_journal_init hal s)
              else if ekkfs_crc32 (take 32 buffer) \<noteq> jh_crc32 header then Some (ekkfs_journal_init hal s)
              else
                (let s = s\<lparr>ef_journal := (ef_journal s)\<lparr>js_header := header, js_tx_active := False, js_dirty := False\<rparr>\<rparr>
                 in if jh_tx_active header = 0 then Some (EKKFS_OK, s)
                    else do {
                      (rollback_count, s) \<leftarrow> recover_from hal buffer (jh_tail header) (0, s);
                      s \<leftarrow> (if rollback_count > 0 then map_option snd (bitmap_save hal s) else Some s);
                      let s = update_header (\<lambda>h. seal_header (h\<lparr>jh_tx_active := 0\<rparr>)) s;
                      let (ok, s) = write_block hal s (sb_journal_start (ef_superblock s))
                        (splice (replicate 512 0) 0 (journal_header_bytes (ef_header s)));
                      Some (if \<not> ok then EKKFS_ERR_IO else EKKFS_OK, s)
                    })))"

section \<open>Bytes of the structures\<close>

lemma length_splice [simp]: "offset + length bs \<le> length buf \<Longrightarrow> length (splice buf offset bs) = length buf"
  by (simp add: splice_def)

lemma field_splice_same: "offset + length bs \<le> length buf \<Longrightarrow> n = length bs \<Longrightarrow> field (splice buf offset bs) offset n = bs"
  by (simp add: splice_def field_def)

lemma nth_splice_bytes:
  "offset + length bs \<le> length buf \<Longrightarrow> i < length buf \<Longrightarrow>
    splice buf offset bs ! i = (if offset \<le> i \<and> i < offset + length bs then bs ! (i - offset) else buf ! i)"
  by (auto simp: splice_def nth_append min_def)

lemma field_splice_other:
  assumes "offset + length bs \<le> length buf" "at + n \<le> offset \<or> offset + length bs \<le> at" "at + n \<le> length buf"
  shows "field (splice buf offset bs) at n = field buf at n"
  by (rule nth_equalityI) (use assms in \<open>auto simp: field_def nth_splice_bytes\<close>)

lemma length_journal_entry_bytes [simp]: "length (journal_entry_bytes e) = 32"
  by (simp add: journal_entry_bytes_def)

lemma entry_round_trip [simp]: "journal_entry_of_bytes (journal_entry_bytes e) = e"
  by (cases e) (simp add: journal_entry_of_bytes_def journal_entry_bytes_def)

lemma length_superblock_bytes [simp]: "length (superblock_bytes sb) = 56 + length (sb_reserved sb)"
  by (simp add: superblock_bytes_def)

lemma superblock_round_trip: "length (sb_reserved sb) = 456 \<Longrightarrow> superblock_of_bytes (superblock_bytes sb) = sb"
  by (cases sb) (simp add: superblock_of_bytes_def superblock_bytes_def)

definition header_ok :: "ekkfs_journal_header \<Rightarrow> bool" where
  "header_ok h \<longleftrightarrow> length (jh_reserved h) = 8 \<and> length (jh_padding h) = 24"

lemma length_journal_header_bytes: "header_ok h \<Longrightarrow> length (journal_header_bytes h) = 60"
  by (simp add: journal_header_bytes_def header_ok_def)

lemma header_round_trip: "header_ok h \<Longrightarrow> journal_header_of_bytes (journal_header_bytes h) = h"
  by (cases h) (simp add: journal_header_of_bytes_def journal_header_bytes_def header_ok_def)

lemma entry_at_splice: "offset + 32 \<le> length buf \<Longrightarrow> entry_at (splice buf offset (journal_entry_bytes e)) offset = e"
  by (simp add: entry_at_def field_splice_same)

lemma entry_at_other:
  "offset + 32 \<le> length buf \<Longrightarrow> at + 32 \<le> length buf \<Longrightarrow> at + 32 \<le> offset \<or> offset + 32 \<le> at \<Longrightarrow>
    entry_at (splice buf offset (journal_entry_bytes e)) at = entry_at buf at"
  by (simp add: entry_at_def field_splice_other)

section \<open>Places in the journal\<close>

text \<open>The place of the entry \<open>i\<close> after the entry \<open>h\<close> of the ring.\<close>

definition ring :: "u32 \<Rightarrow> nat \<Rightarrow> u32" where
  "ring h i = of_nat ((unat h + i) mod 62)"

lemma journal_total_entries [simp]: "journal_total_entries = 62"
  by (simp add: journal_total_entries_def)

lemma unat_ring: "unat (ring h i) = (unat h + i) mod 62"
proof -
  have "(unat h + i) mod 62 < 62" by simp
  then show ?thesis unfolding ring_def by (subst unat_small) linarith+
qed

lemma ring_Suc: "(ring h i + 1) mod 62 = ring h (Suc i)"
proof -
  have "unat (ring h i) < 62" by (simp add: unat_ring)
  then have "unat (ring h i + 1) = Suc (unat (ring h i))" by (intro unat_u32_Suc) auto
  then have "unat ((ring h i + 1) mod 62) = unat (ring h (Suc i))"
    by (simp add: unat_mod unat_ring mod_Suc_eq)
  then show ?thesis by (simp add: word_unat_eq_iff)
qed

lemma ring_less: "ring h i < 62"
  by (simp add: word_less_nat_alt unat_ring)

lemma ring_0: "h < 62 \<Longrightarrow> ring h 0 = h"
  by (simp add: ring_def word_less_nat_alt)

lemma ring_inject: "i < j \<Longrightarrow> j < i + 62 \<Longrightarrow> ring h i \<noteq> ring h j"
proof
  assume less: "i < j" "j < i + 62" and eq: "ring h i = ring h j"
  then have "(unat h + i) mod 62 = (unat h + j) mod 62" by (metis unat_ring)
  then have "(62 :: nat) dvd (unat h + j) - (unat h + i)" using less by (metis mod_eq_dvd_iff_nat add_le_cancel_left less_imp_le)
  then have "(62 :: nat) dvd j - i" by simp
  then show False using less by (auto dest: dvd_imp_le)
qed

lemma location_cases:
  assumes "p < 62"
  shows "journal_entry_location p = (if unat p < 14 then (0, 60 + unat p * 32) else (of_nat (1 + (unat p - 14) div 16), (unat p - 14) mod 16 * 32))"
proof (cases "unat p < 14")
  case True
  then show ?thesis by (simp add: journal_entry_location_def word_less_nat_alt)
next
  case False
  then have "unat (p - 14) = unat p - 14" by (simp add: unat_sub word_le_nat_alt)
  moreover from this have "(p - 14) div 16 = of_nat ((unat p - 14) div 16)"
    using unat_u32_less [of p] by (simp only: word_unat_eq_iff unat_div) (subst unat_small, simp_all)
  ultimately show ?thesis using False by (simp add: journal_entry_location_def word_less_nat_alt unat_mod)
qed

lemma location_bounds:
  assumes "p < 62" "journal_entry_location p = (b, off)"
  shows "b < 4" "off + 32 \<le> 512"
proof -
  have p: "unat p < 62" using assms(1) by (simp add: word_less_nat_alt)
  have "b < 4 \<and> off + 32 \<le> 512"
  proof (cases "unat p < 14")
    case True
    then show ?thesis using assms by (auto simp: location_cases)
  next
    case False
    then have "1 + (unat p - 14) div 16 < 4" using p by (simp add: div_less_iff_less_mult)
    moreover have "(unat p - 14) mod 16 < 16" by simp
    moreover have "b = of_nat (1 + (unat p - 14) div 16)" "off = (unat p - 14) mod 16 * 32" using False assms by (simp_all add: location_cases)
    moreover from calculation(1) have "unat b = 1 + (unat p - 14) div 16" unfolding calculation(3) by (subst unat_small) simp_all
    moreover have "(unat p - 14) mod 16 \<le> 15" using mod_less_divisor [of 16 "unat p - 14"] by linarith
    ultimately show ?thesis by (simp add: word_less_nat_alt)
  qed
  then show "b < 4" "off + 32 \<le> 512" by simp_all
qed

lemma location_apart:
  assumes "p < 62" "q < 62" "p \<noteq> q" "journal_entry_location p = (b, off)" "journal_entry_location q = (b, off')"
  shows "off + 32 \<le> off' \<or> off' + 32 \<le> off"
proof -
  have p: "unat p < 62" "unat q < 62" "unat p \<noteq> unat q" using assms(1-3) by (simp_all add: word_less_nat_alt word_unat_eq_iff)
  have first: "unat r < 14 \<longleftrightarrow> c = 0" if "r < 62" "journal_entry_location r = (c, o')" for r c and o' :: nat
  proof (cases "unat r < 14")
    case False
    then have "1 + (unat r - 14) div 16 < 4" using that by (simp add: word_less_nat_alt div_less_iff_less_mult)
    moreover have "c = of_nat (1 + (unat r - 14) div 16)" using False that by (simp add: location_cases)
    ultimately have "unat c = 1 + (unat r - 14) div 16" by (simp only:) (subst unat_small, simp_all)
    then have "c \<noteq> 0" by auto
    with False show ?thesis by simp
  qed (use that in \<open>simp add: location_cases\<close>)
  show ?thesis
  proof (cases "b = 0")
    case True
    then show ?thesis using first [OF assms(1,4)] first [OF assms(2,5)] assms p by (auto simp: location_cases)
  next
    case False
    then have ge: "\<not> unat p < 14" "\<not> unat q < 14" using first [OF assms(1,4)] first [OF assms(2,5)] by simp_all
    have lt: "1 + (unat p - 14) div 16 < 4" "1 + (unat q - 14) div 16 < 4" using p by (simp_all add: div_less_iff_less_mult)
    have "(of_nat (1 + (unat p - 14) div 16) :: u32) = of_nat (1 + (unat q - 14) div 16)"
      using assms ge by (simp add: location_cases)
    then have "(unat p - 14) div 16 = (unat q - 14) div 16"
      using lt of_nat_eq_small [of "1 + (unat p - 14) div 16" "1 + (unat q - 14) div 16"] by simp
    then have "(unat p - 14) mod 16 \<noteq> (unat q - 14) mod 16"
      using ge p(3) by (metis div_mult_mod_eq diff_diff_cancel linorder_not_less eq_diff_iff)
    moreover have "off = (unat p - 14) mod 16 * 32" "off' = (unat q - 14) mod 16 * 32" using ge assms by (simp_all add: location_cases)
    ultimately show ?thesis by auto
  qed
qed

section \<open>Bits\<close>

definition used :: "u8 list \<Rightarrow> nat \<Rightarrow> bool" where
  "used buf x = bit (buf ! (x div 8)) (x mod 8)"

lemma bitmap_ext:
  assumes "length a = 4096" "length b = 4096" "\<forall>x < 32768. used a x = used b x"
  shows "a = b"
proof (rule nth_equalityI)
  show "length a = length b" using assms by simp
  fix i assume i: "i < length a"
  show "a ! i = b ! i"
  proof (rule bit_word_eqI)
    fix k assume k: "k < LENGTH(8)"
    then have "8 * i + k < 32768" "(8 * i + k) div 8 = i" "(8 * i + k) mod 8 = k" using i assms by simp_all
    then show "bit (a ! i) k \<longleftrightarrow> bit (b ! i) k" using assms(3) unfolding used_def by metis
  qed
qed

lemma used_update:
  assumes "length buf = 4096" "x < 32768" "k < 8" "i < 4096" "\<forall>j < 8. bit w j = (if j = k then u else bit (buf ! i) j)"
  shows "used (buf[i := w]) x = (if x = 8 * i + k then u else used buf x)"
proof (cases "x div 8 = i")
  case True
  then have x: "x = 8 * i + x mod 8" using mult_div_mod_eq [of 8 x] by simp
  have "x mod 8 < 8" by simp
  with assms(5) have "bit w (x mod 8) = (if x mod 8 = k then u else bit (buf ! i) (x mod 8))" by blast
  then show ?thesis using True assms(1,4) x unfolding used_def by (metis add_left_cancel nth_list_update_eq)
next
  case False
  then have "x \<noteq> 8 * i + k" using assms(3) by auto
  then show ?thesis using False by (simp add: used_def)
qed

definition block_index :: "'s ekkfs \<Rightarrow> u32 \<Rightarrow> nat" where
  "block_index s b = unat (b - sb_data_start (ef_superblock s))"

lemma bitmap_set_used:
  assumes len: "length (ef_bitmap_buf s) = 4096" and b: "sb_data_start (ef_superblock s) \<le> b" and idx: "block_index s b < 32768"
  shows "\<exists>buf. bitmap_set b u s = Some (s\<lparr>ef_bitmap_buf := buf\<rparr>) \<and> length buf = 4096 \<and>
    (\<forall>x < 32768. used buf x = (if x = block_index s b then u else used (ef_bitmap_buf s) x))"
proof -
  let ?d = "b - sb_data_start (ef_superblock s)"
  let ?i = "unat ?d div 8" and ?k = "unat ?d mod 8"
  let ?old = "ef_bitmap_buf s ! ?i"
  let ?w = "if u then ?old OR push_bit ?k 1 else ?old AND NOT (push_bit ?k 1)"
  have lt: "?i < 4096" using idx by (simp add: block_index_def)
  have ui: "unat (?d div 8) = ?i" "unat (?d mod 8) = ?k" by (simp_all add: unat_div unat_mod)
  have bits: "\<forall>j < 8. bit ?w j = (if j = ?k then u else bit ?old j)"
    by (auto simp: bit_or_iff bit_and_iff bit_not_iff bit_exp_iff)
  have "bitmap_set b u s = Some (s\<lparr>ef_bitmap_buf := (ef_bitmap_buf s)[?i := ?w]\<rparr>)"
    using lt b by (simp add: bitmap_set_def Let_def ui not_less [symmetric])
  moreover have "used ((ef_bitmap_buf s)[?i := ?w]) x = (if x = block_index s b then u else used (ef_bitmap_buf s) x)" if "x < 32768" for x
    using used_update [OF len that _ lt bits] by (simp add: block_index_def)
  ultimately show ?thesis using len by fastforce
qed

text \<open>The sizes for which the arithmetic of the code is exact.\<close>

definition fs_layout :: "u32 \<Rightarrow> 's ekkfs \<Rightarrow> bool" where
  "fs_layout n s \<longleftrightarrow>
     (let sb = ef_superblock s
      in sb_data_start sb \<le> sb_total_blocks sb \<and> unat (sb_total_blocks sb) - unat (sb_data_start sb) \<le> 32768 \<and>
         sb_total_blocks sb < 0x80000000 \<and> length (ef_bitmap_buf s) = 4096 \<and> header_ok (ef_header s) \<and>
         unat (sb_journal_start sb) + 4 \<le> unat n \<and> unat (sb_bitmap_start sb) + unat (ef_bitmap_blocks s) \<le> unat (sb_journal_start sb) \<and>
         unat (ef_bitmap_blocks s) \<le> 8)"

definition data_count :: "'s ekkfs \<Rightarrow> nat" where
  "data_count s = unat (sb_total_blocks (ef_superblock s)) - unat (sb_data_start (ef_superblock s))"

lemma layoutD:
  assumes "fs_layout n s"
  shows "unat (sb_data_start (ef_superblock s)) + data_count s = unat (sb_total_blocks (ef_superblock s))" "data_count s \<le> 32768"
    "unat (sb_total_blocks (ef_superblock s)) < 2147483648" "length (ef_bitmap_buf s) = 4096" "header_ok (ef_header s)"
    "unat (sb_journal_start (ef_superblock s)) + 4 \<le> unat n"
    "unat (sb_bitmap_start (ef_superblock s)) + unat (ef_bitmap_blocks s) \<le> unat (sb_journal_start (ef_superblock s))" "unat (ef_bitmap_blocks s) \<le> 8"
  using assms by (simp_all add: fs_layout_def Let_def data_count_def word_le_nat_alt word_less_nat_alt)

lemma data_block:
  assumes L: "fs_layout n s" and x: "x \<le> 40000"
  shows "unat (sb_data_start (ef_superblock s) + of_nat x) = unat (sb_data_start (ef_superblock s)) + x"
    "block_index s (sb_data_start (ef_superblock s) + of_nat x) = x"
    "sb_data_start (ef_superblock s) \<le> sb_data_start (ef_superblock s) + of_nat x"
    "sb_data_start (ef_superblock s) + of_nat x < sb_total_blocks (ef_superblock s) \<longleftrightarrow> x < data_count s"
proof -
  have u: "unat (of_nat x :: u32) = x" using x by (simp add: unat_small)
  have "unat (sb_data_start (ef_superblock s)) + x < 2 ^ 32" using layoutD(1,3) [OF L] x by simp
  then show a: "unat (sb_data_start (ef_superblock s) + of_nat x) = unat (sb_data_start (ef_superblock s)) + x"
    using u by (simp add: unat_word_ariths)
  show "block_index s (sb_data_start (ef_superblock s) + of_nat x) = x" by (simp add: block_index_def u)
  show "sb_data_start (ef_superblock s) \<le> sb_data_start (ef_superblock s) + of_nat x" by (simp add: word_le_nat_alt a)
  show "sb_data_start (ef_superblock s) + of_nat x < sb_total_blocks (ef_superblock s) \<longleftrightarrow> x < data_count s"
    using layoutD(1) [OF L] by (auto simp: word_less_nat_alt a)
qed

lemma alloc_block_of_index: "alloc_block_of s i b = sb_data_start (ef_superblock s) + of_nat (8 * i + b)"
  by (simp add: alloc_block_of_def)

lemma alloc_in_byte_spec:
  assumes L: "fs_layout n s" and i: "i < 4096"
  shows "case alloc_in_byte s i of
      None \<Rightarrow> \<forall>b < 8. 8 * i + b < data_count s \<longrightarrow> used (ef_bitmap_buf s) (8 * i + b)
    | Some b \<Rightarrow> b < 8 \<and> 8 * i + b < data_count s \<and> \<not> used (ef_bitmap_buf s) (8 * i + b) \<and> (\<forall>c < b. used (ef_bitmap_buf s) (8 * i + c))"
proof -
  let ?P = "\<lambda>b. \<not> bit (ef_bitmap_buf s ! i) b \<and> alloc_block_of s i b < sb_total_blocks (ef_superblock s)"
  have P: "?P b \<longleftrightarrow> \<not> used (ef_bitmap_buf s) (8 * i + b) \<and> 8 * i + b < data_count s" if "b < 8" for b
    using data_block(4) [OF L, of "8 * i + b"] that i by (simp add: alloc_block_of_index used_def)
  show ?thesis
  proof (cases "alloc_in_byte s i")
    case None
    then have "\<not> ?P b" if "b < 8" for b using that by (simp add: alloc_in_byte_def find_None_iff)
    then show ?thesis using None P by auto
  next
    case (Some b)
    then obtain j where j: "j < 8" "?P j" "b = j" "\<forall>c < j. \<not> ?P c"
      by (auto simp: alloc_in_byte_def find_Some_iff)
    then show ?thesis using Some P by (auto dest: less_trans)
  qed
qed

definition found_from :: "'s ekkfs \<Rightarrow> nat \<Rightarrow> nat \<Rightarrow> (nat \<times> nat) option \<Rightarrow> bool" where
  "found_from s lo m r \<longleftrightarrow>
     (case r of
        None \<Rightarrow> \<forall>x. lo \<le> x \<and> x < 8 * m \<and> x < data_count s \<longrightarrow> used (ef_bitmap_buf s) x
      | Some (j, b) \<Rightarrow> j < m \<and> b < 8 \<and> 8 * j + b < data_count s \<and> \<not> used (ef_bitmap_buf s) (8 * j + b) \<and>
          (\<forall>x. lo \<le> x \<and> x < 8 * j + b \<longrightarrow> used (ef_bitmap_buf s) x))"

lemma found_earlier:
  assumes "found_from s (8 * Suc i) m r" and full: "\<forall>b < 8. 8 * i + b < data_count s \<longrightarrow> used (ef_bitmap_buf s) (8 * i + b)"
  shows "found_from s (8 * i) m r"
proof -
  have "used (ef_bitmap_buf s) x" if "8 * i \<le> x" "\<not> 8 * Suc i \<le> x" "x < data_count s" for x
    using full [rule_format, of "x - 8 * i"] that by simp
  with assms(1) show ?thesis
    unfolding found_from_def by (cases r) (auto, (metis less_trans mult_Suc_right not_le)+)
qed

lemma full_byte: "b < 8 \<Longrightarrow> bit (0xFF :: u8) b"
proof -
  assume "b < 8"
  then have "b \<in> {0, 1, 2, 3, 4, 5, 6, 7}" by auto
  then show "bit (0xFF :: u8) b" by (elim insertE) (simp_all add: bit_iff_odd_drop_bit)
qed

lemma alloc_from_spec:
  assumes L: "fs_layout n s" and m: "m \<le> 4096"
  shows "\<exists>r. alloc_from s i m = Some r \<and> found_from s (8 * i) m r"
proof (induction "m - i" arbitrary: i)
  case 0
  then have "\<not> (8 * i \<le> x \<and> x < 8 * m)" for x by auto
  then show ?case using 0 by (auto simp: alloc_from.simps [of s i m] found_from_def)
next
  case (Suc d)
  then have i: "i < m" "i < 4096" using m by simp_all
  show ?case
  proof (cases "ef_bitmap_buf s ! i \<noteq> 0xFF \<and> alloc_in_byte s i \<noteq> None")
    case True
    then obtain b where b: "alloc_in_byte s i = Some b" by blast
    then have "alloc_from s i m = Some (Some (i, b))" using True i by (simp add: alloc_from.simps [of s i m])
    moreover have "\<forall>c < b. used (ef_bitmap_buf s) (8 * i + c)" using alloc_in_byte_spec [OF L i(2)] by (simp add: b)
    then have "used (ef_bitmap_buf s) x" if "8 * i \<le> x" "x < 8 * i + b" for x
      using that by (auto dest: spec [of _ "x - 8 * i"])
    ultimately show ?thesis using alloc_in_byte_spec [OF L i(2)] i by (auto simp: b found_from_def)
  next
    case False
    have full: "\<forall>b < 8. 8 * i + b < data_count s \<longrightarrow> used (ef_bitmap_buf s) (8 * i + b)"
    proof (cases "ef_bitmap_buf s ! i = 0xFF")
      case True
      then have "used (ef_bitmap_buf s) (8 * i + b)" if "b < 8" for b using full_byte [OF that] that by (simp add: used_def)
      then show ?thesis by blast
    next
      case False': False
      then have "alloc_in_byte s i = None" using False by simp
      then show ?thesis using alloc_in_byte_spec [OF L i(2)] by simp
    qed
    have "alloc_from s i m = alloc_from s (Suc i) m"
      using False i by (auto simp: alloc_from.simps [of s i m])
    moreover have "d = m - Suc i" using Suc.hyps(2) by simp
    from Suc.hyps(1) [OF this] obtain r where "alloc_from s (Suc i) m = Some r" "found_from s (8 * Suc i) m r" by blast
    ultimately show ?thesis using found_earlier [OF _ full] by fastforce
  qed
qed

text \<open>An allocation takes the first free block, if there is one.\<close>

definition free_blocks_of :: "'s ekkfs \<Rightarrow> nat set" where
  "free_blocks_of s = {x. x < data_count s \<and> \<not> used (ef_bitmap_buf s) x}"

lemma alloc_finds_least:
  assumes L: "fs_layout n s"
  shows "\<exists>r. alloc_from s 0 (unat ((sb_total_blocks (ef_superblock s) - sb_data_start (ef_superblock s) + 7) div 8)) = Some r \<and>
    (case r of
       None \<Rightarrow> free_blocks_of s = {}
     | Some (j, b) \<Rightarrow> j < 4096 \<and> b < 8 \<and> 8 * j + b \<in> free_blocks_of s \<and> (\<forall>x \<in> free_blocks_of s. 8 * j + b \<le> x))"
proof -
  have dc: "unat (sb_total_blocks (ef_superblock s) - sb_data_start (ef_superblock s)) = data_count s"
    using L by (simp add: fs_layout_def Let_def data_count_def unat_sub)
  then have m: "unat ((sb_total_blocks (ef_superblock s) - sb_data_start (ef_superblock s) + 7) div 8) = (data_count s + 7) div 8"
    using layoutD(2) [OF L] by (simp add: unat_div unat_word_ariths)
  have le: "(data_count s + 7) div 8 \<le> 4096" "\<And>x. x < data_count s \<Longrightarrow> x < 8 * ((data_count s + 7) div 8)"
    using layoutD(2) [OF L] by (simp, presburger)
  obtain r where "alloc_from s 0 ((data_count s + 7) div 8) = Some r" "found_from s 0 ((data_count s + 7) div 8) r"
    using alloc_from_spec [OF L le(1), of 0] by auto
  then show ?thesis
    unfolding m using le by (cases r) (auto simp: free_blocks_of_def found_from_def not_le intro: leI)
qed

section \<open>Logging in a transaction\<close>

lemma disk_is_cong:
  assumes "disk_is hal blk base n f s" "ef_sd s' = ef_sd s" "ef_cache s' = ef_cache s" "ef_partition_lba s' = ef_partition_lba s"
  shows "disk_is hal blk base n f s'"
  using assms by (simp add: disk_is_def)

lemma disk_is_time:
  assumes d: "disk_is hal blk base n f s" and t: "hal_time_us hal (ef_sd s) = (now, sd)"
  shows "disk_is hal blk base n f (s\<lparr>ef_sd := sd\<rparr>)"
proof -
  have "\<forall>b < n. blk (snd (hal_time_us hal (ef_sd s))) b = blk (ef_sd s) b" using d by (simp add: disk_is_def sd_partition_def)
  then show ?thesis using d t by (simp add: disk_is_def)
qed

abbreviation journal_block :: "'s ekkfs \<Rightarrow> u32 \<Rightarrow> u32" where
  "journal_block s p \<equiv> sb_journal_start (ef_superblock s) + fst (journal_entry_location p)"

lemma journal_block_less: "fs_layout n s \<Longrightarrow> c < 4 \<Longrightarrow> sb_journal_start (ef_superblock s) + c < n"
  using unat_u32_less [of n] layoutD(6) [of n s] by (simp add: word_less_nat_alt unat_word_ariths)

lemma journal_read_ok:
  assumes "disk_is hal blk base n f s" "fs_layout n s" "c < 4"
  shows "\<exists>s'. journal_read_block hal s c = (Some (f (sb_journal_start (ef_superblock s) + c)), s') \<and> disk_is hal blk base n f s' \<and> io_only s s'"
  using read_block_ok [OF assms(1) journal_block_less [OF assms(2,3)]] assms(3) by (simp add: journal_read_block_def not_le)

lemma journal_write_ok:
  assumes "disk_is hal blk base n f s" "fs_layout n s" "c < 4" "length data = 512"
  shows "\<exists>s'. journal_write_block hal s c data = (True, s') \<and>
    disk_is hal blk base n (f(sb_journal_start (ef_superblock s) + c := data)) s' \<and> io_only s s'"
  using write_block_ok [OF assms(1) journal_block_less [OF assms(2,3)] assms(4)] assms(3) by (simp add: journal_write_block_def not_le)

lemma io_only_layout: "io_only s s' \<Longrightarrow> fs_layout n s' = fs_layout n s"
  by (simp add: io_only_def fs_layout_def)

lemma io_only_journal_start: "io_only s s' \<Longrightarrow> ef_superblock s' = ef_superblock s"
  by (simp add: io_only_def)

lemma store_header_ok:
  assumes d: "disk_is hal blk base n f s" and L: "fs_layout n s"
  shows "\<exists>s'. store_header hal s = (True, s') \<and> io_only s s' \<and>
    (let b = sb_journal_start (ef_superblock s) in disk_is hal blk base n (f(b := splice (f b) 0 (journal_header_bytes (ef_header s)))) s')"
proof -
  obtain s1 where r: "journal_read_block hal s 0 = (Some (f (sb_journal_start (ef_superblock s))), s1)" "disk_is hal blk base n f s1" "io_only s s1"
    using journal_read_ok [OF d L, of 0] by auto
  have L1: "fs_layout n s1" using L io_only_layout [OF r(3)] by simp
  let ?data = "splice (f (sb_journal_start (ef_superblock s))) 0 (journal_header_bytes (ef_header s1))"
  have "sb_journal_start (ef_superblock s) < n" using journal_block_less [OF L, of 0] by simp
  then have "length ?data = 512"
    using disk_lengths [OF d] length_journal_header_bytes [OF layoutD(5) [OF L1]] by simp
  from journal_write_ok [OF r(2) L1 _ this, of 0] obtain s2 where
    "journal_write_block hal s1 0 ?data = (True, s2)" "disk_is hal blk base n (f(sb_journal_start (ef_superblock s1) := ?data)) s2" "io_only s1 s2"
    by auto
  moreover have "ef_header s1 = ef_header s" "ef_superblock s1 = ef_superblock s" using r(3) by (simp_all add: io_only_def)
  ultimately show ?thesis using r io_only_trans [OF r(3)] by (auto simp: store_header_def Let_def)
qed

lemma log_ok:
  assumes d: "disk_is hal blk base n f s" and L: "fs_layout n s" and m: "ef_mounted s" "js_tx_active (ef_journal s)"
    and h: "jh_head (ef_header s) < 62" "(jh_head (ef_header s) + 1) mod 62 \<noteq> jh_tail (ef_header s)"
  shows "\<exists>now s'. ekkfs_journal_log hal ty ino block old new s = (EKKFS_OK, s') \<and>
    (let p = jh_head (ef_header s);
         e = make_entry (js_current_tx_seq (ef_journal s)) ty ino block old new now
     in disk_is hal blk base n (f(journal_block s p := splice (f (journal_block s p)) (snd (journal_entry_location p)) (journal_entry_bytes e))) s') \<and>
    io_only (s\<lparr>ef_journal := (ef_journal s)\<lparr>js_header := (ef_header s)\<lparr>jh_head := (jh_head (ef_header s) + 1) mod 62\<rparr>, js_dirty := True\<rparr>\<rparr>) s'"
proof -
  let ?p = "jh_head (ef_header s)"
  obtain b off where loc: "journal_entry_location ?p = (b, off)" by (cases "journal_entry_location ?p")
  have b: "b < 4" "off + 32 \<le> 512" using location_bounds [OF h(1) loc] by simp_all
  obtain now sd where t: "hal_time_us hal (ef_sd s) = (now, sd)" by (cases "hal_time_us hal (ef_sd s)")
  let ?s = "s\<lparr>ef_sd := sd\<rparr>"
  have ds: "disk_is hal blk base n f ?s" by (rule disk_is_time [OF d t])
  have Ls: "fs_layout n ?s" using L by (simp add: fs_layout_def)
  let ?jb = "sb_journal_start (ef_superblock s) + b"
  obtain s1 where r: "journal_read_block hal ?s b = (Some (f ?jb), s1)" "disk_is hal blk base n f s1" "io_only ?s s1"
    using journal_read_ok [OF ds Ls b(1)] by auto
  have L1: "fs_layout n s1" using Ls io_only_layout [OF r(3)] by simp
  let ?e = "make_entry (js_current_tx_seq (ef_journal s)) ty ino block old new now"
  let ?data = "splice (f ?jb) off (journal_entry_bytes ?e)"
  have "length (f ?jb) = 512" using disk_lengths [OF d] journal_block_less [OF L b(1)] by simp
  then have "length ?data = 512" using b(2) by simp
  from journal_write_ok [OF r(2) L1 b(1) this] obtain s2 where
    w: "journal_write_block hal s1 b ?data = (True, s2)" "disk_is hal blk base n (f(?jb := ?data)) s2" "io_only s1 s2"
    using io_only_journal_start [OF r(3)] by auto
  let ?s3 = "s2\<lparr>ef_journal := (ef_journal s2)\<lparr>js_header := (ef_header s2)\<lparr>jh_head := (?p + 1) mod 62\<rparr>, js_dirty := True\<rparr>\<rparr>"
  have io: "io_only ?s s2" by (rule io_only_trans [OF r(3) w(3)])
  then have j: "ef_journal s2 = ef_journal s" by (simp add: io_only_def)
  have "ekkfs_journal_log hal ty ino block old new s = (EKKFS_OK, ?s3)"
    using m h(2) t loc r(1) w(1) by (simp add: ekkfs_journal_log_def Let_def update_header_def j)
  moreover have "disk_is hal blk base n (f(?jb := ?data)) ?s3" using w(2) by (rule disk_is_cong) simp_all
  moreover have "io_only (s\<lparr>ef_journal := (ef_journal s)\<lparr>js_header := (ef_header s)\<lparr>jh_head := (?p + 1) mod 62\<rparr>, js_dirty := True\<rparr>\<rparr>) ?s3"
    using io by (simp add: io_only_def)
  ultimately show ?thesis by (auto simp: loc Let_def)
qed

section \<open>Allocation\<close>

text \<open>What allocating the data block \<open>x\<close> does to the state, before it is logged.\<close>

definition takes :: "'s ekkfs \<Rightarrow> nat \<Rightarrow> 's ekkfs \<Rightarrow> bool" where
  "takes s x s' \<longleftrightarrow> s' = add_free_blocks (- 1) (s\<lparr>ef_bitmap_buf := ef_bitmap_buf s'\<rparr>) \<and> length (ef_bitmap_buf s') = 4096 \<and>
     (\<forall>y < 32768. used (ef_bitmap_buf s') y = (y = x \<or> used (ef_bitmap_buf s) y))"

definition block_at :: "'s ekkfs \<Rightarrow> nat \<Rightarrow> u32" where
  "block_at s x = sb_data_start (ef_superblock s) + of_nat x"

lemma finite_free [simp]: "finite (free_blocks_of s)"
  by (simp add: free_blocks_of_def)

lemma sint_small: "unat w < 2147483648 \<Longrightarrow> sint w = int (unat w)" for w :: u32
proof -
  assume "unat w < 2147483648"
  then have "int (unat w) < 2147483648" by linarith
  moreover have "- 2147483648 \<le> int (unat w)" by linarith
  ultimately have "signed_take_bit 31 (int (unat w)) = int (unat w)" by (intro signed_take_bit_int_eq_self) simp_all
  then show ?thesis by (simp add: sint_uint)
qed

lemma bitmap_alloc_takes:
  assumes L: "fs_layout n s"
  shows "if free_blocks_of s = {} then bitmap_alloc hal s = Some (- 1, s)
    else \<exists>s'. takes s (Min (free_blocks_of s)) s' \<and>
      bitmap_alloc hal s = Some (int (unat (block_at s (Min (free_blocks_of s)))),
        if js_tx_active (ef_journal s)
        then snd (ekkfs_journal_log hal 5 0 (block_at s (Min (free_blocks_of s))) 0 (block_at s (Min (free_blocks_of s))) s') else s')"
proof -
  obtain r where r: "alloc_from s 0 (unat ((sb_total_blocks (ef_superblock s) - sb_data_start (ef_superblock s) + 7) div 8)) = Some r"
    "case r of None \<Rightarrow> free_blocks_of s = {}
     | Some (j, b) \<Rightarrow> j < 4096 \<and> b < 8 \<and> 8 * j + b \<in> free_blocks_of s \<and> (\<forall>x \<in> free_blocks_of s. 8 * j + b \<le> x)"
    using alloc_finds_least [OF L] by auto
  show ?thesis
  proof (cases r)
    case None
    then show ?thesis using r by (simp add: bitmap_alloc_def Let_def)
  next
    case (Some jb)
    obtain j b where jb: "jb = (j, b)" by (cases jb)
    let ?x = "8 * j + b"
    have x: "j < 4096" "b < 8" "?x \<in> free_blocks_of s" "\<forall>y \<in> free_blocks_of s. ?x \<le> y" using r(2) by (simp_all add: Some jb)
    then have min: "Min (free_blocks_of s) = ?x" by (intro Min_eqI) auto
    have dc: "?x < data_count s" using x(3) by (simp add: free_blocks_of_def)
    let ?buf = "(ef_bitmap_buf s)[j := ef_bitmap_buf s ! j OR push_bit b 1]"
    let ?s = "add_free_blocks (- 1) (s\<lparr>ef_bitmap_buf := ?buf\<rparr>)"
    have bits: "\<forall>k < 8. bit (ef_bitmap_buf s ! j OR push_bit b 1) k = (if k = b then True else bit (ef_bitmap_buf s ! j) k)"
      using x(2) by (auto simp: bit_or_iff bit_exp_iff)
    have "takes s ?x ?s"
      using used_update [OF layoutD(4) [OF L] _ x(2,1) bits] layoutD(4) [OF L] by (auto simp: takes_def add_free_blocks_def)
    moreover have "sint (alloc_block_of s j b) = int (unat (block_at s ?x))"
    proof -
      have "unat (block_at s ?x) = unat (sb_data_start (ef_superblock s)) + ?x"
        unfolding block_at_def using x by (intro data_block(1) [OF L]) simp
      then have "unat (block_at s ?x) < 2147483648" using layoutD(1,3) [OF L] dc by linarith
      then show ?thesis by (simp add: alloc_block_of_index block_at_def sint_small)
    qed
    ultimately show ?thesis
      using r(1) x(3) unfolding min
      by (auto simp: Some jb bitmap_alloc_def Let_def block_at_def alloc_block_of_index intro!: exI [of _ ?s]) (simp_all add: add_free_blocks_def)
  qed
qed

section \<open>A transaction of allocations\<close>

fun alloc_times :: "'s sd_driver \<Rightarrow> nat \<Rightarrow> 's ekkfs \<Rightarrow> (int list \<times> 's ekkfs) option" where
  "alloc_times hal 0 s = Some ([], s)"
| "alloc_times hal (Suc k) s = do {
     (block, s) \<leftarrow> bitmap_alloc hal s;
     (blocks, s) \<leftarrow> alloc_times hal k s;
     Some (block # blocks, s)
   }"

definition alloc_entry :: "u32 \<Rightarrow> u32 \<Rightarrow> ekkfs_journal_entry \<Rightarrow> bool" where
  "alloc_entry seq b e \<longleftrightarrow> je_sequence e = seq \<and> je_type e = 5 \<and> je_new_value e = b"

text \<open>The entries from \<open>h\<close> on are those of the allocations of \<open>xs\<close>.\<close>

definition logged :: "(u32 \<Rightarrow> u8 list) \<Rightarrow> 's ekkfs \<Rightarrow> u32 \<Rightarrow> u32 \<Rightarrow> nat list \<Rightarrow> bool" where
  "logged f s seq h xs \<longleftrightarrow>
     (\<forall>i < length xs. alloc_entry seq (block_at s (xs ! i)) (entry_at (f (journal_block s (ring h i))) (snd (journal_entry_location (ring h i)))))"

lemma logged_append:
  assumes l: "logged f s seq h xs" and n: "length xs \<le> 60" and f: "\<forall>c < 4. length (f (sb_journal_start (ef_superblock s) + c)) = 512"
    and p: "p = ring h (length xs)" and e: "alloc_entry seq (block_at s x) e"
  shows "logged (f(journal_block s p := splice (f (journal_block s p)) (snd (journal_entry_location p)) (journal_entry_bytes e))) s seq h (xs @ [x])"
  unfolding logged_def
proof (intro allI impI)
  fix i assume i: "i < length (xs @ [x])"
  obtain b off where loc: "journal_entry_location p = (b, off)" by (cases "journal_entry_location p")
  have b: "b < 4" "off + 32 \<le> 512" using location_bounds [OF _ loc] ring_less p by auto
  obtain c o' where loci: "journal_entry_location (ring h i) = (c, o')" by (cases "journal_entry_location (ring h i)")
  have c: "c < 4" "o' + 32 \<le> 512" using location_bounds [OF ring_less loci] by simp_all
  show "alloc_entry seq (block_at s ((xs @ [x]) ! i)) (entry_at ((f(journal_block s p := splice (f (journal_block s p)) (snd (journal_entry_location p))
      (journal_entry_bytes e))) (journal_block s (ring h i))) (snd (journal_entry_location (ring h i))))"
  proof (cases "i = length xs")
    case True
    then show ?thesis using e f b by (simp add: loc entry_at_splice flip: p)
  next
    case False
    then have i': "i < length xs" using i by simp
    then have "ring h i \<noteq> p" unfolding p using n by (intro ring_inject) simp_all
    then have "b = c \<Longrightarrow> off + 32 \<le> o' \<or> o' + 32 \<le> off"
      using location_apart [OF ring_less ring_less, of h i h "length xs" c o' off] loc loci p by auto
    moreover have "alloc_entry seq (block_at s (xs ! i)) (entry_at (f (sb_journal_start (ef_superblock s) + c)) o')"
      using l i' loci unfolding logged_def by (metis fst_conv snd_conv)
    ultimately show ?thesis
      using i' f b c by (auto simp: loc loci nth_append entry_at_other)
  qed
qed

definition in_tx :: "'s sd_driver \<Rightarrow> ('s \<Rightarrow> u32 \<Rightarrow> u8 list) \<Rightarrow> u32 \<Rightarrow> u32 \<Rightarrow> 's ekkfs \<Rightarrow> nat list \<Rightarrow> 's ekkfs \<Rightarrow> bool" where
  "in_tx hal blk base n s0 xs s \<longleftrightarrow>
     (\<exists>f. disk_is hal blk base n f s \<and> logged f s0 (js_current_tx_seq (ef_journal s0)) (jh_head (ef_header s0)) xs) \<and>
     io_only (add_free_blocks (- of_nat (length xs)) (s0\<lparr>ef_bitmap_buf := ef_bitmap_buf s,
       ef_journal := (ef_journal s0)\<lparr>js_header := (ef_header s0)\<lparr>jh_head := ring (jh_head (ef_header s0)) (length xs)\<rparr>, js_dirty := True\<rparr>\<rparr>)) s \<and>
     length (ef_bitmap_buf s) = 4096 \<and> (\<forall>y < 32768. used (ef_bitmap_buf s) y = (y \<in> set xs \<or> used (ef_bitmap_buf s0) y))"

definition tx_ready :: "u32 \<Rightarrow> 's ekkfs \<Rightarrow> bool" where
  "tx_ready n s0 \<longleftrightarrow> fs_layout n s0 \<and> ef_mounted s0 \<and> js_tx_active (ef_journal s0) \<and> jh_head (ef_header s0) < 62 \<and>
     jh_tail (ef_header s0) = jh_head (ef_header s0)"

lemma in_tx_fields:
  assumes "in_tx hal blk base n s0 xs s"
  shows "ef_mounted s = ef_mounted s0" "js_tx_active (ef_journal s) = js_tx_active (ef_journal s0)"
    "js_current_tx_seq (ef_journal s) = js_current_tx_seq (ef_journal s0)"
    "ef_header s = (ef_header s0)\<lparr>jh_head := ring (jh_head (ef_header s0)) (length xs)\<rparr>"
    "sb_data_start (ef_superblock s) = sb_data_start (ef_superblock s0)" "sb_total_blocks (ef_superblock s) = sb_total_blocks (ef_superblock s0)"
    "sb_journal_start (ef_superblock s) = sb_journal_start (ef_superblock s0)" "ef_bitmap_blocks s = ef_bitmap_blocks s0"
    "sb_bitmap_start (ef_superblock s) = sb_bitmap_start (ef_superblock s0)"
    "sb_free_blocks (ef_superblock s) = sb_free_blocks (ef_superblock s0) - of_nat (length xs)"
  using assms by (simp_all add: in_tx_def io_only_def add_free_blocks_def)

lemma in_tx_layout: "in_tx hal blk base n s0 xs s \<Longrightarrow> fs_layout n s0 \<Longrightarrow> fs_layout n s"
  using in_tx_fields [of hal blk base n s0 xs s] by (simp add: fs_layout_def Let_def header_ok_def in_tx_def)

lemma in_tx_free: "in_tx hal blk base n s0 xs s \<Longrightarrow> fs_layout n s0 \<Longrightarrow> free_blocks_of s = free_blocks_of s0 - set xs"
  using in_tx_fields [of hal blk base n s0 xs s] layoutD(2) [of n s0]
  by (auto simp: free_blocks_of_def data_count_def in_tx_def)

lemma in_tx_alloc:
  assumes i: "in_tx hal blk base n s0 xs s" and r: "tx_ready n s0" and len: "length xs \<le> 60" and free: "free_blocks_of s \<noteq> {}"
  shows "\<exists>s'. bitmap_alloc hal s = Some (int (unat (block_at s0 (Min (free_blocks_of s)))), s') \<and>
    in_tx hal blk base n s0 (xs @ [Min (free_blocks_of s)]) s'"
proof -
  let ?x = "Min (free_blocks_of s)"
  let ?h = "jh_head (ef_header s0)" and ?seq = "js_current_tx_seq (ef_journal s0)"
  have L0: "fs_layout n s0" and active: "ef_mounted s0" "js_tx_active (ef_journal s0)" and h: "?h < 62" "jh_tail (ef_header s0) = ?h"
    using r by (simp_all add: tx_ready_def)
  note fields = in_tx_fields [OF i]
  have L: "fs_layout n s" by (rule in_tx_layout [OF i L0])
  have ba: "block_at s x = block_at s0 x" for x by (simp add: block_at_def fields)
  obtain t where t: "takes s ?x t" and alloc: "bitmap_alloc hal s =
      Some (int (unat (block_at s0 ?x)), snd (ekkfs_journal_log hal 5 0 (block_at s0 ?x) 0 (block_at s0 ?x) t))"
    using bitmap_alloc_takes [OF L, of hal] free active fields(2) by (auto simp: ba)
  have t_is: "t = add_free_blocks (- 1) (s\<lparr>ef_bitmap_buf := ef_bitmap_buf t\<rparr>)" and t_used: "length (ef_bitmap_buf t) = 4096"
    "\<forall>y < 32768. used (ef_bitmap_buf t) y = (y = ?x \<or> used (ef_bitmap_buf s) y)"
    using t by (simp_all add: takes_def)
  have t_fields: "ef_mounted t = ef_mounted s" "ef_partition_lba t = ef_partition_lba s" "ef_journal t = ef_journal s"
    "ef_superblock t = (ef_superblock s)\<lparr>sb_free_blocks := sb_free_blocks (ef_superblock s) - 1\<rparr>" "ef_bitmap_blocks t = ef_bitmap_blocks s"
    "ef_cache t = ef_cache s" "ef_sd t = ef_sd s"
    by (subst t_is, simp add: add_free_blocks_def)+
  obtain f where d: "disk_is hal blk base n f s" and l: "logged f s0 ?seq ?h xs" using i by (auto simp: in_tx_def)
  have dt: "disk_is hal blk base n f t" using d by (rule disk_is_cong) (simp_all add: t_fields)
  have Lt: "fs_layout n t" using L by (simp add: fs_layout_def Let_def t_fields t_used)
  let ?p = "ring ?h (length xs)"
  have p: "jh_head (ef_header t) = ?p" by (simp add: t_fields fields)
  have "ring ?h (Suc (length xs)) \<noteq> ?h" using ring_inject [of 0 "Suc (length xs)" ?h] len by (simp add: ring_0 [OF h(1)])
  then have nonfull: "(jh_head (ef_header t) + 1) mod 62 \<noteq> jh_tail (ef_header t)" using h(2) by (simp add: p ring_Suc) (simp add: t_fields fields)
  from log_ok [OF dt Lt _ _ _ nonfull, of 5 0 "block_at s0 ?x" 0 "block_at s0 ?x"] obtain now s' where
    log: "ekkfs_journal_log hal 5 0 (block_at s0 ?x) 0 (block_at s0 ?x) t = (EKKFS_OK, s')" and
    d': "disk_is hal blk base n (f(journal_block s0 ?p := splice (f (journal_block s0 ?p)) (snd (journal_entry_location ?p))
      (journal_entry_bytes (make_entry ?seq 5 0 (block_at s0 ?x) 0 (block_at s0 ?x) now)))) s'" and
    io: "io_only (t\<lparr>ef_journal := (ef_journal t)\<lparr>js_header := (ef_header t)\<lparr>jh_head := ring ?h (Suc (length xs))\<rparr>, js_dirty := True\<rparr>\<rparr>) s'"
    using active p ring_less [of ?h "length xs"] by (auto simp: t_fields fields Let_def ring_Suc)
  have "\<forall>c < 4. length (f (sb_journal_start (ef_superblock s0) + c)) = 512"
    using disk_lengths [OF d] journal_block_less [OF L0] by blast
  then have l': "logged (f(journal_block s0 ?p := splice (f (journal_block s0 ?p)) (snd (journal_entry_location ?p))
      (journal_entry_bytes (make_entry ?seq 5 0 (block_at s0 ?x) 0 (block_at s0 ?x) now)))) s0 ?seq ?h (xs @ [?x])"
    using len by (intro logged_append [OF l _ _ refl]) (simp_all add: alloc_entry_def make_entry_def Let_def)
  have buf: "ef_bitmap_buf s' = ef_bitmap_buf t" using io by (simp add: io_only_def)
  have "in_tx hal blk base n s0 (xs @ [?x]) s'"
    unfolding in_tx_def
  proof (intro conjI exI)
    show "disk_is hal blk base n (f(journal_block s0 ?p := splice (f (journal_block s0 ?p)) (snd (journal_entry_location ?p))
      (journal_entry_bytes (make_entry ?seq 5 0 (block_at s0 ?x) 0 (block_at s0 ?x) now)))) s'" by (rule d')
    show "io_only (add_free_blocks (- of_nat (length (xs @ [?x]))) (s0\<lparr>ef_bitmap_buf := ef_bitmap_buf s',
       ef_journal := (ef_journal s0)\<lparr>js_header := (ef_header s0)\<lparr>jh_head := ring ?h (length (xs @ [?x]))\<rparr>, js_dirty := True\<rparr>\<rparr>)) s'"
      using io i by (simp add: in_tx_def io_only_def add_free_blocks_def t_fields algebra_simps)
    show "\<forall>y < 32768. used (ef_bitmap_buf s') y = (y \<in> set (xs @ [?x]) \<or> used (ef_bitmap_buf s0) y)"
      using i t_used by (auto simp: in_tx_def buf)
  qed (use l' buf t_used in simp_all)
  then show ?thesis using alloc log by simp
qed

lemma alloc_times_ok:
  assumes "in_tx hal blk base n s0 xs s" "tx_ready n s0" "length xs + k \<le> 61"
  shows "\<exists>s'. in_tx hal blk base n s0 (xs @ take k (sorted_list_of_set (free_blocks_of s))) s' \<and>
    alloc_times hal k s = Some (map (\<lambda>x. int (unat (block_at s0 x))) (take k (sorted_list_of_set (free_blocks_of s))) @
      replicate (k - card (free_blocks_of s)) (- 1), s')"
  using assms
proof (induction k arbitrary: xs s)
  case 0
  then show ?case by auto
next
  case (Suc k)
  have L0: "fs_layout n s0" using Suc.prems(2) by (simp add: tx_ready_def)
  have L: "fs_layout n s" by (rule in_tx_layout [OF Suc.prems(1) L0])
  show ?case
  proof (cases "free_blocks_of s = {}")
    case True
    then have "bitmap_alloc hal s = Some (- 1, s)" using bitmap_alloc_takes [OF L, of hal] by simp
    then show ?thesis using Suc.IH [OF Suc.prems(1,2)] Suc.prems(3) True by auto
  next
    case False
    let ?x = "Min (free_blocks_of s)"
    obtain s1 where s1: "bitmap_alloc hal s = Some (int (unat (block_at s0 ?x)), s1)" "in_tx hal blk base n s0 (xs @ [?x]) s1"
      using in_tx_alloc [OF Suc.prems(1,2) _ False] Suc.prems(3) by auto
    have "free_blocks_of s1 = free_blocks_of s - {?x}"
      using in_tx_free [OF s1(2) L0] in_tx_free [OF Suc.prems(1) L0] by auto
    moreover have "sorted_list_of_set (free_blocks_of s) = ?x # sorted_list_of_set (free_blocks_of s - {?x})"
      using False by (intro sorted_list_of_set_nonempty) simp_all
    moreover have "card (free_blocks_of s) = Suc (card (free_blocks_of s - {?x}))"
      using False by (metis Min_in card_Suc_Diff1 finite_free)
    ultimately show ?thesis using Suc.IH [OF s1(2) Suc.prems(2)] Suc.prems(3) s1(1) by auto
  qed
qed

lemma first_block_entries:
  assumes "p < 62" "journal_entry_location p = (0, off)"
  shows "60 \<le> off"
proof (cases "unat p < 14")
  case False
  then have "1 + (unat p - 14) div 16 < 4" using assms(1) by (simp add: word_less_nat_alt div_less_iff_less_mult)
  moreover have "(0 :: u32) = of_nat (1 + (unat p - 14) div 16)" using assms False by (simp add: location_cases)
  ultimately show ?thesis using of_nat_eq_small [of 0 "1 + (unat p - 14) div 16"] by simp
qed (use assms in \<open>auto simp: location_cases\<close>)

lemma logged_header:
  assumes l: "logged f s seq h xs" and len: "length (f (sb_journal_start (ef_superblock s))) = 512" "length bs = 60"
    and f': "\<forall>c < 4. f' (sb_journal_start (ef_superblock s) + c) =
      (if c = 0 then splice (f (sb_journal_start (ef_superblock s))) 0 bs else f (sb_journal_start (ef_superblock s) + c))"
    and s': "sb_journal_start (ef_superblock s') = sb_journal_start (ef_superblock s)" "sb_data_start (ef_superblock s') = sb_data_start (ef_superblock s)"
  shows "logged f' s' seq h xs"
  unfolding logged_def
proof (intro allI impI)
  fix i assume i: "i < length xs"
  obtain b off where loc: "journal_entry_location (ring h i) = (b, off)" by (cases "journal_entry_location (ring h i)")
  have b: "b < 4" "off + 32 \<le> 512" using location_bounds [OF ring_less loc] by simp_all
  have "entry_at (f' (sb_journal_start (ef_superblock s) + b)) off = entry_at (f (sb_journal_start (ef_superblock s) + b)) off"
  proof (cases "b = 0")
    case True
    then have "60 \<le> off" using first_block_entries [OF ring_less] loc by blast
    then have "field (splice (f (sb_journal_start (ef_superblock s))) 0 bs) off 32 = field (f (sb_journal_start (ef_superblock s))) off 32"
      using b len by (intro field_splice_other) simp_all
    moreover have "f' (sb_journal_start (ef_superblock s)) = splice (f (sb_journal_start (ef_superblock s))) 0 bs"
      using f' [rule_format, of 0] by simp
    ultimately show ?thesis using True by (simp add: entry_at_def)
  qed (use b f' in simp)
  moreover have "alloc_entry seq (block_at s (xs ! i)) (entry_at (f (sb_journal_start (ef_superblock s) + b)) off)"
    using l i loc unfolding logged_def by (metis fst_conv snd_conv)
  ultimately show "alloc_entry seq (block_at s' (xs ! i)) (entry_at (f' (journal_block s' (ring h i))) (snd (journal_entry_location (ring h i))))"
    by (simp add: loc s' block_at_def)
qed

section \<open>Aborting\<close>

text \<open>\<open>m\<close> blocks given back, those of \<open>xs\<close>.\<close>

definition gives_back :: "'s ekkfs \<Rightarrow> nat \<Rightarrow> nat set \<Rightarrow> 's ekkfs \<Rightarrow> bool" where
  "gives_back s m xs s' \<longleftrightarrow> io_only (add_free_blocks (of_nat m) (s\<lparr>ef_bitmap_buf := ef_bitmap_buf s'\<rparr>)) s' \<and>
     length (ef_bitmap_buf s') = 4096 \<and> (\<forall>y < 32768. used (ef_bitmap_buf s') y = (used (ef_bitmap_buf s) y \<and> y \<notin> xs))"

lemma gives_back_fields:
  assumes "gives_back s m xs s'"
  shows "ef_mounted s' = ef_mounted s" "ef_journal s' = ef_journal s" "ef_partition_lba s' = ef_partition_lba s"
    "ef_superblock s' = (ef_superblock s)\<lparr>sb_free_blocks := sb_free_blocks (ef_superblock s) + of_nat m\<rparr>"
    "ef_bitmap_blocks s' = ef_bitmap_blocks s" "length (ef_bitmap_buf s') = 4096" "bc_enabled (ef_cache s') = bc_enabled (ef_cache s)"
  using assms by (simp_all add: gives_back_def io_only_def add_free_blocks_def)

lemma gives_back_layout: "gives_back s m xs s' \<Longrightarrow> fs_layout n s \<Longrightarrow> fs_layout n s'"
  using gives_back_fields [of s m xs s'] by (simp add: fs_layout_def Let_def)

lemma gives_back_trans: "gives_back s m xs s' \<Longrightarrow> gives_back s' k ys s'' \<Longrightarrow> gives_back s (m + k) (xs \<union> ys) s''"
  by (auto simp: gives_back_def io_only_def add_free_blocks_def algebra_simps)

lemma roll_back_alloc:
  assumes L: "fs_layout n s" and e: "alloc_entry seq (block_at s x) e" and x: "x < 32768"
  shows "\<exists>s'. roll_back e (c, s) = Some (c + 1, s') \<and> gives_back s 1 {x} s' \<and> ef_sd s' = ef_sd s \<and> ef_cache s' = ef_cache s"
proof -
  have b: "sb_data_start (ef_superblock s) \<le> block_at s x" "block_index s (block_at s x) = x"
    using data_block [OF L, of x] x by (simp_all add: block_at_def)
  from bitmap_set_used [OF layoutD(4) [OF L] b(1), of False] b(2) x obtain buf where
    "bitmap_set (block_at s x) False s = Some (s\<lparr>ef_bitmap_buf := buf\<rparr>)" "length buf = 4096"
    "\<forall>y < 32768. used buf y = (if y = x then False else used (ef_bitmap_buf s) y)" by auto
  then show ?thesis using e by (auto simp: roll_back_def alloc_entry_def gives_back_def io_only_def add_free_blocks_def)
qed

lemma abort_from_ok:
  assumes "disk_is hal blk base n f s" "fs_layout n s" "jh_head (ef_header s) = ring h (length xs)" "length xs \<le> 61"
    "logged f s seq h xs" "jh_tx_start_seq (ef_header s) \<le> seq" "\<forall>x \<in> set xs. x < 32768" "i \<le> length xs"
  shows "\<exists>s'. abort_from hal (ring h i) (c, s) = Some (c + of_nat (length xs - i), s') \<and> disk_is hal blk base n f s' \<and>
    gives_back s (length xs - i) (set (drop i xs)) s'"
  using assms
proof (induction "length xs - i" arbitrary: i c s)
  case 0
  then have "i = length xs" by simp
  then show ?case using 0 layoutD(4) [OF 0(3)]
    by (subst abort_from.simps) (auto simp: gives_back_def io_only_def add_free_blocks_def)
next
  case (Suc d)
  have i: "i < length xs" using Suc.hyps(2) by simp
  obtain b off where loc: "journal_entry_location (ring h i) = (b, off)" by (cases "journal_entry_location (ring h i)")
  have b: "b < 4" using location_bounds [OF ring_less loc] by simp
  let ?buf = "f (sb_journal_start (ef_superblock s) + b)"
  obtain s1 where s1: "journal_read_block hal s b = (Some ?buf, s1)" "disk_is hal blk base n f s1" "io_only s s1"
    using journal_read_ok [OF Suc.prems(1,2) b] by auto
  have L1: "fs_layout n s1" using Suc.prems(2) io_only_layout [OF s1(3)] by simp
  have same: "ef_superblock s1 = ef_superblock s" "ef_journal s1 = ef_journal s" "ef_bitmap_buf s1 = ef_bitmap_buf s"
    using s1(3) by (simp_all add: io_only_def)
  have e: "alloc_entry seq (block_at s (xs ! i)) (entry_at ?buf off)"
    using Suc.prems(5) i loc unfolding logged_def by (metis fst_conv snd_conv)
  then have e1: "alloc_entry seq (block_at s1 (xs ! i)) (entry_at ?buf off)" by (simp add: block_at_def same)
  have "xs ! i < 32768" using Suc.prems(7) i by simp
  from roll_back_alloc [OF L1 e1 this, of c] obtain s2 where
    s2: "roll_back (entry_at ?buf off) (c, s1) = Some (c + 1, s2)" "gives_back s1 1 {xs ! i} s2" "ef_sd s2 = ef_sd s1" "ef_cache s2 = ef_cache s1"
    by auto
  note fields = gives_back_fields [OF s2(2)]
  have "ring h i \<noteq> ring h (length xs)" using i Suc.prems(4) by (intro ring_inject) simp_all
  then have step: "abort_from hal (ring h i) (c, s) = abort_from hal (ring h (Suc i)) (c + 1, s2)"
    using e Suc.prems(3,6) s2(1) s1(1)
    by (subst abort_from.simps) (simp add: loc Let_def same alloc_entry_def ring_Suc)
  have d2: "disk_is hal blk base n f s2" using s1(2) by (rule disk_is_cong) (simp_all add: s2 fields)
  have "logged f s2 seq h xs" using Suc.prems(5) by (simp add: logged_def block_at_def fields same)
  moreover have "d = length xs - Suc i" using Suc.hyps(2) by simp
  ultimately obtain s' where s': "abort_from hal (ring h (Suc i)) (c + 1, s2) = Some (c + 1 + of_nat (length xs - Suc i), s')"
    "disk_is hal blk base n f s'" "gives_back s2 (length xs - Suc i) (set (drop (Suc i) xs)) s'"
    using Suc.hyps(1) [of "Suc i" s2 "c + 1"] Suc.prems(3,4,6,7) d2 gives_back_layout [OF s2(2) L1] i
    by (fastforce simp: fields same)
  have g: "gives_back s 1 {xs ! i} s2" using s2(2) s1(3) by (simp add: gives_back_def io_only_def add_free_blocks_def)
  have n: "length xs - i = 1 + (length xs - Suc i)" "set (drop i xs) = {xs ! i} \<union> set (drop (Suc i) xs)"
    using i by (simp_all flip: Cons_nth_drop_Suc)
  show ?case
    using s' gives_back_trans [OF g s'(3)] by (simp only: step n) (auto simp: algebra_simps)
qed

lemma bitmap_save_from_ok:
  assumes "disk_is hal blk base n f s" "fs_layout n s"
  shows "\<exists>f' s'. bitmap_save_from hal i (unat (ef_bitmap_blocks s)) s = Some (EKKFS_OK, s') \<and> disk_is hal blk base n f' s' \<and> io_only s s' \<and>
    (\<forall>c < 4. f' (sb_journal_start (ef_superblock s) + c) = f (sb_journal_start (ef_superblock s) + c))"
  using assms
proof (induction "unat (ef_bitmap_blocks s) - i" arbitrary: i s f)
  case 0
  then show ?case by (subst bitmap_save_from.simps) auto
next
  case (Suc d)
  note layout = layoutD [OF Suc.prems(2)]
  have i: "i < unat (ef_bitmap_blocks s)" "i < 8" using Suc.hyps(2) layout(8) by simp_all
  let ?b = "sb_bitmap_start (ef_superblock s) + of_nat i"
  have "unat (of_nat i :: u32) = i" using i by (intro unat_small) simp
  then have b: "unat ?b = unat (sb_bitmap_start (ef_superblock s)) + i" 
    using layout(7) i unat_u32_less [of "sb_journal_start (ef_superblock s)"] by (simp add: unat_word_ariths)
  then have "?b < n" using layout(6,7) i by (simp add: word_less_nat_alt)
  moreover have "length (field (ef_bitmap_buf s) (512 * i) 512) = 512" using layout(4) i by (simp add: field_def)
  ultimately obtain s1 where s1: "write_block hal s ?b (field (ef_bitmap_buf s) (512 * i) 512) = (True, s1)"
    "disk_is hal blk base n (f(?b := field (ef_bitmap_buf s) (512 * i) 512)) s1" "io_only s s1"
    using write_block_ok [OF Suc.prems(1)] by blast
  have "?b \<noteq> sb_journal_start (ef_superblock s) + c" if "c < 4" for c
  proof
    assume eq: "?b = sb_journal_start (ef_superblock s) + c"
    have "unat (sb_journal_start (ef_superblock s) + c) = unat (sb_journal_start (ef_superblock s)) + unat c"
      using that layout(6) unat_u32_less [of n] by (simp add: unat_word_ariths word_less_nat_alt)
    then show False using b layout(7) i unfolding eq by simp
  qed
  note apart = this
  have same: "ef_bitmap_blocks s1 = ef_bitmap_blocks s" "ef_superblock s1 = ef_superblock s" using s1(3) by (simp_all add: io_only_def)
  have "d = unat (ef_bitmap_blocks s1) - Suc i" using Suc.hyps(2) same by simp
  from Suc.hyps(1) [OF this s1(2)] Suc.prems(2) io_only_layout [OF s1(3)] obtain f' s' where
    s': "bitmap_save_from hal (Suc i) (unat (ef_bitmap_blocks s1)) s1 = Some (EKKFS_OK, s')" "disk_is hal blk base n f' s'" "io_only s1 s'"
    "\<forall>c < 4. f' (sb_journal_start (ef_superblock s1) + c) = (f(?b := field (ef_bitmap_buf s) (512 * i) 512)) (sb_journal_start (ef_superblock s1) + c)"
    by auto
  then have "\<forall>c < 4. f' (sb_journal_start (ef_superblock s) + c) = f (sb_journal_start (ef_superblock s) + c)"
    using apart unfolding same by (metis fun_upd_apply)
  moreover have "bitmap_save_from hal i (unat (ef_bitmap_blocks s)) s = Some (EKKFS_OK, s')"
    using i s1(1) s'(1) by (subst bitmap_save_from.simps) (simp add: same)
  ultimately show ?case using s'(2) io_only_trans [OF s1(3) s'(3)] by blast
qed

lemma seal_header_simps [simp]:
  "jh_head (seal_header h) = jh_head h" "jh_tail (seal_header h) = jh_tail h" "jh_sequence (seal_header h) = jh_sequence h"
  "jh_tx_active (seal_header h) = jh_tx_active h" "jh_tx_start_seq (seal_header h) = jh_tx_start_seq h"
  "header_ok (seal_header h) = header_ok h"
  by (simp_all add: seal_header_def header_ok_def)

lemma header_ok_updates [simp]:
  "header_ok (h\<lparr>jh_tx_active := a\<rparr>) = header_ok h" "header_ok (h\<lparr>jh_tx_start_seq := b\<rparr>) = header_ok h"
  "header_ok (h\<lparr>jh_head := c\<rparr>) = header_ok h"
  by (simp_all add: header_ok_def)

lemma tx_begin_ok:
  assumes d: "disk_is hal blk base n f s" and L: "fs_layout n s" and m: "ef_mounted s" "\<not> js_tx_active (ef_journal s)"
  shows "\<exists>s0 bs. ekkfs_tx_begin hal s = (sint (jh_sequence (ef_header s)), s0) \<and> length bs = 60 \<and>
    (let b = sb_journal_start (ef_superblock s) in disk_is hal blk base n (f(b := splice (f b) 0 bs)) s0) \<and>
    io_only (s\<lparr>ef_journal := \<lparr>js_header = seal_header ((ef_header s)\<lparr>jh_tx_active := 1, jh_tx_start_seq := jh_sequence (ef_header s)\<rparr>),
      js_current_tx_seq = jh_sequence (ef_header s), js_tx_active = True, js_dirty = True\<rparr>\<rparr>) s0"
proof -
  let ?s = "s\<lparr>ef_journal := \<lparr>js_header = seal_header ((ef_header s)\<lparr>jh_tx_active := 1, jh_tx_start_seq := jh_sequence (ef_header s)\<rparr>),
      js_current_tx_seq = jh_sequence (ef_header s), js_tx_active = True, js_dirty = True\<rparr>\<rparr>"
  have d1: "disk_is hal blk base n f ?s" using d by (rule disk_is_cong) simp_all
  have L1: "fs_layout n ?s" using L by (simp add: fs_layout_def)
  from store_header_ok [OF d1 L1] obtain s0 where s0: "store_header hal ?s = (True, s0)" "io_only ?s s0"
    "disk_is hal blk base n (f(sb_journal_start (ef_superblock s) := splice (f (sb_journal_start (ef_superblock s))) 0 (journal_header_bytes (ef_header ?s)))) s0"
    by (auto simp: Let_def)
  have "length (journal_header_bytes (ef_header ?s)) = 60" by (rule length_journal_header_bytes) (use layoutD(5) [OF L1] in simp)
  moreover have "ekkfs_tx_begin hal s = (sint (jh_sequence (ef_header s)), s0)"
    using m s0(1) by (cases "ef_journal s") (simp add: ekkfs_tx_begin_def Let_def update_header_def)
  ultimately show ?thesis using s0(2,3) by (auto simp: Let_def)
qed

lemma tx_abort_ok:
  assumes d: "disk_is hal blk base n f s" and L: "fs_layout n s" and m: "ef_mounted s" "js_tx_active (ef_journal s)"
    and h: "jh_tail (ef_header s) = h" "h < 62" "jh_head (ef_header s) = ring h (length xs)" "length xs \<le> 61"
    and l: "logged f s seq h xs" "jh_tx_start_seq (ef_header s) \<le> seq" "\<forall>x \<in> set xs. x < 32768"
  shows "\<exists>f' s'. ekkfs_tx_abort hal s = Some (EKKFS_OK, s') \<and> disk_is hal blk base n f' s' \<and> logged f' s' seq h xs \<and>
    gives_back (s\<lparr>ef_journal := \<lparr>js_header = seal_header ((ef_header s)\<lparr>jh_tx_active := 0\<rparr>), js_current_tx_seq = js_current_tx_seq (ef_journal s),
      js_tx_active = False, js_dirty = False\<rparr>\<rparr>) (length xs) (set xs) s'"
proof -
  let ?js = "sb_journal_start (ef_superblock s)"
  obtain s1 where s1: "abort_from hal h (0, s) = Some (of_nat (length xs), s1)" "disk_is hal blk base n f s1" "gives_back s (length xs) (set xs) s1"
    using abort_from_ok [OF d L h(3,4) l, of 0 0] by (auto simp: ring_0 [OF h(2)])
  note fields1 = gives_back_fields [OF s1(3)]
  let ?s1 = "update_header (\<lambda>h. seal_header (h\<lparr>jh_tx_active := 0\<rparr>)) s1"
  have d1: "disk_is hal blk base n f ?s1" using s1(2) by (rule disk_is_cong) (simp_all add: update_header_def)
  have L1: "fs_layout n ?s1" using gives_back_layout [OF s1(3) L] by (simp add: fs_layout_def update_header_def)
  from store_header_ok [OF d1 L1] obtain s2 where s2: "store_header hal ?s1 = (True, s2)" "io_only ?s1 s2"
    "disk_is hal blk base n (f(?js := splice (f ?js) 0 (journal_header_bytes (ef_header ?s1)))) s2"
    by (auto simp: Let_def update_header_def fields1)
  let ?f = "f(?js := splice (f ?js) 0 (journal_header_bytes (ef_header ?s1)))"
  have L2: "fs_layout n s2" using L1 io_only_layout [OF s2(2)] by simp
  have same: "sb_journal_start (ef_superblock s2) = ?js" "sb_data_start (ef_superblock s2) = sb_data_start (ef_superblock s)"
    using s2(2) by (simp_all add: io_only_def update_header_def fields1)
  have "length (f ?js) = 512" using disk_lengths [OF d] journal_block_less [OF L, of 0] by simp
  then have l2: "logged ?f s2 seq h xs"
    by (rule logged_header [OF l(1) _ length_journal_header_bytes [OF layoutD(5) [OF L1]]]) (simp_all add: same)
  obtain f' s3 where s3: "(if of_nat (length xs) > (0 :: u32) then map_option snd (bitmap_save hal s2) else Some s2) = Some s3"
    "disk_is hal blk base n f' s3" "io_only s2 s3" "\<forall>c < 4. f' (?js + c) = ?f (?js + c)"
  proof (cases "of_nat (length xs) > (0 :: u32)")
    case True
    then show ?thesis using bitmap_save_from_ok [OF s2(3) L2, of 0] that by (auto simp: bitmap_save_def same)
  qed (use s2(3) that in auto)
  let ?s' = "s3\<lparr>ef_journal := (ef_journal s3)\<lparr>js_tx_active := False, js_dirty := False\<rparr>\<rparr>"
  have io: "io_only ?s1 s3" by (rule io_only_trans [OF s2(2) s3(3)])
  have "ekkfs_tx_abort hal s = Some (EKKFS_OK, ?s')"
    using m s1(1) s2(1) s3(1) h(1) by (simp add: ekkfs_tx_abort_def)
  moreover have "disk_is hal blk base n f' ?s'" using s3(2) by (rule disk_is_cong) simp_all
  moreover have "logged f' ?s' seq h xs"
    unfolding logged_def
  proof (intro allI impI)
    fix i assume i: "i < length xs"
    have "f' (?js + fst (journal_entry_location (ring h i))) = ?f (?js + fst (journal_entry_location (ring h i)))"
      using s3(4) location_bounds(1) [OF ring_less prod.collapse [symmetric], of h i] by blast
    moreover have "ef_superblock ?s' = ef_superblock s2" using s3(3) by (simp add: io_only_def)
    ultimately show "alloc_entry seq (block_at ?s' (xs ! i)) (entry_at (f' (journal_block ?s' (ring h i))) (snd (journal_entry_location (ring h i))))"
      using l2 i by (simp add: logged_def same block_at_def del: fun_upd_apply)
  qed
  moreover have "gives_back (s\<lparr>ef_journal := \<lparr>js_header = seal_header ((ef_header s)\<lparr>jh_tx_active := 0\<rparr>),
      js_current_tx_seq = js_current_tx_seq (ef_journal s), js_tx_active = False, js_dirty = False\<rparr>\<rparr>) (length xs) (set xs) ?s'"
    using io s1(3) by (simp add: gives_back_def io_only_def add_free_blocks_def update_header_def)
  ultimately show ?thesis by blast
qed

text \<open>The journal holds the entries of \<open>xs\<close>, of a transaction that is over.\<close>

definition tx_over :: "'s sd_driver \<Rightarrow> ('s \<Rightarrow> u32 \<Rightarrow> u8 list) \<Rightarrow> u32 \<Rightarrow> u32 \<Rightarrow> u32 \<Rightarrow> u32 \<Rightarrow> nat list \<Rightarrow> 's ekkfs \<Rightarrow> bool" where
  "tx_over hal blk base n seq h xs s \<longleftrightarrow>
     (\<exists>f. disk_is hal blk base n f s \<and> logged f s seq h xs) \<and> fs_layout n s \<and> ef_mounted s \<and> \<not> js_tx_active (ef_journal s) \<and>
     jh_tail (ef_header s) = h \<and> jh_head (ef_header s) = ring h (length xs) \<and> jh_sequence (ef_header s) = seq"

lemma transaction_aborted:
  assumes d: "disk_is hal blk base n f s" and L: "fs_layout n s" and m: "ef_mounted s" "\<not> js_tx_active (ef_journal s)"
    and h: "jh_head (ef_header s) < 62" "jh_tail (ef_header s) = jh_head (ef_header s)" and k: "k \<le> 61"
    and xs: "xs = take k (sorted_list_of_set (free_blocks_of s))"
  shows "\<exists>s0 s1 s2.
    ekkfs_tx_begin hal s = (sint (jh_sequence (ef_header s)), s0) \<and>
    alloc_times hal k s0 = Some (map (\<lambda>x. int (unat (block_at s x))) xs @ replicate (k - card (free_blocks_of s)) (- 1), s1) \<and>
    ekkfs_tx_abort hal s1 = Some (EKKFS_OK, s2) \<and> ef_bitmap_buf s2 = ef_bitmap_buf s \<and> ef_superblock s2 = ef_superblock s \<and>
    tx_over hal blk base n (jh_sequence (ef_header s)) (jh_head (ef_header s)) xs s2"
proof -
  let ?h = "jh_head (ef_header s)" and ?seq = "jh_sequence (ef_header s)" and ?js = "sb_journal_start (ef_superblock s)"
  have len: "length xs \<le> 61" using k by (simp add: xs min_def)
  have "set xs \<subseteq> free_blocks_of s" by (auto simp: xs dest: in_set_takeD)
  then have small: "\<forall>x \<in> set xs. x < 32768 \<and> \<not> used (ef_bitmap_buf s) x" using layoutD(2) [OF L] by (auto simp: free_blocks_of_def)
  obtain s0 bs where b: "ekkfs_tx_begin hal s = (sint ?seq, s0)" "length bs = 60" "disk_is hal blk base n (f(?js := splice (f ?js) 0 bs)) s0"
    "io_only (s\<lparr>ef_journal := \<lparr>js_header = seal_header ((ef_header s)\<lparr>jh_tx_active := 1, jh_tx_start_seq := ?seq\<rparr>),
      js_current_tx_seq = ?seq, js_tx_active = True, js_dirty = True\<rparr>\<rparr>) s0"
    using tx_begin_ok [OF d L m] by (auto simp: Let_def)
  have s0: "ef_superblock s0 = ef_superblock s" "ef_bitmap_buf s0 = ef_bitmap_buf s" "ef_bitmap_blocks s0 = ef_bitmap_blocks s" "ef_mounted s0"
    "ef_journal s0 = \<lparr>js_header = seal_header ((ef_header s)\<lparr>jh_tx_active := 1, jh_tx_start_seq := ?seq\<rparr>),
      js_current_tx_seq = ?seq, js_tx_active = True, js_dirty = True\<rparr>"
    using b(4) m by (simp_all add: io_only_def)
  have L0: "fs_layout n s0" using L by (simp add: fs_layout_def s0)
  have free0: "free_blocks_of s0 = free_blocks_of s" "block_at s0 = block_at s" by (auto simp: free_blocks_of_def data_count_def block_at_def s0)
  have ready: "tx_ready n s0" using L0 h by (simp add: tx_ready_def s0)
  have "in_tx hal blk base n s0 [] s0"
    using b(3) layoutD(4) [OF L0] h(1) by (auto simp: in_tx_def logged_def io_only_def add_free_blocks_def ring_0 s0)
  from alloc_times_ok [OF this ready, of k] k obtain s1 where s1: "in_tx hal blk base n s0 xs s1"
    "alloc_times hal k s0 = Some (map (\<lambda>x. int (unat (block_at s x))) xs @ replicate (k - card (free_blocks_of s)) (- 1), s1)"
    by (auto simp: free0 xs)
  note t = in_tx_fields [OF s1(1)]
  obtain f1 where f1: "disk_is hal blk base n f1 s1" "logged f1 s0 ?seq ?h xs" using s1(1) by (auto simp: in_tx_def s0)
  have l1: "logged f1 s1 ?seq ?h xs" using f1(2) by (simp add: logged_def block_at_def t)
  obtain f2 s2 where s2: "ekkfs_tx_abort hal s1 = Some (EKKFS_OK, s2)" "disk_is hal blk base n f2 s2" "logged f2 s2 ?seq ?h xs"
    "gives_back (s1\<lparr>ef_journal := \<lparr>js_header = seal_header ((ef_header s1)\<lparr>jh_tx_active := 0\<rparr>), js_current_tx_seq = js_current_tx_seq (ef_journal s1),
      js_tx_active = False, js_dirty = False\<rparr>\<rparr>) (length xs) (set xs) s2"
    using tx_abort_ok [OF f1(1) in_tx_layout [OF s1(1) L0] _ _ _ h(1) _ _ l1] h(2) len small by (auto simp: t s0)
  note u = gives_back_fields [OF s2(4)]
  have "ef_superblock s1 = (ef_superblock s)\<lparr>sb_free_blocks := sb_free_blocks (ef_superblock s) - of_nat (length xs)\<rparr>"
    using s1(1) by (simp add: in_tx_def io_only_def add_free_blocks_def s0)
  then have sb2: "ef_superblock s2 = ef_superblock s" by (simp add: u)
  have buf2: "ef_bitmap_buf s2 = ef_bitmap_buf s"
  proof (rule bitmap_ext)
    show "\<forall>y < 32768. used (ef_bitmap_buf s2) y = used (ef_bitmap_buf s) y"
      using s1(1) s2(4) small by (auto simp: in_tx_def gives_back_def s0)
  qed (use u layoutD(4) [OF L] in simp_all)
  have "fs_layout n s2" using L layoutD(5) [OF L] by (simp add: fs_layout_def Let_def sb2 buf2 u t s0)
  then have "tx_over hal blk base n ?seq ?h xs s2" using s2(2,3) h(2) m(1) by (auto simp: tx_over_def u t s0)
  then show ?thesis using b(1) s1(2) s2(1) sb2 buf2 by blast
qed

lemma abort_repeats:
  assumes o: "tx_over hal blk base n seq h xs s" and h: "h < 62" "length xs \<le> 61"
    and small: "\<forall>x \<in> set xs. x < 32768 \<and> \<not> used (ef_bitmap_buf s) x"
  shows "\<exists>s0 s1. ekkfs_tx_begin hal s = (sint seq, s0) \<and> ekkfs_tx_abort hal s0 = Some (EKKFS_OK, s1) \<and> ef_bitmap_buf s1 = ef_bitmap_buf s \<and>
    sb_free_blocks (ef_superblock s1) = sb_free_blocks (ef_superblock s) + of_nat (length xs)"
proof -
  let ?js = "sb_journal_start (ef_superblock s)"
  obtain f where d: "disk_is hal blk base n f s" "logged f s seq h xs" and L: "fs_layout n s" and m: "ef_mounted s" "\<not> js_tx_active (ef_journal s)"
    and header: "jh_tail (ef_header s) = h" "jh_head (ef_header s) = ring h (length xs)" "jh_sequence (ef_header s) = seq"
    using o by (auto simp: tx_over_def)
  obtain s0 bs where b: "ekkfs_tx_begin hal s = (sint seq, s0)" "length bs = 60" "disk_is hal blk base n (f(?js := splice (f ?js) 0 bs)) s0"
    "io_only (s\<lparr>ef_journal := \<lparr>js_header = seal_header ((ef_header s)\<lparr>jh_tx_active := 1, jh_tx_start_seq := seq\<rparr>),
      js_current_tx_seq = seq, js_tx_active = True, js_dirty = True\<rparr>\<rparr>) s0"
    using tx_begin_ok [OF d(1) L m] by (auto simp: Let_def header)
  have s0: "ef_superblock s0 = ef_superblock s" "ef_bitmap_buf s0 = ef_bitmap_buf s" "ef_bitmap_blocks s0 = ef_bitmap_blocks s" "ef_mounted s0"
    "js_tx_active (ef_journal s0)" "jh_tail (ef_header s0) = h" "jh_head (ef_header s0) = ring h (length xs)"
    "jh_tx_start_seq (ef_header s0) = seq" "header_ok (ef_header s0)"
    using b(4) m header layoutD(5) [OF L] by (simp_all add: io_only_def)
  have L0: "fs_layout n s0" using L by (simp add: fs_layout_def Let_def s0)
  have "length (f ?js) = 512" using disk_lengths [OF d(1)] journal_block_less [OF L, of 0] by simp
  then have l0: "logged (f(?js := splice (f ?js) 0 bs)) s0 seq h xs"
    using b(2) by (intro logged_header [OF d(2), of bs]) (simp_all add: s0)
  obtain s1 where s1: "ekkfs_tx_abort hal s0 = Some (EKKFS_OK, s1)"
    "gives_back (s0\<lparr>ef_journal := \<lparr>js_header = seal_header ((ef_header s0)\<lparr>jh_tx_active := 0\<rparr>), js_current_tx_seq = js_current_tx_seq (ef_journal s0),
      js_tx_active = False, js_dirty = False\<rparr>\<rparr>) (length xs) (set xs) s1"
    using tx_abort_ok [OF b(3) L0 s0(4,5,6) h(1) s0(7) _ l0] h(2) small by (auto simp: s0)
  note v = gives_back_fields [OF s1(2)]
  have "ef_bitmap_buf s1 = ef_bitmap_buf s"
  proof (rule bitmap_ext)
    show "\<forall>y < 32768. used (ef_bitmap_buf s1) y = used (ef_bitmap_buf s) y" using s1(2) small by (auto simp: gives_back_def s0)
  qed (use v layoutD(4) [OF L] in simp_all)
  then show ?thesis using b(1) s1(1) by (auto simp: v s0)
qed

text \<open>
  C15. A transaction that only allocates is undone by aborting it. Started with an empty journal, it
  hands out the first \<open>k\<close> free blocks in order and answers -1 for the others; aborting restores
  the bitmap and the superblock exactly. The abort leaves the entries in the journal and the
  sequence as it was, so aborting the next transaction, which did nothing, gives the same blocks
  back once more: the number of free blocks is then too large by what the first one had allocated.
\<close>

theorem tx_abort_undoes:
  assumes d: "disk_is hal blk base n f s" and L: "fs_layout n s" and m: "ef_mounted s" "\<not> js_tx_active (ef_journal s)"
    and h: "jh_head (ef_header s) < 62" "jh_tail (ef_header s) = jh_head (ef_header s)" and k: "k \<le> 61"
  shows "\<exists>s0 s1 s2 s3 s4.
    ekkfs_tx_begin hal s = (sint (jh_sequence (ef_header s)), s0) \<and>
    alloc_times hal k s0 = Some (map (\<lambda>x. int (unat (block_at s x))) (take k (sorted_list_of_set (free_blocks_of s))) @
      replicate (k - card (free_blocks_of s)) (- 1), s1) \<and>
    ekkfs_tx_abort hal s1 = Some (EKKFS_OK, s2) \<and> ef_bitmap_buf s2 = ef_bitmap_buf s \<and> ef_superblock s2 = ef_superblock s \<and>
    ekkfs_tx_begin hal s2 = (sint (jh_sequence (ef_header s)), s3) \<and>
    ekkfs_tx_abort hal s3 = Some (EKKFS_OK, s4) \<and> ef_bitmap_buf s4 = ef_bitmap_buf s \<and>
    sb_free_blocks (ef_superblock s4) = sb_free_blocks (ef_superblock s) + of_nat (min k (card (free_blocks_of s)))"
proof -
  let ?xs = "take k (sorted_list_of_set (free_blocks_of s))"
  obtain s0 s1 s2 where first: "ekkfs_tx_begin hal s = (sint (jh_sequence (ef_header s)), s0)"
    "alloc_times hal k s0 = Some (map (\<lambda>x. int (unat (block_at s x))) ?xs @ replicate (k - card (free_blocks_of s)) (- 1), s1)"
    "ekkfs_tx_abort hal s1 = Some (EKKFS_OK, s2)" "ef_bitmap_buf s2 = ef_bitmap_buf s" "ef_superblock s2 = ef_superblock s"
    "tx_over hal blk base n (jh_sequence (ef_header s)) (jh_head (ef_header s)) ?xs s2"
    using transaction_aborted [OF d L m h k refl] by blast
  have "set ?xs \<subseteq> free_blocks_of s" by (auto dest: in_set_takeD)
  then have "\<forall>x \<in> set ?xs. x < 32768 \<and> \<not> used (ef_bitmap_buf s2) x" using layoutD(2) [OF L] by (auto simp: free_blocks_of_def first(4))
  moreover have "length ?xs = min k (card (free_blocks_of s))" by (simp add: min_def)
  ultimately show ?thesis using abort_repeats [OF first(6) h(1)] first k by (auto simp: min_def)
qed

text \<open>A volume of twenty blocks, ten of them for data, with an empty journal.\<close>

definition small_volume :: "(u32 \<Rightarrow> u8 list) ekkfs" where
  "small_volume = (ekkfs_boot blank_card)\<lparr>ef_mounted := True, ef_bitmap_blocks := 1,
     ef_superblock := no_inode_superblock\<lparr>sb_total_blocks := 20, sb_inode_count := 5, sb_inode_start := 1, sb_bitmap_start := 2,
       sb_journal_start := 3, sb_data_start := 10, sb_free_blocks := 10\<rparr>,
     ef_journal := \<lparr>js_header = fresh_header, js_current_tx_seq = 0, js_tx_active = False, js_dirty = False\<rparr>\<rparr>"

lemma small_volume_layout: "fs_layout 20 small_volume" "data_count small_volume = 10"
  by (simp_all add: fs_layout_def data_count_def small_volume_def ekkfs_boot_def no_inode_superblock_def fresh_header_def Let_def)
    (simp add: header_ok_def)

lemma small_volume_disk: "disk_is fun_card (fun_card_block 0) 0 20 (fun_card_block 0 blank_card) small_volume"
  by (simp add: disk_is_def fun_card_partition cache_ok_def small_volume_def ekkfs_boot_def)

lemma small_volume_free: "free_blocks_of small_volume = {..<10}"
proof -
  have "\<not> used (ef_bitmap_buf small_volume) x" if "x < 10" for x
    using that by (simp add: used_def small_volume_def ekkfs_boot_def)
  then show ?thesis by (auto simp: free_blocks_of_def small_volume_layout)
qed

theorem tx_abort_undoes_witness:
  "\<exists>s0 s1 s2. ekkfs_tx_begin fun_card small_volume = (1, s0) \<and> alloc_times fun_card 3 s0 = Some ([10, 11, 12], s1) \<and>
     ekkfs_tx_abort fun_card s1 = Some (0, s2) \<and> ef_bitmap_buf s2 = ef_bitmap_buf small_volume \<and>
     sb_free_blocks (ef_superblock s2) = 10"
proof -
  have s: "ef_mounted small_volume" "\<not> js_tx_active (ef_journal small_volume)" "jh_head (ef_header small_volume) = 0"
    "jh_tail (ef_header small_volume) = 0" "sb_data_start (ef_superblock small_volume) = 10" "sb_free_blocks (ef_superblock small_volume) = 10"
    "jh_sequence (ef_header small_volume) = 1"
    by (simp_all add: small_volume_def fresh_header_def)
  have "sorted_list_of_set {..<10 :: nat} = [0..<10]" by (simp add: lessThan_atLeast0)
  then have "take 3 (sorted_list_of_set (free_blocks_of small_volume)) = [0, 1, 2]" by (simp add: small_volume_free upt_rec)
  then show ?thesis
    using tx_abort_undoes [OF small_volume_disk small_volume_layout(1) s(1,2), of 3] s
    by (auto simp: block_at_def small_volume_free)
qed

end
