(* ===== verification/Ekkfs_Files.thy ===== *)
theory Ekkfs_Files
  imports Ekkfs_Journal
begin

unbundle bit_operations_syntax

text \<open>
  The files of the file system (\<open>src/ekkfs.c\<close>): inodes in their blocks, formatting and mounting, and every
  operation on files. Names are C strings without their final zero. \<open>None\<close> is undefined behaviour: the packed
  inode has 92 bytes and not the 64 the header says, so of the eight inodes of a block the code reads and
  writes the last three behind the end of its buffer.
\<close>

section \<open>Inodes\<close>

record ekkfs_inode =
  in_flags :: u32
  in_owner_id :: u32
  in_size :: u32
  in_blocks :: "u32 list"
  in_indirect :: u32
  in_created :: u64
  in_modified :: u64
  in_crc32 :: u32
  in_name :: "u8 list"

record ekkfs_file =
  fd_inode_num :: u32
  fd_position :: u32
  fd_flags :: u32

record ekkfs_stat_t =
  st_inode_num :: u32
  st_flags :: u32
  st_owner_id :: u32
  st_size :: u32
  st_created :: u64
  st_modified :: u64
  st_name :: "u8 list"

definition words_of_bytes :: "nat \<Rightarrow> u8 list \<Rightarrow> u32 list" where
  "words_of_bytes n bs = map (\<lambda>k. le_word (field bs (4 * k) 4)) [0..<n]"

definition bytes_of_words :: "u32 list \<Rightarrow> u8 list" where
  "bytes_of_words ws = concat (map le32 ws)"

definition inode_bytes :: "ekkfs_inode \<Rightarrow> u8 list" where
  "inode_bytes i =
     bytes_of_words ([in_flags i, in_owner_id i, in_size i] @ in_blocks i @ [in_indirect i]) @
     le64 (in_created i) @ le64 (in_modified i) @ le32 (in_crc32 i) @ in_name i"

definition inode_of_bytes :: "u8 list \<Rightarrow> ekkfs_inode" where
  "inode_of_bytes bs =
     \<lparr>in_flags = le_word (field bs 0 4), in_owner_id = le_word (field bs 4 4), in_size = le_word (field bs 8 4),
      in_blocks = words_of_bytes 10 (field bs 12 40), in_indirect = le_word (field bs 52 4), in_created = le_word (field bs 56 8),
      in_modified = le_word (field bs 64 8), in_crc32 = le_word (field bs 72 4), in_name = field bs 76 16\<rparr>"

definition zero_inode :: ekkfs_inode where
  "zero_inode = \<lparr>in_flags = 0, in_owner_id = 0, in_size = 0, in_blocks = replicate 10 0, in_indirect = 0, in_created = 0,
     in_modified = 0, in_crc32 = 0, in_name = replicate 16 0\<rparr>"

definition inode_block :: "'s ekkfs \<Rightarrow> u32 \<Rightarrow> u32" where
  "inode_block s inode_num = sb_inode_start (ef_superblock s) + inode_num div 8"

definition inode_offset :: "u32 \<Rightarrow> nat" where
  "inode_offset inode_num = unat (inode_num mod 8) * 92"

definition inode_read :: "'s sd_driver \<Rightarrow> u32 \<Rightarrow> 's ekkfs \<Rightarrow> ((int + ekkfs_inode) \<times> 's ekkfs) option" where
  "inode_read hal inode_num s =
     (if inode_num \<ge> sb_inode_count (ef_superblock s) then Some (Inl EKKFS_ERR_INVALID, s)
      else
        (case read_block hal s (inode_block s inode_num) of
           (None, s) \<Rightarrow> Some (Inl EKKFS_ERR_IO, s)
         | (Some buffer, s) \<Rightarrow>
             if 512 < inode_offset inode_num + 92 then None
             else Some (Inr (inode_of_bytes (field buffer (inode_offset inode_num) 92)), s)))"

definition inode_write :: "'s sd_driver \<Rightarrow> u32 \<Rightarrow> ekkfs_inode \<Rightarrow> 's ekkfs \<Rightarrow> (int \<times> 's ekkfs) option" where
  "inode_write hal inode_num inode s =
     (if inode_num \<ge> sb_inode_count (ef_superblock s) then Some (EKKFS_ERR_INVALID, s)
      else
        (case read_block hal s (inode_block s inode_num) of
           (None, s) \<Rightarrow> Some (EKKFS_ERR_IO, s)
         | (Some buffer, s) \<Rightarrow>
             if 512 < inode_offset inode_num + 92 then None
             else
               (let (ok, s) = write_block hal s (inode_block s inode_num) (splice buffer (inode_offset inode_num) (inode_bytes inode))
                in Some (if \<not> ok then EKKFS_ERR_IO else EKKFS_OK, s))))"

definition is_used :: "ekkfs_inode \<Rightarrow> bool" where
  "is_used inode \<longleftrightarrow> in_flags inode AND 1 \<noteq> 0"

definition c_str :: "u8 list \<Rightarrow> u8 list" where
  "c_str bs = takeWhile (\<lambda>b. b \<noteq> 0) bs"

definition same_name :: "u8 list \<Rightarrow> ekkfs_inode \<Rightarrow> bool" where
  "same_name name inode \<longleftrightarrow> take 15 (c_str (in_name inode)) = take 15 (c_str name)"

text \<open>The inodes the card fails to read are passed over.\<close>

function scan_inodes :: "'s sd_driver \<Rightarrow> (ekkfs_inode \<Rightarrow> bool) \<Rightarrow> nat \<Rightarrow> nat \<Rightarrow> 's ekkfs \<Rightarrow> (nat option \<times> 's ekkfs) option" where
  "scan_inodes hal P i n s =
     (if i < n
      then do {
        (r, s) \<leftarrow> inode_read hal (of_nat i) s;
        case r of
          Inl e \<Rightarrow> scan_inodes hal P (Suc i) n s
        | Inr inode \<Rightarrow> if P inode then Some (Some i, s) else scan_inodes hal P (Suc i) n s
      }
      else Some (None, s))"
  by pat_completeness auto
termination
  by (relation "measure (\<lambda>(hal, P, i, n, s). n - i)") auto

declare scan_inodes.simps [simp del]

definition scan_result :: "nat option \<Rightarrow> int" where
  "scan_result r = (case r of None \<Rightarrow> - 1 | Some i \<Rightarrow> sint (of_nat i :: u32))"

definition inode_alloc :: "'s sd_driver \<Rightarrow> 's ekkfs \<Rightarrow> (int \<times> 's ekkfs) option" where
  "inode_alloc hal s = do {
     (r, s) \<leftarrow> scan_inodes hal (\<lambda>inode. \<not> is_used inode) 0 (unat (sb_inode_count (ef_superblock s))) s;
     Some (scan_result r, s)
   }"

definition inode_find_by_name :: "'s sd_driver \<Rightarrow> u8 list \<Rightarrow> 's ekkfs \<Rightarrow> (int \<times> 's ekkfs) option" where
  "inode_find_by_name hal name s = do {
     (r, s) \<leftarrow> scan_inodes hal (\<lambda>inode. is_used inode \<and> same_name name inode) 0 (unat (sb_inode_count (ef_superblock s))) s;
     Some (scan_result r, s)
   }"

text \<open>The inodes in use, with their numbers, in order: what \<open>ekkfs_list\<close> hands to its callback.\<close>

function used_inodes_from :: "'s sd_driver \<Rightarrow> nat \<Rightarrow> nat \<Rightarrow> 's ekkfs \<Rightarrow> ((u32 \<times> ekkfs_inode) list \<times> 's ekkfs) option" where
  "used_inodes_from hal i n s =
     (if i < n
      then do {
        (r, s) \<leftarrow> inode_read hal (of_nat i) s;
        (rest, s) \<leftarrow> used_inodes_from hal (Suc i) n s;
        case r of
          Inl e \<Rightarrow> Some (rest, s)
        | Inr inode \<Rightarrow> Some (if is_used inode then (of_nat i, inode) # rest else rest, s)
      }
      else Some ([], s))"
  by pat_completeness auto
termination
  by (relation "measure (\<lambda>(hal, i, n, s). n - i)") auto

declare used_inodes_from.simps [simp del]

section \<open>Formatting and mounting\<close>

function sd_fill :: "'s sd_driver \<Rightarrow> u32 \<Rightarrow> u8 list \<Rightarrow> nat \<Rightarrow> nat \<Rightarrow> 's ekkfs \<Rightarrow> bool \<times> 's ekkfs" where
  "sd_fill hal start buffer i n s =
     (if i < n
      then (let (ok, sd) = sd_write_block hal (ef_sd s) (start + of_nat i) buffer; s = s\<lparr>ef_sd := sd\<rparr>
            in if \<not> ok then (False, s) else sd_fill hal start buffer (Suc i) n s)
      else (True, s))"
  by pat_completeness auto
termination
  by (relation "measure (\<lambda>(hal, start, buffer, i, n, s). n - i)") auto

declare sd_fill.simps [simp del]

definition blocks_for :: "u32 \<Rightarrow> u32" where
  "blocks_for data_blocks = (data_blocks + 8 * 512 - 1) div (8 * 512)"

definition format_superblock :: "u32 \<Rightarrow> u32 \<Rightarrow> u64 \<Rightarrow> ekkfs_superblock" where
  "format_superblock total_blocks inode_count now =
     (let inode_blocks = (inode_count + 8 - 1) div 8;
          bitmap_blocks = blocks_for (total_blocks - 1 - inode_blocks - 1 - 4);
          data_blocks = total_blocks - 1 - inode_blocks - bitmap_blocks - 4
      in seal_superblock
           \<lparr>sb_magic = 0x454B4653, sb_version = 1, sb_block_size = 512, sb_total_blocks = total_blocks, sb_inode_count = inode_count,
            sb_inode_start = 1, sb_bitmap_start = 1 + inode_blocks, sb_journal_start = 1 + inode_blocks + bitmap_blocks,
            sb_data_start = 1 + inode_blocks + bitmap_blocks + 4, sb_free_blocks = data_blocks, sb_mount_time = now,
            sb_mount_count = 0, sb_crc32 = 0, sb_reserved = replicate 456 0\<rparr>)"

definition ekkfs_format :: "'s sd_driver \<Rightarrow> u32 \<Rightarrow> u32 \<Rightarrow> u32 \<Rightarrow> 's ekkfs \<Rightarrow> int \<times> 's ekkfs" where
  "ekkfs_format hal partition_lba total_blocks inode_count s =
     (let inode_count = (if inode_count = 0 then 256 else inode_count);
          (now, sd) = hal_time_us hal (ef_sd s);
          s = s\<lparr>ef_sd := sd\<rparr>;
          sb = format_superblock total_blocks inode_count now;
          zeros = replicate 512 0;
          (ok, s) = sd_fill hal partition_lba (superblock_bytes sb) 0 1 s
      in if \<not> ok then (EKKFS_ERR_IO, s)
         else (let (ok, s) = sd_fill hal (partition_lba + sb_inode_start sb) zeros 0 (unat ((inode_count + 8 - 1) div 8)) s
      in if \<not> ok then (EKKFS_ERR_IO, s)
         else (let (ok, s) = sd_fill hal (partition_lba + sb_bitmap_start sb) zeros 0 (unat (sb_journal_start sb - sb_bitmap_start sb)) s
      in if \<not> ok then (EKKFS_ERR_IO, s)
         else (let (ok, s) = sd_fill hal (partition_lba + sb_journal_start sb) (splice zeros 0 (journal_header_bytes fresh_header)) 0 1 s
      in if \<not> ok then (EKKFS_ERR_IO, s)
         else (let (ok, s) = sd_fill hal (partition_lba + sb_journal_start sb) zeros 1 4 s
      in (if \<not> ok then EKKFS_ERR_IO else EKKFS_OK, s))))))"

definition ekkfs_mount :: "'s sd_driver \<Rightarrow> u32 \<Rightarrow> 's ekkfs \<Rightarrow> (int \<times> 's ekkfs) option" where
  "ekkfs_mount hal partition_lba s =
     (case sd_read_block hal (ef_sd s) partition_lba of
        (None, sd) \<Rightarrow> Some (EKKFS_ERR_IO, s\<lparr>ef_sd := sd\<rparr>)
      | (Some buffer, sd) \<Rightarrow>
          (let s = s\<lparr>ef_sd := sd\<rparr>; sb = superblock_of_bytes buffer
           in if sb_magic sb \<noteq> 0x454B4653 then Some (EKKFS_ERR_CORRUPT, s)
              else if sb_version sb \<noteq> 1 then Some (EKKFS_ERR_CORRUPT, s)
              else if ekkfs_crc32 (take 52 buffer) \<noteq> sb_crc32 sb then Some (EKKFS_ERR_CORRUPT, s)
              else
                (let s = s\<lparr>ef_partition_lba := partition_lba, ef_superblock := sb,
                       ef_bitmap_blocks := blocks_for (sb_total_blocks sb - sb_data_start sb)\<rparr>
                 in if ef_bitmap_blocks s > 8 then Some (EKKFS_ERR_INVALID, s)
                    else do {
                      (loaded, s) \<leftarrow> bitmap_load hal s;
                      if loaded \<noteq> EKKFS_OK then Some (EKKFS_ERR_IO, s)
                      else do {
                        (journal_result, s) \<leftarrow> ekkfs_journal_recover hal s;
                        let (now, sd) = hal_time_us hal (ef_sd s);
                        let sb = ef_superblock s;
                        let sb = seal_superblock (sb\<lparr>sb_mount_count := sb_mount_count sb + 1, sb_mount_time := now\<rparr>);
                        let (ok, sd) = sd_write_block hal sd partition_lba (superblock_bytes sb);
                        let s = s\<lparr>ef_sd := sd, ef_superblock := sb\<rparr>;
                        if \<not> ok then Some (EKKFS_ERR_IO, s)
                        else Some (EKKFS_OK, s\<lparr>ef_mounted := True, ef_cache := cache_init (ef_cache s)\<rparr>)
                      }
                    })))"

definition ekkfs_unmount :: "'s sd_driver \<Rightarrow> 's ekkfs \<Rightarrow> (int \<times> 's ekkfs) option" where
  "ekkfs_unmount hal s =
     (if \<not> ef_mounted s then Some (EKKFS_ERR_NOT_MOUNTED, s)
      else do {
        (r, s) \<leftarrow> ekkfs_sync hal (cache_invalidate hal s);
        Some (EKKFS_OK, s\<lparr>ef_mounted := False\<rparr>)
      })"

definition ekkfs_is_mounted :: "'s ekkfs \<Rightarrow> bool" where
  "ekkfs_is_mounted s = ef_mounted s"

section \<open>Creating and deleting\<close>

definition create_inode :: "u8 list \<Rightarrow> u32 \<Rightarrow> u32 \<Rightarrow> u64 \<Rightarrow> ekkfs_inode" where
  "create_inode name owner_id flags now =
     zero_inode\<lparr>in_flags := 1 OR flags, in_owner_id := owner_id, in_created := now, in_modified := now,
       in_name := take 15 (name @ replicate 15 0) @ [0]\<rparr>"

definition ekkfs_create :: "'s sd_driver \<Rightarrow> u8 list \<Rightarrow> u32 \<Rightarrow> u32 \<Rightarrow> 's ekkfs \<Rightarrow> (int \<times> 's ekkfs) option" where
  "ekkfs_create hal name owner_id flags s =
     (if \<not> ef_mounted s then Some (EKKFS_ERR_NOT_MOUNTED, s)
      else if length name > 15 then Some (EKKFS_ERR_NAME_TOO_LONG, s)
      else do {
        (found, s) \<leftarrow> inode_find_by_name hal name s;
        if found \<ge> 0 then Some (EKKFS_ERR_EXISTS, s)
        else do {
          (inode_num, s) \<leftarrow> inode_alloc hal s;
          if inode_num < 0 then Some (EKKFS_ERR_NO_INODES, s)
          else do {
            let (now, sd) = hal_time_us hal (ef_sd s);
            (r, s) \<leftarrow> inode_write hal (word_of_int inode_num) (create_inode name owner_id flags now) (s\<lparr>ef_sd := sd\<rparr>);
            Some (if r \<noteq> EKKFS_OK then EKKFS_ERR_IO else inode_num, s)
          }
        }
      })"

fun free_blocks :: "'s sd_driver \<Rightarrow> u32 list \<Rightarrow> 's ekkfs \<Rightarrow> 's ekkfs option" where
  "free_blocks hal [] s = Some s"
| "free_blocks hal (b # bs) s = do {
     s \<leftarrow> (if b \<noteq> 0 then bitmap_free hal b s else Some s);
     free_blocks hal bs s
   }"

definition ekkfs_delete :: "'s sd_driver \<Rightarrow> u8 list \<Rightarrow> u32 \<Rightarrow> 's ekkfs \<Rightarrow> (int \<times> 's ekkfs) option" where
  "ekkfs_delete hal name owner_id s =
     (if \<not> ef_mounted s then Some (EKKFS_ERR_NOT_MOUNTED, s)
      else do {
        (inode_num, s) \<leftarrow> inode_find_by_name hal name s;
        if inode_num < 0 then Some (EKKFS_ERR_NOT_FOUND, s)
        else do {
          (r, s) \<leftarrow> inode_read hal (word_of_int inode_num) s;
          case r of
            Inl e \<Rightarrow> Some (EKKFS_ERR_IO, s)
          | Inr inode \<Rightarrow>
              if owner_id \<noteq> 0 \<and> in_owner_id inode \<noteq> owner_id then Some (EKKFS_ERR_PERMISSION, s)
              else if in_flags inode AND 2 \<noteq> 0 \<and> owner_id \<noteq> 0 then Some (EKKFS_ERR_PERMISSION, s)
              else do {
                s \<leftarrow> free_blocks hal (in_blocks inode) s;
                s \<leftarrow> (if in_indirect inode \<noteq> 0
                     then (case read_block hal s (in_indirect inode) of
                             (None, s) \<Rightarrow> bitmap_free hal (in_indirect inode) s
                           | (Some buffer, s) \<Rightarrow> do {
                               s \<leftarrow> free_blocks hal (words_of_bytes 128 buffer) s;
                               bitmap_free hal (in_indirect inode) s
                             })
                     else Some s);
                (r, s) \<leftarrow> inode_write hal (word_of_int inode_num) zero_inode s;
                Some (if r \<noteq> EKKFS_OK then EKKFS_ERR_IO else EKKFS_OK, s)
              }
        }
      })"

definition ekkfs_open :: "'s sd_driver \<Rightarrow> ekkfs_file \<Rightarrow> u8 list \<Rightarrow> 's ekkfs \<Rightarrow> (int \<times> ekkfs_file \<times> 's ekkfs) option" where
  "ekkfs_open hal file name s =
     (if \<not> ef_mounted s then Some (EKKFS_ERR_NOT_MOUNTED, file, s)
      else do {
        (inode_num, s) \<leftarrow> inode_find_by_name hal name s;
        Some (if inode_num < 0 then (EKKFS_ERR_NOT_FOUND, file, s)
              else (EKKFS_OK, \<lparr>fd_inode_num = word_of_int inode_num, fd_position = 0, fd_flags = 0\<rparr>, s))
      })"

definition ekkfs_close :: "ekkfs_file \<Rightarrow> int \<times> ekkfs_file" where
  "ekkfs_close file = (EKKFS_OK, \<lparr>fd_inode_num = 0, fd_position = 0, fd_flags = 0\<rparr>)"

definition ekkfs_seek :: "ekkfs_file \<Rightarrow> u32 \<Rightarrow> int \<times> ekkfs_file" where
  "ekkfs_seek file position = (EKKFS_OK, file\<lparr>fd_position := position\<rparr>)"

section \<open>Reading\<close>

text \<open>The bytes of the next block that a transfer of \<open>amount\<close> bytes still needs after \<open>bytes_done\<close>.\<close>

definition chunk :: "u32 \<Rightarrow> u32 \<Rightarrow> u32 \<Rightarrow> u32" where
  "chunk position bytes_done amount =
     (let n = 512 - position mod 512 in if n > amount - bytes_done then amount - bytes_done else n)"

lemma chunk_bounds:
  assumes "bytes_done < amount"
  shows "0 < unat (chunk position bytes_done amount)" "unat (chunk position bytes_done amount) \<le> unat amount - unat bytes_done"
    "unat (position mod 512) + unat (chunk position bytes_done amount) \<le> 512"
    "unat (bytes_done + chunk position bytes_done amount) = unat bytes_done + unat (chunk position bytes_done amount)"
    "unat (chunk position bytes_done amount) = min (unat amount - unat bytes_done) (512 - unat position mod 512)"
proof -
  have lt: "unat bytes_done < unat amount" using assms by (simp add: word_less_nat_alt)
  have d: "unat (amount - bytes_done) = unat amount - unat bytes_done" using lt by (simp add: unat_sub word_le_nat_alt)
  have m: "unat (position mod 512) = unat position mod 512" by (simp add: unat_mod)
  have o: "unat (512 - position mod 512) = 512 - unat position mod 512" by (subst unat_sub) (simp_all add: word_le_nat_alt m less_imp_le)
  have o0: "unat position mod 512 < 512" by simp
  show c: "unat (chunk position bytes_done amount) = min (unat amount - unat bytes_done) (512 - unat position mod 512)"
    by (simp add: chunk_def Let_def word_less_nat_alt d o)
  show "0 < unat (chunk position bytes_done amount)" "unat (chunk position bytes_done amount) \<le> unat amount - unat bytes_done"
    "unat (position mod 512) + unat (chunk position bytes_done amount) \<le> 512"
    unfolding c m using lt o0 by linarith+
  then show "unat (bytes_done + chunk position bytes_done amount) = unat bytes_done + unat (chunk position bytes_done amount)"
    using lt unat_u32_less [of amount] by (simp add: unat_word_ariths)
qed

definition block_of :: "'s sd_driver \<Rightarrow> ekkfs_inode \<Rightarrow> nat \<Rightarrow> 's ekkfs \<Rightarrow> (u32 option \<times> 's ekkfs) option" where
  "block_of hal inode block_idx s =
     (if block_idx < 10 then Some (Some (in_blocks inode ! block_idx), s)
      else if in_indirect inode \<noteq> 0
      then (case read_block hal s (in_indirect inode) of
              (None, s) \<Rightarrow> Some (None, s)
            | (Some buffer, s) \<Rightarrow>
                if 128 \<le> block_idx - 10 then None else Some (Some (words_of_bytes 128 buffer ! (block_idx - 10)), s))
      else Some (Some 0, s))"

definition advance :: "u32 \<Rightarrow> ekkfs_file \<Rightarrow> ekkfs_file" where
  "advance n file = file\<lparr>fd_position := fd_position file + n\<rparr>"

function read_loop ::
  "'s sd_driver \<Rightarrow> ekkfs_inode \<Rightarrow> u32 \<Rightarrow> u8 list \<Rightarrow> u32 \<Rightarrow> ekkfs_file \<Rightarrow> 's ekkfs \<Rightarrow> (int \<times> u8 list \<times> ekkfs_file \<times> 's ekkfs) option"
where
  "read_loop hal inode amount out bytes_read file s =
     (if bytes_read < amount
      then
        (let block_idx = unat (fd_position file div 512);
             block_offset = unat (fd_position file mod 512);
             to_read = chunk (fd_position file) bytes_read amount
         in do {
           (r, s) \<leftarrow> block_of hal inode block_idx s;
           case r of
             None \<Rightarrow> Some (EKKFS_ERR_IO, out, file, s)
           | Some block_num \<Rightarrow>
               if block_num \<noteq> 0
               then (case read_block hal s block_num of
                       (None, s) \<Rightarrow> Some (EKKFS_ERR_IO, out, file, s)
                     | (Some buffer, s) \<Rightarrow>
                         read_loop hal inode amount (out @ field buffer block_offset (unat to_read)) (bytes_read + to_read) (advance to_read file) s)
               else read_loop hal inode amount (out @ replicate (unat to_read) 0) (bytes_read + to_read) (advance to_read file) s
         })
      else Some (sint bytes_read, out, file, s))"
  by pat_completeness auto
termination
proof (relation "measure (\<lambda>(hal, inode, amount, out, bytes_read, file, s). unat amount - unat bytes_read)", goal_cases)
  case (2 hal inode amount out bytes_read fl s)
  then show ?case using chunk_bounds(1,2,4) [of bytes_read amount "fd_position fl"] by auto
next
  case (3 hal inode amount out bytes_read fl s)
  then show ?case using chunk_bounds(1,2,4) [of bytes_read amount "fd_position fl"] by auto
qed simp

declare read_loop.simps [simp del]

text \<open>The bytes put into the buffer, as many as were read before an error.\<close>

definition ekkfs_read ::
  "'s sd_driver \<Rightarrow> ekkfs_file \<Rightarrow> u32 \<Rightarrow> 's ekkfs \<Rightarrow> (int \<times> u8 list \<times> ekkfs_file \<times> 's ekkfs) option"
where
  "ekkfs_read hal file amount s =
     (if \<not> ef_mounted s then Some (EKKFS_ERR_NOT_MOUNTED, [], file, s)
      else do {
        (r, s) \<leftarrow> inode_read hal (fd_inode_num file) s;
        case r of
          Inl e \<Rightarrow> Some (EKKFS_ERR_IO, [], file, s)
        | Inr inode \<Rightarrow>
            if \<not> is_used inode then Some (EKKFS_ERR_NOT_FOUND, [], file, s)
            else
              (let remaining = (if fd_position file < in_size inode then in_size inode - fd_position file else 0);
                   amount = (if amount > remaining then remaining else amount)
               in if amount = 0 then Some (0, [], file, s) else read_loop hal inode amount [] 0 file s)
      })"

section \<open>Writing\<close>

definition update_size :: "u64 \<Rightarrow> ekkfs_file \<Rightarrow> ekkfs_inode \<Rightarrow> ekkfs_inode" where
  "update_size now file inode =
     (let inode = inode\<lparr>in_modified := now\<rparr>
      in if fd_position file > in_size inode then inode\<lparr>in_size := fd_position file\<rparr> else inode)"

text \<open>No block is free: what was written so far is saved.\<close>

definition stop_full :: "'s sd_driver \<Rightarrow> ekkfs_file \<Rightarrow> u32 \<Rightarrow> ekkfs_inode \<Rightarrow> 's ekkfs \<Rightarrow> (int \<times> 's ekkfs) option" where
  "stop_full hal file bytes_written inode s =
     (let (now, sd) = hal_time_us hal (ef_sd s)
      in do {
        (r, s) \<leftarrow> inode_write hal (fd_inode_num file) (update_size now file inode) (s\<lparr>ef_sd := sd\<rparr>);
        Some (if bytes_written > 0 then sint bytes_written else EKKFS_ERR_FULL, s)
      })"

definition load_indirect ::
  "'s sd_driver \<Rightarrow> ekkfs_file \<Rightarrow> u32 \<Rightarrow> ekkfs_inode \<Rightarrow> 's ekkfs \<Rightarrow> ((int + u32 list) \<times> ekkfs_inode \<times> 's ekkfs) option"
where
  "load_indirect hal file bytes_written inode s =
     (if in_indirect inode = 0
      then do {
        (new_indirect, s) \<leftarrow> bitmap_alloc hal s;
        if new_indirect < 0
        then do { (r, s) \<leftarrow> stop_full hal file bytes_written inode s; Some (Inl r, inode, s) }
        else Some (Inr (replicate 128 0), inode\<lparr>in_indirect := word_of_int new_indirect\<rparr>, s)
      }
      else
        (case read_block hal s (in_indirect inode) of
           (None, s) \<Rightarrow> Some (Inl EKKFS_ERR_IO, inode, s)
         | (Some buffer, s) \<Rightarrow> Some (Inr (words_of_bytes 128 buffer), inode, s)))"

text \<open>The block to write into and its bytes: a new one is zero.\<close>

definition fetch_block ::
  "'s sd_driver \<Rightarrow> ekkfs_file \<Rightarrow> u32 \<Rightarrow> ekkfs_inode \<Rightarrow> u32 \<Rightarrow> 's ekkfs \<Rightarrow> ((int + u32 \<times> u8 list) \<times> 's ekkfs) option"
where
  "fetch_block hal file bytes_written inode block s =
     (if block = 0
      then do {
        (new_block, s) \<leftarrow> bitmap_alloc hal s;
        if new_block < 0
        then do { (r, s) \<leftarrow> stop_full hal file bytes_written inode s; Some (Inl r, s) }
        else Some (Inr (word_of_int new_block, replicate 512 0), s)
      }
      else
        (case read_block hal s block of
           (None, s) \<Rightarrow> Some (Inl EKKFS_ERR_IO, s)
         | (Some buffer, s) \<Rightarrow> Some (Inr (block, buffer), s)))"

text \<open>One round of the loop. \<open>Some\<close> is the value the function returns early.\<close>

definition write_chunk ::
  "'s sd_driver \<Rightarrow> u8 list \<Rightarrow> u32 \<Rightarrow> u32 \<Rightarrow> ekkfs_file \<Rightarrow> ekkfs_inode \<Rightarrow> 's ekkfs \<Rightarrow> (int option \<times> ekkfs_inode \<times> 's ekkfs) option"
where
  "write_chunk hal buffer to_write bytes_written file inode s =
     (let block_idx = unat (fd_position file div 512); block_offset = unat (fd_position file mod 512)
      in do {
        (r, inode, s) \<leftarrow> (if block_idx < 10 then Some (Inr [], inode, s) else load_indirect hal file bytes_written inode s);
        case r of
          Inl e \<Rightarrow> Some (Some e, inode, s)
        | Inr indirect_buf \<Rightarrow>
            if 10 \<le> block_idx \<and> 128 \<le> block_idx - 10 then None
            else do {
              (r, s) \<leftarrow> fetch_block hal file bytes_written inode
                (if block_idx < 10 then in_blocks inode ! block_idx else indirect_buf ! (block_idx - 10)) s;
              case r of
                Inl e \<Rightarrow> Some (Some e, inode, s)
              | Inr (block, block_buf) \<Rightarrow>
                  if length buffer < unat bytes_written + unat to_write then None
                  else
                    (let inode = (if block_idx < 10 then inode\<lparr>in_blocks := (in_blocks inode)[block_idx := block]\<rparr> else inode);
                         (ok, s) = write_block hal s block
                           (splice block_buf block_offset (field buffer (unat bytes_written) (unat to_write)))
                     in if \<not> ok then Some (Some EKKFS_ERR_IO, inode, s)
                        else if block_idx < 10 then Some (None, inode, s)
                        else
                          (let (ok, s) = write_block hal s (in_indirect inode) (bytes_of_words (indirect_buf[block_idx - 10 := block]))
                           in if \<not> ok then Some (Some EKKFS_ERR_IO, inode, s) else Some (None, inode, s)))
            }
      })"

function write_loop ::
  "'s sd_driver \<Rightarrow> u8 list \<Rightarrow> u32 \<Rightarrow> u32 \<Rightarrow> ekkfs_file \<Rightarrow> ekkfs_inode \<Rightarrow> 's ekkfs \<Rightarrow>
     (int option \<times> u32 \<times> ekkfs_file \<times> ekkfs_inode \<times> 's ekkfs) option"
where
  "write_loop hal buffer amount bytes_written file inode s =
     (if bytes_written < amount
      then
        (let to_write = chunk (fd_position file) bytes_written amount
         in do {
           (r, inode, s) \<leftarrow> write_chunk hal buffer to_write bytes_written file inode s;
           case r of
             Some e \<Rightarrow> Some (Some e, bytes_written, file, inode, s)
           | None \<Rightarrow> write_loop hal buffer amount (bytes_written + to_write) (advance to_write file) inode s
         })
      else Some (None, bytes_written, file, inode, s))"
  by pat_completeness auto
termination
proof (relation "measure (\<lambda>(hal, buffer, amount, bytes_written, file, inode, s). unat amount - unat bytes_written)", goal_cases)
  case (2 hal buffer amount bytes_written fl inode s)
  then show ?case using chunk_bounds(1,2,4) [of bytes_written amount "fd_position fl"] by auto
qed simp

declare write_loop.simps [simp del]

definition ekkfs_write ::
  "'s sd_driver \<Rightarrow> ekkfs_file \<Rightarrow> u8 list \<Rightarrow> u32 \<Rightarrow> u32 \<Rightarrow> 's ekkfs \<Rightarrow> (int \<times> ekkfs_file \<times> 's ekkfs) option"
where
  "ekkfs_write hal file buffer amount owner_id s =
     (if \<not> ef_mounted s then Some (EKKFS_ERR_NOT_MOUNTED, file, s)
      else do {
        (r, s) \<leftarrow> inode_read hal (fd_inode_num file) s;
        case r of
          Inl e \<Rightarrow> Some (EKKFS_ERR_IO, file, s)
        | Inr inode \<Rightarrow>
            if \<not> is_used inode then Some (EKKFS_ERR_NOT_FOUND, file, s)
            else if owner_id \<noteq> 0 \<and> in_owner_id inode \<noteq> owner_id then Some (EKKFS_ERR_PERMISSION, file, s)
            else do {
              (r, bytes_written, file, inode, s) \<leftarrow> write_loop hal buffer amount 0 file inode s;
              case r of
                Some e \<Rightarrow> Some (e, file, s)
              | None \<Rightarrow>
                  (let (now, sd) = hal_time_us hal (ef_sd s);
                       inode = (update_size now file inode)\<lparr>in_crc32 := 0\<rparr>
                   in do {
                     (r, s) \<leftarrow> inode_write hal (fd_inode_num file) inode (s\<lparr>ef_sd := sd\<rparr>);
                     Some (if r \<noteq> EKKFS_OK then EKKFS_ERR_IO else sint bytes_written, file, s)
                   })
            }
      })"

section \<open>Information\<close>

definition ekkfs_stat :: "'s sd_driver \<Rightarrow> u8 list \<Rightarrow> 's ekkfs \<Rightarrow> (int \<times> ekkfs_stat_t option \<times> 's ekkfs) option" where
  "ekkfs_stat hal name s =
     (if \<not> ef_mounted s then Some (EKKFS_ERR_NOT_MOUNTED, None, s)
      else do {
        (inode_num, s) \<leftarrow> inode_find_by_name hal name s;
        if inode_num < 0 then Some (EKKFS_ERR_NOT_FOUND, None, s)
        else do {
          (r, s) \<leftarrow> inode_read hal (word_of_int inode_num) s;
          case r of
            Inl e \<Rightarrow> Some (EKKFS_ERR_IO, None, s)
          | Inr inode \<Rightarrow>
              Some (EKKFS_OK,
                Some \<lparr>st_inode_num = word_of_int inode_num, st_flags = in_flags inode, st_owner_id = in_owner_id inode, st_size = in_size inode,
                  st_created = in_created inode, st_modified = in_modified inode,
                  st_name = take 16 (c_str (in_name inode) @ replicate 16 0)\<rparr>, s)
        }
      })"

text \<open>The calls of the callback, and the result.\<close>

definition ekkfs_list :: "'s sd_driver \<Rightarrow> 's ekkfs \<Rightarrow> (int \<times> (u32 \<times> u8 list \<times> u32 \<times> u32) list \<times> 's ekkfs) option" where
  "ekkfs_list hal s =
     (if \<not> ef_mounted s then Some (EKKFS_ERR_NOT_MOUNTED, [], s)
      else do {
        (inodes, s) \<leftarrow> used_inodes_from hal 0 (unat (sb_inode_count (ef_superblock s))) s;
        Some (int (length inodes), map (\<lambda>(i, inode). (i, in_name inode, in_size inode, in_owner_id inode)) inodes, s)
      })"

definition ekkfs_statfs :: "'s sd_driver \<Rightarrow> 's ekkfs \<Rightarrow> (int \<times> (u32 \<times> u32 \<times> u32 \<times> u32) option \<times> 's ekkfs) option" where
  "ekkfs_statfs hal s =
     (if \<not> ef_mounted s then Some (EKKFS_ERR_NOT_MOUNTED, None, s)
      else do {
        (inodes, s) \<leftarrow> used_inodes_from hal 0 (unat (sb_inode_count (ef_superblock s))) s;
        Some (EKKFS_OK, Some (sb_total_blocks (ef_superblock s), sb_free_blocks (ef_superblock s), sb_inode_count (ef_superblock s),
          of_nat (length inodes)), s)
      })"

section \<open>Inodes on the card\<close>

lemma length_bytes_of_words [simp]: "length (bytes_of_words ws) = 4 * length ws"
  by (induction ws) (simp_all add: bytes_of_words_def)

lemma bytes_of_words_simps [simp]:
  "bytes_of_words [] = []" "bytes_of_words (w # ws) = le32 w @ bytes_of_words ws"
  "bytes_of_words (ws @ vs) = bytes_of_words ws @ bytes_of_words vs"
  by (simp_all add: bytes_of_words_def)

lemma word_at: "k < length ws \<Longrightarrow> field (bytes_of_words ws) (4 * k) 4 = le32 (ws ! k)"
proof (induction ws arbitrary: k)
  case (Cons w ws)
  then show ?case by (cases k) simp_all
qed simp

lemma words_round_trip: "length ws = n \<Longrightarrow> words_of_bytes n (bytes_of_words ws) = ws"
  by (rule nth_equalityI) (simp_all add: words_of_bytes_def word_at)

definition inode_ok :: "ekkfs_inode \<Rightarrow> bool" where
  "inode_ok i \<longleftrightarrow> length (in_blocks i) = 10 \<and> length (in_name i) = 16"

lemma length_inode_bytes: "inode_ok i \<Longrightarrow> length (inode_bytes i) = 92"
  by (simp add: inode_bytes_def inode_ok_def)

lemma inode_round_trip: "inode_ok i \<Longrightarrow> inode_of_bytes (inode_bytes i) = i"
  by (cases i) (simp add: inode_of_bytes_def inode_bytes_def inode_ok_def words_round_trip)

lemma inode_ok_read: "length bs = 92 \<Longrightarrow> inode_ok (inode_of_bytes bs)"
  by (simp add: inode_ok_def inode_of_bytes_def words_of_bytes_def field_def)

definition inode_at :: "(u32 \<Rightarrow> u8 list) \<Rightarrow> 's ekkfs \<Rightarrow> u32 \<Rightarrow> ekkfs_inode" where
  "inode_at f s k = inode_of_bytes (field (f (inode_block s k)) (inode_offset k) 92)"

text \<open>An inode among the five of its block that lie inside the block.\<close>

definition slot_ok :: "u32 \<Rightarrow> 's ekkfs \<Rightarrow> u32 \<Rightarrow> bool" where
  "slot_ok n s k \<longleftrightarrow> k < sb_inode_count (ef_superblock s) \<and> unat k mod 8 < 5 \<and> inode_block s k < n"

lemma inode_offset_bound: "unat k mod 8 < 5 \<Longrightarrow> inode_offset k + 92 \<le> 512"
  by (simp add: inode_offset_def unat_mod)

lemma inode_read_ok:
  assumes d: "disk_is hal blk base n f s" and k: "slot_ok n s k"
  shows "\<exists>s'. inode_read hal k s = Some (Inr (inode_at f s k), s') \<and> disk_is hal blk base n f s' \<and> io_only s s'"
  using read_block_ok [OF d, of "inode_block s k"] inode_offset_bound [of k] k
  by (auto simp: inode_read_def slot_ok_def inode_at_def)

lemma inode_write_ok:
  assumes d: "disk_is hal blk base n f s" and k: "slot_ok n s k" and i: "inode_ok inode"
  shows "\<exists>f' s'. inode_write hal k inode s = Some (EKKFS_OK, s') \<and> disk_is hal blk base n f' s' \<and> io_only s s' \<and>
    inode_at f' s k = inode \<and> (\<forall>b. b \<noteq> inode_block s k \<longrightarrow> f' b = f b)"
proof -
  let ?b = "inode_block s k" and ?off = "inode_offset k"
  let ?data = "splice (f ?b) ?off (inode_bytes inode)"
  have b: "?b < n" "?off + 92 \<le> 512" using k inode_offset_bound [of k] by (simp_all add: slot_ok_def)
  obtain s1 where s1: "read_block hal s ?b = (Some (f ?b), s1)" "disk_is hal blk base n f s1" "io_only s s1"
    using read_block_ok [OF d b(1)] by blast
  have len: "length (f ?b) = 512" "length ?data = 512"
    using disk_lengths [OF d] b length_inode_bytes [OF i] by simp_all
  have same: "inode_block s1 k = ?b" using s1(3) by (simp add: inode_block_def io_only_def)
  obtain s2 where s2: "write_block hal s1 ?b ?data = (True, s2)" "disk_is hal blk base n (f(?b := ?data)) s2" "io_only s1 s2"
    using write_block_ok [OF s1(2) b(1) len(2)] by blast
  have "inode_write hal k inode s = Some (EKKFS_OK, s2)"
    using s1(1) s2(1) b(2) k by (simp add: inode_write_def slot_ok_def same not_le)
  moreover have "inode_at (f(?b := ?data)) s k = inode"
    using b len length_inode_bytes [OF i] by (simp add: inode_at_def field_splice_same inode_round_trip [OF i])
  ultimately show ?thesis using s2(2) io_only_trans [OF s1(3) s2(3)] by (intro exI [of _ "f(?b := ?data)"] exI [of _ s2]) simp
qed

section \<open>The bytes of a file\<close>

definition file_byte :: "(u32 \<Rightarrow> u8 list) \<Rightarrow> ekkfs_inode \<Rightarrow> nat \<Rightarrow> u8" where
  "file_byte f inode p =
     (let b = in_blocks inode ! (p div 512) in if b = 0 then 0 else f b ! (p mod 512))"

definition holes :: "ekkfs_inode \<Rightarrow> nat" where
  "holes inode = card {j. j < 10 \<and> in_blocks inode ! j = 0}"

text \<open>The direct blocks of the inode are its own, and there are enough free blocks to fill its holes.\<close>

definition blocks_ok :: "u32 \<Rightarrow> ekkfs_inode \<Rightarrow> 's ekkfs \<Rightarrow> bool" where
  "blocks_ok n inode s \<longleftrightarrow> fs_layout n s \<and> sb_total_blocks (ef_superblock s) \<le> n \<and> 0 < sb_data_start (ef_superblock s) \<and>
     \<not> js_tx_active (ef_journal s) \<and> inode_ok inode \<and>
     (\<forall>j < 10. let b = in_blocks inode ! j in b \<noteq> 0 \<longrightarrow>
        sb_data_start (ef_superblock s) \<le> b \<and> b < sb_total_blocks (ef_superblock s) \<and> block_index s b \<notin> free_blocks_of s) \<and>
     (\<forall>i < 10. \<forall>j < 10. i \<noteq> j \<and> in_blocks inode ! i \<noteq> 0 \<longrightarrow> in_blocks inode ! i \<noteq> in_blocks inode ! j) \<and>
     holes inode \<le> card (free_blocks_of s)"

definition own_blocks :: "ekkfs_inode \<Rightarrow> 's ekkfs \<Rightarrow> u32 set" where
  "own_blocks inode s = (set (in_blocks inode) - {0}) \<union> block_at s ` free_blocks_of s"

definition same_volume :: "'s ekkfs \<Rightarrow> 's ekkfs \<Rightarrow> bool" where
  "same_volume s s' \<longleftrightarrow> (\<exists>buf k. io_only (s\<lparr>ef_bitmap_buf := buf, ef_superblock := (ef_superblock s)\<lparr>sb_free_blocks := k\<rparr>\<rparr>) s')"

lemma same_volume_fields:
  assumes "same_volume s s'"
  shows "ef_mounted s' = ef_mounted s" "ef_journal s' = ef_journal s" "ef_bitmap_blocks s' = ef_bitmap_blocks s"
    "sb_data_start (ef_superblock s') = sb_data_start (ef_superblock s)" "sb_total_blocks (ef_superblock s') = sb_total_blocks (ef_superblock s)"
    "sb_inode_count (ef_superblock s') = sb_inode_count (ef_superblock s)" "sb_inode_start (ef_superblock s') = sb_inode_start (ef_superblock s)"
    "sb_journal_start (ef_superblock s') = sb_journal_start (ef_superblock s)" "sb_bitmap_start (ef_superblock s') = sb_bitmap_start (ef_superblock s)"
    "inode_block s' = inode_block s" "block_at s' = block_at s" "block_index s' = block_index s" "slot_ok n s' = slot_ok n s"
  using assms by (auto simp: same_volume_def io_only_def inode_block_def block_at_def block_index_def slot_ok_def fun_eq_iff)

lemma io_only_volume: "io_only s s' \<Longrightarrow> same_volume s s'"
  unfolding same_volume_def
  by (rule exI [of _ "ef_bitmap_buf s"], rule exI [of _ "sb_free_blocks (ef_superblock s)"]) (simp add: io_only_def)

lemma same_volume_trans: "same_volume s s' \<Longrightarrow> same_volume s' s'' \<Longrightarrow> same_volume s s''"
proof -
  assume "same_volume s s'" "same_volume s' s''"
  then obtain buf k buf' k' where io: "io_only (s\<lparr>ef_bitmap_buf := buf, ef_superblock := (ef_superblock s)\<lparr>sb_free_blocks := k\<rparr>\<rparr>) s'"
    "io_only (s'\<lparr>ef_bitmap_buf := buf', ef_superblock := (ef_superblock s')\<lparr>sb_free_blocks := k'\<rparr>\<rparr>) s''"
    unfolding same_volume_def by blast
  then have "io_only (s\<lparr>ef_bitmap_buf := buf', ef_superblock := (ef_superblock s)\<lparr>sb_free_blocks := k'\<rparr>\<rparr>) s''"
    by (simp add: io_only_def)
  then show ?thesis unfolding same_volume_def by blast
qed

lemma takes_fields:
  assumes "takes s x s'"
  shows "ef_mounted s' = ef_mounted s" "ef_partition_lba s' = ef_partition_lba s" "ef_journal s' = ef_journal s"
    "ef_bitmap_blocks s' = ef_bitmap_blocks s" "ef_cache s' = ef_cache s" "ef_sd s' = ef_sd s"
    "ef_superblock s' = (ef_superblock s)\<lparr>sb_free_blocks := sb_free_blocks (ef_superblock s) - 1\<rparr>"
proof -
  have s': "s' = add_free_blocks (- 1) (s\<lparr>ef_bitmap_buf := ef_bitmap_buf s'\<rparr>)" using assms by (simp add: takes_def)
  show "ef_mounted s' = ef_mounted s" "ef_partition_lba s' = ef_partition_lba s" "ef_journal s' = ef_journal s"
    "ef_bitmap_blocks s' = ef_bitmap_blocks s" "ef_cache s' = ef_cache s" "ef_sd s' = ef_sd s"
    "ef_superblock s' = (ef_superblock s)\<lparr>sb_free_blocks := sb_free_blocks (ef_superblock s) - 1\<rparr>"
    by (subst s', simp add: add_free_blocks_def)+
qed

lemma same_volume_takes: "takes s x s' \<Longrightarrow> same_volume s s'"
  unfolding same_volume_def
  by (rule exI [of _ "ef_bitmap_buf s'"], rule exI [of _ "sb_free_blocks (ef_superblock s) - 1"])
    (simp add: io_only_def takes_fields [of s x s'])

lemma same_volume_refl: "same_volume s s"
  by (rule io_only_volume) simp

text \<open>The bytes \<open>d\<close> have been written at \<open>a\<close>: nothing else of the file and no block of anything else has changed.\<close>

definition file_written ::
  "u32 \<Rightarrow> (u32 \<Rightarrow> u8 list) \<Rightarrow> ekkfs_inode \<Rightarrow> 's ekkfs \<Rightarrow> nat \<Rightarrow> u8 list \<Rightarrow> (u32 \<Rightarrow> u8 list) \<Rightarrow> ekkfs_inode \<Rightarrow> 's ekkfs \<Rightarrow> bool"
where
  "file_written n f inode s a d f' inode' s' \<longleftrightarrow> same_volume s s' \<and> inode' = inode\<lparr>in_blocks := in_blocks inode'\<rparr> \<and> blocks_ok n inode' s' \<and>
     (\<forall>p < 5120. file_byte f' inode' p = (if a \<le> p \<and> p < a + length d then d ! (p - a) else file_byte f inode p)) \<and>
     (\<forall>b. f' b \<noteq> f b \<longrightarrow> b \<in> own_blocks inode s) \<and> own_blocks inode' s' \<subseteq> own_blocks inode s"

lemma file_written_refl: "blocks_ok n inode s \<Longrightarrow> file_written n f inode s a [] f inode s"
  by (auto simp: file_written_def same_volume_refl)

lemma file_written_trans:
  assumes "file_written n f inode s a d f' inode' s'" "file_written n f' inode' s' (a + length d) d' f'' inode'' s''"
  shows "file_written n f inode s a (d @ d') f'' inode'' s''"
  unfolding file_written_def
proof (intro conjI allI impI)
  show "same_volume s s''" using assms same_volume_trans unfolding file_written_def by blast
  show "inode'' = inode\<lparr>in_blocks := in_blocks inode''\<rparr>"
    using assms unfolding file_written_def by (metis ekkfs_inode.surjective ekkfs_inode.update_convs(4))
  show "file_byte f'' inode'' p = (if a \<le> p \<and> p < a + length (d @ d') then (d @ d') ! (p - a) else file_byte f inode p)" if "p < 5120" for p
    using assms that unfolding file_written_def by (auto simp: nth_append)
  show "b \<in> own_blocks inode s" if "f'' b \<noteq> f b" for b
    using assms that unfolding file_written_def by (metis subsetD)
qed (use assms in \<open>auto simp: file_written_def\<close>)

lemma file_written_same:
  assumes "file_written n f inode s a d f' inode' s'"
  shows "in_size inode' = in_size inode" "in_flags inode' = in_flags inode"
proof -
  have eq: "inode' = inode\<lparr>in_blocks := in_blocks inode'\<rparr>" using assms unfolding file_written_def by blast
  show "in_size inode' = in_size inode" "in_flags inode' = in_flags inode"
    using arg_cong [OF eq, of in_size] arg_cong [OF eq, of in_flags] by simp_all
qed

lemma holes_filled:
  assumes "length (in_blocks inode) = 10" "j < 10" "in_blocks inode ! j = 0" "b \<noteq> 0"
  shows "holes inode = Suc (holes (inode\<lparr>in_blocks := (in_blocks inode)[j := b]\<rparr>))"
proof -
  have "{i. i < 10 \<and> in_blocks inode ! i = 0} = insert j {i. i < 10 \<and> (in_blocks inode)[j := b] ! i = 0}"
    using assms by (auto simp: nth_list_update)
  moreover have "j \<notin> {i. i < 10 \<and> (in_blocks inode)[j := b] ! i = 0}" using assms by simp
  ultimately show ?thesis by (simp add: holes_def)
qed

lemma position_of:
  fixes p idx :: nat
  assumes "512 * idx \<le> p" "p < 512 * idx + 512"
  shows "p div 512 = idx" "p mod 512 = p - 512 * idx"
proof -
  show d: "p div 512 = idx" by (rule div_nat_eqI) (use assms in simp_all)
  show "p mod 512 = p - 512 * idx" by (simp add: d flip: minus_mult_div_eq_mod)
qed

lemma file_byte_update:
  assumes idx: "idx < 10" "length (in_blocks inode) = 10" and off: "off + length d \<le> 512" "length old = 512"
    and b: "b \<noteq> 0" "\<forall>j < 10. j \<noteq> idx \<longrightarrow> in_blocks inode ! j \<noteq> b"
    and old: "\<forall>m < 512. old ! m = file_byte f inode (512 * idx + m)" and p: "p < 5120"
  shows "file_byte (f(b := splice old off d)) (inode\<lparr>in_blocks := (in_blocks inode)[idx := b]\<rparr>) p =
    (if 512 * idx + off \<le> p \<and> p < 512 * idx + off + length d then d ! (p - (512 * idx + off)) else file_byte f inode p)"
proof (cases "p div 512 = idx")
  case True
  then have p_is: "p = 512 * idx + p mod 512" by (metis mult_div_mod_eq)
  have m: "p mod 512 < 512" by simp
  have "file_byte (f(b := splice old off d)) (inode\<lparr>in_blocks := (in_blocks inode)[idx := b]\<rparr>) p = splice old off d ! (p mod 512)"
    using True idx b(1) by (simp add: file_byte_def)
  also have "\<dots> = (if off \<le> p mod 512 \<and> p mod 512 < off + length d then d ! (p mod 512 - off) else old ! (p mod 512))"
    using off m by (simp add: nth_splice_bytes)
  also have "old ! (p mod 512) = file_byte f inode p" using old m p_is by metis
  moreover have "p - (512 * idx + off) = p mod 512 - off" by (subst p_is) simp
  moreover have "512 * idx + off \<le> p \<longleftrightarrow> off \<le> p mod 512" "p < 512 * idx + off + length d \<longleftrightarrow> p mod 512 < off + length d"
    by (subst p_is, simp)+
  ultimately show ?thesis by simp
next
  case False
  then have "\<not> (512 * idx + off \<le> p \<and> p < 512 * idx + off + length d)"
    using position_of [of idx p] off by linarith
  moreover have "p div 512 < 10" using p by simp
  ultimately show ?thesis using False b(2) by (auto simp: file_byte_def Let_def)
qed

lemma io_only_free: "io_only s s' \<Longrightarrow> free_blocks_of s' = free_blocks_of s"
  by (simp add: io_only_def free_blocks_of_def data_count_def)

lemma io_only_blocks: "io_only s s' \<Longrightarrow> blocks_ok n inode s' = blocks_ok n inode s" "io_only s s' \<Longrightarrow> own_blocks inode s' = own_blocks inode s"
  using io_only_free [of s s'] by (simp_all add: blocks_ok_def own_blocks_def io_only_def fs_layout_def block_index_def block_at_def Let_def cong: image_cong)

lemma takes_bits: "takes s x s' \<Longrightarrow> length (ef_bitmap_buf s') = 4096 \<and>
    (\<forall>y < 32768. used (ef_bitmap_buf s') y = (y = x \<or> used (ef_bitmap_buf s) y))"
  unfolding takes_def by blast

lemma takes_free:
  assumes t: "takes s x s'" and L: "fs_layout n s"
  shows "free_blocks_of s' = free_blocks_of s - {x}"
proof -
  have "data_count s' = data_count s" by (simp add: data_count_def takes_fields [OF t])
  then show ?thesis using layoutD(2) [OF L] takes_bits [OF t] by (auto simp: free_blocks_of_def)
qed

lemma takes_layout: "takes s x s' \<Longrightarrow> fs_layout n s \<Longrightarrow> fs_layout n s'"
  using takes_bits [of s x s'] by (simp add: fs_layout_def Let_def takes_fields [of s x s'])

lemma blocks_okD:
  assumes "blocks_ok n inode s"
  shows "fs_layout n s" "sb_total_blocks (ef_superblock s) \<le> n" "0 < sb_data_start (ef_superblock s)" "\<not> js_tx_active (ef_journal s)"
    "inode_ok inode" "length (in_blocks inode) = 10" "holes inode \<le> card (free_blocks_of s)"
    "\<And>j. j < 10 \<Longrightarrow> in_blocks inode ! j \<noteq> 0 \<Longrightarrow> sb_data_start (ef_superblock s) \<le> in_blocks inode ! j \<and>
      in_blocks inode ! j < sb_total_blocks (ef_superblock s) \<and> block_index s (in_blocks inode ! j) \<notin> free_blocks_of s"
    "\<And>i j. i < 10 \<Longrightarrow> j < 10 \<Longrightarrow> i \<noteq> j \<Longrightarrow> in_blocks inode ! i \<noteq> 0 \<Longrightarrow> in_blocks inode ! i \<noteq> in_blocks inode ! j"
  using assms by (simp_all add: blocks_ok_def inode_ok_def Let_def)

lemma free_block:
  assumes L: "fs_layout n s" and x: "x \<in> free_blocks_of s"
  shows "unat (block_at s x) = unat (sb_data_start (ef_superblock s)) + x" "block_index s (block_at s x) = x"
    "sb_data_start (ef_superblock s) \<le> block_at s x" "block_at s x < sb_total_blocks (ef_superblock s)"
  using data_block [OF L, of x] layoutD(2) [OF L] x by (simp_all add: block_at_def free_blocks_of_def)

lemma write_existing:
  assumes d: "disk_is hal blk base n f s" and ok: "blocks_ok n inode s" and idx: "idx < 10" and b: "in_blocks inode ! idx = b" "b \<noteq> 0"
    and bs: "off + length bs \<le> 512"
  shows "\<exists>s1 f' s2. read_block hal s b = (Some (f b), s1) \<and> write_block hal s1 b (splice (f b) off bs) = (True, s2) \<and>
    disk_is hal blk base n f' s2 \<and>
    file_written n f inode s (512 * idx + off) bs f' (inode\<lparr>in_blocks := (in_blocks inode)[idx := b]\<rparr>) s2"
proof -
  note B = blocks_okD [OF ok]
  have bn: "b < n" using B(2) B(8) [OF idx] b by (simp add: word_less_nat_alt word_le_nat_alt)
  obtain s1 where s1: "read_block hal s b = (Some (f b), s1)" "disk_is hal blk base n f s1" "io_only s s1"
    using read_block_ok [OF d bn] by blast
  have len: "length (f b) = 512" "length (splice (f b) off bs) = 512" using disk_lengths [OF d] bn bs by simp_all
  obtain s2 where s2: "write_block hal s1 b (splice (f b) off bs) = (True, s2)" "disk_is hal blk base n (f(b := splice (f b) off bs)) s2" "io_only s1 s2"
    using write_block_ok [OF s1(2) bn len(2)] by blast
  have io: "io_only s s2" by (rule io_only_trans [OF s1(3) s2(3)])
  have id: "(in_blocks inode)[idx := b] = in_blocks inode" by (simp flip: b(1))
  have other: "\<forall>j < 10. j \<noteq> idx \<longrightarrow> in_blocks inode ! j \<noteq> b" using B(9) [of idx] idx b by metis
  have old: "\<forall>m < 512. f b ! m = file_byte f inode (512 * idx + m)" using b by (simp add: file_byte_def)
  have "b \<in> own_blocks inode s" using b idx B(6) by (auto simp: own_blocks_def)
  then have "file_written n f inode s (512 * idx + off) bs (f(b := splice (f b) off bs)) (inode\<lparr>in_blocks := (in_blocks inode)[idx := b]\<rparr>) s2"
    using file_byte_update [OF idx B(6) bs len(1) b(2) other old] ok io io_only_blocks [OF io]
    by (auto simp: file_written_def id io_only_volume)
  then show ?thesis using s1(1) s2(1,2) by blast
qed

lemma write_hole:
  assumes d: "disk_is hal blk base n f s" and ok: "blocks_ok n inode s" and idx: "idx < 10" and hole: "in_blocks inode ! idx = 0"
    and bs: "off + length bs \<le> 512"
  shows "\<exists>b s1 f' s2. bitmap_alloc hal s = Some (int (unat b), s1) \<and> write_block hal s1 b (splice (replicate 512 0) off bs) = (True, s2) \<and>
    disk_is hal blk base n f' s2 \<and>
    file_written n f inode s (512 * idx + off) bs f' (inode\<lparr>in_blocks := (in_blocks inode)[idx := b]\<rparr>) s2"
proof -
  note B = blocks_okD [OF ok]
  let ?x = "Min (free_blocks_of s)"
  let ?b = "block_at s ?x"
  let ?inode = "inode\<lparr>in_blocks := (in_blocks inode)[idx := ?b]\<rparr>"
  have "0 < holes inode" using idx hole by (auto simp: holes_def card_gt_0_iff)
  then have x: "?x \<in> free_blocks_of s" using B(7) by (intro Min_in) auto
  note fb = free_block [OF B(1) x]
  have bn: "?b < n" using fb(4) B(2) by (simp add: word_less_nat_alt word_le_nat_alt)
  have b0: "?b \<noteq> 0" using fb(3) B(3) by (auto simp: word_le_nat_alt word_less_nat_alt)
  obtain s1 where s1: "takes s ?x s1" "bitmap_alloc hal s = Some (int (unat ?b), s1)"
    using bitmap_alloc_takes [OF B(1), of hal] x B(4) by (auto split: if_splits)
  note t = takes_fields [OF s1(1)]
  have d1: "disk_is hal blk base n f s1" using d by (rule disk_is_cong) (simp_all add: t)
  have len: "length (splice (replicate 512 0) off bs) = 512" using bs by simp
  obtain s2 where s2: "write_block hal s1 ?b (splice (replicate 512 0) off bs) = (True, s2)"
    "disk_is hal blk base n (f(?b := splice (replicate 512 0) off bs)) s2" "io_only s1 s2"
    using write_block_ok [OF d1 bn len] by blast
  have L1: "fs_layout n s1" by (rule takes_layout [OF s1(1) B(1)])
  have free1: "free_blocks_of s1 = free_blocks_of s - {?x}" by (rule takes_free [OF s1(1) B(1)])
  have same1: "block_at s1 = block_at s" "block_index s1 = block_index s" by (simp_all add: block_at_def block_index_def t fun_eq_iff)
  have fresh: "in_blocks inode ! j \<noteq> ?b" if "j < 10" for j
    using B(8) [OF that] fb(2) x b0 by metis
  have h: "holes inode = Suc (holes ?inode)" by (rule holes_filled [OF B(6) idx hole b0])
  have "card (free_blocks_of s) = Suc (card (free_blocks_of s1))" using card_Suc_Diff1 [OF finite_free x] by (simp only: free1)
  then have "holes ?inode \<le> card (free_blocks_of s1)" using h B(7) by simp
  moreover have "i < 10 \<Longrightarrow> j < 10 \<Longrightarrow> i \<noteq> j \<Longrightarrow> in_blocks ?inode ! i \<noteq> 0 \<Longrightarrow> in_blocks ?inode ! i \<noteq> in_blocks ?inode ! j" for i j
    using B(6) B(9) [of i j] fresh [of i] fresh [of j] by (cases "i = idx"; cases "j = idx"; simp)
  moreover have "j < 10 \<Longrightarrow> in_blocks ?inode ! j \<noteq> 0 \<Longrightarrow> sb_data_start (ef_superblock s) \<le> in_blocks ?inode ! j \<and>
      in_blocks ?inode ! j < sb_total_blocks (ef_superblock s) \<and> block_index s (in_blocks ?inode ! j) \<notin> free_blocks_of s - {?x}" for j
    using B(6) B(8) [of j] fb(2-4) by (cases "j = idx"; simp)
  ultimately have "blocks_ok n ?inode s1"
    using L1 B by (auto simp: blocks_ok_def Let_def t same1 free1 inode_ok_def)
  then have ok2: "blocks_ok n ?inode s2" using io_only_blocks [OF s2(3)] by simp
  have old: "\<forall>m < 512. replicate 512 0 ! m = file_byte f inode (512 * idx + m)" using hole by (simp add: file_byte_def)
  have "own_blocks ?inode s1 \<subseteq> own_blocks inode s"
    using x set_update_subset_insert [of "in_blocks inode" idx ?b] by (auto simp: own_blocks_def same1 free1)
  then have own: "own_blocks ?inode s2 \<subseteq> own_blocks inode s" using io_only_blocks(2) [OF s2(3)] by simp
  have "?b \<in> own_blocks inode s" using x by (simp add: own_blocks_def)
  then have "file_written n f inode s (512 * idx + off) bs (f(?b := splice (replicate 512 0) off bs)) ?inode s2"
    using file_byte_update [OF idx B(6) bs _ b0 _ old] fresh ok2 own
      same_volume_trans [OF same_volume_takes [OF s1(1)] io_only_volume [OF s2(3)]]
    by (auto simp: file_written_def)
  then show ?thesis using s1(2) s2(1,2) by blast
qed

section \<open>Writing and reading back\<close>

lemma position_split: "unat (p :: u32) = 512 * unat (p div 512) + unat (p mod 512)" "unat (p mod 512) < 512"
  by (simp_all add: unat_div unat_mod)

lemma write_chunk_ok:
  assumes d: "disk_is hal blk base n f s" and ok: "blocks_ok n inode s" and pos: "unat (fd_position file div 512) < 10"
    and m: "unat (fd_position file mod 512) + unat m \<le> 512" and len: "unat bytes_done + unat m \<le> length buffer"
  shows "\<exists>f' inode' s'. write_chunk hal buffer m bytes_done file inode s = Some (None, inode', s') \<and> disk_is hal blk base n f' s' \<and>
    file_written n f inode s (unat (fd_position file)) (field buffer (unat bytes_done) (unat m)) f' inode' s'"
proof -
  let ?idx = "unat (fd_position file div 512)" and ?off = "unat (fd_position file mod 512)"
  let ?bs = "field buffer (unat bytes_done) (unat m)"
  have bs: "?off + length ?bs \<le> 512" using m len by (simp add: field_def)
  have a: "512 * ?idx + ?off = unat (fd_position file)" using position_split(1) [of "fd_position file"] by simp
  show ?thesis
  proof (cases "in_blocks inode ! ?idx = 0")
    case True
    from write_hole [OF d ok pos True bs] obtain b s1 f' s2 where w: "bitmap_alloc hal s = Some (int (unat b), s1)"
      "write_block hal s1 b (splice (replicate 512 0) ?off ?bs) = (True, s2)" "disk_is hal blk base n f' s2"
      "file_written n f inode s (512 * ?idx + ?off) ?bs f' (inode\<lparr>in_blocks := (in_blocks inode)[?idx := b]\<rparr>) s2" by blast
    have "write_chunk hal buffer m bytes_done file inode s = Some (None, inode\<lparr>in_blocks := (in_blocks inode)[?idx := b]\<rparr>, s2)"
      using w(1,2) pos len True by (simp add: write_chunk_def Let_def fetch_block_def)
    then show ?thesis using w(3,4) unfolding a by blast
  next
    case False
    from write_existing [OF d ok pos refl False bs] obtain s1 f' s2 where w: "read_block hal s (in_blocks inode ! ?idx) = (Some (f (in_blocks inode ! ?idx)), s1)"
      "write_block hal s1 (in_blocks inode ! ?idx) (splice (f (in_blocks inode ! ?idx)) ?off ?bs) = (True, s2)" "disk_is hal blk base n f' s2"
      "file_written n f inode s (512 * ?idx + ?off) ?bs f' (inode\<lparr>in_blocks := (in_blocks inode)[?idx := in_blocks inode ! ?idx]\<rparr>) s2" by blast
    have "write_chunk hal buffer m bytes_done file inode s = Some (None, inode\<lparr>in_blocks := (in_blocks inode)[?idx := in_blocks inode ! ?idx]\<rparr>, s2)"
      using w(1,2) pos len False by (simp add: write_chunk_def Let_def fetch_block_def)
    then show ?thesis using w(3,4) unfolding a by blast
  qed
qed

lemma chunk_step:
  assumes "bytes_done < amount" "unat (fd_position file) + (unat amount - unat bytes_done) \<le> 5120"
  defines "m \<equiv> chunk (fd_position file) bytes_done amount"
  shows "unat (fd_position file div 512) < 10" "unat (fd_position file mod 512) + unat m \<le> 512" "0 < unat m"
    "unat bytes_done + unat m \<le> unat amount" "unat (bytes_done + m) = unat bytes_done + unat m"
    "unat (fd_position (advance m file)) = unat (fd_position file) + unat m"
    "unat (fd_position (advance m file)) + (unat amount - unat (bytes_done + m)) \<le> 5120"
proof -
  note c = chunk_bounds [OF assms(1), of "fd_position file", folded m_def]
  show "unat (fd_position file mod 512) + unat m \<le> 512" "0 < unat m" "unat (bytes_done + m) = unat bytes_done + unat m" by (fact c)+
  have lt: "unat bytes_done < unat amount" using assms(1) by (simp add: word_less_nat_alt)
  then show le: "unat bytes_done + unat m \<le> unat amount" using c(2) by linarith
  have "unat (fd_position file) < 5120" using assms(2) lt by linarith
  then show "unat (fd_position file div 512) < 10" by (simp add: unat_div less_mult_imp_div_less)
  have "unat (fd_position file) + unat m < 2 ^ 32" using assms(2) le by simp
  then show p: "unat (fd_position (advance m file)) = unat (fd_position file) + unat m"
    by (simp add: advance_def unat_word_ariths)
  show "unat (fd_position (advance m file)) + (unat amount - unat (bytes_done + m)) \<le> 5120"
    using assms(2) le by (simp add: p c)
qed

lemma advance_advance: "advance a (advance b file) = advance (b + a) file" "advance 0 file = file"
  by (simp_all add: advance_def algebra_simps)

lemma field_split: "field buf a (m + k) = field buf a m @ field buf (a + m) k"
  by (simp add: field_def take_add) (simp add: add.commute)

lemma write_loop_ok:
  assumes "disk_is hal blk base n f s" "blocks_ok n inode s" "unat (fd_position fl) + (unat amount - unat bytes_done) \<le> 5120"
    "unat amount \<le> length buffer" "bytes_done \<le> amount"
  shows "\<exists>f' inode' s'. write_loop hal buffer amount bytes_done fl inode s = Some (None, amount, advance (amount - bytes_done) fl, inode', s') \<and>
    disk_is hal blk base n f' s' \<and>
    file_written n f inode s (unat (fd_position fl)) (field buffer (unat bytes_done) (unat amount - unat bytes_done)) f' inode' s'"
  using assms
proof (induction "unat amount - unat bytes_done" arbitrary: f inode s bytes_done fl rule: less_induct)
  case less
  show ?case
  proof (cases "bytes_done < amount")
    case False
    then have "bytes_done = amount" using less.prems(5) by simp
    then show ?thesis using less.prems(1,2) file_written_refl
      by (subst write_loop.simps) (auto simp: advance_advance field_def intro!: exI [of _ f])
  next
    case True
    let ?m = "chunk (fd_position fl) bytes_done amount"
    note c = chunk_step [OF True less.prems(3)]
    obtain f1 inode1 s1 where w: "write_chunk hal buffer ?m bytes_done fl inode s = Some (None, inode1, s1)" "disk_is hal blk base n f1 s1"
      "file_written n f inode s (unat (fd_position fl)) (field buffer (unat bytes_done) (unat ?m)) f1 inode1 s1"
      using write_chunk_ok [OF less.prems(1,2) c(1,2)] c(4) less.prems(4) by (meson order_trans)
    have "unat amount - unat (bytes_done + ?m) < unat amount - unat bytes_done" using c(3-5) by linarith
    moreover have "blocks_ok n inode1 s1" using w(3) by (simp add: file_written_def)
    moreover have "bytes_done + ?m \<le> amount" using c(4,5) by (simp add: word_le_nat_alt)
    ultimately obtain f' inode' s' where r: "write_loop hal buffer amount (bytes_done + ?m) (advance ?m fl) inode1 s1 =
        Some (None, amount, advance (amount - (bytes_done + ?m)) (advance ?m fl), inode', s')" "disk_is hal blk base n f' s'"
      "file_written n f1 inode1 s1 (unat (fd_position (advance ?m fl))) (field buffer (unat (bytes_done + ?m)) (unat amount - unat (bytes_done + ?m))) f' inode' s'"
      using less.hyps [OF _ w(2) _ c(7) less.prems(4)] by blast
    have "length (field buffer (unat bytes_done) (unat ?m)) = unat ?m" using c(4) less.prems(4) by (simp add: field_def)
    then have "file_written n f inode s (unat (fd_position fl))
        (field buffer (unat bytes_done) (unat ?m) @ field buffer (unat (bytes_done + ?m)) (unat amount - unat (bytes_done + ?m))) f' inode' s'"
      using w(3) r(3) by (intro file_written_trans [OF w(3)]) (simp add: c)
    moreover have "unat amount - unat bytes_done = unat ?m + (unat amount - unat (bytes_done + ?m))" using c(4,5) by linarith
    ultimately have "file_written n f inode s (unat (fd_position fl)) (field buffer (unat bytes_done) (unat amount - unat bytes_done)) f' inode' s'"
      using field_split [of buffer "unat bytes_done" "unat ?m"] by (simp add: c(5))
    moreover have "write_loop hal buffer amount bytes_done fl inode s = Some (None, amount, advance (amount - bytes_done) fl, inode', s')"
      using True w(1) r(1) by (subst write_loop.simps) (simp add: Let_def advance_advance)
    ultimately show ?thesis using r(2) by blast
  qed
qed

text \<open>Bytes \<open>p\<close> to \<open>p + k - 1\<close> of the file.\<close>

definition file_bytes :: "(u32 \<Rightarrow> u8 list) \<Rightarrow> ekkfs_inode \<Rightarrow> nat \<Rightarrow> nat \<Rightarrow> u8 list" where
  "file_bytes f inode p k = map (file_byte f inode) [p..<p + k]"

lemma file_bytes_append: "file_bytes f inode p k @ file_bytes f inode (p + k) l = file_bytes f inode p (k + l)"
  using upt_add_eq_append [of p "p + k" l] by (simp add: file_bytes_def add.assoc)

lemma block_bytes:
  assumes "off + k \<le> 512" "length (f b) = 512" "in_blocks inode ! idx = b" "b \<noteq> 0"
  shows "field (f b) off k = file_bytes f inode (512 * idx + off) k"
proof (rule nth_equalityI)
  fix i assume "i < length (field (f b) off k)"
  then have "i < k" "off + i < 512" using assms by (simp_all add: field_def)
  then show "field (f b) off k ! i = file_bytes f inode (512 * idx + off) k ! i"
    using assms position_of [of idx "512 * idx + off + i"] by (simp add: field_def file_bytes_def file_byte_def add.assoc)
qed (use assms in \<open>simp add: field_def file_bytes_def\<close>)

lemma hole_bytes:
  assumes "off + k \<le> 512" "in_blocks inode ! idx = 0"
  shows "replicate k 0 = file_bytes f inode (512 * idx + off) k"
proof (rule nth_equalityI)
  fix i assume "i < length (replicate k (0 :: u8))"
  then show "replicate k 0 ! i = file_bytes f inode (512 * idx + off) k ! i"
    using assms position_of [of idx "512 * idx + off + i"] by (simp add: file_bytes_def file_byte_def add.assoc)
qed (simp add: file_bytes_def)

lemma read_loop_ok:
  assumes "disk_is hal blk base n f s" "blocks_ok n inode s" "unat (fd_position fl) + (unat amount - unat bytes_done) \<le> 5120"
    "bytes_done \<le> amount"
  shows "\<exists>s'. read_loop hal inode amount out bytes_done fl s =
      Some (sint amount, out @ file_bytes f inode (unat (fd_position fl)) (unat amount - unat bytes_done), advance (amount - bytes_done) fl, s') \<and>
    disk_is hal blk base n f s' \<and> io_only s s'"
  using assms
proof (induction "unat amount - unat bytes_done" arbitrary: s out bytes_done fl rule: less_induct)
  case less
  show ?case
  proof (cases "bytes_done < amount")
    case False
    then have "bytes_done = amount" using less.prems(4) by simp
    then show ?thesis using less.prems(1) by (subst read_loop.simps) (simp add: advance_advance file_bytes_def)
  next
    case True
    let ?m = "chunk (fd_position fl) bytes_done amount"
    let ?idx = "unat (fd_position fl div 512)" and ?off = "unat (fd_position fl mod 512)"
    let ?b = "in_blocks inode ! ?idx" and ?new = "file_bytes f inode (unat (fd_position fl)) (unat ?m)"
    note c = chunk_step [OF True less.prems(3)] and B = blocks_okD [OF less.prems(2)]
    have a: "512 * ?idx + ?off = unat (fd_position fl)" using position_split(1) [of "fd_position fl"] by simp
    obtain s1 where s1: "read_loop hal inode amount out bytes_done fl s =
        read_loop hal inode amount (out @ ?new) (bytes_done + ?m) (advance ?m fl) s1" "disk_is hal blk base n f s1" "io_only s s1"
    proof (cases "?b = 0")
      case hole: True
      have "read_loop hal inode amount out bytes_done fl s =
          read_loop hal inode amount (out @ ?new) (bytes_done + ?m) (advance ?m fl) s"
        using True c(1) hole hole_bytes [OF c(2) hole, of f] by (subst read_loop.simps) (simp add: Let_def block_of_def a)
      then show ?thesis using that less.prems(1) by simp
    next
      case False
      have bn: "?b < n" using B(2) B(8) [OF c(1) False] by (simp add: word_less_nat_alt word_le_nat_alt)
      obtain s1 where s1: "read_block hal s ?b = (Some (f ?b), s1)" "disk_is hal blk base n f s1" "io_only s s1"
        using read_block_ok [OF less.prems(1) bn] by blast
      have "field (f ?b) ?off (unat ?m) = ?new"
        using block_bytes [OF c(2) _ refl False, of f] disk_lengths [OF less.prems(1)] bn by (simp add: a)
      then have "read_loop hal inode amount out bytes_done fl s =
          read_loop hal inode amount (out @ ?new) (bytes_done + ?m) (advance ?m fl) s1"
        using True c(1) False s1(1) by (subst read_loop.simps) (simp add: Let_def block_of_def)
      then show ?thesis using that s1(2,3) by blast
    qed
    have "unat amount - unat (bytes_done + ?m) < unat amount - unat bytes_done" using c(3-5) by linarith
    moreover have "bytes_done + ?m \<le> amount" using c(4,5) by (simp add: word_le_nat_alt)
    moreover have "blocks_ok n inode s1" using less.prems(2) io_only_blocks(1) [OF s1(3)] by simp
    ultimately obtain s' where r: "read_loop hal inode amount (out @ ?new) (bytes_done + ?m) (advance ?m fl) s1 =
        Some (sint amount, (out @ ?new) @ file_bytes f inode (unat (fd_position (advance ?m fl))) (unat amount - unat (bytes_done + ?m)),
          advance (amount - (bytes_done + ?m)) (advance ?m fl), s')" "disk_is hal blk base n f s'" "io_only s1 s'"
      using less.hyps [OF _ s1(2) _ c(7)] by blast
    have "unat amount - unat bytes_done = unat ?m + (unat amount - unat (bytes_done + ?m))" using c(4,5) by linarith
    then have "?new @ file_bytes f inode (unat (fd_position (advance ?m fl))) (unat amount - unat (bytes_done + ?m)) =
        file_bytes f inode (unat (fd_position fl)) (unat amount - unat bytes_done)"
      by (simp add: c(6) file_bytes_append)
    then show ?thesis using r(1,2) s1(1) io_only_trans [OF s1(3) r(3)] by (simp add: advance_advance)
  qed
qed

lemma blocks_ok_cong: "in_blocks i' = in_blocks i \<Longrightarrow> length (in_name i') = 16 \<Longrightarrow> blocks_ok n i s \<Longrightarrow> blocks_ok n i' s"
  by (simp add: blocks_ok_def inode_ok_def holes_def)

lemma ekkfs_read_ok:
  assumes d: "disk_is hal blk base n f s" and m: "ef_mounted s" and k: "slot_ok n s (fd_inode_num fl)"
    and i: "inode_at f s (fd_inode_num fl) = inode" "is_used inode" "blocks_ok n inode s" "unat (in_size inode) \<le> 5120"
    and len: "len = min (unat amount) (unat (in_size inode) - unat (fd_position fl))"
  shows "\<exists>fl' s'. ekkfs_read hal fl amount s = Some (int len, file_bytes f inode (unat (fd_position fl)) len, fl', s')"
proof -
  obtain s1 where s1: "inode_read hal (fd_inode_num fl) s = Some (Inr inode, s1)" "disk_is hal blk base n f s1" "io_only s s1"
    using inode_read_ok [OF d k] i(1) by auto
  let ?rem = "if fd_position fl < in_size inode then in_size inode - fd_position fl else 0"
  let ?n = "if amount > ?rem then ?rem else amount"
  have "unat ?rem = unat (in_size inode) - unat (fd_position fl)"
    by (simp add: word_less_nat_alt unat_sub word_le_nat_alt)
  then have n: "unat ?n = len" by (simp add: len word_less_nat_alt min_def)
  show ?thesis
  proof (cases "?n = 0")
    case True
    then have "len = 0" using n by simp
    then show ?thesis using True s1(1) m i(2) by (simp add: ekkfs_read_def file_bytes_def Let_def)
  next
    case False
    have le: "unat (fd_position fl) + unat ?n \<le> 5120"
    proof (cases "fd_position fl < in_size inode")
      case True
      then show ?thesis unfolding n using i(4) by (auto simp: len word_less_nat_alt min_def)
    qed (use False in \<open>auto simp: word_gt_0 split: if_splits\<close>)
    have "blocks_ok n inode s1" using i(3) io_only_blocks(1) [OF s1(3)] by simp
    from read_loop_ok [OF s1(2) this, of fl ?n 0 "[]"] le obtain s2 where
      "read_loop hal inode ?n [] 0 fl s1 = Some (sint ?n, file_bytes f inode (unat (fd_position fl)) len, advance ?n fl, s2)"
      by (auto simp: n)
    moreover have "sint ?n = int len" using le n by (subst sint_small) simp_all
    moreover have "ekkfs_read hal fl amount s = read_loop hal inode ?n [] 0 fl s1"
      using s1(1) m i(2) False by (simp add: ekkfs_read_def Let_def)
    ultimately show ?thesis by auto
  qed
qed

lemma metadata_not_own:
  assumes ok: "blocks_ok n inode s" and b: "b < sb_data_start (ef_superblock s)"
  shows "b \<notin> own_blocks inode s" "j < 10 \<Longrightarrow> in_blocks inode ! j \<noteq> 0 \<Longrightarrow> in_blocks inode ! j \<noteq> b"
proof -
  note B = blocks_okD [OF ok]
  show own: "in_blocks inode ! j \<noteq> b" if "j < 10" "in_blocks inode ! j \<noteq> 0" for j
    using B(8) [OF that] b by auto
  have "b \<noteq> block_at s x" if "x \<in> free_blocks_of s" for x
    using free_block(3) [OF B(1) that] b by auto
  then show "b \<notin> own_blocks inode s"
    using own B(6) by (auto simp: own_blocks_def in_set_conv_nth)
qed

text \<open>After the loop the inode is stamped and written.\<close>

lemma ekkfs_write_ok:
  assumes d: "disk_is hal blk base n f s" and m: "ef_mounted s" and k: "slot_ok n s (fd_inode_num fl)"
    and meta: "inode_block s (fd_inode_num fl) < sb_data_start (ef_superblock s)"
    and i: "inode_at f s (fd_inode_num fl) = inode" "is_used inode" "blocks_ok n inode s"
    and owner: "owner_id = 0 \<or> in_owner_id inode = owner_id"
    and pos: "unat (fd_position fl) + unat amount \<le> 5120" "unat amount \<le> length buffer"
  shows "\<exists>f' inode' s'. ekkfs_write hal fl buffer amount owner_id s = Some (int (unat amount), advance amount fl, s') \<and>
    disk_is hal blk base n f' s' \<and> same_volume s s' \<and> inode_at f' s' (fd_inode_num fl) = inode' \<and> blocks_ok n inode' s' \<and>
    in_flags inode' = in_flags inode \<and> unat (in_size inode') = max (unat (in_size inode)) (unat (fd_position fl) + unat amount) \<and>
    (\<forall>p < 5120. file_byte f' inode' p = (if unat (fd_position fl) \<le> p \<and> p < unat (fd_position fl) + unat amount
      then buffer ! (p - unat (fd_position fl)) else file_byte f inode p)) \<and>
    (\<forall>b. f' b \<noteq> f b \<longrightarrow> b = inode_block s (fd_inode_num fl) \<or> b \<in> own_blocks inode s)"
proof -
  let ?k = "fd_inode_num fl" and ?pos = "unat (fd_position fl)"
  obtain s1 where s1: "inode_read hal ?k s = Some (Inr inode, s1)" "disk_is hal blk base n f s1" "io_only s s1"
    using inode_read_ok [OF d k] i(1) by auto
  have ok1: "blocks_ok n inode s1" using i(3) io_only_blocks(1) [OF s1(3)] by simp
  obtain f2 inode2 s2 where s2: "write_loop hal buffer amount 0 fl inode s1 = Some (None, amount, advance amount fl, inode2, s2)"
    "disk_is hal blk base n f2 s2" "file_written n f inode s1 ?pos (field buffer 0 (unat amount)) f2 inode2 s2"
    using write_loop_ok [OF s1(2) ok1, of fl amount 0 buffer] pos by auto
  have sv2: "same_volume s s2" using s2(3) io_only_volume [OF s1(3)] same_volume_trans by (auto simp: file_written_def)
  note same2 = same_volume_fields [OF sv2]
  obtain now sd where t: "hal_time_us hal (ef_sd s2) = (now, sd)" by (cases "hal_time_us hal (ef_sd s2)")
  let ?s2 = "s2\<lparr>ef_sd := sd\<rparr>" and ?inode = "(update_size now (advance amount fl) inode2)\<lparr>in_crc32 := 0\<rparr>"
  have k2: "slot_ok n ?s2 ?k" using k by (simp add: slot_ok_def inode_block_def same2(6,7))
  have name: "length (in_name inode2) = 16" "inode_ok ?inode" "in_blocks ?inode = in_blocks inode2"
    using s2(3) by (simp_all add: file_written_def blocks_ok_def inode_ok_def update_size_def Let_def)
  obtain f3 s3 where s3: "inode_write hal ?k ?inode ?s2 = Some (EKKFS_OK, s3)" "disk_is hal blk base n f3 s3" "io_only ?s2 s3"
    "inode_at f3 ?s2 ?k = ?inode" "\<forall>b. b \<noteq> inode_block ?s2 ?k \<longrightarrow> f3 b = f2 b"
    using inode_write_ok [OF disk_is_time [OF s2(2) t] k2 name(2)] by blast
  have io: "io_only s2 s3" using s3(3) by (simp add: io_only_def)
  have sv: "same_volume s s3" by (rule same_volume_trans [OF sv2 io_only_volume [OF io]])
  have block: "inode_block ?s2 ?k = inode_block s ?k" using same2(10) by (simp add: inode_block_def fun_eq_iff)
  have ok2: "blocks_ok n inode2 s2" using s2(3) by (simp add: file_written_def)
  have bytes: "file_byte f3 ?inode p = file_byte f2 inode2 p" if "p < 5120" for p
  proof (cases "in_blocks inode2 ! (p div 512) = 0")
    case False
    have "p div 512 < 10" using that by simp
    then have "in_blocks inode2 ! (p div 512) \<noteq> inode_block s ?k"
      using metadata_not_own(2) [OF ok2 _ _ False] meta by (simp add: same2)
    then show ?thesis using s3(5) by (simp add: file_byte_def Let_def name(3) block)
  qed (simp add: file_byte_def name(3))
  have "\<forall>p < 5120. file_byte f3 ?inode p = (if ?pos \<le> p \<and> p < ?pos + unat amount then buffer ! (p - ?pos) else file_byte f inode p)"
    using s2(3) bytes pos(2) by (auto simp: file_written_def field_def)
  moreover have "unat (in_size ?inode) = max (unat (in_size inode)) (?pos + unat amount)"
  proof -
    have "unat (fd_position (advance amount fl)) = ?pos + unat amount" using pos(1) by (simp add: advance_def unat_word_ariths)
    moreover have "in_size inode2 = in_size inode" by (rule file_written_same [OF s2(3)])
    ultimately show ?thesis by (simp add: update_size_def Let_def word_less_nat_alt max_def)
  qed
  moreover have "in_flags ?inode = in_flags inode"
    using file_written_same [OF s2(3)] by (simp add: update_size_def Let_def)
  moreover have "\<forall>b. f3 b \<noteq> f b \<longrightarrow> b = inode_block s ?k \<or> b \<in> own_blocks inode s"
    using s3(5) s2(3) io_only_blocks(2) [OF s1(3)] by (auto simp: file_written_def block)
  moreover have "ekkfs_write hal fl buffer amount owner_id s = Some (int (unat amount), advance amount fl, s3)"
    using m s1(1) i(2) owner s2(1) t s3(1) pos(1) by (auto simp: ekkfs_write_def Let_def sint_small advance_def)
  moreover have "inode_at f3 s3 ?k = ?inode" using s3(3,4) by (simp add: inode_at_def inode_block_def io_only_def)
  moreover have "blocks_ok n ?inode s3"
    using blocks_ok_cong [OF name(3) _ ok2] name(2) io_only_blocks(1) [OF io] by (simp add: inode_ok_def)
  ultimately show ?thesis
    using s3(2) sv by (intro exI conjI) (assumption | rule refl)+
qed

text \<open>
  C5. What is written to a file can be read back. On a reliable card and outside a transaction, writing
  any bytes at any position of a file's ten direct blocks succeeds while there are free blocks for the
  holes of the file; afterwards reading at any position returns the written bytes where they were
  written, the old bytes elsewhere, zeros in holes, up to the grown size. On the card only the
  block of the inode, the blocks of the file and blocks that were free have changed.
\<close>

theorem file_write_read:
  assumes card: "disk_is hal blk base n f s" "ef_mounted s"
    and inode: "slot_ok n s (fd_inode_num fl)" "inode_block s (fd_inode_num fl) < sb_data_start (ef_superblock s)"
      "inode_at f s (fd_inode_num fl) = inode" "is_used inode" "blocks_ok n inode s" "unat (in_size inode) \<le> 5120"
    and owner: "owner_id = 0 \<or> in_owner_id inode = owner_id"
    and wr: "unat (fd_position fl) + unat amount \<le> 5120" "unat amount \<le> length buffer"
    and a: "a = unat (fd_position fl)" "l = unat amount"
    and read: "unat q + k \<le> max (unat (in_size inode)) (a + l)"
  shows "\<exists>fl1 s1 f1 fl2 s2.
    ekkfs_write hal fl buffer amount owner_id s = Some (int l, fl1, s1) \<and> fl1 = fl\<lparr>fd_position := fd_position fl + amount\<rparr> \<and>
    ekkfs_read hal (fl1\<lparr>fd_position := q\<rparr>) (of_nat k) s1 =
      Some (int k, map (\<lambda>p. if a \<le> p \<and> p < a + l then buffer ! (p - a) else file_byte f inode p) [unat q..<unat q + k], fl2, s2) \<and>
    disk_is hal blk base n f1 s1 \<and> (\<forall>b. f1 b \<noteq> f b \<longrightarrow> b = inode_block s (fd_inode_num fl) \<or> b \<in> own_blocks inode s)"
proof -
  from ekkfs_write_ok [OF card inode(1-5) owner wr] obtain f1 inode1 s1 where
    w: "ekkfs_write hal fl buffer amount owner_id s = Some (int l, advance amount fl, s1)" "disk_is hal blk base n f1 s1" "same_volume s s1"
      "inode_at f1 s1 (fd_inode_num fl) = inode1" "blocks_ok n inode1 s1" "in_flags inode1 = in_flags inode"
      "unat (in_size inode1) = max (unat (in_size inode)) (a + l)"
      "\<forall>p < 5120. file_byte f1 inode1 p = (if a \<le> p \<and> p < a + l then buffer ! (p - a) else file_byte f inode p)"
      "\<forall>b. f1 b \<noteq> f b \<longrightarrow> b = inode_block s (fd_inode_num fl) \<or> b \<in> own_blocks inode s"
    unfolding a by blast
  let ?fl = "(advance amount fl)\<lparr>fd_position := q\<rparr>"
  have fl: "fd_inode_num ?fl = fd_inode_num fl" "fd_position ?fl = q" by (simp_all add: advance_def)
  have used1: "is_used inode1" using inode(4) w(6) by (simp add: is_used_def)
  have top: "unat q + k \<le> 5120" "unat (in_size inode1) \<le> 5120" using read wr(1) inode(6) by (simp_all add: w(7) a)
  have "unat (of_nat k :: u32) = k" using top(1) by (intro unat_small) simp
  then have "k = min (unat (of_nat k :: u32)) (unat (in_size inode1) - unat (fd_position ?fl))" using read by (simp add: fl w(7))
  from ekkfs_read_ok [OF w(2) _ _ _ used1 w(5) top(2) this] obtain fl2 s2 where
    "ekkfs_read hal ?fl (of_nat k) s1 = Some (int k, file_bytes f1 inode1 (unat q) k, fl2, s2)"
    using card(2) inode(1) w(4) same_volume_fields(1) [OF w(3)] same_volume_fields(13) [OF w(3), of n] by (auto simp: fl)
  moreover have "file_bytes f1 inode1 (unat q) k = map (\<lambda>p. if a \<le> p \<and> p < a + l then buffer ! (p - a) else file_byte f inode p) [unat q..<unat q + k]"
    using w(8) top(1) by (simp add: file_bytes_def)
  ultimately show ?thesis using w(1,2,9) by (auto simp: advance_def)
qed

text \<open>A volume whose first inode is an empty file.\<close>

definition demo_inode :: ekkfs_inode where
  "demo_inode = zero_inode\<lparr>in_flags := 1\<rparr>"

definition demo_card :: "u32 \<Rightarrow> u8 list" where
  "demo_card = blank_card(1 := inode_bytes demo_inode @ replicate 420 0)"

definition demo_volume :: "(u32 \<Rightarrow> u8 list) ekkfs" where
  "demo_volume = small_volume\<lparr>ef_sd := demo_card\<rparr>"

lemma demo_disk: "disk_is fun_card (fun_card_block 0) 0 20 (fun_card_block 0 demo_card) demo_volume"
  by (simp add: disk_is_def fun_card_partition cache_ok_def demo_volume_def small_volume_def ekkfs_boot_def)

lemma demo_inode_ok: "inode_ok demo_inode" "is_used demo_inode"
  by (simp_all add: demo_inode_def zero_inode_def inode_ok_def is_used_def)

lemma demo_fields:
  "ef_mounted demo_volume" "inode_block demo_volume 0 = 1" "sb_data_start (ef_superblock demo_volume) = 10"
  "sb_total_blocks (ef_superblock demo_volume) = 20" "sb_inode_count (ef_superblock demo_volume) = 5" "\<not> js_tx_active (ef_journal demo_volume)"
  by (simp_all add: demo_volume_def small_volume_def inode_block_def)

lemma demo_at: "inode_at (fun_card_block 0 demo_card) demo_volume 0 = demo_inode"
proof -
  have "fun_card_block 0 demo_card 1 = inode_bytes demo_inode @ replicate 420 0"
    using length_inode_bytes [OF demo_inode_ok(1)] by (simp add: fun_card_block_def demo_card_def)
  then show ?thesis
    using length_inode_bytes [OF demo_inode_ok(1)] inode_round_trip [OF demo_inode_ok(1)]
    by (simp add: inode_at_def demo_fields inode_offset_def)
qed

lemma demo_blocks: "blocks_ok 20 demo_inode demo_volume"
proof -
  have "fs_layout 20 demo_volume" using small_volume_layout(1) by (simp add: fs_layout_def demo_volume_def)
  moreover have "free_blocks_of demo_volume = {..<10}"
    using small_volume_free by (simp add: free_blocks_of_def data_count_def demo_volume_def)
  moreover have "{j. j < 10 \<and> in_blocks demo_inode ! j = 0} = {..<10}" by (auto simp: demo_inode_def zero_inode_def)
  then have "holes demo_inode = 10" by (simp add: holes_def)
  ultimately show ?thesis
    using demo_inode_ok by (simp add: blocks_ok_def demo_fields) (simp add: demo_inode_def zero_inode_def)
qed

lemma replicate_window: "map (\<lambda>p. if a \<le> p \<and> p < a + k then replicate k x ! (p - a) else g p) [a..<a + k] = replicate k x"
  by (rule nth_equalityI) simp_all

theorem file_write_read_witness:
  "\<exists>fl1 s1 fl2 s2.
     ekkfs_write fun_card \<lparr>fd_inode_num = 0, fd_position = 100, fd_flags = 0\<rparr> (replicate 600 7) 600 0 demo_volume = Some (600, fl1, s1) \<and>
     ekkfs_read fun_card (fl1\<lparr>fd_position := 100\<rparr>) 600 s1 = Some (600, replicate 600 7, fl2, s2)"
proof -
  let ?fl = "\<lparr>fd_inode_num = 0, fd_position = 100, fd_flags = 0\<rparr>"
  have u: "unat (100 :: u32) = 100" by simp
  have pre: "slot_ok 20 demo_volume (fd_inode_num ?fl)" "inode_block demo_volume (fd_inode_num ?fl) < sb_data_start (ef_superblock demo_volume)"
    "inode_at (fun_card_block 0 demo_card) demo_volume (fd_inode_num ?fl) = demo_inode" "unat (in_size demo_inode) \<le> 5120"
    "(0 :: u32) = 0 \<or> in_owner_id demo_inode = 0" "unat (fd_position ?fl) + unat (600 :: u32) \<le> 5120"
    "unat (600 :: u32) \<le> length (replicate 600 (7 :: u8))" "100 = unat (fd_position ?fl)" "600 = unat (600 :: u32)"
    "unat (100 :: u32) + 600 \<le> max (unat (in_size demo_inode)) (100 + 600)"
    by (simp_all add: slot_ok_def demo_fields demo_at) (simp add: demo_inode_def zero_inode_def)
  from file_write_read [OF demo_disk demo_fields(1) pre(1-3) demo_inode_ok(2) demo_blocks pre(4-10)]
  show ?thesis unfolding u replicate_window by auto
qed

section \<open>Volumes with more than five inodes\<close>

lemma scan_misses:
  assumes "disk_is hal blk base n f s" "\<forall>k < 5. slot_ok n s (of_nat k) \<and> \<not> P (inode_at f s (of_nat k))" "i \<le> 5" "5 \<le> m"
  shows "\<exists>s'. scan_inodes hal P i m s = scan_inodes hal P 5 m s' \<and> disk_is hal blk base n f s' \<and> io_only s s'"
  using assms
proof (induction "5 - i" arbitrary: i s)
  case 0
  then show ?case by auto
next
  case (Suc d)
  then have i: "i < 5" by simp
  obtain s1 where s1: "inode_read hal (of_nat i) s = Some (Inr (inode_at f s (of_nat i)), s1)" "disk_is hal blk base n f s1" "io_only s s1"
    using inode_read_ok [OF Suc.prems(1), of "of_nat i"] Suc.prems(2) i by blast
  have same: "slot_ok n s1 = slot_ok n s" "inode_at f s1 = inode_at f s"
    using same_volume_fields [OF io_only_volume [OF s1(3)]] by (simp_all add: inode_at_def fun_eq_iff)
  have "scan_inodes hal P i m s = scan_inodes hal P (Suc i) m s1"
    using i Suc.prems(2,4) s1(1) by (subst scan_inodes.simps) auto
  moreover have "d = 5 - Suc i" using Suc.hyps(2) by simp
  from Suc.hyps(1) [OF this s1(2)] Suc.prems(2,4) i same obtain s' where
    "scan_inodes hal P (Suc i) m s1 = scan_inodes hal P 5 m s'" "disk_is hal blk base n f s'" "io_only s1 s'" by auto
  ultimately show ?case using io_only_trans [OF s1(3)] by auto
qed

lemma sixth_inode_undefined:
  assumes d: "disk_is hal blk base n f s" and c: "5 < sb_inode_count (ef_superblock s)" and b: "sb_inode_start (ef_superblock s) < n"
  shows "inode_read hal 5 s = None"
proof -
  have "inode_block s 5 < n" using b by (simp add: inode_block_def)
  from read_block_ok [OF d this] obtain s' where "read_block hal s (inode_block s 5) = (Some (f (inode_block s 5)), s')" by blast
  then show ?thesis using c by (simp add: inode_read_def inode_offset_def not_le [symmetric])
qed

lemma first_slots:
  assumes "5 < sb_inode_count (ef_superblock s)" "sb_inode_start (ef_superblock s) < n" "k < 5"
  shows "slot_ok n s (of_nat k)"
proof -
  have u: "unat (of_nat k :: u32) = k" using assms(3) by (intro unat_small) simp
  then have "unat ((of_nat k :: u32) div 8) = 0" using assms(3) by (simp add: unat_div)
  then have "(of_nat k :: u32) div 8 = 0" by (simp add: unat_eq_0)
  then show ?thesis using assms u by (simp add: slot_ok_def inode_block_def word_less_nat_alt)
qed

lemma list_undefined:
  assumes "disk_is hal blk base n f s" "5 < sb_inode_count (ef_superblock s)" "sb_inode_start (ef_superblock s) < n" "i \<le> 5" "5 < m"
  shows "used_inodes_from hal i m s = None"
  using assms
proof (induction "5 - i" arbitrary: i s)
  case 0
  then have "i = 5" by simp
  moreover have "inode_read hal 5 s = None" by (rule sixth_inode_undefined [OF 0(2,3,4)])
  ultimately show ?case using 0 by (subst used_inodes_from.simps) simp
next
  case (Suc d)
  then have i: "i < 5" by simp
  obtain s1 where s1: "inode_read hal (of_nat i) s = Some (Inr (inode_at f s (of_nat i)), s1)" "disk_is hal blk base n f s1" "io_only s s1"
    using inode_read_ok [OF Suc.prems(1) first_slots [OF Suc.prems(2,3) i]] by blast
  have "d = 5 - Suc i" using Suc.hyps(2) by simp
  from Suc.hyps(1) [OF this s1(2)] Suc.prems(2-5) i io_only_journal_start [OF s1(3)]
  have "used_inodes_from hal (Suc i) m s1 = None" by simp
  then show ?case using i Suc.prems(5) s1(1) by (subst used_inodes_from.simps) simp
qed

text \<open>
  C32. Only five of the eight inodes of a block lie inside the block, because an inode takes 92 bytes and
  not 64. On a volume with more than five inodes (256 is the default) every search for a name that is
  none of the first five files reads behind the end of the block buffer, so creating a new file,
  and opening, deleting or asking for an absent one, is undefined, and so is every listing.
\<close>

theorem sixth_inode_out_of_bounds:
  assumes card: "disk_is hal blk base n f s" "ef_mounted s"
    and inodes: "5 < sb_inode_count (ef_superblock s)" "sb_inode_start (ef_superblock s) < n"
    and absent: "\<forall>k < 5. \<not> (is_used (inode_at f s (of_nat k)) \<and> same_name name (inode_at f s (of_nat k)))" and len: "length name \<le> 15"
  shows "ekkfs_create hal name owner_id flags s = None \<and> ekkfs_open hal fl name s = None \<and> ekkfs_delete hal name owner_id s = None \<and>
    ekkfs_stat hal name s = None \<and> ekkfs_list hal s = None"
proof -
  let ?n = "unat (sb_inode_count (ef_superblock s))"
  have m: "5 < ?n" using inodes(1) by (simp add: word_less_nat_alt)
  have "\<forall>k < 5. slot_ok n s (of_nat k) \<and> \<not> (is_used (inode_at f s (of_nat k)) \<and> same_name name (inode_at f s (of_nat k)))"
    using absent first_slots [OF inodes] by blast
  from scan_misses [OF card(1) this, of 0 ?n] m obtain s' where s':
    "scan_inodes hal (\<lambda>inode. is_used inode \<and> same_name name inode) 0 ?n s = scan_inodes hal (\<lambda>inode. is_used inode \<and> same_name name inode) 5 ?n s'"
    "disk_is hal blk base n f s'" "io_only s s'" by auto
  have "inode_read hal 5 s' = None"
    using sixth_inode_undefined [OF s'(2)] inodes io_only_journal_start [OF s'(3)] by simp
  then have "inode_find_by_name hal name s = None"
    unfolding inode_find_by_name_def s'(1) using m by (subst scan_inodes.simps) simp
  moreover have "used_inodes_from hal 0 ?n s = None" using list_undefined [OF card(1) inodes, of 0 ?n] m by simp
  ultimately show ?thesis
    using card(2) len by (simp add: ekkfs_create_def ekkfs_open_def ekkfs_delete_def ekkfs_stat_def ekkfs_list_def)
qed

theorem sixth_inode_out_of_bounds_witness:
  "ekkfs_create fun_card [97] 0 0 (small_volume\<lparr>ef_superblock := (ef_superblock small_volume)\<lparr>sb_inode_count := 256\<rparr>\<rparr>) = None"
proof -
  let ?v = "small_volume\<lparr>ef_superblock := (ef_superblock small_volume)\<lparr>sb_inode_count := 256\<rparr>\<rparr>"
  have d: "disk_is fun_card (fun_card_block 0) 0 20 (fun_card_block 0 blank_card) ?v"
    using small_volume_disk by (rule disk_is_cong) simp_all
  have "in_flags (inode_at (fun_card_block 0 blank_card) ?v k) = 0" for k
  proof -
    have "length (field (replicate 512 (0 :: u8)) (inode_offset k) 92) \<le> 92" by (simp add: field_def)
    then have "field (field (replicate 512 (0 :: u8)) (inode_offset k) 92) 0 4 = replicate (min 4 (min 92 (512 - inode_offset k))) 0"
      by (simp add: field_def)
    moreover have "(le_word (replicate j (0 :: u8)) :: u32) = 0" for j by (induction j) (simp_all add: le_word_def)
    ultimately show ?thesis by (simp add: inode_at_def inode_of_bytes_def fun_card_block_def blank_card_def)
  qed
  then have "\<not> is_used (inode_at (fun_card_block 0 blank_card) ?v k)" for k by (simp add: is_used_def)
  then show ?thesis
    using sixth_inode_out_of_bounds [OF d, of "[97]" 0 0] by (simp add: small_volume_def)
qed

end
