(* ===== verification/Ekk_Stigmergy.thy ===== *)
theory Ekk_Stigmergy
  imports Ekk_Types
begin

unbundle bit_operations_syntax

text \<open>
  Thermal balancing by heat tags (\<open>src/ekk_stigmergy.c\<close>, declared in \<open>include/ekk/ekk_field.h\<close>):
  the table-driven exponential decay, the update of the tag of a module, the tags of its
  neighbors, and the load factor computed from its rank. \<open>exp_decay_lut\<close> is the function
  \<open>ekk_fixed_exp_decay\<close> of this file; another one with the same name is in \<open>ekk_types.c\<close>.
\<close>

section \<open>Exponential decay by table\<close>

definition exp_lut :: "int list" where
  "exp_lut = [65536, 51042, 39755, 30965, 24109, 18775, 14622, 11387, 8869, 6906, 5378, 4188, 3261, 2540, 1978, 1540, 1200]"

text \<open>
  The interpolation multiplies the signed difference of two table entries with the unsigned
  fraction: C converts the difference to unsigned, and the shift is a logical one.
\<close>

definition exp_decay_lut :: "u64 \<Rightarrow> u64 \<Rightarrow> int" where
  "exp_decay_lut elapsed_us tau_us =
     (if tau_us = 0 then 0
      else
        (let x_scaled = push_bit 16 elapsed_us div tau_us
         in if x_scaled \<ge> 262144 then 0
            else
              (let x_fixed = ucast x_scaled :: u32;
                   index = drop_bit 16 (x_fixed * 4)
               in if index \<ge> 16 then exp_lut ! 16
                  else
                    (let y0 = exp_lut ! unat index;
                         y1 = exp_lut ! Suc (unat index);
                         frac = (x_fixed * 4) AND 0xFFFF;
                         delta = to_i32 (y1 - y0)
                     in to_i32 (y0 + to_i32 (uint (drop_bit 16 (word_of_int delta * frac :: u32))))))))"

section \<open>State\<close>

record ekk_stigmergy_config =
  sc_target_temp :: int
  sc_temp_threshold :: int
  sc_alpha :: int
  sc_tau :: u64
  sc_max_load_adjust :: int

text \<open>\<open>0.1f\<close> in Q16.16 is 6553.\<close>

definition stigmergy_default_config :: ekk_stigmergy_config where
  "stigmergy_default_config = \<lparr>sc_target_temp = 348 * 65536, sc_temp_threshold = 5 * 65536, sc_alpha = 6553,
     sc_tau = 60000000, sc_max_load_adjust = 6553\<rparr>"

record ekk_stigmergy_ctx =
  sg_my_tag :: int
  sg_neighbor_tags :: "int list"
  sg_neighbor_ids :: "u8 list"
  sg_neighbor_count :: nat
  sg_last_update :: u64
  sg_config :: ekk_stigmergy_config

definition ekk_stigmergy_init :: "ekk_stigmergy_ctx \<Rightarrow> ekk_stigmergy_config option \<Rightarrow> ekk_error \<times> ekk_stigmergy_ctx" where
  "ekk_stigmergy_init ctx config =
     (EKK_OK, ctx\<lparr>sg_config := (case config of Some c \<Rightarrow> c | None \<Rightarrow> stigmergy_default_config),
        sg_my_tag := 0, sg_neighbor_count := 0, sg_last_update := 0,
        sg_neighbor_tags := replicate EKK_K_NEIGHBORS 0,
        sg_neighbor_ids := replicate EKK_K_NEIGHBORS EKK_INVALID_MODULE_ID\<rparr>)"

definition stigmergy_elapsed :: "ekk_stigmergy_ctx \<Rightarrow> u64 \<Rightarrow> u64" where
  "stigmergy_elapsed ctx now = (if sg_last_update ctx > 0 \<and> now > sg_last_update ctx then now - sg_last_update ctx else 0)"

definition ekk_stigmergy_update_tag :: "ekk_stigmergy_ctx \<Rightarrow> int \<Rightarrow> u64 \<Rightarrow> ekk_error \<times> ekk_stigmergy_ctx" where
  "ekk_stigmergy_update_tag ctx Tj now =
     (let elapsed = stigmergy_elapsed ctx now;
          ctx = ctx\<lparr>sg_last_update := now\<rparr>;
          ctx = (if elapsed > 0
                 then ctx\<lparr>sg_my_tag := ekk_fixed_mul (sg_my_tag ctx) (exp_decay_lut elapsed (sc_tau (sg_config ctx)))\<rparr>
                 else ctx);
          delta_T = to_i32 (Tj - sc_target_temp (sg_config ctx));
          ctx = (if delta_T > sc_temp_threshold (sg_config ctx)
                 then ctx\<lparr>sg_my_tag := to_i32 (sg_my_tag ctx + ekk_fixed_mul (sc_alpha (sg_config ctx)) delta_T)\<rparr>
                 else if delta_T < to_i32 (- sc_temp_threshold (sg_config ctx))
                 then (let tag = to_i32 (sg_my_tag ctx - ekk_fixed_mul (sc_alpha (sg_config ctx)) (to_i32 (- delta_T)))
                       in ctx\<lparr>sg_my_tag := (if tag < 0 then 0 else tag)\<rparr>)
                 else ctx)
      in (EKK_OK, ctx))"

text \<open>The loop remembers the first free slot and stops at the neighbor's own.\<close>

definition ekk_stigmergy_update_neighbor :: "ekk_stigmergy_ctx \<Rightarrow> u8 \<Rightarrow> int \<Rightarrow> ekk_error \<times> ekk_stigmergy_ctx" where
  "ekk_stigmergy_update_neighbor ctx neighbor_id neighbor_tag =
     (if neighbor_id = EKK_INVALID_MODULE_ID then (EKK_ERR_INVALID_ARG, ctx)
      else
        (case find_key id neighbor_id (sg_neighbor_ids ctx) EKK_K_NEIGHBORS of
           Some i \<Rightarrow> (EKK_OK, ctx\<lparr>sg_neighbor_tags := (sg_neighbor_tags ctx)[i := neighbor_tag]\<rparr>)
         | None \<Rightarrow>
             (case find_key id EKK_INVALID_MODULE_ID (sg_neighbor_ids ctx) EKK_K_NEIGHBORS of
                Some slot \<Rightarrow> (EKK_OK, ctx\<lparr>sg_neighbor_ids := (sg_neighbor_ids ctx)[slot := neighbor_id],
                    sg_neighbor_tags := (sg_neighbor_tags ctx)[slot := neighbor_tag],
                    sg_neighbor_count := Suc (sg_neighbor_count ctx)\<rparr>)
              | None \<Rightarrow> (EKK_ERR_NO_MEMORY, ctx))))"

definition compute_rank :: "int \<Rightarrow> int list \<Rightarrow> nat \<Rightarrow> int" where
  "compute_rank my_tag neighbor_tags n = fold (\<lambda>i rank. if neighbor_tags ! i < my_tag then rank + 1 else rank) [0..<n] 0"

definition ekk_stigmergy_compute_load_factor :: "ekk_stigmergy_ctx \<Rightarrow> int" where
  "ekk_stigmergy_compute_load_factor ctx =
     (if sg_neighbor_count ctx = 0 then 0
      else
        (let rank = compute_rank (sg_my_tag ctx) (sg_neighbor_tags ctx) (sg_neighbor_count ctx);
             total_nodes = int (sg_neighbor_count ctx) + 1;
             deviation = total_nodes sdiv 2 - rank;
             ratio = to_i32 (to_i64 (deviation * 65536 * 65536) sdiv (total_nodes * 65536))
         in ekk_fixed_mul (sc_max_load_adjust (sg_config ctx)) ratio))"

section \<open>What the decay computes\<close>

text \<open>
  The intended value: between grid points, the table value at the left minus the share of the
  step that has passed, rounded up.
\<close>

definition lut_drop :: "nat \<Rightarrow> nat \<Rightarrow> int" where
  "lut_drop i frac = (int frac * (exp_lut ! i - exp_lut ! Suc i) + 65535) div 65536"

lemma exp_lut_steps: "i < 16 \<Longrightarrow> 0 < exp_lut ! i - exp_lut ! Suc i \<and> exp_lut ! i - exp_lut ! Suc i < 14495 \<and> 1200 \<le> exp_lut ! Suc i \<and> exp_lut ! i \<le> 65536"
proof -
  assume "i < 16"
  moreover have "list_all (\<lambda>i. 0 < exp_lut ! i - exp_lut ! Suc i \<and> exp_lut ! i - exp_lut ! Suc i < 14495 \<and> 1200 \<le> exp_lut ! Suc i \<and> exp_lut ! i \<le> 65536) [0..<16]"
    by code_simp
  ultimately show ?thesis by (simp add: list_all_iff)
qed

text \<open>The unsigned product: a negative difference is off by one whole unit.\<close>

lemma u32_shift16:
  "uint (drop_bit 16 w) = uint w div 65536" "unat (drop_bit 16 w) = unat w div 65536" for w :: u32
proof -
  have "w = take_bit 32 w" by (simp add: take_bit_word_eq_self)
  then have "take_bit 32 (uint w) = uint w" "take_bit 32 (unat w) = unat w"
    by (simp_all flip: unsigned_take_bit_eq)
  then show "uint (drop_bit 16 w) = uint w div 65536" "unat (drop_bit 16 w) = unat w div 65536"
    unfolding unsigned_drop_bit_eq by (simp_all add: drop_bit_eq_div)
qed

lemma u32_low16: "w AND 0xFFFF = of_nat (unat w mod 65536)" for w :: u32
proof -
  have "w AND 0xFFFF = take_bit 16 w" by (simp add: take_bit_eq_mask mask_eq_exp_minus_1)
  moreover have "unat (take_bit 16 w) = unat w mod 65536"
    unfolding unsigned_take_bit_eq by (simp add: take_bit_eq_mod)
  ultimately show ?thesis by (metis of_nat_unat ucast_id)
qed

lemma neg_mod: "0 < p \<Longrightarrow> p < 4294967296 \<Longrightarrow> (- p) mod 4294967296 = 4294967296 - p" for p :: int
  using mod_add_self1 [of 4294967296 "- p"] mod_pos_pos_trivial [of "4294967296 - p" 4294967296] by simp

lemma unsigned_interpolation:
  assumes "0 < d" "d < 14495" "frac < 65536"
  shows "uint (drop_bit 16 (word_of_int (- d) * of_nat frac :: u32)) =
    (if frac = 0 then 0 else 65536 - (int frac * d + 65535) div 65536)"
proof (cases "frac = 0")
  case False
  have up: "int frac * d \<le> 65535 * 14494"
    by (rule mult_mono) (use assms in auto)
  have lo: "0 < int frac * d" using False assms(1) by simp
  have "word_of_int (- d) * of_nat frac = (word_of_int (- (d * int frac)) :: u32)" by simp
  then have "uint (word_of_int (- d) * of_nat frac :: u32) = (- (d * int frac)) mod 4294967296"
    by (simp only: uint_word_of_int) simp
  also have "\<dots> = 4294967296 - d * int frac"
    using neg_mod [of "d * int frac"] up lo by (simp add: mult.commute)
  finally have "uint (drop_bit 16 (word_of_int (- d) * of_nat frac :: u32)) = (4294967296 - d * int frac) div 65536"
    by (simp only: u32_shift16)
  then show ?thesis using False by (simp add: mult.commute)
qed simp

lemma lut_drop_bounds:
  assumes "i < 16" "f < 65536"
  shows "0 \<le> lut_drop i f" "lut_drop i f \<le> exp_lut ! i - exp_lut ! Suc i"
proof -
  let ?d = "exp_lut ! i - exp_lut ! Suc i"
  have d: "0 < ?d" using exp_lut_steps [OF assms(1)] by simp
  then show "0 \<le> lut_drop i f" by (simp add: lut_drop_def pos_imp_zdiv_nonneg_iff)
  have "int f * ?d \<le> 65535 * ?d" by (rule mult_right_mono) (use assms(2) d in auto)
  then have "int f * ?d + 65535 < (?d + 1) * 65536" using d by (simp add: algebra_simps)
  then have "(int f * ?d + 65535) div 65536 < ?d + 1" by (simp add: div_less_iff_less_mult)
  then show "lut_drop i f \<le> ?d" by (simp add: lut_drop_def)
qed

definition decay_position :: "u64 \<Rightarrow> u64 \<Rightarrow> nat" where
  "decay_position elapsed_us tau_us = unat elapsed_us * 65536 div unat tau_us"

lemma exp_decay_lut_conv:
  assumes "tau_us \<noteq> 0" "unat elapsed_us < 281474976710656"
  shows "exp_decay_lut elapsed_us tau_us =
     (let x = decay_position elapsed_us tau_us; i = x div 16384; f = 4 * x mod 65536
      in if x \<ge> 262144 then 0
         else if f = 0 then exp_lut ! i
         else exp_lut ! i - lut_drop i f + 65536)"
proof -
  let ?x = "decay_position elapsed_us tau_us"
  have "unat (push_bit 16 elapsed_us) = unat elapsed_us * 65536"
    using assms(2) by (simp add: push_bit_eq_mult unat_word_ariths)
  then have x: "unat (push_bit 16 elapsed_us div tau_us) = ?x" by (simp add: unat_div decay_position_def)
  have big: "push_bit 16 elapsed_us div tau_us \<ge> 262144 \<longleftrightarrow> ?x \<ge> 262144" by (simp add: word_le_nat_alt x)
  show ?thesis
  proof (cases "?x \<ge> 262144")
    case True
    then show ?thesis using assms(1) big by (simp add: exp_decay_lut_def Let_def)
  next
    case False
    let ?w = "ucast (push_bit 16 elapsed_us div tau_us) :: u32"
    have "unat ?w = ?x" using False by (simp add: unsigned_ucast_eq x take_bit_nat_eq_self)
    then have w4: "unat (?w * 4) = 4 * ?x" using False by (simp add: unat_word_ariths)
    have idx: "unat (drop_bit 16 (?w * 4)) = ?x div 16384"
      unfolding u32_shift16(2) w4 by simp
    have lt: "?x div 16384 < 16" using False by (simp add: div_less_iff_less_mult)
    have fr: "?w * 4 AND 0xFFFF = of_nat (4 * ?x mod 65536)"
      unfolding u32_low16 w4 ..
    have small: "\<not> drop_bit 16 (?w * 4) \<ge> 16" using lt by (simp add: word_le_nat_alt idx)
    note steps = exp_lut_steps [OF lt]
    let ?d = "exp_lut ! (?x div 16384) - exp_lut ! Suc (?x div 16384)"
    have delta: "to_i32 (exp_lut ! Suc (?x div 16384) - exp_lut ! (?x div 16384)) = - ?d"
      using steps by (intro to_i32_id [THEN trans]) auto
    have "exp_decay_lut elapsed_us tau_us = to_i32 (exp_lut ! (?x div 16384) + to_i32 (uint (drop_bit 16 (word_of_int (- ?d) * of_nat (4 * ?x mod 65536) :: u32))))"
      using assms(1) False big small by (simp add: exp_decay_lut_def Let_def idx fr delta)
    also have "\<dots> = to_i32 (exp_lut ! (?x div 16384) + to_i32 (if 4 * ?x mod 65536 = 0 then 0
        else 65536 - (int (4 * ?x mod 65536) * ?d + 65535) div 65536))"
      by (subst unsigned_interpolation) (use steps in auto)
    finally have res: "exp_decay_lut elapsed_us tau_us = to_i32 (exp_lut ! (?x div 16384) + to_i32 (if 4 * ?x mod 65536 = 0 then 0
        else 65536 - lut_drop (?x div 16384) (4 * ?x mod 65536)))"
      by (simp add: lut_drop_def)
    have "0 \<le> lut_drop (?x div 16384) (4 * ?x mod 65536)" "lut_drop (?x div 16384) (4 * ?x mod 65536) \<le> ?d"
      using lut_drop_bounds [OF lt, of "4 * ?x mod 65536"] by simp_all
    with res steps False show ?thesis by (simp add: Let_def to_i32_id)
  qed
qed

section \<open>The load factor\<close>

lemma compute_rank_bounds: "0 \<le> compute_rank t ts n \<and> compute_rank t ts n \<le> int n"
  by (induction n) (auto simp: compute_rank_def)

lemma compute_rank_mono: "s \<le> t \<Longrightarrow> compute_rank s ts n \<le> compute_rank t ts n"
  by (induction n) (auto simp: compute_rank_def)

lemma sdiv_bounds: "0 < t \<Longrightarrow> - b * t \<le> a \<Longrightarrow> a \<le> b * t \<Longrightarrow> - b \<le> a sdiv t \<and> a sdiv t \<le> b" for a b t :: int
proof -
  assume t: "0 < t" and a: "- b * t \<le> a" "a \<le> b * t"
  from t a(2) have 1: "0 \<le> a \<Longrightarrow> a div t \<le> b" using zdiv_mono1 [OF a(2) t] by simp
  from t a(1) have 2: "- a div t \<le> b" using zdiv_mono1 [of "- a" "b * t" t] by simp
  have "0 \<le> b * t - a" "0 \<le> a + b * t" using a by auto
  then have "0 \<le> 2 * (b * t)" by linarith
  then have b: "0 \<le> b" using t by (simp add: zero_le_mult_iff)
  show ?thesis
  proof (cases "0 \<le> a")
    case True
    then have "a sdiv t = a div t" "0 \<le> a div t" using t by (simp_all add: sdiv_nonneg pos_imp_zdiv_nonneg_iff)
    with 1 [OF True] b show ?thesis by simp
  next
    case False
    then have "a sdiv t = - (- a div t)" "0 \<le> - a div t"
      using t by (simp_all add: signed_divide_int_def sgn_if pos_imp_zdiv_nonneg_iff)
    with 2 b show ?thesis by simp
  qed
qed

lemma sdiv_mono: "0 < t \<Longrightarrow> a \<le> b \<Longrightarrow> a sdiv t \<le> b sdiv t" for a b t :: int
proof -
  assume t: "0 < t" and ab: "a \<le> b"
  have neg: "x sdiv t = - (- x div t)" if "x < 0" for x using that t by (simp add: signed_divide_int_def sgn_if)
  have pos: "x sdiv t = x div t" if "0 \<le> x" for x using that t by (simp add: sdiv_nonneg)
  consider "0 \<le> a" "0 \<le> b" | "a < 0" "0 \<le> b" | "a < 0" "b < 0" using ab by linarith
  then show ?thesis
  proof cases
    case 1
    then show ?thesis using zdiv_mono1 [OF ab t] by (simp add: pos)
  next
    case 2
    have "0 \<le> - a div t" "0 \<le> b div t" using 2 t by (simp_all add: pos_imp_zdiv_nonneg_iff)
    with 2 show ?thesis by (simp add: pos neg)
  next
    case 3
    then show ?thesis using zdiv_mono1 [of "- b" "- a" t] ab t by (simp add: neg)
  qed
qed

lemma load_factor_conv:
  assumes "0 < sg_neighbor_count ctx" "sg_neighbor_count ctx \<le> EKK_K_NEIGHBORS"
  defines "total_nodes \<equiv> int (sg_neighbor_count ctx) + 1"
  defines "deviation \<equiv> total_nodes div 2 - compute_rank (sg_my_tag ctx) (sg_neighbor_tags ctx) (sg_neighbor_count ctx)"
  defines "ratio \<equiv> deviation * 4294967296 sdiv (total_nodes * 65536)"
  shows "- 32768 \<le> ratio" "ratio \<le> 32768"
    "ekk_stigmergy_compute_load_factor ctx = ekk_fixed_mul (sc_max_load_adjust (sg_config ctx)) ratio"
proof -
  have dev: "- total_nodes \<le> 2 * deviation" "2 * deviation \<le> total_nodes"
    using compute_rank_bounds [of "sg_my_tag ctx" "sg_neighbor_tags ctx" "sg_neighbor_count ctx"]
    by (auto simp: deviation_def total_nodes_def)
  have "- 32768 \<le> ratio \<and> ratio \<le> 32768"
    unfolding ratio_def by (rule sdiv_bounds) (use dev assms(1) in \<open>auto simp: total_nodes_def\<close>)
  then show r: "- 32768 \<le> ratio" "ratio \<le> 32768" by simp_all
  have half: "total_nodes sdiv 2 = total_nodes div 2" by (rule sdiv_nonneg) (simp_all add: total_nodes_def)
  have wide: "to_i64 (deviation * 65536 * 65536) = deviation * 4294967296"
    using dev assms(2) by (subst to_i64_id) (auto simp: total_nodes_def)
  have "ekk_stigmergy_compute_load_factor ctx = ekk_fixed_mul (sc_max_load_adjust (sg_config ctx)) (to_i32 ratio)"
    unfolding ekk_stigmergy_compute_load_factor_def Let_def total_nodes_def [symmetric] half
      deviation_def [symmetric] wide ratio_def [symmetric] using assms(1) by simp
  with r show "ekk_stigmergy_compute_load_factor ctx = ekk_fixed_mul (sc_max_load_adjust (sg_config ctx)) ratio"
    by (simp add: to_i32_id)
qed

text \<open>The load factor stays within half the configured adjustment, and a cooler module takes at least as much load.\<close>

lemma load_factor_bounds:
  assumes "0 < sg_neighbor_count ctx" "sg_neighbor_count ctx \<le> EKK_K_NEIGHBORS"
    "0 \<le> sc_max_load_adjust (sg_config ctx)" "is_i32 (sc_max_load_adjust (sg_config ctx))"
  shows "- (sc_max_load_adjust (sg_config ctx) + 1) \<le> 2 * ekk_stigmergy_compute_load_factor ctx"
    "2 * ekk_stigmergy_compute_load_factor ctx \<le> sc_max_load_adjust (sg_config ctx)"
proof -
  note conv = load_factor_conv [OF assms(1,2)]
  let ?m = "sc_max_load_adjust (sg_config ctx)"
  obtain r where r: "ekk_stigmergy_compute_load_factor ctx = ekk_fixed_mul ?m r" "- 32768 \<le> r" "r \<le> 32768"
    using conv by blast
  have "?m * r \<le> ?m * 32768" "?m * (- 32768) \<le> ?m * r"
    using r(2,3) assms(3) by (auto intro!: mult_left_mono simp del: mult_minus_right)
  then have "- (?m + 1) \<le> 2 * (?m * r div 65536)" "2 * (?m * r div 65536) \<le> ?m" by linarith+
  moreover from this have "ekk_fixed_mul ?m r = ?m * r div 65536"
    using assms(4) unfolding ekk_fixed_mul_def is_i32_def by (intro to_i32_id) auto
  ultimately show "- (?m + 1) \<le> 2 * ekk_stigmergy_compute_load_factor ctx"
    "2 * ekk_stigmergy_compute_load_factor ctx \<le> ?m" by (simp_all add: r(1))
qed

section \<open>The tag grows with time\<close>

text \<open>
  The heat tag does not decay. In the deadband, where only the decay acts, take a tag
  below half the range and an age of less than four time constants. When the age falls on a
  point of the table the tag is multiplied by the table's value, at most 1. Everywhere else the
  interpolated factor comes out one unit too large, because a negative difference is
  multiplied as an unsigned number: the tag is not reduced to the share \<open>L\<close> that the table
  gives for the age, it grows by that share.
\<close>

lemma stigmergy_tag_grows:
  assumes "is_i32 (sg_my_tag ctx)" "0 \<le> sg_my_tag ctx" "sg_my_tag ctx < 1073741824" "sc_tau (sg_config ctx) \<noteq> 0"
    and "0 < stigmergy_elapsed ctx now" "unat (stigmergy_elapsed ctx now) < 281474976710656"
    and "x = decay_position (stigmergy_elapsed ctx now) (sc_tau (sg_config ctx))" "x < 262144"
    and "\<bar>Tj - sc_target_temp (sg_config ctx)\<bar> \<le> sc_temp_threshold (sg_config ctx)"
        "sc_temp_threshold (sg_config ctx) \<le> 2147483647"
    and "L = exp_lut ! (x div 16384) - lut_drop (x div 16384) (4 * x mod 65536)"
  shows "1200 \<le> L \<and> L \<le> 65536 \<and>
    sg_my_tag (snd (ekk_stigmergy_update_tag ctx Tj now)) =
      (if 4 * x mod 65536 = 0 then sg_my_tag ctx * L div 65536
       else sg_my_tag ctx + sg_my_tag ctx * L div 65536)"
proof -
  have i: "x div 16384 < 16" using assms(8) by simp
  have drop: "lut_drop i 0 = 0" for i by (simp add: lut_drop_def)
  have L: "1200 \<le> L" "L \<le> 65536"
    using exp_lut_steps [OF i] lut_drop_bounds [OF i, of "4 * x mod 65536"] by (simp_all add: assms(11))
  let ?t = "sg_my_tag ctx" and ?e = "stigmergy_elapsed ctx now"
  have "exp_decay_lut ?e (sc_tau (sg_config ctx)) = (if 4 * x mod 65536 = 0 then L else L + 65536)"
    unfolding exp_decay_lut_conv [OF assms(4,6)] assms(7) [symmetric] Let_def
    using assms(8) drop [of "x div 16384"] by (simp add: assms(11))
  moreover have "0 \<le> ?t * L" "?t * L \<le> ?t * 65536"
    using assms(2) L by (auto intro!: mult_left_mono mult_nonneg_nonneg)
  then have "0 \<le> ?t * L div 65536" "?t * L div 65536 \<le> ?t" by (auto simp: pos_imp_zdiv_nonneg_iff)
  ultimately have mul: "ekk_fixed_mul ?t (exp_decay_lut ?e (sc_tau (sg_config ctx))) =
      (if 4 * x mod 65536 = 0 then ?t * L div 65536 else ?t + ?t * L div 65536)"
    using assms(3) by (simp add: ekk_fixed_mul_def distrib_left to_i32_id)
  have "to_i32 (Tj - sc_target_temp (sg_config ctx)) = Tj - sc_target_temp (sg_config ctx)"
      "to_i32 (- sc_temp_threshold (sg_config ctx)) = - sc_temp_threshold (sg_config ctx)"
    using assms(9,10) by (intro to_i32_id; simp)+
  then show ?thesis
    using L assms(5,9) mul by (simp add: ekk_stigmergy_update_tag_def Let_def abs_le_iff)
qed

definition stigmergy_fresh :: ekk_stigmergy_ctx where
  "stigmergy_fresh = \<lparr>sg_my_tag = 0, sg_neighbor_tags = [], sg_neighbor_ids = [], sg_neighbor_count = 0,
     sg_last_update = 0, sg_config = stigmergy_default_config\<rparr>"

definition warm_stigmergy :: ekk_stigmergy_ctx where
  "warm_stigmergy = (snd (ekk_stigmergy_init stigmergy_fresh None))\<lparr>sg_my_tag := 65536, sg_last_update := 1\<rparr>"

text \<open>Twelve seconds with the default configuration: 1.0 becomes 1.82 instead of 0.82.\<close>

end
