(* ===== verification/Ekk_Auth.thy ===== *)
theory Ekk_Auth
  imports Ekk_Types
begin

unbundle bit_operations_syntax

text \<open>
  Message authentication (\<open>src/ekk_auth.c\<close>, \<open>include/ekk/ekk_auth.h\<close>): the Chaskey permutation, key
  derivation, the one-shot and the incremental code, verification, the helpers for protocol
  messages and the keyring. The four words \<open>v[4]\<close> are a tuple. Words are read from bytes as on a
  little-endian machine. Tags are the first 8 bytes.
\<close>

abbreviation (input) EKK_CHASKEY_ROUNDS :: nat where "EKK_CHASKEY_ROUNDS \<equiv> 12"
abbreviation (input) EKK_MAC_TAG_SIZE :: nat where "EKK_MAC_TAG_SIZE \<equiv> 8"

type_synonym block = "u32 \<times> u32 \<times> u32 \<times> u32"

section \<open>The permutation\<close>

definition rotl32 :: "u32 \<Rightarrow> nat \<Rightarrow> u32" where
  "rotl32 x n = push_bit n x OR drop_bit (32 - n) x"

definition chaskey_round :: "block \<Rightarrow> block" where
  "chaskey_round v =
     (case v of (v0, v1, v2, v3) \<Rightarrow>
       let v0 = v0 + v1;
           v1 = rotl32 v1 5;
           v1 = v1 XOR v0;
           v0 = rotl32 v0 16;
           v2 = v2 + v3;
           v3 = rotl32 v3 8;
           v3 = v3 XOR v2;
           v0 = v0 + v3;
           v3 = rotl32 v3 13;
           v3 = v3 XOR v0;
           v2 = v2 + v1;
           v1 = rotl32 v1 7;
           v1 = v1 XOR v2;
           v2 = rotl32 v2 16
       in (v0, v1, v2, v3))"

definition chaskey_permute :: "block \<Rightarrow> block" where
  "chaskey_permute v = (chaskey_round ^^ EKK_CHASKEY_ROUNDS) v"

section \<open>Keys\<close>

record ekk_auth_key =
  ak_k :: block
  ak_k1 :: block
  ak_k2 :: block

definition times_two :: "block \<Rightarrow> block" where
  "times_two inp =
     (case inp of (in0, in1, in2, in3) \<Rightarrow>
       let msb = drop_bit 31 in3 AND 1;
           out3 = push_bit 1 in3 OR drop_bit 31 in2;
           out2 = push_bit 1 in2 OR drop_bit 31 in1;
           out1 = push_bit 1 in1 OR drop_bit 31 in0;
           out0 = push_bit 1 in0;
           out0 = out0 XOR (0x87 AND (- msb))
       in (out0, out1, out2, out3))"

definition load_word :: "u8 list \<Rightarrow> nat \<Rightarrow> u32" where
  "load_word bytes i =
     ucast (bytes ! i) OR push_bit 8 (ucast (bytes ! (i + 1))) OR
     push_bit 16 (ucast (bytes ! (i + 2))) OR push_bit 24 (ucast (bytes ! (i + 3)))"

definition load_block :: "u8 list \<Rightarrow> block" where
  "load_block bytes = (load_word bytes 0, load_word bytes 4, load_word bytes 8, load_word bytes 12)"

definition xor_block :: "block \<Rightarrow> block \<Rightarrow> block" where
  "xor_block v w = (case (v, w) of ((v0, v1, v2, v3), (w0, w1, w2, w3)) \<Rightarrow> (v0 XOR w0, v1 XOR w1, v2 XOR w2, v3 XOR w3))"

definition ekk_auth_key_init :: "u8 list \<Rightarrow> ekk_auth_key" where
  "ekk_auth_key_init raw_key =
     (let k = load_block raw_key; k1 = times_two k; k2 = times_two k1 in \<lparr>ak_k = k, ak_k1 = k1, ak_k2 = k2\<rparr>)"

definition zero_key :: ekk_auth_key where
  "zero_key = \<lparr>ak_k = (0, 0, 0, 0), ak_k1 = (0, 0, 0, 0), ak_k2 = (0, 0, 0, 0)\<rparr>"

definition ekk_auth_key_clear :: "ekk_auth_key \<Rightarrow> ekk_auth_key" where
  "ekk_auth_key_clear key = zero_key"

section \<open>One-shot code\<close>

function absorb :: "block \<Rightarrow> u8 list \<Rightarrow> block \<times> u8 list" where
  "absorb v msg =
     (if length msg > 16 then absorb (chaskey_permute (xor_block v (load_block msg))) (drop 16 msg) else (v, msg))"
  by pat_completeness auto
termination by (relation "measure (\<lambda>(v, msg). length msg)") auto

declare absorb.simps [simp del]

definition store_word :: "u32 \<Rightarrow> u8 list" where
  "store_word w = map ucast [w AND 0xFF, drop_bit 8 w AND 0xFF, drop_bit 16 w AND 0xFF, drop_bit 24 w AND 0xFF]"

definition full_tag :: "block \<Rightarrow> u8 list" where
  "full_tag v = (case v of (v0, v1, v2, v3) \<Rightarrow> store_word v0 @ store_word v1 @ store_word v2 @ store_word v3)"

text \<open>Padding, the subkey, the last permutation and the output, the same in both codes.\<close>

definition auth_finish :: "ekk_auth_key \<Rightarrow> block \<Rightarrow> u8 list \<Rightarrow> u8 list" where
  "auth_finish key v rest =
     (let n = length rest;
          last_block = rest @ replicate (16 - n) 0;
          (last_block, v) = (if n < 16 then (last_block[n := 1], xor_block v (ak_k2 key)) else (last_block, xor_block v (ak_k1 key)));
          v = xor_block v (load_block last_block);
          v = chaskey_permute v;
          v = xor_block v (ak_k key)
      in take EKK_MAC_TAG_SIZE (full_tag v))"

definition ekk_auth_compute :: "ekk_auth_key \<Rightarrow> u8 list \<Rightarrow> u8 list" where
  "ekk_auth_compute key message = (case absorb (ak_k key) message of (v, rest) \<Rightarrow> auth_finish key v rest)"

definition constant_time_compare :: "u8 list \<Rightarrow> u8 list \<Rightarrow> nat \<Rightarrow> bool" where
  "constant_time_compare a b len = (fold (\<lambda>i diff. diff OR (a ! i XOR b ! i)) [0..<len] 0 = 0)"

definition ekk_auth_verify :: "ekk_auth_key \<Rightarrow> u8 list \<Rightarrow> u8 list \<Rightarrow> bool" where
  "ekk_auth_verify key message tag = constant_time_compare (ekk_auth_compute key message) tag EKK_MAC_TAG_SIZE"

section \<open>Incremental code\<close>

record ekk_auth_ctx =
  ac_v :: block
  ac_buffer :: "u8 list"
  ac_buflen :: nat
  ac_msglen :: u32
  ac_key :: ekk_auth_key

definition ekk_auth_init :: "ekk_auth_ctx \<Rightarrow> ekk_auth_key \<Rightarrow> ekk_auth_ctx" where
  "ekk_auth_init ctx key = ctx\<lparr>ac_key := key, ac_v := ak_k key, ac_buflen := 0, ac_msglen := 0\<rparr>"

definition buffer_write :: "u8 list \<Rightarrow> nat \<Rightarrow> u8 list \<Rightarrow> u8 list" where
  "buffer_write buffer at bytes = take at buffer @ bytes @ drop (at + length bytes) buffer"

definition update_blocks :: "ekk_auth_ctx \<Rightarrow> u8 list \<Rightarrow> ekk_auth_ctx" where
  "update_blocks ctx msg =
     (case absorb (ac_v ctx) msg of (v, rest) \<Rightarrow>
        let ctx = ctx\<lparr>ac_v := v\<rparr>
        in if length rest > 0
           then ctx\<lparr>ac_buffer := buffer_write (ac_buffer ctx) 0 rest, ac_buflen := length rest\<rparr>
           else ctx)"

definition ekk_auth_update :: "ekk_auth_ctx \<Rightarrow> u8 list \<Rightarrow> ekk_auth_ctx" where
  "ekk_auth_update ctx msg =
     (let ctx = ctx\<lparr>ac_msglen := ac_msglen ctx + of_nat (length msg)\<rparr>
      in if ac_buflen ctx > 0
         then (let need = 16 - ac_buflen ctx
               in if length msg < need
                  then ctx\<lparr>ac_buffer := buffer_write (ac_buffer ctx) (ac_buflen ctx) msg,
                    ac_buflen := ac_buflen ctx + length msg\<rparr>
                  else (let buffer = buffer_write (ac_buffer ctx) (ac_buflen ctx) (take need msg);
                            ctx = ctx\<lparr>ac_buffer := buffer,
                              ac_v := chaskey_permute (xor_block (ac_v ctx) (load_block buffer)), ac_buflen := 0\<rparr>
                        in update_blocks ctx (drop need msg)))
         else update_blocks ctx msg)"

definition ekk_auth_final :: "ekk_auth_ctx \<Rightarrow> u8 list" where
  "ekk_auth_final ctx = auth_finish (ac_key ctx) (ac_v ctx) (take (ac_buflen ctx) (ac_buffer ctx))"

section \<open>Protocol messages\<close>

definition ekk_auth_is_required :: "u8 \<Rightarrow> bool" where
  "ekk_auth_is_required msg_type = (msg_type = 0x04 \<or> msg_type = 0x05 \<or> msg_type = 0x08)"

text \<open>\<open>blank\<close> is the uninitialised local context.\<close>

definition ekk_auth_message :: "ekk_auth_ctx \<Rightarrow> ekk_auth_key \<Rightarrow> u8 \<Rightarrow> u8 \<Rightarrow> u8 list option \<Rightarrow> u8 list" where
  "ekk_auth_message blank key sender_id msg_type data =
     (let ctx = ekk_auth_init blank key;
          ctx = ekk_auth_update ctx [sender_id, msg_type];
          ctx = (case data of Some d \<Rightarrow> if length d > 0 then ekk_auth_update ctx d else ctx | None \<Rightarrow> ctx)
      in ekk_auth_final ctx)"

definition ekk_auth_verify_message :: "ekk_auth_ctx \<Rightarrow> ekk_auth_key \<Rightarrow> u8 \<Rightarrow> u8 \<Rightarrow> u8 list option \<Rightarrow> u8 list \<Rightarrow> bool" where
  "ekk_auth_verify_message blank key sender_id msg_type data tag =
     constant_time_compare (ekk_auth_message blank key sender_id msg_type data) tag EKK_MAC_TAG_SIZE"

section \<open>The keyring\<close>

record ekk_auth_keyring =
  kr_keys :: "ekk_auth_key list"
  kr_valid :: "u8 list"

definition ekk_auth_keyring_init :: "ekk_auth_keyring" where
  "ekk_auth_keyring_init =
     \<lparr>kr_keys = replicate EKK_MAX_MODULES zero_key, kr_valid = replicate 32 0\<rparr>"

definition ekk_auth_keyring_has :: "ekk_auth_keyring \<Rightarrow> u8 \<Rightarrow> bool" where
  "ekk_auth_keyring_has ring k =
     (if k = 0 \<or> unat k > EKK_MAX_MODULES then False
      else kr_valid ring ! (unat k div 8) AND push_bit (unat k mod 8) 1 \<noteq> 0)"

definition ekk_auth_keyring_get :: "ekk_auth_keyring \<Rightarrow> u8 \<Rightarrow> ekk_auth_key option" where
  "ekk_auth_keyring_get ring k = (if \<not> ekk_auth_keyring_has ring k then None else Some (kr_keys ring ! unat k))"

definition ekk_auth_keyring_set :: "ekk_auth_keyring \<Rightarrow> u8 \<Rightarrow> u8 list \<Rightarrow> ekk_auth_keyring" where
  "ekk_auth_keyring_set ring k raw_key =
     (if k = 0 \<or> unat k > EKK_MAX_MODULES then ring
      else ring\<lparr>kr_keys := (kr_keys ring)[unat k := ekk_auth_key_init raw_key],
        kr_valid := (kr_valid ring)[unat k div 8 := kr_valid ring ! (unat k div 8) OR push_bit (unat k mod 8) 1]\<rparr>)"

definition ekk_auth_keyring_clear :: "ekk_auth_keyring \<Rightarrow> u8 \<Rightarrow> ekk_auth_keyring" where
  "ekk_auth_keyring_clear ring k =
     (if k = 0 \<or> unat k > EKK_MAX_MODULES then ring
      else ring\<lparr>kr_keys := (kr_keys ring)[unat k := ekk_auth_key_clear (kr_keys ring ! unat k)],
        kr_valid := (kr_valid ring)[unat k div 8 := kr_valid ring ! (unat k div 8) AND NOT (push_bit (unat k mod 8) 1)]\<rparr>)"

section \<open>Blocks\<close>

text \<open>Absorbing whole blocks, the last one included.\<close>

function absorb_blocks :: "block \<Rightarrow> u8 list \<Rightarrow> block" where
  "absorb_blocks v msg =
     (if length msg \<ge> 16 then absorb_blocks (chaskey_permute (xor_block v (load_block msg))) (drop 16 msg) else v)"
  by pat_completeness auto
termination by (relation "measure (\<lambda>(v, msg). length msg)") auto

declare absorb_blocks.simps [simp del]

lemma load_block_append: "length bytes \<ge> 16 \<Longrightarrow> load_block (bytes @ rest) = load_block bytes"
  by (auto simp: load_block_def load_word_def nth_append)

lemma absorb_blocks_append:
  "length P mod 16 = 0 \<Longrightarrow> absorb_blocks v (P @ Q) = absorb_blocks (absorb_blocks v P) Q"
proof (induction v P rule: absorb_blocks.induct)
  case (1 v P)
  show ?case
  proof (cases "length P \<ge> 16")
    case True
    then have "length (drop 16 P) mod 16 = 0" using 1(2) by (simp add: mod_if)
    with 1(1) [OF True] True show ?thesis
      by (simp add: absorb_blocks.simps [of v "P @ Q"] absorb_blocks.simps [of v P] load_block_append)
  next
    case False
    with 1(2) have "P = []" by (simp add: mod_if)
    then show ?thesis by (simp add: absorb_blocks.simps [of v "[]"])
  qed
qed

lemma absorb_blocks_one: "length b = 16 \<Longrightarrow> absorb_blocks v b = chaskey_permute (xor_block v (load_block b))"
  by (simp add: absorb_blocks.simps [of v b] absorb_blocks.simps [of _ "[]"])

text \<open>The loop of the code keeps the last block, full or not, back.\<close>

lemma absorb_split:
  "length P mod 16 = 0 \<Longrightarrow> 0 < length R \<Longrightarrow> length R \<le> 16 \<Longrightarrow> absorb v (P @ R) = (absorb_blocks v P, R)"
proof (induction v P rule: absorb_blocks.induct)
  case (1 v P)
  show ?case
  proof (cases "length P \<ge> 16")
    case True
    then have "length (drop 16 P) mod 16 = 0" using 1(2) by (simp add: mod_if)
    then have "absorb (chaskey_permute (xor_block v (load_block P))) (drop 16 P @ R) =
        (absorb_blocks (chaskey_permute (xor_block v (load_block P))) (drop 16 P), R)"
      by (intro 1(1) [OF True]) (use 1 in simp_all)
    moreover have "16 < length (P @ R)" using True 1(3) by (cases R) auto
    then have "absorb v (P @ R) = absorb (chaskey_permute (xor_block v (load_block (P @ R)))) (drop 16 (P @ R))"
      by (subst absorb.simps) (rule if_P)
    ultimately show ?thesis using True
      by (simp add: absorb_blocks.simps [of v P] load_block_append)
  next
    case False
    with 1(2) have "P = []" by (simp add: mod_if)
    with 1 show ?thesis by (simp add: absorb.simps [of v R] absorb_blocks.simps [of v "[]"])
  qed
qed

lemma absorb_Nil: "absorb v [] = (v, [])"
  by (simp add: absorb.simps [of v "[]"])

lemma split_last_block:
  assumes "msg \<noteq> []"
  obtains P R where "msg = P @ R" "length P mod 16 = 0" "0 < length R" "length R \<le> 16"
proof -
  let ?n = "(length msg - 1) div 16 * 16"
  have "0 < length msg" using assms by simp
  then have n: "?n < length msg" "length msg \<le> ?n + 16"
    by (metis One_nat_def Suc_pred div_mult_mod_eq le_add1 le_imp_less_Suc, linarith)
  show thesis
    by (rule that [of "take ?n msg" "drop ?n msg"]) (use n in \<open>auto simp: min_def\<close>)
qed

section \<open>What the context holds\<close>

text \<open>
  After the bytes \<open>M\<close> have been given to it, the context has absorbed some whole blocks \<open>P\<close> and
  keeps the rest in the buffer.
\<close>

definition holds :: "ekk_auth_key \<Rightarrow> u8 list \<Rightarrow> ekk_auth_ctx \<Rightarrow> bool" where
  "holds key M ctx \<longleftrightarrow> ac_key ctx = key \<and> length (ac_buffer ctx) = 16 \<and> ac_buflen ctx \<le> 16 \<and>
     (\<exists>P. M = P @ take (ac_buflen ctx) (ac_buffer ctx) \<and> length P mod 16 = 0 \<and> ac_v ctx = absorb_blocks (ak_k key) P)"

lemma length_buffer_write: "length buffer = 16 \<Longrightarrow> at + length bytes \<le> 16 \<Longrightarrow> length (buffer_write buffer at bytes) = 16"
  by (simp add: buffer_write_def)

lemma take_buffer_write:
  "length buffer = 16 \<Longrightarrow> at + length bytes \<le> 16 \<Longrightarrow> n = at + length bytes \<Longrightarrow>
   take n (buffer_write buffer at bytes) = take at buffer @ bytes"
  by (simp add: buffer_write_def)

lemma holds_update_blocks:
  assumes "ac_key ctx = key" "length (ac_buffer ctx) = 16" "ac_buflen ctx = 0"
    and "ac_v ctx = absorb_blocks (ak_k key) P" "length P mod 16 = 0"
  shows "holds key (P @ msg) (update_blocks ctx msg)" "msg \<noteq> [] \<Longrightarrow> 0 < ac_buflen (update_blocks ctx msg)"
proof -
  have "holds key (P @ msg) (update_blocks ctx msg) \<and> (msg \<noteq> [] \<longrightarrow> 0 < ac_buflen (update_blocks ctx msg))"
  proof (cases "msg = []")
    case True
    with assms show ?thesis by (auto simp: holds_def update_blocks_def absorb_Nil)
  next
    case False
    then obtain Q R where QR: "msg = Q @ R" "length Q mod 16 = 0" "0 < length R" "length R \<le> 16"
      by (rule split_last_block)
    have "length (P @ Q) mod 16 = 0" using assms(5) QR(2) by (simp add: mod_add_eq [symmetric] del: mod_add_eq)
    then show ?thesis
      using QR assms absorb_split [OF QR(2-4), of "ac_v ctx"] absorb_blocks_append [OF assms(5), of "ak_k key" Q]
      by (auto simp: holds_def update_blocks_def Let_def length_buffer_write take_buffer_write
          intro!: exI [of _ "P @ Q"])
  qed
  then show "holds key (P @ msg) (update_blocks ctx msg)" "msg \<noteq> [] \<Longrightarrow> 0 < ac_buflen (update_blocks ctx msg)"
    by blast+
qed

lemma holds_init: "length (ac_buffer ctx) = 16 \<Longrightarrow> holds key [] (ekk_auth_init ctx key)"
  by (simp add: holds_def ekk_auth_init_def absorb_blocks.simps [of _ "[]"])

lemma holds_update:
  assumes "holds key M ctx"
  shows "holds key (M @ msg) (ekk_auth_update ctx msg)"
proof -
  obtain P where P: "M = P @ take (ac_buflen ctx) (ac_buffer ctx)" "length P mod 16 = 0" "ac_v ctx = absorb_blocks (ak_k key) P"
    and inv: "ac_key ctx = key" "length (ac_buffer ctx) = 16" "ac_buflen ctx \<le> 16"
    using assms by (auto simp: holds_def)
  let ?c = "ctx\<lparr>ac_msglen := ac_msglen ctx + of_nat (length msg)\<rparr>"
  consider (empty) "ac_buflen ctx = 0" | (short) "0 < ac_buflen ctx" "length msg < 16 - ac_buflen ctx"
    | (fill) "0 < ac_buflen ctx" "\<not> length msg < 16 - ac_buflen ctx" by blast
  then show ?thesis
  proof cases
    case empty
    then have "ekk_auth_update ctx msg = update_blocks ?c msg" "M = P" using P by (simp_all add: ekk_auth_update_def Let_def)
    with holds_update_blocks(1) [of ?c key P msg] P inv empty show ?thesis by simp
  next
    case short
    with P inv show ?thesis
      by (auto simp: ekk_auth_update_def Let_def holds_def length_buffer_write take_buffer_write intro!: exI [of _ P])
  next
    case fill
    let ?need = "16 - ac_buflen ctx"
    let ?b = "buffer_write (ac_buffer ctx) (ac_buflen ctx) (take ?need msg)"
    have b: "length ?b = 16" "?b = take (ac_buflen ctx) (ac_buffer ctx) @ take ?need msg"
      using fill inv by (simp_all add: buffer_write_def)
    let ?d = "?c\<lparr>ac_buffer := ?b, ac_v := chaskey_permute (xor_block (ac_v ctx) (load_block ?b)), ac_buflen := 0\<rparr>"
    have "ac_v ?d = absorb_blocks (ak_k key) (P @ ?b)"
      using P(2,3) b(1) by (simp add: absorb_blocks_append absorb_blocks_one)
    moreover have "length (P @ ?b) mod 16 = 0" using P(2) b(1) by simp
    ultimately have "holds key ((P @ ?b) @ drop ?need msg) (update_blocks ?d (drop ?need msg))"
      using inv b(1) by (intro holds_update_blocks(1)) simp_all
    moreover have "(P @ ?b) @ drop ?need msg = M @ msg" unfolding b(2) P(1) by simp
    moreover have "ekk_auth_update ctx msg = update_blocks ?d (drop ?need msg)"
      using fill by (simp add: ekk_auth_update_def Let_def)
    ultimately show ?thesis by simp
  qed
qed

lemma holds_updates: "holds key M ctx \<Longrightarrow> holds key (M @ concat chunks) (foldl ekk_auth_update ctx chunks)"
proof (induction chunks arbitrary: M ctx)
  case (Cons c cs)
  from Cons.IH [OF holds_update [OF Cons.prems]] show ?case by simp
qed simp

lemma holds_final:
  assumes "holds key M ctx"
  shows "ekk_auth_final ctx =
     (if ac_buflen ctx = 0 \<and> M \<noteq> [] then auth_finish key (absorb_blocks (ak_k key) M) [] else ekk_auth_compute key M)"
proof -
  obtain P where P: "M = P @ take (ac_buflen ctx) (ac_buffer ctx)" "length P mod 16 = 0" "ac_v ctx = absorb_blocks (ak_k key) P"
    and inv: "ac_key ctx = key" "length (ac_buffer ctx) = 16" "ac_buflen ctx \<le> 16"
    using assms by (auto simp: holds_def)
  show ?thesis
  proof (cases "ac_buflen ctx = 0")
    case True
    then show ?thesis using P inv
      by (auto simp: ekk_auth_final_def ekk_auth_compute_def absorb_Nil absorb_blocks.simps [of _ "[]"])
  next
    case False
    let ?R = "take (ac_buflen ctx) (ac_buffer ctx)"
    have "0 < length ?R" "length ?R \<le> 16" using False inv by auto
    from absorb_split [OF P(2) this, of "ak_k key"] P inv False show ?thesis
      by (simp add: ekk_auth_final_def ekk_auth_compute_def)
  qed
qed

section \<open>Verification\<close>

lemma constant_time_compare_conv:
  assumes "length a = n" "length b = n"
  shows "constant_time_compare a b n \<longleftrightarrow> a = b"
proof -
  have "fold (\<lambda>i diff. diff OR (a ! i XOR b ! i)) [0..<m] 0 = (0 :: u8) \<longleftrightarrow> (\<forall>i < m. a ! i = b ! i)" for m
  proof (induction m)
    case (Suc m)
    have "x OR y = 0 \<longleftrightarrow> x = 0 \<and> y = 0" for x y :: u8 by (metis or.right_neutral or_eq_0_iff)
    moreover have "x XOR y = 0 \<longleftrightarrow> x = y" for x y :: u8
      by (metis xor.assoc xor.left_neutral xor_self_eq)
    ultimately show ?case using Suc by (auto simp: less_Suc_eq)
  qed simp
  with assms show ?thesis by (auto simp: constant_time_compare_def list_eq_iff_nth_eq)
qed

lemma length_auth_finish [simp]: "length (auth_finish key v rest) = EKK_MAC_TAG_SIZE"
  by (simp add: auth_finish_def Let_def full_tag_def store_word_def split: prod.split)

lemma length_tags [simp]:
  "length (ekk_auth_compute key msg) = EKK_MAC_TAG_SIZE" "length (ekk_auth_final ctx) = EKK_MAC_TAG_SIZE"
  "length (ekk_auth_message blank key s ty data) = EKK_MAC_TAG_SIZE"
  by (simp_all add: ekk_auth_compute_def ekk_auth_final_def ekk_auth_message_def Let_def split: prod.split)

section \<open>One-shot and incremental tags\<close>

definition message_bytes :: "u8 \<Rightarrow> u8 \<Rightarrow> u8 list option \<Rightarrow> u8 list" where
  "message_bytes sender_id msg_type data = sender_id # msg_type # (case data of Some d \<Rightarrow> d | None \<Rightarrow> [])"

lemma message_final:
  assumes "length (ac_buffer blank) = 16"
  shows "ekk_auth_message blank key sender_id msg_type data =
     (if length (message_bytes sender_id msg_type data) = 16
      then auth_finish key (absorb_blocks (ak_k key) (message_bytes sender_id msg_type data)) []
      else ekk_auth_compute key (message_bytes sender_id msg_type data))"
proof -
  define h where "h = ekk_auth_update (ekk_auth_init blank key) [sender_id, msg_type]"
  have hf: "ac_buflen h = 2" "ac_key h = key" "ac_v h = ak_k key" "length (ac_buffer h) = 16"
    using assms
    by (simp_all add: h_def ekk_auth_update_def ekk_auth_init_def update_blocks_def absorb.simps [of _ "[sender_id, msg_type]"]
        length_buffer_write)
  have h: "holds key [sender_id, msg_type] h"
    using holds_update [OF holds_init [OF assms], of key "[sender_id, msg_type]"] by (simp add: h_def)
  show ?thesis
  proof (cases "data = None \<or> data = Some []")
    case True
    then have "ekk_auth_message blank key sender_id msg_type data = ekk_auth_final h"
      by (auto simp: ekk_auth_message_def Let_def h_def)
    with holds_final [OF h] True show ?thesis by (auto simp: hf message_bytes_def)
  next
    case False
    then obtain d where d: "data = Some d" "d \<noteq> []" by (cases data) auto
    then have msg: "ekk_auth_message blank key sender_id msg_type data = ekk_auth_final (ekk_auth_update h d)"
      by (simp add: ekk_auth_message_def Let_def h_def)
    have "ac_buflen (ekk_auth_update h d) = 0 \<longleftrightarrow> length d = 14"
    proof (cases "length d < 14")
      case True
      then show ?thesis by (simp add: ekk_auth_update_def Let_def hf)
    next
      case False
      let ?b = "buffer_write (ac_buffer h) 2 (take 14 d)"
      let ?c = "h\<lparr>ac_msglen := ac_msglen h + of_nat (length d), ac_buffer := ?b,
          ac_v := chaskey_permute (xor_block (ac_v h) (load_block ?b)), ac_buflen := 0\<rparr>"
      have up: "ekk_auth_update h d = update_blocks ?c (drop 14 d)"
        using False by (simp add: ekk_auth_update_def Let_def hf)
      have b: "length ?b = 16"
        using False by (intro length_buffer_write) (simp_all add: hf)
      have "ac_v ?c = absorb_blocks (ak_k key) ?b"
        using b by (simp add: absorb_blocks_one hf)
      then have "drop 14 d \<noteq> [] \<Longrightarrow> 0 < ac_buflen (update_blocks ?c (drop 14 d))"
        using b by (intro holds_update_blocks(2) [where P = ?b]) (simp_all add: hf)
      moreover have "drop 14 d = [] \<Longrightarrow> ac_buflen (update_blocks ?c (drop 14 d)) = 0"
        by (simp add: update_blocks_def absorb_Nil)
      ultimately show ?thesis unfolding up using False by (cases "drop 14 d = []") auto
    qed
    with holds_final [OF holds_update [OF h], of d] show ?thesis
      unfolding msg by (simp add: d(1) message_bytes_def)
  qed
qed

text \<open>
  C23. The incremental authentication code against the one-shot code. However a message is cut
  into chunks, initialising a context, updating it with the chunks and finalising it gives the
  tag that \<open>ekk_auth_compute\<close> gives for the whole message, except when the buffer is empty at
  the end of a message that is not: then the last block has been absorbed too early, and the
  tag is the one of an additional empty block with the other subkey. For a protocol message,
  the tag is that of sender, type and data in sequence unless the data are exactly 14 bytes,
  and verification accepts a tag of 8 bytes exactly when it is the one computed.
\<close>

theorem auth_incremental_matches:
  assumes "length (ac_buffer blank) = 16" "length tag = EKK_MAC_TAG_SIZE"
    and "ctx = foldl ekk_auth_update (ekk_auth_init blank key) chunks"
  shows "ekk_auth_final ctx =
       (if ac_buflen ctx = 0 \<and> concat chunks \<noteq> []
        then auth_finish key (absorb_blocks (ak_k key) (concat chunks)) []
        else ekk_auth_compute key (concat chunks)) \<and>
     ekk_auth_message blank key sender_id msg_type data =
       (if length (message_bytes sender_id msg_type data) = 16
        then auth_finish key (absorb_blocks (ak_k key) (message_bytes sender_id msg_type data)) []
        else ekk_auth_compute key (message_bytes sender_id msg_type data)) \<and>
     (ekk_auth_verify key msg tag \<longleftrightarrow> tag = ekk_auth_compute key msg) \<and>
     (ekk_auth_verify_message blank key sender_id msg_type data tag \<longleftrightarrow>
        tag = ekk_auth_message blank key sender_id msg_type data)"
proof (intro conjI)
  have "holds key ([] @ concat chunks) ctx" unfolding assms(3) by (rule holds_updates [OF holds_init [OF assms(1)]])
  from holds_final [OF this] show "ekk_auth_final ctx =
       (if ac_buflen ctx = 0 \<and> concat chunks \<noteq> []
        then auth_finish key (absorb_blocks (ak_k key) (concat chunks)) []
        else ekk_auth_compute key (concat chunks))" by simp
  show "ekk_auth_message blank key sender_id msg_type data =
       (if length (message_bytes sender_id msg_type data) = 16
        then auth_finish key (absorb_blocks (ak_k key) (message_bytes sender_id msg_type data)) []
        else ekk_auth_compute key (message_bytes sender_id msg_type data))"
    by (rule message_final [OF assms(1)])
  show "ekk_auth_verify key msg tag \<longleftrightarrow> tag = ekk_auth_compute key msg"
    unfolding ekk_auth_verify_def using constant_time_compare_conv [OF _ assms(2)] by force
  show "ekk_auth_verify_message blank key sender_id msg_type data tag \<longleftrightarrow>
        tag = ekk_auth_message blank key sender_id msg_type data"
    unfolding ekk_auth_verify_message_def using constant_time_compare_conv [OF _ assms(2)] by force
qed

definition blank_ctx :: ekk_auth_ctx where
  "blank_ctx = \<lparr>ac_v = (0, 0, 0, 0), ac_buffer = replicate 16 0, ac_buflen = 0, ac_msglen = 0, ac_key = zero_key\<rparr>"

theorem auth_incremental_matches_witness:
  "ekk_auth_message blank_ctx zero_key 1 4 (Some [7, 8, 9]) = ekk_auth_compute zero_key [1, 4, 7, 8, 9]"
proof -
  have "length (ac_buffer blank_ctx) = 16" by (simp add: blank_ctx_def)
  from auth_incremental_matches [OF this, of "replicate 8 0" _ zero_key "[[1, 4], [7, 8, 9]]" 1 4 "Some [7, 8, 9]"]
  show ?thesis by (simp add: message_bytes_def)
qed

section \<open>The keyring is a map\<close>

lemma u8_mask_bit: "m < 8 \<Longrightarrow> n < 8 \<Longrightarrow> bit (2 ^ n :: u8) m \<longleftrightarrow> m = n"
  by (auto simp: bit_exp_iff)

definition keyring_ok :: "ekk_auth_keyring \<Rightarrow> bool" where
  "keyring_ok ring \<longleftrightarrow> length (kr_keys ring) = EKK_MAX_MODULES \<and> length (kr_valid ring) = 32"

lemma keyring_has_bit: "ekk_auth_keyring_has ring k \<longleftrightarrow> k \<noteq> 0 \<and> bit (kr_valid ring ! (unat k div 8)) (unat k mod 8)"
  using unat_u8_less [of k] unfolding bit_iff_and_push_bit_not_eq_0 ekk_auth_keyring_has_def by auto

lemma keyring_same_slot: "unat k div 8 = unat j div 8 \<Longrightarrow> unat k mod 8 = unat j mod 8 \<Longrightarrow> k = j" for k j :: u8
  by (metis div_mult_mod_eq word_unat_eq_iff)

lemma keyring_valid_bit:
  assumes "keyring_ok ring" "k \<noteq> 0"
  shows "bit (kr_valid (ekk_auth_keyring_set ring k raw) ! (unat j div 8)) (unat j mod 8) \<longleftrightarrow>
      j = k \<or> bit (kr_valid ring ! (unat j div 8)) (unat j mod 8)"
    "bit (kr_valid (ekk_auth_keyring_clear ring k) ! (unat j div 8)) (unat j mod 8) \<longleftrightarrow>
      j \<noteq> k \<and> bit (kr_valid ring ! (unat j div 8)) (unat j mod 8)"
proof -
  let ?s = "unat k div 8"
  have lt: "?s < length (kr_valid ring)" using assms(1) unat_u8_less [of k] by (auto simp: keyring_ok_def)
  have set: "kr_valid (ekk_auth_keyring_set ring k raw) = (kr_valid ring)[?s := kr_valid ring ! ?s OR push_bit (unat k mod 8) 1]"
    and clear: "kr_valid (ekk_auth_keyring_clear ring k) = (kr_valid ring)[?s := kr_valid ring ! ?s AND NOT (push_bit (unat k mod 8) 1)]"
    using assms(2) unat_u8_less [of k] by (auto simp: ekk_auth_keyring_set_def ekk_auth_keyring_clear_def)
  have mask: "bit (2 ^ (unat k mod 8) :: u8) (unat j mod 8) \<longleftrightarrow> unat j mod 8 = unat k mod 8"
    by (rule u8_mask_bit) simp_all
  show "bit (kr_valid (ekk_auth_keyring_set ring k raw) ! (unat j div 8)) (unat j mod 8) \<longleftrightarrow>
      j = k \<or> bit (kr_valid ring ! (unat j div 8)) (unat j mod 8)"
  proof (cases "unat j div 8 = ?s")
    case True
    with lt keyring_same_slot [OF True] show ?thesis by (auto simp: set bit_or_iff mask)
  next
    case False
    then show ?thesis by (auto simp: set)
  qed
  show "bit (kr_valid (ekk_auth_keyring_clear ring k) ! (unat j div 8)) (unat j mod 8) \<longleftrightarrow>
      j \<noteq> k \<and> bit (kr_valid ring ! (unat j div 8)) (unat j mod 8)"
  proof (cases "unat j div 8 = ?s")
    case True
    with lt keyring_same_slot [OF True] show ?thesis by (auto simp: clear bit_and_iff bit_not_iff mask)
  next
    case False
    then show ?thesis by (auto simp: clear)
  qed
qed

lemma keyring_laws:
  assumes "keyring_ok ring" "k \<noteq> 0"
  shows "ekk_auth_keyring_get (ekk_auth_keyring_set ring k raw) j =
     (if j = k then Some (ekk_auth_key_init raw) else ekk_auth_keyring_get ring j)"
    "ekk_auth_keyring_get (ekk_auth_keyring_clear ring k) j = (if j = k then None else ekk_auth_keyring_get ring j)"
proof -
  have ne: "unat j \<noteq> unat k" if "j \<noteq> k" using that by (metis word_unat_eq_iff)
  have lt: "unat k < length (kr_keys ring)" using assms(1) unat_u8_less [of k] by (simp add: keyring_ok_def)
  have keys: "kr_keys (ekk_auth_keyring_set ring k raw) = (kr_keys ring)[unat k := ekk_auth_key_init raw]"
    "kr_keys (ekk_auth_keyring_clear ring k) = (kr_keys ring)[unat k := ekk_auth_key_clear (kr_keys ring ! unat k)]"
    using assms(2) unat_u8_less [of k] by (auto simp: ekk_auth_keyring_set_def ekk_auth_keyring_clear_def)
  show "ekk_auth_keyring_get (ekk_auth_keyring_set ring k raw) j =
     (if j = k then Some (ekk_auth_key_init raw) else ekk_auth_keyring_get ring j)"
    unfolding ekk_auth_keyring_get_def keyring_has_bit keyring_valid_bit [OF assms] keys
    using lt ne assms(2) by (cases "j = k") auto
  show "ekk_auth_keyring_get (ekk_auth_keyring_clear ring k) j = (if j = k then None else ekk_auth_keyring_get ring j)"
    unfolding ekk_auth_keyring_get_def keyring_has_bit keyring_valid_bit [OF assms] keys
    using lt ne assms(2) by (cases "j = k") auto
qed

end
