(* ===== verification/Jezgro_Ipc.thy ===== *)
theory Jezgro_Ipc
  imports Ekk_Interfaces
begin

unbundle bit_operations_syntax

text \<open>
  Messages between services (\<open>src/jezgro/jezgro_ipc.c\<close>, \<open>include/ekk/jezgro/jezgro_ipc.h\<close>): endpoints
  with a ring of 16 messages each, send, broadcast, receive, request and reply, notifications and
  forwarded interrupts. The file's static variables are the record \<open>jezgro_ipc\<close>. The operations
  that wait read the clock again and again; a list of readings, each with what the other
  services and interrupts did to the state just after it, is an argument, and a wait that
  outlives the list has no result.
\<close>

section \<open>State\<close>

abbreviation (input) JEZGRO_IPC_QUEUE_DEPTH :: nat where "JEZGRO_IPC_QUEUE_DEPTH \<equiv> 16"
abbreviation (input) JEZGRO_IPC_MAX_ENDPOINTS :: nat where "JEZGRO_IPC_MAX_ENDPOINTS \<equiv> 16"
abbreviation (input) JEZGRO_IPC_PAYLOAD :: nat where "JEZGRO_IPC_PAYLOAD \<equiv> 56"
abbreviation (input) JEZGRO_IPC_WAIT_FOREVER :: u32 where "JEZGRO_IPC_WAIT_FOREVER \<equiv> 0xFFFFFFFF"
abbreviation (input) JEZGRO_EP_KERNEL :: u8 where "JEZGRO_EP_KERNEL \<equiv> 0"
abbreviation (input) JEZGRO_EP_LLC :: u8 where "JEZGRO_EP_LLC \<equiv> 2"
abbreviation (input) JEZGRO_EP_ROJ :: u8 where "JEZGRO_EP_ROJ \<equiv> 3"
abbreviation (input) JEZGRO_EP_DIAGNOSTICS :: u8 where "JEZGRO_EP_DIAGNOSTICS \<equiv> 4"
abbreviation (input) JEZGRO_EP_BROADCAST :: u8 where "JEZGRO_EP_BROADCAST \<equiv> 0xFF"
abbreviation (input) JEZGRO_IPC_MSG_REQUEST :: u8 where "JEZGRO_IPC_MSG_REQUEST \<equiv> 1"
abbreviation (input) JEZGRO_IPC_MSG_REPLY :: u8 where "JEZGRO_IPC_MSG_REPLY \<equiv> 2"
abbreviation (input) JEZGRO_IPC_MSG_NOTIFY :: u8 where "JEZGRO_IPC_MSG_NOTIFY \<equiv> 3"
abbreviation (input) JEZGRO_IPC_MSG_INTERRUPT :: u8 where "JEZGRO_IPC_MSG_INTERRUPT \<equiv> 4"

datatype jezgro_ipc_error =
    JEZGRO_IPC_OK | JEZGRO_IPC_ERR_TIMEOUT | JEZGRO_IPC_ERR_INVALID | JEZGRO_IPC_ERR_FULL
  | JEZGRO_IPC_ERR_EMPTY | JEZGRO_IPC_ERR_NOT_FOUND | JEZGRO_IPC_ERR_DEAD | JEZGRO_IPC_ERR_DENIED

record jezgro_ipc_msg =
  mh_src :: u8
  mh_dst :: u8
  mh_type :: u8
  mh_flags :: u8
  mh_seq :: u16
  mh_len :: u16
  mm_payload :: "u8 list"

record jezgro_ipc_queue =
  jq_messages :: "jezgro_ipc_msg list"
  jq_head :: nat
  jq_tail :: nat
  jq_count :: nat

record jezgro_ipc_endpoint_state =
  je_id :: u8
  je_owner_service :: u8
  je_active :: bool
  je_rx_queue :: jezgro_ipc_queue
  je_seq_counter :: u16
  je_waiting :: bool
  je_wait_deadline :: u32

record jezgro_ipc_stats =
  js_messages_sent :: u32
  js_messages_received :: u32
  js_replies_sent :: u32
  js_notifications_sent :: u32
  js_timeouts :: u32
  js_queue_overflows :: u32
  js_dead_service_errors :: u32

record jezgro_ipc =
  ji_endpoints :: "jezgro_ipc_endpoint_state list"
  ji_current_service :: u8
  ji_notify_callback :: bool
  ji_irq_endpoints :: "u8 list"
  ji_stats :: jezgro_ipc_stats
  ji_initialized :: bool

definition blank_msg :: jezgro_ipc_msg where
  "blank_msg = \<lparr>mh_src = 0, mh_dst = 0, mh_type = 0, mh_flags = 0, mh_seq = 0, mh_len = 0,
     mm_payload = replicate JEZGRO_IPC_PAYLOAD 0\<rparr>"

definition blank_endpoint :: jezgro_ipc_endpoint_state where
  "blank_endpoint = \<lparr>je_id = 0, je_owner_service = 0, je_active = False,
     je_rx_queue = \<lparr>jq_messages = replicate JEZGRO_IPC_QUEUE_DEPTH blank_msg, jq_head = 0, jq_tail = 0, jq_count = 0\<rparr>,
     je_seq_counter = 0, je_waiting = False, je_wait_deadline = 0\<rparr>"

definition blank_ipc_stats :: jezgro_ipc_stats where
  "blank_ipc_stats = \<lparr>js_messages_sent = 0, js_messages_received = 0, js_replies_sent = 0, js_notifications_sent = 0,
     js_timeouts = 0, js_queue_overflows = 0, js_dead_service_errors = 0\<rparr>"

section \<open>Queues\<close>

definition queue_init :: "jezgro_ipc_queue \<Rightarrow> jezgro_ipc_queue" where
  "queue_init q = q\<lparr>jq_head := 0, jq_tail := 0, jq_count := 0\<rparr>"

definition queue_full :: "jezgro_ipc_queue \<Rightarrow> bool" where
  "queue_full q = (jq_count q \<ge> JEZGRO_IPC_QUEUE_DEPTH)"

definition queue_empty :: "jezgro_ipc_queue \<Rightarrow> bool" where
  "queue_empty q = (jq_count q = 0)"

definition queue_push :: "jezgro_ipc_queue \<Rightarrow> jezgro_ipc_msg \<Rightarrow> jezgro_ipc_error \<times> jezgro_ipc_queue" where
  "queue_push q msg =
     (if queue_full q then (JEZGRO_IPC_ERR_FULL, q)
      else (JEZGRO_IPC_OK, q\<lparr>jq_messages := (jq_messages q)[jq_head q := msg],
             jq_head := (jq_head q + 1) mod JEZGRO_IPC_QUEUE_DEPTH, jq_count := jq_count q + 1\<rparr>))"

definition queue_pop :: "jezgro_ipc_queue \<Rightarrow> jezgro_ipc_msg option \<times> jezgro_ipc_queue" where
  "queue_pop q =
     (if queue_empty q then (None, q)
      else (Some (jq_messages q ! jq_tail q),
            q\<lparr>jq_tail := (jq_tail q + 1) mod JEZGRO_IPC_QUEUE_DEPTH, jq_count := jq_count q - 1\<rparr>))"

section \<open>Endpoints\<close>

definition find_endpoint :: "jezgro_ipc \<Rightarrow> u8 \<Rightarrow> nat option" where
  "find_endpoint ipc ep = find_from (\<lambda>e. je_active e \<and> je_id e = ep) (ji_endpoints ipc) 0 JEZGRO_IPC_MAX_ENDPOINTS"

definition current_endpoint :: "jezgro_ipc \<Rightarrow> nat option" where
  "current_endpoint ipc =
     find_from (\<lambda>e. je_active e \<and> je_owner_service e = ji_current_service ipc) (ji_endpoints ipc) 0 JEZGRO_IPC_MAX_ENDPOINTS"

definition update_endpoint :: "nat \<Rightarrow> (jezgro_ipc_endpoint_state \<Rightarrow> jezgro_ipc_endpoint_state) \<Rightarrow> jezgro_ipc \<Rightarrow> jezgro_ipc" where
  "update_endpoint i f ipc = ipc\<lparr>ji_endpoints := (ji_endpoints ipc)[i := f (ji_endpoints ipc ! i)]\<rparr>"

definition update_stats :: "(jezgro_ipc_stats \<Rightarrow> jezgro_ipc_stats) \<Rightarrow> jezgro_ipc \<Rightarrow> jezgro_ipc" where
  "update_stats f ipc = ipc\<lparr>ji_stats := f (ji_stats ipc)\<rparr>"

definition jezgro_ipc_register_endpoint :: "jezgro_ipc \<Rightarrow> u8 \<Rightarrow> u8 \<Rightarrow> ekk_error \<times> jezgro_ipc" where
  "jezgro_ipc_register_endpoint ipc endpoint service_id =
     (if find_endpoint ipc endpoint \<noteq> None then (EKK_ERR_INVALID_ARG, ipc)
      else
        (case find_from (\<lambda>e. \<not> je_active e) (ji_endpoints ipc) 0 JEZGRO_IPC_MAX_ENDPOINTS of
           None \<Rightarrow> (EKK_ERR_LIMIT, ipc)
         | Some i \<Rightarrow> (EKK_OK, update_endpoint i (\<lambda>ep. ep\<lparr>je_id := endpoint, je_owner_service := service_id,
             je_active := True, je_seq_counter := 0, je_waiting := False, je_rx_queue := queue_init (je_rx_queue ep)\<rparr>) ipc)))"

definition jezgro_ipc_unregister_endpoint :: "jezgro_ipc \<Rightarrow> u8 \<Rightarrow> ekk_error \<times> jezgro_ipc" where
  "jezgro_ipc_unregister_endpoint ipc endpoint =
     (case find_endpoint ipc endpoint of
        None \<Rightarrow> (EKK_ERR_NOT_FOUND, ipc)
      | Some i \<Rightarrow> (EKK_OK, update_endpoint i (\<lambda>ep. ep\<lparr>je_active := False\<rparr>) ipc))"

definition jezgro_ipc_endpoint_exists :: "jezgro_ipc \<Rightarrow> u8 \<Rightarrow> bool" where
  "jezgro_ipc_endpoint_exists ipc endpoint = (find_endpoint ipc endpoint \<noteq> None)"

definition jezgro_ipc_init :: "jezgro_ipc \<Rightarrow> ekk_error \<times> jezgro_ipc" where
  "jezgro_ipc_init ipc =
     (if ji_initialized ipc then (EKK_OK, ipc)
      else
        (let ipc = ipc\<lparr>ji_endpoints := replicate JEZGRO_IPC_MAX_ENDPOINTS blank_endpoint,
               ji_irq_endpoints := replicate 64 JEZGRO_EP_KERNEL, ji_stats := blank_ipc_stats\<rparr>;
             (_, ipc) = jezgro_ipc_register_endpoint ipc JEZGRO_EP_KERNEL 0
         in (EKK_OK, ipc\<lparr>ji_initialized := True\<rparr>)))"

section \<open>Sending\<close>

definition send_unicast ::
  "jezgro_ipc \<Rightarrow> u8 \<Rightarrow> u8 \<Rightarrow> u8 \<Rightarrow> u16 \<Rightarrow> u8 list option \<Rightarrow> u16 \<Rightarrow> jezgro_ipc_error \<times> jezgro_ipc"
where
  "send_unicast ipc src dst type seq payload len =
     (case find_endpoint ipc dst of
        None \<Rightarrow> (JEZGRO_IPC_ERR_DEAD, update_stats (\<lambda>t. t\<lparr>js_dead_service_errors := js_dead_service_errors t + 1\<rparr>) ipc)
      | Some i \<Rightarrow>
          (let copy_len = min (unat len) JEZGRO_IPC_PAYLOAD;
               data = (case payload of Some p \<Rightarrow> take copy_len p | None \<Rightarrow> []);
               msg = \<lparr>mh_src = src, mh_dst = dst, mh_type = type, mh_flags = 0, mh_seq = seq, mh_len = len,
                 mm_payload = data @ replicate (JEZGRO_IPC_PAYLOAD - length data) 0\<rparr>;
               (err, q) = queue_push (je_rx_queue (ji_endpoints ipc ! i)) msg
           in if err \<noteq> JEZGRO_IPC_OK
              then (err, update_stats (\<lambda>t. t\<lparr>js_queue_overflows := js_queue_overflows t + 1\<rparr>) ipc)
              else (JEZGRO_IPC_OK,
                update_stats (\<lambda>t. t\<lparr>js_messages_sent := js_messages_sent t + 1\<rparr>)
                  (update_endpoint i (\<lambda>ep. ep\<lparr>je_rx_queue := q, je_waiting := False\<rparr>) ipc))))"

text \<open>
  A broadcast sends to every other endpoint from slot \<open>i\<close> on. Sending to an endpoint that is
  registered under the broadcast id is a broadcast again, which need not return.
\<close>

partial_function (option) broadcast_from ::
  "jezgro_ipc \<Rightarrow> u8 \<Rightarrow> u8 \<Rightarrow> u16 \<Rightarrow> u8 list option \<Rightarrow> u16 \<Rightarrow> nat \<Rightarrow> jezgro_ipc option"
where
  "broadcast_from ipc src type seq payload len i =
     (if i < JEZGRO_IPC_MAX_ENDPOINTS
      then (let ep = ji_endpoints ipc ! i
            in if je_active ep \<and> je_id ep \<noteq> src
               then (if je_id ep = JEZGRO_EP_BROADCAST
                     then Option.bind (broadcast_from ipc src type seq payload len 0)
                       (\<lambda>ipc. broadcast_from ipc src type seq payload len (Suc i))
                     else broadcast_from (snd (send_unicast ipc src (je_id ep) type seq payload len))
                       src type seq payload len (Suc i))
               else broadcast_from ipc src type seq payload len (Suc i))
      else Some ipc)"

definition internal_send ::
  "jezgro_ipc \<Rightarrow> u8 \<Rightarrow> u8 \<Rightarrow> u8 \<Rightarrow> u16 \<Rightarrow> u8 list option \<Rightarrow> u16 \<Rightarrow> (jezgro_ipc_error \<times> jezgro_ipc) option"
where
  "internal_send ipc src dst type seq payload len =
     (if dst = JEZGRO_EP_BROADCAST
      then map_option (Pair JEZGRO_IPC_OK) (broadcast_from ipc src type seq payload len 0)
      else Some (send_unicast ipc src dst type seq payload len))"

definition next_seq :: "nat \<Rightarrow> jezgro_ipc \<Rightarrow> u16 \<times> jezgro_ipc" where
  "next_seq i ipc =
     (je_seq_counter (ji_endpoints ipc ! i), update_endpoint i (\<lambda>ep. ep\<lparr>je_seq_counter := je_seq_counter ep + 1\<rparr>) ipc)"

definition jezgro_ipc_send ::
  "jezgro_ipc \<Rightarrow> u8 \<Rightarrow> u8 \<Rightarrow> u8 list option \<Rightarrow> u16 \<Rightarrow> (jezgro_ipc_error \<times> jezgro_ipc) option"
where
  "jezgro_ipc_send ipc dst type payload len =
     (case current_endpoint ipc of
        None \<Rightarrow> Some (JEZGRO_IPC_ERR_INVALID, ipc)
      | Some i \<Rightarrow> (case next_seq i ipc of (seq, ipc') \<Rightarrow>
          internal_send ipc' (je_id (ji_endpoints ipc ! i)) dst type seq payload len))"

definition jezgro_ipc_reply ::
  "jezgro_ipc \<Rightarrow> jezgro_ipc_msg \<Rightarrow> u8 list option \<Rightarrow> u16 \<Rightarrow> (jezgro_ipc_error \<times> jezgro_ipc) option"
where
  "jezgro_ipc_reply ipc request payload len =
     (case current_endpoint ipc of
        None \<Rightarrow> Some (JEZGRO_IPC_ERR_INVALID, ipc)
      | Some i \<Rightarrow>
          internal_send (update_stats (\<lambda>t. t\<lparr>js_replies_sent := js_replies_sent t + 1\<rparr>) ipc)
            (je_id (ji_endpoints ipc ! i)) (mh_src request) JEZGRO_IPC_MSG_REPLY (mh_seq request) payload len)"

definition jezgro_ipc_notify ::
  "jezgro_ipc \<Rightarrow> u8 \<Rightarrow> u8 list option \<Rightarrow> u16 \<Rightarrow> (jezgro_ipc_error \<times> jezgro_ipc) option"
where
  "jezgro_ipc_notify ipc dst payload len =
     (let ipc' = update_stats (\<lambda>t. t\<lparr>js_notifications_sent := js_notifications_sent t + 1\<rparr>) ipc
      in case current_endpoint ipc of
           None \<Rightarrow> internal_send ipc' JEZGRO_EP_KERNEL dst JEZGRO_IPC_MSG_NOTIFY 0 payload len
         | Some i \<Rightarrow> (case next_seq i ipc' of (seq, ipc'') \<Rightarrow>
             internal_send ipc'' (je_id (ji_endpoints ipc ! i)) dst JEZGRO_IPC_MSG_NOTIFY seq payload len))"

definition jezgro_ipc_set_notify_callback :: "bool \<Rightarrow> jezgro_ipc \<Rightarrow> jezgro_ipc" where
  "jezgro_ipc_set_notify_callback callback ipc = ipc\<lparr>ji_notify_callback := callback\<rparr>"

text \<open>The packed interrupt data, little-endian.\<close>

definition irq_data :: "u32 \<Rightarrow> u64 \<Rightarrow> u8 list" where
  "irq_data irq_num timestamp =
     map (\<lambda>i. ucast (drop_bit (8 * i) irq_num)) [0..<4] @ map (\<lambda>i. ucast (drop_bit (8 * i) timestamp)) [0..<8]"

definition jezgro_ipc_forward_interrupt :: "jezgro_ipc \<Rightarrow> u32 \<Rightarrow> u64 \<Rightarrow> (jezgro_ipc_error \<times> jezgro_ipc) option" where
  "jezgro_ipc_forward_interrupt ipc irq_num timestamp =
     (if irq_num \<ge> 64 then Some (JEZGRO_IPC_ERR_INVALID, ipc)
      else
        (let dst = ji_irq_endpoints ipc ! unat irq_num
         in if dst = JEZGRO_EP_KERNEL then Some (JEZGRO_IPC_OK, ipc)
            else internal_send ipc JEZGRO_EP_KERNEL dst JEZGRO_IPC_MSG_INTERRUPT 0 (Some (irq_data irq_num timestamp)) 12))"

definition jezgro_ipc_register_irq :: "jezgro_ipc \<Rightarrow> u32 \<Rightarrow> u8 \<Rightarrow> ekk_error \<times> jezgro_ipc" where
  "jezgro_ipc_register_irq ipc irq_num endpoint =
     (if irq_num \<ge> 64 then (EKK_ERR_INVALID_ARG, ipc)
      else if \<not> jezgro_ipc_endpoint_exists ipc endpoint then (EKK_ERR_NOT_FOUND, ipc)
      else (EKK_OK, ipc\<lparr>ji_irq_endpoints := (ji_irq_endpoints ipc)[unat irq_num := endpoint]\<rparr>))"

definition jezgro_ipc_set_current_service :: "u8 \<Rightarrow> jezgro_ipc \<Rightarrow> jezgro_ipc" where
  "jezgro_ipc_set_current_service service_id ipc = ipc\<lparr>ji_current_service := service_id\<rparr>"

definition jezgro_ipc_get_stats :: "jezgro_ipc \<Rightarrow> jezgro_ipc_stats" where
  "jezgro_ipc_get_stats ipc = ji_stats ipc"

definition jezgro_ipc_reset_stats :: "jezgro_ipc \<Rightarrow> jezgro_ipc" where
  "jezgro_ipc_reset_stats ipc = ipc\<lparr>ji_stats := blank_ipc_stats\<rparr>"

section \<open>Receiving\<close>

datatype ipc_output = IpNotified u8 "u8 list" u16

type_synonym ipc_clock = "(u32 \<times> (jezgro_ipc \<Rightarrow> jezgro_ipc)) list"

definition pop_endpoint :: "nat \<Rightarrow> jezgro_ipc \<Rightarrow> jezgro_ipc_msg option \<times> jezgro_ipc" where
  "pop_endpoint i ipc =
     (case queue_pop (je_rx_queue (ji_endpoints ipc ! i)) of
        (None, q) \<Rightarrow> (None, ipc)
      | (Some msg, q) \<Rightarrow> (Some msg,
          update_stats (\<lambda>t. t\<lparr>js_messages_received := js_messages_received t + 1\<rparr>)
            (update_endpoint i (\<lambda>ep. ep\<lparr>je_rx_queue := q\<rparr>) ipc)))"

definition jezgro_ipc_recv_nonblock :: "jezgro_ipc \<Rightarrow> jezgro_ipc_error \<times> jezgro_ipc_msg option \<times> jezgro_ipc" where
  "jezgro_ipc_recv_nonblock ipc =
     (case current_endpoint ipc of
        None \<Rightarrow> (JEZGRO_IPC_ERR_INVALID, None, ipc)
      | Some i \<Rightarrow>
          (case pop_endpoint i ipc of
             (None, ipc) \<Rightarrow> (JEZGRO_IPC_ERR_EMPTY, None, ipc)
           | (Some msg, ipc) \<Rightarrow> (JEZGRO_IPC_OK, Some msg, ipc)))"

definition notified :: "jezgro_ipc \<Rightarrow> jezgro_ipc_msg \<Rightarrow> ipc_output list" where
  "notified ipc msg =
     (if mh_type msg = JEZGRO_IPC_MSG_NOTIFY \<and> ji_notify_callback ipc
      then [IpNotified (mh_src msg) (mm_payload msg) (mh_len msg)] else [])"

fun recv_loop ::
  "nat \<Rightarrow> u32 \<Rightarrow> u32 \<Rightarrow> jezgro_ipc \<Rightarrow> ipc_clock
   \<Rightarrow> (jezgro_ipc_error \<times> jezgro_ipc_msg option \<times> jezgro_ipc \<times> ipc_output list \<times> ipc_clock) option"
where
  "recv_loop i timeout_ms deadline ipc [] =
     (case pop_endpoint i ipc of
        (Some msg, ipc) \<Rightarrow> Some (JEZGRO_IPC_OK, Some msg, ipc, notified ipc msg, [])
      | (None, ipc) \<Rightarrow> None)"
| "recv_loop i timeout_ms deadline ipc ((now, others) # clock) =
     (case pop_endpoint i ipc of
        (Some msg, ipc) \<Rightarrow> Some (JEZGRO_IPC_OK, Some msg, ipc, notified ipc msg, (now, others) # clock)
      | (None, ipc) \<Rightarrow>
          if timeout_ms \<noteq> JEZGRO_IPC_WAIT_FOREVER \<and> now \<ge> deadline
          then Some (JEZGRO_IPC_ERR_TIMEOUT, None,
            others (update_stats (\<lambda>t. t\<lparr>js_timeouts := js_timeouts t + 1\<rparr>) ipc), [], clock)
          else recv_loop i timeout_ms deadline
            (others (update_endpoint i (\<lambda>ep. ep\<lparr>je_waiting := True, je_wait_deadline := deadline\<rparr>) ipc)) clock)"

definition ipc_deadline :: "u32 \<Rightarrow> u32 \<Rightarrow> u32" where
  "ipc_deadline start_time timeout_ms = (if timeout_ms = JEZGRO_IPC_WAIT_FOREVER then 0xFFFFFFFF else start_time + timeout_ms)"

definition jezgro_ipc_recv ::
  "jezgro_ipc \<Rightarrow> u32 \<Rightarrow> ipc_clock
   \<Rightarrow> (jezgro_ipc_error \<times> jezgro_ipc_msg option \<times> jezgro_ipc \<times> ipc_output list \<times> ipc_clock) option"
where
  "jezgro_ipc_recv ipc timeout_ms clock =
     (case current_endpoint ipc of
        None \<Rightarrow> Some (JEZGRO_IPC_ERR_INVALID, None, ipc, [], clock)
      | Some i \<Rightarrow>
          (case clock of
             [] \<Rightarrow> None
           | (start_time, others) # clock \<Rightarrow>
               recv_loop i timeout_ms (ipc_deadline start_time timeout_ms) (others ipc) clock))"

text \<open>
  Waiting for the reply: what is received and is not the reply is dropped. \<open>fuel\<close> bounds the
  iterations; each but the last reads the clock, so one more than the number of readings is
  enough.
\<close>

primrec call_loop ::
  "nat \<Rightarrow> u8 \<Rightarrow> u16 \<Rightarrow> u32 \<Rightarrow> u32 \<Rightarrow> jezgro_ipc \<Rightarrow> ipc_clock
   \<Rightarrow> (jezgro_ipc_error \<times> jezgro_ipc_msg option \<times> jezgro_ipc \<times> ipc_output list \<times> ipc_clock) option"
where
  "call_loop 0 dst seq timeout_ms deadline ipc clock = None"
| "call_loop (Suc fuel) dst seq timeout_ms deadline ipc clock =
     (case jezgro_ipc_recv ipc timeout_ms clock of
        None \<Rightarrow> None
      | Some (err, msg, ipc, outs, clock) \<Rightarrow>
          if err = JEZGRO_IPC_ERR_TIMEOUT then Some (err, None, ipc, outs, clock)
          else if err = JEZGRO_IPC_OK \<and> mh_type (the msg) = JEZGRO_IPC_MSG_REPLY \<and> mh_src (the msg) = dst \<and> mh_seq (the msg) = seq
          then Some (JEZGRO_IPC_OK, msg, ipc, outs, clock)
          else
            (case clock of
               [] \<Rightarrow> None
             | (now, others) # clock \<Rightarrow>
                 if timeout_ms \<noteq> JEZGRO_IPC_WAIT_FOREVER \<and> now \<ge> deadline
                 then Some (JEZGRO_IPC_ERR_TIMEOUT, None,
                   others (update_stats (\<lambda>t. t\<lparr>js_timeouts := js_timeouts t + 1\<rparr>) ipc), outs, clock)
                 else map_option (\<lambda>(err, msg, ipc, outs', clock). (err, msg, ipc, outs @ outs', clock))
                   (call_loop fuel dst seq (deadline - now) deadline (others ipc) clock)))"

text \<open>The reply is copied up to the room given; its length is returned uncut.\<close>

definition jezgro_ipc_call ::
  "jezgro_ipc \<Rightarrow> u8 \<Rightarrow> u8 list option \<Rightarrow> u16 \<Rightarrow> u16 \<Rightarrow> u32 \<Rightarrow> ipc_clock
   \<Rightarrow> (jezgro_ipc_error \<times> (u8 list \<times> u16) option \<times> jezgro_ipc \<times> ipc_output list \<times> ipc_clock) option"
where
  "jezgro_ipc_call ipc dst request request_len reply_room timeout_ms clock =
     (case current_endpoint ipc of
        None \<Rightarrow> Some (JEZGRO_IPC_ERR_INVALID, None, ipc, [], clock)
      | Some i \<Rightarrow>
          (case next_seq i ipc of (seq, ipc') \<Rightarrow>
             (case internal_send ipc' (je_id (ji_endpoints ipc ! i)) dst JEZGRO_IPC_MSG_REQUEST seq request request_len of
                None \<Rightarrow> None
              | Some (err, ipc'') \<Rightarrow>
                  if err \<noteq> JEZGRO_IPC_OK then Some (err, None, ipc'', [], clock)
                  else
                    (case clock of
                       [] \<Rightarrow> None
                     | (start_time, others) # clock \<Rightarrow>
                         map_option (\<lambda>(err, msg, ipc, outs, clock). (err,
                             map_option (\<lambda>m. (take (min (unat (mh_len m)) (unat reply_room)) (mm_payload m), mh_len m)) msg,
                             ipc, outs, clock))
                           (call_loop (Suc (length clock)) dst seq timeout_ms (ipc_deadline start_time timeout_ms)
                             (others ipc'') clock)))))"

section \<open>The rings are bounded queues\<close>

definition jq_inv :: "jezgro_ipc_queue \<Rightarrow> bool" where
  "jq_inv q \<longleftrightarrow> length (jq_messages q) = 16 \<and> jq_tail q < 16 \<and> jq_count q \<le> 16 \<and> jq_head q = (jq_tail q + jq_count q) mod 16"

definition jq_items :: "jezgro_ipc_queue \<Rightarrow> jezgro_ipc_msg list" where
  "jq_items q = map (\<lambda>k. jq_messages q ! ((jq_tail q + k) mod 16)) [0..<jq_count q]"

definition jq_try_push :: "jezgro_ipc_queue \<Rightarrow> jezgro_ipc_msg \<Rightarrow> jezgro_ipc_queue option" where
  "jq_try_push q msg = (case queue_push q msg of (err, q') \<Rightarrow> if err = JEZGRO_IPC_OK then Some q' else None)"

definition jq_try_pop :: "jezgro_ipc_queue \<Rightarrow> (jezgro_ipc_msg \<times> jezgro_ipc_queue) option" where
  "jq_try_pop q = (case queue_pop q of (Some msg, q') \<Rightarrow> Some (msg, q') | (None, q') \<Rightarrow> None)"

lemma length_jq_items [simp]: "length (jq_items q) = jq_count q"
  by (simp add: jq_items_def)

lemma jq_push_spec:
  assumes "jq_inv q" "jq_count q < 16"
  shows "\<exists>q'. jq_try_push q x = Some q' \<and> jq_inv q' \<and> jq_items q' = jq_items q @ [x]"
proof -
  let ?q = "q\<lparr>jq_messages := (jq_messages q)[jq_head q := x], jq_head := (jq_head q + 1) mod 16, jq_count := jq_count q + 1\<rparr>"
  have push: "jq_try_push q x = Some ?q"
    using assms(2) by (simp add: jq_try_push_def queue_push_def queue_full_def)
  have inv: "length (jq_messages q) = 16" "jq_tail q < 16" "jq_head q = (jq_tail q + jq_count q) mod 16"
    using assms(1) by (simp_all add: jq_inv_def)
  have "jq_head q \<noteq> (jq_tail q + k) mod 16" if "k < jq_count q" for k
  proof
    assume "jq_head q = (jq_tail q + k) mod 16"
    then have "16 dvd (jq_tail q + jq_count q) - (jq_tail q + k)"
      using that inv(3) mod_eq_dvd_iff_nat [of "jq_tail q + k" "jq_tail q + jq_count q" 16] by simp
    with that assms(2) nat_dvd_not_less [of "jq_count q - k" 16] show False by simp
  qed
  then have "jq_items ?q = jq_items q @ [x]"
    using inv by (simp add: jq_items_def)
  moreover have "jq_inv ?q" using assms inv by (simp add: jq_inv_def mod_simps)
  ultimately show ?thesis using push by blast
qed

lemma jq_pop_spec:
  assumes "jq_inv q" "jq_items q = y # ys"
  shows "\<exists>q'. jq_try_pop q = Some (y, q') \<and> jq_inv q' \<and> jq_items q' = ys"
proof -
  from assms(2) have n: "0 < jq_count q" by (metis length_jq_items length_greater_0_conv list.discI)
  let ?q = "q\<lparr>jq_tail := (jq_tail q + 1) mod 16, jq_count := jq_count q - 1\<rparr>"
  have split: "[0..<jq_count q] = 0 # map Suc [0..<jq_count q - 1]" using n by (simp add: map_Suc_upt upt_conv_Cons)
  have inv: "length (jq_messages q) = 16" "jq_tail q < 16" "jq_head q = (jq_tail q + jq_count q) mod 16"
    using assms(1) by (simp_all add: jq_inv_def)
  have "jq_items q = jq_messages q ! jq_tail q # jq_items ?q"
    using inv(2) unfolding jq_items_def split by (simp add: comp_def mod_simps)
  with assms(2) have "y = jq_messages q ! jq_tail q" "jq_items ?q = ys" by simp_all
  moreover have "(jq_tail q + jq_count q) mod 16 = ((jq_tail q + 1) mod 16 + (jq_count q - 1)) mod 16"
    using n by (cases "jq_count q") (simp_all add: mod_simps)
  with assms(1) inv have "jq_inv ?q" by (simp add: jq_inv_def)
  moreover have "jq_try_pop q = Some (jq_messages q ! jq_tail q, ?q)"
    using n by (simp add: jq_try_pop_def queue_pop_def queue_empty_def)
  ultimately show ?thesis by blast
qed

interpretation jq: bounded_queue jq_try_push jq_try_pop jq_items "\<lambda>_. 16" jq_inv "\<lambda>_ _. True"
proof unfold_locales
  fix q x assume inv: "jq_inv q"
  show "length (jq_items q) \<le> 16" using inv by (simp add: jq_inv_def)
  show "jq_try_push q x = None" if "length (jq_items q) = 16"
    using that by (simp add: jq_try_push_def queue_push_def queue_full_def)
  show "\<exists>q'. jq_try_push q x = Some q' \<and> jq_inv q' \<and> jq_items q' = jq_items q @ [x] \<and> 16 = (16 :: nat) \<and> (\<lambda>_. True) = (\<lambda>_. True)"
    if "length (jq_items q) < 16"
    using jq_push_spec [OF inv] that by simp
next
  fix q assume inv: "jq_inv q"
  show "jq_try_pop q = None" if "jq_items q = []"
    using that by (simp add: jq_try_pop_def queue_pop_def queue_empty_def jq_items_def)
  show "\<exists>q'. jq_try_pop q = Some (y, q') \<and> jq_inv q' \<and> jq_items q' = ys \<and> 16 = (16 :: nat) \<and> (\<lambda>_. True) = (\<lambda>_. True)"
    if "jq_items q = y # ys" for y ys
    using jq_pop_spec [OF inv that] by simp
qed

section \<open>Mailboxes\<close>

text \<open>
  What the kernel promises: a mailbox of at most 16 messages per registered endpoint. Sending
  appends to one mailbox or, for a broadcast, to all others that have room; receiving takes the
  first message.
\<close>

datatype ipc_op = IpSend u8 u8 u8 u16 "u8 list option" u16 | IpReceive u8

datatype ipc_result = IpSent jezgro_ipc_error | IpGot jezgro_ipc_error "jezgro_ipc_msg option"

type_synonym mailboxes = "u8 \<Rightarrow> jezgro_ipc_msg list option"

definition ipc_message :: "u8 \<Rightarrow> u8 \<Rightarrow> u8 \<Rightarrow> u16 \<Rightarrow> u8 list option \<Rightarrow> u16 \<Rightarrow> jezgro_ipc_msg" where
  "ipc_message src dst type seq payload len =
     (let data = (case payload of Some p \<Rightarrow> take (min (unat len) JEZGRO_IPC_PAYLOAD) p | None \<Rightarrow> [])
      in \<lparr>mh_src = src, mh_dst = dst, mh_type = type, mh_flags = 0, mh_seq = seq, mh_len = len,
           mm_payload = data @ replicate (JEZGRO_IPC_PAYLOAD - length data) 0\<rparr>)"

definition box_put :: "jezgro_ipc_msg list \<Rightarrow> jezgro_ipc_msg \<Rightarrow> jezgro_ipc_msg list" where
  "box_put box msg = (if length box < 16 then box @ [msg] else box)"

definition spec_step :: "(u8 \<Rightarrow> u8 option) \<Rightarrow> mailboxes \<Rightarrow> ipc_op \<Rightarrow> ipc_result \<times> mailboxes" where
  "spec_step endpoint_of boxes op =
     (case op of
        IpSend src dst type seq payload len \<Rightarrow>
          if dst = JEZGRO_EP_BROADCAST
          then (IpSent JEZGRO_IPC_OK,
            \<lambda>k. map_option (\<lambda>box. if k = src then box else box_put box (ipc_message src k type seq payload len)) (boxes k))
          else
            (case boxes dst of
               None \<Rightarrow> (IpSent JEZGRO_IPC_ERR_DEAD, boxes)
             | Some box \<Rightarrow> (IpSent (if length box < 16 then JEZGRO_IPC_OK else JEZGRO_IPC_ERR_FULL),
                 boxes(dst \<mapsto> box_put box (ipc_message src dst type seq payload len))))
      | IpReceive service \<Rightarrow>
          (case endpoint_of service of
             None \<Rightarrow> (IpGot JEZGRO_IPC_ERR_INVALID None, boxes)
           | Some k \<Rightarrow>
               (case boxes k of
                  Some (msg # box) \<Rightarrow> (IpGot JEZGRO_IPC_OK (Some msg), boxes(k \<mapsto> box))
                | _ \<Rightarrow> (IpGot JEZGRO_IPC_ERR_EMPTY None, boxes))))"

primrec spec_run :: "(u8 \<Rightarrow> u8 option) \<Rightarrow> mailboxes \<Rightarrow> ipc_op list \<Rightarrow> ipc_result list \<times> mailboxes" where
  "spec_run endpoint_of boxes [] = ([], boxes)"
| "spec_run endpoint_of boxes (op # ops) =
     (case spec_step endpoint_of boxes op of
        (r, boxes') \<Rightarrow> (case spec_run endpoint_of boxes' ops of (rs, boxes'') \<Rightarrow> (r # rs, boxes'')))"

definition ipc_step :: "jezgro_ipc \<Rightarrow> ipc_op \<Rightarrow> (ipc_result \<times> jezgro_ipc) option" where
  "ipc_step ipc op =
     (case op of
        IpSend src dst type seq payload len \<Rightarrow>
          map_option (\<lambda>(err, ipc). (IpSent err, ipc)) (internal_send ipc src dst type seq payload len)
      | IpReceive service \<Rightarrow>
          (case jezgro_ipc_recv_nonblock (jezgro_ipc_set_current_service service ipc) of
             (err, msg, ipc) \<Rightarrow> Some (IpGot err msg, ipc)))"

primrec ipc_run :: "jezgro_ipc \<Rightarrow> ipc_op list \<Rightarrow> (ipc_result list \<times> jezgro_ipc) option" where
  "ipc_run ipc [] = Some ([], ipc)"
| "ipc_run ipc (op # ops) =
     (case ipc_step ipc op of
        None \<Rightarrow> None
      | Some (r, ipc') \<Rightarrow> map_option (\<lambda>(rs, ipc''). (r # rs, ipc'')) (ipc_run ipc' ops))"

section \<open>The abstraction\<close>

definition ipc_boxes :: "jezgro_ipc \<Rightarrow> mailboxes" where
  "ipc_boxes ipc k = map_option (\<lambda>i. jq_items (je_rx_queue (ji_endpoints ipc ! i))) (find_endpoint ipc k)"

definition ipc_endpoint_of :: "jezgro_ipc \<Rightarrow> u8 \<Rightarrow> u8 option" where
  "ipc_endpoint_of ipc service =
     map_option (\<lambda>i. je_id (ji_endpoints ipc ! i)) (current_endpoint (jezgro_ipc_set_current_service service ipc))"

definition ipc_inv :: "jezgro_ipc \<Rightarrow> bool" where
  "ipc_inv ipc \<longleftrightarrow> length (ji_endpoints ipc) = 16 \<and>
     (\<forall>i < 16. jq_inv (je_rx_queue (ji_endpoints ipc ! i))) \<and>
     (\<forall>i < 16. \<forall>j < 16. je_active (ji_endpoints ipc ! i) \<and> je_active (ji_endpoints ipc ! j) \<and>
        je_id (ji_endpoints ipc ! i) = je_id (ji_endpoints ipc ! j) \<longrightarrow> i = j)"

text \<open>The registration part of the table, which sending and receiving leave alone.\<close>

definition ipc_table :: "jezgro_ipc \<Rightarrow> (u8 \<times> u8 \<times> bool) list" where
  "ipc_table ipc = map (\<lambda>e. (je_id e, je_owner_service e, je_active e)) (ji_endpoints ipc)"

lemma ipc_table_nth:
  assumes "ipc_table a = ipc_table b" "i < 16" "length (ji_endpoints a) = 16"
  shows "je_id (ji_endpoints a ! i) = je_id (ji_endpoints b ! i)" "je_active (ji_endpoints a ! i) = je_active (ji_endpoints b ! i)"
    "je_owner_service (ji_endpoints a ! i) = je_owner_service (ji_endpoints b ! i)"
proof -
  have "length (ji_endpoints b) = 16" using arg_cong [OF assms(1), of length] assms(3) by (simp add: ipc_table_def)
  moreover have "ipc_table a ! i = ipc_table b ! i" by (simp add: assms(1))
  ultimately show "je_id (ji_endpoints a ! i) = je_id (ji_endpoints b ! i)" "je_active (ji_endpoints a ! i) = je_active (ji_endpoints b ! i)"
    "je_owner_service (ji_endpoints a ! i) = je_owner_service (ji_endpoints b ! i)"
    using assms(2,3) by (simp_all add: ipc_table_def)
qed

lemma ipc_table_find:
  assumes "ipc_table a = ipc_table b" "length (ji_endpoints a) = 16"
  shows "find_endpoint a = find_endpoint b" "ipc_endpoint_of a = ipc_endpoint_of b"
proof -
  note nth = ipc_table_nth [OF assms(1) _ assms(2)]
  show "find_endpoint a = find_endpoint b"
    unfolding find_endpoint_def fun_eq_iff by (auto intro!: find_from_cong simp: nth)
  show "ipc_endpoint_of a = ipc_endpoint_of b"
  proof
    fix s
    have "current_endpoint (jezgro_ipc_set_current_service s a) = current_endpoint (jezgro_ipc_set_current_service s b)"
      unfolding current_endpoint_def jezgro_ipc_set_current_service_def by (auto intro!: find_from_cong simp: nth)
    then show "ipc_endpoint_of a s = ipc_endpoint_of b s"
      by (cases "current_endpoint (jezgro_ipc_set_current_service s b)")
        (auto simp: ipc_endpoint_of_def jezgro_ipc_set_current_service_def current_endpoint_def nth
          dest!: find_from_Some_less)
  qed
qed

lemma find_endpoint_Some: "find_endpoint ipc k = Some i \<Longrightarrow> i < 16 \<and> je_active (ji_endpoints ipc ! i) \<and> je_id (ji_endpoints ipc ! i) = k"
  unfolding find_endpoint_def by (auto dest: find_from_SomeD)

lemma ipc_inv_unique:
  "ipc_inv ipc \<Longrightarrow> i < 16 \<Longrightarrow> j < 16 \<Longrightarrow> je_active (ji_endpoints ipc ! i) \<Longrightarrow> je_active (ji_endpoints ipc ! j) \<Longrightarrow>
   je_id (ji_endpoints ipc ! i) = je_id (ji_endpoints ipc ! j) \<Longrightarrow> i = j"
  unfolding ipc_inv_def by blast

lemma find_endpoint_active:
  assumes "ipc_inv ipc" "i < 16" "je_active (ji_endpoints ipc ! i)"
  shows "find_endpoint ipc (je_id (ji_endpoints ipc ! i)) = Some i"
  unfolding find_endpoint_def
proof (rule find_from_unique)
  fix k assume "k < i"
  with ipc_inv_unique [OF assms(1), of k i] assms(2,3)
  show "\<not> (je_active (ji_endpoints ipc ! k) \<and> je_id (ji_endpoints ipc ! k) = je_id (ji_endpoints ipc ! i))" by auto
qed (use assms in simp_all)

text \<open>Replacing one ring by another well-formed one changes one mailbox.\<close>

lemma ipc_replace_queue:
  assumes "ipc_inv ipc" "find_endpoint ipc k = Some i" "jq_inv q"
    and "\<And>ep. f ep = ep\<lparr>je_rx_queue := q, je_waiting := w ep\<rparr>" and "ipc' = update_stats g (update_endpoint i f ipc)"
  shows "ipc_inv ipc'" "ipc_table ipc' = ipc_table ipc" "ipc_boxes ipc' = (ipc_boxes ipc)(k \<mapsto> jq_items q)"
proof -
  have i: "i < 16" "je_active (ji_endpoints ipc ! i)" "je_id (ji_endpoints ipc ! i) = k"
    using find_endpoint_Some [OF assms(2)] by simp_all
  have len: "length (ji_endpoints ipc) = 16" using assms(1) by (simp add: ipc_inv_def)
  show tab: "ipc_table ipc' = ipc_table ipc"
    using i(1) len by (simp add: assms(5) ipc_table_def update_stats_def update_endpoint_def map_update assms(4))
      (metis (no_types, lifting) length_map list_update_id nth_map)
  have eps: "ji_endpoints ipc' = (ji_endpoints ipc)[i := f (ji_endpoints ipc ! i)]"
    by (simp add: assms(5) update_stats_def update_endpoint_def)
  show "ipc_inv ipc'"
    using assms(1,3) i len ipc_table_nth [OF tab] by (simp add: ipc_inv_def eps assms(4) nth_list_update)
  have find: "find_endpoint ipc' = find_endpoint ipc"
    by (rule ipc_table_find(1) [OF tab]) (simp add: eps len)
  show "ipc_boxes ipc' = (ipc_boxes ipc)(k \<mapsto> jq_items q)"
  proof
    fix j
    show "ipc_boxes ipc' j = ((ipc_boxes ipc)(k \<mapsto> jq_items q)) j"
    proof (cases "find_endpoint ipc j")
      case None
      with assms(2) show ?thesis by (auto simp: ipc_boxes_def find)
    next
      case (Some m)
      with find_endpoint_Some [OF Some] i assms(2) len show ?thesis
        by (cases "m = i") (auto simp: ipc_boxes_def find eps assms(4) nth_list_update)
    qed
  qed
qed

lemma ipc_stats_only:
  "ipc_inv (update_stats g ipc) = ipc_inv ipc" "ipc_table (update_stats g ipc) = ipc_table ipc"
  "ipc_boxes (update_stats g ipc) = ipc_boxes ipc" "find_endpoint (update_stats g ipc) = find_endpoint ipc"
  by (simp_all add: update_stats_def ipc_inv_def ipc_table_def ipc_boxes_def find_endpoint_def fun_eq_iff)

lemma send_unicast_refines:
  assumes "ipc_inv ipc" "send_unicast ipc src dst type seq payload len = (err, ipc')"
  shows "ipc_inv ipc'" "ipc_table ipc' = ipc_table ipc"
    "(IpSent err, ipc_boxes ipc') =
       (case ipc_boxes ipc dst of
          None \<Rightarrow> (IpSent JEZGRO_IPC_ERR_DEAD, ipc_boxes ipc)
        | Some box \<Rightarrow> (IpSent (if length box < 16 then JEZGRO_IPC_OK else JEZGRO_IPC_ERR_FULL),
            (ipc_boxes ipc)(dst \<mapsto> box_put box (ipc_message src dst type seq payload len))))"
proof -
  have "ipc_inv ipc' \<and> ipc_table ipc' = ipc_table ipc \<and> (IpSent err, ipc_boxes ipc') =
       (case ipc_boxes ipc dst of
          None \<Rightarrow> (IpSent JEZGRO_IPC_ERR_DEAD, ipc_boxes ipc)
        | Some box \<Rightarrow> (IpSent (if length box < 16 then JEZGRO_IPC_OK else JEZGRO_IPC_ERR_FULL),
            (ipc_boxes ipc)(dst \<mapsto> box_put box (ipc_message src dst type seq payload len))))"
  proof (cases "find_endpoint ipc dst")
    case None
    with assms show ?thesis by (auto simp: send_unicast_def ipc_stats_only ipc_boxes_def)
  next
    case (Some i)
    let ?q = "je_rx_queue (ji_endpoints ipc ! i)"
    let ?m = "ipc_message src dst type seq payload len"
    have q: "jq_inv ?q" using assms(1) find_endpoint_Some [OF Some] by (simp add: ipc_inv_def)
    have box: "ipc_boxes ipc dst = Some (jq_items ?q)" using Some by (simp add: ipc_boxes_def)
    show ?thesis
    proof (cases "length (jq_items ?q) < 16")
      case True
      from jq.push_room [OF q _ this, of ?m] obtain q' where
        q': "jq_try_push ?q ?m = Some q'" "jq_inv q'" "jq_items q' = jq_items ?q @ [?m]" by auto
      then have push: "queue_push ?q ?m = (JEZGRO_IPC_OK, q')"
        by (auto simp: jq_try_push_def split: prod.splits if_splits)
      have ipc': "err = JEZGRO_IPC_OK" "ipc' = update_stats (\<lambda>t. t\<lparr>js_messages_sent := js_messages_sent t + 1\<rparr>)
          (update_endpoint i (\<lambda>ep. ep\<lparr>je_rx_queue := q', je_waiting := False\<rparr>) ipc)"
        using assms(2) Some push by (simp_all add: send_unicast_def ipc_message_def Let_def)
      from ipc_replace_queue [OF assms(1) Some q'(2) _ this(2)] True show ?thesis
        by (simp add: box box_put_def q'(3) ipc'(1))
    next
      case False
      with q have "length (jq_items ?q) = 16" using jq.items_bound [OF q] by simp
      then have push: "queue_push ?q m = (JEZGRO_IPC_ERR_FULL, ?q)" for m by (simp add: queue_push_def queue_full_def)
      with assms(2) Some have "err = JEZGRO_IPC_ERR_FULL" "ipc' = update_stats (\<lambda>t. t\<lparr>js_queue_overflows := js_queue_overflows t + 1\<rparr>) ipc"
        by (simp_all add: send_unicast_def Let_def)
      with False assms(1) box show ?thesis by (simp add: ipc_stats_only box_put_def fun_upd_idem)
    qed
  qed
  then show "ipc_inv ipc'" "ipc_table ipc' = ipc_table ipc"
    "(IpSent err, ipc_boxes ipc') =
       (case ipc_boxes ipc dst of
          None \<Rightarrow> (IpSent JEZGRO_IPC_ERR_DEAD, ipc_boxes ipc)
        | Some box \<Rightarrow> (IpSent (if length box < 16 then JEZGRO_IPC_OK else JEZGRO_IPC_ERR_FULL),
            (ipc_boxes ipc)(dst \<mapsto> box_put box (ipc_message src dst type seq payload len))))" by blast+
qed

text \<open>The endpoints that a broadcast from slot \<open>i\<close> on still has to serve.\<close>

definition slots_from :: "jezgro_ipc \<Rightarrow> nat \<Rightarrow> u8 \<Rightarrow> bool" where
  "slots_from ipc i k \<longleftrightarrow> (\<exists>j. i \<le> j \<and> j < 16 \<and> je_active (ji_endpoints ipc ! j) \<and> je_id (ji_endpoints ipc ! j) = k)"

lemma slots_from_step:
  assumes "i < 16"
  shows "slots_from ipc i k \<longleftrightarrow> je_active (ji_endpoints ipc ! i) \<and> je_id (ji_endpoints ipc ! i) = k \<or> slots_from ipc (Suc i) k"
  unfolding slots_from_def using assms by (metis Suc_leD Suc_leI le_neq_implies_less order_refl)

lemma slots_from_table:
  assumes "ipc_table a = ipc_table b" "length (ji_endpoints a) = 16"
  shows "slots_from a i k = slots_from b i k"
  unfolding slots_from_def using ipc_table_nth [OF assms(1) _ assms(2)] by auto

lemma slots_from_unique:
  assumes "ipc_inv ipc" "i < 16" "je_active (ji_endpoints ipc ! i)"
  shows "\<not> slots_from ipc (Suc i) (je_id (ji_endpoints ipc ! i))"
  using ipc_inv_unique [OF assms(1,2)] assms(3) unfolding slots_from_def by (metis Suc_n_not_le_n)

lemma slots_from_find: "slots_from ipc 0 k \<longleftrightarrow> find_endpoint ipc k \<noteq> None"
  unfolding slots_from_def find_endpoint_def find_from_None by auto

lemma broadcast_refines:
  assumes "ipc_inv ipc" "\<not> slots_from ipc 0 0xFF" "i \<le> 16"
  shows "\<exists>ipc'. broadcast_from ipc src type seq payload len i = Some ipc' \<and> ipc_inv ipc' \<and> ipc_table ipc' = ipc_table ipc \<and>
     ipc_boxes ipc' = (\<lambda>k. map_option (\<lambda>box. if k \<noteq> src \<and> slots_from ipc i k
        then box_put box (ipc_message src k type seq payload len) else box) (ipc_boxes ipc k))"
  using assms
proof (induction "16 - i" arbitrary: i ipc)
  case 0
  then have "i = 16" by simp
  moreover have "\<not> slots_from ipc 16 k" for k by (simp add: slots_from_def)
  ultimately show ?case using 0 by (subst broadcast_from.simps) (simp add: option.map_id0 [unfolded id_def])
next
  case (Suc n)
  then have i: "i < 16" and n: "n = 16 - Suc i" by simp_all
  let ?ep = "ji_endpoints ipc ! i"
  note from_i = slots_from_step [OF i, of ipc]
  have len: "length (ji_endpoints ipc) = 16" using Suc.prems(1) by (simp add: ipc_inv_def)
  show ?case
  proof (cases "je_active ?ep \<and> je_id ?ep \<noteq> src")
    case False
    from Suc.hyps(1) [OF n, of ipc] Suc.prems i obtain ipc' where ih:
      "broadcast_from ipc src type seq payload len (Suc i) = Some ipc'" "ipc_inv ipc'" "ipc_table ipc' = ipc_table ipc"
      "ipc_boxes ipc' = (\<lambda>k. map_option (\<lambda>box. if k \<noteq> src \<and> slots_from ipc (Suc i) k
        then box_put box (ipc_message src k type seq payload len) else box) (ipc_boxes ipc k))" by auto
    have "k \<noteq> src \<and> slots_from ipc i k \<longleftrightarrow> k \<noteq> src \<and> slots_from ipc (Suc i) k" for k using False from_i by auto
    moreover have "broadcast_from ipc src type seq payload len i = broadcast_from ipc src type seq payload len (Suc i)"
      using False i by (subst broadcast_from.simps) (auto simp: Let_def)
    ultimately show ?thesis using ih by simp
  next
    case True
    have "slots_from ipc 0 (je_id ?ep)" using True i by (auto simp: slots_from_def)
    then have nb: "je_id ?ep \<noteq> 0xFF" using Suc.prems(2) by auto
    obtain err ipc1 where u: "send_unicast ipc src (je_id ?ep) type seq payload len = (err, ipc1)" by fastforce
    note u' = send_unicast_refines [OF Suc.prems(1) u]
    have len1: "length (ji_endpoints ipc1) = 16" using u'(1) by (simp add: ipc_inv_def)
    note sl = slots_from_table [OF u'(2) len1]
    from Suc.hyps(1) [OF n, of ipc1] Suc.prems i u'(1) sl obtain ipc' where ih:
      "broadcast_from ipc1 src type seq payload len (Suc i) = Some ipc'" "ipc_inv ipc'" "ipc_table ipc' = ipc_table ipc1"
      "ipc_boxes ipc' = (\<lambda>k. map_option (\<lambda>box. if k \<noteq> src \<and> slots_from ipc (Suc i) k
        then box_put box (ipc_message src k type seq payload len) else box) (ipc_boxes ipc1 k))" by auto
    have fnd: "find_endpoint ipc (je_id ?ep) = Some i" using find_endpoint_active [OF Suc.prems(1) i] True by simp
    then obtain box where box: "ipc_boxes ipc (je_id ?ep) = Some box" by (simp add: ipc_boxes_def)
    have boxes1: "ipc_boxes ipc1 = (ipc_boxes ipc)(je_id ?ep \<mapsto> box_put box (ipc_message src (je_id ?ep) type seq payload len))"
      using u'(3) box by simp
    have "ipc_boxes ipc' = (\<lambda>k. map_option (\<lambda>box. if k \<noteq> src \<and> slots_from ipc i k
        then box_put box (ipc_message src k type seq payload len) else box) (ipc_boxes ipc k))"
      using slots_from_unique [OF Suc.prems(1) i] True from_i box
      by (auto simp: ih(4) boxes1 fun_eq_iff)
    with ih(1-3) u u'(2) True nb i show ?thesis by (subst broadcast_from.simps) (simp add: Let_def)
  qed
qed

lemma send_unicast_table: "ipc_table (snd (send_unicast ipc src dst type seq payload len)) = ipc_table ipc"
proof -
  have same: "(map f xs)[i := f (xs ! i)] = map f xs" for f :: "jezgro_ipc_endpoint_state \<Rightarrow> u8 \<times> u8 \<times> bool" and i xs
    by (metis list_update_id map_update)
  show ?thesis
    using same [of "\<lambda>e. (je_id e, je_owner_service e, je_active e)" "ji_endpoints ipc"]
    by (simp add: send_unicast_def Let_def update_stats_def update_endpoint_def ipc_table_def map_update
        split: option.split prod.split)
qed

lemma broadcast_diverges_on:
  assumes "length (ji_endpoints ipc) = 16" "src \<noteq> 0xFF" "broadcast_from ipc src type seq payload len i = Some ipc'"
  shows "\<not> slots_from ipc i 0xFF"
proof -
  have "broadcast_from ipc src type seq payload len i = Some ipc' \<Longrightarrow>
    length (ji_endpoints ipc) = 16 \<longrightarrow> src \<noteq> 0xFF \<longrightarrow> \<not> slots_from ipc i 0xFF"
  proof (erule broadcast_from.raw_induct [where P = "\<lambda>ipc src type seq payload len i ipc'.
        length (ji_endpoints ipc) = 16 \<longrightarrow> src \<noteq> 0xFF \<longrightarrow> \<not> slots_from ipc i 0xFF", rotated])
    fix rec :: "jezgro_ipc \<Rightarrow> u8 \<Rightarrow> u8 \<Rightarrow> u16 \<Rightarrow> u8 list option \<Rightarrow> u16 \<Rightarrow> nat \<Rightarrow> jezgro_ipc option"
    fix ipc src type seq payload len i ipc'
    assume IH: "\<And>ipc src type seq payload len i ipc'. rec ipc src type seq payload len i = Some ipc' \<Longrightarrow>
        length (ji_endpoints ipc) = 16 \<longrightarrow> src \<noteq> 0xFF \<longrightarrow> \<not> slots_from ipc i 0xFF"
      and step: "(if i < 16
        then let ep = ji_endpoints ipc ! i
             in if je_active ep \<and> je_id ep \<noteq> src
                then if je_id ep = 0xFF
                     then Option.bind (rec ipc src type seq payload len 0) (\<lambda>ipc. rec ipc src type seq payload len (Suc i))
                     else rec (snd (send_unicast ipc src (je_id ep) type seq payload len)) src type seq payload len (Suc i)
                else rec ipc src type seq payload len (Suc i)
        else Some ipc) = Some ipc'"
    show "length (ji_endpoints ipc) = 16 \<longrightarrow> src \<noteq> 0xFF \<longrightarrow> \<not> slots_from ipc i 0xFF"
    proof (intro impI notI)
      assume len: "length (ji_endpoints ipc) = 16" and src: "src \<noteq> 0xFF" and sl: "slots_from ipc i 0xFF"
      then have i: "i < 16" by (auto simp: slots_from_def)
      let ?ep = "ji_endpoints ipc ! i"
      have tab: "ipc_table (snd (send_unicast ipc src (je_id ?ep) type seq payload len)) = ipc_table ipc"
        by (rule send_unicast_table)
      have len': "length (ji_endpoints (snd (send_unicast ipc src (je_id ?ep) type seq payload len))) = 16"
        using arg_cong [OF tab, of length] len by (simp add: ipc_table_def)
      consider "je_active ?ep" "je_id ?ep = 0xFF" | "je_active ?ep" "je_id ?ep \<noteq> src" "je_id ?ep \<noteq> 0xFF"
        | "\<not> je_active ?ep \<or> je_id ?ep = src" "\<not> (je_active ?ep \<and> je_id ?ep = 0xFF)" using src by blast
      then show False
      proof cases
        case 1
        with step i src obtain r where "rec ipc src type seq payload len 0 = Some r"
          by (auto simp: Let_def bind_eq_Some_conv)
        from IH [OF this] len src have "\<not> slots_from ipc 0 0xFF" by simp
        with sl show False by (auto simp: slots_from_def)
      next
        case 2
        with step i have "rec (snd (send_unicast ipc src (je_id ?ep) type seq payload len)) src type seq payload len (Suc i) = Some ipc'"
          by (simp add: Let_def)
        from IH [OF this] len' src have "\<not> slots_from ipc (Suc i) 0xFF"
          using slots_from_table [OF tab len'] by simp
        with sl slots_from_step [OF i, of ipc "0xFF"] 2 show False by simp
      next
        case 3
        with step i have "rec ipc src type seq payload len (Suc i) = Some ipc'" by (auto simp: Let_def)
        from IH [OF this] len src have "\<not> slots_from ipc (Suc i) 0xFF" by simp
        with sl slots_from_step [OF i, of ipc "0xFF"] 3 show False by simp
      qed
    qed
  qed
  with assms show ?thesis by blast
qed

lemma ipc_service_only:
  "ipc_inv (jezgro_ipc_set_current_service s ipc) = ipc_inv ipc" "ipc_table (jezgro_ipc_set_current_service s ipc) = ipc_table ipc"
  "ipc_boxes (jezgro_ipc_set_current_service s ipc) = ipc_boxes ipc"
  by (simp_all add: jezgro_ipc_set_current_service_def ipc_inv_def ipc_table_def ipc_boxes_def find_endpoint_def fun_eq_iff)

lemma receive_refines:
  assumes "ipc_inv ipc" "jezgro_ipc_recv_nonblock (jezgro_ipc_set_current_service service ipc) = (err, msg, ipc')"
  shows "ipc_inv ipc' \<and> ipc_table ipc' = ipc_table ipc \<and>
     spec_step (ipc_endpoint_of ipc) (ipc_boxes ipc) (IpReceive service) = (IpGot err msg, ipc_boxes ipc')"
proof -
  let ?c = "jezgro_ipc_set_current_service service ipc"
  have inv: "ipc_inv ?c" using assms(1) by (simp add: ipc_service_only)
  show ?thesis
  proof (cases "current_endpoint ?c")
    case None
    then have "err = JEZGRO_IPC_ERR_INVALID" "msg = None" "ipc' = ?c"
      using assms(2) by (simp_all add: jezgro_ipc_recv_nonblock_def)
    with None assms(1) show ?thesis by (simp add: ipc_endpoint_of_def spec_step_def ipc_service_only)
  next
    case (Some i)
    let ?ep = "ji_endpoints ?c ! i"
    from Some have i: "i < 16" "je_active ?ep" unfolding current_endpoint_def by (auto dest: find_from_SomeD)
    then have fnd: "find_endpoint ?c (je_id ?ep) = Some i" by (intro find_endpoint_active [OF inv])
    have k: "ipc_endpoint_of ipc service = Some (je_id ?ep)"
      using Some by (simp add: ipc_endpoint_of_def jezgro_ipc_set_current_service_def)
    have box: "ipc_boxes ?c (je_id ?ep) = Some (jq_items (je_rx_queue ?ep))" using fnd by (simp add: ipc_boxes_def)
    have q: "jq_inv (je_rx_queue ?ep)" using inv i(1) by (simp add: ipc_inv_def)
    then show ?thesis
    proof (cases rule: jq.pop_cases)
      case empty
      then have "queue_pop (je_rx_queue ?ep) = (None, je_rx_queue ?ep)"
        by (auto simp: jq_try_pop_def queue_pop_def split: if_splits)
      with assms Some have "err = JEZGRO_IPC_ERR_EMPTY" "msg = None" "ipc' = ?c"
        by (simp_all add: jezgro_ipc_recv_nonblock_def pop_endpoint_def)
      with assms(1) k box empty show ?thesis by (simp add: spec_step_def ipc_service_only)
    next
      case (ok y ys q')
      then have pop: "queue_pop (je_rx_queue ?ep) = (Some y, q')"
        by (auto simp: jq_try_pop_def split: prod.splits option.splits)
      have r: "err = JEZGRO_IPC_OK" "msg = Some y" "ipc' = update_stats (\<lambda>t. t\<lparr>js_messages_received := js_messages_received t + 1\<rparr>)
          (update_endpoint i (\<lambda>ep. ep\<lparr>je_rx_queue := q'\<rparr>) ?c)"
        using assms(2) Some pop by (simp_all add: jezgro_ipc_recv_nonblock_def pop_endpoint_def)
      have "ep\<lparr>je_rx_queue := q'\<rparr> = ep\<lparr>je_rx_queue := q', je_waiting := je_waiting ep\<rparr>" for ep :: jezgro_ipc_endpoint_state by simp
      from ipc_replace_queue [OF inv fnd ok(3) this r(3)] k box ok r(1,2) show ?thesis
        by (simp add: spec_step_def ipc_service_only)
    qed
  qed
qed

lemma ipc_step_refines:
  assumes "ipc_inv ipc" "\<not> slots_from ipc 0 0xFF"
  shows "\<exists>r ipc'. ipc_step ipc op = Some (r, ipc') \<and> ipc_inv ipc' \<and> ipc_table ipc' = ipc_table ipc \<and>
     spec_step (ipc_endpoint_of ipc) (ipc_boxes ipc) op = (r, ipc_boxes ipc')"
proof (cases op)
  case (IpSend src dst type seq payload len)
  show ?thesis
  proof (cases "dst = 0xFF")
    case True
    from broadcast_refines [OF assms, of 0 src type seq payload len] obtain ipc' where
      b: "broadcast_from ipc src type seq payload len 0 = Some ipc'" "ipc_inv ipc'" "ipc_table ipc' = ipc_table ipc"
      "ipc_boxes ipc' = (\<lambda>k. map_option (\<lambda>box. if k \<noteq> src \<and> slots_from ipc 0 k
        then box_put box (ipc_message src k type seq payload len) else box) (ipc_boxes ipc k))" by auto
    have "ipc_boxes ipc' = (\<lambda>k. map_option (\<lambda>box. if k = src then box else box_put box (ipc_message src k type seq payload len)) (ipc_boxes ipc k))"
    proof
      fix k
      show "ipc_boxes ipc' k = map_option (\<lambda>box. if k = src then box else box_put box (ipc_message src k type seq payload len)) (ipc_boxes ipc k)"
        unfolding b(4) slots_from_find by (cases "find_endpoint ipc k") (auto simp: ipc_boxes_def)
    qed
    with b(1-3) IpSend True show ?thesis by (simp add: ipc_step_def internal_send_def spec_step_def)
  next
    case False
    obtain err ipc' where u: "send_unicast ipc src dst type seq payload len = (err, ipc')" by fastforce
    note u' = send_unicast_refines [OF assms(1) u]
    then have "spec_step (ipc_endpoint_of ipc) (ipc_boxes ipc) op = (IpSent err, ipc_boxes ipc')"
      using IpSend False by (simp add: spec_step_def)
    with u u'(1,2) IpSend False show ?thesis by (simp add: ipc_step_def internal_send_def)
  qed
next
  case (IpReceive service)
  obtain err msg ipc' where r: "jezgro_ipc_recv_nonblock (jezgro_ipc_set_current_service service ipc) = (err, msg, ipc')"
    by (metis prod_cases3)
  from receive_refines [OF assms(1) r] IpReceive r show ?thesis by (simp add: ipc_step_def)
qed

text \<open>
  C9. The kernel's messages implement mailboxes. From a well-formed table in which no endpoint
  is registered under the broadcast id, every sequence of sends, broadcasts and receives by any
  services returns, gives each operation the result that the mailbox specification gives, and
  leaves the mailboxes that the specification leaves. So each endpoint receives the accepted
  messages once, in the order they were sent, a full mailbox refuses without disturbing the
  others, and a broadcast reaches every other endpoint that has room. If an endpoint is
  registered under the broadcast id, a broadcast by any other one never returns.
\<close>

theorem ipc_refines_mailboxes:
  assumes "ipc_inv ipc" "src \<noteq> JEZGRO_EP_BROADCAST"
  shows "(\<not> jezgro_ipc_endpoint_exists ipc JEZGRO_EP_BROADCAST \<longrightarrow>
       (\<exists>rs ipc'. ipc_run ipc ops = Some (rs, ipc') \<and> ipc_inv ipc' \<and>
          spec_run (ipc_endpoint_of ipc) (ipc_boxes ipc) ops = (rs, ipc_boxes ipc'))) \<and>
     (jezgro_ipc_endpoint_exists ipc JEZGRO_EP_BROADCAST \<longrightarrow>
        internal_send ipc src JEZGRO_EP_BROADCAST type seq payload len = None)"
proof (intro conjI impI)
  assume "\<not> jezgro_ipc_endpoint_exists ipc JEZGRO_EP_BROADCAST"
  then have "\<not> slots_from ipc 0 0xFF" by (simp add: slots_from_find jezgro_ipc_endpoint_exists_def)
  with assms(1) show "\<exists>rs ipc'. ipc_run ipc ops = Some (rs, ipc') \<and> ipc_inv ipc' \<and>
          spec_run (ipc_endpoint_of ipc) (ipc_boxes ipc) ops = (rs, ipc_boxes ipc')"
  proof (induction ops arbitrary: ipc)
    case (Cons op ops)
    from ipc_step_refines [OF Cons.prems, of op] obtain r ipc1 where
      s: "ipc_step ipc op = Some (r, ipc1)" "ipc_inv ipc1" "ipc_table ipc1 = ipc_table ipc"
      "spec_step (ipc_endpoint_of ipc) (ipc_boxes ipc) op = (r, ipc_boxes ipc1)" by blast
    have len: "length (ji_endpoints ipc1) = 16" using s(2) by (simp add: ipc_inv_def)
    have "\<not> slots_from ipc1 0 0xFF" using Cons.prems(2) slots_from_table [OF s(3) len] by simp
    from Cons.IH [OF s(2) this] s ipc_table_find(2) [OF s(3) len] show ?case by auto
  qed simp
next
  assume "jezgro_ipc_endpoint_exists ipc JEZGRO_EP_BROADCAST"
  then have "slots_from ipc 0 0xFF" by (simp add: slots_from_find jezgro_ipc_endpoint_exists_def)
  with broadcast_diverges_on [of ipc src type seq payload len 0] assms
  have "broadcast_from ipc src type seq payload len 0 = None"
    by (cases "broadcast_from ipc src type seq payload len 0") (auto simp: ipc_inv_def)
  then show "internal_send ipc src JEZGRO_EP_BROADCAST type seq payload len = None" by (simp add: internal_send_def)
qed

section \<open>The operations on the table keep it well-formed\<close>

definition blank_ipc :: jezgro_ipc where
  "blank_ipc = \<lparr>ji_endpoints = replicate 16 blank_endpoint, ji_current_service = 0, ji_notify_callback = False,
     ji_irq_endpoints = replicate 64 0, ji_stats = blank_ipc_stats, ji_initialized = False\<rparr>"

lemma jq_inv_init: "jq_inv q \<Longrightarrow> jq_inv (queue_init q)"
  by (simp add: jq_inv_def queue_init_def)

lemma ipc_inv_register:
  assumes "ipc_inv ipc"
  shows "ipc_inv (snd (jezgro_ipc_register_endpoint ipc endpoint service_id))"
proof (cases "find_endpoint ipc endpoint = None")
  case none: True
  show ?thesis
  proof (cases "find_from (\<lambda>e. \<not> je_active e) (ji_endpoints ipc) 0 16")
    case None
    with none assms show ?thesis by (simp add: jezgro_ipc_register_endpoint_def)
  next
    case (Some i)
    let ?f = "\<lambda>ep. ep\<lparr>je_id := endpoint, je_owner_service := service_id, je_active := True, je_seq_counter := 0,
        je_waiting := False, je_rx_queue := queue_init (je_rx_queue ep)\<rparr>"
    have i: "i < 16" using Some by (rule find_from_Some_less)
    have fresh: "\<not> (je_active (ji_endpoints ipc ! j) \<and> je_id (ji_endpoints ipc ! j) = endpoint)" if "j < 16" for j
      using none that unfolding find_endpoint_def find_from_None by auto
    have inv: "length (ji_endpoints ipc) = 16" "\<And>j. j < 16 \<Longrightarrow> jq_inv (je_rx_queue (ji_endpoints ipc ! j))"
      using assms by (simp_all add: ipc_inv_def)
    have "ipc_inv (update_endpoint i ?f ipc)"
      unfolding ipc_inv_def update_endpoint_def
    proof (intro conjI allI impI)
      fix j :: nat assume "j < 16"
      with inv i show "jq_inv (je_rx_queue (ji_endpoints (ipc\<lparr>ji_endpoints := (ji_endpoints ipc)[i := ?f (ji_endpoints ipc ! i)]\<rparr>) ! j))"
        by (cases "j = i") (auto simp: jq_inv_init)
    next
      fix j m :: nat assume jm: "j < 16" "m < 16"
        "je_active (ji_endpoints (ipc\<lparr>ji_endpoints := (ji_endpoints ipc)[i := ?f (ji_endpoints ipc ! i)]\<rparr>) ! j) \<and>
         je_active (ji_endpoints (ipc\<lparr>ji_endpoints := (ji_endpoints ipc)[i := ?f (ji_endpoints ipc ! i)]\<rparr>) ! m) \<and>
         je_id (ji_endpoints (ipc\<lparr>ji_endpoints := (ji_endpoints ipc)[i := ?f (ji_endpoints ipc ! i)]\<rparr>) ! j) =
         je_id (ji_endpoints (ipc\<lparr>ji_endpoints := (ji_endpoints ipc)[i := ?f (ji_endpoints ipc ! i)]\<rparr>) ! m)"
      then show "j = m"
        using inv(1) i fresh [OF jm(1)] fresh [OF jm(2)] ipc_inv_unique [OF assms jm(1,2)]
        by (cases "j = i"; cases "m = i") auto
    qed (use inv in simp)
    with none Some show ?thesis by (simp add: jezgro_ipc_register_endpoint_def)
  qed
next
  case False
  with assms show ?thesis by (simp add: jezgro_ipc_register_endpoint_def)
qed

lemma ipc_inv_init: "\<not> ji_initialized ipc \<Longrightarrow> ipc_inv (snd (jezgro_ipc_init ipc))"
proof -
  assume "\<not> ji_initialized ipc"
  moreover have "ipc_inv (ipc\<lparr>ji_endpoints := replicate 16 blank_endpoint, ji_irq_endpoints := replicate 64 0, ji_stats := blank_ipc_stats\<rparr>)"
    by (simp add: ipc_inv_def blank_endpoint_def jq_inv_def)
  from ipc_inv_register [OF this, of 0 0] have "ipc_inv (snd (jezgro_ipc_register_endpoint
      (ipc\<lparr>ji_endpoints := replicate 16 blank_endpoint, ji_irq_endpoints := replicate 64 0, ji_stats := blank_ipc_stats\<rparr>) 0 0))" .
  ultimately show ?thesis by (simp add: jezgro_ipc_init_def case_prod_beta ipc_inv_def)
qed

definition example_ipc :: jezgro_ipc where
  "example_ipc = snd (jezgro_ipc_register_endpoint (snd (jezgro_ipc_init blank_ipc)) 5 9)"

theorem ipc_refines_mailboxes_witness:
  "\<exists>rs ipc'. ipc_run example_ipc [IpSend 0 5 1 7 None 0, IpReceive 9] = Some (rs, ipc') \<and>
     spec_run (ipc_endpoint_of example_ipc) (ipc_boxes example_ipc) [IpSend 0 5 1 7 None 0, IpReceive 9] = (rs, ipc_boxes ipc')"
proof -
  have inv: "ipc_inv example_ipc"
    unfolding example_ipc_def by (intro ipc_inv_register ipc_inv_init) (simp add: blank_ipc_def)
  have "\<not> jezgro_ipc_endpoint_exists example_ipc JEZGRO_EP_BROADCAST" by code_simp
  with ipc_refines_mailboxes [OF inv, of 0 "[IpSend 0 5 1 7 None 0, IpReceive 9]"] show ?thesis by auto
qed

text \<open>While it waits for a reply, a call throws away every other message.\<close>

lemma call_drops_messages:
  "map_option (\<lambda>(err, reply, ipc, outs, clock). (err, jq_count (je_rx_queue (ji_endpoints ipc ! 0))))
     (jezgro_ipc_call (snd (send_unicast example_ipc 5 0 2 9 None 0)) 5 None 0 0 10 [(0, id), (0, id), (20, id)])
   = Some (JEZGRO_IPC_ERR_TIMEOUT, 0)"
  by code_simp

end
