(* ===== verification/Jezgro_Mpu.thy ===== *)
theory Jezgro_Mpu
  imports Ekk_Types
begin

unbundle bit_operations_syntax

text \<open>
  Memory protection (\<open>src/jezgro/jezgro_mpu.c\<close>, \<open>include/ekk/jezgro/jezgro_mpu.h\<close>): region registers,
  their encoding, the contexts of the services and the switch between them. The registers are
  those of the file's simulation for hosts without the hardware: a region number register and,
  per region, a base and an attribute register. Barriers, the privilege switch in assembler, the
  fault handler, which reads processor registers and halts, and the printing functions are not
  modelled.
\<close>

section \<open>Types\<close>

abbreviation (input) JEZGRO_MPU_MAX_REGIONS :: nat where "JEZGRO_MPU_MAX_REGIONS \<equiv> 8"
abbreviation (input) JEZGRO_MAX_SERVICES :: nat where "JEZGRO_MAX_SERVICES \<equiv> 3"
abbreviation (input) JEZGRO_REGION_KERNEL_CODE :: nat where "JEZGRO_REGION_KERNEL_CODE \<equiv> 0"
abbreviation (input) JEZGRO_REGION_KERNEL_DATA :: nat where "JEZGRO_REGION_KERNEL_DATA \<equiv> 1"
abbreviation (input) JEZGRO_REGION_SERVICE1_CODE :: nat where "JEZGRO_REGION_SERVICE1_CODE \<equiv> 3"
abbreviation (input) JEZGRO_REGION_SERVICE1_DATA :: nat where "JEZGRO_REGION_SERVICE1_DATA \<equiv> 4"
abbreviation (input) JEZGRO_REGION_PERIPHERALS :: nat where "JEZGRO_REGION_PERIPHERALS \<equiv> 7"

datatype jezgro_access_perm = JEZGRO_AP_NO_ACCESS | JEZGRO_AP_PRIV_RW | JEZGRO_AP_PRIV_RW_UNPRIV_RO
  | JEZGRO_AP_FULL_ACCESS | JEZGRO_AP_PRIV_RO | JEZGRO_AP_RO

definition ap_value :: "jezgro_access_perm \<Rightarrow> u32" where
  "ap_value ap =
     (case ap of JEZGRO_AP_NO_ACCESS \<Rightarrow> 0 | JEZGRO_AP_PRIV_RW \<Rightarrow> 1 | JEZGRO_AP_PRIV_RW_UNPRIV_RO \<Rightarrow> 2
      | JEZGRO_AP_FULL_ACCESS \<Rightarrow> 3 | JEZGRO_AP_PRIV_RO \<Rightarrow> 5 | JEZGRO_AP_RO \<Rightarrow> 6)"

datatype jezgro_mem_type = JEZGRO_MEM_NORMAL | JEZGRO_MEM_DEVICE | JEZGRO_MEM_STRONGLY_ORD

datatype jezgro_privilege = JEZGRO_PRIV_KERNEL | JEZGRO_PRIV_USER

record jezgro_mpu_region =
  mr_base_addr :: u32
  mr_size :: u32
  mr_ap :: jezgro_access_perm
  mr_mem_type :: jezgro_mem_type
  mr_execute_never :: bool
  mr_shareable :: bool
  mr_enabled :: bool

record jezgro_mpu_context =
  mc_service_id :: u8
  mc_num_regions :: u8
  mc_regions :: "jezgro_mpu_region list"
  mc_privileged :: bool

record jezgro_service_desc =
  sd_id :: u8
  sd_name :: string
  sd_priv :: jezgro_privilege
  sd_code_start :: u32
  sd_code_size :: u32
  sd_data_start :: u32
  sd_data_size :: u32
  sd_stack_start :: u32
  sd_stack_size :: u32

record jezgro_mpu =
  mp_type :: u32
  mp_ctrl :: u32
  mp_regions :: "(u32 \<times> u32) list"
  mp_current_region :: nat
  mp_contexts :: "jezgro_mpu_context list"
  mp_current_service :: u8
  mp_num_services :: nat
  mp_default_handler :: bool
  mp_initialized :: bool

section \<open>Encoding\<close>

primrec highest_bit :: "u32 \<Rightarrow> nat \<Rightarrow> nat" where
  "highest_bit sz 0 = 0"
| "highest_bit sz (Suc msb) = (if bit sz (Suc msb) then Suc msb else highest_bit sz msb)"

definition size_to_mpu_size :: "u32 \<Rightarrow> nat" where
  "size_to_mpu_size sz =
     (if sz < 32 then 4
      else (let msb = highest_bit sz 31; msb = (if sz > push_bit msb 1 then msb + 1 else msb) in msb - 1))"

definition is_aligned :: "u32 \<Rightarrow> u32 \<Rightarrow> bool" where
  "is_aligned addr sz = (addr AND (sz - 1) = 0)"

definition build_rasr :: "jezgro_mpu_region \<Rightarrow> u32" where
  "build_rasr config =
     (let rasr = (if mr_enabled config then 1 else 0);
          rasr = rasr OR push_bit 1 (of_nat (size_to_mpu_size (mr_size config)));
          rasr = rasr OR push_bit 24 (ap_value (mr_ap config));
          rasr = (if mr_execute_never config then rasr OR push_bit 28 1 else rasr);
          rasr = (case mr_mem_type config of
              JEZGRO_MEM_NORMAL \<Rightarrow> rasr OR push_bit 19 1 OR push_bit 17 1 OR push_bit 16 1
            | JEZGRO_MEM_DEVICE \<Rightarrow> rasr OR push_bit 16 1
            | JEZGRO_MEM_STRONGLY_ORD \<Rightarrow> rasr)
      in if mr_shareable config then rasr OR push_bit 18 1 else rasr)"

section \<open>Regions\<close>

definition jezgro_mpu_num_regions :: "jezgro_mpu \<Rightarrow> u8" where
  "jezgro_mpu_num_regions mpu = ucast (drop_bit 8 (mp_type mpu) AND 0xFF)"

definition jezgro_mpu_available :: "jezgro_mpu \<Rightarrow> bool" where
  "jezgro_mpu_available mpu = (drop_bit 8 (mp_type mpu) AND 0xFF > 0)"

definition write_region :: "nat \<Rightarrow> u32 \<Rightarrow> u32 \<Rightarrow> jezgro_mpu \<Rightarrow> jezgro_mpu" where
  "write_region i rbar rasr mpu = mpu\<lparr>mp_current_region := i, mp_regions := (mp_regions mpu)[i := (rbar, rasr)]\<rparr>"

definition jezgro_mpu_configure_region :: "jezgro_mpu \<Rightarrow> nat \<Rightarrow> jezgro_mpu_region \<Rightarrow> ekk_error \<times> jezgro_mpu" where
  "jezgro_mpu_configure_region mpu region_id config =
     (if region_id \<ge> JEZGRO_MPU_MAX_REGIONS then (EKK_ERR_INVALID_ARG, mpu)
      else
        (let actual_size = push_bit (size_to_mpu_size (mr_size config) + 1) 1
         in if \<not> is_aligned (mr_base_addr config) actual_size then (EKK_ERR_INVALID_ARG, mpu)
            else (EKK_OK, write_region region_id
              ((mr_base_addr config AND NOT 0x1F) OR push_bit 4 1 OR of_nat region_id) (build_rasr config) mpu)))"

definition jezgro_mpu_enable_region :: "jezgro_mpu \<Rightarrow> nat \<Rightarrow> ekk_error \<times> jezgro_mpu" where
  "jezgro_mpu_enable_region mpu region_id =
     (if region_id \<ge> JEZGRO_MPU_MAX_REGIONS then (EKK_ERR_INVALID_ARG, mpu)
      else (case mp_regions mpu ! region_id of (rbar, rasr) \<Rightarrow> (EKK_OK, write_region region_id rbar (rasr OR 1) mpu)))"

definition jezgro_mpu_disable_region :: "jezgro_mpu \<Rightarrow> nat \<Rightarrow> ekk_error \<times> jezgro_mpu" where
  "jezgro_mpu_disable_region mpu region_id =
     (if region_id \<ge> JEZGRO_MPU_MAX_REGIONS then (EKK_ERR_INVALID_ARG, mpu)
      else (case mp_regions mpu ! region_id of (rbar, rasr) \<Rightarrow> (EKK_OK, write_region region_id rbar (rasr AND NOT 1) mpu)))"

definition jezgro_mpu_enable :: "jezgro_mpu \<Rightarrow> jezgro_mpu" where
  "jezgro_mpu_enable mpu = mpu\<lparr>mp_ctrl := push_bit 0 1 OR push_bit 2 1\<rparr>"

definition jezgro_mpu_disable :: "jezgro_mpu \<Rightarrow> jezgro_mpu" where
  "jezgro_mpu_disable mpu = mpu\<lparr>mp_ctrl := 0\<rparr>"

definition jezgro_mpu_set_fault_handler :: "bool \<Rightarrow> jezgro_mpu \<Rightarrow> jezgro_mpu" where
  "jezgro_mpu_set_fault_handler is_default mpu = mpu\<lparr>mp_default_handler := is_default\<rparr>"

section \<open>Initialisation\<close>

definition blank_region :: jezgro_mpu_region where
  "blank_region = \<lparr>mr_base_addr = 0, mr_size = 0, mr_ap = JEZGRO_AP_NO_ACCESS, mr_mem_type = JEZGRO_MEM_NORMAL,
     mr_execute_never = False, mr_shareable = False, mr_enabled = False\<rparr>"

definition kernel_code :: jezgro_mpu_region where
  "kernel_code = \<lparr>mr_base_addr = 0x08000000, mr_size = 512 * 1024, mr_ap = JEZGRO_AP_PRIV_RO,
     mr_mem_type = JEZGRO_MEM_NORMAL, mr_execute_never = False, mr_shareable = False, mr_enabled = True\<rparr>"

definition kernel_data :: jezgro_mpu_region where
  "kernel_data = \<lparr>mr_base_addr = 0x20000000, mr_size = 128 * 1024, mr_ap = JEZGRO_AP_PRIV_RW,
     mr_mem_type = JEZGRO_MEM_NORMAL, mr_execute_never = True, mr_shareable = False, mr_enabled = True\<rparr>"

definition peripherals :: jezgro_mpu_region where
  "peripherals = \<lparr>mr_base_addr = 0x40000000, mr_size = 512 * 1024 * 1024, mr_ap = JEZGRO_AP_PRIV_RW,
     mr_mem_type = JEZGRO_MEM_DEVICE, mr_execute_never = True, mr_shareable = False, mr_enabled = True\<rparr>"

definition jezgro_mpu_init :: "jezgro_mpu \<Rightarrow> ekk_error \<times> jezgro_mpu" where
  "jezgro_mpu_init mpu =
     (if mp_initialized mpu then (EKK_OK, mpu)
      else if \<not> jezgro_mpu_available mpu then (EKK_ERR_NOT_SUPPORTED, mpu)
      else
        (let num_regions = unat (jezgro_mpu_num_regions mpu);
             mpu = mpu\<lparr>mp_ctrl := 0\<rparr>;
             mpu = fold (\<lambda>i. write_region i 0 0) [0..<num_regions] mpu;
             mpu = mpu\<lparr>mp_contexts := (mp_contexts mpu)[0 := \<lparr>mc_service_id = 0, mc_num_regions = 0,
               mc_regions = replicate JEZGRO_MPU_MAX_REGIONS blank_region, mc_privileged = True\<rparr>]\<rparr>;
             (_, mpu) = jezgro_mpu_configure_region mpu JEZGRO_REGION_KERNEL_CODE kernel_code;
             (_, mpu) = jezgro_mpu_configure_region mpu JEZGRO_REGION_KERNEL_DATA kernel_data;
             (_, mpu) = jezgro_mpu_configure_region mpu JEZGRO_REGION_PERIPHERALS peripherals;
             mpu = jezgro_mpu_set_fault_handler True mpu
         in (EKK_OK, mpu\<lparr>mp_initialized := True, mp_current_service := 0, mp_num_services := 0\<rparr>)))"

section \<open>Services\<close>

definition service_regions :: "jezgro_service_desc \<Rightarrow> jezgro_mpu_region \<times> jezgro_mpu_region" where
  "service_regions desc =
     (let privileged = (sd_priv desc = JEZGRO_PRIV_KERNEL)
      in (\<lparr>mr_base_addr = sd_code_start desc, mr_size = sd_code_size desc,
            mr_ap = (if privileged then JEZGRO_AP_PRIV_RO else JEZGRO_AP_RO), mr_mem_type = JEZGRO_MEM_NORMAL,
            mr_execute_never = False, mr_shareable = False, mr_enabled = True\<rparr>,
          \<lparr>mr_base_addr = sd_data_start desc, mr_size = sd_data_size desc + sd_stack_size desc,
            mr_ap = (if privileged then JEZGRO_AP_PRIV_RW else JEZGRO_AP_FULL_ACCESS), mr_mem_type = JEZGRO_MEM_NORMAL,
            mr_execute_never = True, mr_shareable = False, mr_enabled = True\<rparr>))"

definition jezgro_mpu_register_service :: "jezgro_mpu \<Rightarrow> jezgro_service_desc \<Rightarrow> ekk_error \<times> jezgro_mpu" where
  "jezgro_mpu_register_service mpu desc =
     (if sd_id desc = 0 then (EKK_ERR_INVALID_ARG, mpu)
      else if mp_num_services mpu \<ge> JEZGRO_MAX_SERVICES then (EKK_ERR_LIMIT, mpu)
      else
        (let code_region = JEZGRO_REGION_SERVICE1_CODE + mp_num_services mpu * 2;
             data_region = JEZGRO_REGION_SERVICE1_DATA + mp_num_services mpu * 2
         in if data_region \<ge> JEZGRO_MPU_MAX_REGIONS then (EKK_ERR_LIMIT, mpu)
            else
              (let ctx_idx = mp_num_services mpu + 1;
                   (code, data) = service_regions desc;
                   ctx = mp_contexts mpu ! ctx_idx;
                   ctx = ctx\<lparr>mc_service_id := sd_id desc, mc_privileged := (sd_priv desc = JEZGRO_PRIV_KERNEL),
                     mc_num_regions := 2, mc_regions := (mc_regions ctx)[0 := code, 1 := data]\<rparr>;
                   mpu = mpu\<lparr>mp_contexts := (mp_contexts mpu)[ctx_idx := ctx]\<rparr>;
                   (_, mpu) = jezgro_mpu_configure_region mpu code_region code;
                   (_, mpu) = jezgro_mpu_configure_region mpu data_region data
               in (EKK_OK, mpu\<lparr>mp_num_services := mp_num_services mpu + 1\<rparr>))))"

definition find_context :: "jezgro_mpu \<Rightarrow> u8 \<Rightarrow> nat option" where
  "find_context mpu service_id =
     (if service_id = 0 then Some 0
      else find_from (\<lambda>c. mc_service_id c = service_id) (mp_contexts mpu) 1 (Suc (mp_num_services mpu)))"

definition jezgro_mpu_switch_context :: "jezgro_mpu \<Rightarrow> u8 \<Rightarrow> ekk_error \<times> jezgro_mpu" where
  "jezgro_mpu_switch_context mpu service_id =
     (case find_context mpu service_id of
        None \<Rightarrow> (EKK_ERR_NOT_FOUND, mpu)
      | Some i \<Rightarrow>
          (let ctx = mp_contexts mpu ! i;
               mpu = jezgro_mpu_disable mpu;
               mpu = (if service_id \<noteq> 0
                 then (let (_, mpu) = jezgro_mpu_configure_region mpu JEZGRO_REGION_SERVICE1_CODE (mc_regions ctx ! 0);
                           (_, mpu) = jezgro_mpu_configure_region mpu JEZGRO_REGION_SERVICE1_DATA (mc_regions ctx ! 1)
                       in mpu)
                 else mpu);
               mpu = jezgro_mpu_enable mpu
           in (EKK_OK, mpu\<lparr>mp_current_service := service_id\<rparr>)))"

section \<open>The size field\<close>

lemma highest_bit_spec:
  "0 < unat sz \<Longrightarrow> unat sz < 2 ^ Suc n \<Longrightarrow> 2 ^ highest_bit sz n \<le> unat sz \<and> unat sz < 2 ^ Suc (highest_bit sz n) \<and> highest_bit sz n \<le> n"
proof (induction n)
  case (Suc n)
  have "bit sz (Suc n) \<longleftrightarrow> odd (unat sz div 2 ^ Suc n)"
    using bit_unsigned_iff [of sz "Suc n", where 'a = nat] possible_bit_less_imp by (auto simp: bit_iff_odd dest: bit_imp_le_length)
  also have "\<dots> \<longleftrightarrow> 2 ^ Suc n \<le> unat sz"
  proof (cases "2 ^ Suc n \<le> unat sz")
    case True
    have "1 \<le> unat sz div 2 ^ Suc n" using True by (simp add: less_eq_div_iff_mult_less_eq)
    moreover have "unat sz div 2 ^ Suc n < 2" using Suc.prems(2) by (intro less_mult_imp_div_less) (simp add: mult.commute)
    ultimately have "unat sz div 2 ^ Suc n = 1" by linarith
    with True show ?thesis by simp
  next
    case False
    then have "unat sz div 2 ^ Suc n = 0" by simp
    with False show ?thesis by simp
  qed
  finally have b: "bit sz (Suc n) \<longleftrightarrow> 2 ^ Suc n \<le> unat sz" .
  show ?case
  proof (cases "bit sz (Suc n)")
    case True
    with b Suc.prems(2) show ?thesis by simp
  next
    case False
    with b have "unat sz < 2 ^ Suc n" by simp
    from Suc.IH [OF Suc.prems(1) this] False show ?thesis by simp
  qed
qed simp

lemma unat_u32_pow2: "m \<le> 31 \<Longrightarrow> unat (2 ^ m :: u32) = 2 ^ m"
proof -
  assume "m \<le> 31"
  then have "(2 :: nat) ^ m < 2 ^ 32" by (intro power_strict_increasing) simp_all
  then have "take_bit 32 ((2 :: nat) ^ m) = 2 ^ m" by (rule take_bit_nat_eq_self)
  then show ?thesis
    using unsigned_of_nat [where 'a = nat and 'b = 32, of "2 ^ m"] by simp
qed

lemma size_to_mpu_size_spec:
  assumes "unat sz \<le> 2 ^ 31"
  shows "2 ^ size_to_mpu_size sz < max 32 (unat sz) \<and> max 32 (unat sz) \<le> 2 ^ Suc (size_to_mpu_size sz) \<and>
    4 \<le> size_to_mpu_size sz \<and> size_to_mpu_size sz \<le> 30"
proof (cases "unat sz < 32")
  case True
  then have "sz < 32" by (simp add: word_less_nat_alt)
  with True show ?thesis by (simp add: size_to_mpu_size_def)
next
  case False
  then have ge: "\<not> sz < 32" by (simp add: word_less_nat_alt)
  define m where "m = highest_bit sz 31"
  have m: "2 ^ m \<le> unat sz" "unat sz < 2 ^ Suc m" "m \<le> 31"
    using highest_bit_spec [of sz 31] False unat_u32_less [of sz] by (simp_all add: m_def)
  have "(2 :: nat) ^ 5 < 2 ^ Suc m" using False m(2) by simp
  then have "5 < Suc m" by (subst (asm) power_strict_increasing_iff) simp_all
  then have m5: "5 \<le> m" by simp
  have pw: "unat (push_bit m 1 :: u32) = 2 ^ m" using unat_u32_pow2 m(3) by simp
  have cmp: "sz > push_bit m 1 \<longleftrightarrow> 2 ^ m < unat sz" by (simp add: word_less_nat_alt pw del: push_bit_of_1)
  show ?thesis
  proof (cases "2 ^ m < unat sz")
    case True
    have "(2 :: nat) ^ m < 2 ^ 31" using True assms by linarith
    then have "m < 31" by (rule power_less_imp_less_exp [rotated]) simp
    with True m m5 ge cmp False show ?thesis
      by (simp add: size_to_mpu_size_def Let_def flip: m_def)
  next
    case eq: False
    then have "unat sz = 2 ^ m" using m(1) by simp
    moreover obtain j where "m = Suc j" using m5 by (cases m) auto
    ultimately show ?thesis
      using eq m m5 ge cmp False by (simp add: size_to_mpu_size_def Let_def flip: m_def)
  qed
qed

section \<open>The registers\<close>

definition rasr_enabled :: "u32 \<Rightarrow> bool" where "rasr_enabled rasr = bit rasr 0"
definition rasr_size :: "u32 \<Rightarrow> u32" where "rasr_size rasr = take_bit 5 (drop_bit 1 rasr)"
definition rasr_ap :: "u32 \<Rightarrow> u32" where "rasr_ap rasr = take_bit 3 (drop_bit 24 rasr)"
definition rasr_xn :: "u32 \<Rightarrow> bool" where "rasr_xn rasr = bit rasr 28"

lemma bit_push_bit_one: "n < 32 \<Longrightarrow> bit (push_bit k (1 :: u32)) n \<longleftrightarrow> n = k"
  by (auto simp: bit_exp_iff)

lemma bit_ap_value: "bit (ap_value ap) n \<Longrightarrow> n < 3"
proof (rule ccontr)
  assume b: "bit (ap_value ap) n" and "\<not> n < 3"
  have "ap_value ap = take_bit 3 (ap_value ap)" by (cases ap) (simp_all add: ap_value_def)
  then have "bit (take_bit 3 (ap_value ap)) n" using b by simp
  with \<open>\<not> n < 3\<close> show False by (simp add: bit_take_bit_iff)
qed

lemma bit_size_field: "s < 32 \<Longrightarrow> bit (of_nat s :: u32) n \<Longrightarrow> n < 5"
proof (rule ccontr)
  assume s: "s < 32" and b: "bit (of_nat s :: u32) n" and "\<not> n < 5"
  have "of_nat s = take_bit 5 (of_nat s :: u32)" using s
    by (simp add: take_bit_eq_mod word_unat_eq_iff unat_mod unat_of_nat take_bit_nat_eq_self)
  then have "bit (take_bit 5 (of_nat s :: u32)) n" using b by simp
  with \<open>\<not> n < 5\<close> show False by (simp add: bit_take_bit_iff)
qed

lemma bit_build_rasr:
  assumes "size_to_mpu_size (mr_size config) < 32" "n < 32"
  shows "bit (build_rasr config) n \<longleftrightarrow>
     n = 0 \<and> mr_enabled config \<or> 1 \<le> n \<and> n < 6 \<and> bit (of_nat (size_to_mpu_size (mr_size config)) :: u32) (n - 1) \<or>
     24 \<le> n \<and> n < 27 \<and> bit (ap_value (mr_ap config)) (n - 24) \<or> n = 28 \<and> mr_execute_never config \<or>
     (n = 16 \<and> mr_mem_type config \<noteq> JEZGRO_MEM_STRONGLY_ORD) \<or> ((n = 17 \<or> n = 19) \<and> mr_mem_type config = JEZGRO_MEM_NORMAL) \<or>
     n = 18 \<and> mr_shareable config"
proof -
  have or_if: "bit (if c then w OR v else w) n \<longleftrightarrow> bit w n \<or> c \<and> bit v n" for c and v w :: u32
    by (simp add: bit_or_iff)
  have one: "bit (push_bit k (1 :: u32)) n \<longleftrightarrow> n = k" for k
    using assms(2) by (rule bit_push_bit_one)
  have mem: "bit (case mr_mem_type config of
              JEZGRO_MEM_NORMAL \<Rightarrow> w OR push_bit 19 1 OR push_bit 17 1 OR push_bit 16 1
            | JEZGRO_MEM_DEVICE \<Rightarrow> w OR push_bit 16 1
            | JEZGRO_MEM_STRONGLY_ORD \<Rightarrow> w) n \<longleftrightarrow> bit w n \<or> n = 16 \<and> mr_mem_type config \<noteq> JEZGRO_MEM_STRONGLY_ORD \<or>
            (n = 17 \<or> n = 19) \<and> mr_mem_type config = JEZGRO_MEM_NORMAL" for w :: u32
    by (cases "mr_mem_type config") (auto simp only: jezgro_mem_type.case bit_or_iff one jezgro_mem_type.distinct)
  have e: "bit (if mr_enabled config then 1 else 0 :: u32) n \<longleftrightarrow> n = 0 \<and> mr_enabled config" by (simp add: bit_1_iff)
  have s: "bit (push_bit 1 (of_nat (size_to_mpu_size (mr_size config)) :: u32)) n \<longleftrightarrow>
      1 \<le> n \<and> n < 6 \<and> bit (of_nat (size_to_mpu_size (mr_size config)) :: u32) (n - 1)"
    using bit_size_field [OF assms(1), of "n - 1"] assms(2) by (auto simp only: bit_push_bit_iff) simp_all
  have a: "bit (push_bit 24 (ap_value (mr_ap config))) n \<longleftrightarrow> 24 \<le> n \<and> n < 27 \<and> bit (ap_value (mr_ap config)) (n - 24)"
    using bit_ap_value [of "mr_ap config" "n - 24"] assms(2) by (auto simp only: bit_push_bit_iff) simp_all
  show ?thesis
    unfolding build_rasr_def Let_def or_if mem bit_or_iff e s a one by blast
qed

lemma rasr_fields:
  assumes "size_to_mpu_size (mr_size config) < 32"
  shows "rasr_enabled (build_rasr config) = mr_enabled config" "rasr_xn (build_rasr config) = mr_execute_never config"
    "rasr_size (build_rasr config) = of_nat (size_to_mpu_size (mr_size config))"
    "rasr_ap (build_rasr config) = ap_value (mr_ap config)"
proof -
  note b = bit_build_rasr [OF assms]
  show "rasr_enabled (build_rasr config) = mr_enabled config" by (simp add: rasr_enabled_def b)
  show "rasr_xn (build_rasr config) = mr_execute_never config" by (simp add: rasr_xn_def b)
  show "rasr_size (build_rasr config) = of_nat (size_to_mpu_size (mr_size config))"
  proof (rule bit_word_eqI)
    fix n assume "n < LENGTH(32)"
    have "bit (drop_bit 1 (build_rasr config)) n \<longleftrightarrow> bit (build_rasr config) (n + 1)"
      by (simp only: bit_drop_bit_eq o_def add.commute)
    then show "bit (rasr_size (build_rasr config)) n \<longleftrightarrow> bit (of_nat (size_to_mpu_size (mr_size config)) :: u32) n"
      using bit_size_field [OF assms, of n] b [of "n + 1"]
      unfolding rasr_size_def bit_take_bit_iff by (cases "n < 5") auto
  qed
  show "rasr_ap (build_rasr config) = ap_value (mr_ap config)"
  proof (rule bit_word_eqI)
    fix n assume "n < LENGTH(32)"
    have "bit (drop_bit 24 (build_rasr config)) n \<longleftrightarrow> bit (build_rasr config) (n + 24)"
      by (simp only: bit_drop_bit_eq o_def add.commute)
    then show "bit (rasr_ap (build_rasr config)) n \<longleftrightarrow> bit (ap_value (mr_ap config)) n"
      using bit_ap_value [of "mr_ap config" n] b [of "n + 24"]
      unfolding rasr_ap_def bit_take_bit_iff by (cases "n < 3") auto
  qed
qed

lemma is_aligned_pow2:
  assumes "k \<le> 31"
  shows "is_aligned addr (push_bit k 1) \<longleftrightarrow> 2 ^ k dvd unat addr"
proof -
  have "is_aligned addr (push_bit k 1) \<longleftrightarrow> take_bit k addr = 0"
    by (simp add: is_aligned_def take_bit_eq_mask mask_eq_exp_minus_1)
  also have "\<dots> \<longleftrightarrow> take_bit k (unat addr) = 0"
    by (simp add: word_unat_eq_iff unsigned_take_bit_eq)
  finally show ?thesis by (simp add: take_bit_eq_mod mod_eq_0_iff_dvd)
qed

lemma base_register:
  assumes "32 dvd unat addr" "i < 8"
  shows "((addr AND NOT 0x1F) OR push_bit 4 1 OR of_nat i) AND NOT 0x1F = (addr :: u32)"
proof (rule bit_word_eqI)
  fix n assume n: "n < LENGTH(32)"
  have "take_bit 5 (unat addr) = 0" using assms(1) by (simp add: take_bit_eq_mod mod_eq_0_iff_dvd)
  then have "unat (take_bit 5 addr) = 0" by (simp only: unsigned_take_bit_eq)
  then have "take_bit 5 addr = 0" by (simp only: unsigned_eq_0_iff)
  then have low: "n < 5 \<Longrightarrow> \<not> bit addr n" by (metis bit_0_eq bit_take_bit_iff bot_apply bot_bool_def)
  have "(0x1F :: u32) = mask 5" by (simp add: mask_eq_exp_minus_1)
  then have mask: "bit (0x1F :: u32) n \<longleftrightarrow> n < 5" using n by (simp only: bit_mask_iff) simp
  have i: "bit (of_nat i :: u32) n \<Longrightarrow> n < 5" using bit_size_field [of i n] assms(2) by simp
  have one: "bit (push_bit 4 (1 :: u32)) n \<Longrightarrow> n < 5"
  proof -
    assume "bit (push_bit 4 (1 :: u32)) n"
    moreover have "n < 32" using n by simp
    ultimately have "n = 4" by (simp only: bit_push_bit_one)
    then show "n < 5" by simp
  qed
  have neg: "bit (NOT 0x1F :: u32) n \<longleftrightarrow> \<not> n < 5" using n mask by (simp only: bit_not_iff possible_bit_word) simp
  show "bit (((addr AND NOT 0x1F) OR push_bit 4 1 OR of_nat i) AND NOT 0x1F) n \<longleftrightarrow> bit addr n"
    unfolding bit_and_iff bit_or_iff neg using low i one by blast
qed

text \<open>
  C21. Configuring a protection region of at most 2 GiB. The size field chosen stands for the
  smallest power of two that is at least 32 bytes and at least the size. The configuration is
  refused, without any change, exactly when the base address is not a multiple of that power or
  there is no such region. Otherwise the registers of the region hold the base address, that
  size, the enable and no-execute bits and the access permission that were asked for, and all
  other regions are as before.
\<close>

theorem mpu_configure_exact:
  assumes "length (mp_regions mpu) = JEZGRO_MPU_MAX_REGIONS" "unat (mr_size config) \<le> 2 ^ 31"
    and "jezgro_mpu_configure_region mpu i config = (err, mpu')" "s = size_to_mpu_size (mr_size config)"
  shows "2 ^ s < max 32 (unat (mr_size config)) \<and> max 32 (unat (mr_size config)) \<le> 2 ^ Suc s \<and>
    (if i < JEZGRO_MPU_MAX_REGIONS \<and> 2 ^ Suc s dvd unat (mr_base_addr config)
     then err = EKK_OK \<and>
       (\<exists>rbar rasr. mp_regions mpu' = (mp_regions mpu)[i := (rbar, rasr)] \<and> rbar AND NOT 0x1F = mr_base_addr config \<and>
          unat (rasr_size rasr) = s \<and> rasr_enabled rasr = mr_enabled config \<and>
          rasr_xn rasr = mr_execute_never config \<and> rasr_ap rasr = ap_value (mr_ap config))
     else err = EKK_ERR_INVALID_ARG \<and> mpu' = mpu)"
proof (intro conjI)
  have s: "2 ^ s < max 32 (unat (mr_size config))" "max 32 (unat (mr_size config)) \<le> 2 ^ Suc s" "4 \<le> s" "s \<le> 30"
    using size_to_mpu_size_spec [OF assms(2)] by (simp_all add: assms(4))
  show "2 ^ s < max 32 (unat (mr_size config))" "max 32 (unat (mr_size config)) \<le> 2 ^ Suc s" by (rule s)+
  have al: "is_aligned (mr_base_addr config) (push_bit (s + 1) 1) \<longleftrightarrow> 2 ^ Suc s dvd unat (mr_base_addr config)"
    using is_aligned_pow2 [of "s + 1"] s(4) by simp
  show "if i < JEZGRO_MPU_MAX_REGIONS \<and> 2 ^ Suc s dvd unat (mr_base_addr config)
     then err = EKK_OK \<and>
       (\<exists>rbar rasr. mp_regions mpu' = (mp_regions mpu)[i := (rbar, rasr)] \<and> rbar AND NOT 0x1F = mr_base_addr config \<and>
          unat (rasr_size rasr) = s \<and> rasr_enabled rasr = mr_enabled config \<and>
          rasr_xn rasr = mr_execute_never config \<and> rasr_ap rasr = ap_value (mr_ap config))
     else err = EKK_ERR_INVALID_ARG \<and> mpu' = mpu"
  proof (cases "i < JEZGRO_MPU_MAX_REGIONS \<and> 2 ^ Suc s dvd unat (mr_base_addr config)")
    case True
    let ?rbar = "(mr_base_addr config AND NOT 0x1F) OR push_bit 4 1 OR of_nat i" and ?rasr = "build_rasr config"
    have res: "err = EKK_OK" "mpu' = write_region i ?rbar ?rasr mpu"
      using assms(3) True al by (simp_all only: jezgro_mpu_configure_region_def Let_def flip: assms(4)) auto
    have "(2 :: nat) ^ 5 dvd 2 ^ Suc s" using s(3) by (intro le_imp_power_dvd) simp
    then have "32 dvd unat (mr_base_addr config)" using True by (auto intro: dvd_trans)
    then have base: "?rbar AND NOT 0x1F = mr_base_addr config" using True by (intro base_register) simp_all
    have fields: "size_to_mpu_size (mr_size config) < 32" using s(4) assms(4) by simp
    have "unat (rasr_size ?rasr) = s"
      unfolding rasr_fields(3) [OF fields] using s(4) assms(4) by (simp add: unat_of_nat)
    moreover have "mp_regions mpu' = (mp_regions mpu)[i := (?rbar, ?rasr)]" using res by (simp only: write_region_def) simp
    ultimately show ?thesis
      using base rasr_fields [OF fields] res(1) unfolding if_P [OF True] by blast
  next
    case False
    with assms(3) al show ?thesis
      by (auto simp: jezgro_mpu_configure_region_def Let_def split: if_splits simp flip: assms(4))
  qed
qed

definition blank_context :: jezgro_mpu_context where
  "blank_context = \<lparr>mc_service_id = 0, mc_num_regions = 0, mc_regions = replicate JEZGRO_MPU_MAX_REGIONS blank_region,
     mc_privileged = False\<rparr>"

definition blank_mpu :: jezgro_mpu where
  "blank_mpu = \<lparr>mp_type = 0x800, mp_ctrl = 0, mp_regions = replicate 8 (0, 0), mp_current_region = 0,
     mp_contexts = replicate 4 blank_context, mp_current_service = 0, mp_num_services = 0,
     mp_default_handler = False, mp_initialized = False\<rparr>"

theorem mpu_configure_exact_witness:
  "fst (jezgro_mpu_configure_region blank_mpu 1 kernel_data) = EKK_OK"
proof -
  have len: "length (mp_regions blank_mpu) = JEZGRO_MPU_MAX_REGIONS" by (simp add: blank_mpu_def)
  have sz: "unat (mr_size kernel_data) \<le> 2 ^ 31" by (simp add: kernel_data_def)
  have s: "size_to_mpu_size (mr_size kernel_data) = 16" by code_simp
  have "2 ^ Suc (size_to_mpu_size (mr_size kernel_data)) dvd unat (mr_base_addr kernel_data)"
    unfolding s by (simp add: kernel_data_def)
  with mpu_configure_exact [OF len sz surjective_pairing refl, of 1] show ?thesis by simp
qed

section \<open>Services and the region file\<close>

lemma configure_region_simps:
  "mp_num_services (snd (jezgro_mpu_configure_region mpu i config)) = mp_num_services mpu"
  "mp_contexts (snd (jezgro_mpu_configure_region mpu i config)) = mp_contexts mpu"
  "r \<noteq> i \<Longrightarrow> mp_regions (snd (jezgro_mpu_configure_region mpu i config)) ! r = mp_regions mpu ! r"
  by (simp_all add: jezgro_mpu_configure_region_def write_region_def Let_def)

text \<open>
  Registration fails exactly when the id is reserved or two services have been registered: the
  limit of three is never reached, because the regions of a third service do not exist.
\<close>

lemma register_service_result:
  "fst (jezgro_mpu_register_service mpu desc) =
     (if sd_id desc = 0 then EKK_ERR_INVALID_ARG else if mp_num_services mpu \<ge> 2 then EKK_ERR_LIMIT else EKK_OK)"
  "mp_num_services (snd (jezgro_mpu_register_service mpu desc)) =
     (if sd_id desc = 0 \<or> mp_num_services mpu \<ge> 2 then mp_num_services mpu else Suc (mp_num_services mpu))"
  by (auto simp: jezgro_mpu_register_service_def Let_def case_prod_beta configure_region_simps)

lemma switch_context_num_services:
  "mp_num_services (snd (jezgro_mpu_switch_context mpu service_id)) = mp_num_services mpu"
  by (auto simp: jezgro_mpu_switch_context_def jezgro_mpu_enable_def jezgro_mpu_disable_def Let_def case_prod_beta
      configure_region_simps split: option.split)

text \<open>
  A switch rewrites the regions 3 and 4 only, so the regions 5 and 6 that the second
  registration enabled stay as they are whichever service runs.
\<close>

lemma switch_context_leaves_second_service:
  "r \<noteq> JEZGRO_REGION_SERVICE1_CODE \<Longrightarrow> r \<noteq> JEZGRO_REGION_SERVICE1_DATA \<Longrightarrow>
   mp_regions (snd (jezgro_mpu_switch_context mpu service_id)) ! r = mp_regions mpu ! r"
  by (auto simp: jezgro_mpu_switch_context_def jezgro_mpu_enable_def jezgro_mpu_disable_def Let_def case_prod_beta
      configure_region_simps split: option.split)

end
