(* ===== verification/Jezgro_Rs.thy ===== *)
theory Jezgro_Rs
  imports Ekk_Interfaces Jezgro_Ipc Jezgro_Mpu
begin

text \<open>
  The reincarnation server (\<open>src/jezgro/jezgro_reincarnation.c\<close>,
  \<open>include/ekk/jezgro/jezgro_reincarnation.h\<close>): it starts and stops services, watches their
  heartbeats, records crashes and restarts crashed services after a delay. Its static variables
  are the record \<open>jezgro_rs\<close>, together with the state of the message passing and of the memory
  protection that it calls. Clock readings are arguments: the millisecond readings of an
  operation in order, and for every start the two microsecond readings around it. The crash
  callback is an output. The printing functions are not modelled.
\<close>

section \<open>State\<close>

abbreviation (input) JEZGRO_RS_MAX_SERVICES :: nat where "JEZGRO_RS_MAX_SERVICES \<equiv> 8"
abbreviation (input) JEZGRO_RS_HEARTBEAT_INTERVAL_MS :: u32 where "JEZGRO_RS_HEARTBEAT_INTERVAL_MS \<equiv> 20"
abbreviation (input) JEZGRO_RS_HEARTBEAT_TIMEOUT_MS :: u32 where "JEZGRO_RS_HEARTBEAT_TIMEOUT_MS \<equiv> 50"
abbreviation (input) JEZGRO_RS_MAX_RESTART_ATTEMPTS :: u8 where "JEZGRO_RS_MAX_RESTART_ATTEMPTS \<equiv> 5"
abbreviation (input) JEZGRO_RS_RESTART_BACKOFF_MS :: u32 where "JEZGRO_RS_RESTART_BACKOFF_MS \<equiv> 100"

datatype jezgro_service_state = JEZGRO_SERVICE_STATE_INIT | JEZGRO_SERVICE_STATE_STARTING
  | JEZGRO_SERVICE_STATE_RUNNING | JEZGRO_SERVICE_STATE_STOPPING | JEZGRO_SERVICE_STATE_CRASHED
  | JEZGRO_SERVICE_STATE_DEAD

datatype jezgro_crash_reason = JEZGRO_CRASH_NONE | JEZGRO_CRASH_MPU_FAULT | JEZGRO_CRASH_HEARTBEAT
  | JEZGRO_CRASH_EXCEPTION | JEZGRO_CRASH_PANIC | JEZGRO_CRASH_WATCHDOG | JEZGRO_CRASH_REQUESTED

record jezgro_service_info =
  si_id :: u8
  si_name :: string
  si_state :: jezgro_service_state
  si_desc :: jezgro_service_desc
  si_critical :: bool
  si_auto_restart :: bool
  si_last_heartbeat_ms :: u32
  si_missed_heartbeats :: u8
  si_restart_count :: u8
  si_consecutive_crashes :: u8
  si_last_crash :: jezgro_crash_reason
  si_last_crash_time_ms :: u32
  si_start_time_ms :: u32
  si_total_uptime_ms :: u32
  si_last_restart_duration_ms :: u32

record jezgro_rs_stats =
  rt_total_restarts :: u32
  rt_mpu_faults :: u32
  rt_heartbeat_timeouts :: u32
  rt_avg_restart_time_us :: u32
  rt_max_restart_time_us :: u32
  rt_min_restart_time_us :: u32
  rt_services_running :: u8
  rt_services_dead :: u8

record jezgro_rs =
  rs_services :: "jezgro_service_info list"
  rs_num_services :: nat
  rs_running :: bool
  rs_crash_callback :: bool
  rs_stats :: jezgro_rs_stats
  rs_last_heartbeat_check_ms :: u32
  rs_mpu :: jezgro_mpu
  rs_ipc :: jezgro_ipc

datatype rs_output = RsCrashed u8 jezgro_crash_reason

definition blank_desc :: jezgro_service_desc where
  "blank_desc = \<lparr>sd_id = 0, sd_name = [], sd_priv = JEZGRO_PRIV_KERNEL, sd_code_start = 0, sd_code_size = 0,
     sd_data_start = 0, sd_data_size = 0, sd_stack_start = 0, sd_stack_size = 0\<rparr>"

definition blank_service :: jezgro_service_info where
  "blank_service = \<lparr>si_id = 0, si_name = [], si_state = JEZGRO_SERVICE_STATE_INIT, si_desc = blank_desc,
     si_critical = False, si_auto_restart = False, si_last_heartbeat_ms = 0, si_missed_heartbeats = 0,
     si_restart_count = 0, si_consecutive_crashes = 0, si_last_crash = JEZGRO_CRASH_NONE,
     si_last_crash_time_ms = 0, si_start_time_ms = 0, si_total_uptime_ms = 0, si_last_restart_duration_ms = 0\<rparr>"

definition blank_rs_stats :: jezgro_rs_stats where
  "blank_rs_stats = \<lparr>rt_total_restarts = 0, rt_mpu_faults = 0, rt_heartbeat_timeouts = 0,
     rt_avg_restart_time_us = 0, rt_max_restart_time_us = 0, rt_min_restart_time_us = 0,
     rt_services_running = 0, rt_services_dead = 0\<rparr>"

definition service :: "jezgro_rs \<Rightarrow> nat \<Rightarrow> jezgro_service_info" where
  "service rs i = rs_services rs ! i"

definition update_service :: "nat \<Rightarrow> (jezgro_service_info \<Rightarrow> jezgro_service_info) \<Rightarrow> jezgro_rs \<Rightarrow> jezgro_rs" where
  "update_service i f rs = rs\<lparr>rs_services := (rs_services rs)[i := f (rs_services rs ! i)]\<rparr>"

definition update_rs_stats :: "(jezgro_rs_stats \<Rightarrow> jezgro_rs_stats) \<Rightarrow> jezgro_rs \<Rightarrow> jezgro_rs" where
  "update_rs_stats f rs = rs\<lparr>rs_stats := f (rs_stats rs)\<rparr>"

definition find_service :: "jezgro_rs \<Rightarrow> u8 \<Rightarrow> nat option" where
  "find_service rs service_id = find_from (\<lambda>s. si_id s = service_id) (rs_services rs) 0 (rs_num_services rs)"

section \<open>Starting, stopping and crashing\<close>

definition service_endpoint :: "u8 \<Rightarrow> u8" where
  "service_endpoint i = (if i = 2 then JEZGRO_EP_LLC else if i = 4 then JEZGRO_EP_DIAGNOSTICS else JEZGRO_EP_ROJ)"

definition restart_metrics :: "u32 \<Rightarrow> jezgro_rs_stats \<Rightarrow> jezgro_rs_stats" where
  "restart_metrics restart_time st =
     (let st = st\<lparr>rt_services_running := rt_services_running st + 1\<rparr>;
          st = (if rt_min_restart_time_us st = 0 \<or> restart_time < rt_min_restart_time_us st
                then st\<lparr>rt_min_restart_time_us := restart_time\<rparr> else st);
          st = (if restart_time > rt_max_restart_time_us st then st\<lparr>rt_max_restart_time_us := restart_time\<rparr> else st)
      in if rt_avg_restart_time_us st = 0 then st\<lparr>rt_avg_restart_time_us := restart_time\<rparr>
         else st\<lparr>rt_avg_restart_time_us := (rt_avg_restart_time_us st * 3 + restart_time) div 4\<rparr>)"

definition do_start_service :: "jezgro_rs \<Rightarrow> nat \<Rightarrow> u32 \<Rightarrow> u32 \<times> u32 \<Rightarrow> ekk_error \<times> jezgro_rs" where
  "do_start_service rs i now_ms us =
     (let rs = update_service i (\<lambda>s. s\<lparr>si_state := JEZGRO_SERVICE_STATE_STARTING\<rparr>) rs;
          (err, mpu) = jezgro_mpu_register_service (rs_mpu rs) (si_desc (service rs i));
          rs = rs\<lparr>rs_mpu := mpu\<rparr>
      in if err \<noteq> EKK_OK then (err, rs)
         else
           (let (_, ipc) = jezgro_ipc_register_endpoint (rs_ipc rs) (service_endpoint (si_id (service rs i))) (si_id (service rs i));
                (_, mpu) = jezgro_mpu_switch_context (rs_mpu rs) (si_id (service rs i));
                restart_time = snd us - fst us;
                rs = update_service i (\<lambda>s. s\<lparr>si_state := JEZGRO_SERVICE_STATE_RUNNING, si_start_time_ms := now_ms,
                  si_last_heartbeat_ms := now_ms, si_missed_heartbeats := 0,
                  si_last_restart_duration_ms := restart_time div 1000\<rparr>) (rs\<lparr>rs_ipc := ipc, rs_mpu := mpu\<rparr>)
            in (EKK_OK, update_rs_stats (restart_metrics restart_time) rs)))"

definition do_stop_service :: "jezgro_rs \<Rightarrow> nat \<Rightarrow> bool \<Rightarrow> u32 \<Rightarrow> (ekk_error \<times> jezgro_rs) option" where
  "do_stop_service rs i graceful now =
     Option.bind
       (if graceful \<and> si_state (service rs i) = JEZGRO_SERVICE_STATE_RUNNING
        then (let rs = update_service i (\<lambda>s. s\<lparr>si_state := JEZGRO_SERVICE_STATE_STOPPING\<rparr>) rs
              in map_option (\<lambda>(_, ipc). rs\<lparr>rs_ipc := ipc\<rparr>) (jezgro_ipc_notify (rs_ipc rs) (si_id (service rs i)) None 0))
        else Some rs)
       (\<lambda>rs.
          (let rs = update_service i (\<lambda>s. if si_start_time_ms s > 0
                 then s\<lparr>si_total_uptime_ms := si_total_uptime_ms s + (now - si_start_time_ms s)\<rparr> else s) rs;
               rs = update_service i (\<lambda>s. s\<lparr>si_state := JEZGRO_SERVICE_STATE_INIT\<rparr>) rs
           in Some (EKK_OK, update_rs_stats (\<lambda>st. st\<lparr>rt_services_running := rt_services_running st - 1\<rparr>) rs)))"

definition record_crash :: "jezgro_crash_reason \<Rightarrow> u32 \<Rightarrow> jezgro_service_info \<Rightarrow> jezgro_service_info" where
  "record_crash reason now_ms s =
     (let s = s\<lparr>si_state := JEZGRO_SERVICE_STATE_CRASHED, si_last_crash := reason, si_last_crash_time_ms := now_ms,
            si_consecutive_crashes := si_consecutive_crashes s + 1, si_restart_count := si_restart_count s + 1\<rparr>
      in if si_start_time_ms s > 0
         then s\<lparr>si_total_uptime_ms := si_total_uptime_ms s + (now_ms - si_start_time_ms s)\<rparr> else s)"

definition crash_metrics :: "jezgro_crash_reason \<Rightarrow> jezgro_rs_stats \<Rightarrow> jezgro_rs_stats" where
  "crash_metrics reason st =
     (let st = st\<lparr>rt_total_restarts := rt_total_restarts st + 1, rt_services_running := rt_services_running st - 1\<rparr>
      in if reason = JEZGRO_CRASH_MPU_FAULT then st\<lparr>rt_mpu_faults := rt_mpu_faults st + 1\<rparr>
         else if reason = JEZGRO_CRASH_HEARTBEAT then st\<lparr>rt_heartbeat_timeouts := rt_heartbeat_timeouts st + 1\<rparr>
         else st)"

definition backoff_ms :: "jezgro_service_info \<Rightarrow> u32" where
  "backoff_ms s = JEZGRO_RS_RESTART_BACKOFF_MS * ucast (si_consecutive_crashes s)"

definition handle_crash ::
  "jezgro_rs \<Rightarrow> nat \<Rightarrow> jezgro_crash_reason \<Rightarrow> u32 \<Rightarrow> u32 \<times> u32 \<Rightarrow> jezgro_rs \<times> rs_output list"
where
  "handle_crash rs i reason now_ms us =
     (let rs = update_rs_stats (crash_metrics reason) (update_service i (record_crash reason now_ms) rs);
          outs = (if rs_crash_callback rs then [RsCrashed (si_id (service rs i)) reason] else [])
      in if \<not> si_auto_restart (service rs i) then (rs, outs)
         else if si_consecutive_crashes (service rs i) \<ge> JEZGRO_RS_MAX_RESTART_ATTEMPTS
         then (update_rs_stats (\<lambda>st. st\<lparr>rt_services_dead := rt_services_dead st + 1\<rparr>)
                 (update_service i (\<lambda>s. s\<lparr>si_state := JEZGRO_SERVICE_STATE_DEAD\<rparr>) rs), outs)
         else if backoff_ms (service rs i) = 0 then (snd (do_start_service rs i now_ms us), outs)
         else (rs, outs))"

section \<open>The periodic checks\<close>

definition check_heartbeat ::
  "u32 \<Rightarrow> (nat \<Rightarrow> u32 \<times> u32) \<Rightarrow> nat \<Rightarrow> jezgro_rs \<times> rs_output list \<Rightarrow> jezgro_rs \<times> rs_output list"
where
  "check_heartbeat now_ms us i = (\<lambda>(rs, outs).
     (if si_state (service rs i) \<noteq> JEZGRO_SERVICE_STATE_RUNNING then (rs, outs)
      else if now_ms - si_last_heartbeat_ms (service rs i) > JEZGRO_RS_HEARTBEAT_TIMEOUT_MS
      then (let rs = update_service i (\<lambda>s. s\<lparr>si_missed_heartbeats := si_missed_heartbeats s + 1\<rparr>) rs
            in if si_missed_heartbeats (service rs i) \<ge> 3
               then (case handle_crash rs i JEZGRO_CRASH_HEARTBEAT now_ms (us i) of (rs, o') \<Rightarrow> (rs, outs @ o'))
               else (rs, outs))
      else (rs, outs)))"

definition check_heartbeats :: "u32 \<Rightarrow> (nat \<Rightarrow> u32 \<times> u32) \<Rightarrow> jezgro_rs \<Rightarrow> jezgro_rs \<times> rs_output list" where
  "check_heartbeats now_ms us rs = fold (check_heartbeat now_ms us) [0..<rs_num_services rs] (rs, [])"

definition restart_due :: "u32 \<Rightarrow> jezgro_service_info \<Rightarrow> bool" where
  "restart_due now_ms s =
     (si_state s = JEZGRO_SERVICE_STATE_CRASHED \<and> now_ms - si_last_crash_time_ms s \<ge> backoff_ms s)"

definition check_pending_restart :: "u32 \<Rightarrow> (nat \<Rightarrow> u32 \<times> u32) \<Rightarrow> nat \<Rightarrow> jezgro_rs \<Rightarrow> jezgro_rs" where
  "check_pending_restart now_ms us i rs =
     (if restart_due now_ms (service rs i) then snd (do_start_service rs i now_ms (us i)) else rs)"

definition check_pending_restarts :: "u32 \<Rightarrow> (nat \<Rightarrow> u32 \<times> u32) \<Rightarrow> jezgro_rs \<Rightarrow> jezgro_rs" where
  "check_pending_restarts now_ms us rs = fold (check_pending_restart now_ms us) [0..<rs_num_services rs] rs"

section \<open>Public operations\<close>

definition jezgro_rs_init :: "jezgro_rs \<Rightarrow> ekk_error \<times> jezgro_rs" where
  "jezgro_rs_init rs =
     (EKK_OK, rs\<lparr>rs_services := replicate JEZGRO_RS_MAX_SERVICES blank_service, rs_stats := blank_rs_stats,
        rs_num_services := 0, rs_running := False, rs_crash_callback := False\<rparr>)"

definition jezgro_rs_start :: "u32 \<Rightarrow> jezgro_rs \<Rightarrow> jezgro_rs" where
  "jezgro_rs_start now rs = rs\<lparr>rs_running := True, rs_last_heartbeat_check_ms := now\<rparr>"

definition jezgro_rs_stop :: "(nat \<Rightarrow> u32) \<Rightarrow> jezgro_rs \<Rightarrow> jezgro_rs option" where
  "jezgro_rs_stop now rs =
     fold (\<lambda>i r. Option.bind r (\<lambda>rs.
         if si_state (service rs i) = JEZGRO_SERVICE_STATE_RUNNING
         then map_option snd (do_stop_service rs i True (now i)) else Some rs))
       [0..<rs_num_services rs] (Some (rs\<lparr>rs_running := False\<rparr>))"

definition jezgro_rs_register_service :: "jezgro_rs \<Rightarrow> jezgro_service_desc \<Rightarrow> bool \<Rightarrow> bool \<Rightarrow> ekk_error \<times> jezgro_rs" where
  "jezgro_rs_register_service rs desc critical auto_restart =
     (if rs_num_services rs \<ge> JEZGRO_RS_MAX_SERVICES then (EKK_ERR_LIMIT, rs)
      else (EKK_OK, (update_service (rs_num_services rs)
             (\<lambda>s. s\<lparr>si_id := sd_id desc, si_name := sd_name desc, si_state := JEZGRO_SERVICE_STATE_INIT,
                si_desc := desc, si_critical := critical, si_auto_restart := auto_restart, si_last_heartbeat_ms := 0,
                si_missed_heartbeats := 0, si_restart_count := 0, si_consecutive_crashes := 0,
                si_last_crash := JEZGRO_CRASH_NONE, si_total_uptime_ms := 0\<rparr>) rs)
             \<lparr>rs_num_services := rs_num_services rs + 1\<rparr>))"

definition jezgro_rs_start_service :: "jezgro_rs \<Rightarrow> u8 \<Rightarrow> u32 \<Rightarrow> u32 \<times> u32 \<Rightarrow> ekk_error \<times> jezgro_rs" where
  "jezgro_rs_start_service rs service_id now us =
     (case find_service rs service_id of
        None \<Rightarrow> (EKK_ERR_NOT_FOUND, rs)
      | Some i \<Rightarrow>
          if si_state (service rs i) = JEZGRO_SERVICE_STATE_RUNNING then (EKK_OK, rs)
          else if si_state (service rs i) = JEZGRO_SERVICE_STATE_DEAD then (EKK_ERR_INVALID_ARG, rs)
          else do_start_service (update_service i (\<lambda>s. s\<lparr>si_consecutive_crashes := 0\<rparr>) rs) i now us)"

definition jezgro_rs_stop_service :: "jezgro_rs \<Rightarrow> u8 \<Rightarrow> bool \<Rightarrow> u32 \<Rightarrow> (ekk_error \<times> jezgro_rs) option" where
  "jezgro_rs_stop_service rs service_id graceful now =
     (case find_service rs service_id of
        None \<Rightarrow> Some (EKK_ERR_NOT_FOUND, rs)
      | Some i \<Rightarrow> do_stop_service rs i graceful now)"

definition jezgro_rs_restart_service ::
  "jezgro_rs \<Rightarrow> u8 \<Rightarrow> u32 \<times> u32 \<times> u32 \<Rightarrow> u32 \<times> u32 \<Rightarrow> (ekk_error \<times> jezgro_rs) option"
where
  "jezgro_rs_restart_service rs service_id = (\<lambda>(now1, now2, now3) us.
     (case find_service rs service_id of
        None \<Rightarrow> Some (EKK_ERR_NOT_FOUND, rs)
      | Some i \<Rightarrow>
          Option.bind (if si_state (service rs i) = JEZGRO_SERVICE_STATE_RUNNING
            then map_option snd (do_stop_service rs i False now1) else Some rs)
            (\<lambda>rs. Some (do_start_service (update_service i (\<lambda>s. s\<lparr>si_state := JEZGRO_SERVICE_STATE_CRASHED,
               si_last_crash := JEZGRO_CRASH_REQUESTED, si_last_crash_time_ms := now2\<rparr>) rs) i now3 us))))"

definition jezgro_rs_get_service_info :: "jezgro_rs \<Rightarrow> u8 \<Rightarrow> ekk_error \<times> jezgro_service_info option" where
  "jezgro_rs_get_service_info rs service_id =
     (case find_service rs service_id of
        None \<Rightarrow> (EKK_ERR_NOT_FOUND, None)
      | Some i \<Rightarrow> (EKK_OK, Some (service rs i)))"

definition jezgro_rs_tick :: "u32 \<Rightarrow> (nat \<Rightarrow> u32 \<times> u32) \<Rightarrow> jezgro_rs \<Rightarrow> jezgro_rs \<times> rs_output list" where
  "jezgro_rs_tick now_ms us rs =
     (if \<not> rs_running rs then (rs, [])
      else
        (let (rs, outs) =
               (if now_ms - rs_last_heartbeat_check_ms rs \<ge> JEZGRO_RS_HEARTBEAT_INTERVAL_MS
                then (case check_heartbeats now_ms us rs of
                        (rs, outs) \<Rightarrow> (rs\<lparr>rs_last_heartbeat_check_ms := now_ms\<rparr>, outs))
                else (rs, []))
         in (check_pending_restarts now_ms us rs, outs)))"

definition jezgro_rs_heartbeat :: "u8 \<Rightarrow> u32 \<Rightarrow> jezgro_rs \<Rightarrow> jezgro_rs" where
  "jezgro_rs_heartbeat service_id now rs =
     (case find_service rs service_id of
        None \<Rightarrow> rs
      | Some i \<Rightarrow> update_service i (\<lambda>s.
          (let s = s\<lparr>si_last_heartbeat_ms := now, si_missed_heartbeats := 0\<rparr>
           in if si_consecutive_crashes s > 0 then s\<lparr>si_consecutive_crashes := 0\<rparr> else s)) rs)"

definition jezgro_rs_report_crash ::
  "u8 \<Rightarrow> jezgro_crash_reason \<Rightarrow> u32 \<Rightarrow> u32 \<times> u32 \<Rightarrow> jezgro_rs \<Rightarrow> jezgro_rs \<times> rs_output list"
where
  "jezgro_rs_report_crash service_id reason now us rs =
     (case find_service rs service_id of
        None \<Rightarrow> (rs, [])
      | Some i \<Rightarrow> handle_crash rs i reason now us)"

definition jezgro_rs_set_crash_callback :: "bool \<Rightarrow> jezgro_rs \<Rightarrow> jezgro_rs" where
  "jezgro_rs_set_crash_callback callback rs = rs\<lparr>rs_crash_callback := callback\<rparr>"

definition jezgro_rs_get_stats :: "jezgro_rs \<Rightarrow> jezgro_rs_stats" where
  "jezgro_rs_get_stats rs = rs_stats rs"

definition jezgro_rs_reset_stats :: "jezgro_rs \<Rightarrow> jezgro_rs" where
  "jezgro_rs_reset_stats rs = update_rs_stats (\<lambda>st. blank_rs_stats
     \<lparr>rt_services_running := rt_services_running st, rt_services_dead := rt_services_dead st\<rparr>) rs"

section \<open>What the operations leave alone\<close>

named_theorems rs_simps \<open>the parts of the state an operation does not touch\<close>

lemma update_service_simps [rs_simps]:
  "rs_num_services (update_service i f rs) = rs_num_services rs"
  "length (rs_services (update_service i f rs)) = length (rs_services rs)"
  "rs_mpu (update_service i f rs) = rs_mpu rs" "rs_ipc (update_service i f rs) = rs_ipc rs"
  "rs_running (update_service i f rs) = rs_running rs"
  "rs_crash_callback (update_service i f rs) = rs_crash_callback rs"
  "rs_last_heartbeat_check_ms (update_service i f rs) = rs_last_heartbeat_check_ms rs"
  "j \<noteq> i \<Longrightarrow> service (update_service i f rs) j = service rs j"
  "i < length (rs_services rs) \<Longrightarrow> service (update_service i f rs) i = f (service rs i)"
  by (simp_all add: update_service_def service_def)

lemma update_rs_stats_simps [rs_simps]:
  "rs_num_services (update_rs_stats g rs) = rs_num_services rs" "rs_services (update_rs_stats g rs) = rs_services rs"
  "rs_mpu (update_rs_stats g rs) = rs_mpu rs" "rs_running (update_rs_stats g rs) = rs_running rs"
  "rs_crash_callback (update_rs_stats g rs) = rs_crash_callback rs"
  "rs_last_heartbeat_check_ms (update_rs_stats g rs) = rs_last_heartbeat_check_ms rs"
  "service (update_rs_stats g rs) = service rs"
  by (simp_all add: update_rs_stats_def service_def fun_eq_iff)

lemma service_update_other [rs_simps]:
  "service (rs\<lparr>rs_mpu := m\<rparr>) = service rs" "service (rs\<lparr>rs_ipc := p\<rparr>) = service rs"
  "service (rs\<lparr>rs_running := b\<rparr>) = service rs" "service (rs\<lparr>rs_last_heartbeat_check_ms := t\<rparr>) = service rs"
  "service (rs\<lparr>rs_num_services := n\<rparr>) = service rs" "service (rs\<lparr>rs_crash_callback := b\<rparr>) = service rs"
  by (simp_all add: service_def fun_eq_iff)

definition num_mpu :: "jezgro_rs \<Rightarrow> nat" where
  "num_mpu rs = mp_num_services (rs_mpu rs)"

definition rs_ok :: "jezgro_rs \<Rightarrow> bool" where
  "rs_ok rs \<longleftrightarrow> length (rs_services rs) = JEZGRO_RS_MAX_SERVICES \<and> rs_num_services rs \<le> JEZGRO_RS_MAX_SERVICES"

text \<open>A start succeeds exactly when the memory protection still has a pair of regions.\<close>

definition can_start :: "jezgro_rs \<Rightarrow> nat \<Rightarrow> bool" where
  "can_start rs i \<longleftrightarrow> sd_id (si_desc (service rs i)) \<noteq> 0 \<and> num_mpu rs < 2"

lemma do_start_service_simps [rs_simps]:
  "rs_num_services (snd (do_start_service rs i now us)) = rs_num_services rs"
  "length (rs_services (snd (do_start_service rs i now us))) = length (rs_services rs)"
  "rs_running (snd (do_start_service rs i now us)) = rs_running rs"
  "rs_crash_callback (snd (do_start_service rs i now us)) = rs_crash_callback rs"
  "rs_last_heartbeat_check_ms (snd (do_start_service rs i now us)) = rs_last_heartbeat_check_ms rs"
  "j \<noteq> i \<Longrightarrow> service (snd (do_start_service rs i now us)) j = service rs j"
  by (simp_all add: do_start_service_def Let_def case_prod_beta rs_simps)

lemma desc_update_service [rs_simps]:
  "(\<And>s. si_desc (f s) = si_desc s) \<Longrightarrow> si_desc (service (update_service i f rs) j) = si_desc (service rs j)"
  by (cases "j = i"; cases "i < length (rs_services rs)")
    (simp_all add: update_service_def service_def not_less list_update_beyond)

lemma do_start_service_result:
  "num_mpu (snd (do_start_service rs i now us)) = (if can_start rs i then Suc (num_mpu rs) else num_mpu rs)"
  "fst (do_start_service rs i now us) = EKK_OK \<longleftrightarrow> can_start rs i"
  "i < length (rs_services rs) \<Longrightarrow> si_state (service (snd (do_start_service rs i now us)) i) =
     (if can_start rs i then JEZGRO_SERVICE_STATE_RUNNING else JEZGRO_SERVICE_STATE_STARTING)"
  by (simp_all add: do_start_service_def Let_def case_prod_beta rs_simps num_mpu_def can_start_def
      register_service_result switch_context_num_services)

lemma handle_crash_simps [rs_simps]:
  "rs_num_services (fst (handle_crash rs i reason now us)) = rs_num_services rs"
  "length (rs_services (fst (handle_crash rs i reason now us))) = length (rs_services rs)"
  "rs_running (fst (handle_crash rs i reason now us)) = rs_running rs"
  "rs_crash_callback (fst (handle_crash rs i reason now us)) = rs_crash_callback rs"
  "rs_last_heartbeat_check_ms (fst (handle_crash rs i reason now us)) = rs_last_heartbeat_check_ms rs"
  "j \<noteq> i \<Longrightarrow> service (fst (handle_crash rs i reason now us)) j = service rs j"
  by (simp_all add: handle_crash_def Let_def rs_simps)

lemma check_heartbeat_simps [rs_simps]:
  "rs_num_services (fst (check_heartbeat now us i p)) = rs_num_services (fst p)"
  "length (rs_services (fst (check_heartbeat now us i p))) = length (rs_services (fst p))"
  "rs_running (fst (check_heartbeat now us i p)) = rs_running (fst p)"
  "rs_crash_callback (fst (check_heartbeat now us i p)) = rs_crash_callback (fst p)"
  "rs_last_heartbeat_check_ms (fst (check_heartbeat now us i p)) = rs_last_heartbeat_check_ms (fst p)"
  "j \<noteq> i \<Longrightarrow> service (fst (check_heartbeat now us i p)) j = service (fst p) j"
  by (simp_all add: check_heartbeat_def Let_def case_prod_beta rs_simps)

lemma check_pending_restart_simps [rs_simps]:
  "rs_num_services (check_pending_restart now us i rs) = rs_num_services rs"
  "length (rs_services (check_pending_restart now us i rs)) = length (rs_services rs)"
  "rs_running (check_pending_restart now us i rs) = rs_running rs"
  "rs_crash_callback (check_pending_restart now us i rs) = rs_crash_callback rs"
  "rs_last_heartbeat_check_ms (check_pending_restart now us i rs) = rs_last_heartbeat_check_ms rs"
  "j \<noteq> i \<Longrightarrow> service (check_pending_restart now us i rs) j = service rs j"
  by (simp_all add: check_pending_restart_def rs_simps)

section \<open>Starts are never given back\<close>

definition running :: "jezgro_rs \<Rightarrow> nat set" where
  "running rs = {i. i < length (rs_services rs) \<and> si_state (service rs i) = JEZGRO_SERVICE_STATE_RUNNING}"

lemma finite_running [simp]: "finite (running rs)"
  by (rule finite_subset [of _ "{..<length (rs_services rs)}"]) (auto simp: running_def)

text \<open>
  What every operation does to the pair of the running services and the regions handed out: the
  number of services that came up is at most the number of region pairs taken.
\<close>

definition evolves :: "jezgro_rs \<Rightarrow> jezgro_rs \<Rightarrow> bool" where
  "evolves rs rs' \<longleftrightarrow> (rs_ok rs \<longrightarrow> rs_ok rs' \<and> num_mpu rs \<le> num_mpu rs' \<and> num_mpu rs' \<le> max 2 (num_mpu rs) \<and>
     card (running rs' - running rs) \<le> num_mpu rs' - num_mpu rs)"

lemma evolves_refl [simp, intro]: "evolves rs rs"
  by (simp add: evolves_def)

lemma evolves_trans [trans]:
  assumes "evolves a b" "evolves b c"
  shows "evolves a c"
  unfolding evolves_def
proof (intro impI)
  assume "rs_ok a"
  with assms(1) have b: "rs_ok b" "num_mpu a \<le> num_mpu b" "num_mpu b \<le> max 2 (num_mpu a)"
      "card (running b - running a) \<le> num_mpu b - num_mpu a" by (simp_all add: evolves_def)
  with assms(2) have c: "rs_ok c" "num_mpu b \<le> num_mpu c" "num_mpu c \<le> max 2 (num_mpu b)"
      "card (running c - running b) \<le> num_mpu c - num_mpu b" by (simp_all add: evolves_def)
  have "card (running c - running a) \<le> card ((running c - running b) \<union> (running b - running a))"
    by (intro card_mono) auto
  also have "\<dots> \<le> card (running c - running b) + card (running b - running a)" by (rule card_Un_le)
  finally show "rs_ok c \<and> num_mpu a \<le> num_mpu c \<and> num_mpu c \<le> max 2 (num_mpu a) \<and>
      card (running c - running a) \<le> num_mpu c - num_mpu a" using b c by linarith
qed

lemma evolves_fold: "(\<And>i rs. evolves rs (f i rs)) \<Longrightarrow> evolves rs (fold f xs rs)"
  by (induction xs arbitrary: rs) (auto intro: evolves_trans)

lemma evolves_fold_fst: "(\<And>i p. evolves (fst p) (fst (f i p))) \<Longrightarrow> evolves (fst p) (fst (fold f xs p))"
proof (induction xs arbitrary: p)
  case (Cons x xs)
  from Cons.IH [OF Cons.prems, of "f x p"] evolves_trans [OF Cons.prems [of p x]] show ?case by simp
qed simp

lemma evolves_no_start:
  assumes "length (rs_services rs') = length (rs_services rs)"
    and "rs_num_services rs' \<le> max (rs_num_services rs) JEZGRO_RS_MAX_SERVICES"
    and "num_mpu rs' = num_mpu rs" "running rs' \<subseteq> running rs"
  shows "evolves rs rs'"
  using assms by (auto simp: evolves_def rs_ok_def Diff_eq_empty_iff [THEN iffD2])

lemma evolves_update_service:
  assumes "\<And>s. si_state (f s) = JEZGRO_SERVICE_STATE_RUNNING \<Longrightarrow> si_state s = JEZGRO_SERVICE_STATE_RUNNING"
  shows "evolves rs (update_service i f rs)"
proof (rule evolves_no_start)
  show "running (update_service i f rs) \<subseteq> running rs"
  proof
    fix j assume "j \<in> running (update_service i f rs)"
    with assms show "j \<in> running rs" by (cases "j = i") (auto simp: running_def rs_simps)
  qed
qed (simp_all add: rs_simps num_mpu_def)

lemma evolves_other:
  assumes "rs_services rs' = rs_services rs" "rs_num_services rs' = rs_num_services rs" "num_mpu rs' = num_mpu rs"
  shows "evolves rs rs'"
  using assms by (intro evolves_no_start) (auto simp: running_def service_def)

lemma evolves_do_start: "evolves rs (snd (do_start_service rs i now us))"
proof -
  let ?rs = "snd (do_start_service rs i now us)"
  have sub: "running ?rs - running rs \<subseteq> (if can_start rs i then {i} else {})"
  proof
    fix j assume j: "j \<in> running ?rs - running rs"
    have "j = i"
    proof (rule ccontr)
      assume "j \<noteq> i"
      with j show False by (simp add: running_def rs_simps) blast
    qed
    with j do_start_service_result(3) [of i rs now us] show "j \<in> (if can_start rs i then {i} else {})"
      by (auto simp: running_def rs_simps split: if_splits)
  qed
  have "card (running ?rs - running rs) \<le> card (if can_start rs i then {i} else {})" by (rule card_mono [OF _ sub]) simp
  then show ?thesis
    using do_start_service_result(1) [of rs i now us]
    by (auto simp: evolves_def rs_ok_def rs_simps can_start_def split: if_splits)
qed

lemma record_crash_state [rs_simps]: "si_state (record_crash reason now s) = JEZGRO_SERVICE_STATE_CRASHED"
  by (simp add: record_crash_def Let_def)

lemma evolves_stats: "evolves rs (update_rs_stats g rs)"
  by (rule evolves_other) (simp_all add: rs_simps num_mpu_def)

lemma evolves_handle_crash: "evolves rs (fst (handle_crash rs i reason now us))"
proof -
  let ?rs = "update_rs_stats (crash_metrics reason) (update_service i (record_crash reason now) rs)"
  have "evolves rs ?rs"
    by (rule evolves_trans [OF evolves_update_service evolves_stats]) (simp add: rs_simps)
  moreover have "evolves ?rs (update_rs_stats g (update_service i (\<lambda>s. s\<lparr>si_state := JEZGRO_SERVICE_STATE_DEAD\<rparr>) ?rs))" for g
    by (rule evolves_trans [OF evolves_update_service evolves_stats]) simp
  ultimately show ?thesis
    unfolding handle_crash_def Let_def using evolves_do_start [of ?rs i now us] by (auto intro: evolves_trans)
qed

lemma evolves_check_heartbeat: "evolves (fst p) (fst (check_heartbeat now us i p))"
proof -
  let ?f = "\<lambda>s. s\<lparr>si_missed_heartbeats := si_missed_heartbeats s + 1\<rparr>"
  have "evolves (fst p) (update_service i ?f (fst p))" by (rule evolves_update_service) simp
  with evolves_handle_crash [of "update_service i ?f (fst p)" i JEZGRO_CRASH_HEARTBEAT now "us i"] show ?thesis
    by (auto simp: check_heartbeat_def Let_def case_prod_beta intro: evolves_trans)
qed

lemma evolves_check_heartbeats: "evolves rs (fst (check_heartbeats now us rs))"
  unfolding check_heartbeats_def
  using evolves_fold_fst [OF evolves_check_heartbeat, of "(rs, [])"] by simp

lemma evolves_check_pending: "evolves rs (check_pending_restarts now us rs)"
  unfolding check_pending_restarts_def
  by (rule evolves_fold) (simp add: check_pending_restart_def evolves_do_start)

lemma evolves_tick: "evolves rs (fst (jezgro_rs_tick now us rs))"
proof -
  have "evolves rs ((fst (check_heartbeats now us rs))\<lparr>rs_last_heartbeat_check_ms := now\<rparr>)"
    by (rule evolves_trans [OF evolves_check_heartbeats evolves_other]) (simp_all add: num_mpu_def)
  then show ?thesis
    by (auto simp: jezgro_rs_tick_def Let_def case_prod_beta intro: evolves_check_pending evolves_trans)
qed

lemma evolves_do_stop:
  assumes "do_stop_service rs i graceful now = Some (err, rs')"
  shows "evolves rs rs'"
proof -
  from assms obtain rs1 where rs1: "(if graceful \<and> si_state (service rs i) = JEZGRO_SERVICE_STATE_RUNNING
        then (let rs = update_service i (\<lambda>s. s\<lparr>si_state := JEZGRO_SERVICE_STATE_STOPPING\<rparr>) rs
              in map_option (\<lambda>(_, ipc). rs\<lparr>rs_ipc := ipc\<rparr>) (jezgro_ipc_notify (rs_ipc rs) (si_id (service rs i)) None 0))
        else Some rs) = Some rs1"
    and rs': "rs' = update_rs_stats (\<lambda>st. st\<lparr>rt_services_running := rt_services_running st - 1\<rparr>)
      (update_service i (\<lambda>s. s\<lparr>si_state := JEZGRO_SERVICE_STATE_INIT\<rparr>)
        (update_service i (\<lambda>s. if si_start_time_ms s > 0
                 then s\<lparr>si_total_uptime_ms := si_total_uptime_ms s + (now - si_start_time_ms s)\<rparr> else s) rs1))"
    by (auto simp: do_stop_service_def Let_def bind_eq_Some_conv)
  have "evolves rs (update_service i (\<lambda>s. s\<lparr>si_state := JEZGRO_SERVICE_STATE_STOPPING\<rparr>) rs)"
    by (rule evolves_update_service) simp
  also have "evolves \<dots> (\<dots>\<lparr>rs_ipc := ipc\<rparr>)" for ipc by (rule evolves_other) (simp_all add: num_mpu_def)
  finally have "evolves rs rs1" using rs1 by (auto simp: Let_def split: if_splits)
  also have "evolves rs1 rs'" unfolding rs'
    by (intro evolves_trans [OF _ evolves_stats] evolves_trans [OF evolves_update_service evolves_update_service])
      (simp_all split: if_splits)
  finally show ?thesis .
qed

section \<open>Runs\<close>

datatype rs_event =
    RsInit
  | RsStart u32
  | RsStop "nat \<Rightarrow> u32"
  | RsRegister jezgro_service_desc bool bool
  | RsStartService u8 u32 "u32 \<times> u32"
  | RsStopService u8 bool u32
  | RsRestart u8 "u32 \<times> u32 \<times> u32" "u32 \<times> u32"
  | RsTick u32 "nat \<Rightarrow> u32 \<times> u32"
  | RsHeartbeat u8 u32
  | RsReportCrash u8 jezgro_crash_reason u32 "u32 \<times> u32"
  | RsSetCallback bool
  | RsResetStats
  | RsIpc "jezgro_ipc \<Rightarrow> jezgro_ipc"

definition rs_step :: "jezgro_rs \<Rightarrow> rs_event \<Rightarrow> jezgro_rs option" where
  "rs_step rs e =
     (case e of
        RsInit \<Rightarrow> Some (snd (jezgro_rs_init rs))
      | RsStart now \<Rightarrow> Some (jezgro_rs_start now rs)
      | RsStop now \<Rightarrow> jezgro_rs_stop now rs
      | RsRegister desc critical auto_restart \<Rightarrow> Some (snd (jezgro_rs_register_service rs desc critical auto_restart))
      | RsStartService service_id now us \<Rightarrow> Some (snd (jezgro_rs_start_service rs service_id now us))
      | RsStopService service_id graceful now \<Rightarrow> map_option snd (jezgro_rs_stop_service rs service_id graceful now)
      | RsRestart service_id now us \<Rightarrow> map_option snd (jezgro_rs_restart_service rs service_id now us)
      | RsTick now us \<Rightarrow> Some (fst (jezgro_rs_tick now us rs))
      | RsHeartbeat service_id now \<Rightarrow> Some (jezgro_rs_heartbeat service_id now rs)
      | RsReportCrash service_id reason now us \<Rightarrow> Some (fst (jezgro_rs_report_crash service_id reason now us rs))
      | RsSetCallback callback \<Rightarrow> Some (jezgro_rs_set_crash_callback callback rs)
      | RsResetStats \<Rightarrow> Some (jezgro_rs_reset_stats rs)
      | RsIpc f \<Rightarrow> Some (rs\<lparr>rs_ipc := f (rs_ipc rs)\<rparr>))"

text \<open>The states of a run, and the number of times a service that was not running came to run.\<close>

fun rs_run :: "jezgro_rs \<Rightarrow> rs_event list \<Rightarrow> jezgro_rs option" where
  "rs_run rs [] = Some rs"
| "rs_run rs (e # es) = Option.bind (rs_step rs e) (\<lambda>rs. rs_run rs es)"

fun come_ups :: "jezgro_rs \<Rightarrow> rs_event list \<Rightarrow> nat" where
  "come_ups rs [] = 0"
| "come_ups rs (e # es) =
     (case rs_step rs e of None \<Rightarrow> 0 | Some rs' \<Rightarrow> card (running rs' - running rs) + come_ups rs' es)"

lemma evolves_stop: "jezgro_rs_stop now rs = Some rs' \<Longrightarrow> evolves rs rs'"
proof -
  let ?f = "\<lambda>i r. Option.bind r (\<lambda>rs. if si_state (service rs i) = JEZGRO_SERVICE_STATE_RUNNING
         then map_option snd (do_stop_service rs i True (now i)) else Some rs)"
  have fold_ev: "fold ?f xs (Some a) = Some b \<Longrightarrow> evolves a b" for xs a b
  proof (induction xs arbitrary: a)
    case (Cons x xs)
    have none: "fold ?f ys None = None" for ys by (induction ys) simp_all
    from Cons.prems obtain c where c: "?f x (Some a) = Some c" "fold ?f xs (Some c) = Some b"
      using none [of xs] by (cases "?f x (Some a)") auto
    have "evolves a c" using c(1) by (auto split: if_splits dest: evolves_do_stop)
    with Cons.IH [OF c(2)] show ?case by (blast intro: evolves_trans)
  qed simp
  assume "jezgro_rs_stop now rs = Some rs'"
  then have "evolves (rs\<lparr>rs_running := False\<rparr>) rs'" unfolding jezgro_rs_stop_def by (rule fold_ev)
  moreover have "evolves rs (rs\<lparr>rs_running := False\<rparr>)" by (rule evolves_other) (simp_all add: num_mpu_def)
  ultimately show ?thesis by (blast intro: evolves_trans)
qed

lemma evolves_register: "evolves rs (snd (jezgro_rs_register_service rs desc critical auto_restart))"
proof (cases "rs_num_services rs \<ge> JEZGRO_RS_MAX_SERVICES")
  case False
  let ?f = "\<lambda>s. s\<lparr>si_id := sd_id desc, si_name := sd_name desc, si_state := JEZGRO_SERVICE_STATE_INIT,
                si_desc := desc, si_critical := critical, si_auto_restart := auto_restart, si_last_heartbeat_ms := 0,
                si_missed_heartbeats := 0, si_restart_count := 0, si_consecutive_crashes := 0,
                si_last_crash := JEZGRO_CRASH_NONE, si_total_uptime_ms := 0\<rparr>"
  have "evolves rs (update_service (rs_num_services rs) ?f rs)" by (rule evolves_update_service) simp
  also have "evolves \<dots> (\<dots>\<lparr>rs_num_services := rs_num_services rs + 1\<rparr>)"
    using False by (intro evolves_no_start) (auto simp: rs_simps num_mpu_def running_def)
  finally show ?thesis using False by (simp add: jezgro_rs_register_service_def)
qed (simp add: jezgro_rs_register_service_def)

lemma evolves_init: "evolves rs (snd (jezgro_rs_init rs))"
proof -
  have "running (snd (jezgro_rs_init rs)) = {}"
    by (auto simp: running_def jezgro_rs_init_def service_def blank_service_def nth_append)
  then show ?thesis by (simp add: evolves_def jezgro_rs_init_def rs_ok_def num_mpu_def)
qed

lemma evolves_restart:
  assumes "jezgro_rs_restart_service rs service_id now us = Some (err, rs')"
  shows "evolves rs rs'"
proof (cases "find_service rs service_id")
  case None
  with assms show ?thesis by (cases now) (simp add: jezgro_rs_restart_service_def)
next
  case (Some i)
  obtain now1 now2 now3 where now: "now = (now1, now2, now3)" by (cases now)
  let ?crash = "\<lambda>rs. update_service i (\<lambda>s. s\<lparr>si_state := JEZGRO_SERVICE_STATE_CRASHED,
               si_last_crash := JEZGRO_CRASH_REQUESTED, si_last_crash_time_ms := now2\<rparr>) rs"
  from assms Some obtain rs1 where rs1: "(if si_state (service rs i) = JEZGRO_SERVICE_STATE_RUNNING
            then map_option snd (do_stop_service rs i False now1) else Some rs) = Some rs1"
    and rs': "do_start_service (?crash rs1) i now3 us = (err, rs')"
    by (auto simp: jezgro_rs_restart_service_def now bind_eq_Some_conv)
  have "evolves rs rs1" using rs1 by (auto split: if_splits dest: evolves_do_stop)
  also have "evolves rs1 (?crash rs1)" by (rule evolves_update_service) simp
  also have "evolves (?crash rs1) rs'" using evolves_do_start [of "?crash rs1" i now3 us] rs' by simp
  finally show ?thesis .
qed

lemma evolves_step:
  assumes "rs_step rs e = Some rs'"
  shows "evolves rs rs'"
proof -
  have start: "evolves rs (snd (jezgro_rs_start_service rs i now us))" for i now us
  proof (cases "find_service rs i")
    case (Some k)
    have "evolves rs (snd (do_start_service (update_service k (\<lambda>s. s\<lparr>si_consecutive_crashes := 0\<rparr>) rs) k now us))"
      by (rule evolves_trans [OF evolves_update_service evolves_do_start]) simp
    with Some show ?thesis by (simp add: jezgro_rs_start_service_def)
  qed (simp add: jezgro_rs_start_service_def)
  have heartbeat: "evolves rs (jezgro_rs_heartbeat i now rs)" for i now
    by (auto simp: jezgro_rs_heartbeat_def Let_def split: option.split intro!: evolves_update_service split: if_splits)
  have other: "evolves rs (jezgro_rs_start now rs)" "evolves rs (jezgro_rs_set_crash_callback b rs)"
    "evolves rs (jezgro_rs_reset_stats rs)" "evolves rs (rs\<lparr>rs_ipc := p\<rparr>)" for now b p
    by (auto simp: jezgro_rs_start_def jezgro_rs_set_crash_callback_def jezgro_rs_reset_stats_def num_mpu_def
        intro: evolves_stats evolves_other)
  have crash: "evolves rs (fst (jezgro_rs_report_crash i reason now us rs))" for i reason now us
    by (simp add: jezgro_rs_report_crash_def evolves_handle_crash split: option.split)
  have stop: "evolves rs rs''" if "jezgro_rs_stop_service rs i graceful now = Some (err, rs'')" for i graceful now err rs''
    using that by (auto simp: jezgro_rs_stop_service_def split: option.splits dest: evolves_do_stop)
  show ?thesis
    using assms start heartbeat other crash evolves_tick evolves_register evolves_init evolves_stop
    by (cases e) (auto simp: rs_step_def dest: stop evolves_restart)
qed

interpretation rs_machine: transition_invariant "\<lambda>rs rs'. \<exists>e. rs_step rs e = Some rs'" rs_ok
  by unfold_locales (use evolves_step in \<open>auto simp: evolves_def\<close>)

text \<open>Once the regions are used up, the set of the running services only shrinks.\<close>

interpretation rs_exhausted: transition_invariant "\<lambda>rs rs'. \<exists>e. rs_step rs e = Some rs'"
  "\<lambda>rs. rs_ok rs \<and> 2 \<le> num_mpu rs \<and> running rs \<subseteq> R" for R
proof unfold_locales
  fix rs rs'
  assume "\<exists>e. rs_step rs e = Some rs'" and ok: "rs_ok rs \<and> 2 \<le> num_mpu rs \<and> running rs \<subseteq> R"
  then have "evolves rs rs'" using evolves_step by blast
  with ok have "rs_ok rs'" "num_mpu rs' = num_mpu rs" "card (running rs' - running rs) \<le> 0"
    by (auto simp: evolves_def max_def split: if_splits)
  moreover from this(3) have "running rs' - running rs = {}" by simp
  ultimately show "rs_ok rs' \<and> 2 \<le> num_mpu rs' \<and> running rs' \<subseteq> R" using ok by auto
qed

lemma run_reachable: "rs_run rs es = Some rs' \<Longrightarrow> (\<lambda>rs rs'. \<exists>e. rs_step rs e = Some rs')\<^sup>*\<^sup>* rs rs'"
proof (induction es arbitrary: rs)
  case (Cons e es)
  then obtain rs1 where "rs_step rs e = Some rs1" "rs_run rs1 es = Some rs'" by (auto simp: bind_eq_Some_conv)
  with Cons.IH show ?case by (blast intro: converse_rtranclp_into_rtranclp)
qed simp

lemma come_ups_bound:
  "rs_ok rs \<Longrightarrow> rs_run rs es = Some rs' \<Longrightarrow> num_mpu rs + come_ups rs es \<le> num_mpu rs' \<and> num_mpu rs' \<le> max 2 (num_mpu rs)"
proof (induction es arbitrary: rs)
  case (Cons e es)
  from Cons.prems obtain rs1 where rs1: "rs_step rs e = Some rs1" "rs_run rs1 es = Some rs'"
    by (auto simp: bind_eq_Some_conv)
  from evolves_step [OF rs1(1)] Cons.prems(1) have e: "rs_ok rs1" "num_mpu rs \<le> num_mpu rs1"
    "num_mpu rs1 \<le> max 2 (num_mpu rs)" "card (running rs1 - running rs) \<le> num_mpu rs1 - num_mpu rs"
    by (simp_all add: evolves_def)
  have "come_ups rs (e # es) = card (running rs1 - running rs) + come_ups rs1 es" using rs1(1) by simp
  with Cons.IH [OF e(1) rs1(2)] e(2,3,4) show ?case by linarith
qed simp

section \<open>Restarts\<close>

text \<open>One pass over the crashed services whose delay is over, in the order of the table.\<close>

lemma pending_loop:
  fixes now us rs
  assumes "rs_ok rs" "n \<le> rs_num_services rs" "\<And>i. i < n \<Longrightarrow> sd_id (si_desc (service rs i)) \<noteq> 0"
  defines "due \<equiv> \<lambda>n. {i. i < n \<and> restart_due now (service rs i)}"
    and "rs' \<equiv> fold (check_pending_restart now us) [0..<n] rs"
  shows "rs_ok rs' \<and> rs_num_services rs' = rs_num_services rs \<and>
    num_mpu rs' = max (num_mpu rs) (min 2 (num_mpu rs + card (due n))) \<and>
    (\<forall>j \<ge> n. service rs' j = service rs j) \<and>
    (\<forall>j < n. (j \<notin> due n \<longrightarrow> service rs' j = service rs j) \<and>
       (j \<in> due n \<longrightarrow> si_state (service rs' j) =
          (if num_mpu rs + card (due j) < 2 then JEZGRO_SERVICE_STATE_RUNNING else JEZGRO_SERVICE_STATE_STARTING)))"
  using assms(2,3) unfolding rs'_def
proof (induction n)
  case 0
  then show ?case using assms(1) by (simp add: due_def)
next
  case (Suc n)
  let ?a = "fold (check_pending_restart now us) [0..<n] rs"
  have IH: "rs_ok ?a" "rs_num_services ?a = rs_num_services rs"
    "num_mpu ?a = max (num_mpu rs) (min 2 (num_mpu rs + card (due n)))" "\<And>j. n \<le> j \<Longrightarrow> service ?a j = service rs j"
    "\<And>j. j < n \<Longrightarrow> j \<notin> due n \<Longrightarrow> service ?a j = service rs j"
    "\<And>j. j < n \<Longrightarrow> j \<in> due n \<Longrightarrow> si_state (service ?a j) =
          (if num_mpu rs + card (due j) < 2 then JEZGRO_SERVICE_STATE_RUNNING else JEZGRO_SERVICE_STATE_STARTING)"
    using Suc by auto
  have len: "n < length (rs_services ?a)" using IH(1,2) Suc.prems(1) by (simp add: rs_ok_def)
  have ok: "rs_ok (check_pending_restart now us n ?a)" using IH(1) by (simp add: rs_ok_def rs_simps)
  have fold: "fold (check_pending_restart now us) [0..<Suc n] rs = check_pending_restart now us n ?a" by simp
  have mem: "j \<in> due (Suc n) \<longleftrightarrow> j \<in> due n \<or> j = n \<and> restart_due now (service rs n)" for j
    by (auto simp: due_def less_Suc_eq)
  show ?case
  proof (cases "restart_due now (service rs n)")
    case True
    then have step: "check_pending_restart now us n ?a = snd (do_start_service ?a n now (us n))"
      using IH(4) [of n] by (simp add: check_pending_restart_def)
    have "due (Suc n) = insert n (due n)" using True mem by blast
    moreover have "n \<notin> due n" "finite (due n)" by (simp_all add: due_def)
    ultimately have card: "card (due (Suc n)) = Suc (card (due n))" by simp
    have can: "can_start ?a n \<longleftrightarrow> num_mpu rs + card (due n) < 2"
      using IH(3,4) Suc.prems(2) [of n] by (auto simp: can_start_def)
    have "num_mpu (snd (do_start_service ?a n now (us n))) = max (num_mpu rs) (min 2 (num_mpu rs + card (due (Suc n))))"
      unfolding do_start_service_result(1) can IH(3) card by auto
    moreover have "si_state (service (snd (do_start_service ?a n now (us n))) n) =
        (if num_mpu rs + card (due n) < 2 then JEZGRO_SERVICE_STATE_RUNNING else JEZGRO_SERVICE_STATE_STARTING)"
      using do_start_service_result(3) [OF len, of now "us n"] by (simp only: can)
    ultimately show ?thesis
      unfolding fold using ok IH step True by (auto simp: rs_simps mem less_Suc_eq)
  next
    case False
    then have step: "check_pending_restart now us n ?a = ?a"
      using IH(4) [of n] by (simp add: check_pending_restart_def)
    have "due (Suc n) = due n" using False mem by blast
    with IH show ?thesis unfolding fold step by (auto simp: less_Suc_eq due_def False)
  qed
qed

text \<open>
  C25. Restarting crashed services. The pass over the pending restarts starts, in the order of the
  table, exactly the crashed services whose delay is over, whether or not they are configured to
  be restarted, as long as the memory protection still has a pair of regions, and leaves the others
  in STARTING, a state no later pass looks at. No operation gives regions back: along any run of
  operations services come up at most as often as regions are handed out, at most twice after
  boot, and once both pairs are taken every service that runs ran before.
\<close>

theorem rs_restart_capacity:
  assumes "rs_ok rs"
  shows "((\<forall>i < rs_num_services rs. sd_id (si_desc (service rs i)) \<noteq> 0) \<longrightarrow>
      (\<forall>j < rs_num_services rs.
        si_state (service (check_pending_restarts now us rs) j) =
         (if \<not> restart_due now (service rs j) then si_state (service rs j)
          else if num_mpu rs + card {i. i < j \<and> restart_due now (service rs i)} < 2
          then JEZGRO_SERVICE_STATE_RUNNING else JEZGRO_SERVICE_STATE_STARTING))) \<and>
    (rs_run rs es = Some rs' \<longrightarrow>
       num_mpu rs + come_ups rs es \<le> num_mpu rs' \<and> num_mpu rs' \<le> max 2 (num_mpu rs) \<and>
       (2 \<le> num_mpu rs \<longrightarrow> running rs' \<subseteq> running rs))"
proof (intro conjI impI allI)
  fix j
  assume "\<forall>i < rs_num_services rs. sd_id (si_desc (service rs i)) \<noteq> 0" and j: "j < rs_num_services rs"
  with pending_loop [OF assms order_refl, of now us]
  show "si_state (service (check_pending_restarts now us rs) j) =
         (if \<not> restart_due now (service rs j) then si_state (service rs j)
          else if num_mpu rs + card {i. i < j \<and> restart_due now (service rs i)} < 2
          then JEZGRO_SERVICE_STATE_RUNNING else JEZGRO_SERVICE_STATE_STARTING)"
    by (simp add: check_pending_restarts_def)
next
  assume "rs_run rs es = Some rs'"
  then show "num_mpu rs + come_ups rs es \<le> num_mpu rs'" "num_mpu rs' \<le> max 2 (num_mpu rs)"
    using come_ups_bound [OF assms] by simp_all
next
  assume "rs_run rs es = Some rs'" "2 \<le> num_mpu rs"
  with assms rs_exhausted.inv_reachable [OF run_reachable, of rs es rs' "running rs"]
  show "running rs' \<subseteq> running rs" by simp
qed

definition blank_ipc :: jezgro_ipc where
  "blank_ipc = \<lparr>ji_endpoints = replicate JEZGRO_IPC_MAX_ENDPOINTS blank_endpoint, ji_current_service = 0,
     ji_notify_callback = False, ji_irq_endpoints = replicate 64 JEZGRO_EP_KERNEL, ji_stats = blank_ipc_stats,
     ji_initialized = True\<rparr>"

definition blank_rs :: jezgro_rs where
  "blank_rs = \<lparr>rs_services = replicate JEZGRO_RS_MAX_SERVICES blank_service, rs_num_services = 0, rs_running = True,
     rs_crash_callback = True, rs_stats = blank_rs_stats, rs_last_heartbeat_check_ms = 0, rs_mpu = blank_mpu,
     rs_ipc = blank_ipc\<rparr>"

text \<open>Three registered services that crashed long ago; none is to be restarted automatically.\<close>

definition three_crashed :: jezgro_rs where
  "three_crashed = blank_rs\<lparr>rs_num_services := 3, rs_services := (rs_services blank_rs)
     [0 := blank_service\<lparr>si_id := 1, si_desc := blank_desc\<lparr>sd_id := 1\<rparr>, si_state := JEZGRO_SERVICE_STATE_CRASHED\<rparr>,
      1 := blank_service\<lparr>si_id := 2, si_desc := blank_desc\<lparr>sd_id := 2\<rparr>, si_state := JEZGRO_SERVICE_STATE_CRASHED\<rparr>,
      2 := blank_service\<lparr>si_id := 3, si_desc := blank_desc\<lparr>sd_id := 3\<rparr>, si_state := JEZGRO_SERVICE_STATE_CRASHED\<rparr>]\<rparr>"

theorem rs_restart_capacity_witness:
  "map (\<lambda>j. si_state (service (check_pending_restarts 500 (\<lambda>_. (0, 10)) three_crashed) j)) [0, 1, 2] =
     [JEZGRO_SERVICE_STATE_RUNNING, JEZGRO_SERVICE_STATE_RUNNING, JEZGRO_SERVICE_STATE_STARTING]"
proof -
  have ok: "rs_ok three_crashed" by (simp add: rs_ok_def three_crashed_def blank_rs_def)
  have ids: "\<forall>i < rs_num_services three_crashed. sd_id (si_desc (service three_crashed i)) \<noteq> 0"
    by (auto simp: three_crashed_def service_def less_Suc_eq numeral_3_eq_3 nth_list_update blank_rs_def)
  have due: "restart_due 500 (service three_crashed i)" if "i < 3" for i
  proof -
    from that consider "i = 0" | "i = 1" | "i = 2" by linarith
    then show ?thesis
      by cases (simp_all add: restart_due_def backoff_ms_def three_crashed_def blank_rs_def blank_service_def service_def)
  qed
  have "{i. i < j \<and> restart_due 500 (service three_crashed i)} = {..<j}" if "j < 3" for j
    using due that by auto
  with rs_restart_capacity [OF ok, of 500 "\<lambda>_. (0, 10)" "[]"] ids due show ?thesis
    by (auto simp: num_mpu_def three_crashed_def blank_rs_def blank_mpu_def)
qed

section \<open>Heartbeats\<close>

lemma check_heartbeats_other [rs_simps]:
  "rs_num_services (fst (fold (check_heartbeat now us) js p)) = rs_num_services (fst p)"
  "length (rs_services (fst (fold (check_heartbeat now us) js p))) = length (rs_services (fst p))"
  "rs_running (fst (fold (check_heartbeat now us) js p)) = rs_running (fst p)"
  "rs_crash_callback (fst (fold (check_heartbeat now us) js p)) = rs_crash_callback (fst p)"
  "j \<notin> set js \<Longrightarrow> service (fst (fold (check_heartbeat now us) js p)) j = service (fst p) j"
  by (induction js arbitrary: p) (simp_all add: rs_simps)

lemma check_pending_other [rs_simps]:
  "rs_num_services (fold (check_pending_restart now us) js rs) = rs_num_services rs"
  "length (rs_services (fold (check_pending_restart now us) js rs)) = length (rs_services rs)"
  "rs_running (fold (check_pending_restart now us) js rs) = rs_running rs"
  "rs_crash_callback (fold (check_pending_restart now us) js rs) = rs_crash_callback rs"
  "rs_last_heartbeat_check_ms (fold (check_pending_restart now us) js rs) = rs_last_heartbeat_check_ms rs"
  by (induction js arbitrary: rs) (simp_all add: rs_simps)

lemma check_pending_not_due: "\<not> restart_due now (service rs i) \<Longrightarrow>
   service (fold (check_pending_restart now us) js rs) i = service rs i"
proof (induction js arbitrary: rs)
  case (Cons j js)
  have "service (check_pending_restart now us j rs) i = service rs i"
    using Cons.prems by (cases "j = i") (simp_all add: rs_simps, simp add: check_pending_restart_def)
  with Cons show ?case by simp
qed simp

text \<open>A run of ticks, with what they report.\<close>

fun rs_ticks :: "jezgro_rs \<Rightarrow> (u32 \<times> (nat \<Rightarrow> u32 \<times> u32)) list \<Rightarrow> jezgro_rs \<times> rs_output list" where
  "rs_ticks rs [] = (rs, [])"
| "rs_ticks rs ((now, us) # ts) =
     (case jezgro_rs_tick now us rs of
        (rs, outs) \<Rightarrow> (case rs_ticks rs ts of (rs, outs') \<Rightarrow> (rs, outs @ outs')))"

text \<open>The reports about one service.\<close>

definition reports :: "u8 \<Rightarrow> rs_output list \<Rightarrow> rs_output list" where
  "reports k outs = filter (\<lambda>out. case out of RsCrashed k' _ \<Rightarrow> k' = k) outs"

lemma reports_simps [simp]: "reports k [] = []" "reports k (xs @ ys) = reports k xs @ reports k ys"
  "reports k [RsCrashed k' r] = (if k' = k then [RsCrashed k' r] else [])"
  by (simp_all add: reports_def)

text \<open>The ids never change, and a visit reports no service but the one it visits.\<close>

lemma id_update_service [rs_simps]:
  "(\<And>s. si_id (f s) = si_id s) \<Longrightarrow> si_id (service (update_service i f rs) j) = si_id (service rs j)"
  by (cases "j = i"; cases "i < length (rs_services rs)")
    (simp_all add: update_service_def service_def not_less list_update_beyond)

lemma do_start_service_id [rs_simps]: "si_id (service (snd (do_start_service rs i now us)) j) = si_id (service rs j)"
  by (simp add: do_start_service_def Let_def case_prod_beta rs_simps)

lemma handle_crash_id [rs_simps]: "si_id (service (fst (handle_crash rs i reason now us)) j) = si_id (service rs j)"
  by (simp add: handle_crash_def Let_def rs_simps record_crash_def)

lemma check_heartbeat_id [rs_simps]: "si_id (service (fst (check_heartbeat now us i p)) j) = si_id (service (fst p) j)"
  by (simp add: check_heartbeat_def Let_def case_prod_beta rs_simps)

lemma check_heartbeats_id [rs_simps]: "si_id (service (fst (fold (check_heartbeat now us) js p)) j) = si_id (service (fst p) j)"
  by (induction js arbitrary: p) (simp_all add: rs_simps)

lemma check_pending_id [rs_simps]: "si_id (service (fold (check_pending_restart now us) js rs) j) = si_id (service rs j)"
  by (induction js arbitrary: rs) (simp_all add: check_pending_restart_def rs_simps)

lemma check_heartbeat_reports:
  "si_id (service (fst p) j) \<noteq> k \<Longrightarrow> reports k (snd (check_heartbeat now us j p)) = reports k (snd p)"
  by (simp add: check_heartbeat_def case_prod_beta Let_def handle_crash_def rs_simps record_crash_def)

lemma check_heartbeats_reports:
  "\<forall>j \<in> set js. si_id (service (fst p) j) \<noteq> k \<Longrightarrow> reports k (snd (fold (check_heartbeat now us) js p)) = reports k (snd p)"
  by (induction js arbitrary: p) (simp_all add: check_heartbeat_reports rs_simps)

definition sole :: "jezgro_rs \<Rightarrow> nat \<Rightarrow> bool" where
  "sole rs i \<longleftrightarrow> (\<forall>j < rs_num_services rs. j \<noteq> i \<longrightarrow> si_id (service rs j) \<noteq> si_id (service rs i))"

text \<open>The visit of one service in the loop sees that service as it was before the loop.\<close>

lemma check_heartbeats_split:
  assumes "i < rs_num_services rs"
  obtains p where "service (fst p) i = service rs i" "rs_crash_callback (fst p) = rs_crash_callback rs"
    "length (rs_services (fst p)) = length (rs_services rs)"
    "service (fst (check_heartbeats now us rs)) i = service (fst (check_heartbeat now us i p)) i"
    "sole rs i \<longrightarrow> reports (si_id (service rs i)) (snd p) = []"
    "sole rs i \<longrightarrow> reports (si_id (service rs i)) (snd (check_heartbeats now us rs)) =
      reports (si_id (service rs i)) (snd (check_heartbeat now us i p))"
proof
  let ?p = "fold (check_heartbeat now us) [0..<i] (rs, [])"
  have "[0..<rs_num_services rs] = [0..<i] @ i # [Suc i..<rs_num_services rs]"
    using assms upt_add_eq_append [of 0 i "rs_num_services rs - i"] by (simp add: upt_conv_Cons)
  then have eq: "check_heartbeats now us rs = fold (check_heartbeat now us) [Suc i..<rs_num_services rs] (check_heartbeat now us i ?p)"
    by (simp add: check_heartbeats_def)
  show "service (fst ?p) i = service rs i" "rs_crash_callback (fst ?p) = rs_crash_callback rs"
    "length (rs_services (fst ?p)) = length (rs_services rs)" by (simp_all add: rs_simps)
  show "service (fst (check_heartbeats now us rs)) i = service (fst (check_heartbeat now us i ?p)) i"
    unfolding eq by (simp add: rs_simps)
  show "sole rs i \<longrightarrow> reports (si_id (service rs i)) (snd ?p) = []"
    using assms check_heartbeats_reports [of "[0..<i]" "(rs, [])" "si_id (service rs i)" now us] by (simp add: sole_def)
  show "sole rs i \<longrightarrow> reports (si_id (service rs i)) (snd (check_heartbeats now us rs)) =
      reports (si_id (service rs i)) (snd (check_heartbeat now us i ?p))"
    unfolding eq by (intro impI check_heartbeats_reports) (simp add: sole_def rs_simps)
qed

definition late :: "jezgro_service_info \<Rightarrow> u32 \<Rightarrow> bool" where
  "late s now \<longleftrightarrow> now - si_last_heartbeat_ms s > JEZGRO_RS_HEARTBEAT_TIMEOUT_MS"

lemma backoff_positive: "si_consecutive_crashes s \<noteq> 0 \<Longrightarrow> backoff_ms s \<noteq> 0"
proof
  assume c: "si_consecutive_crashes s \<noteq> 0" and "backoff_ms s = 0"
  then have "unat (100 * (ucast (si_consecutive_crashes s) :: u32)) = 0" by (simp only: backoff_ms_def) simp
  then have "100 * unat (si_consecutive_crashes s) = 0"
    using unat_u8_less [of "si_consecutive_crashes s"] by (simp add: unat_word_ariths unat_ucast_up)
  with c show False by (simp add: unsigned_eq_0_iff)
qed

lemma record_crash_simps [rs_simps]:
  "si_id (record_crash reason now s) = si_id s" "si_auto_restart (record_crash reason now s) = si_auto_restart s"
  "si_consecutive_crashes (record_crash reason now s) = si_consecutive_crashes s + 1"
  "si_last_crash (record_crash reason now s) = reason" "si_last_crash_time_ms (record_crash reason now s) = now"
  by (simp_all add: record_crash_def Let_def)

definition crashed_service :: "jezgro_crash_reason \<Rightarrow> u32 \<Rightarrow> jezgro_service_info \<Rightarrow> jezgro_service_info" where
  "crashed_service reason now s =
     (let s = record_crash reason now s
      in if si_auto_restart s \<and> si_consecutive_crashes s \<ge> JEZGRO_RS_MAX_RESTART_ATTEMPTS
         then s\<lparr>si_state := JEZGRO_SERVICE_STATE_DEAD\<rparr> else s)"

lemma crash_counter: "c \<noteq> 255 \<Longrightarrow> c + 1 \<noteq> (0 :: u8)"
proof
  assume "c \<noteq> 255" "c + 1 = 0"
  then have "c = - 1" by (simp add: eq_neg_iff_add_eq_0)
  with \<open>c \<noteq> 255\<close> show False by simp
qed

lemma handle_crash_service:
  assumes "i < length (rs_services rs)" "si_consecutive_crashes (service rs i) \<noteq> 255"
  shows "service (fst (handle_crash rs i reason now us)) i = crashed_service reason now (service rs i)"
    and "snd (handle_crash rs i reason now us) = (if rs_crash_callback rs then [RsCrashed (si_id (service rs i)) reason] else [])"
proof -
  have "backoff_ms (record_crash reason now (service rs i)) \<noteq> 0"
    using crash_counter [OF assms(2)] by (intro backoff_positive) (simp add: rs_simps)
  then show "service (fst (handle_crash rs i reason now us)) i = crashed_service reason now (service rs i)"
    using assms(1) by (simp add: handle_crash_def Let_def rs_simps crashed_service_def)
  show "snd (handle_crash rs i reason now us) = (if rs_crash_callback rs then [RsCrashed (si_id (service rs i)) reason] else [])"
    using assms(1) by (simp add: handle_crash_def Let_def rs_simps)
qed

lemma crashed_not_due: "si_consecutive_crashes s \<noteq> 255 \<Longrightarrow> \<not> restart_due now (crashed_service reason now s)"
proof -
  assume "si_consecutive_crashes s \<noteq> 255"
  then have "backoff_ms (record_crash reason now s) \<noteq> 0" by (intro backoff_positive) (simp add: rs_simps crash_counter)
  moreover have "x \<le> 0 \<longleftrightarrow> x = 0" for x :: u32 by simp
  ultimately show ?thesis by (auto simp: restart_due_def crashed_service_def Let_def rs_simps)
qed

text \<open>What a visit does to the service it visits.\<close>

definition visited :: "u32 \<Rightarrow> jezgro_service_info \<Rightarrow> jezgro_service_info" where
  "visited now s =
     (if \<not> late s now then s
      else if si_missed_heartbeats s + 1 \<ge> 3
      then crashed_service JEZGRO_CRASH_HEARTBEAT now (s\<lparr>si_missed_heartbeats := si_missed_heartbeats s + 1\<rparr>)
      else s\<lparr>si_missed_heartbeats := si_missed_heartbeats s + 1\<rparr>)"

lemma check_heartbeat_visited:
  assumes "i < length (rs_services (fst p))" "si_state (service (fst p) i) = JEZGRO_SERVICE_STATE_RUNNING"
    and "si_consecutive_crashes (service (fst p) i) \<noteq> 255"
  shows "service (fst (check_heartbeat now us i p)) i = visited now (service (fst p) i)"
    and "snd (check_heartbeat now us i p) = snd p @
      (if late (service (fst p) i) now \<and> si_missed_heartbeats (service (fst p) i) + 1 \<ge> 3 \<and> rs_crash_callback (fst p)
       then [RsCrashed (si_id (service (fst p) i)) JEZGRO_CRASH_HEARTBEAT] else [])"
  using assms
  by (auto simp: check_heartbeat_def visited_def late_def case_prod_beta Let_def rs_simps handle_crash_service)

lemma visited_state:
  assumes "si_state s = JEZGRO_SERVICE_STATE_RUNNING" "si_consecutive_crashes s \<noteq> 255"
  shows "\<not> restart_due now (visited now s)"
proof (cases "late s now \<and> si_missed_heartbeats s + 1 \<ge> 3")
  case True
  then show ?thesis using assms(2) by (simp add: visited_def crashed_not_due)
next
  case False
  then have "si_state (visited now s) = JEZGRO_SERVICE_STATE_RUNNING" using assms(1) by (auto simp: visited_def)
  then show ?thesis by (simp add: restart_due_def)
qed

lemma tick_visits:
  assumes "rs_ok rs" "rs_running rs" "i < rs_num_services rs" "si_state (service rs i) = JEZGRO_SERVICE_STATE_RUNNING"
    and "si_consecutive_crashes (service rs i) \<noteq> 255" "now - rs_last_heartbeat_check_ms rs \<ge> JEZGRO_RS_HEARTBEAT_INTERVAL_MS"
  shows "service (fst (jezgro_rs_tick now us rs)) i = visited now (service rs i)"
    and "rs_ok (fst (jezgro_rs_tick now us rs))" "rs_running (fst (jezgro_rs_tick now us rs))"
    and "rs_num_services (fst (jezgro_rs_tick now us rs)) = rs_num_services rs"
    and "rs_crash_callback (fst (jezgro_rs_tick now us rs)) = rs_crash_callback rs"
    and "rs_last_heartbeat_check_ms (fst (jezgro_rs_tick now us rs)) = now"
    and "si_id (service (fst (jezgro_rs_tick now us rs)) j) = si_id (service rs j)"
    and "sole rs i \<Longrightarrow> reports (si_id (service rs i)) (snd (jezgro_rs_tick now us rs)) =
      (if late (service rs i) now \<and> si_missed_heartbeats (service rs i) + 1 \<ge> 3 \<and> rs_crash_callback rs
       then [RsCrashed (si_id (service rs i)) JEZGRO_CRASH_HEARTBEAT] else [])"
proof -
  have tick: "jezgro_rs_tick now us rs =
      (check_pending_restarts now us ((fst (check_heartbeats now us rs))\<lparr>rs_last_heartbeat_check_ms := now\<rparr>),
       snd (check_heartbeats now us rs))"
    using assms(2,6) by (simp add: jezgro_rs_tick_def case_prod_beta)
  have len: "i < length (rs_services rs)" using assms(1,3) by (simp add: rs_ok_def)
  obtain p where p: "service (fst p) i = service rs i" "rs_crash_callback (fst p) = rs_crash_callback rs"
    "length (rs_services (fst p)) = length (rs_services rs)"
    "service (fst (check_heartbeats now us rs)) i = service (fst (check_heartbeat now us i p)) i"
    "sole rs i \<longrightarrow> reports (si_id (service rs i)) (snd p) = []"
    "sole rs i \<longrightarrow> reports (si_id (service rs i)) (snd (check_heartbeats now us rs)) =
      reports (si_id (service rs i)) (snd (check_heartbeat now us i p))"
    by (rule check_heartbeats_split [OF assms(3), of now us])
  have vis: "service (fst (check_heartbeats now us rs)) i = visited now (service rs i)"
    using check_heartbeat_visited(1) [of i p now us] p assms(4,5) len by simp
  show "service (fst (jezgro_rs_tick now us rs)) i = visited now (service rs i)"
    using visited_state [OF assms(4,5), of now]
    by (simp add: tick check_pending_restarts_def check_pending_not_due rs_simps vis)
  show "rs_ok (fst (jezgro_rs_tick now us rs))" "rs_running (fst (jezgro_rs_tick now us rs))"
    "rs_num_services (fst (jezgro_rs_tick now us rs)) = rs_num_services rs"
    "rs_crash_callback (fst (jezgro_rs_tick now us rs)) = rs_crash_callback rs"
    "rs_last_heartbeat_check_ms (fst (jezgro_rs_tick now us rs)) = now"
    using assms(1,2) by (simp_all add: tick check_pending_restarts_def check_heartbeats_def rs_simps rs_ok_def)
  show "si_id (service (fst (jezgro_rs_tick now us rs)) j) = si_id (service rs j)"
    by (simp add: tick check_pending_restarts_def check_heartbeats_def rs_simps)
  show "reports (si_id (service rs i)) (snd (jezgro_rs_tick now us rs)) =
      (if late (service rs i) now \<and> si_missed_heartbeats (service rs i) + 1 \<ge> 3 \<and> rs_crash_callback rs
       then [RsCrashed (si_id (service rs i)) JEZGRO_CRASH_HEARTBEAT] else [])" if "sole rs i"
    using check_heartbeat_visited(2) [of i p now us] p(1-3) p(5,6) that assms(4,5) len by (simp add: tick)
qed

fun spaced :: "u32 \<Rightarrow> (u32 \<times> (nat \<Rightarrow> u32 \<times> u32)) list \<Rightarrow> bool" where
  "spaced t [] \<longleftrightarrow> True"
| "spaced t ((now, us) # ts) \<longleftrightarrow> now - t \<ge> JEZGRO_RS_HEARTBEAT_INTERVAL_MS \<and> spaced now ts"

lemma ticks_count:
  assumes "rs_ok rs" "rs_running rs" "i < rs_num_services rs" "si_state (service rs i) = JEZGRO_SERVICE_STATE_RUNNING"
    and "si_consecutive_crashes (service rs i) \<noteq> 255" "sole rs i" "spaced (rs_last_heartbeat_check_ms rs) ts"
    and "unat (si_missed_heartbeats (service rs i)) + length (filter (late (service rs i) \<circ> fst) ts) \<le> 2"
    and "rs_ticks rs ts = (rs1, outs)"
  shows "service rs1 i = (service rs i)\<lparr>si_missed_heartbeats :=
      si_missed_heartbeats (service rs i) + of_nat (length (filter (late (service rs i) \<circ> fst) ts))\<rparr> \<and>
    reports (si_id (service rs i)) outs = [] \<and> rs_ok rs1 \<and> rs_running rs1 \<and> rs_num_services rs1 = rs_num_services rs \<and>
    rs_crash_callback rs1 = rs_crash_callback rs \<and> sole rs1 i \<and>
    rs_last_heartbeat_check_ms rs1 = last (rs_last_heartbeat_check_ms rs # map fst ts)"
  using assms
proof (induction ts arbitrary: rs outs)
  case (Cons e ts)
  obtain now us where e: "e = (now, us)" by (cases e)
  let ?s = "service rs i" and ?rs = "fst (jezgro_rs_tick now us rs)"
  have "now - rs_last_heartbeat_check_ms rs \<ge> JEZGRO_RS_HEARTBEAT_INTERVAL_MS" using Cons.prems(7) e by simp
  note tick = tick_visits [OF Cons.prems(1-5) this]
  obtain outs' where run: "rs_ticks ?rs ts = (rs1, outs')" "outs = snd (jezgro_rs_tick now us rs) @ outs'"
    using Cons.prems(9) e by (auto split: prod.splits)
  define m where "m = si_missed_heartbeats ?s + (if late ?s now then 1 else 0)"
  have m: "unat m = unat (si_missed_heartbeats ?s) + (if late ?s now then 1 else 0)"
  proof -
    have "unat (si_missed_heartbeats ?s) + 1 < 256 \<or> \<not> late ?s now" using Cons.prems(8) e by (auto split: if_splits)
    then show ?thesis using unat_u8_less [of "si_missed_heartbeats ?s"] by (auto simp: m_def unat_word_ariths)
  qed
  have three: "\<not> 3 \<le> si_missed_heartbeats ?s + 1" if "late ?s now"
  proof -
    have "unat m \<le> 2" using that m Cons.prems(8) e by simp
    then show ?thesis using that by (simp add: word_le_nat_alt m_def)
  qed
  have vis: "service ?rs i = ?s\<lparr>si_missed_heartbeats := m\<rparr>"
    using three by (auto simp: tick(1) visited_def m_def)
  have quiet: "reports (si_id ?s) (snd (jezgro_rs_tick now us rs)) = []"
    using tick(8) [OF Cons.prems(6)] three by auto
  have same: "late (service ?rs i) = late ?s" by (simp add: vis late_def fun_eq_iff)
  have sole: "sole ?rs i" using Cons.prems(6) by (simp add: sole_def tick(4,7))
  have "service rs1 i = (service ?rs i)\<lparr>si_missed_heartbeats :=
      si_missed_heartbeats (service ?rs i) + of_nat (length (filter (late (service ?rs i) \<circ> fst) ts))\<rparr> \<and>
    reports (si_id (service ?rs i)) outs' = [] \<and> rs_ok rs1 \<and> rs_running rs1 \<and> rs_num_services rs1 = rs_num_services ?rs \<and>
    rs_crash_callback rs1 = rs_crash_callback ?rs \<and> sole rs1 i \<and>
    rs_last_heartbeat_check_ms rs1 = last (rs_last_heartbeat_check_ms ?rs # map fst ts)"
    using Cons.prems e tick(2-6) m sole run(1) by (intro Cons.IH) (auto simp: same, simp_all add: vis split: if_splits)
  then show ?case
    unfolding same using tick(4,5,6) e quiet run(2) by (simp add: vis m_def add.assoc o_def)
qed simp

text \<open>
  C26. Detecting a service that hangs. Let a service run whose id no other registered service has, and
  let checks follow each other, whatever the other services do. While at most two of the checks come later
  than 50 ms after its last heartbeat, the service is left running, its counter is the number of those
  checks and none of them reports it. The third late check reports it as crashed, exactly once,
  records the crash with its time and reason, and marks the service dead exactly when it restarts
  automatically and this is its fifth crash in a row. A service is therefore not dead at its first missed
  deadline of 50 ms, as the header has it, but at the third check behind it.
\<close>

theorem rs_detects_hang:
  assumes "rs_ok rs" "rs_running rs" "rs_crash_callback rs" "i < rs_num_services rs"
    and "si_state (service rs i) = JEZGRO_SERVICE_STATE_RUNNING" "si_missed_heartbeats (service rs i) = 0"
    and "si_consecutive_crashes (service rs i) \<noteq> 255"
    and "\<forall>j < rs_num_services rs. j \<noteq> i \<longrightarrow> si_id (service rs j) \<noteq> si_id (service rs i)"
    and "spaced (rs_last_heartbeat_check_ms rs) ts" "k = length (filter (late (service rs i) \<circ> fst) ts)" "k \<le> 2"
    and "rs_ticks rs ts = (rs1, outs)"
  shows "service rs1 i = (service rs i)\<lparr>si_missed_heartbeats := of_nat k\<rparr> \<and>
    reports (si_id (service rs i)) outs = [] \<and>
    (k = 2 \<and> late (service rs i) now \<and> now - rs_last_heartbeat_check_ms rs1 \<ge> JEZGRO_RS_HEARTBEAT_INTERVAL_MS \<longrightarrow>
     (case jezgro_rs_tick now us rs1 of (rs', outs') \<Rightarrow>
        reports (si_id (service rs i)) outs' = [RsCrashed (si_id (service rs i)) JEZGRO_CRASH_HEARTBEAT] \<and>
        si_state (service rs' i) =
          (if si_auto_restart (service rs i) \<and> si_consecutive_crashes (service rs i) + 1 \<ge> JEZGRO_RS_MAX_RESTART_ATTEMPTS
           then JEZGRO_SERVICE_STATE_DEAD else JEZGRO_SERVICE_STATE_CRASHED) \<and>
        si_last_crash (service rs' i) = JEZGRO_CRASH_HEARTBEAT \<and> si_last_crash_time_ms (service rs' i) = now \<and>
        si_consecutive_crashes (service rs' i) = si_consecutive_crashes (service rs i) + 1))"
proof (intro conjI impI)
  let ?s = "service rs i"
  have sole: "sole rs i" using assms(8) by (simp add: sole_def)
  have count: "service rs1 i = ?s\<lparr>si_missed_heartbeats := of_nat k\<rparr>" "reports (si_id ?s) outs = []" "rs_ok rs1" "rs_running rs1"
    "rs_num_services rs1 = rs_num_services rs" "rs_crash_callback rs1 = rs_crash_callback rs" "sole rs1 i"
    using ticks_count [OF assms(1,2,4,5,7) sole assms(9) _ assms(12)] assms(6,10,11) by simp_all
  show "service rs1 i = ?s\<lparr>si_missed_heartbeats := of_nat k\<rparr>" "reports (si_id ?s) outs = []" by (rule count)+
  assume third: "k = 2 \<and> late ?s now \<and> now - rs_last_heartbeat_check_ms rs1 \<ge> JEZGRO_RS_HEARTBEAT_INTERVAL_MS"
  have late: "late (service rs1 i) now" using third by (simp add: count(1) late_def)
  have "i < rs_num_services rs1" "si_state (service rs1 i) = JEZGRO_SERVICE_STATE_RUNNING" "si_consecutive_crashes (service rs1 i) \<noteq> 255"
    using assms(4,5,7) by (simp_all add: count(1,5))
  note tick = tick_visits [OF count(3,4) this conjunct2 [OF conjunct2 [OF third]], of us]
  have "service (fst (jezgro_rs_tick now us rs1)) i =
      crashed_service JEZGRO_CRASH_HEARTBEAT now (?s\<lparr>si_missed_heartbeats := 3\<rparr>)"
    using tick(1) late third by (simp add: visited_def) (simp add: count(1))
  moreover have "reports (si_id ?s) (snd (jezgro_rs_tick now us rs1)) = [RsCrashed (si_id ?s) JEZGRO_CRASH_HEARTBEAT]"
    using tick(8) [OF count(7)] late third assms(3) by (simp add: count(1,6))
  ultimately show "case jezgro_rs_tick now us rs1 of (rs', outs') \<Rightarrow>
        reports (si_id ?s) outs' = [RsCrashed (si_id ?s) JEZGRO_CRASH_HEARTBEAT] \<and>
        si_state (service rs' i) =
          (if si_auto_restart ?s \<and> si_consecutive_crashes ?s + 1 \<ge> JEZGRO_RS_MAX_RESTART_ATTEMPTS
           then JEZGRO_SERVICE_STATE_DEAD else JEZGRO_SERVICE_STATE_CRASHED) \<and>
        si_last_crash (service rs' i) = JEZGRO_CRASH_HEARTBEAT \<and> si_last_crash_time_ms (service rs' i) = now \<and>
        si_consecutive_crashes (service rs' i) = si_consecutive_crashes ?s + 1"
    by (auto simp: case_prod_beta crashed_service_def Let_def rs_simps)
qed

definition one_running :: jezgro_rs where
  "one_running = blank_rs\<lparr>rs_num_services := 1, rs_services := (rs_services blank_rs)
     [0 := blank_service\<lparr>si_id := 1, si_auto_restart := True, si_state := JEZGRO_SERVICE_STATE_RUNNING\<rparr>]\<rparr>"

theorem rs_detects_hang_witness:
  "\<exists>rs1 outs rs' outs'. rs_ticks one_running [(30, \<lambda>_. (0, 0)), (60, \<lambda>_. (0, 0)), (90, \<lambda>_. (0, 0))] = (rs1, outs) \<and>
     reports 1 outs = [] \<and> si_missed_heartbeats (service rs1 0) = 2 \<and>
     jezgro_rs_tick 120 (\<lambda>_. (0, 0)) rs1 = (rs', outs') \<and> reports 1 outs' = [RsCrashed 1 JEZGRO_CRASH_HEARTBEAT]"
proof -
  let ?ts = "[(30 :: u32, \<lambda>_. (0, 0)), (60, \<lambda>_. (0, 0)), (90, \<lambda>_. (0, 0))] :: (u32 \<times> (nat \<Rightarrow> u32 \<times> u32)) list"
  obtain rs1 outs where run: "rs_ticks one_running ?ts = (rs1, outs)" by (cases "rs_ticks one_running ?ts")
  obtain rs' outs' where fourth: "jezgro_rs_tick 120 (\<lambda>_. (0, 0)) rs1 = (rs', outs')" by (cases "jezgro_rs_tick 120 (\<lambda>_. (0, 0)) rs1")
  have s: "service one_running 0 = blank_service\<lparr>si_id := 1, si_auto_restart := True, si_state := JEZGRO_SERVICE_STATE_RUNNING\<rparr>"
    by (simp add: one_running_def service_def blank_rs_def)
  have k: "2 = length (filter (late (service one_running 0) \<circ> fst) ?ts)"
    unfolding s by (simp add: late_def blank_service_def)
  have ok: "rs_ok one_running" "rs_running one_running" "rs_crash_callback one_running" "0 < rs_num_services one_running"
    "\<forall>j < rs_num_services one_running. j \<noteq> 0 \<longrightarrow> si_id (service one_running j) \<noteq> si_id (service one_running 0)"
    "spaced (rs_last_heartbeat_check_ms one_running) ?ts"
    by (simp_all add: rs_ok_def one_running_def blank_rs_def)
  have run1: "si_state (service one_running 0) = JEZGRO_SERVICE_STATE_RUNNING" "si_missed_heartbeats (service one_running 0) = 0"
    "si_consecutive_crashes (service one_running 0) \<noteq> 255" "si_id (service one_running 0) = 1" "late (service one_running 0) 120"
    unfolding s by (simp_all add: blank_service_def late_def)
  have "sole one_running 0" using ok(5) by (simp add: sole_def)
  from ticks_count [OF ok(1,2,4) run1(1,3) this ok(6) _ run] k run1(2) have last: "rs_last_heartbeat_check_ms rs1 = 90" by simp
  from rs_detects_hang [OF ok(1-4) run1(1-3) ok(5,6) k _ run, of 120 "\<lambda>_. (0, 0)"] run fourth run1(4,5) last show ?thesis
    by (intro exI [of _ rs1] exI [of _ outs] exI [of _ rs'] exI [of _ outs']) simp
qed

end
