(* ===== verification/Spec2Isabelle.thy ===== *)
theory Spec2Isabelle
  imports Ekk_Spsc Ekk_Raft Ekk_Coordination Ekk_Gateway Ekkfs_Files Ekk_Stigmergy Ekk_Auth Jezgro_Rs
begin

text \<open>
  EK-KOR v2: a coordination kernel for power modules without a central controller, in C
  (directory \<open>src/c\<close> of the repository). This theory is the root of the development and has no
  content of its own: the models and theorems are in the theories it imports.

  The program and its parts. Every module runs a tick (\<open>ekk_module_tick\<close>): it takes heartbeats of
  its neighbors (\<open>ekk_heartbeat.c\<close>), keeps the k nearest modules as neighbors (\<open>ekk_topology.c\<close>),
  votes on proposals (\<open>ekk_consensus.c\<close>), publishes and samples fields in shared memory
  (\<open>ekk_field.c\<close>) and runs one task (\<open>ekk_module.c\<close>). Beside it stand the handling of network
  partitions (\<open>ekk_partition.c\<close>) that gates leader election (\<open>ekk_raft.c\<close>), the gossip of events
  (\<open>ekk_gossip.c\<close>), thermal balancing (\<open>ekk_stigmergy.c\<close>), message authentication (\<open>ekk_auth.c\<close>), the
  ring buffer between an interrupt and a task (\<open>ekk_spsc.c\<close>), the gateway that stores events
  (\<open>ekk_gateway.c\<close>, \<open>ekk_stream_index.c\<close>, \<open>ekk_flash_log.c\<close>), the file system (\<open>ekkfs.c\<close>) and the
  microkernel services: messages (\<open>jezgro_ipc.c\<close>), memory protection (\<open>jezgro_mpu.c\<close>) and the server
  that restarts crashed services (\<open>jezgro_reincarnation.c\<close>).

  How the code is modelled. A C struct is a record with the names of its fields behind a short
  prefix, an enumeration a datatype, an unsigned integer a word of its width (\<open>Ekk_Prelude\<close>), a
  signed one an \<open>int\<close> reduced where the code reduces it, an array a list that keeps its length. A
  function of the code is a definition with the same name, from the state and its arguments to
  its result and the new state. Static variables are part of the state. Clock readings and results of
  the hardware layer are arguments, or a record of functions over the state of the hardware
  (\<open>flash_hal\<close>, \<open>sd_driver\<close>); calls of callbacks, messages sent and interrupts raised are lists of
  outputs. A loop over an array is a function on indices; a loop that may not end is a partial
  function and answers \<open>None\<close>. Undefined behaviour is \<open>None\<close> too where a reachable input causes it.
  Pointers to the main object of an operation are not null.

  The theories, from the bottom:

  \<open>Ekk_Prelude\<close>: integer types, search and removal in arrays, loops that collect outputs.
  \<open>Ekk_Types\<close> (\<open>ekk_types.h\<close>, \<open>ekk_types.c\<close>): shared types, fixed-point arithmetic; the
  decay is bounded and antitone, the square root converges, interpolation stays between its ends.
  \<open>Ekk_Interfaces\<close>: the contracts between components as locales: a bounded queue, a table of neighbors,
  a machine with an invariant, each interpreted on the models of the components that provide it.
  \<open>Ekk_Bytes\<close>, \<open>Ekk_Crc\<close>: packed little-endian structures; both checksum tables against the bitwise CRC-32.

  \<open>Ekk_Spsc\<close>: the ring buffer is a bounded queue, also when producer and consumer interleave byte by byte.
  \<open>Ekk_Heartbeat\<close>: a silent neighbor is declared dead. \<open>Ekk_Topology\<close>: the elected neighbors are the k
  nearest, through every run. \<open>Ekk_Consensus\<close>: ballots count the yes and no votes of each voter slot once (but
  an abstention as often as it is repeated), an early decision is the final one, the tick decides and reports
  exactly the ballots that are due, and the table of ballots can fill up for ever. \<open>Ekk_Field\<close>: the sequence lock
  never yields a torn read; what is published is sampled with the right decay. \<open>Ekk_Module\<close> and
  \<open>Ekk_Coordination\<close>: selection of the task, and the whole tick as the composition of the
  components above, along every run: the states a module goes through, and what missing heartbeats do to the
  neighbors, whatever messages come in the same tick. \<open>Ekk_Partition\<close>: no two halves of a network both elect.
  \<open>Ekk_Raft\<close>: one leader for each term in every reachable state of a cluster over a lossy network,
  and the step-down that breaks it. \<open>Ekk_Gossip\<close>: events are delivered in order and once.
  \<open>Ekk_Stigmergy\<close>, \<open>Ekk_Auth\<close>: the heat tags; incremental against one-shot authentication.

  \<open>Ekk_Stream_Index\<close>, \<open>Ekk_Flash_Log\<close>, \<open>Ekk_Gateway\<close>: queries answer exactly the stored entries (by time
  only where time stamps are in order);
  the log reads back what was appended and wears the flash evenly; the event store on top of both.
  \<open>Ekkfs_Block\<close>: the block cache cannot be observed. \<open>Ekkfs_Journal\<close>: allocation takes the first free
  block, an aborted transaction is undone. \<open>Ekkfs_Files\<close>: what is written to a file reads back.

  \<open>Jezgro_Ipc\<close>: the endpoints implement bounded mailboxes. \<open>Jezgro_Mpu\<close>: the registers hold the
  protection that was asked for. \<open>Jezgro_Rs\<close>: a service that hangs is reported at the third
  late check and not before; services are restarted while regions last.

  Bounds and fuel. Waiting operations (a call that polls for its reply) take the list of the clock readings
  they get to see, so the list bounds the rounds; the theorems hold for every list. Partial
  functions (the replay of gossip, the broadcast of the kernel, the clearing of the stream
  index, the scans of the journal) have no bound; where the code ends this is proved, and where it does
  not (the clearing loop, a broadcast while another endpoint is full, a replay up to the last number)
  the result is proved to be \<open>None\<close>. The file system theorems assume a card that does not fail
  (\<open>sd_partition\<close>), at most 61 journal entries for each transaction, and the ten direct blocks of a file.

  Not modelled. The database on top of the file system (\<open>ekkdb_kv.c\<close>, \<open>ekkdb_ts.c\<close>, \<open>ekkdb_log.c\<close>) and the
  client libraries \<open>ekkdb_client.c\<close> and \<open>ekk_fs_client.c\<close>, which pack requests into messages; the servers and drivers of the
  Raspberry Pi (\<open>src/hal/rpi3\<close>: interrupts, timers, USB, SD card, screen, shell) and the other hardware
  layers (\<open>src/hal\<close>, but for the flash driver of the TC397), which read and write device registers whose behaviour
  the repository does not define; \<open>ekk_init.c\<close>, which prints a banner; start-up code, examples, tests and the
  simulation; the vendored cJSON and the files CMake generates; and the other languages of the
  repository (the Rust port, the EKKL compiler, scripts). Real time, memory ordering weaker than the order
  of the source, and side channels are outside the model throughout.
\<close>

end
